(* ===== verification/Prelude.thy ===== *)
theory Prelude
  imports Main "HOL-Library.Word"
begin

unbundle bit_operations_syntax

text \<open>
  The vocabulary every component shares: Rust's machine integers, byte strings and
  their little-endian words, results with an error value, decimal printing and parsing,
  and UTF-8 validity. Nothing here is specific to one source file of DoLogger; the
  definitions follow the Rust standard library operations the sources call.
\<close>

section \<open>Integers, bytes and strings\<close>

type_synonym u8 = "8 word"
type_synonym u16 = "16 word"
type_synonym u32 = "32 word"
type_synonym u64 = "64 word"
type_synonym bytes = "u8 list"

text \<open>Collections: facts about little-endian bytes, and facts about results.\<close>

named_theorems le_simps \<open>round trips and lengths of little-endian encodings\<close>
named_theorems res_simps \<open>evaluation and case analysis of results\<close>

text \<open>
  A Rust \<open>&str\<close> is a byte string. Field names and other text the code compares with
  literals are HOL strings (a HOL character is one byte), payloads are lists of
  \<open>u8\<close>; \<open>str_bytes\<close> is \<open>str::as_bytes\<close>.
\<close>

definition str_bytes :: "string \<Rightarrow> bytes" where
  "str_bytes s = map of_char s"

definition bytes_str :: "bytes \<Rightarrow> string" where
  "bytes_str bs = map (\<lambda>b. char_of (unat b)) bs"

lemma length_str_bytes [simp]: "length (str_bytes s) = length s"
  by (simp add: str_bytes_def)

lemma length_bytes_str [simp]: "length (bytes_str bs) = length bs"
  by (simp add: bytes_str_def)

lemma unat_bound: "unat (w :: 'a::len word) < 2 ^ LENGTH('a)"
  by (rule unsigned_less)

lemma unat_u8_less [simp]: "unat (b :: u8) < 256"
  using unat_bound [of b] by simp

lemma unat_of_char: "unat (of_char c :: u8) = of_char c"
proof -
  have "(of_char c :: u8) = of_nat (of_char c)"
    by (simp add: of_nat_of_char)
  then show ?thesis
    by (simp add: unat_of_nat)
qed

lemma bytes_str_bytes [simp]: "bytes_str (str_bytes s) = s"
  by (induction s) (simp_all add: bytes_str_def str_bytes_def unat_of_char)

lemma of_char_unat: "(of_char (char_of (unat b)) :: u8) = b"
proof -
  have "(of_char (char_of (unat b)) :: nat) = unat b"
    by simp
  then have "(of_nat (of_char (char_of (unat b))) :: u8) = of_nat (unat b)"
    by (rule arg_cong)
  then show ?thesis
    by (simp only: of_nat_of_char) simp
qed

lemma str_bytes_str [simp]: "str_bytes (bytes_str bs) = bs"
  by (induction bs) (simp_all add: bytes_str_def str_bytes_def of_char_unat)

lemma str_bytes_eq_iff [simp]: "str_bytes s = str_bytes t \<longleftrightarrow> s = t"
  by (metis bytes_str_bytes)

definition starts_with :: "'a list \<Rightarrow> 'a list \<Rightarrow> bool" where
  "starts_with p s \<longleftrightarrow> take (length p) s = p"

lemma starts_with_append [simp]: "starts_with p (p @ s)"
  by (simp add: starts_with_def)

lemma starts_with_iff: "starts_with p s \<longleftrightarrow> (\<exists>t. s = p @ t)"
  by (metis append_eq_conv_conj append_take_drop_id starts_with_def)

section \<open>Little-endian words\<close>

text \<open>
  \<open>to_le k n\<close> is \<open>to_le_bytes\<close> of the \<open>k\<close>-byte integer \<open>n\<close>, \<open>from_le\<close> is
  \<open>from_le_bytes\<close>.
\<close>

fun to_le :: "nat \<Rightarrow> nat \<Rightarrow> bytes" where
  "to_le 0 n = []"
| "to_le (Suc k) n = of_nat (n mod 256) # to_le k (n div 256)"

fun from_le :: "bytes \<Rightarrow> nat" where
  "from_le [] = 0"
| "from_le (b # bs) = unat b + 256 * from_le bs"

lemma length_to_le [simp, le_simps]: "length (to_le k n) = k"
  by (induction k arbitrary: n) simp_all

lemma from_le_to_le_mod: "from_le (to_le k n) = n mod 256 ^ k"
proof (induction k arbitrary: n)
  case 0
  then show ?case by simp
next
  case (Suc k)
  have "unat (of_nat (n mod 256) :: u8) = n mod 256"
    by (simp add: unat_of_nat)
  then show ?case
    by (simp add: Suc mod_mult2_eq)
qed

lemma from_le_to_le [le_simps]: "n < 256 ^ k \<Longrightarrow> from_le (to_le k n) = n"
  by (simp add: from_le_to_le_mod)

lemma from_le_bound: "from_le bs < 256 ^ length bs"
proof (induction bs)
  case Nil
  then show ?case by simp
next
  case (Cons b bs)
  from Cons.IH have "from_le bs + 1 \<le> 256 ^ length bs" by simp
  then have "256 * (from_le bs + 1) \<le> 256 * 256 ^ length bs"
    by (rule mult_le_mono2)
  with unat_u8_less [of b] show ?case
    by (simp del: unat_u8_less)
qed

lemma to_le_from_le [le_simps]: "length bs = k \<Longrightarrow> to_le k (from_le bs) = bs"
proof (induction bs arbitrary: k)
  case Nil
  then show ?case by simp
next
  case (Cons b bs)
  have b: "unat b < 256" by simp
  from Cons.prems obtain j where "k = Suc j" "length bs = j" by auto
  with Cons.IH b show ?case by simp
qed

definition le16 :: "u16 \<Rightarrow> bytes" where "le16 w = to_le 2 (unat w)"
definition le32 :: "u32 \<Rightarrow> bytes" where "le32 w = to_le 4 (unat w)"
definition le64 :: "u64 \<Rightarrow> bytes" where "le64 w = to_le 8 (unat w)"

definition u16_of :: "bytes \<Rightarrow> u16" where "u16_of bs = of_nat (from_le bs)"
definition u32_of :: "bytes \<Rightarrow> u32" where "u32_of bs = of_nat (from_le bs)"
definition u64_of :: "bytes \<Rightarrow> u64" where "u64_of bs = of_nat (from_le bs)"

lemma length_le [simp, le_simps]:
  "length (le16 a) = 2" "length (le32 b) = 4" "length (le64 c) = 8"
  by (simp_all add: le16_def le32_def le64_def)

lemma from_le_le16 [simp, le_simps]: "from_le (le16 w) = unat w"
  using unat_bound [of w] by (simp add: le16_def from_le_to_le_mod)

lemma from_le_le32 [simp, le_simps]: "from_le (le32 w) = unat w"
  using unat_bound [of w] by (simp add: le32_def from_le_to_le_mod)

lemma from_le_le64 [simp, le_simps]: "from_le (le64 w) = unat w"
  using unat_bound [of w] by (simp add: le64_def from_le_to_le_mod)

lemma u_of_le [simp, le_simps]:
  "u16_of (le16 a) = a" "u32_of (le32 b) = b" "u64_of (le64 c) = c"
  by (simp_all add: u16_of_def u32_of_def u64_of_def)

lemma le_inj [simp]:
  "le16 a = le16 a' \<longleftrightarrow> a = a'" "le32 b = le32 b' \<longleftrightarrow> b = b'" "le64 c = le64 c' \<longleftrightarrow> c = c'"
  by (metis u_of_le(1), metis u_of_le(2), metis u_of_le(3))

text \<open>Saturating and checked operations on 64-bit counters.\<close>

definition sat_add64 :: "u64 \<Rightarrow> u64 \<Rightarrow> u64" where
  "sat_add64 a b = (if unat a + unat b < 2 ^ 64 then a + b else - 1)"

definition sat_mul64 :: "u64 \<Rightarrow> u64 \<Rightarrow> u64" where
  "sat_mul64 a b = (if unat a * unat b < 2 ^ 64 then a * b else - 1)"

definition sat_sub64 :: "u64 \<Rightarrow> u64 \<Rightarrow> u64" where
  "sat_sub64 a b = (if a < b then 0 else a - b)"

definition checked_add64 :: "u64 \<Rightarrow> u64 \<Rightarrow> u64 option" where
  "checked_add64 a b = (if unat a + unat b < 2 ^ 64 then Some (a + b) else None)"

lemma unat_sat_add64: "unat (sat_add64 a b) = min (unat a + unat b) (2 ^ 64 - 1)"
  by (auto simp: sat_add64_def unat_word_ariths unsigned_minus_1_eq_mask mask_eq_exp_minus_1)

lemma unat_sat_mul64: "unat (sat_mul64 a b) = min (unat a * unat b) (2 ^ 64 - 1)"
  by (auto simp: sat_mul64_def unat_word_ariths unsigned_minus_1_eq_mask mask_eq_exp_minus_1)

lemma unat_sat_sub64: "unat (sat_sub64 a b) = unat a - unat b"
  by (auto simp: sat_sub64_def word_less_nat_alt unat_sub word_le_nat_alt)

lemma checked_add64_Some: "checked_add64 a b = Some c \<Longrightarrow> unat c = unat a + unat b"
  by (auto simp: checked_add64_def unat_word_ariths split: if_splits)

section \<open>Results\<close>

text \<open>
  A \<open>Result<T, E>\<close> is \<open>'e + 'a\<close>: \<open>Inl\<close> is \<open>Err\<close>, \<open>Inr\<close> is \<open>Ok\<close>.
  \<open>r_bind\<close> is the \<open>?\<close> operator.
\<close>

definition r_bind :: "'e + 'a \<Rightarrow> ('a \<Rightarrow> 'e + 'b) \<Rightarrow> 'e + 'b" where
  "r_bind r f = (case r of Inl e \<Rightarrow> Inl e | Inr a \<Rightarrow> f a)"

lemma r_bind_simps [simp, res_simps]:
  "r_bind (Inl e) f = Inl e" "r_bind (Inr a) f = f a"
  by (simp_all add: r_bind_def)

lemma r_bind_Inr_iff [res_simps]:
  "r_bind r f = Inr b \<longleftrightarrow> (\<exists>a. r = Inr a \<and> f a = Inr b)"
  by (simp add: r_bind_def split: sum.splits)

lemma r_bind_Inl_iff [res_simps]:
  "r_bind r f = Inl e \<longleftrightarrow> r = Inl e \<or> (\<exists>a. r = Inr a \<and> f a = Inl e)"
  by (cases r) (auto simp: r_bind_def)

lemma r_bind_cong [fundef_cong]:
  "r = r' \<Longrightarrow> (\<And>a. r' = Inr a \<Longrightarrow> f a = f' a) \<Longrightarrow> r_bind r f = r_bind r' f'"
  by (auto simp: r_bind_def split: sum.splits)

definition is_ok :: "'e + 'a \<Rightarrow> bool" where
  "is_ok r = (case r of Inl _ \<Rightarrow> False | Inr _ \<Rightarrow> True)"

lemma is_ok_simps [simp]: "is_ok (Inr a)" "\<not> is_ok (Inl e)"
  by (simp_all add: is_ok_def)

definition ok_or :: "'a option \<Rightarrow> 'e \<Rightarrow> 'e + 'a" where
  "ok_or x e = (case x of None \<Rightarrow> Inl e | Some a \<Rightarrow> Inr a)"

lemma ok_or_simps [simp, res_simps]: "ok_or None e = Inl e" "ok_or (Some a) e = Inr a"
  by (simp_all add: ok_or_def)

section \<open>Decimal numbers\<close>

text \<open>
  \<open>dec\<close> is \<open>to_string\<close> on an unsigned integer. \<open>parse_unsigned\<close> is
  \<open>str::parse\<close> at an unsigned type of largest value \<open>m\<close>: an optional leading plus
  sign, at least one digit, no other character, no overflow.
\<close>

definition digit_char :: "nat \<Rightarrow> char" where
  "digit_char d = char_of (48 + d)"

fun dec :: "nat \<Rightarrow> string" where
  "dec n = (if n < 10 then [digit_char n] else dec (n div 10) @ [digit_char (n mod 10)])"

declare dec.simps [simp del]

definition digit_value :: "char \<Rightarrow> nat option" where
  "digit_value c =
     (let n = of_char c :: nat in if 48 \<le> n \<and> n \<le> 57 then Some (n - 48) else None)"

fun parse_digits :: "nat \<Rightarrow> nat \<Rightarrow> string \<Rightarrow> nat option" where
  "parse_digits m acc [] = Some acc"
| "parse_digits m acc (c # cs) =
     (case digit_value c of
        None \<Rightarrow> None
      | Some d \<Rightarrow> if acc * 10 + d \<le> m then parse_digits m (acc * 10 + d) cs else None)"

definition parse_unsigned :: "nat \<Rightarrow> string \<Rightarrow> nat option" where
  "parse_unsigned m s =
     (case s of
        [] \<Rightarrow> None
      | c # cs \<Rightarrow>
          if c = CHR ''+'' then (if cs = [] then None else parse_digits m 0 cs)
          else parse_digits m 0 s)"

lemma digit_value_digit_char [simp]: "d < 10 \<Longrightarrow> digit_value (digit_char d) = Some d"
  by (simp add: digit_value_def digit_char_def Let_def)

lemma digit_char_neq [simp]: "d < 10 \<Longrightarrow> digit_char d \<noteq> CHR ''+''"
proof
  assume "d < 10" "digit_char d = CHR ''+''"
  then have "(of_char (digit_char d) :: nat) = of_char (CHR ''+'')" by simp
  with \<open>d < 10\<close> show False by (simp add: digit_char_def)
qed

lemma dec_not_Nil [simp]: "dec n \<noteq> []"
  by (subst dec.simps) simp

lemma parse_digits_append:
  "parse_digits m acc (xs @ ys) =
     (case parse_digits m acc xs of None \<Rightarrow> None | Some a \<Rightarrow> parse_digits m a ys)"
  by (induction xs arbitrary: acc) (simp_all split: option.split)

lemma parse_digits_dec: "n \<le> m \<Longrightarrow> parse_digits m 0 (dec n) = Some n"
proof (induction n rule: dec.induct)
  case (1 n)
  show ?case
  proof (cases "n < 10")
    case True
    with "1.prems" show ?thesis by (subst dec.simps) simp
  next
    case False
    with 1 have "parse_digits m 0 (dec (n div 10)) = Some (n div 10)" by simp
    moreover have "n div 10 * 10 + n mod 10 = n" by simp
    ultimately show ?thesis
      using False "1.prems" by (subst dec.simps) (simp add: parse_digits_append)
  qed
qed

lemma dec_head: "\<exists>d cs. dec n = digit_char d # cs \<and> d < 10"
proof (induction n rule: dec.induct)
  case (1 n)
  then show ?case
    by (cases "n < 10") (auto simp: dec.simps [of n])
qed

lemma parse_unsigned_dec: "n \<le> m \<Longrightarrow> parse_unsigned m (dec n) = Some n"
proof -
  obtain d cs where "dec n = digit_char d # cs" "digit_char d \<noteq> CHR ''+''"
    using dec_head [of n] digit_char_neq by blast
  moreover assume "n \<le> m"
  ultimately show ?thesis
    using parse_digits_dec [of n m] by (simp add: parse_unsigned_def)
qed

lemma parse_digits_le: "parse_digits m acc s = Some v \<Longrightarrow> acc \<le> m \<Longrightarrow> v \<le> m"
  by (induction s arbitrary: acc) (auto split: option.splits if_splits)

lemma parse_unsigned_le: "parse_unsigned m s = Some v \<Longrightarrow> v \<le> m"
  by (auto simp: parse_unsigned_def simp del: parse_digits.simps(2)
           split: list.splits if_splits dest: parse_digits_le)

text \<open>
  The signed counterparts at a \<open>w\<close>-bit type whose largest value is \<open>m\<close>: an optional
  sign, and a magnitude up to \<open>m\<close>, or \<open>m + 1\<close> behind a minus.
\<close>

definition parse_signed :: "nat \<Rightarrow> string \<Rightarrow> int option" where
  "parse_signed m s =
     (case s of
        [] \<Rightarrow> None
      | c # cs \<Rightarrow>
          if c = CHR ''-'' then
            (if cs = [] then None else map_option (\<lambda>n. - int n) (parse_digits (m + 1) 0 cs))
          else map_option int (parse_unsigned m s))"

definition dec_signed :: "int \<Rightarrow> string" where
  "dec_signed i = (if i < 0 then CHR ''-'' # dec (nat (- i)) else dec (nat i))"

section \<open>UTF-8\<close>

text \<open>
  \<open>utf8_width bs\<close> is the length of the first character of \<open>bs\<close>, or none if
  \<open>bs\<close> does not start with a well-formed one (no overlong forms, no surrogates, nothing
  above U+10FFFF): the test of \<open>std::str::from_utf8\<close>.
\<close>

definition is_cont :: "u8 \<Rightarrow> bool" where
  "is_cont b \<longleftrightarrow> 0x80 \<le> b \<and> b \<le> 0xBF"

text \<open>\<open>str::is_char_boundary\<close>.\<close>

definition is_char_boundary :: "bytes \<Rightarrow> nat \<Rightarrow> bool" where
  "is_char_boundary s i \<longleftrightarrow> i = 0 \<or> i = length s \<or> (i < length s \<and> \<not> is_cont (s ! i))"

definition second_ok :: "u8 \<Rightarrow> u8 \<Rightarrow> bool" where
  "second_ok a b \<longleftrightarrow>
     (if a = 0xE0 then 0xA0 \<le> b \<and> b \<le> 0xBF
      else if a = 0xED then 0x80 \<le> b \<and> b \<le> 0x9F
      else if a = 0xF0 then 0x90 \<le> b \<and> b \<le> 0xBF
      else if a = 0xF4 then 0x80 \<le> b \<and> b \<le> 0x8F
      else is_cont b)"

definition lead_len :: "u8 \<Rightarrow> nat" where
  "lead_len a =
     (if a < 0x80 then 1
      else if 0xC2 \<le> a \<and> a \<le> 0xDF then 2
      else if 0xE0 \<le> a \<and> a \<le> 0xEF then 3
      else if 0xF0 \<le> a \<and> a \<le> 0xF4 then 4
      else 0)"

definition tail_ok :: "u8 \<Rightarrow> bytes \<Rightarrow> bool" where
  "tail_ok a t = (case t of [] \<Rightarrow> True | b # t' \<Rightarrow> second_ok a b \<and> list_all is_cont t')"

definition utf8_width :: "bytes \<Rightarrow> nat option" where
  "utf8_width bs =
     (case bs of
        [] \<Rightarrow> None
      | a # r \<Rightarrow>
          (let k = lead_len a in
           if k = 0 \<or> length bs < k then None
           else if tail_ok a (take (k - 1) r) then Some k else None))"

lemma utf8_width_bounds: "utf8_width bs = Some k \<Longrightarrow> 1 \<le> k \<and> k \<le> length bs"
  by (auto simp: utf8_width_def Let_def simp del: length_Cons split: list.splits if_splits)

function utf8_valid :: "bytes \<Rightarrow> bool" where
  "utf8_valid bs =
     (bs = [] \<or> (case utf8_width bs of None \<Rightarrow> False | Some k \<Rightarrow> utf8_valid (drop k bs)))"
  by pat_completeness auto
termination
  by (relation "measure length") (auto dest: utf8_width_bounds)

declare utf8_valid.simps [simp del]

lemma utf8_valid_Nil [simp]: "utf8_valid []"
  by (simp add: utf8_valid.simps)

lemma utf8_width_append: "utf8_width xs = Some k \<Longrightarrow> utf8_width (xs @ ys) = Some k"
proof -
  assume k: "utf8_width xs = Some k"
  then obtain a r where xs: "xs = a # r"
    by (cases xs) (auto simp: utf8_width_def)
  from k have "lead_len a = k" "k \<noteq> 0" "k \<le> length xs" "tail_ok a (take (k - 1) r)"
    by (auto simp: xs utf8_width_def Let_def simp del: length_Cons split: if_splits)
  then show ?thesis
    by (simp add: xs utf8_width_def Let_def)
qed

lemma utf8_valid_append: "utf8_valid xs \<Longrightarrow> utf8_valid ys \<Longrightarrow> utf8_valid (xs @ ys)"
proof (induction xs rule: utf8_valid.induct)
  case (1 xs)
  show ?case
  proof (cases "xs = []")
    case True
    with "1.prems" show ?thesis by simp
  next
    case False
    with "1.prems" obtain k where k: "utf8_width xs = Some k" "utf8_valid (drop k xs)"
      by (subst (asm) utf8_valid.simps) (auto split: option.splits)
    with 1 False have "utf8_valid (drop k xs @ ys)" by simp
    moreover have "k \<le> length xs" using k(1) utf8_width_bounds by blast
    ultimately show ?thesis
      using k utf8_width_append [OF k(1), of ys] by (subst utf8_valid.simps) simp
  qed
qed

lemma utf8_valid_ascii: "(\<forall>b \<in> set bs. b < 0x80) \<Longrightarrow> utf8_valid bs"
proof (induction bs)
  case Nil
  then show ?case by simp
next
  case (Cons b bs)
  then have "utf8_width (b # bs) = Some 1"
    by (simp add: utf8_width_def lead_len_def tail_ok_def)
  with Cons show ?case by (subst utf8_valid.simps) simp
qed

text \<open>
  \<open>String::from_utf8_lossy\<close>: every maximal ill-formed part becomes U+FFFD. The part is
  the longest prefix of the rest that begins a well-formed character, at least one byte.
\<close>

definition utf8_bad_len :: "bytes \<Rightarrow> nat" where
  "utf8_bad_len bs =
     (case bs of
        a # b # r \<Rightarrow>
          if lead_len a < 2 \<or> \<not> second_ok a b then 1
          else 2 + length (takeWhile is_cont (take (lead_len a - 2) r))
      | _ \<Rightarrow> 1)"

lemma utf8_bad_len_pos [simp]: "0 < utf8_bad_len bs"
  by (simp add: utf8_bad_len_def split: list.split)

function utf8_lossy :: "bytes \<Rightarrow> bytes" where
  "utf8_lossy bs =
     (if bs = [] then []
      else case utf8_width bs of
             Some k \<Rightarrow> take k bs @ utf8_lossy (drop k bs)
           | None \<Rightarrow> [0xEF, 0xBF, 0xBD] @ utf8_lossy (drop (utf8_bad_len bs) bs))"
  by pat_completeness auto
termination
  by (relation "measure length") (auto dest: utf8_width_bounds)

declare utf8_lossy.simps [simp del]

lemma utf8_lossy_Nil [simp]: "utf8_lossy [] = []"
  by (simp add: utf8_lossy.simps)

lemma utf8_lossy_valid [simp]: "utf8_valid bs \<Longrightarrow> utf8_lossy bs = bs"
proof (induction bs rule: utf8_valid.induct)
  case (1 bs)
  then show ?case
    by (subst utf8_lossy.simps) (auto simp: utf8_valid.simps [of bs] split: option.splits)
qed

section \<open>Positions\<close>

text \<open>\<open>iter().position\<close>.\<close>

fun position :: "('a \<Rightarrow> bool) \<Rightarrow> 'a list \<Rightarrow> nat option" where
  "position P [] = None"
| "position P (x # xs) = (if P x then Some 0 else map_option Suc (position P xs))"

lemma position_None_iff: "position P xs = None \<longleftrightarrow> (\<forall>x \<in> set xs. \<not> P x)"
  by (induction xs) auto

lemma position_Some_split:
  "position P xs = Some i \<Longrightarrow>
     \<exists>ys y zs. xs = ys @ y # zs \<and> length ys = i \<and> P y \<and> (\<forall>z \<in> set ys. \<not> P z)"
proof (induction xs arbitrary: i)
  case Nil
  then show ?case by simp
next
  case (Cons x xs)
  show ?case
  proof (cases "P x")
    case True
    with Cons.prems show ?thesis by (intro exI [of _ "[]"]) auto
  next
    case False
    with Cons.prems obtain j where j: "position P xs = Some j" "i = Suc j" by auto
    with Cons.IH obtain ys y zs where
      "xs = ys @ y # zs" "length ys = j" "P y" "\<forall>z \<in> set ys. \<not> P z"
      by blast
    with False j show ?thesis by (intro exI [of _ "x # ys"]) auto
  qed
qed

lemma position_less: "position P xs = Some i \<Longrightarrow> i < length xs"
  by (drule position_Some_split) auto

lemma position_nth: "position P xs = Some i \<Longrightarrow> P (xs ! i)"
  by (drule position_Some_split) (auto simp: nth_append)

lemma find_append: "List.find P (xs @ ys) = (case List.find P xs of None \<Rightarrow> List.find P ys | Some x \<Rightarrow> Some x)"
  by (induction xs) auto

lemma find_None: "(\<forall>x \<in> set xs. \<not> P x) \<Longrightarrow> List.find P xs = None"
  by (induction xs) auto

end
