(* ===== verification/Util_Hex.thy ===== *)
theory Util_Hex
  imports Prelude
begin

text \<open>
  Hexadecimal coding (core/src/util/hex.rs): the byte-to-character iterator, the encoders
  built on it, the decoders with their three errors, and the round trips between them.
  Fingerprints, sidecar lines and revocation lists go through these functions.
\<close>

section \<open>Encoding\<close>

datatype from_hex_error =
    InvalidHexCharacter u8 nat
  | OddLength
  | InvalidStringLength

definition hex_chars_lower :: bytes where
  "hex_chars_lower = str_bytes ''0123456789abcdef''"

definition hex_chars_upper :: bytes where
  "hex_chars_upper = str_bytes ''0123456789ABCDEF''"

text \<open>
  The iterator holds the bytes still to come, the digit table and the low digit of the
  byte it is in the middle of.
\<close>

record bytes_to_hex_chars =
  bh_inner :: bytes
  bh_table :: bytes
  bh_next :: "u8 option"

definition bytes_to_hex_chars_new :: "bytes \<Rightarrow> bytes \<Rightarrow> bytes_to_hex_chars" where
  "bytes_to_hex_chars_new inner table = \<lparr>bh_inner = inner, bh_table = table, bh_next = None\<rparr>"

definition hex_iter_next ::
  "bytes_to_hex_chars \<Rightarrow> (u8 \<times> bytes_to_hex_chars) option" where
  "hex_iter_next it =
     (case bh_next it of
        Some current \<Rightarrow> Some (current, it\<lparr>bh_next := None\<rparr>)
      | None \<Rightarrow>
          (case bh_inner it of
             [] \<Rightarrow> None
           | byte # rest \<Rightarrow>
               Some (bh_table it ! unat (drop_bit 4 byte),
                     it\<lparr>bh_inner := rest, bh_next := Some (bh_table it ! unat (byte AND 0x0F))\<rparr>)))"

definition hex_iter_len :: "bytes_to_hex_chars \<Rightarrow> nat" where
  "hex_iter_len it =
     (let l = length (bh_inner it) * 2 in if bh_next it \<noteq> None then l + 1 else l)"

lemma hex_iter_next_len:
  "hex_iter_next it = Some (c, it') \<Longrightarrow> hex_iter_len it = Suc (hex_iter_len it')"
  by (auto simp: hex_iter_next_def hex_iter_len_def Let_def split: option.splits list.splits)

function hex_collect :: "bytes_to_hex_chars \<Rightarrow> bytes" where
  "hex_collect it =
     (case hex_iter_next it of None \<Rightarrow> [] | Some (c, it') \<Rightarrow> c # hex_collect it')"
  by pat_completeness auto
termination
  by (relation "measure hex_iter_len") (auto dest: hex_iter_next_len)

declare hex_collect.simps [simp del]

definition encode_to_iter :: "bytes \<Rightarrow> bytes \<Rightarrow> bytes" where
  "encode_to_iter table source = hex_collect (bytes_to_hex_chars_new source table)"

definition hex_encode :: "bytes \<Rightarrow> bytes" where
  "hex_encode d = encode_to_iter hex_chars_lower d"

definition hex_encode_upper :: "bytes \<Rightarrow> bytes" where
  "hex_encode_upper d = encode_to_iter hex_chars_upper d"

text \<open>\<open>encode_to_slice\<close> writes the pairs into a buffer of exactly twice the length.\<close>

fun encode_slice_loop :: "bytes \<Rightarrow> nat \<Rightarrow> bytes \<Rightarrow> bytes" where
  "encode_slice_loop [] i out = out"
| "encode_slice_loop (b # bs) i out =
     encode_slice_loop bs (i + 2)
       ((out[i := hex_chars_lower ! unat (drop_bit 4 b)])
          [i + 1 := hex_chars_lower ! unat (b AND 0x0F)])"

definition encode_to_slice :: "bytes \<Rightarrow> bytes \<Rightarrow> (from_hex_error + unit) \<times> bytes" where
  "encode_to_slice input out =
     (if length input * 2 \<noteq> length out then (Inl InvalidStringLength, out)
      else (Inr (), encode_slice_loop input 0 out))"

section \<open>Decoding\<close>

text \<open>\<open>val data pos\<close> is only called with \<open>pos\<close> inside \<open>data\<close> (the loops test it).\<close>

definition hex_val :: "bytes \<Rightarrow> nat \<Rightarrow> from_hex_error + u8" where
  "hex_val data pos =
     (let c = data ! pos in
      if 0x30 \<le> c \<and> c \<le> 0x39 then Inr (c - 0x30)
      else if 0x61 \<le> c \<and> c \<le> 0x66 then Inr (c - 0x61 + 10)
      else if 0x41 \<le> c \<and> c \<le> 0x46 then Inr (c - 0x41 + 10)
      else Inl (InvalidHexCharacter c pos))"

function hex_decode_loop :: "bytes \<Rightarrow> nat \<Rightarrow> bytes \<Rightarrow> from_hex_error + bytes" where
  "hex_decode_loop hex i out =
     (if i < length hex then
        r_bind (hex_val hex i) (\<lambda>hi.
        r_bind (hex_val hex (i + 1)) (\<lambda>lo.
        hex_decode_loop hex (i + 2) (out @ [push_bit 4 hi OR lo])))
      else Inr out)"
  by pat_completeness auto
termination
  by (relation "measure (\<lambda>(hex, i, out). length hex - i)") auto

declare hex_decode_loop.simps [simp del]

definition hex_decode :: "bytes \<Rightarrow> from_hex_error + bytes" where
  "hex_decode hex =
     (if length hex mod 2 \<noteq> 0 then Inl OddLength else hex_decode_loop hex 0 [])"

text \<open>\<open>decode_to_slice\<close> leaves the bytes written before an error in the buffer.\<close>

function decode_slice_loop ::
  "bytes \<Rightarrow> nat \<Rightarrow> bytes \<Rightarrow> (from_hex_error + unit) \<times> bytes" where
  "decode_slice_loop data i out =
     (if i < length out then
        (case r_bind (hex_val data (2 * i)) (\<lambda>hi.
              r_bind (hex_val data (2 * i + 1)) (\<lambda>lo. Inr (push_bit 4 hi OR lo))) of
           Inl e \<Rightarrow> (Inl e, out)
         | Inr b \<Rightarrow> decode_slice_loop data (i + 1) (out[i := b]))
      else (Inr (), out))"
  by pat_completeness auto
termination
  by (relation "measure (\<lambda>(data, i, out). length out - i)") auto

declare decode_slice_loop.simps [simp del]

definition decode_to_slice :: "bytes \<Rightarrow> bytes \<Rightarrow> (from_hex_error + unit) \<times> bytes" where
  "decode_to_slice data out =
     (if length data mod 2 \<noteq> 0 then (Inl OddLength, out)
      else if length data div 2 \<noteq> length out then (Inl InvalidStringLength, out)
      else decode_slice_loop data 0 out)"

section \<open>Digits\<close>

definition hex_digit_of :: "u8 \<Rightarrow> u8 option" where
  "hex_digit_of c = (case hex_val [c] 0 of Inl _ \<Rightarrow> None | Inr v \<Rightarrow> Some v)"

lemma hex_val_iff:
  "hex_val data pos =
     (case hex_digit_of (data ! pos) of
        None \<Rightarrow> Inl (InvalidHexCharacter (data ! pos) pos) | Some v \<Rightarrow> Inr v)"
  by (simp add: hex_digit_of_def hex_val_def Let_def)

text \<open>The sixteen digits of either table are read back as the nibble they stand for.\<close>

lemma hex_digit_lower_all: "\<forall>n \<in> set [0..<16]. hex_digit_of (hex_chars_lower ! n) = Some (of_nat n)"
  by code_simp

lemma hex_digit_upper_all: "\<forall>n \<in> set [0..<16]. hex_digit_of (hex_chars_upper ! n) = Some (of_nat n)"
  by code_simp

lemma hex_digit_lower: "n < 16 \<Longrightarrow> hex_digit_of (hex_chars_lower ! n) = Some (of_nat n)"
  using hex_digit_lower_all by simp

lemma hex_digit_upper: "n < 16 \<Longrightarrow> hex_digit_of (hex_chars_upper ! n) = Some (of_nat n)"
  using hex_digit_upper_all by simp

lemma high_nibble: "unat (drop_bit 4 (b :: u8)) = unat b div 16"
  by (simp only: unat_drop_bit_eq) (simp add: drop_bit_eq_div)

lemma low_nibble: "unat ((b :: u8) AND 0x0F) = unat b mod 16"
proof -
  have "(0x0F :: u8) = mask 4"
    by (simp add: mask_eq_exp_minus_1)
  then have "b AND 0x0F = take_bit 4 b"
    by (simp only: take_bit_eq_mask)
  then show ?thesis
    by (simp only: unsigned_take_bit_eq) (simp add: take_bit_eq_mod)
qed

lemma nibbles_less: "unat (drop_bit 4 (b :: u8)) < 16" "unat ((b :: u8) AND 0x0F) < 16"
  using unat_u8_less [of b] by (simp_all add: high_nibble low_nibble del: unat_u8_less)

lemma nibbles_join: "push_bit 4 (drop_bit 4 b) OR (b AND 0x0F) = (b :: u8)"
proof -
  have "(0x0F :: u8) = mask 4"
    by (simp add: mask_eq_exp_minus_1)
  then have "b AND 0x0F = take_bit 4 b"
    by (simp only: take_bit_eq_mask)
  then show ?thesis
    by (intro bit_word_eqI) (auto simp: bit_simps)
qed

section \<open>The iterator against its closed form\<close>

definition hex_pair :: "bytes \<Rightarrow> u8 \<Rightarrow> bytes" where
  "hex_pair table b = [table ! unat (drop_bit 4 b), table ! unat (b AND 0x0F)]"

lemma hex_pairs_Cons:
  "concat (map (hex_pair table) (b # bs)) =
     table ! unat (drop_bit 4 b) # table ! unat (b AND 0x0F) # concat (map (hex_pair table) bs)"
  by (simp add: hex_pair_def)

lemma hex_collect_eq:
  "hex_collect it =
     (case bh_next it of None \<Rightarrow> [] | Some c \<Rightarrow> [c]) @
     concat (map (hex_pair (bh_table it)) (bh_inner it))"
proof (induction it rule: hex_collect.induct)
  case (1 it)
  then show ?case
    by (subst hex_collect.simps)
       (auto simp: hex_iter_next_def hex_pairs_Cons simp del: list.map concat.simps(2)
             split: option.splits list.splits)
qed

lemma encode_to_iter_eq: "encode_to_iter table bs = concat (map (hex_pair table) bs)"
  by (simp add: encode_to_iter_def bytes_to_hex_chars_new_def hex_collect_eq)

lemma length_encode_to_iter: "length (encode_to_iter table bs) = 2 * length bs"
  by (induction bs) (simp_all add: encode_to_iter_eq hex_pair_def)

lemma encode_slice_loop_eq:
  "i + 2 * length bs \<le> length out \<Longrightarrow>
     encode_slice_loop bs i out = take i out @ hex_encode bs @ drop (i + 2 * length bs) out"
proof (induction bs arbitrary: i out)
  case Nil
  then show ?case by (simp add: hex_encode_def encode_to_iter_eq)
next
  case (Cons b bs)
  then have i: "i < length out" "i + 1 < length out" by simp_all
  have "take (i + 2) ((out[i := x])[i + 1 := y]) = take i out @ [x, y]" for x y
    using i by (simp add: take_Suc_conv_app_nth numeral_2_eq_2)
  with Cons show ?case
    by (simp add: hex_encode_def encode_to_iter_eq hex_pair_def)
qed

section \<open>Decoding what a table encodes\<close>

text \<open>
  A digit table is any sixteen characters that \<open>val\<close> reads back; both tables of the
  source are.
\<close>

locale hex_table =
  fixes table :: bytes
  assumes table_digit: "n < 16 \<Longrightarrow> hex_digit_of (table ! n) = Some (of_nat n)"
begin

lemma digit_high: "hex_digit_of (table ! unat (drop_bit 4 b)) = Some (drop_bit 4 (b :: u8))"
  using table_digit [OF nibbles_less(1) [of b]] by simp

lemma digit_low: "hex_digit_of (table ! unat (b AND 0x0F)) = Some ((b :: u8) AND 0x0F)"
  using table_digit [OF nibbles_less(2) [of b]] by simp

lemma decode_loop_encoded:
  "length pre = i \<Longrightarrow>
     hex_decode_loop (pre @ encode_to_iter table bs) i out = Inr (out @ bs)"
proof (induction bs arbitrary: pre i out)
  case Nil
  then show ?case by (simp add: encode_to_iter_eq hex_decode_loop.simps)
next
  case (Cons b bs)
  let ?h = "table ! unat (drop_bit 4 b)" and ?l = "table ! unat (b AND 0x0F)"
  have split: "pre @ encode_to_iter table (b # bs) = (pre @ [?h, ?l]) @ encode_to_iter table bs"
    by (simp add: encode_to_iter_eq hex_pair_def)
  have "hex_decode_loop ((pre @ [?h, ?l]) @ encode_to_iter table bs) (i + 2) (out @ [b]) =
      Inr ((out @ [b]) @ bs)"
    using Cons by (intro Cons.IH) simp
  with Cons.prems show ?case
    unfolding split
    by (subst hex_decode_loop.simps)
       (simp add: hex_val_iff nth_append digit_high digit_low nibbles_join)
qed

lemma decode_encoded: "hex_decode (encode_to_iter table bs) = Inr bs"
  using decode_loop_encoded [of "[]" 0 bs "[]"]
  by (simp add: hex_decode_def length_encode_to_iter)

lemma decode_slice_encoded:
  "length pre = i \<Longrightarrow> length opre = i \<Longrightarrow> length rest = length bs \<Longrightarrow>
     decode_slice_loop (encode_to_iter table pre @ encode_to_iter table bs) i (opre @ rest) =
       (Inr (), opre @ bs)"
proof (induction bs arbitrary: pre i opre rest)
  case Nil
  then show ?case by (simp add: encode_to_iter_eq decode_slice_loop.simps)
next
  case (Cons b bs)
  let ?h = "table ! unat (drop_bit 4 b)" and ?l = "table ! unat (b AND 0x0F)"
  from Cons.prems obtain r rs where rest: "rest = r # rs" "length rs = length bs"
    by (cases rest) auto
  have split: "encode_to_iter table pre @ encode_to_iter table (b # bs) =
      encode_to_iter table (pre @ [b]) @ encode_to_iter table bs"
    by (simp add: encode_to_iter_eq)
  have nths: "(encode_to_iter table pre @ encode_to_iter table (b # bs)) ! (2 * i) = ?h"
    "(encode_to_iter table pre @ encode_to_iter table (b # bs)) ! Suc (2 * i) = ?l"
    using Cons.prems(1) length_encode_to_iter [of table pre]
    by (simp_all add: nth_append encode_to_iter_eq hex_pair_def)
  have "decode_slice_loop (encode_to_iter table (pre @ [b]) @ encode_to_iter table bs) (i + 1)
      ((opre @ [b]) @ rs) = (Inr (), (opre @ [b]) @ bs)"
    using Cons.prems rest by (intro Cons.IH) simp_all
  with Cons.prems rest show ?case
    by (subst decode_slice_loop.simps)
       (simp add: hex_val_iff nths [unfolded split] digit_high digit_low nibbles_join split
          list_update_append)
qed

end

interpretation lower_hex: hex_table hex_chars_lower
  by unfold_locales (rule hex_digit_lower)

interpretation upper_hex: hex_table hex_chars_upper
  by unfold_locales (rule hex_digit_upper)

section \<open>Which strings decode\<close>

lemma hex_decode_loop_ok:
  "even (length hex - i) \<Longrightarrow>
     is_ok (hex_decode_loop hex i out) \<longleftrightarrow> (\<forall>c \<in> set (drop i hex). hex_digit_of c \<noteq> None)"
proof (induction hex i out rule: hex_decode_loop.induct)
  case (1 hex i out)
  show ?case
  proof (cases "i < length hex")
    case False
    then show ?thesis by (simp add: hex_decode_loop.simps)
  next
    case True
    with "1.prems" have i1: "i + 1 < length hex"
      by (metis Suc_eq_plus1 Suc_leI diff_Suc_1 diff_add_inverse le_neq_implies_less odd_one)
    have drop: "drop i hex = hex ! i # hex ! (i + 1) # drop (i + 2) hex"
      using True i1 by (simp add: Cons_nth_drop_Suc)
    show ?thesis
      using 1 True i1
      by (subst hex_decode_loop.simps)
         (auto simp: hex_val_iff drop r_bind_def split: option.splits)
  qed
qed

lemma hex_decode_loop_bad:
  "hex_decode_loop hex i out = Inl e \<Longrightarrow> even (length hex - i) \<Longrightarrow>
     (\<exists>k. i \<le> k \<and> k < length hex \<and> e = InvalidHexCharacter (hex ! k) k \<and>
          hex_digit_of (hex ! k) = None \<and>
          (\<forall>j. i \<le> j \<longrightarrow> j < k \<longrightarrow> hex_digit_of (hex ! j) \<noteq> None))"
proof (induction hex i out rule: hex_decode_loop.induct)
  case (1 hex i out)
  from "1.prems"(1) have i: "i < length hex"
    by (subst (asm) hex_decode_loop.simps) (auto split: if_splits)
  with "1.prems"(2) have i1: "i + 1 < length hex"
    by (metis Suc_eq_plus1 Suc_leI diff_Suc_1 diff_add_inverse le_neq_implies_less odd_one)
  consider (first) "hex_digit_of (hex ! i) = None"
    | (second) v where "hex_digit_of (hex ! i) = Some v" "hex_digit_of (hex ! (i + 1)) = None"
    | (later) v w where "hex_digit_of (hex ! i) = Some v" "hex_digit_of (hex ! (i + 1)) = Some w"
    by fastforce
  then show ?case
  proof cases
    case first
    with "1.prems"(1) i show ?thesis
      by (subst (asm) hex_decode_loop.simps) (auto simp: hex_val_iff)
  next
    case second
    with "1.prems"(1) i i1 have "e = InvalidHexCharacter (hex ! (i + 1)) (i + 1)"
      by (subst (asm) hex_decode_loop.simps) (auto simp: hex_val_iff)
    with second i1 show ?thesis
      by (intro exI [of _ "i + 1"]) (auto simp: less_Suc_eq_le le_antisym)
  next
    case later
    with "1.prems"(1) i
    have "hex_decode_loop hex (i + 2) (out @ [push_bit 4 v OR w]) = Inl e"
      by (subst (asm) hex_decode_loop.simps) (auto simp: hex_val_iff)
    then have "\<exists>k\<ge>i + 2. k < length hex \<and> e = InvalidHexCharacter (hex ! k) k \<and>
        hex_digit_of (hex ! k) = None \<and>
        (\<forall>j\<ge>i + 2. j < k \<longrightarrow> hex_digit_of (hex ! j) \<noteq> None)"
      using "1.IH" [OF i, of v w] later "1.prems"(2) by (auto simp: hex_val_iff)
    then obtain k where k: "i + 2 \<le> k" "k < length hex"
      "e = InvalidHexCharacter (hex ! k) k" "hex_digit_of (hex ! k) = None"
      "\<forall>j\<ge>i + 2. j < k \<longrightarrow> hex_digit_of (hex ! j) \<noteq> None"
      by blast
    have "hex_digit_of (hex ! j) \<noteq> None" if "i \<le> j" "j < k" for j
    proof -
      have "j = i \<or> j = i + 1 \<or> i + 2 \<le> j" using that by auto
      with later k(5) that show ?thesis by auto
    qed
    with k show ?thesis by auto
  qed
qed

section \<open>Properties\<close>

text \<open>Hex coding round-trips: whatever bytes are encoded, in lower or upper case, decode
  to the same bytes with \<open>decode\<close>, and with \<open>decode_to_slice\<close> into a buffer of the
  matching length; \<open>encode_to_slice\<close> writes the same text as \<open>encode\<close>.\<close>

theorem hex_roundtrip:
  "hex_decode (hex_encode bs) = Inr bs \<and>
   hex_decode (hex_encode_upper bs) = Inr bs \<and>
   decode_to_slice (hex_encode bs) (replicate (length bs) z) = (Inr (), bs) \<and>
   encode_to_slice bs (replicate (2 * length bs) z) = (Inr (), hex_encode bs)"
proof (intro conjI)
  show "decode_to_slice (hex_encode bs) (replicate (length bs) z) = (Inr (), bs)"
    using lower_hex.decode_slice_encoded [of "[]" 0 "[]" "replicate (length bs) z" bs]
      length_encode_to_iter [of hex_chars_lower bs]
    by (simp add: decode_to_slice_def hex_encode_def encode_to_iter_eq)
qed (simp_all add: hex_encode_def hex_encode_upper_def lower_hex.decode_encoded
      upper_hex.decode_encoded encode_to_slice_def encode_slice_loop_eq)

text \<open>\<open>decode\<close> fails on exactly the malformed strings and says where: an odd length
  gives \<open>OddLength\<close>, otherwise the error names the first character that is no hex digit,
  and a string of even length made of hex digits always decodes.\<close>

theorem hex_decode_errors:
  "(case hex_decode s of
      Inr bs \<Rightarrow> even (length s) \<and> (\<forall>c \<in> set s. hex_digit_of c \<noteq> None)
    | Inl OddLength \<Rightarrow> odd (length s)
    | Inl (InvalidHexCharacter c k) \<Rightarrow>
        even (length s) \<and> k < length s \<and> c = s ! k \<and> hex_digit_of c = None \<and>
        (\<forall>j < k. hex_digit_of (s ! j) \<noteq> None)
    | Inl InvalidStringLength \<Rightarrow> False)"
proof (cases "even (length s)")
  case False
  then show ?thesis by (simp add: hex_decode_def odd_iff_mod_2_eq_one)
next
  case True
  then have d: "hex_decode s = hex_decode_loop s 0 []"
    by (simp add: hex_decode_def)
  show ?thesis
  proof (cases "hex_decode s")
    case (Inr bs)
    with True hex_decode_loop_ok [of s 0 "[]"] show ?thesis by (simp add: d)
  next
    case (Inl e)
    with True hex_decode_loop_bad [of s 0 "[]" e] show ?thesis by (auto simp: d)
  qed
qed

theorem hex_decode_errors_witness:
  "hex_decode (str_bytes ''4aZ0'') = Inl (InvalidHexCharacter 0x5A 2) \<and>
   hex_digit_of 0x5A = None"
proof -
  have d: "hex_decode (str_bytes ''4aZ0'') = Inl (InvalidHexCharacter 0x5A 2)"
    by code_simp
  from hex_decode_errors [of "str_bytes ''4aZ0''"] d show ?thesis by simp
qed

end
