(* ===== verification/Record_String.thy ===== *)
theory Record_String
  imports Prelude
begin

text \<open>
  The 96-byte message payload of a record (the \<open>RecordString\<close> union of
  core/src/record/mod.rs): a payload of at most 94 bytes is stored inline, a longer one in
  a shared heap buffer, and the last byte of the area is the sentinel that tells which,
  together with the payload's kind. Inline text is NUL-terminated, inline binary data keeps
  its length in byte 94. \<open>rs_heap\<close> is the buffer the union's pointer refers to; the
  pointer bytes at the front of the area are not modelled, no read looks at them.
\<close>

section \<open>Layout\<close>

definition RECORD_STRING_INLINE_CAPACITY :: nat where "RECORD_STRING_INLINE_CAPACITY = 96"
definition RECORD_STRING_INLINE_MAX :: nat where
  "RECORD_STRING_INLINE_MAX = RECORD_STRING_INLINE_CAPACITY - 2"

datatype payload_kind = Utf8 | Binary | ExplicitDecodedText

definition INLINE_UTF8_SENTINEL :: u8 where "INLINE_UTF8_SENTINEL = 0x00"
definition HEAP_UTF8_SENTINEL :: u8 where "HEAP_UTF8_SENTINEL = 0xff"
definition INLINE_BINARY_SENTINEL :: u8 where "INLINE_BINARY_SENTINEL = 0xfe"
definition HEAP_BINARY_SENTINEL :: u8 where "HEAP_BINARY_SENTINEL = 0xfd"
definition INLINE_DECODED_SENTINEL :: u8 where "INLINE_DECODED_SENTINEL = 0xfc"
definition HEAP_DECODED_SENTINEL :: u8 where "HEAP_DECODED_SENTINEL = 0xfb"

lemmas rs_consts = RECORD_STRING_INLINE_CAPACITY_def RECORD_STRING_INLINE_MAX_def
  INLINE_UTF8_SENTINEL_def HEAP_UTF8_SENTINEL_def INLINE_BINARY_SENTINEL_def
  HEAP_BINARY_SENTINEL_def INLINE_DECODED_SENTINEL_def HEAP_DECODED_SENTINEL_def

record record_string =
  rs_inline :: bytes
  rs_heap :: "bytes option"

definition rs_empty :: record_string where
  "rs_empty = \<lparr>rs_inline = replicate RECORD_STRING_INLINE_CAPACITY 0, rs_heap = None\<rparr>"

section \<open>Reading\<close>

definition rs_sentinel :: "record_string \<Rightarrow> u8" where
  "rs_sentinel r = rs_inline r ! (RECORD_STRING_INLINE_CAPACITY - 1)"

definition rs_is_inline :: "record_string \<Rightarrow> bool" where
  "rs_is_inline r \<longleftrightarrow>
     rs_sentinel r \<in> {INLINE_UTF8_SENTINEL, INLINE_BINARY_SENTINEL, INLINE_DECODED_SENTINEL}"

definition rs_kind :: "record_string \<Rightarrow> payload_kind" where
  "rs_kind r =
     (let s = rs_sentinel r in
      if s = INLINE_BINARY_SENTINEL \<or> s = HEAP_BINARY_SENTINEL then Binary
      else if s = INLINE_DECODED_SENTINEL \<or> s = HEAP_DECODED_SENTINEL then ExplicitDecodedText
      else Utf8)"

text \<open>\<open>iter().position(|b| b == 0).unwrap_or(len)\<close>.\<close>

definition nul_position :: "bytes \<Rightarrow> nat" where
  "nul_position bs = length (takeWhile (\<lambda>b. b \<noteq> 0) bs)"

definition rs_len :: "record_string \<Rightarrow> nat" where
  "rs_len r =
     (if rs_is_inline r then
        (if rs_kind r = Binary then unat (rs_inline r ! (RECORD_STRING_INLINE_CAPACITY - 2))
         else nul_position (take (RECORD_STRING_INLINE_CAPACITY - 2) (rs_inline r)))
      else (case rs_heap r of Some h \<Rightarrow> length h | None \<Rightarrow> 0))"

definition rs_is_empty :: "record_string \<Rightarrow> bool" where
  "rs_is_empty r \<longleftrightarrow> rs_len r = 0"

definition rs_as_bytes :: "record_string \<Rightarrow> bytes" where
  "rs_as_bytes r =
     (if rs_is_inline r then take (rs_len r) (rs_inline r)
      else (case rs_heap r of Some h \<Rightarrow> h | None \<Rightarrow> []))"

definition rs_as_utf8 :: "record_string \<Rightarrow> bytes option" where
  "rs_as_utf8 r = (if utf8_valid (rs_as_bytes r) then Some (rs_as_bytes r) else None)"

definition rs_display_lossy :: "record_string \<Rightarrow> bytes" where
  "rs_display_lossy r = utf8_lossy (rs_as_bytes r)"

section \<open>Writing\<close>

definition rs_clear :: "record_string \<Rightarrow> record_string" where
  "rs_clear r =
     (let r1 = (if rs_is_inline r then r else r\<lparr>rs_heap := None\<rparr>) in
      r1\<lparr>rs_inline := map (\<lambda>_. 0) (rs_inline r1)\<rparr>)"

text \<open>
  The NUL terminator of an inline text is written at index \<open>value.len()\<close>, which is below
  95 because the inline branch has at most 94 bytes.
\<close>

definition rs_set_with_kind :: "record_string \<Rightarrow> bytes \<Rightarrow> payload_kind \<Rightarrow> record_string" where
  "rs_set_with_kind r value kind =
     (let c = rs_clear r in
      if length value \<le> RECORD_STRING_INLINE_MAX then
        let sentinel = (case kind of Utf8 \<Rightarrow> INLINE_UTF8_SENTINEL
              | Binary \<Rightarrow> INLINE_BINARY_SENTINEL
              | ExplicitDecodedText \<Rightarrow> INLINE_DECODED_SENTINEL);
            buf = value @ drop (length value) (rs_inline c);
            buf' = (if kind = Binary
                    then buf[RECORD_STRING_INLINE_CAPACITY - 2 := of_nat (length value)]
                    else buf[length value := 0])
        in c\<lparr>rs_inline := buf'[RECORD_STRING_INLINE_CAPACITY - 1 := sentinel]\<rparr>
      else
        let sentinel = (case kind of Utf8 \<Rightarrow> HEAP_UTF8_SENTINEL
              | Binary \<Rightarrow> HEAP_BINARY_SENTINEL
              | ExplicitDecodedText \<Rightarrow> HEAP_DECODED_SENTINEL)
        in c\<lparr>rs_heap := Some value,
             rs_inline := (rs_inline c)[RECORD_STRING_INLINE_CAPACITY - 1 := sentinel]\<rparr>)"

definition rs_set :: "record_string \<Rightarrow> bytes \<Rightarrow> record_string" where
  "rs_set r value = rs_set_with_kind r value Utf8"

definition rs_set_bytes :: "record_string \<Rightarrow> bytes \<Rightarrow> record_string" where
  "rs_set_bytes r value = rs_set_with_kind r value Binary"

definition rs_set_explicit_decoded_text :: "record_string \<Rightarrow> bytes \<Rightarrow> record_string" where
  "rs_set_explicit_decoded_text r value = rs_set_with_kind r value ExplicitDecodedText"

text \<open>On invalid UTF-8 the payload is left as it was.\<close>

definition rs_set_utf8_bytes :: "record_string \<Rightarrow> bytes \<Rightarrow> (unit + unit) \<times> record_string" where
  "rs_set_utf8_bytes r value =
     (if utf8_valid value then (Inr (), rs_set_with_kind r value Utf8) else (Inl (), r))"

definition rs_clone :: "record_string \<Rightarrow> record_string" where
  "rs_clone r = rs_set_with_kind rs_empty (rs_as_bytes r) (rs_kind r)"

section \<open>Well-formed payloads\<close>

definition rs_wf :: "record_string \<Rightarrow> bool" where
  "rs_wf r \<longleftrightarrow>
     length (rs_inline r) = RECORD_STRING_INLINE_CAPACITY \<and>
     rs_sentinel r \<in> {INLINE_UTF8_SENTINEL, HEAP_UTF8_SENTINEL, INLINE_BINARY_SENTINEL,
        HEAP_BINARY_SENTINEL, INLINE_DECODED_SENTINEL, HEAP_DECODED_SENTINEL} \<and>
     (rs_heap r = None \<longleftrightarrow> rs_is_inline r) \<and>
     (\<forall>h. rs_heap r = Some h \<longrightarrow> RECORD_STRING_INLINE_MAX < length h)"

lemma rs_empty_props [simp]:
  "length (rs_inline rs_empty) = 96" "rs_heap rs_empty = None" "set (rs_inline rs_empty) = {0}"
  by (simp_all add: rs_empty_def RECORD_STRING_INLINE_CAPACITY_def)

lemma rs_empty_nth: "i < 96 \<Longrightarrow> rs_inline rs_empty ! i = 0"
  using nth_mem [of i "rs_inline rs_empty"] by simp

lemma rs_wf_empty [simp]: "rs_wf rs_empty"
  by (simp add: rs_wf_def rs_sentinel_def rs_is_inline_def rs_consts rs_empty_nth)

lemma rs_clear_eq: "rs_wf r \<Longrightarrow> rs_clear r = rs_empty"
  by (auto simp: rs_wf_def rs_clear_def rs_empty_def Let_def map_replicate_const)

text \<open>
  What a payload set by \<open>set_with_kind\<close> reads back as: binary data and long text in
  full, short text up to its first NUL byte.
\<close>

definition payload_visible :: "bytes \<Rightarrow> payload_kind \<Rightarrow> bytes" where
  "payload_visible value kind =
     (if kind = Binary \<or> RECORD_STRING_INLINE_MAX < length value then value
      else takeWhile (\<lambda>b. b \<noteq> 0) value)"

lemma take_nul_position: "take (nul_position bs) bs = takeWhile (\<lambda>b. b \<noteq> 0) bs"
  unfolding nul_position_def by (rule takeWhile_eq_take [symmetric])

text \<open>The sentinel and the front of the area after a write.\<close>

definition heap_sentinel :: "payload_kind \<Rightarrow> u8" where
  "heap_sentinel k = (case k of Utf8 \<Rightarrow> 0xff | Binary \<Rightarrow> 0xfd | ExplicitDecodedText \<Rightarrow> 0xfb)"

definition inline_sentinel :: "payload_kind \<Rightarrow> u8" where
  "inline_sentinel k = (case k of Utf8 \<Rightarrow> 0x00 | Binary \<Rightarrow> 0xfe | ExplicitDecodedText \<Rightarrow> 0xfc)"

lemma rs_set_long:
  assumes "rs_wf r" and "94 < length value"
  shows "rs_set_with_kind r value kind =
    rs_empty\<lparr>rs_heap := Some value, rs_inline := (rs_inline rs_empty)[95 := heap_sentinel kind]\<rparr>"
  using assms
  by (cases kind) (simp_all add: rs_set_with_kind_def rs_clear_eq rs_consts heap_sentinel_def Let_def)

lemma rs_set_short:
  assumes "rs_wf r" and "length value \<le> 94"
  shows "rs_set_with_kind r value kind =
    rs_empty\<lparr>rs_inline :=
      ((value @ drop (length value) (rs_inline rs_empty))
         [(if kind = Binary then 94 else length value)
            := (if kind = Binary then of_nat (length value) else 0)])[95 := inline_sentinel kind]\<rparr>"
  using assms
  by (cases kind) (simp_all add: rs_set_with_kind_def rs_clear_eq rs_consts inline_sentinel_def Let_def)

lemma rs_set_sentinel:
  assumes "rs_wf r"
  shows "rs_sentinel (rs_set_with_kind r value kind) =
    (if length value \<le> 94 then inline_sentinel kind else heap_sentinel kind)"
  using assms
  by (cases "length value \<le> 94") (simp_all add: rs_set_short rs_set_long rs_sentinel_def rs_consts)

lemma rs_set_inline:
  assumes "rs_wf r"
  shows "rs_is_inline (rs_set_with_kind r value kind) \<longleftrightarrow> length value \<le> 94"
  using assms
  by (cases kind) (auto simp: rs_is_inline_def rs_set_sentinel rs_consts inline_sentinel_def
      heap_sentinel_def)

lemma rs_set_kind [simp]:
  "rs_wf r \<Longrightarrow> rs_kind (rs_set_with_kind r value kind) = kind"
  by (cases kind) (auto simp: rs_kind_def Let_def rs_set_sentinel rs_consts inline_sentinel_def
      heap_sentinel_def)

lemma rs_set_wf [simp]:
  assumes "rs_wf r"
  shows "rs_wf (rs_set_with_kind r value kind)"
proof (cases "length value \<le> 94")
  case True
  with assms have "length (rs_inline (rs_set_with_kind r value kind)) = 96"
    "rs_heap (rs_set_with_kind r value kind) = None"
    by (simp_all add: rs_set_short)
  with True assms show ?thesis
    by (cases kind) (simp_all add: rs_wf_def rs_set_inline rs_set_sentinel rs_consts
        inline_sentinel_def)
next
  case False
  with assms have "length (rs_inline (rs_set_with_kind r value kind)) = 96"
    "rs_heap (rs_set_with_kind r value kind) = Some value"
    by (simp_all add: rs_set_long)
  with False assms show ?thesis
    by (cases kind) (simp_all add: rs_wf_def rs_set_inline rs_set_sentinel rs_consts
        heap_sentinel_def)
qed

lemma takeWhile_zeros: "set zs \<subseteq> {0} \<Longrightarrow> takeWhile (\<lambda>b. b \<noteq> (0::u8)) (xs @ zs) = takeWhile (\<lambda>b. b \<noteq> 0) xs"
  by (induction xs) (cases zs, auto)

text \<open>Inline text: the zero written after it ends it, or byte 94 does when it has 94 bytes.\<close>

lemma inline_text:
  assumes "rs_wf r" and "length value \<le> 94" and "kind \<noteq> Binary"
  defines "v \<equiv> rs_set_with_kind r value kind"
  shows "takeWhile (\<lambda>b. b \<noteq> 0) (take 94 (rs_inline v)) = takeWhile (\<lambda>b. b \<noteq> 0) value"
proof -
  let ?z = "drop (length value) (rs_inline rs_empty)"
  have "rs_inline v = ((value @ ?z)[length value := 0])[95 := inline_sentinel kind]"
    using assms by (simp add: rs_set_short)
  then have "rs_inline v = (value @ ?z[0 := 0])[95 := inline_sentinel kind]"
    by (simp add: list_update_append)
  then have "take 94 (rs_inline v) = value @ take (94 - length value) (?z[0 := 0])"
    using assms(2) by simp
  moreover have "set (take (94 - length value) (?z[0 := 0])) \<subseteq> {0}"
    using set_take_subset set_update_subset_insert [of ?z 0 0] set_drop_subset [of _ "rs_inline rs_empty"]
    by fastforce
  ultimately show ?thesis
    by (simp only: takeWhile_zeros)
qed

lemma rs_as_bytes_set:
  assumes "rs_wf r"
  shows "rs_as_bytes (rs_set_with_kind r value kind) = payload_visible value kind"
proof (cases "length value \<le> 94")
  case False
  with assms have "rs_heap (rs_set_with_kind r value kind) = Some value"
    by (simp add: rs_set_long)
  with False assms show ?thesis
    by (simp add: rs_as_bytes_def rs_set_inline payload_visible_def rs_consts)
next
  case short: True
  show ?thesis
  proof (cases "kind = Binary")
    case True
    have "unat (of_nat (length value) :: u8) = length value"
      using short by (simp add: unat_of_nat)
    moreover have "rs_inline (rs_set_with_kind r value kind) ! 94 = of_nat (length value)"
      "take (length value) (rs_inline (rs_set_with_kind r value kind)) = value"
      using assms short True by (simp_all add: rs_set_short)
    ultimately show ?thesis
      using assms short True
      by (simp add: rs_as_bytes_def rs_len_def rs_set_inline payload_visible_def rs_consts)
  next
    case False
    let ?t = "take 94 (rs_inline (rs_set_with_kind r value kind))"
    have "nul_position ?t \<le> 94"
      unfolding nul_position_def by (rule order_trans [OF length_takeWhile_le]) simp
    then have "take (nul_position ?t) (rs_inline (rs_set_with_kind r value kind)) =
        take (nul_position ?t) ?t"
      by (simp add: min_def)
    also have "\<dots> = takeWhile (\<lambda>b. b \<noteq> 0) value"
      using inline_text [OF assms short False] by (simp only: take_nul_position)
    finally show ?thesis
      using assms short False
      by (simp add: rs_as_bytes_def rs_len_def rs_set_inline payload_visible_def rs_consts)
  qed
qed

lemma rs_as_bytes_empty [simp]: "rs_as_bytes rs_empty = []"
  by (simp add: rs_as_bytes_def rs_is_inline_def rs_sentinel_def rs_empty_nth rs_consts rs_len_def
      rs_kind_def Let_def nul_position_def takeWhile_eq_Nil_iff)
     (use rs_empty_nth [of 0] rs_empty_props(1) in \<open>auto simp: hd_conv_nth\<close>)

text \<open>Storing what a payload reads as, under its own kind, shows all of it.\<close>

lemma payload_visible_self:
  assumes "rs_wf r"
  shows "payload_visible (rs_as_bytes r) (rs_kind r) = rs_as_bytes r"
proof (cases "rs_is_inline r")
  case True
  show ?thesis
  proof (cases "rs_kind r = Binary")
    case False
    let ?t = "take 94 (rs_inline r)"
    have "nul_position ?t \<le> 94"
      unfolding nul_position_def by (rule order_trans [OF length_takeWhile_le]) simp
    then have "take (nul_position ?t) (rs_inline r) = take (nul_position ?t) ?t"
      by (simp add: min_def)
    also have "\<dots> = takeWhile (\<lambda>b. b \<noteq> 0) ?t" by (rule take_nul_position)
    finally have "rs_as_bytes r = takeWhile (\<lambda>b. b \<noteq> 0) ?t"
      using True False by (simp add: rs_as_bytes_def rs_len_def rs_consts)
    then have "takeWhile (\<lambda>b. b \<noteq> 0) (rs_as_bytes r) = rs_as_bytes r"
      by (simp add: takeWhile_idem)
    then show ?thesis by (simp add: payload_visible_def)
  qed (simp add: payload_visible_def)
next
  case False
  with assms obtain h where "rs_heap r = Some h" "RECORD_STRING_INLINE_MAX < length h"
    by (auto simp: rs_wf_def)
  with False show ?thesis by (simp add: payload_visible_def rs_as_bytes_def)
qed

lemma rs_kind_empty [simp]: "rs_kind rs_empty = Utf8"
  by (simp add: rs_kind_def rs_sentinel_def rs_empty_nth rs_consts Let_def)

section \<open>Properties\<close>

text \<open>A message payload survives storage: for every well-formed payload area, whatever it
  held before, \<open>set_with_kind\<close> keeps the area well-formed and keeps the kind, and
  \<open>as_bytes\<close> returns the value in full whenever it is binary, longer than 94 bytes, or
  text without a NUL byte; the heap buffer exists exactly for values above 94 bytes.\<close>

theorem record_string_roundtrip:
  assumes "rs_wf r" and "kind = Binary \<or> 94 < length value \<or> 0 \<notin> set value"
  shows "rs_wf (rs_set_with_kind r value kind) \<and>
    rs_kind (rs_set_with_kind r value kind) = kind \<and>
    rs_as_bytes (rs_set_with_kind r value kind) = value \<and>
    (rs_heap (rs_set_with_kind r value kind) = None \<longleftrightarrow> length value \<le> 94)"
proof -
  have "takeWhile (\<lambda>b. b \<noteq> 0) value = value" if "0 \<notin> set value"
    using that by (auto simp: takeWhile_eq_all_conv)
  with assms(2) have "payload_visible value kind = value"
    by (auto simp: payload_visible_def rs_consts)
  moreover have "rs_heap (rs_set_with_kind r value kind) = None \<longleftrightarrow> length value \<le> 94"
    using rs_set_wf [OF assms(1), of "value" kind] assms(1) by (simp add: rs_wf_def rs_set_inline)
  ultimately show ?thesis
    using assms(1) by (simp add: rs_as_bytes_set)
qed

theorem record_string_roundtrip_witness:
  "rs_as_bytes (rs_set_with_kind (rs_set_with_kind rs_empty (replicate 200 9) Utf8) [72, 105] Utf8) =
     [72, 105]"
  using record_string_roundtrip [of "rs_set_with_kind rs_empty (replicate 200 9) Utf8" Utf8 "[72, 105]"]
  by simp

text \<open>Inline text is cut at its first NUL byte: a UTF-8 message of at most 94 bytes that
  contains a NUL reads back, and is hashed and serialised, without anything from the NUL
  on, although the same bytes stored as binary, or in a longer message, are kept.\<close>

theorem inline_text_truncated_at_nul:
  assumes "rs_wf r" and "length (pre @ 0 # post) \<le> 94" and "0 \<notin> set pre"
  shows "rs_as_bytes (rs_set r (pre @ 0 # post)) = pre \<and>
    rs_as_bytes (rs_set_bytes r (pre @ 0 # post)) = pre @ 0 # post"
proof -
  have "takeWhile (\<lambda>b. b \<noteq> 0) (pre @ 0 # post) = pre"
    using assms(3) by (induction pre) auto
  with assms(1,2) show ?thesis
    by (simp add: rs_set_def rs_set_bytes_def rs_as_bytes_set payload_visible_def rs_consts)
qed

theorem inline_text_truncated_at_nul_witness:
  "rs_as_bytes (rs_set rs_empty [65, 0, 66]) = [65]"
  using inline_text_truncated_at_nul [of rs_empty "[65]" "[66]"] by simp

end
