(* ===== verification/Kv.thy ===== *)
theory Kv
  imports Prelude
begin

text \<open>
  The fixed-size key-value slot of a record (core/src/record/kv.rs): tag, type byte,
  length byte and a 29-byte value area that holds a short payload or describes a heap
  buffer with a longer one. \<open>kv_heap\<close> is the buffer the descriptor's pointer owns; the
  eight pointer bytes themselves are never read as data and keep their old contents here.
\<close>

section \<open>Constants and types\<close>

definition KV_SLOT_SIZE :: nat where "KV_SLOT_SIZE = 32"
definition KV_VALUE_CAPACITY :: nat where "KV_VALUE_CAPACITY = KV_SLOT_SIZE - 3"
definition KV_LEN_OVERFLOW :: u8 where "KV_LEN_OVERFLOW = 0xFF"
definition KV_TAG_EMPTY :: u8 where "KV_TAG_EMPTY = 0"
definition KV_TAG_CORE_MAX :: u8 where "KV_TAG_CORE_MAX = 63"

lemmas kv_consts = KV_SLOT_SIZE_def KV_VALUE_CAPACITY_def KV_LEN_OVERFLOW_def KV_TAG_EMPTY_def
  KV_TAG_CORE_MAX_def

datatype kv_type = KvInt64 | KvUInt64 | KvDouble | KvBool | KvString | KvBinary | KvNull

fun kv_type_as_u8 :: "kv_type \<Rightarrow> u8" where
  "kv_type_as_u8 KvInt64 = 1"
| "kv_type_as_u8 KvUInt64 = 2"
| "kv_type_as_u8 KvDouble = 3"
| "kv_type_as_u8 KvBool = 4"
| "kv_type_as_u8 KvString = 5"
| "kv_type_as_u8 KvBinary = 6"
| "kv_type_as_u8 KvNull = 7"

definition kv_type_from_u8 :: "u8 \<Rightarrow> kv_type option" where
  "kv_type_from_u8 v =
     (if v = 1 then Some KvInt64
      else if v = 2 then Some KvUInt64
      else if v = 3 then Some KvDouble
      else if v = 4 then Some KvBool
      else if v = 5 then Some KvString
      else if v = 6 then Some KvBinary
      else if v = 7 then Some KvNull
      else None)"

lemma kv_type_from_as [simp]: "kv_type_from_u8 (kv_type_as_u8 t) = Some t"
  by (cases t) (simp_all add: kv_type_from_u8_def)

lemma kv_type_from_u8_Some: "kv_type_from_u8 v = Some t \<Longrightarrow> v = kv_type_as_u8 t"
  by (auto simp: kv_type_from_u8_def split: if_splits)

datatype kv_put_error = TagReserved

record kv_slot =
  kv_tag :: u8
  kv_ty :: u8
  kv_len :: u8
  kv_value :: bytes
  kv_heap :: "bytes option"

section \<open>Operations\<close>

definition kv_empty :: kv_slot where
  "kv_empty = \<lparr>kv_tag = KV_TAG_EMPTY, kv_ty = 0, kv_len = 0,
     kv_value = replicate KV_VALUE_CAPACITY 0, kv_heap = None\<rparr>"

definition kv_is_empty :: "kv_slot \<Rightarrow> bool" where
  "kv_is_empty s \<longleftrightarrow> kv_tag s = KV_TAG_EMPTY"

definition kv_drop_overflow :: "kv_slot \<Rightarrow> kv_slot" where
  "kv_drop_overflow s =
     (if kv_len s \<noteq> KV_LEN_OVERFLOW then s else s\<lparr>kv_len := 0, kv_heap := None\<rparr>)"

text \<open>A short payload overwrites only its own bytes of the value area.\<close>

definition kv_put :: "kv_slot \<Rightarrow> u8 \<Rightarrow> kv_type \<Rightarrow> bytes \<Rightarrow> (kv_put_error + unit) \<times> kv_slot" where
  "kv_put s tag ty d =
     (if tag = KV_TAG_EMPTY then (Inl TagReserved, s)
      else
        let s1 = (kv_drop_overflow s)\<lparr>kv_tag := tag, kv_ty := kv_type_as_u8 ty\<rparr> in
        if length d \<le> KV_VALUE_CAPACITY then
          (Inr (), s1\<lparr>kv_value := d @ drop (length d) (kv_value s1), kv_len := of_nat (length d)\<rparr>)
        else
          (Inr (), s1\<lparr>kv_len := KV_LEN_OVERFLOW, kv_heap := Some d,
             kv_value := take 8 (kv_value s1) @ to_le 8 (length d) @ drop 16 (kv_value s1)\<rparr>))"

text \<open>
  The heap view is \<open>slice::from_raw_parts\<close> with the length stored in the descriptor.
\<close>

definition kv_value_slice :: "kv_slot \<Rightarrow> bytes" where
  "kv_value_slice s =
     (if kv_len s = KV_LEN_OVERFLOW then
        (case kv_heap s of
           Some h \<Rightarrow> take (from_le (take 8 (drop 8 (kv_value s)))) h
         | None \<Rightarrow> [])
      else take (unat (kv_len s)) (kv_value s))"

definition kv_get :: "kv_slot \<Rightarrow> (u8 \<times> u8 \<times> bytes) option" where
  "kv_get s = (if kv_is_empty s then None else Some (kv_tag s, kv_ty s, kv_value_slice s))"

definition kv_wire_value :: "kv_slot \<Rightarrow> (u8 \<times> u8 \<times> bytes) option" where
  "kv_wire_value s = kv_get s"

definition kv_wire_put :: "kv_slot \<Rightarrow> u8 \<Rightarrow> u8 \<Rightarrow> bytes \<Rightarrow> (kv_put_error + unit) \<times> kv_slot" where
  "kv_wire_put s tag ty d =
     (case kv_type_from_u8 ty of
        None \<Rightarrow> (Inl TagReserved, s)
      | Some t \<Rightarrow> kv_put s tag t d)"

definition kv_clear :: "kv_slot \<Rightarrow> kv_slot" where
  "kv_clear s = kv_empty"

definition kv_serialize_into :: "kv_slot \<Rightarrow> bytes \<Rightarrow> bytes" where
  "kv_serialize_into s out =
     (if kv_is_empty s then out
      else
        let d = kv_value_slice s in
        if length d < 255 then out @ [kv_tag s, kv_ty s, of_nat (length d)] @ d
        else out @ [kv_tag s, kv_ty s, KV_LEN_OVERFLOW] @ to_le 8 (length d) @ d)"

definition kv_put_string :: "kv_slot \<Rightarrow> u8 \<Rightarrow> bytes \<Rightarrow> kv_slot" where
  "kv_put_string s tag v = snd (kv_put s tag KvString v)"

definition kv_put_binary :: "kv_slot \<Rightarrow> u8 \<Rightarrow> bytes \<Rightarrow> kv_slot" where
  "kv_put_binary s tag v = snd (kv_put s tag KvBinary v)"

definition kv_put_u64 :: "kv_slot \<Rightarrow> u8 \<Rightarrow> u64 \<Rightarrow> kv_slot" where
  "kv_put_u64 s tag v = snd (kv_put s tag KvUInt64 (le64 v))"

text \<open>An \<open>i64\<close> is stored as its two's complement word.\<close>

definition kv_put_i64 :: "kv_slot \<Rightarrow> u8 \<Rightarrow> u64 \<Rightarrow> kv_slot" where
  "kv_put_i64 s tag v = snd (kv_put s tag KvInt64 (le64 v))"

definition kv_get_string :: "kv_slot \<Rightarrow> bytes option" where
  "kv_get_string s =
     (case kv_get s of
        None \<Rightarrow> None
      | Some (_, ty, d) \<Rightarrow>
          if ty = kv_type_as_u8 KvString then (if utf8_valid d then Some d else None) else None)"

definition kv_hash_slot :: "kv_slot \<Rightarrow> bytes \<Rightarrow> bytes" where
  "kv_hash_slot s buf =
     (if kv_is_empty s then buf
      else buf @ [kv_tag s] @ [kv_ty s] @ to_le 8 (length (kv_value_slice s)) @ kv_value_slice s)"

text \<open>\<open>update_hash\<close> feeds a digest; a digest state is the bytes fed so far.\<close>

definition kv_update_hash :: "kv_slot \<Rightarrow> bytes \<Rightarrow> bytes" where
  "kv_update_hash s digest =
     (if kv_is_empty s then digest
      else
        let d = kv_value_slice s in
        ((digest @ [kv_tag s, kv_ty s]) @ to_le 8 (length d)) @ d)"

section \<open>Well-formed slots\<close>

text \<open>
  The value area has 29 bytes; the length byte is an inline length or the overflow mark;
  the descriptor's length is the length of the buffer it owns; and nothing is owned
  otherwise. A buffer length fits in 64 bits, as every Rust length does.
\<close>

definition kv_wf :: "kv_slot \<Rightarrow> bool" where
  "kv_wf s \<longleftrightarrow>
     length (kv_value s) = KV_VALUE_CAPACITY \<and>
     (if kv_len s = KV_LEN_OVERFLOW then
        (\<exists>h. kv_heap s = Some h \<and> KV_VALUE_CAPACITY < length h \<and> length h < 2 ^ 64 \<and>
             take 8 (drop 8 (kv_value s)) = to_le 8 (length h))
      else unat (kv_len s) \<le> KV_VALUE_CAPACITY \<and> kv_heap s = None)"

lemma kv_wf_empty [simp]: "kv_wf kv_empty"
  by (simp add: kv_wf_def kv_empty_def kv_consts)

lemma kv_is_empty_empty [simp]: "kv_is_empty kv_empty"
  by (simp add: kv_is_empty_def kv_empty_def)

lemma kv_wf_drop_overflow: "kv_wf s \<Longrightarrow> kv_wf (kv_drop_overflow s)"
  by (auto simp: kv_wf_def kv_drop_overflow_def kv_consts)

lemma kv_drop_overflow_len: "kv_wf s \<Longrightarrow> kv_heap (kv_drop_overflow s) = None"
  by (auto simp: kv_wf_def kv_drop_overflow_def)

lemma kv_put_ok: "tag \<noteq> 0 \<Longrightarrow> fst (kv_put s tag ty d) = Inr ()"
  by (simp add: kv_put_def kv_consts Let_def)

lemma kv_put_reserved: "kv_put s 0 ty d = (Inl TagReserved, s)"
  by (simp add: kv_put_def kv_consts)

lemma kv_wf_put:
  assumes "kv_wf s" and "length d < 2 ^ 64"
  shows "kv_wf (snd (kv_put s tag ty d))"
proof (cases "tag = KV_TAG_EMPTY")
  case True
  with assms show ?thesis by (simp add: kv_put_def)
next
  case False
  let ?s1 = "kv_drop_overflow s"
  from assms(1) have wf1: "length (kv_value ?s1) = 29" "kv_heap ?s1 = None"
    using kv_wf_drop_overflow kv_drop_overflow_len by (auto simp: kv_wf_def kv_consts)
  show ?thesis
  proof (cases "length d \<le> 29")
    case True
    then have "unat (of_nat (length d) :: u8) = length d"
      by (simp add: unat_of_nat)
    moreover from this True have "(of_nat (length d) :: u8) \<noteq> 0xFF"
      by auto
    ultimately show ?thesis
      using False True wf1 by (simp add: kv_put_def kv_wf_def kv_consts Let_def)
  next
    case long: False
    with False wf1 assms(2) show ?thesis
      by (simp add: kv_put_def kv_wf_def kv_consts Let_def)
  qed
qed

lemma kv_get_put:
  assumes "kv_wf s" and "tag \<noteq> 0" and "length d < 2 ^ 64"
  shows "kv_get (snd (kv_put s tag ty d)) = Some (tag, kv_type_as_u8 ty, d)"
proof (cases "length d \<le> 29")
  case True
  then have "unat (of_nat (length d) :: u8) = length d"
    by (simp add: unat_of_nat)
  moreover from this True have "(of_nat (length d) :: u8) \<noteq> 0xFF"
    by auto
  ultimately show ?thesis
    using True assms
    by (simp add: kv_put_def kv_get_def kv_is_empty_def kv_value_slice_def kv_consts Let_def)
next
  case False
  from assms(1) have "length (kv_value (kv_drop_overflow s)) = 29"
    using kv_wf_drop_overflow by (auto simp: kv_wf_def kv_consts)
  moreover have "from_le (to_le 8 (length d)) = length d"
    using assms(3) by (simp add: from_le_to_le)
  ultimately show ?thesis
    using False assms
    by (simp add: kv_put_def kv_get_def kv_is_empty_def kv_value_slice_def kv_consts Let_def)
qed

lemma kv_tag_put [simp]: "tag \<noteq> 0 \<Longrightarrow> kv_tag (snd (kv_put s tag ty d)) = tag"
  by (simp add: kv_put_def kv_consts Let_def)

lemma kv_update_hash_eq: "kv_update_hash s buf = kv_hash_slot s buf"
  by (simp add: kv_update_hash_def kv_hash_slot_def Let_def)

section \<open>Writers\<close>

text \<open>
  What the record relies on: a writer puts a value of some kind under a tag into any
  well-formed slot, and the slot then holds exactly that tag, type byte and encoding.
\<close>

locale slot_writer =
  fixes wr :: "kv_slot \<Rightarrow> u8 \<Rightarrow> 'v \<Rightarrow> kv_slot"
    and ty :: u8
    and enc :: "'v \<Rightarrow> bytes"
    and ok :: "'v \<Rightarrow> bool"
  assumes write_wf: "kv_wf s \<Longrightarrow> ok v \<Longrightarrow> kv_wf (wr s t v)"
    and write_tag: "t \<noteq> 0 \<Longrightarrow> kv_tag (wr s t v) = t"
    and write_get: "kv_wf s \<Longrightarrow> t \<noteq> 0 \<Longrightarrow> ok v \<Longrightarrow> kv_get (wr s t v) = Some (t, ty, enc v)"
begin

lemma write_slice: "kv_wf s \<Longrightarrow> t \<noteq> 0 \<Longrightarrow> ok v \<Longrightarrow> kv_value_slice (wr s t v) = enc v"
  using write_get [of s t v] by (auto simp: kv_get_def split: if_splits)

lemma write_ty: "kv_wf s \<Longrightarrow> t \<noteq> 0 \<Longrightarrow> ok v \<Longrightarrow> kv_ty (wr s t v) = ty"
  using write_get [of s t v] by (auto simp: kv_get_def split: if_splits)

lemma write_hash:
  "kv_wf s \<Longrightarrow> t \<noteq> 0 \<Longrightarrow> ok v \<Longrightarrow>
     kv_hash_slot (wr s t v) buf = buf @ [t, ty] @ to_le 8 (length (enc v)) @ enc v"
  by (simp add: kv_hash_slot_def kv_is_empty_def write_slice write_ty write_tag kv_consts)

end

definition fits_usize :: "bytes \<Rightarrow> bool" where
  "fits_usize d \<longleftrightarrow> length d < 2 ^ 64"

interpretation string_writer: slot_writer kv_put_string 5 "\<lambda>d. d" fits_usize
  by unfold_locales (simp_all add: kv_put_string_def kv_wf_put kv_get_put fits_usize_def)

interpretation binary_writer: slot_writer kv_put_binary 6 "\<lambda>d. d" fits_usize
  by unfold_locales (simp_all add: kv_put_binary_def kv_wf_put kv_get_put fits_usize_def)

interpretation u64_writer: slot_writer kv_put_u64 2 le64 "\<lambda>_. True"
  by unfold_locales (simp_all add: kv_put_u64_def kv_wf_put kv_get_put)

interpretation i64_writer: slot_writer kv_put_i64 1 le64 "\<lambda>_. True"
  by unfold_locales (simp_all add: kv_put_i64_def kv_wf_put kv_get_put)

section \<open>The canonical form is storage-agnostic and uniquely readable\<close>

text \<open>The serialised form of a slot depends on what it holds only.\<close>

definition kv_canon :: "(u8 \<times> u8 \<times> bytes) option \<Rightarrow> bytes" where
  "kv_canon v =
     (case v of
        None \<Rightarrow> []
      | Some (tag, ty, d) \<Rightarrow> [tag, ty] @ to_le 8 (length d) @ d)"

lemma kv_hash_slot_canon: "kv_hash_slot s buf = buf @ kv_canon (kv_get s)"
  by (simp add: kv_hash_slot_def kv_get_def kv_canon_def)

lemma kv_canon_inj_append:
  assumes "kv_canon (Some (t, y, d)) @ r = kv_canon (Some (t', y', d')) @ r'"
    and "length d < 2 ^ 64" and "length d' < 2 ^ 64"
  shows "t = t' \<and> y = y' \<and> d = d' \<and> r = r'"
proof -
  from assms(1) have "t = t'" "y = y'"
    and rest: "to_le 8 (length d) @ d @ r = to_le 8 (length d') @ d' @ r'"
    by (simp_all add: kv_canon_def)
  from rest have "to_le 8 (length d) = to_le 8 (length d')" and tail: "d @ r = d' @ r'"
    by simp_all
  then have "from_le (to_le 8 (length d)) = from_le (to_le 8 (length d'))" by simp
  with assms(2,3) have "length d = length d'"
    by (simp add: from_le_to_le)
  with tail \<open>t = t'\<close> \<open>y = y'\<close> show ?thesis by simp
qed

lemma kv_canon_list_inj:
  assumes "concat (map (\<lambda>v. kv_canon (Some v)) xs) = concat (map (\<lambda>v. kv_canon (Some v)) ys)"
    and "\<forall>(t, y, d) \<in> set xs. length d < 2 ^ 64" and "\<forall>(t, y, d) \<in> set ys. length d < 2 ^ 64"
  shows "xs = ys"
  using assms
proof (induction xs arbitrary: ys)
  case Nil
  then show ?case by (cases ys) (auto simp: kv_canon_def)
next
  case (Cons x xs)
  obtain t y d where x: "x = (t, y, d)" by (cases x)
  from Cons.prems(1) x obtain z zs where ys: "ys = z # zs"
    by (cases ys) (auto simp: kv_canon_def)
  obtain t' y' d' where z: "z = (t', y', d')" by (cases z)
  from Cons.prems x ys z
  have "t = t' \<and> y = y' \<and> d = d' \<and>
      concat (map (\<lambda>v. kv_canon (Some v)) xs) = concat (map (\<lambda>v. kv_canon (Some v)) zs)"
    by (intro kv_canon_inj_append) auto
  with Cons x ys z show ?case by auto
qed

text \<open>
  Feeding slots to the content hash loses nothing: slot sequences with the same canonical
  bytes hold the same tags, type bytes and payloads in the same order.
\<close>

lemma kv_slots_hash_injective:
  assumes "fold kv_update_hash ss [] = fold kv_update_hash ss' []"
    and "\<forall>s \<in> set ss. length (kv_value_slice s) < 2 ^ 64"
    and "\<forall>s \<in> set ss'. length (kv_value_slice s) < 2 ^ 64"
  shows "List.map_filter kv_get ss = List.map_filter kv_get ss'"
proof -
  have fold_eq: "fold kv_update_hash xs buf =
      buf @ concat (map (\<lambda>v. kv_canon (Some v)) (List.map_filter kv_get xs))" for xs buf
    by (induction xs arbitrary: buf)
       (auto simp: kv_update_hash_eq kv_hash_slot_canon kv_canon_def List.map_filter_simps
          split: option.splits)
  have bound: "\<forall>(t, y, d) \<in> set (List.map_filter kv_get xs). length d < 2 ^ 64"
    if "\<forall>s \<in> set xs. length (kv_value_slice s) < 2 ^ 64" for xs
    using that
    by (induction xs) (auto simp: List.map_filter_simps kv_get_def split: option.splits if_splits)
  from assms(1) have "concat (map (\<lambda>v. kv_canon (Some v)) (List.map_filter kv_get ss)) =
      concat (map (\<lambda>v. kv_canon (Some v)) (List.map_filter kv_get ss'))"
    by (simp only: fold_eq append_Nil)
  then show ?thesis
    using bound [OF assms(2)] bound [OF assms(3)] by (rule kv_canon_list_inj)
qed

section \<open>Properties\<close>

text \<open>A slot gives back exactly what was put: on a well-formed slot, whatever it held
  before and whether the old and new payloads are inline or on the heap, \<open>put\<close> leaves a
  well-formed slot from which \<open>get\<close> returns the tag, the type byte and the payload, with the
  overflow mark exactly for payloads above 29 bytes, and tag 0 is refused without a change.\<close>

theorem kv_put_get:
  assumes "kv_wf s" and "length d < 2 ^ 64"
  shows "kv_wf (snd (kv_put s tag ty d)) \<and>
    (tag \<noteq> 0 \<longrightarrow>
       fst (kv_put s tag ty d) = Inr () \<and>
       kv_get (snd (kv_put s tag ty d)) = Some (tag, kv_type_as_u8 ty, d) \<and>
       (kv_len (snd (kv_put s tag ty d)) = KV_LEN_OVERFLOW \<longleftrightarrow> KV_VALUE_CAPACITY < length d)) \<and>
    (tag = 0 \<longrightarrow> kv_put s tag ty d = (Inl TagReserved, s))"
proof -
  have "kv_len (snd (kv_put s tag ty d)) = KV_LEN_OVERFLOW \<longleftrightarrow> KV_VALUE_CAPACITY < length d"
    if "tag \<noteq> 0"
  proof (cases "length d \<le> 29")
    case True
    then have "unat (of_nat (length d) :: u8) \<noteq> unat (0xFF :: u8)"
      by (simp add: unat_of_nat)
    then have "(of_nat (length d) :: u8) \<noteq> 0xFF" by auto
    with True that show ?thesis by (simp add: kv_put_def kv_consts Let_def)
  next
    case False
    with that show ?thesis by (simp add: kv_put_def kv_consts Let_def)
  qed
  with assms show ?thesis
    by (simp add: kv_wf_put kv_put_ok kv_get_put kv_put_reserved)
qed

theorem kv_put_get_witness:
  "kv_get (snd (kv_put (snd (kv_put kv_empty 5 KvBinary (replicate 40 7))) 9 KvString [65, 66])) =
     Some (9, 5, [65, 66])"
proof -
  let ?s = "snd (kv_put kv_empty 5 KvBinary (replicate 40 7))"
  have "kv_wf ?s" using kv_wf_put [of kv_empty "replicate 40 7"] by simp
  then show ?thesis using kv_put_get [of ?s "[65, 66]" 9 KvString] by simp
qed

end
