(* ===== verification/Record_Tags.thy ===== *)
theory Record_Tags
  imports Kv
begin

text \<open>
  Log levels, permission rings, the tag table of the record's dynamic fields and the
  process-wide map of vendor tags (core/src/record/mod.rs). The two lazily created globals
  \<open>VENDOR_TAGS\<close> and \<open>VENDOR_NEXT\<close> are one explicit state; the hash map is an association
  list, whose order stands for the map's iteration order.
\<close>

section \<open>Levels\<close>

datatype log_level = Trace | Debug | Info | Warn | Error | Fatal | Audit

fun level_as_u8 :: "log_level \<Rightarrow> u8" where
  "level_as_u8 Trace = 0"
| "level_as_u8 Debug = 1"
| "level_as_u8 Info = 2"
| "level_as_u8 Warn = 3"
| "level_as_u8 Error = 4"
| "level_as_u8 Fatal = 5"
| "level_as_u8 Audit = 6"

fun level_to_str :: "log_level \<Rightarrow> string" where
  "level_to_str Trace = ''TRACE''"
| "level_to_str Debug = ''DEBUG''"
| "level_to_str Info = ''INFO''"
| "level_to_str Warn = ''WARN''"
| "level_to_str Error = ''ERROR''"
| "level_to_str Fatal = ''FATAL''"
| "level_to_str Audit = ''AUDIT''"

definition level_from_u8 :: "u8 \<Rightarrow> log_level option" where
  "level_from_u8 v =
     (if v = 0 then Some Trace
      else if v = 1 then Some Debug
      else if v = 2 then Some Info
      else if v = 3 then Some Warn
      else if v = 4 then Some Error
      else if v = 5 then Some Fatal
      else if v = 6 then Some Audit
      else None)"

definition level_from_str :: "string \<Rightarrow> log_level option" where
  "level_from_str s =
     map_of [(''TRACE'', Trace), (''DEBUG'', Debug), (''INFO'', Info), (''WARN'', Warn),
       (''ERROR'', Error), (''FATAL'', Fatal), (''AUDIT'', Audit)] s"

definition level_parse_canonical :: "string \<Rightarrow> log_level option" where
  "level_parse_canonical s = level_from_str s"

lemma level_from_as [simp]: "level_from_u8 (level_as_u8 l) = Some l"
  by (cases l) (simp_all add: level_from_u8_def)

lemma level_from_u8_Some: "level_from_u8 v = Some l \<Longrightarrow> v = level_as_u8 l"
  by (auto simp: level_from_u8_def split: if_splits)

lemma level_as_u8_inj [simp]: "level_as_u8 a = level_as_u8 b \<longleftrightarrow> a = b"
  by (metis level_from_as option.inject)

instantiation log_level :: linorder
begin

definition less_eq_log_level :: "log_level \<Rightarrow> log_level \<Rightarrow> bool" where
  "less_eq_log_level a b \<longleftrightarrow> level_as_u8 a \<le> level_as_u8 b"

definition less_log_level :: "log_level \<Rightarrow> log_level \<Rightarrow> bool" where
  "less_log_level a b \<longleftrightarrow> level_as_u8 a < level_as_u8 b"

instance
proof
  fix a b :: log_level
  assume "a \<le> b" "b \<le> a"
  then have "level_as_u8 a = level_as_u8 b"
    unfolding less_eq_log_level_def by (rule order_antisym)
  then show "a = b" by simp
next
  fix a b :: log_level
  show "a < b \<longleftrightarrow> a \<le> b \<and> \<not> b \<le> a"
    unfolding less_eq_log_level_def less_log_level_def by (rule less_le_not_le)
qed (auto simp: less_eq_log_level_def)

end

lemma level_from_to_str [simp]: "level_from_str (level_to_str l) = Some l"
  by (cases l) (simp_all add: level_from_str_def)

lemma level_le_Audit [simp]: "l \<le> Audit"
  by (cases l) (simp_all add: less_eq_log_level_def word_le_nat_alt)

section \<open>Rings\<close>

datatype field_ring = Ring0 | Ring1 | Ring2 | Ring3

fun ring_as_u8 :: "field_ring \<Rightarrow> u8" where
  "ring_as_u8 Ring0 = 0"
| "ring_as_u8 Ring1 = 1"
| "ring_as_u8 Ring2 = 2"
| "ring_as_u8 Ring3 = 3"

instantiation field_ring :: linorder
begin

definition less_eq_field_ring :: "field_ring \<Rightarrow> field_ring \<Rightarrow> bool" where
  "less_eq_field_ring a b \<longleftrightarrow> ring_as_u8 a \<le> ring_as_u8 b"

definition less_field_ring :: "field_ring \<Rightarrow> field_ring \<Rightarrow> bool" where
  "less_field_ring a b \<longleftrightarrow> ring_as_u8 a < ring_as_u8 b"

instance
proof
  fix a b :: field_ring
  assume "a \<le> b" "b \<le> a"
  then have "ring_as_u8 a = ring_as_u8 b"
    unfolding less_eq_field_ring_def by (rule order_antisym)
  then show "a = b"
    by (cases a; cases b) simp_all
next
  fix a b :: field_ring
  show "a < b \<longleftrightarrow> a \<le> b \<and> \<not> b \<le> a"
    unfolding less_eq_field_ring_def less_field_ring_def by (rule less_le_not_le)
qed (auto simp: less_eq_field_ring_def)

end

section \<open>Tags\<close>

definition KV_TAG_TRACE_ID :: u8 where "KV_TAG_TRACE_ID = 2"
definition KV_TAG_SPAN_ID :: u8 where "KV_TAG_SPAN_ID = 3"
definition KV_TAG_USER_ID :: u8 where "KV_TAG_USER_ID = 4"
definition KV_TAG_SESSION_ID :: u8 where "KV_TAG_SESSION_ID = 5"
definition KV_TAG_REQUEST_ID :: u8 where "KV_TAG_REQUEST_ID = 6"
definition KV_TAG_HOST_NAME :: u8 where "KV_TAG_HOST_NAME = 7"
definition KV_TAG_APP_NAME :: u8 where "KV_TAG_APP_NAME = 8"
definition KV_TAG_APP_VERSION :: u8 where "KV_TAG_APP_VERSION = 9"
definition KV_TAG_ENVIRONMENT :: u8 where "KV_TAG_ENVIRONMENT = 10"
definition KV_TAG_THREAD_NAME :: u8 where "KV_TAG_THREAD_NAME = 11"
definition KV_TAG_PROCESS_NAME :: u8 where "KV_TAG_PROCESS_NAME = 13"
definition KV_TAG_CONTAINER_ID :: u8 where "KV_TAG_CONTAINER_ID = 14"
definition KV_TAG_SOURCE_FILE :: u8 where "KV_TAG_SOURCE_FILE = 15"
definition KV_TAG_SOURCE_FUNCTION :: u8 where "KV_TAG_SOURCE_FUNCTION = 16"
definition KV_TAG_SOURCE_LINE :: u8 where "KV_TAG_SOURCE_LINE = 17"
definition KV_TAG_SOURCE_COLUMN :: u8 where "KV_TAG_SOURCE_COLUMN = 18"
definition KV_TAG_EXCEPTION_TYPE :: u8 where "KV_TAG_EXCEPTION_TYPE = 19"
definition KV_TAG_EXCEPTION_MESSAGE :: u8 where "KV_TAG_EXCEPTION_MESSAGE = 20"
definition KV_TAG_EXCEPTION_STACKTRACE :: u8 where "KV_TAG_EXCEPTION_STACKTRACE = 21"
definition KV_TAG_EXCEPTION_CODE :: u8 where "KV_TAG_EXCEPTION_CODE = 22"
definition KV_TAG_LABELS :: u8 where "KV_TAG_LABELS = 23"
definition KV_TAG_AUDIT_TAGS :: u8 where "KV_TAG_AUDIT_TAGS = 24"
definition KV_TAG_COROUTINE_ID :: u8 where "KV_TAG_COROUTINE_ID = 25"
definition KV_TAG_CORE_ALLOCATED_MAX :: u8 where "KV_TAG_CORE_ALLOCATED_MAX = 25"
definition KV_TAG_MAX :: u8 where "KV_TAG_MAX = 192"

lemmas tag_defs = KV_TAG_TRACE_ID_def KV_TAG_SPAN_ID_def KV_TAG_USER_ID_def KV_TAG_SESSION_ID_def
  KV_TAG_REQUEST_ID_def KV_TAG_HOST_NAME_def KV_TAG_APP_NAME_def KV_TAG_APP_VERSION_def
  KV_TAG_ENVIRONMENT_def KV_TAG_THREAD_NAME_def KV_TAG_PROCESS_NAME_def KV_TAG_CONTAINER_ID_def
  KV_TAG_SOURCE_FILE_def KV_TAG_SOURCE_FUNCTION_def KV_TAG_SOURCE_LINE_def
  KV_TAG_SOURCE_COLUMN_def KV_TAG_EXCEPTION_TYPE_def KV_TAG_EXCEPTION_MESSAGE_def
  KV_TAG_EXCEPTION_STACKTRACE_def KV_TAG_EXCEPTION_CODE_def KV_TAG_LABELS_def
  KV_TAG_AUDIT_TAGS_def KV_TAG_COROUTINE_ID_def

section \<open>Vendor tags\<close>

record vendor_state =
  vt_tags :: "(string \<times> u8) list option"
  vt_next :: "u8 option"

definition vendor_init :: vendor_state where
  "vendor_init = \<lparr>vt_tags = None, vt_next = None\<rparr>"

definition vendor_tag_for ::
  "vendor_state \<Rightarrow> string \<Rightarrow> bool \<Rightarrow> u8 option \<times> vendor_state" where
  "vendor_tag_for vs name allocate =
     (let tags = (case vt_tags vs of None \<Rightarrow> [] | Some m \<Rightarrow> m);
          n = (case vt_next vs of None \<Rightarrow> 64 | Some k \<Rightarrow> k);
          vs1 = vs\<lparr>vt_tags := Some tags, vt_next := Some n\<rparr>
      in case map_of tags name of
           Some tag \<Rightarrow> (Some tag, vs1)
         | None \<Rightarrow>
             if \<not> allocate then (None, vs1)
             else if 192 < n then (None, vs1)
             else (Some n, vs1\<lparr>vt_next := Some (n + 1), vt_tags := Some (tags @ [(name, n)])\<rparr>))"

text \<open>The match of \<open>resolve_tag\<close>, in its order; \<open>None\<close> marks a fixed field.\<close>

definition resolve_table :: "(string \<times> u8 option) list" where
  "resolve_table =
    [(''id'', Some 1), (''record.id'', Some 1),
     (''trace.id'', Some KV_TAG_TRACE_ID), (''span.id'', Some KV_TAG_SPAN_ID),
     (''user.id'', Some KV_TAG_USER_ID), (''session.id'', Some KV_TAG_SESSION_ID),
     (''request.id'', Some KV_TAG_REQUEST_ID), (''host.name'', Some KV_TAG_HOST_NAME),
     (''app.name'', Some KV_TAG_APP_NAME), (''app.version'', Some KV_TAG_APP_VERSION),
     (''environment'', Some KV_TAG_ENVIRONMENT), (''thread.name'', Some KV_TAG_THREAD_NAME),
     (''process.name'', Some KV_TAG_PROCESS_NAME), (''container.id'', Some KV_TAG_CONTAINER_ID),
     (''source.file'', Some KV_TAG_SOURCE_FILE), (''source.function'', Some KV_TAG_SOURCE_FUNCTION),
     (''source.line'', Some KV_TAG_SOURCE_LINE), (''source.column'', Some KV_TAG_SOURCE_COLUMN),
     (''exception.type'', Some KV_TAG_EXCEPTION_TYPE),
     (''exception.message'', Some KV_TAG_EXCEPTION_MESSAGE),
     (''exception.stacktrace'', Some KV_TAG_EXCEPTION_STACKTRACE),
     (''exception.code'', Some KV_TAG_EXCEPTION_CODE), (''labels'', Some KV_TAG_LABELS),
     (''security.audit_tags'', Some KV_TAG_AUDIT_TAGS), (''audit_tags'', Some KV_TAG_AUDIT_TAGS),
     (''coroutine.id'', Some KV_TAG_COROUTINE_ID),
     (''timestamp'', None), (''record.timestamp'', None), (''level'', None), (''message'', None),
     (''process.id'', None), (''record.process_id'', None), (''thread.id'', None),
     (''record.thread_id'', None), (''security.lsn'', None), (''security.gap'', None),
     (''source_file'', Some KV_TAG_SOURCE_FILE), (''source_function'', Some KV_TAG_SOURCE_FUNCTION),
     (''source_line'', Some KV_TAG_SOURCE_LINE), (''source_column'', Some KV_TAG_SOURCE_COLUMN),
     (''thread_id'', None), (''process_id'', None),
     (''thread_name'', Some KV_TAG_THREAD_NAME), (''process_name'', Some KV_TAG_PROCESS_NAME),
     (''host_name'', Some KV_TAG_HOST_NAME), (''container_id'', Some KV_TAG_CONTAINER_ID),
     (''app_name'', Some KV_TAG_APP_NAME), (''app_version'', Some KV_TAG_APP_VERSION),
     (''exception_type'', Some KV_TAG_EXCEPTION_TYPE),
     (''exception_message'', Some KV_TAG_EXCEPTION_MESSAGE),
     (''exception_stacktrace'', Some KV_TAG_EXCEPTION_STACKTRACE),
     (''exception_code'', Some KV_TAG_EXCEPTION_CODE),
     (''coroutine_id'', Some KV_TAG_COROUTINE_ID)]"

definition is_vendor_name :: "string \<Rightarrow> bool" where
  "is_vendor_name name \<longleftrightarrow> starts_with ''ext.'' name \<or> starts_with ''verified.'' name"

definition resolve_tag ::
  "vendor_state \<Rightarrow> string \<Rightarrow> bool \<Rightarrow> u8 option \<times> vendor_state" where
  "resolve_tag vs name allocate_vendor =
     (case map_of resolve_table name of
        Some t \<Rightarrow> (t, vs)
      | None \<Rightarrow>
          if is_vendor_name name then vendor_tag_for vs name allocate_vendor else (None, vs))"

section \<open>Invariant of the vendor map\<close>

text \<open>Allocation alone keeps the tags distinct, from 64 up, below the next one.\<close>

definition vendor_tags :: "vendor_state \<Rightarrow> (string \<times> u8) list" where
  "vendor_tags vs = (case vt_tags vs of None \<Rightarrow> [] | Some m \<Rightarrow> m)"

definition vendor_counter :: "vendor_state \<Rightarrow> u8" where
  "vendor_counter vs = (case vt_next vs of None \<Rightarrow> 64 | Some n \<Rightarrow> n)"

definition vendor_inv :: "vendor_state \<Rightarrow> bool" where
  "vendor_inv vs \<longleftrightarrow>
     distinct (map fst (vendor_tags vs)) \<and>
     64 \<le> vendor_counter vs \<and> vendor_counter vs \<le> 193 \<and>
     map snd (vendor_tags vs) = map of_nat [64..<unat (vendor_counter vs)]"

definition vendor_core_free :: "vendor_state \<Rightarrow> bool" where
  "vendor_core_free vs \<longleftrightarrow> list_all (\<lambda>p. 64 \<le> snd p) (vendor_tags vs) \<and> 64 \<le> vendor_counter vs"

lemma vendor_inv_init [simp]: "vendor_inv vendor_init" "vendor_core_free vendor_init"
  by (simp_all add: vendor_inv_def vendor_core_free_def vendor_init_def vendor_tags_def
      vendor_counter_def)

lemma vendor_tag_for_eq:
  "vendor_tag_for vs name allocate =
     (case map_of (vendor_tags vs) name of
        Some tag \<Rightarrow> (Some tag, vs\<lparr>vt_tags := Some (vendor_tags vs), vt_next := Some (vendor_counter vs)\<rparr>)
      | None \<Rightarrow>
          if allocate \<and> vendor_counter vs \<le> 192 then
            (Some (vendor_counter vs),
             vs\<lparr>vt_tags := Some (vendor_tags vs @ [(name, vendor_counter vs)]),
                vt_next := Some (vendor_counter vs + 1)\<rparr>)
          else (None, vs\<lparr>vt_tags := Some (vendor_tags vs), vt_next := Some (vendor_counter vs)\<rparr>))"
  by (auto simp: vendor_tag_for_def vendor_tags_def vendor_counter_def Let_def not_less
      split: option.splits)

lemma vendor_views [simp]:
  "vendor_tags (vs\<lparr>vt_tags := Some m, vt_next := n\<rparr>) = m"
  "vendor_counter (vs\<lparr>vt_tags := t, vt_next := Some k\<rparr>) = k"
  by (simp_all add: vendor_tags_def vendor_counter_def)

lemma vendor_core_free_step:
  "vendor_core_free vs \<Longrightarrow> vendor_core_free (snd (vendor_tag_for vs name allocate))"
proof -
  assume v: "vendor_core_free vs"
  have "64 \<le> vendor_counter vs + 1" if c: "vendor_counter vs \<le> 192"
  proof -
    from c have "unat (vendor_counter vs) \<le> 192" by (simp add: word_le_nat_alt)
    moreover from v have "64 \<le> unat (vendor_counter vs)"
      by (simp add: vendor_core_free_def word_le_nat_alt)
    ultimately show ?thesis
      by (simp add: word_le_nat_alt unat_word_ariths)
  qed
  with v show ?thesis
    by (auto simp: vendor_tag_for_eq vendor_core_free_def split: option.split)
qed

lemma vendor_tag_for_ge:
  "vendor_core_free vs \<Longrightarrow> vendor_tag_for vs name allocate = (Some t, vs') \<Longrightarrow> 64 \<le> t"
  by (auto simp: vendor_tag_for_eq vendor_core_free_def list_all_iff dest!: map_of_SomeD
      split: option.splits if_splits)

lemma vendor_tag_for_again:
  "vendor_tag_for vs name allocate = (Some t, vs') \<Longrightarrow> vendor_tag_for vs' name a = (Some t, vs')"
  by (auto simp: vendor_tag_for_eq map_add_def split: option.splits if_splits)

lemma vendor_inv_step: "vendor_inv vs \<Longrightarrow> vendor_inv (snd (vendor_tag_for vs name allocate))"
proof -
  assume v: "vendor_inv vs"
  show ?thesis
  proof (cases "map_of (vendor_tags vs) name = None \<and> allocate \<and> vendor_counter vs \<le> 192")
    case True
    let ?c = "vendor_counter vs"
    from True have le: "unat ?c \<le> 192" by (simp add: word_le_nat_alt)
    then have suc: "unat (?c + 1) = Suc (unat ?c)"
      by (simp add: unat_word_ariths)
    moreover from v have "64 \<le> unat ?c" by (simp add: vendor_inv_def word_le_nat_alt)
    moreover from True have "name \<notin> fst ` set (vendor_tags vs)"
      by (simp add: map_of_eq_None_iff)
    ultimately show ?thesis
      using v True le by (auto simp: vendor_tag_for_eq vendor_inv_def word_le_nat_alt)
  next
    case False
    with v show ?thesis
      by (auto simp: vendor_tag_for_eq vendor_inv_def split: option.splits)
  qed
qed

end
