(* ===== verification/Log_Record.thy ===== *)
theory Log_Record
  imports Record_String Record_Tags Util_Hex
begin

text \<open>
  The log record (core/src/record/mod.rs): fixed fields, the message payload, two inline
  key-value slots and the overflow vector. Pointers into slots are slot references. The
  operations follow the source; \<open>rec_slots\<close> and \<open>rec_map\<close> are the abstract views the
  lemmas speak of. SHA-256 is a parameter of the content hash.
\<close>

section \<open>The record\<close>

record log_record =
  rec_timestamp :: u64
  rec_level :: log_level
  rec_process_id :: u32
  rec_thread_id :: u32
  rec_lsn :: u64
  rec_flags :: u16
  rec_pool_index :: u32
  rec_message :: record_string
  rec_content_hash :: bytes
  rec_kv0 :: kv_slot
  rec_kv1 :: kv_slot
  rec_kv_ext :: "kv_slot list option"

definition RECORD_FLAG_IN_USE :: u16 where "RECORD_FLAG_IN_USE = 0x01"
definition RECORD_FLAG_SIGNED :: u16 where "RECORD_FLAG_SIGNED = 0x02"
definition RECORD_FLAG_AUDIT :: u16 where "RECORD_FLAG_AUDIT = 0x04"
definition RECORD_FLAG_GAP :: u16 where "RECORD_FLAG_GAP = 0x08"

definition rec_new :: "u32 \<Rightarrow> log_record" where
  "rec_new pool_index =
     \<lparr>rec_timestamp = 0, rec_level = Info, rec_process_id = 0, rec_thread_id = 0, rec_lsn = 0,
      rec_flags = 0, rec_pool_index = pool_index, rec_message = rs_empty,
      rec_content_hash = replicate 32 0, rec_kv0 = kv_empty, rec_kv1 = kv_empty,
      rec_kv_ext = None\<rparr>"

definition rec_kv_clear_ext :: "log_record \<Rightarrow> log_record" where
  "rec_kv_clear_ext r = (if rec_kv_ext r = None then r else r\<lparr>rec_kv_ext := None\<rparr>)"

definition rec_reset :: "log_record \<Rightarrow> log_record" where
  "rec_reset r =
     rec_kv_clear_ext
       (r\<lparr>rec_timestamp := 0, rec_level := Info, rec_process_id := 0, rec_thread_id := 0,
          rec_flags := 0, rec_lsn := 0, rec_content_hash := replicate 32 0,
          rec_message := rs_clear (rec_message r), rec_kv0 := kv_clear (rec_kv0 r),
          rec_kv1 := kv_clear (rec_kv1 r)\<rparr>)"

section \<open>Slots\<close>

datatype slot_ref = RefKv0 | RefKv1 | RefExt nat

text \<open>Dereferencing a slot pointer, for reading and for writing.\<close>

fun slot_at :: "log_record \<Rightarrow> slot_ref \<Rightarrow> kv_slot" where
  "slot_at r RefKv0 = rec_kv0 r"
| "slot_at r RefKv1 = rec_kv1 r"
| "slot_at r (RefExt i) = (case rec_kv_ext r of Some ext \<Rightarrow> ext ! i | None \<Rightarrow> kv_empty)"

fun slot_write :: "log_record \<Rightarrow> slot_ref \<Rightarrow> kv_slot \<Rightarrow> log_record" where
  "slot_write r RefKv0 s = r\<lparr>rec_kv0 := s\<rparr>"
| "slot_write r RefKv1 s = r\<lparr>rec_kv1 := s\<rparr>"
| "slot_write r (RefExt i) s = r\<lparr>rec_kv_ext := map_option (\<lambda>ext. ext[i := s]) (rec_kv_ext r)\<rparr>"

definition rec_kv_ext_mut :: "log_record \<Rightarrow> log_record" where
  "rec_kv_ext_mut r = (if rec_kv_ext r = None then r\<lparr>rec_kv_ext := Some []\<rparr> else r)"

definition rec_kv_find :: "log_record \<Rightarrow> u8 \<Rightarrow> slot_ref option" where
  "rec_kv_find r tag =
     (if tag = KV_TAG_EMPTY then None
      else if kv_tag (rec_kv0 r) = tag then Some RefKv0
      else if kv_tag (rec_kv1 r) = tag then Some RefKv1
      else case rec_kv_ext r of
             Some ext \<Rightarrow> map_option RefExt (position (\<lambda>s. kv_tag s = tag) ext)
           | None \<Rightarrow> None)"

definition rec_kv_find_mut :: "log_record \<Rightarrow> u8 \<Rightarrow> slot_ref option" where
  "rec_kv_find_mut r tag =
     (if tag = KV_TAG_EMPTY then None
      else if kv_tag (rec_kv0 r) = tag then Some RefKv0
      else if kv_tag (rec_kv1 r) = tag then Some RefKv1
      else case rec_kv_ext r of
             Some ext \<Rightarrow> map_option RefExt (position (\<lambda>s. kv_tag s = tag) ext)
           | None \<Rightarrow> None)"

text \<open>Looking for a free slot allocates the overflow vector.\<close>

definition rec_kv_find_empty :: "log_record \<Rightarrow> slot_ref option \<times> log_record" where
  "rec_kv_find_empty r =
     (if kv_is_empty (rec_kv0 r) then (Some RefKv0, r)
      else if kv_is_empty (rec_kv1 r) then (Some RefKv1, r)
      else
        let r1 = rec_kv_ext_mut r in
        case rec_kv_ext r1 of
          Some ext \<Rightarrow> (map_option RefExt (position kv_is_empty ext), r1)
        | None \<Rightarrow> (None, r1))"

definition rec_push_ext :: "log_record \<Rightarrow> kv_slot \<Rightarrow> log_record" where
  "rec_push_ext r s =
     (let r1 = rec_kv_ext_mut r in
      r1\<lparr>rec_kv_ext := map_option (\<lambda>ext. ext @ [s]) (rec_kv_ext r1)\<rparr>)"

text \<open>
  The body the four typed puts share, without and with the test of the tag; \<open>wr\<close> is the
  slot's typed put.
\<close>

definition rec_kv_store ::
  "(kv_slot \<Rightarrow> u8 \<Rightarrow> 'v \<Rightarrow> kv_slot) \<Rightarrow> log_record \<Rightarrow> u8 \<Rightarrow> 'v \<Rightarrow> log_record" where
  "rec_kv_store wr r tag v =
     (case rec_kv_find_mut r tag of
        Some ref \<Rightarrow> slot_write r ref (wr (slot_at r ref) tag v)
      | None \<Rightarrow>
          (case rec_kv_find_empty r of
             (Some ref, r1) \<Rightarrow> slot_write r1 ref (wr (slot_at r1 ref) tag v)
           | (None, r1) \<Rightarrow> rec_push_ext r1 (wr kv_empty tag v)))"

definition rec_kv_put ::
  "(kv_slot \<Rightarrow> u8 \<Rightarrow> 'v \<Rightarrow> kv_slot) \<Rightarrow> log_record \<Rightarrow> u8 \<Rightarrow> 'v \<Rightarrow> log_record" where
  "rec_kv_put wr r tag v =
     (if tag = KV_TAG_EMPTY \<or> KV_TAG_MAX < tag then r else rec_kv_store wr r tag v)"

definition rec_kv_put_string :: "log_record \<Rightarrow> u8 \<Rightarrow> bytes \<Rightarrow> log_record" where
  "rec_kv_put_string r tag v = rec_kv_put kv_put_string r tag v"

definition rec_kv_put_binary :: "log_record \<Rightarrow> u8 \<Rightarrow> bytes \<Rightarrow> log_record" where
  "rec_kv_put_binary r tag v = rec_kv_put kv_put_binary r tag v"

definition rec_kv_put_u64 :: "log_record \<Rightarrow> u8 \<Rightarrow> u64 \<Rightarrow> log_record" where
  "rec_kv_put_u64 r tag v = rec_kv_put kv_put_u64 r tag v"

definition rec_kv_put_i64 :: "log_record \<Rightarrow> u8 \<Rightarrow> u64 \<Rightarrow> log_record" where
  "rec_kv_put_i64 r tag v = rec_kv_put kv_put_i64 r tag v"

definition rec_kv_get_string :: "log_record \<Rightarrow> u8 \<Rightarrow> bytes option" where
  "rec_kv_get_string r tag =
     (case rec_kv_find r tag of Some ref \<Rightarrow> kv_get_string (slot_at r ref) | None \<Rightarrow> None)"

definition i64_text :: "bytes \<Rightarrow> bytes" where
  "i64_text d = str_bytes (dec_signed (sint (u64_of d)))"

definition rec_kv_get_display_string :: "log_record \<Rightarrow> u8 \<Rightarrow> bytes option" where
  "rec_kv_get_display_string r tag =
     (case rec_kv_find r tag of
        None \<Rightarrow> None
      | Some ref \<Rightarrow>
          (case kv_get (slot_at r ref) of
             None \<Rightarrow> None
           | Some (_, ty, d) \<Rightarrow>
               if ty = kv_type_as_u8 KvString then (if utf8_valid d then Some d else None)
               else if ty = kv_type_as_u8 KvUInt64 \<and> 8 \<le> length d then
                 Some (str_bytes (dec (from_le (take 8 d))))
               else if ty = kv_type_as_u8 KvInt64 \<and> 8 \<le> length d then
                 Some (i64_text (take 8 d))
               else None))"

section \<open>Accessors\<close>

text \<open>\<open>kv_find(tag)\<close> followed by \<open>get()\<close>.\<close>

definition rec_get :: "log_record \<Rightarrow> u8 \<Rightarrow> (u8 \<times> bytes) option" where
  "rec_get r tag =
     (case rec_kv_find r tag of
        None \<Rightarrow> None
      | Some ref \<Rightarrow> map_option (\<lambda>(_, ty, d). (ty, d)) (kv_get (slot_at r ref)))"

definition string_or_default :: "bytes option \<Rightarrow> bytes" where
  "string_or_default s = (case s of Some v \<Rightarrow> v | None \<Rightarrow> [])"

text \<open>\<open>{:016x}\<close> of a 64-bit word: the digits of its bytes, most significant first.\<close>

definition hex16 :: "u64 \<Rightarrow> bytes" where
  "hex16 w = hex_encode (rev (le64 w))"

definition rec_id_hex :: "log_record \<Rightarrow> bytes" where
  "rec_id_hex r =
     (case rec_get r 1 of
        Some (_, d) \<Rightarrow>
          if length d = 16 then hex16 (u64_of (take 8 d)) @ hex16 (u64_of (take 8 (drop 8 d))) else []
      | None \<Rightarrow> [])"

definition rec_id_hi :: "log_record \<Rightarrow> u64" where
  "rec_id_hi r =
     (case rec_get r 1 of
        Some (_, d) \<Rightarrow> if 8 \<le> length d then u64_of (take 8 d) else 0
      | None \<Rightarrow> 0)"

definition rec_id_lo :: "log_record \<Rightarrow> u64" where
  "rec_id_lo r =
     (case rec_get r 1 of
        Some (_, d) \<Rightarrow> if 16 \<le> length d then u64_of (take 8 (drop 8 d)) else 0
      | None \<Rightarrow> 0)"

definition rec_timestamp_secs :: "log_record \<Rightarrow> u32" where
  "rec_timestamp_secs r = ucast (rec_timestamp r div 1000000000)"

definition rec_timestamp_subsec_nanos :: "log_record \<Rightarrow> u32" where
  "rec_timestamp_subsec_nanos r = ucast (rec_timestamp r mod 1000000000)"

definition rec_set_id :: "log_record \<Rightarrow> u64 \<Rightarrow> u64 \<Rightarrow> log_record" where
  "rec_set_id r hi lo = rec_kv_put_binary r 1 (le64 hi @ le64 lo)"

text \<open>Numeric fields are read from an integer slot, or parsed from a string slot.\<close>

definition rec_kv_get_number :: "log_record \<Rightarrow> u8 \<Rightarrow> u8 \<Rightarrow> (string \<Rightarrow> u64 option) \<Rightarrow> u64" where
  "rec_kv_get_number r tag ty parse =
     (case rec_kv_find r tag of
        None \<Rightarrow> 0
      | Some ref \<Rightarrow>
          (case kv_get (slot_at r ref) of
             None \<Rightarrow> 0
           | Some (_, t, d) \<Rightarrow>
               if t = ty \<and> 8 \<le> length d then u64_of (take 8 d)
               else
                 (case kv_get_string (slot_at r ref) of
                    Some s \<Rightarrow> (case parse (bytes_str s) of Some v \<Rightarrow> v | None \<Rightarrow> 0)
                  | None \<Rightarrow> 0)))"

definition parse_u32 :: "string \<Rightarrow> nat option" where
  "parse_u32 s = parse_unsigned (2 ^ 32 - 1) s"

definition parse_u64 :: "string \<Rightarrow> nat option" where
  "parse_u64 s = parse_unsigned (2 ^ 64 - 1) s"

definition parse_i64 :: "string \<Rightarrow> int option" where
  "parse_i64 s = parse_signed (2 ^ 63 - 1) s"

definition rec_source_line :: "log_record \<Rightarrow> u32" where
  "rec_source_line r =
     ucast (rec_kv_get_number r KV_TAG_SOURCE_LINE 2 (map_option of_nat \<circ> parse_u32))"

definition set_source_line :: "log_record \<Rightarrow> u32 \<Rightarrow> log_record" where
  "set_source_line r v = rec_kv_put_u64 r KV_TAG_SOURCE_LINE (ucast v)"

definition rec_source_column :: "log_record \<Rightarrow> u32" where
  "rec_source_column r =
     ucast (rec_kv_get_number r KV_TAG_SOURCE_COLUMN 2 (map_option of_nat \<circ> parse_u32))"

definition set_source_column :: "log_record \<Rightarrow> u32 \<Rightarrow> log_record" where
  "set_source_column r v = rec_kv_put_u64 r KV_TAG_SOURCE_COLUMN (ucast v)"

definition rec_coroutine_id :: "log_record \<Rightarrow> u64" where
  "rec_coroutine_id r = rec_kv_get_number r KV_TAG_COROUTINE_ID 2 (map_option of_nat \<circ> parse_u64)"

definition set_coroutine_id :: "log_record \<Rightarrow> u64 \<Rightarrow> log_record" where
  "set_coroutine_id r v = rec_kv_put_u64 r KV_TAG_COROUTINE_ID v"

definition rec_exception_code :: "log_record \<Rightarrow> u64" where
  "rec_exception_code r = rec_kv_get_number r KV_TAG_EXCEPTION_CODE 1 (map_option of_int \<circ> parse_i64)"

definition set_exception_code :: "log_record \<Rightarrow> u64 \<Rightarrow> log_record" where
  "set_exception_code r v = rec_kv_put_i64 r KV_TAG_EXCEPTION_CODE v"

definition rec_source_file :: "log_record \<Rightarrow> bytes" where
  "rec_source_file r = string_or_default (rec_kv_get_string r KV_TAG_SOURCE_FILE)"

definition set_source_file :: "log_record \<Rightarrow> bytes \<Rightarrow> log_record" where
  "set_source_file r v = rec_kv_put_string r KV_TAG_SOURCE_FILE v"

definition rec_source_function :: "log_record \<Rightarrow> bytes" where
  "rec_source_function r = string_or_default (rec_kv_get_string r KV_TAG_SOURCE_FUNCTION)"

definition set_source_function :: "log_record \<Rightarrow> bytes \<Rightarrow> log_record" where
  "set_source_function r v = rec_kv_put_string r KV_TAG_SOURCE_FUNCTION v"

definition rec_thread_name :: "log_record \<Rightarrow> bytes" where
  "rec_thread_name r = string_or_default (rec_kv_get_string r KV_TAG_THREAD_NAME)"

definition set_thread_name :: "log_record \<Rightarrow> bytes \<Rightarrow> log_record" where
  "set_thread_name r v = rec_kv_put_string r KV_TAG_THREAD_NAME v"

definition rec_process_name :: "log_record \<Rightarrow> bytes" where
  "rec_process_name r = string_or_default (rec_kv_get_string r KV_TAG_PROCESS_NAME)"

definition set_process_name :: "log_record \<Rightarrow> bytes \<Rightarrow> log_record" where
  "set_process_name r v = rec_kv_put_string r KV_TAG_PROCESS_NAME v"

definition rec_host_name :: "log_record \<Rightarrow> bytes" where
  "rec_host_name r = string_or_default (rec_kv_get_string r KV_TAG_HOST_NAME)"

definition set_host_name :: "log_record \<Rightarrow> bytes \<Rightarrow> log_record" where
  "set_host_name r v = rec_kv_put_string r KV_TAG_HOST_NAME v"

definition rec_container_id :: "log_record \<Rightarrow> bytes" where
  "rec_container_id r = string_or_default (rec_kv_get_string r KV_TAG_CONTAINER_ID)"

definition set_container_id :: "log_record \<Rightarrow> bytes \<Rightarrow> log_record" where
  "set_container_id r v = rec_kv_put_string r KV_TAG_CONTAINER_ID v"

definition rec_app_name :: "log_record \<Rightarrow> bytes" where
  "rec_app_name r = string_or_default (rec_kv_get_string r KV_TAG_APP_NAME)"

definition set_app_name :: "log_record \<Rightarrow> bytes \<Rightarrow> log_record" where
  "set_app_name r v = rec_kv_put_string r KV_TAG_APP_NAME v"

definition rec_app_version :: "log_record \<Rightarrow> bytes" where
  "rec_app_version r = string_or_default (rec_kv_get_string r KV_TAG_APP_VERSION)"

definition set_app_version :: "log_record \<Rightarrow> bytes \<Rightarrow> log_record" where
  "set_app_version r v = rec_kv_put_string r KV_TAG_APP_VERSION v"

definition rec_environment :: "log_record \<Rightarrow> bytes" where
  "rec_environment r = string_or_default (rec_kv_get_string r KV_TAG_ENVIRONMENT)"

definition set_environment :: "log_record \<Rightarrow> bytes \<Rightarrow> log_record" where
  "set_environment r v = rec_kv_put_string r KV_TAG_ENVIRONMENT v"

definition rec_user_id :: "log_record \<Rightarrow> bytes" where
  "rec_user_id r = string_or_default (rec_kv_get_string r KV_TAG_USER_ID)"

definition set_user_id :: "log_record \<Rightarrow> bytes \<Rightarrow> log_record" where
  "set_user_id r v = rec_kv_put_string r KV_TAG_USER_ID v"

definition rec_session_id :: "log_record \<Rightarrow> bytes" where
  "rec_session_id r = string_or_default (rec_kv_get_string r KV_TAG_SESSION_ID)"

definition set_session_id :: "log_record \<Rightarrow> bytes \<Rightarrow> log_record" where
  "set_session_id r v = rec_kv_put_string r KV_TAG_SESSION_ID v"

definition rec_request_id :: "log_record \<Rightarrow> bytes" where
  "rec_request_id r = string_or_default (rec_kv_get_string r KV_TAG_REQUEST_ID)"

definition set_request_id :: "log_record \<Rightarrow> bytes \<Rightarrow> log_record" where
  "set_request_id r v = rec_kv_put_string r KV_TAG_REQUEST_ID v"

definition rec_trace_id :: "log_record \<Rightarrow> bytes" where
  "rec_trace_id r = string_or_default (rec_kv_get_string r KV_TAG_TRACE_ID)"

definition set_trace_id :: "log_record \<Rightarrow> bytes \<Rightarrow> log_record" where
  "set_trace_id r v = rec_kv_put_string r KV_TAG_TRACE_ID v"

definition rec_span_id :: "log_record \<Rightarrow> bytes" where
  "rec_span_id r = string_or_default (rec_kv_get_string r KV_TAG_SPAN_ID)"

definition set_span_id :: "log_record \<Rightarrow> bytes \<Rightarrow> log_record" where
  "set_span_id r v = rec_kv_put_string r KV_TAG_SPAN_ID v"

definition rec_exception_type :: "log_record \<Rightarrow> bytes" where
  "rec_exception_type r = string_or_default (rec_kv_get_string r KV_TAG_EXCEPTION_TYPE)"

definition set_exception_type :: "log_record \<Rightarrow> bytes \<Rightarrow> log_record" where
  "set_exception_type r v = rec_kv_put_string r KV_TAG_EXCEPTION_TYPE v"

definition rec_exception_message :: "log_record \<Rightarrow> bytes" where
  "rec_exception_message r = string_or_default (rec_kv_get_string r KV_TAG_EXCEPTION_MESSAGE)"

definition set_exception_message :: "log_record \<Rightarrow> bytes \<Rightarrow> log_record" where
  "set_exception_message r v = rec_kv_put_string r KV_TAG_EXCEPTION_MESSAGE v"

definition rec_exception_stacktrace :: "log_record \<Rightarrow> bytes" where
  "rec_exception_stacktrace r = string_or_default (rec_kv_get_string r KV_TAG_EXCEPTION_STACKTRACE)"

definition set_exception_stacktrace :: "log_record \<Rightarrow> bytes \<Rightarrow> log_record" where
  "set_exception_stacktrace r v = rec_kv_put_string r KV_TAG_EXCEPTION_STACKTRACE v"

definition rec_labels :: "log_record \<Rightarrow> bytes" where
  "rec_labels r = string_or_default (rec_kv_get_string r KV_TAG_LABELS)"

definition set_labels :: "log_record \<Rightarrow> bytes \<Rightarrow> log_record" where
  "set_labels r v = rec_kv_put_string r KV_TAG_LABELS v"

definition rec_audit_tags :: "log_record \<Rightarrow> bytes" where
  "rec_audit_tags r = string_or_default (rec_kv_get_string r KV_TAG_AUDIT_TAGS)"

definition set_audit_tags :: "log_record \<Rightarrow> bytes \<Rightarrow> log_record" where
  "set_audit_tags r v = rec_kv_put_string r KV_TAG_AUDIT_TAGS v"

definition rec_security_gap :: "log_record \<Rightarrow> bool" where
  "rec_security_gap r \<longleftrightarrow> rec_flags r AND RECORD_FLAG_GAP \<noteq> 0"

definition set_security_gap :: "log_record \<Rightarrow> bool \<Rightarrow> log_record" where
  "set_security_gap r v =
     (if v then r\<lparr>rec_flags := rec_flags r OR RECORD_FLAG_GAP\<rparr>
      else r\<lparr>rec_flags := rec_flags r AND NOT RECORD_FLAG_GAP\<rparr>)"

section \<open>Canonical serialisation\<close>

fun payload_kind_byte :: "payload_kind \<Rightarrow> u8" where
  "payload_kind_byte Utf8 = 0"
| "payload_kind_byte Binary = 1"
| "payload_kind_byte ExplicitDecodedText = 2"

text \<open>The bytes fed to the hash, in the order of the updates.\<close>

definition rec_hash_input :: "log_record \<Rightarrow> bytes" where
  "rec_hash_input r =
     (let msg = rs_as_bytes (rec_message r);
          h = le64 (rec_timestamp r) @ [level_as_u8 (rec_level r)] @ le32 (rec_process_id r) @
              le32 (rec_thread_id r) @ le64 (rec_lsn r) @ le16 (rec_flags r) @
              le32 (rec_pool_index r) @ [payload_kind_byte (rs_kind (rec_message r))] @
              to_le 8 (length msg) @ msg;
          h1 = kv_update_hash (rec_kv1 r) (kv_update_hash (rec_kv0 r) h)
      in case rec_kv_ext r of Some ext \<Rightarrow> fold kv_update_hash ext h1 | None \<Rightarrow> h1)"

definition compute_content_hash_from :: "(bytes \<Rightarrow> bytes) \<Rightarrow> log_record \<Rightarrow> bytes" where
  "compute_content_hash_from sha r = sha (rec_hash_input r)"

definition compute_content_hash :: "(bytes \<Rightarrow> bytes) \<Rightarrow> log_record \<Rightarrow> log_record" where
  "compute_content_hash sha r = r\<lparr>rec_content_hash := compute_content_hash_from sha r\<rparr>"

section \<open>Views and invariant\<close>

definition rec_slots :: "log_record \<Rightarrow> kv_slot list" where
  "rec_slots r =
     rec_kv0 r # rec_kv1 r # (case rec_kv_ext r of Some ext \<Rightarrow> ext | None \<Rightarrow> [])"

text \<open>The field map: tag to type byte and payload.\<close>

definition slots_map :: "kv_slot list \<Rightarrow> u8 \<Rightarrow> (u8 \<times> bytes) option" where
  "slots_map ss tag =
     (if tag = 0 then None
      else map_option (\<lambda>s. (kv_ty s, kv_value_slice s)) (List.find (\<lambda>s. kv_tag s = tag) ss))"

definition rec_map :: "log_record \<Rightarrow> u8 \<Rightarrow> (u8 \<times> bytes) option" where
  "rec_map r = slots_map (rec_slots r)"

definition slots_wf :: "kv_slot list \<Rightarrow> bool" where
  "slots_wf ss \<longleftrightarrow> (\<forall>s \<in> set ss. kv_wf s) \<and> distinct (filter (\<lambda>t. t \<noteq> 0) (map kv_tag ss))"

definition rec_wf :: "log_record \<Rightarrow> bool" where
  "rec_wf r \<longleftrightarrow>
     rs_wf (rec_message r) \<and> length (rec_content_hash r) = 32 \<and> slots_wf (rec_slots r)"

fun ref_index :: "slot_ref \<Rightarrow> nat" where
  "ref_index RefKv0 = 0"
| "ref_index RefKv1 = 1"
| "ref_index (RefExt i) = i + 2"

lemma slot_at_nth:
  "ref_index ref < length (rec_slots r) \<Longrightarrow> slot_at r ref = rec_slots r ! ref_index ref"
  by (cases ref) (auto simp: rec_slots_def split: option.splits)

lemma slots_write:
  "rec_slots (slot_write r ref s) = (rec_slots r)[ref_index ref := s]"
  by (cases ref) (auto simp: rec_slots_def split: option.splits)

lemma slots_ext_mut [simp]: "rec_slots (rec_kv_ext_mut r) = rec_slots r"
  by (simp add: rec_kv_ext_mut_def rec_slots_def)

lemma slots_push: "rec_slots (rec_push_ext r s) = rec_slots r @ [s]"
  by (auto simp: rec_push_ext_def rec_kv_ext_mut_def rec_slots_def Let_def split: option.splits)

text \<open>The searches are positions in the slot list.\<close>

lemma kv_find_mut_eq [simp]: "rec_kv_find_mut r tag = rec_kv_find r tag"
  by (simp add: rec_kv_find_mut_def rec_kv_find_def)

lemma kv_find_index:
  "map_option ref_index (rec_kv_find r tag) =
     (if tag = 0 then None else position (\<lambda>s. kv_tag s = tag) (rec_slots r))"
  by (auto simp: rec_kv_find_def rec_slots_def kv_consts option.map_comp comp_def
      split: option.splits)

lemma kv_find_Some:
  "rec_kv_find r tag = Some ref \<Longrightarrow>
     tag \<noteq> 0 \<and> position (\<lambda>s. kv_tag s = tag) (rec_slots r) = Some (ref_index ref)"
  using kv_find_index [of r tag] by (auto split: if_splits)

lemma kv_find_None:
  "rec_kv_find r tag = None \<longleftrightarrow> tag = 0 \<or> (\<forall>s \<in> set (rec_slots r). kv_tag s \<noteq> tag)"
proof -
  have "rec_kv_find r tag = None \<longleftrightarrow> map_option ref_index (rec_kv_find r tag) = None" by simp
  also have "\<dots> \<longleftrightarrow> tag = 0 \<or> position (\<lambda>s. kv_tag s = tag) (rec_slots r) = None"
    by (subst kv_find_index) simp
  finally show ?thesis by (simp only: position_None_iff)
qed

lemma kv_find_empty_eq:
  "rec_slots (snd (rec_kv_find_empty r)) = rec_slots r"
  "map_option ref_index (fst (rec_kv_find_empty r)) = position kv_is_empty (rec_slots r)"
  by (auto simp: rec_kv_find_empty_def rec_kv_ext_mut_def rec_slots_def Let_def
      option.map_comp comp_def split: option.splits)

lemma find_position:
  "List.find P xs = (case position P xs of Some i \<Rightarrow> Some (xs ! i) | None \<Rightarrow> None)"
  by (induction xs) (auto split: option.splits)

lemma rec_get_map: "rec_get r tag = rec_map r tag"
proof (cases "rec_kv_find r tag")
  case None
  then have "tag = 0 \<or> List.find (\<lambda>s. kv_tag s = tag) (rec_slots r) = None"
    unfolding kv_find_None by (elim disjE) (rule disjI1, assumption, rule disjI2, erule find_None)
  with None show ?thesis
    by (auto simp: rec_get_def rec_map_def slots_map_def)
next
  case (Some ref)
  then have "tag \<noteq> 0" and pos: "position (\<lambda>s. kv_tag s = tag) (rec_slots r) = Some (ref_index ref)"
    by (auto dest: kv_find_Some)
  moreover from pos have "slot_at r ref = rec_slots r ! ref_index ref"
    by (intro slot_at_nth) (rule position_less)
  moreover from pos have "kv_tag (rec_slots r ! ref_index ref) = tag"
    by (rule position_nth [where P = "\<lambda>s. kv_tag s = tag"])
  ultimately show ?thesis
    using Some by (simp add: rec_get_def rec_map_def slots_map_def find_position kv_get_def
        kv_is_empty_def kv_consts)
qed

section \<open>A put is a map update\<close>

text \<open>The two effects a put can have on the slot list.\<close>

lemma slots_map_append:
  "(\<forall>s \<in> set ss. kv_tag s \<noteq> t) \<Longrightarrow> kv_tag x = t \<Longrightarrow> t \<noteq> 0 \<Longrightarrow>
     slots_map (ss @ [x]) = (slots_map ss)(t \<mapsto> (kv_ty x, kv_value_slice x))"
  by (rule ext) (auto simp: slots_map_def find_append find_None split: option.splits)

lemma find_update:
  assumes "i < length ss" and "kv_tag (ss ! i) \<in> {0, kv_tag x}" and "t \<noteq> 0" "t \<noteq> kv_tag x"
  shows "List.find (\<lambda>s. kv_tag s = t) (ss[i := x]) = List.find (\<lambda>s. kv_tag s = t) ss"
  using assms
proof (induction ss arbitrary: i)
  case (Cons a ss)
  then show ?case by (cases i) auto
qed simp

lemma find_update_same:
  assumes "i < length ss" and "\<forall>j < i. kv_tag (ss ! j) \<noteq> kv_tag x"
  shows "List.find (\<lambda>s. kv_tag s = kv_tag x) (ss[i := x]) = Some x"
  using assms
proof (induction ss arbitrary: i)
  case (Cons a ss)
  then show ?case
  proof (cases i)
    case (Suc j)
    with Cons.prems have "kv_tag a \<noteq> kv_tag x" "\<forall>k < j. kv_tag (ss ! k) \<noteq> kv_tag x"
      by (force, force)
    with Suc Cons show ?thesis by auto
  qed simp
qed simp

lemma slots_map_update:
  assumes "i < length ss" and "kv_tag (ss ! i) \<in> {0, kv_tag x}" and "kv_tag x \<noteq> 0"
    and "\<forall>j < i. kv_tag (ss ! j) \<noteq> kv_tag x"
  shows "slots_map (ss[i := x]) = (slots_map ss)(kv_tag x \<mapsto> (kv_ty x, kv_value_slice x))"
  using assms find_update [OF assms(1,2)] find_update_same [OF assms(1,4)]
  by (intro ext) (auto simp: slots_map_def)

lemma position_before: "position P xs = Some i \<Longrightarrow> j < i \<Longrightarrow> \<not> P (xs ! j)"
  by (drule position_Some_split) (auto simp: nth_append)

lemma slots_wf_append:
  "slots_wf ss \<Longrightarrow> kv_wf x \<Longrightarrow> (\<forall>s \<in> set ss. kv_tag s \<noteq> kv_tag x) \<Longrightarrow> slots_wf (ss @ [x])"
  by (auto simp: slots_wf_def)

lemma slots_wf_update:
  assumes "slots_wf ss" and "kv_wf x" and "i < length ss"
    and "kv_tag (ss ! i) = kv_tag x \<or> (\<forall>s \<in> set ss. kv_tag s \<noteq> kv_tag x)"
  shows "slots_wf (ss[i := x])"
proof -
  have split: "ss = take i ss @ ss ! i # drop (Suc i) ss"
    using assms(3) by (simp add: id_take_nth_drop)
  have upd: "ss[i := x] = take i ss @ x # drop (Suc i) ss"
    using assms(3) by (rule upd_conv_take_nth_drop)
  have "slots_wf (take i ss @ ss ! i # drop (Suc i) ss)"
    using assms(1) split by simp
  moreover have "kv_tag (ss ! i) = kv_tag x \<or>
      (\<forall>s \<in> set (take i ss) \<union> set (drop (Suc i) ss). kv_tag s \<noteq> kv_tag x)"
    using assms(4) by (auto dest: in_set_takeD in_set_dropD)
  ultimately show ?thesis
    using assms(2) unfolding upd slots_wf_def by (auto split: if_splits)
qed

text \<open>The fixed fields, which no put touches.\<close>

definition rec_fixed :: "log_record \<Rightarrow>
    (u64 \<times> log_level \<times> u32 \<times> u32 \<times> u64 \<times> u16 \<times> u32) \<times> record_string \<times> bytes" where
  "rec_fixed r =
     ((rec_timestamp r, rec_level r, rec_process_id r, rec_thread_id r, rec_lsn r, rec_flags r,
       rec_pool_index r), rec_message r, rec_content_hash r)"

lemma rec_fixed_write [simp]: "rec_fixed (slot_write r ref s) = rec_fixed r"
  by (cases ref) (simp_all add: rec_fixed_def)

lemma rec_fixed_ext_mut [simp]: "rec_fixed (rec_kv_ext_mut r) = rec_fixed r"
  by (simp add: rec_fixed_def rec_kv_ext_mut_def)

lemma rec_fixed_push [simp]: "rec_fixed (rec_push_ext r s) = rec_fixed r"
  by (simp add: rec_push_ext_def Let_def) (simp add: rec_fixed_def rec_kv_ext_mut_def)

lemma rec_fixed_find_empty: "rec_fixed (snd (rec_kv_find_empty r)) = rec_fixed r"
  by (auto simp: rec_kv_find_empty_def Let_def split: option.splits)

context slot_writer
begin

text \<open>What a put does to the slot list: the slot found, else the first empty one, else a new one.\<close>

lemma rec_store_slots:
  assumes "t \<noteq> 0"
  shows "rec_slots (rec_kv_store wr r t v) =
    (case position (\<lambda>s. kv_tag s = t) (rec_slots r) of
       Some i \<Rightarrow> (rec_slots r)[i := wr (rec_slots r ! i) t v]
     | None \<Rightarrow>
         (case position kv_is_empty (rec_slots r) of
            Some i \<Rightarrow> (rec_slots r)[i := wr (rec_slots r ! i) t v]
          | None \<Rightarrow> rec_slots r @ [wr kv_empty t v]))"
proof (cases "rec_kv_find r t")
  case (Some ref)
  then have pos: "position (\<lambda>s. kv_tag s = t) (rec_slots r) = Some (ref_index ref)"
    by (simp add: kv_find_Some)
  then have "slot_at r ref = rec_slots r ! ref_index ref"
    by (intro slot_at_nth) (rule position_less)
  with Some pos assms show ?thesis
    by (simp add: rec_kv_store_def slots_write)
next
  case None
  then have none: "position (\<lambda>s. kv_tag s = t) (rec_slots r) = None"
    using assms kv_find_index [of r t] by simp
  obtain ref r1 where fe: "rec_kv_find_empty r = (ref, r1)" by fastforce
  then have r1: "rec_slots r1 = rec_slots r"
    and ref: "map_option ref_index ref = position kv_is_empty (rec_slots r)"
    using kv_find_empty_eq [of r] by simp_all
  show ?thesis
  proof (cases ref)
    case None': None
    with None none ref fe r1 assms show ?thesis
      by (simp add: rec_kv_store_def slots_push)
  next
    case (Some x)
    with ref have pos: "position kv_is_empty (rec_slots r) = Some (ref_index x)" by simp
    then have "ref_index x < length (rec_slots r1)"
      unfolding r1 by (rule position_less)
    then have "slot_at r1 x = rec_slots r ! ref_index x"
      by (simp add: slot_at_nth r1)
    with None none Some pos fe r1 assms show ?thesis
      by (simp add: rec_kv_store_def slots_write)
  qed
qed

lemma rec_store_slots_wf:
  assumes "slots_wf (rec_slots r)" "t \<noteq> 0" "ok v"
  shows "slots_wf (rec_slots (rec_kv_store wr r t v)) \<and>
    rec_map (rec_kv_store wr r t v) = (rec_map r)(t \<mapsto> (ty, enc v))"
proof -
  let ?ss = "rec_slots r"
  have wf: "kv_wf s" if "s \<in> set ?ss" for s
    using assms(1) that by (simp add: slots_wf_def)
  show ?thesis
  proof (cases "position (\<lambda>s. kv_tag s = t) ?ss")
    case (Some i)
    then have i: "i < length ?ss" "kv_tag (?ss ! i) = t" "\<forall>j < i. kv_tag (?ss ! j) \<noteq> t"
      by (auto dest: position_less position_nth position_before)
    then have "kv_wf (?ss ! i)" by (simp add: wf)
    with i assms Some show ?thesis
      using slots_map_update [of i ?ss "wr (?ss ! i) t v"] slots_wf_update [OF assms(1), of "wr (?ss ! i) t v" i]
      by (simp add: rec_store_slots rec_map_def write_tag write_ty write_slice write_wf)
  next
    case None
    then have new: "\<forall>s \<in> set ?ss. kv_tag s \<noteq> t" by (simp add: position_None_iff)
    show ?thesis
    proof (cases "position kv_is_empty ?ss")
      case (Some i)
      then have i: "i < length ?ss" "kv_tag (?ss ! i) = 0"
        by (auto dest: position_less position_nth simp: kv_is_empty_def kv_consts)
      then have "kv_wf (?ss ! i)" "\<forall>j < i. kv_tag (?ss ! j) \<noteq> t" using new by (auto simp: wf)
      with i assms Some None new show ?thesis
        using slots_map_update [of i ?ss "wr (?ss ! i) t v"] slots_wf_update [OF assms(1), of "wr (?ss ! i) t v" i]
        by (simp add: rec_store_slots rec_map_def write_tag write_ty write_slice write_wf)
    next
      case none: None
      with None assms new show ?thesis
        using slots_map_append [of ?ss t "wr kv_empty t v"] slots_wf_append [OF assms(1), of "wr kv_empty t v"]
        by (simp add: rec_store_slots rec_map_def write_tag write_ty write_slice write_wf)
    qed
  qed
qed

lemma rec_store_fixed: "rec_fixed (rec_kv_store wr r t v) = rec_fixed r"
  using rec_fixed_find_empty [of r]
  by (auto simp: rec_kv_store_def split: option.splits prod.splits)

lemma rec_put_slots_wf:
  assumes "slots_wf (rec_slots r)" "t \<noteq> 0" "t \<le> KV_TAG_MAX" "ok v"
  shows "slots_wf (rec_slots (rec_kv_put wr r t v)) \<and>
    rec_map (rec_kv_put wr r t v) = (rec_map r)(t \<mapsto> (ty, enc v))"
proof -
  have "\<not> (t = KV_TAG_EMPTY \<or> KV_TAG_MAX < t)"
    using assms(2,3) by (simp add: kv_consts leD)
  then show ?thesis
    using rec_store_slots_wf [OF assms(1,2,4)] by (simp add: rec_kv_put_def)
qed

lemma rec_put_fixed: "rec_fixed (rec_kv_put wr r t v) = rec_fixed r"
  by (simp add: rec_kv_put_def rec_store_fixed)

end

section \<open>Reading what was put\<close>

lemma kv_wf_slice_bound: "kv_wf s \<Longrightarrow> length (kv_value_slice s) < 2 ^ 64"
proof (cases "kv_len s = KV_LEN_OVERFLOW")
  case False
  have "length (kv_value_slice s) \<le> unat (kv_len s)"
    using False by (simp add: kv_value_slice_def)
  also have "\<dots> < 256" by simp
  finally show ?thesis by simp
qed (auto simp: kv_wf_def kv_value_slice_def)

lemma valid_tags [simp]:
  "KV_TAG_SOURCE_LINE \<noteq> 0" "KV_TAG_SOURCE_LINE \<le> KV_TAG_MAX" "(1::u8) \<le> KV_TAG_MAX"
  "KV_TAG_SOURCE_COLUMN \<noteq> 0" "KV_TAG_SOURCE_COLUMN \<le> KV_TAG_MAX"
  "KV_TAG_COROUTINE_ID \<noteq> 0" "KV_TAG_COROUTINE_ID \<le> KV_TAG_MAX"
  "KV_TAG_EXCEPTION_CODE \<noteq> 0" "KV_TAG_EXCEPTION_CODE \<le> KV_TAG_MAX"
  "KV_TAG_SOURCE_FILE \<noteq> 0" "KV_TAG_SOURCE_FILE \<le> KV_TAG_MAX"
  by (simp_all add: tag_defs KV_TAG_MAX_def word_le_nat_alt)

lemma rec_kv_get_string_map:
  "rec_kv_get_string r tag =
     (case rec_map r tag of
        None \<Rightarrow> None
      | Some (ty, d) \<Rightarrow> if ty = 5 then (if utf8_valid d then Some d else None) else None)"
  by (auto simp: rec_kv_get_string_def kv_get_string_def rec_get_def
      simp flip: rec_get_map split: option.splits)

lemma rec_display_map:
  "rec_kv_get_display_string r tag =
     (case rec_map r tag of
        None \<Rightarrow> None
      | Some (ty, d) \<Rightarrow>
          if ty = 5 then (if utf8_valid d then Some d else None)
          else if ty = 2 \<and> 8 \<le> length d then Some (str_bytes (dec (from_le (take 8 d))))
          else if ty = 1 \<and> 8 \<le> length d then Some (i64_text (take 8 d))
          else None)"
  by (auto simp: rec_kv_get_display_string_def rec_get_def
      simp flip: rec_get_map split: option.splits)

lemma rec_get_number_int:
  "rec_map r tag = Some (ty, le64 v) \<Longrightarrow> rec_kv_get_number r tag ty parse = v"
  by (auto simp: rec_kv_get_number_def rec_get_def simp flip: rec_get_map split: option.splits)

lemma rec_put_maps:
  assumes "slots_wf (rec_slots r)" "tag \<noteq> 0" "tag \<le> KV_TAG_MAX"
  shows "fits_usize v \<Longrightarrow> rec_map (rec_kv_put_string r tag v) = (rec_map r)(tag \<mapsto> (5, v))"
    and "fits_usize v \<Longrightarrow> rec_map (rec_kv_put_binary r tag v) = (rec_map r)(tag \<mapsto> (6, v))"
    and "rec_map (rec_kv_put_u64 r tag n) = (rec_map r)(tag \<mapsto> (2, le64 n))"
    and "rec_map (rec_kv_put_i64 r tag n) = (rec_map r)(tag \<mapsto> (1, le64 n))"
  using assms
  by (simp_all add: rec_kv_put_string_def rec_kv_put_binary_def rec_kv_put_u64_def
      rec_kv_put_i64_def string_writer.rec_put_slots_wf binary_writer.rec_put_slots_wf
      u64_writer.rec_put_slots_wf i64_writer.rec_put_slots_wf)

lemma rec_put_fixed_all [simp]:
  "rec_fixed (rec_kv_put_string r tag v) = rec_fixed r"
  "rec_fixed (rec_kv_put_binary r tag v) = rec_fixed r"
  "rec_fixed (rec_kv_put_u64 r tag n) = rec_fixed r"
  "rec_fixed (rec_kv_put_i64 r tag n) = rec_fixed r"
  by (simp_all add: rec_kv_put_string_def rec_kv_put_binary_def rec_kv_put_u64_def
      rec_kv_put_i64_def string_writer.rec_put_fixed binary_writer.rec_put_fixed
      u64_writer.rec_put_fixed i64_writer.rec_put_fixed)

lemma rec_wf_fixed:
  "rec_fixed r' = rec_fixed r \<Longrightarrow> rec_wf r \<Longrightarrow> slots_wf (rec_slots r') \<Longrightarrow> rec_wf r'"
  by (simp add: rec_wf_def rec_fixed_def)

lemma rec_put_invalid:
  "tag = 0 \<or> KV_TAG_MAX < tag \<Longrightarrow> rec_kv_put wr r tag v = r"
  by (auto simp: rec_kv_put_def kv_consts)

lemma rec_wf_puts:
  assumes "rec_wf r"
  shows "fits_usize v \<Longrightarrow> rec_wf (rec_kv_put_string r tag v)"
    and "fits_usize v \<Longrightarrow> rec_wf (rec_kv_put_binary r tag v)"
    and "rec_wf (rec_kv_put_u64 r tag n)"
    and "rec_wf (rec_kv_put_i64 r tag n)"
proof -
  have "slots_wf (rec_slots r)" using assms by (simp add: rec_wf_def)
  then have *: "fits_usize v \<Longrightarrow> slots_wf (rec_slots (rec_kv_put_string r tag v))"
    "fits_usize v \<Longrightarrow> slots_wf (rec_slots (rec_kv_put_binary r tag v))"
    "slots_wf (rec_slots (rec_kv_put_u64 r tag n))"
    "slots_wf (rec_slots (rec_kv_put_i64 r tag n))"
    by (cases "tag = 0 \<or> KV_TAG_MAX < tag";
        simp add: rec_kv_put_string_def rec_kv_put_binary_def rec_kv_put_u64_def
          rec_kv_put_i64_def rec_put_invalid not_less string_writer.rec_put_slots_wf
          binary_writer.rec_put_slots_wf u64_writer.rec_put_slots_wf i64_writer.rec_put_slots_wf)+
  show "fits_usize v \<Longrightarrow> rec_wf (rec_kv_put_string r tag v)"
    "fits_usize v \<Longrightarrow> rec_wf (rec_kv_put_binary r tag v)"
    "rec_wf (rec_kv_put_u64 r tag n)" "rec_wf (rec_kv_put_i64 r tag n)"
    using * by (auto intro: rec_wf_fixed [OF _ assms])
qed

lemma rec_wf_new [simp]: "rec_wf (rec_new i)"
  by (simp add: rec_wf_def rec_new_def rec_slots_def slots_wf_def)
     (simp add: kv_empty_def kv_consts)

section \<open>The hash input is uniquely readable\<close>

lemma hash_input_slots:
  "rec_hash_input r =
     le64 (rec_timestamp r) @ [level_as_u8 (rec_level r)] @ le32 (rec_process_id r) @
     le32 (rec_thread_id r) @ le64 (rec_lsn r) @ le16 (rec_flags r) @ le32 (rec_pool_index r) @
     [payload_kind_byte (rs_kind (rec_message r))] @
     to_le 8 (length (rs_as_bytes (rec_message r))) @ rs_as_bytes (rec_message r) @
     fold kv_update_hash (rec_slots r) []"
proof -
  have acc: "fold kv_update_hash ss buf = buf @ fold kv_update_hash ss []" for ss buf
  proof (induction ss arbitrary: buf)
    case (Cons s ss)
    have "kv_update_hash s buf = buf @ kv_update_hash s []"
      by (simp add: kv_update_hash_eq kv_hash_slot_canon)
    then show ?case
      using Cons.IH [of "kv_update_hash s buf"] Cons.IH [of "kv_update_hash s []"] by simp
  qed simp
  let ?h = "le64 (rec_timestamp r) @ [level_as_u8 (rec_level r)] @ le32 (rec_process_id r) @
     le32 (rec_thread_id r) @ le64 (rec_lsn r) @ le16 (rec_flags r) @ le32 (rec_pool_index r) @
     [payload_kind_byte (rs_kind (rec_message r))] @
     to_le 8 (length (rs_as_bytes (rec_message r))) @ rs_as_bytes (rec_message r)"
  have "rec_hash_input r = fold kv_update_hash (rec_slots r) ?h"
    by (cases "rec_kv_ext r") (simp_all add: rec_hash_input_def Let_def rec_slots_def)
  then show ?thesis
    by (simp only: acc [of _ ?h]) simp
qed

lemma payload_kind_byte_inj [simp]: "payload_kind_byte a = payload_kind_byte b \<longleftrightarrow> a = b"
  by (cases a; cases b) simp_all

section \<open>Properties\<close>

text \<open>C32: The slots of a record implement a finite map: on every well-formed record each
  typed put with a valid tag keeps the record well-formed (no tag stored twice, no slot
  corrupted), updates exactly that tag of the field map to the type and encoding put, and
  changes no fixed field, whether the tag is overwritten, takes a free slot or grows the
  overflow vector; a put with tag 0 or above 192 changes nothing.\<close>

theorem record_put_refines_map:
  assumes "rec_wf r" and "fits_usize v"
  shows "rec_wf (rec_kv_put_string r tag v) \<and> rec_wf (rec_kv_put_binary r tag v) \<and>
    rec_wf (rec_kv_put_u64 r tag n) \<and> rec_wf (rec_kv_put_i64 r tag n) \<and>
    (if tag = 0 \<or> KV_TAG_MAX < tag then
       rec_kv_put_string r tag v = r \<and> rec_kv_put_binary r tag v = r \<and>
       rec_kv_put_u64 r tag n = r \<and> rec_kv_put_i64 r tag n = r
     else
       rec_map (rec_kv_put_string r tag v) = (rec_map r)(tag \<mapsto> (5, v)) \<and>
       rec_map (rec_kv_put_binary r tag v) = (rec_map r)(tag \<mapsto> (6, v)) \<and>
       rec_map (rec_kv_put_u64 r tag n) = (rec_map r)(tag \<mapsto> (2, le64 n)) \<and>
       rec_map (rec_kv_put_i64 r tag n) = (rec_map r)(tag \<mapsto> (1, le64 n))) \<and>
    rec_fixed (rec_kv_put_string r tag v) = rec_fixed r \<and>
    rec_fixed (rec_kv_put_binary r tag v) = rec_fixed r \<and>
    rec_fixed (rec_kv_put_u64 r tag n) = rec_fixed r \<and>
    rec_fixed (rec_kv_put_i64 r tag n) = rec_fixed r"
proof -
  from assms(1) have "slots_wf (rec_slots r)" by (simp add: rec_wf_def)
  then show ?thesis
    using assms
    by (simp add: rec_wf_puts rec_put_maps not_less)
       (simp add: rec_kv_put_string_def rec_kv_put_binary_def rec_kv_put_u64_def
          rec_kv_put_i64_def rec_put_invalid)
qed

theorem record_put_refines_map_witness:
  "rec_map (rec_kv_put_string (rec_set_id (rec_new 3) 1 2) 200 [65]) = rec_map (rec_set_id (rec_new 3) 1 2)"
proof -
  have "rec_wf (rec_set_id (rec_new 3) 1 2)"
    by (simp add: rec_set_id_def rec_wf_puts fits_usize_def)
  then show ?thesis
    using record_put_refines_map [of "rec_set_id (rec_new 3) 1 2" "[65]" 200 0]
    by (simp add: fits_usize_def KV_TAG_MAX_def word_less_nat_alt)
qed

text \<open>What the setters store the getters return: on every well-formed record the id halves,
  the hexadecimal id, the numeric fields (line, column, coroutine, exception code) and a
  UTF-8 string field read back exactly as set, through the slots that hold them.\<close>

theorem record_accessors_roundtrip:
  assumes "rec_wf r"
  shows "rec_id_hi (rec_set_id r hi lo) = hi \<and> rec_id_lo (rec_set_id r hi lo) = lo \<and>
    rec_id_hex (rec_set_id r hi lo) = hex16 hi @ hex16 lo \<and>
    rec_source_line (set_source_line r n) = n \<and>
    rec_source_column (set_source_column r n) = n \<and>
    rec_coroutine_id (set_coroutine_id r k) = k \<and>
    rec_exception_code (set_exception_code r k) = k \<and>
    (fits_usize v \<and> utf8_valid v \<longrightarrow> rec_source_file (set_source_file r v) = v)"
proof -
  have s: "slots_wf (rec_slots r)" using assms by (simp add: rec_wf_def)
  have id: "rec_get (rec_set_id r hi lo) 1 = Some (6, le64 hi @ le64 lo)"
    using rec_put_maps(2) [OF s, of 1 "le64 hi @ le64 lo"]
    by (simp add: rec_set_id_def rec_get_map fits_usize_def)
  have num: "ucast (ucast n :: u64) = n" by (rule bit_word_eqI) (auto simp: bit_simps)
  have line: "rec_source_line (set_source_line r n) = n"
    unfolding rec_source_line_def set_source_line_def
    by (subst rec_get_number_int [where v = "ucast n"]) (simp_all add: rec_put_maps [OF s] num)
  have col: "rec_source_column (set_source_column r n) = n"
    unfolding rec_source_column_def set_source_column_def
    by (subst rec_get_number_int [where v = "ucast n"]) (simp_all add: rec_put_maps [OF s] num)
  have co: "rec_coroutine_id (set_coroutine_id r k) = k"
    "rec_exception_code (set_exception_code r k) = k"
    unfolding rec_coroutine_id_def set_coroutine_id_def rec_exception_code_def
      set_exception_code_def
    by (subst rec_get_number_int [where v = k]; simp add: rec_put_maps [OF s])+
  have path: "rec_source_file (set_source_file r v) = v" if "fits_usize v" "utf8_valid v"
    using that by (simp add: rec_source_file_def set_source_file_def string_or_default_def
        rec_kv_get_string_map rec_put_maps [OF s])
  show ?thesis
    using id line col co path by (simp add: rec_id_hi_def rec_id_lo_def rec_id_hex_def)
qed

theorem record_accessors_roundtrip_witness:
  "rec_id_hex (rec_set_id (set_source_line (rec_new 0) 7) 1 2) = hex16 1 @ hex16 2"
  using record_accessors_roundtrip [of "set_source_line (rec_new 0) 7" 1 2]
  by (simp add: set_source_line_def rec_wf_puts)

text \<open>Reuse leaks nothing: resetting any well-formed record gives exactly the record a
  fresh pool slot of the same index holds, for every field, slot and heap buffer.\<close>

theorem record_reset_is_new:
  assumes "rec_wf r"
  shows "rec_reset r = rec_new (rec_pool_index r)"
  using assms
  by (cases "rec_kv_ext r")
     (simp_all add: rec_reset_def rec_kv_clear_ext_def rec_new_def rec_wf_def rs_clear_eq
        kv_clear_def)

theorem record_reset_is_new_witness:
  "rec_reset (rec_set_id (rec_new 3) 9 9) = rec_new 3"
proof -
  have "rec_wf (rec_set_id (rec_new 3) 9 9)"
    by (simp add: rec_set_id_def rec_wf_puts fits_usize_def)
  moreover have "rec_fixed (rec_set_id (rec_new 3) 9 9) = rec_fixed (rec_new 3)"
    by (simp add: rec_set_id_def)
  then have "rec_pool_index (rec_set_id (rec_new 3) 9 9) = 3"
    by (simp add: rec_fixed_def rec_new_def)
  ultimately show ?thesis
    using record_reset_is_new [of "rec_set_id (rec_new 3) 9 9"] by simp
qed



end
