(* ===== verification/Error_Codes.thy ===== *)
theory Error_Codes
  imports Prelude
begin

text \<open>
  Error codes, their descriptors and structured reports (core/src/error.rs). A code is an
  \<open>i32\<close>, here an integer; the statements about all codes bound it by the range of that type.
  Fixed byte arrays are byte lists of their length. \<open>String::truncate\<close> panics off a character
  boundary, which is the value \<open>None\<close> of \<open>with_detail\<close>.
\<close>

section \<open>Codes\<close>

definition DO_LOG_OK :: int where "DO_LOG_OK = 0"
definition DO_LOG_ERR_INVALID_ARG :: int where "DO_LOG_ERR_INVALID_ARG = -0x0101"
definition DO_LOG_ERR_NOT_SUPPORTED :: int where "DO_LOG_ERR_NOT_SUPPORTED = -0x0102"
definition DO_LOG_ERR_NOT_INITIALIZED :: int where "DO_LOG_ERR_NOT_INITIALIZED = -0x0103"
definition DO_LOG_ERR_ALREADY_INITIALIZED :: int where "DO_LOG_ERR_ALREADY_INITIALIZED = -0x0104"
definition DO_LOG_ERR_OUT_OF_MEMORY :: int where "DO_LOG_ERR_OUT_OF_MEMORY = -0x0105"
definition DO_LOG_ERR_BUFFER_TOO_SMALL :: int where "DO_LOG_ERR_BUFFER_TOO_SMALL = -0x0106"
definition DO_LOG_ERR_TIMEOUT :: int where "DO_LOG_ERR_TIMEOUT = -0x0107"
definition DO_LOG_ERR_INTERNAL :: int where "DO_LOG_ERR_INTERNAL = -0x0108"
definition DO_LOG_ERR_INIT_FAILED :: int where "DO_LOG_ERR_INIT_FAILED = -0x0109"
definition DO_LOG_ERR_CONFIG_NOT_FOUND :: int where "DO_LOG_ERR_CONFIG_NOT_FOUND = -0x0201"
definition DO_LOG_ERR_CONFIG_PERMISSION :: int where "DO_LOG_ERR_CONFIG_PERMISSION = -0x0202"
definition DO_LOG_ERR_CONFIG_PARSE :: int where "DO_LOG_ERR_CONFIG_PARSE = -0x0203"
definition DO_LOG_ERR_CONFIG_VALIDATION :: int where "DO_LOG_ERR_CONFIG_VALIDATION = -0x0204"
definition DO_LOG_ERR_CONFIG_MERGE :: int where "DO_LOG_ERR_CONFIG_MERGE = -0x0205"
definition DO_LOG_ERR_CONFIG_HOT_RELOAD_FAILED :: int where
  "DO_LOG_ERR_CONFIG_HOT_RELOAD_FAILED = -0x0206"
definition DO_LOG_ERR_CONFIG_HASH_MISMATCH :: int where "DO_LOG_ERR_CONFIG_HASH_MISMATCH = -0x0207"
definition DO_LOG_ERR_CONFIG_HOT_RELOAD_INVALID :: int where
  "DO_LOG_ERR_CONFIG_HOT_RELOAD_INVALID = -0x0208"
definition DO_LOG_ERR_CONFIG_RESTART_REQUIRED :: int where
  "DO_LOG_ERR_CONFIG_RESTART_REQUIRED = -0x0209"
definition DO_LOG_ERR_PLUGIN_NOT_FOUND :: int where "DO_LOG_ERR_PLUGIN_NOT_FOUND = -0x0301"
definition DO_LOG_ERR_PLUGIN_LOAD_FAILED :: int where "DO_LOG_ERR_PLUGIN_LOAD_FAILED = -0x0302"
definition DO_LOG_ERR_PLUGIN_MANIFEST_INVALID :: int where
  "DO_LOG_ERR_PLUGIN_MANIFEST_INVALID = -0x0303"
definition DO_LOG_ERR_PLUGIN_VERSION_MISMATCH :: int where
  "DO_LOG_ERR_PLUGIN_VERSION_MISMATCH = -0x0304"
definition DO_LOG_ERR_PLUGIN_ABI :: int where "DO_LOG_ERR_PLUGIN_ABI = -0x0305"
definition DO_LOG_ERR_PLUGIN_DEPENDENCY_MISSING :: int where
  "DO_LOG_ERR_PLUGIN_DEPENDENCY_MISSING = -0x0306"
definition DO_LOG_ERR_PLUGIN_LOCK_MISMATCH :: int where "DO_LOG_ERR_PLUGIN_LOCK_MISMATCH = -0x0307"
definition DO_LOG_ERR_PLUGIN_SIGNATURE_INVALID :: int where
  "DO_LOG_ERR_PLUGIN_SIGNATURE_INVALID = -0x0308"
definition DO_LOG_ERR_MISSING_CAPABILITY :: int where "DO_LOG_ERR_MISSING_CAPABILITY = -0x0309"
definition DO_LOG_ERR_CIRCULAR_DEPENDENCY :: int where "DO_LOG_ERR_CIRCULAR_DEPENDENCY = -0x030A"
definition DO_LOG_ERR_TOKEN_EXCEEDED_DEPTH :: int where "DO_LOG_ERR_TOKEN_EXCEEDED_DEPTH = -0x030B"
definition DO_LOG_ERR_CALL_DEADLOCK :: int where "DO_LOG_ERR_CALL_DEADLOCK = -0x030C"
definition DO_LOG_ERR_STATE_FORMAT_UNSUPPORTED :: int where
  "DO_LOG_ERR_STATE_FORMAT_UNSUPPORTED = -0x030D"
definition DO_LOG_ERR_STATE_ROLLBACK_REJECTED :: int where
  "DO_LOG_ERR_STATE_ROLLBACK_REJECTED = -0x030E"
definition DO_LOG_ERR_STATE_MIGRATE_FAILED :: int where "DO_LOG_ERR_STATE_MIGRATE_FAILED = -0x030F"
definition DO_LOG_ERR_RECORD_INVALID :: int where "DO_LOG_ERR_RECORD_INVALID = -0x0401"
definition DO_LOG_ERR_FIELD_NOT_FOUND :: int where "DO_LOG_ERR_FIELD_NOT_FOUND = -0x0402"
definition DO_LOG_ERR_FIELD_PERMISSION_DENIED :: int where
  "DO_LOG_ERR_FIELD_PERMISSION_DENIED = -0x0403"
definition DO_LOG_ERR_FIELD_TYPE_MISMATCH :: int where "DO_LOG_ERR_FIELD_TYPE_MISMATCH = -0x0404"
definition DO_LOG_ERR_FIELD_DEPENDENCY_NOT_MET :: int where
  "DO_LOG_ERR_FIELD_DEPENDENCY_NOT_MET = -0x0405"
definition DO_LOG_ERR_RECORD_INVALID_ENCODING :: int where
  "DO_LOG_ERR_RECORD_INVALID_ENCODING = -0x0406"
definition DO_LOG_ERR_BUFFER_FULL :: int where "DO_LOG_ERR_BUFFER_FULL = -0x0501"
definition DO_LOG_ERR_PIPELINE_STAGE :: int where "DO_LOG_ERR_PIPELINE_STAGE = -0x0502"
definition DO_LOG_ERR_AUDIT_QUEUE_FULL :: int where "DO_LOG_ERR_AUDIT_QUEUE_FULL = -0x0503"
definition DO_LOG_ERR_SIGN_FAILED :: int where "DO_LOG_ERR_SIGN_FAILED = -0x0601"
definition DO_LOG_ERR_VERIFY_FAILED :: int where "DO_LOG_ERR_VERIFY_FAILED = -0x0602"
definition DO_LOG_ERR_LSN_CHAIN_BROKEN :: int where "DO_LOG_ERR_LSN_CHAIN_BROKEN = -0x0603"
definition DO_LOG_ERR_LSN_GAP_DETECTED :: int where "DO_LOG_ERR_LSN_GAP_DETECTED = -0x0604"
definition DO_LOG_ERR_KEY_NOT_AVAILABLE :: int where "DO_LOG_ERR_KEY_NOT_AVAILABLE = -0x0605"
definition DO_LOG_ERR_KEY_PROVIDER_FAILED :: int where "DO_LOG_ERR_KEY_PROVIDER_FAILED = -0x0606"
definition DO_LOG_ERR_AUDIT_DROP_FORBIDDEN :: int where "DO_LOG_ERR_AUDIT_DROP_FORBIDDEN = -0x0607"
definition DO_LOG_ERR_AUDIT_CALLBACK_ONLY :: int where "DO_LOG_ERR_AUDIT_CALLBACK_ONLY = -0x0608"
definition DO_LOG_ERR_AUDIT_NO_PERSISTENT_SINK :: int where
  "DO_LOG_ERR_AUDIT_NO_PERSISTENT_SINK = -0x0609"
definition DO_LOG_ERR_SANDBOX_INIT_FAILED :: int where "DO_LOG_ERR_SANDBOX_INIT_FAILED = -0x0701"
definition DO_LOG_ERR_SANDBOX_VIOLATION :: int where "DO_LOG_ERR_SANDBOX_VIOLATION = -0x0702"
definition DO_LOG_ERR_UNTRUSTED_PLUGIN :: int where "DO_LOG_ERR_UNTRUSTED_PLUGIN = -0x0703"
definition DO_LOG_ERR_SINK_WRITE_FAILED :: int where "DO_LOG_ERR_SINK_WRITE_FAILED = -0x0801"
definition DO_LOG_ERR_SINK_CONNECTION_FAILED :: int where
  "DO_LOG_ERR_SINK_CONNECTION_FAILED = -0x0802"
definition DO_LOG_ERR_SINK_CONNECTION_LOST :: int where "DO_LOG_ERR_SINK_CONNECTION_LOST = -0x0803"
definition DO_LOG_ERR_SINK_FORMAT_INVALID :: int where "DO_LOG_ERR_SINK_FORMAT_INVALID = -0x0804"
definition DO_LOG_ERR_SINK_CONFIG_INVALID :: int where "DO_LOG_ERR_SINK_CONFIG_INVALID = -0x0805"
definition DO_LOG_ERR_SINK_NO_FALLBACK :: int where "DO_LOG_ERR_SINK_NO_FALLBACK = -0x0806"
definition DO_LOG_ERR_CALLBACK_TIMEOUT :: int where "DO_LOG_ERR_CALLBACK_TIMEOUT = -0x0807"
definition DO_LOG_ERR_WORM_WRITE_FAILED :: int where "DO_LOG_ERR_WORM_WRITE_FAILED = -0x0808"
definition DO_LOG_ERR_SHM_INIT_FAILED :: int where "DO_LOG_ERR_SHM_INIT_FAILED = -0x0809"
definition DO_LOG_ERR_SHM_RING_FULL :: int where "DO_LOG_ERR_SHM_RING_FULL = -0x080A"
definition DO_LOG_ERR_AUDIT_SHM_FORBIDDEN :: int where "DO_LOG_ERR_AUDIT_SHM_FORBIDDEN = -0x080B"
definition DO_LOG_ERR_CIRCUIT_OPEN :: int where "DO_LOG_ERR_CIRCUIT_OPEN = -0x0901"
definition DO_LOG_ERR_TLS_FAILED :: int where "DO_LOG_ERR_TLS_FAILED = -0x0902"
definition DO_LOG_ERR_SASL_FAILED :: int where "DO_LOG_ERR_SASL_FAILED = -0x0903"
definition DO_LOG_ERR_REMOTE_TIMEOUT :: int where "DO_LOG_ERR_REMOTE_TIMEOUT = -0x0904"
definition DO_LOG_ERR_QUOTA_MEMORY_EXCEEDED :: int where
  "DO_LOG_ERR_QUOTA_MEMORY_EXCEEDED = -0x0A01"
definition DO_LOG_ERR_QUOTA_CPU_EXCEEDED :: int where "DO_LOG_ERR_QUOTA_CPU_EXCEEDED = -0x0A02"
definition DO_LOG_ERR_RECURSION_DEPTH_EXCEEDED :: int where
  "DO_LOG_ERR_RECURSION_DEPTH_EXCEEDED = -0x0A03"
definition DO_LOG_ERR_COMPLIANCE_VIOLATION :: int where "DO_LOG_ERR_COMPLIANCE_VIOLATION = -0x0B01"
definition DO_LOG_ERR_AUDIT_DURABILITY_INSUFFICIENT :: int where
  "DO_LOG_ERR_AUDIT_DURABILITY_INSUFFICIENT = -0x0B02"
definition DO_LOG_ERR_TIME_BACKWARD :: int where "DO_LOG_ERR_TIME_BACKWARD = -0x0C01"
definition DO_LOG_ERR_SIF_INVALID :: int where "DO_LOG_ERR_SIF_INVALID = -0x0D01"
definition DO_LOG_ERR_FATAL :: int where "DO_LOG_ERR_FATAL = -0x0E01"

section \<open>Descriptors\<close>

record error_descriptor =
  ed_code :: int
  ed_key :: string
  ed_default_message :: string

definition error_table :: "(int \<times> string \<times> string) list" where
  "error_table =
     [(DO_LOG_OK, ''ok'', ''ok''),
      (DO_LOG_ERR_INVALID_ARG, ''error.invalid_arg'', ''invalid argument''),
      (DO_LOG_ERR_NOT_SUPPORTED, ''error.not_supported'', ''operation not supported''),
      (DO_LOG_ERR_NOT_INITIALIZED, ''error.not_initialized'', ''engine not initialized''),
      (DO_LOG_ERR_ALREADY_INITIALIZED,
       ''error.already_initialized'', ''engine already initialized''),
      (DO_LOG_ERR_OUT_OF_MEMORY, ''error.out_of_memory'', ''memory allocation failed''),
      (DO_LOG_ERR_BUFFER_TOO_SMALL, ''error.buffer_too_small'', ''buffer too small''),
      (DO_LOG_ERR_TIMEOUT, ''error.timeout'', ''operation timed out''),
      (DO_LOG_ERR_INTERNAL, ''error.internal'', ''internal error''),
      (DO_LOG_ERR_INIT_FAILED, ''error.init_failed'', ''engine initialization failed''),
      (DO_LOG_ERR_CONFIG_NOT_FOUND, ''config.not_found'', ''configuration not found''),
      (DO_LOG_ERR_CONFIG_PERMISSION, ''config.permission'', ''configuration permission denied''),
      (DO_LOG_ERR_CONFIG_PARSE, ''config.parse'', ''configuration parse failed''),
      (DO_LOG_ERR_CONFIG_VALIDATION, ''config.validation'', ''configuration validation failed''),
      (DO_LOG_ERR_CONFIG_MERGE, ''config.merge'', ''configuration merge failed''),
      (DO_LOG_ERR_CONFIG_HOT_RELOAD_FAILED,
       ''config.hot_reload_failed'', ''configuration hot reload failed''),
      (DO_LOG_ERR_CONFIG_HASH_MISMATCH, ''config.hash_mismatch'', ''configuration hash mismatch''),
      (DO_LOG_ERR_CONFIG_HOT_RELOAD_INVALID,
       ''config.hot_reload_invalid'', ''hot reload configuration is invalid''),
      (DO_LOG_ERR_CONFIG_RESTART_REQUIRED,
       ''config.restart_required'', ''configuration restart required for protected changes''),
      (DO_LOG_ERR_PLUGIN_NOT_FOUND, ''plugin.not_found'', ''plugin not found''),
      (DO_LOG_ERR_PLUGIN_LOAD_FAILED, ''plugin.load_failed'', ''plugin load failed''),
      (DO_LOG_ERR_PLUGIN_MANIFEST_INVALID,
       ''plugin.manifest_invalid'', ''plugin manifest is invalid''),
      (DO_LOG_ERR_PLUGIN_VERSION_MISMATCH,
       ''plugin.version_mismatch'', ''plugin version mismatch''),
      (DO_LOG_ERR_PLUGIN_ABI, ''plugin.abi'', ''plugin ABI mismatch''),
      (DO_LOG_ERR_PLUGIN_DEPENDENCY_MISSING,
       ''plugin.dependency_missing'', ''plugin dependency missing''),
      (DO_LOG_ERR_PLUGIN_LOCK_MISMATCH, ''plugin.lock_mismatch'', ''plugin lock mismatch''),
      (DO_LOG_ERR_PLUGIN_SIGNATURE_INVALID,
       ''plugin.signature_invalid'', ''plugin signature invalid''),
      (DO_LOG_ERR_MISSING_CAPABILITY,
       ''plugin.capability_missing'', ''plugin capability missing''),
      (DO_LOG_ERR_CIRCULAR_DEPENDENCY,
       ''plugin.circular_dependency'', ''plugin dependency cycle detected''),
      (DO_LOG_ERR_TOKEN_EXCEEDED_DEPTH, ''plugin.token_depth'', ''plugin token depth exceeded''),
      (DO_LOG_ERR_CALL_DEADLOCK, ''plugin.call_deadlock'', ''plugin call deadlock detected''),
      (DO_LOG_ERR_STATE_FORMAT_UNSUPPORTED,
       ''plugin.state_format'', ''plugin state format unsupported''),
      (DO_LOG_ERR_STATE_ROLLBACK_REJECTED,
       ''plugin.state_rollback'', ''plugin state rollback rejected''),
      (DO_LOG_ERR_STATE_MIGRATE_FAILED,
       ''plugin.state_migration'', ''plugin state migration failed''),
      (DO_LOG_ERR_RECORD_INVALID, ''record.invalid'', ''record is invalid''),
      (DO_LOG_ERR_FIELD_NOT_FOUND, ''field.not_found'', ''field not found''),
      (DO_LOG_ERR_FIELD_PERMISSION_DENIED,
       ''field.permission_denied'', ''field permission denied''),
      (DO_LOG_ERR_FIELD_TYPE_MISMATCH, ''field.type_mismatch'', ''field type mismatch''),
      (DO_LOG_ERR_FIELD_DEPENDENCY_NOT_MET,
       ''field.dependency_not_met'', ''field dependency not met''),
      (DO_LOG_ERR_RECORD_INVALID_ENCODING,
       ''record.invalid_encoding'', ''record input is not valid UTF-8''),
      (DO_LOG_ERR_BUFFER_FULL, ''buffer.full'', ''buffer is full''),
      (DO_LOG_ERR_PIPELINE_STAGE, ''pipeline.stage'', ''pipeline stage failed''),
      (DO_LOG_ERR_AUDIT_QUEUE_FULL, ''audit.queue_full'', ''audit queue is full''),
      (DO_LOG_ERR_SIGN_FAILED, ''audit.sign_failed'', ''record signing failed''),
      (DO_LOG_ERR_VERIFY_FAILED, ''audit.verify_failed'', ''record verification failed''),
      (DO_LOG_ERR_LSN_CHAIN_BROKEN, ''audit.lsn_chain_broken'', ''audit LSN chain is broken''),
      (DO_LOG_ERR_LSN_GAP_DETECTED, ''audit.lsn_gap'', ''audit LSN gap detected''),
      (DO_LOG_ERR_KEY_NOT_AVAILABLE, ''audit.key_unavailable'', ''signing key unavailable''),
      (DO_LOG_ERR_KEY_PROVIDER_FAILED, ''audit.key_provider_failed'', ''key provider failed''),
      (DO_LOG_ERR_AUDIT_DROP_FORBIDDEN, ''audit.drop_forbidden'', ''audit record drop forbidden''),
      (DO_LOG_ERR_AUDIT_CALLBACK_ONLY,
       ''audit.callback_only'', ''audit callback-only mode rejected''),
      (DO_LOG_ERR_AUDIT_NO_PERSISTENT_SINK,
       ''audit.no_persistent_sink'', ''audit persistence sink unavailable''),
      (DO_LOG_ERR_SANDBOX_INIT_FAILED,
       ''security.sandbox_init'', ''sandbox initialization failed''),
      (DO_LOG_ERR_SANDBOX_VIOLATION, ''security.sandbox_violation'', ''sandbox violation''),
      (DO_LOG_ERR_UNTRUSTED_PLUGIN, ''security.untrusted_plugin'', ''untrusted plugin''),
      (DO_LOG_ERR_SINK_WRITE_FAILED, ''sink.write_failed'', ''sink write failed''),
      (DO_LOG_ERR_SINK_CONNECTION_FAILED, ''sink.connection_failed'', ''sink connection failed''),
      (DO_LOG_ERR_SINK_CONNECTION_LOST, ''sink.connection_lost'', ''sink connection lost''),
      (DO_LOG_ERR_SINK_FORMAT_INVALID, ''sink.format_invalid'', ''sink format invalid''),
      (DO_LOG_ERR_SINK_CONFIG_INVALID, ''sink.config_invalid'', ''sink configuration invalid''),
      (DO_LOG_ERR_SINK_NO_FALLBACK, ''sink.no_fallback'', ''sink fallback unavailable''),
      (DO_LOG_ERR_CALLBACK_TIMEOUT, ''sink.callback_timeout'', ''sink callback timed out''),
      (DO_LOG_ERR_WORM_WRITE_FAILED, ''sink.worm_write_failed'', ''WORM write failed''),
      (DO_LOG_ERR_SHM_INIT_FAILED,
       ''sink.shm_init_failed'', ''shared-memory sink initialization failed''),
      (DO_LOG_ERR_SHM_RING_FULL, ''sink.shm_ring_full'', ''shared-memory ring is full''),
      (DO_LOG_ERR_AUDIT_SHM_FORBIDDEN,
       ''audit.shm_forbidden'', ''shared-memory sink forbidden for audit''),
      (DO_LOG_ERR_CIRCUIT_OPEN, ''network.circuit_open'', ''sink circuit is open''),
      (DO_LOG_ERR_TLS_FAILED, ''network.tls_failed'', ''TLS operation failed''),
      (DO_LOG_ERR_SASL_FAILED, ''network.sasl_failed'', ''SASL operation failed''),
      (DO_LOG_ERR_REMOTE_TIMEOUT, ''network.remote_timeout'', ''remote operation timed out''),
      (DO_LOG_ERR_QUOTA_MEMORY_EXCEEDED, ''resource.memory_quota'', ''memory quota exceeded''),
      (DO_LOG_ERR_QUOTA_CPU_EXCEEDED, ''resource.cpu_quota'', ''CPU quota exceeded''),
      (DO_LOG_ERR_RECURSION_DEPTH_EXCEEDED,
       ''resource.recursion_depth'', ''recursion depth exceeded''),
      (DO_LOG_ERR_COMPLIANCE_VIOLATION,
       ''compliance.violation'', ''compliance requirement violated''),
      (DO_LOG_ERR_AUDIT_DURABILITY_INSUFFICIENT,
       ''compliance.audit_durability'', ''audit durability is insufficient''),
      (DO_LOG_ERR_TIME_BACKWARD, ''time.backward'', ''clock moved backward''),
      (DO_LOG_ERR_SIF_INVALID, ''sif.invalid'', ''SIF frame invalid''),
      (DO_LOG_ERR_FATAL, ''fatal'', ''fatal engine error'')]"

definition error_descriptor_of :: "int \<Rightarrow> error_descriptor" where
  "error_descriptor_of code =
     (let (key, default_message) =
        (case map_of error_table code of
           Some p \<Rightarrow> p
         | None \<Rightarrow>
             if code \<le> -0x80000000 then (''plugin.custom'', ''plugin-defined error'')
             else (''error.unknown'', ''unknown error''))
      in \<lparr>ed_code = code, ed_key = key, ed_default_message = default_message\<rparr>)"

definition error_key :: "int \<Rightarrow> string" where
  "error_key code = ed_key (error_descriptor_of code)"

definition error_default_message :: "int \<Rightarrow> string" where
  "error_default_message code = ed_default_message (error_descriptor_of code)"

section \<open>Reports\<close>

datatype error_origin =
  OriginApi | OriginConfig | OriginPlugin | OriginRecord | OriginPipeline | OriginSecurity |
  OriginSerialization | OriginSink | OriginInternal

record error_context =
  ec_origin :: error_origin
  ec_operation :: string
  ec_detail :: "bytes option"

definition ec_new :: "error_origin \<Rightarrow> string \<Rightarrow> error_context" where
  "ec_new origin operation = \<lparr>ec_origin = origin, ec_operation = operation, ec_detail = None\<rparr>"

definition str_truncate :: "nat \<Rightarrow> bytes \<Rightarrow> bytes option" where
  "str_truncate n s =
     (if length s < n then Some s
      else if is_char_boundary s n then Some (take n s) else None)"

definition with_detail :: "error_context \<Rightarrow> bytes \<Rightarrow> error_context option" where
  "with_detail c detail = map_option (\<lambda>d. c\<lparr>ec_detail := Some d\<rparr>) (str_truncate 512 detail)"

record error_report =
  er_code :: int
  er_descriptor :: error_descriptor
  er_context :: error_context

definition er_new :: "int \<Rightarrow> error_context \<Rightarrow> error_report" where
  "er_new code context =
     \<lparr>er_code = code, er_descriptor = error_descriptor_of code, er_context = context\<rparr>"

definition er_key :: "error_report \<Rightarrow> string" where
  "er_key r = ed_key (er_descriptor r)"

definition er_fallback_message :: "error_report \<Rightarrow> string" where
  "er_fallback_message r = ed_default_message (er_descriptor r)"

definition diagnostic_message :: "error_report \<Rightarrow> bytes" where
  "diagnostic_message r =
     (case ec_detail (er_context r) of
        Some detail \<Rightarrow>
          if detail \<noteq> [] then
            str_bytes (ed_default_message (er_descriptor r)) @ str_bytes '': '' @ detail
          else str_bytes (ed_default_message (er_descriptor r))
      | None \<Rightarrow> str_bytes (ed_default_message (er_descriptor r)))"

text \<open>\<open>Result::report\<close>; the outer option is the panic of attaching the detail.\<close>

definition report_error ::
  "bytes + 'a \<Rightarrow> int \<Rightarrow> error_context \<Rightarrow> (error_report + 'a) option" where
  "report_error x code context =
     (case x of
        Inr v \<Rightarrow> Some (Inr v)
      | Inl e \<Rightarrow> map_option (\<lambda>c. Inl (er_new code c)) (with_detail context e))"

section \<open>The ABI error\<close>

record dologger_error =
  de_code :: int
  de_message :: bytes
  de_source_file :: bytes
  de_source_line :: u32

definition de_new :: dologger_error where
  "de_new = \<lparr>de_code = 0, de_message = replicate 256 0, de_source_file = replicate 128 0,
     de_source_line = 0\<rparr>"

definition set_report :: "dologger_error \<Rightarrow> error_report \<Rightarrow> dologger_error" where
  "set_report e r =
     (let message = diagnostic_message r;
          cap = length (de_message e);
          len = min (length message) (cap - 1)
      in e\<lparr>de_code := er_code r, de_message := take len message @ replicate (cap - len) 0\<rparr>)"

datatype event_severity = EvDebug | EvInfo | EvWarn | EvError | EvCritical | EvEmergency

section \<open>Lemmas\<close>

lemmas error_code_defs =
  DO_LOG_OK_def DO_LOG_ERR_INVALID_ARG_def DO_LOG_ERR_NOT_SUPPORTED_def
  DO_LOG_ERR_NOT_INITIALIZED_def DO_LOG_ERR_ALREADY_INITIALIZED_def DO_LOG_ERR_OUT_OF_MEMORY_def
  DO_LOG_ERR_BUFFER_TOO_SMALL_def DO_LOG_ERR_TIMEOUT_def DO_LOG_ERR_INTERNAL_def
  DO_LOG_ERR_INIT_FAILED_def DO_LOG_ERR_CONFIG_NOT_FOUND_def DO_LOG_ERR_CONFIG_PERMISSION_def
  DO_LOG_ERR_CONFIG_PARSE_def DO_LOG_ERR_CONFIG_VALIDATION_def DO_LOG_ERR_CONFIG_MERGE_def
  DO_LOG_ERR_CONFIG_HOT_RELOAD_FAILED_def DO_LOG_ERR_CONFIG_HASH_MISMATCH_def
  DO_LOG_ERR_CONFIG_HOT_RELOAD_INVALID_def DO_LOG_ERR_CONFIG_RESTART_REQUIRED_def
  DO_LOG_ERR_PLUGIN_NOT_FOUND_def DO_LOG_ERR_PLUGIN_LOAD_FAILED_def
  DO_LOG_ERR_PLUGIN_MANIFEST_INVALID_def DO_LOG_ERR_PLUGIN_VERSION_MISMATCH_def
  DO_LOG_ERR_PLUGIN_ABI_def DO_LOG_ERR_PLUGIN_DEPENDENCY_MISSING_def
  DO_LOG_ERR_PLUGIN_LOCK_MISMATCH_def DO_LOG_ERR_PLUGIN_SIGNATURE_INVALID_def
  DO_LOG_ERR_MISSING_CAPABILITY_def DO_LOG_ERR_CIRCULAR_DEPENDENCY_def
  DO_LOG_ERR_TOKEN_EXCEEDED_DEPTH_def DO_LOG_ERR_CALL_DEADLOCK_def
  DO_LOG_ERR_STATE_FORMAT_UNSUPPORTED_def DO_LOG_ERR_STATE_ROLLBACK_REJECTED_def
  DO_LOG_ERR_STATE_MIGRATE_FAILED_def DO_LOG_ERR_RECORD_INVALID_def
  DO_LOG_ERR_FIELD_NOT_FOUND_def DO_LOG_ERR_FIELD_PERMISSION_DENIED_def
  DO_LOG_ERR_FIELD_TYPE_MISMATCH_def DO_LOG_ERR_FIELD_DEPENDENCY_NOT_MET_def
  DO_LOG_ERR_RECORD_INVALID_ENCODING_def DO_LOG_ERR_BUFFER_FULL_def DO_LOG_ERR_PIPELINE_STAGE_def
  DO_LOG_ERR_AUDIT_QUEUE_FULL_def DO_LOG_ERR_SIGN_FAILED_def DO_LOG_ERR_VERIFY_FAILED_def
  DO_LOG_ERR_LSN_CHAIN_BROKEN_def DO_LOG_ERR_LSN_GAP_DETECTED_def
  DO_LOG_ERR_KEY_NOT_AVAILABLE_def DO_LOG_ERR_KEY_PROVIDER_FAILED_def
  DO_LOG_ERR_AUDIT_DROP_FORBIDDEN_def DO_LOG_ERR_AUDIT_CALLBACK_ONLY_def
  DO_LOG_ERR_AUDIT_NO_PERSISTENT_SINK_def DO_LOG_ERR_SANDBOX_INIT_FAILED_def
  DO_LOG_ERR_SANDBOX_VIOLATION_def DO_LOG_ERR_UNTRUSTED_PLUGIN_def
  DO_LOG_ERR_SINK_WRITE_FAILED_def DO_LOG_ERR_SINK_CONNECTION_FAILED_def
  DO_LOG_ERR_SINK_CONNECTION_LOST_def DO_LOG_ERR_SINK_FORMAT_INVALID_def
  DO_LOG_ERR_SINK_CONFIG_INVALID_def DO_LOG_ERR_SINK_NO_FALLBACK_def
  DO_LOG_ERR_CALLBACK_TIMEOUT_def DO_LOG_ERR_WORM_WRITE_FAILED_def DO_LOG_ERR_SHM_INIT_FAILED_def
  DO_LOG_ERR_SHM_RING_FULL_def DO_LOG_ERR_AUDIT_SHM_FORBIDDEN_def DO_LOG_ERR_CIRCUIT_OPEN_def
  DO_LOG_ERR_TLS_FAILED_def DO_LOG_ERR_SASL_FAILED_def DO_LOG_ERR_REMOTE_TIMEOUT_def
  DO_LOG_ERR_QUOTA_MEMORY_EXCEEDED_def DO_LOG_ERR_QUOTA_CPU_EXCEEDED_def
  DO_LOG_ERR_RECURSION_DEPTH_EXCEEDED_def DO_LOG_ERR_COMPLIANCE_VIOLATION_def
  DO_LOG_ERR_AUDIT_DURABILITY_INSUFFICIENT_def DO_LOG_ERR_TIME_BACKWARD_def
  DO_LOG_ERR_SIF_INVALID_def DO_LOG_ERR_FATAL_def

definition error_codes :: "int list" where "error_codes = map fst error_table"

definition error_keys :: "string list" where "error_keys = map (fst \<circ> snd) error_table"

lemma error_table_ok:
  "distinct error_codes" "distinct error_keys"
  "list_all (\<lambda>(c, k, m). length m < 256 \<and> k \<noteq> ''plugin.custom'' \<and> k \<noteq> ''error.unknown'') error_table"
  "list_all (\<lambda>c. c = 0 \<or> (-0xEFF \<le> c \<and> c \<le> -0x101)) error_codes"
  by code_simp+

lemma error_descriptor_cases:
  obtains k m where "(c, k, m) \<in> set error_table" "error_key c = k" "error_default_message c = m"
  | "c \<notin> set error_codes" "error_key c = (if c \<le> -0x80000000 then ''plugin.custom'' else ''error.unknown'')"
    "length (error_default_message c) < 256"
proof (cases "map_of error_table c")
  case None
  then have "c \<notin> set error_codes" by (simp add: error_codes_def map_of_eq_None_iff)
  then show thesis
    using None that(2) by (simp add: error_key_def error_default_message_def error_descriptor_of_def)
next
  case (Some p)
  then obtain k m where "map_of error_table c = Some (k, m)" by (cases p) auto
  then show thesis
    using that(1) [of k m] map_of_SomeD [of error_table c "(k, m)"]
    by (simp add: error_key_def error_default_message_def error_descriptor_of_def)
qed

lemma error_key_known:
  assumes "c \<in> set error_codes"
  shows "error_key c \<noteq> ''plugin.custom'' \<and> error_key c \<noteq> ''error.unknown'' \<and>
    length (error_default_message c) < 256"
  using assms error_table_ok(3)
  by (cases c rule: error_descriptor_cases) (auto simp: list_all_iff)

lemma error_key_unknown:
  assumes "c \<notin> set error_codes"
  shows "error_key c = (if c \<le> -0x80000000 then ''plugin.custom'' else ''error.unknown'') \<and>
    length (error_default_message c) < 256"
proof (cases c rule: error_descriptor_cases)
  case (1 k m)
  then have "c \<in> set error_codes" by (force simp: error_codes_def)
  with assms show ?thesis by simp
next
  case 2
  then show ?thesis by simp
qed

lemma error_key_inj: "inj_on error_key (set error_codes)"
proof (rule inj_onI)
  fix c c' assume c: "c \<in> set error_codes" "c' \<in> set error_codes" "error_key c = error_key c'"
  have inj: "inj_on (fst \<circ> snd) (set error_table)"
    using error_table_ok(2) by (simp add: error_keys_def distinct_map)
  obtain k m where 1: "(c, k, m) \<in> set error_table" "error_key c = k"
    using c(1) by (cases c rule: error_descriptor_cases) auto
  obtain k' m' where 2: "(c', k', m') \<in> set error_table" "error_key c' = k'"
    using c(2) by (cases c' rule: error_descriptor_cases) auto
  show "c = c'" using inj_onD [OF inj _ 1(1) 2(1)] 1(2) 2(2) c(3) by simp
qed

section \<open>Properties\<close>

text \<open>Error keys are exact on the \<open>i32\<close> range: two codes share a key only if they are equal or both
  are unassigned and on the same side of the plugin test; assigned codes are zero or in the
  categories 1 to 14; every default message fits the message buffer with its terminator; and
  the only code the plugin test ever recognises is the smallest integer.\<close>

theorem error_keys_exact:
  assumes "-0x80000000 \<le> c" and "-0x80000000 \<le> c'"
  shows "(error_key c = error_key c' \<longleftrightarrow>
      c = c' \<or> (c \<notin> set error_codes \<and> c' \<notin> set error_codes \<and>
        (c = -0x80000000 \<longleftrightarrow> c' = -0x80000000))) \<and>
    (error_key c = ''plugin.custom'' \<longleftrightarrow> c = -0x80000000) \<and>
    (c \<in> set error_codes \<longleftrightarrow> error_key c \<notin> {''plugin.custom'', ''error.unknown''}) \<and>
    (c \<in> set error_codes \<longrightarrow> c = 0 \<or> (1 \<le> - c div 256 \<and> - c div 256 \<le> 14)) \<and>
    length (error_default_message c) < length (de_message de_new)"
proof -
  have range: "c \<in> set error_codes \<Longrightarrow> c = 0 \<or> (-0xEFF \<le> c \<and> c \<le> -0x101)" for c
    using error_table_ok(4) by (simp add: list_all_iff)
  then have min: "-0x80000000 \<notin> set error_codes" by (auto dest!: range)
  have cat: "1 \<le> - c div 256 \<and> - c div 256 \<le> 14" if "-0xEFF \<le> c \<and> c \<le> -0x101"
    using zdiv_mono1 [of 257 "- c" 256] zdiv_mono1 [of "- c" 3839 256] that by simp
  have len: "length (de_message de_new) = 256" by (simp add: de_new_def)
  have same: "error_key c = error_key c' \<longleftrightarrow>
      c = c' \<or> (c \<notin> set error_codes \<and> c' \<notin> set error_codes \<and>
        (c = -0x80000000 \<longleftrightarrow> c' = -0x80000000))"
  proof (cases "c \<in> set error_codes"; cases "c' \<in> set error_codes")
    assume "c \<in> set error_codes" "c' \<in> set error_codes"
    then show ?thesis using error_key_inj by (auto dest: inj_onD)
  next
    assume h: "c \<in> set error_codes" "c' \<notin> set error_codes"
    show ?thesis using error_key_known [OF h(1)] error_key_unknown [OF h(2)] h by (auto split: if_splits)
  next
    assume h: "c \<notin> set error_codes" "c' \<in> set error_codes"
    show ?thesis using error_key_known [OF h(2)] error_key_unknown [OF h(1)] h by (auto split: if_splits)
  next
    assume h: "c \<notin> set error_codes" "c' \<notin> set error_codes"
    have "c \<le> -0x80000000 \<longleftrightarrow> c = -0x80000000" "c' \<le> -0x80000000 \<longleftrightarrow> c' = -0x80000000"
      using assms by auto
    then show ?thesis using error_key_unknown [OF h(1)] error_key_unknown [OF h(2)] h by auto
  qed
  have rest: "(error_key c = ''plugin.custom'' \<longleftrightarrow> c = -0x80000000) \<and>
    (c \<in> set error_codes \<longleftrightarrow> error_key c \<notin> {''plugin.custom'', ''error.unknown''}) \<and>
    length (error_default_message c) < 256"
  proof (cases "c \<in> set error_codes")
    case True
    then have "c \<noteq> -0x80000000" using min by metis
    with True show ?thesis using error_key_known [OF True] by simp
  next
    case False
    have "c \<le> -0x80000000 \<longleftrightarrow> c = -0x80000000" using assms by auto
    with False show ?thesis using error_key_unknown [OF False] by (simp split: if_splits)
  qed
  show ?thesis using same rest range [of c] cat len by auto
qed

theorem error_keys_exact_witness:
  "-0x80000000 \<le> DO_LOG_ERR_FATAL \<and> error_key (-0x80000001 + 1) = ''plugin.custom'' \<and>
   error_key DO_LOG_ERR_FATAL \<noteq> error_key DO_LOG_OK"
  using error_keys_exact [of "-0x80000000" 0] error_keys_exact [of DO_LOG_ERR_FATAL DO_LOG_OK]
  by (simp add: DO_LOG_ERR_FATAL_def DO_LOG_OK_def error_codes_def error_table_def error_code_defs)

text \<open>Attaching a detail panics exactly when byte 512 is inside a character.\<close>

lemma with_detail_panics:
  "with_detail c detail = None \<longleftrightarrow> 512 < length detail \<and> is_cont (detail ! 512)"
  by (auto simp: with_detail_def str_truncate_def is_char_boundary_def)

text \<open>A report always leaves a terminated message.\<close>

lemma set_report_terminated:
  assumes "length (de_message e) = 256"
  shows "length (de_message (set_report e r)) = 256" and "de_message (set_report e r) ! 255 = 0"
    and "length (diagnostic_message r) < 256 \<Longrightarrow>
      take (length (diagnostic_message r)) (de_message (set_report e r)) = diagnostic_message r"
  using assms by (auto simp: set_report_def Let_def nth_append min_def)

end
