(* ===== verification/Field_Api.thy ===== *)
theory Field_Api
  imports Log_Record Error_Codes
begin

text \<open>
  The string field interface of the record (core/src/record/mod.rs: \<open>field_ring\<close>,
  \<open>field_set\<close>, \<open>field_get\<close>, \<open>FieldError\<close>): which ring a name belongs to, who may write
  it, and where its value goes. The diagnostics line of a refused write is not modelled.
\<close>

section \<open>Errors\<close>

datatype field_error = NotFound | PermissionDenied | ReadOnly | TypeMismatch | SecurityViolation

fun field_error_abi_code :: "field_error \<Rightarrow> int" where
  "field_error_abi_code NotFound = DO_LOG_ERR_FIELD_NOT_FOUND"
| "field_error_abi_code PermissionDenied = DO_LOG_ERR_FIELD_PERMISSION_DENIED"
| "field_error_abi_code ReadOnly = DO_LOG_ERR_FIELD_PERMISSION_DENIED"
| "field_error_abi_code SecurityViolation = DO_LOG_ERR_FIELD_PERMISSION_DENIED"
| "field_error_abi_code TypeMismatch = DO_LOG_ERR_FIELD_TYPE_MISMATCH"

fun field_error_as_str :: "field_error \<Rightarrow> string" where
  "field_error_as_str NotFound = ''field not found''"
| "field_error_as_str PermissionDenied = ''Permission denied: caller ring is not privileged enough''"
| "field_error_as_str ReadOnly = ''field is read-only (engine-managed)''"
| "field_error_as_str TypeMismatch = ''invalid field value (type mismatch)''"
| "field_error_as_str SecurityViolation =
     ''SECURITY_VIOLATION: Ring 1 fields require HostInfoProvider or core''"

section \<open>Rings of fields\<close>

definition ring0_names :: "string list" where
  "ring0_names =
     [''id'', ''record.id'', ''timestamp'', ''record.timestamp'', ''record.signature'',
      ''record.origin_lsn'', ''security.lsn'']"

definition ring1_names :: "string list" where
  "ring1_names =
     [''level'', ''message'', ''trace.id'', ''span.id'', ''user.id'', ''session.id'',
      ''request.id'', ''host.name'', ''app.name'', ''app.version'', ''environment'',
      ''thread.name'', ''thread.id'', ''process.name'', ''process.id'', ''container.id'',
      ''source.file'', ''source.function'', ''source.line'', ''source.column'',
      ''exception.type'', ''exception.message'', ''exception.stacktrace'', ''exception.code'',
      ''labels'', ''security.audit_tags'', ''coroutine.id'', ''security.gap'']"

definition ring1_legacy_names :: "string list" where
  "ring1_legacy_names =
     [''source_file'', ''source_function'', ''source_line'', ''source_column'', ''thread_name'',
      ''process_name'', ''host_name'', ''container_id'', ''app_name'', ''app_version'',
      ''exception_type'', ''exception_message'', ''exception_stacktrace'', ''exception_code'',
      ''coroutine_id'']"

definition field_ring_of :: "string \<Rightarrow> field_ring option" where
  "field_ring_of name =
     (if name \<in> set ring0_names then Some Ring0
      else if name \<in> set ring1_names then Some Ring1
      else if starts_with ''verified.'' name then Some Ring2
      else if starts_with ''ext.'' name then Some Ring3
      else if name \<in> set ring1_legacy_names then Some Ring1
      else if name = ''audit_tags'' then Some Ring1
      else None)"

section \<open>Writing\<close>

text \<open>
  \<open>to_uppercase\<close>, up to characters whose upper case has a non-ASCII character, which stay:
  a string maps to an ASCII string here exactly when it does in Rust, and to the same one.
  Besides the letters a-z these are dotless i, long s, sharp s and the Latin ligatures.
\<close>

definition ascii_upper :: "u8 \<Rightarrow> u8" where
  "ascii_upper b = (if 0x61 \<le> b \<and> b \<le> 0x7A then b - 0x20 else b)"

definition upper_special :: "(bytes \<times> bytes) list" where
  "upper_special =
     [([0xC4, 0xB1], [0x49]), ([0xC5, 0xBF], [0x53]), ([0xC3, 0x9F], [0x53, 0x53]),
      ([0xEF, 0xAC, 0x80], [0x46, 0x46]), ([0xEF, 0xAC, 0x81], [0x46, 0x49]),
      ([0xEF, 0xAC, 0x82], [0x46, 0x4C]), ([0xEF, 0xAC, 0x83], [0x46, 0x46, 0x49]),
      ([0xEF, 0xAC, 0x84], [0x46, 0x46, 0x4C]), ([0xEF, 0xAC, 0x85], [0x53, 0x54]),
      ([0xEF, 0xAC, 0x86], [0x53, 0x54])]"

fun to_uppercase :: "bytes \<Rightarrow> bytes" where
  "to_uppercase [] = []"
| "to_uppercase (b # bs) =
     (case List.find (\<lambda>(p, u). starts_with p (b # bs)) upper_special of
        Some (p, u) \<Rightarrow> u @ to_uppercase (drop (length p - 1) bs)
      | None \<Rightarrow> ascii_upper b # to_uppercase bs)"

definition eq_ignore_ascii_case :: "bytes \<Rightarrow> bytes \<Rightarrow> bool" where
  "eq_ignore_ascii_case a b \<longleftrightarrow> map ascii_upper a = map ascii_upper b"

definition parse_level_value :: "bytes \<Rightarrow> log_level option" where
  "parse_level_value v =
     (case level_from_str (bytes_str (to_uppercase v)) of
        Some l \<Rightarrow> Some l
      | None \<Rightarrow>
          (case parse_unsigned 255 (bytes_str v) of
             Some n \<Rightarrow> level_from_u8 (of_nat n)
           | None \<Rightarrow> None))"

text \<open>The write itself, once the ring check has passed: the match on the name.\<close>

definition field_write ::
  "vendor_state \<Rightarrow> log_record \<Rightarrow> string \<Rightarrow> bytes \<Rightarrow> (field_error + unit) \<times> log_record \<times> vendor_state" where
  "field_write vs r name v =
     (if name \<in> {''timestamp'', ''record.timestamp''} then (Inl ReadOnly, r, vs)
      else if name = ''level'' then
        (case parse_level_value v of
           Some l \<Rightarrow> (Inr (), r\<lparr>rec_level := l\<rparr>, vs)
         | None \<Rightarrow> (Inl TypeMismatch, r, vs))
      else if name \<in> {''id'', ''record.id''} then (Inl ReadOnly, r, vs)
      else if name = ''message'' then
        (Inr (), r\<lparr>rec_message := rs_set (rec_message r) v\<rparr>, vs)
      else if name \<in> {''process.id'', ''record.process_id''} then
        (case parse_u32 (bytes_str v) of
           Some n \<Rightarrow> (Inr (), r\<lparr>rec_process_id := of_nat n\<rparr>, vs)
         | None \<Rightarrow> (Inl TypeMismatch, r, vs))
      else if name \<in> {''thread.id'', ''record.thread_id''} then
        (case parse_u32 (bytes_str v) of
           Some n \<Rightarrow> (Inr (), r\<lparr>rec_thread_id := of_nat n\<rparr>, vs)
         | None \<Rightarrow> (Inl TypeMismatch, r, vs))
      else if name = ''security.lsn'' then (Inl ReadOnly, r, vs)
      else if name = ''security.gap'' then
        (Inr (),
         set_security_gap r (v = str_bytes ''1'' \<or> eq_ignore_ascii_case v (str_bytes ''true'')),
         vs)
      else
        (case resolve_tag vs name True of
           (None, vs') \<Rightarrow> (Inl NotFound, r, vs')
         | (Some tag, vs') \<Rightarrow> (Inr (), rec_kv_put_string r tag v, vs')))"

definition field_set ::
  "vendor_state \<Rightarrow> log_record \<Rightarrow> string \<Rightarrow> bytes \<Rightarrow> field_ring \<Rightarrow>
     (field_error + unit) \<times> log_record \<times> vendor_state" where
  "field_set vs r name v ring =
     (case field_ring_of name of
        None \<Rightarrow> (Inl NotFound, r, vs)
      | Some target_ring \<Rightarrow>
          if target_ring = Ring0 then (Inl ReadOnly, r, vs)
          else if target_ring = Ring1 \<and> Ring1 < ring then (Inl SecurityViolation, r, vs)
          else field_write vs r name v)"

section \<open>Reading\<close>

definition field_get ::
  "vendor_state \<Rightarrow> log_record \<Rightarrow> string \<Rightarrow> field_ring \<Rightarrow> (field_error + bytes) \<times> vendor_state" where
  "field_get vs r name ring =
     (if name \<in> {''id'', ''record.id''} then
        (if rec_id_hex r = [] then Inl NotFound else Inr (rec_id_hex r), vs)
      else if name \<in> {''timestamp'', ''record.timestamp''} then
        (Inr (str_bytes (dec (unat (rec_timestamp r)))), vs)
      else if name = ''level'' then (Inr (str_bytes (level_to_str (rec_level r))), vs)
      else if name = ''message'' then (Inr (rs_display_lossy (rec_message r)), vs)
      else if name \<in> {''process.id'', ''record.process_id'', ''process_id''} then
        (Inr (str_bytes (dec (unat (rec_process_id r)))), vs)
      else if name \<in> {''thread.id'', ''record.thread_id'', ''thread_id''} then
        (Inr (str_bytes (dec (unat (rec_thread_id r)))), vs)
      else if name = ''security.lsn'' then (Inr (str_bytes (dec (unat (rec_lsn r)))), vs)
      else if name = ''security.gap'' then
        (Inr (str_bytes (if rec_security_gap r then ''1'' else ''0'')), vs)
      else
        (case resolve_tag vs name False of
           (None, vs') \<Rightarrow> (Inl NotFound, vs')
         | (Some tag, vs') \<Rightarrow> (ok_or (rec_kv_get_display_string r tag) NotFound, vs')))"

section \<open>Lemmas\<close>

text \<open>The names the code lists, none of which has a vendor prefix.\<close>

definition fixed_names :: "string list" where
  "fixed_names =
     [''timestamp'', ''record.timestamp'', ''level'', ''id'', ''record.id'', ''message'',
      ''process.id'', ''record.process_id'', ''process_id'', ''thread.id'', ''record.thread_id'',
      ''thread_id'', ''security.lsn'', ''security.gap'']"

lemma no_vendor_names:
  "list_all (\<lambda>n. \<not> is_vendor_name n)
     (map fst resolve_table @ ring0_names @ ring1_names @ ring1_legacy_names @ fixed_names @
        [''audit_tags''])"
  by code_simp

lemma vendor_not_in_table:
  assumes "is_vendor_name name"
  shows "map_of resolve_table name = None" and "name \<notin> set ring0_names"
    and "name \<notin> set ring1_names" and "name \<notin> set ring1_legacy_names" and "name \<noteq> ''audit_tags''"
    and "name \<notin> set fixed_names"
  using no_vendor_names assms by (auto simp: list_all_iff map_of_eq_None_iff)

lemma tag_1_names:
  "list_all (\<lambda>(n, t). t = Some 1 \<longrightarrow> n = ''id'' \<or> n = ''record.id'') resolve_table"
  "list_all (\<lambda>(n, t). case t of None \<Rightarrow> n \<in> set fixed_names | Some k \<Rightarrow> k \<noteq> 0 \<and> k \<le> 25) resolve_table"
  by code_simp+

lemma resolve_tag_id:
  "map_of resolve_table name = Some (Some 1) \<Longrightarrow> name \<in> {''id'', ''record.id''}"
  using tag_1_names(1) by (auto simp: list_all_iff dest: map_of_SomeD)

lemma resolve_table_range:
  "map_of resolve_table name = Some (Some t) \<Longrightarrow> t \<noteq> 0 \<and> t \<le> 25"
  using tag_1_names(2) by (force simp: list_all_iff dest: map_of_SomeD)

lemma vendor_resolve:
  assumes "vendor_core_free vs" and "is_vendor_name name" and "resolve_tag vs name a = (Some t, vs')"
  shows "64 \<le> t"
  using assms vendor_tag_for_ge by (simp add: resolve_tag_def vendor_not_in_table)

lemma ring_vendor:
  "field_ring_of name = Some ring \<Longrightarrow> Ring1 < ring \<Longrightarrow> is_vendor_name name"
  by (auto simp: field_ring_of_def is_vendor_name_def less_field_ring_def split: if_splits)

text \<open>A write outside the fixed names is one string put.\<close>

lemma field_write_kv:
  "name \<notin> set fixed_names \<Longrightarrow>
   field_write vs r name v =
     (case resolve_tag vs name True of
        (None, vs') \<Rightarrow> (Inl NotFound, r, vs')
      | (Some tag, vs') \<Rightarrow> (Inr (), rec_kv_put_string r tag v, vs'))"
  by (simp add: field_write_def fixed_names_def)

text \<open>The outcomes of a write.\<close>

lemma field_write_cases:
  assumes level: "\<And>l. P (Inr (), r\<lparr>rec_level := l\<rparr>, vs)"
    and message: "P (Inr (), r\<lparr>rec_message := rs_set (rec_message r) v\<rparr>, vs)"
    and pid: "\<And>n. P (Inr (), r\<lparr>rec_process_id := of_nat n\<rparr>, vs)"
    and tid: "\<And>n. P (Inr (), r\<lparr>rec_thread_id := of_nat n\<rparr>, vs)"
    and gap: "\<And>b. P (Inr (), set_security_gap r b, vs)"
    and err: "\<And>e. P (Inl e, r, vs)"
    and none: "\<And>vs'. resolve_tag vs name True = (None, vs') \<Longrightarrow> P (Inl NotFound, r, vs')"
    and put: "\<And>tag vs'. resolve_tag vs name True = (Some tag, vs') \<Longrightarrow>
      name \<notin> {''id'', ''record.id''} \<Longrightarrow> P (Inr (), rec_kv_put_string r tag v, vs')"
  shows "P (field_write vs r name v)"
proof -
  obtain x vs' where rt: "resolve_tag vs name True = (x, vs')" by fastforce
  define kv where "kv = (case x of None \<Rightarrow> (Inl NotFound, r, vs')
    | Some tag \<Rightarrow> (Inr (), rec_kv_put_string r tag v, vs'))"
  have kv: "name \<notin> {''id'', ''record.id''} \<Longrightarrow> P kv"
    using rt none put by (auto simp: kv_def split: option.split)
  show ?thesis
    unfolding field_write_def rt prod.case kv_def [symmetric]
    by ((rule err | rule level | rule message | rule pid | rule tid | rule gap | (rule kv, assumption)
      | split if_split | split option.split | rule conjI impI allI)+)
qed

lemma resolve_core_free:
  "vendor_core_free vs \<Longrightarrow> vendor_core_free (snd (resolve_tag vs name a))"
  by (auto simp: resolve_tag_def vendor_core_free_step split: option.split)

lemma resolve_not_id:
  assumes "vendor_core_free vs" and "resolve_tag vs name a = (Some t, vs')"
    and "name \<notin> {''id'', ''record.id''}"
  shows "t \<noteq> 1"
proof
  assume "t = 1"
  then have "map_of resolve_table name \<noteq> Some (Some 1)" using assms(3) resolve_tag_id by blast
  then have "is_vendor_name name"
    using assms(2) \<open>t = 1\<close> by (auto simp: resolve_tag_def split: option.splits if_splits)
  then have "64 \<le> t" using assms(1,2) by (intro vendor_resolve)
  with \<open>t = 1\<close> show False by (simp add: word_le_nat_alt)
qed

lemma rec_slots_fixed [simp]:
  "rec_slots (r\<lparr>rec_level := a\<rparr>) = rec_slots r" "rec_slots (r\<lparr>rec_message := b\<rparr>) = rec_slots r"
  "rec_slots (r\<lparr>rec_process_id := c\<rparr>) = rec_slots r" "rec_slots (r\<lparr>rec_thread_id := d\<rparr>) = rec_slots r"
  "rec_slots (r\<lparr>rec_flags := e\<rparr>) = rec_slots r"
  by (simp_all add: rec_slots_def)

text \<open>What no write through the field interface touches.\<close>

definition rec_protected :: "log_record \<Rightarrow> u64 \<times> u64 \<times> u16 \<times> u32 \<times> bytes" where
  "rec_protected r =
     (rec_timestamp r, rec_lsn r, rec_flags r AND NOT RECORD_FLAG_GAP, rec_pool_index r,
      rec_content_hash r)"

lemma rec_protected_fixed: "rec_fixed r' = rec_fixed r \<Longrightarrow> rec_protected r' = rec_protected r"
  by (simp add: rec_protected_def rec_fixed_def)

lemma gap_flag_only:
  "rec_protected (set_security_gap r b) = rec_protected r"
  "rec_wf (set_security_gap r b) = rec_wf r" "rec_map (set_security_gap r b) = rec_map r"
proof -
  have "(f OR g) AND NOT g = f AND NOT g" "(f AND NOT g) AND NOT g = f AND NOT g" for f g :: u16
    by (rule bit_word_eqI; auto simp: bit_simps)+
  then show "rec_protected (set_security_gap r b) = rec_protected r"
    by (simp add: rec_protected_def set_security_gap_def)
qed (simp_all add: set_security_gap_def rec_wf_def rec_map_def)

lemma rec_protected_upd [simp]:
  "rec_protected (r\<lparr>rec_level := a\<rparr>) = rec_protected r"
  "rec_protected (r\<lparr>rec_message := b\<rparr>) = rec_protected r"
  "rec_protected (r\<lparr>rec_process_id := c\<rparr>) = rec_protected r"
  "rec_protected (r\<lparr>rec_thread_id := d\<rparr>) = rec_protected r"
  by (simp_all add: rec_protected_def)

lemma rec_wf_upd [simp]:
  "rec_wf (r\<lparr>rec_level := a\<rparr>) = rec_wf r"
  "rec_wf r \<Longrightarrow> rec_wf (r\<lparr>rec_message := rs_set (rec_message r) v\<rparr>)"
  "rec_wf (r\<lparr>rec_process_id := c\<rparr>) = rec_wf r"
  "rec_wf (r\<lparr>rec_thread_id := d\<rparr>) = rec_wf r"
  by (simp_all add: rec_wf_def rs_set_def)

lemma rec_map_upd [simp]:
  "rec_map (r\<lparr>rec_level := a\<rparr>) = rec_map r" "rec_map (r\<lparr>rec_message := b\<rparr>) = rec_map r"
  "rec_map (r\<lparr>rec_process_id := c\<rparr>) = rec_map r" "rec_map (r\<lparr>rec_thread_id := d\<rparr>) = rec_map r"
  by (simp_all add: rec_map_def)

lemma field_write_error:
  "case field_write vs r name v of (res, r', vs') \<Rightarrow> (\<forall>e. res = Inl e \<longrightarrow> r' = r)"
  by (rule field_write_cases) simp_all

lemma rec_put_string_map:
  "rec_wf r \<Longrightarrow> fits_usize v \<Longrightarrow> t \<noteq> tag \<Longrightarrow> rec_map (rec_kv_put_string r tag v) t = rec_map r t"
  using rec_put_maps(1) [of r tag v] rec_put_invalid [of tag kv_put_string r v]
  by (cases "tag = 0 \<or> KV_TAG_MAX < tag") (auto simp: rec_wf_def rec_kv_put_string_def not_less)

lemma field_write_safe:
  assumes "rec_wf r" "vendor_core_free vs" "fits_usize v"
  shows "case field_write vs r name v of (res, r', vs') \<Rightarrow>
    rec_protected r' = rec_protected r \<and> rec_wf r' \<and> vendor_core_free vs' \<and>
    rec_map r' 1 = rec_map r 1"
proof (rule field_write_cases, goal_cases)
  case (8 tag vs')
  then have "tag \<noteq> 1" using assms(2) resolve_not_id by blast
  moreover have "vendor_core_free vs'"
    using resolve_core_free [OF assms(2), of name True] 8(1) by simp
  ultimately show ?case
    using assms by (simp add: rec_put_string_map rec_wf_puts rec_protected_fixed [OF rec_put_fixed_all(1)])
next
  case (7 vs')
  then show ?case using assms resolve_core_free [OF assms(2), of name True] by simp
qed (use assms in \<open>simp_all add: gap_flag_only\<close>)

text \<open>A KV field: a name outside the fixed ones that resolves to a tag.\<close>

lemma resolve_again:
  "resolve_tag vs name a = (Some tag, vs') \<Longrightarrow> resolve_tag vs' name b = (Some tag, vs')"
  by (auto simp: resolve_tag_def split: option.splits if_splits intro: vendor_tag_for_again)

lemma resolve_valid:
  assumes "vendor_inv vs" and "vendor_core_free vs" and "resolve_tag vs name a = (Some tag, vs')"
  shows "tag \<noteq> 0 \<and> tag \<le> KV_TAG_MAX"
proof (cases "map_of resolve_table name")
  case None
  with assms(3) have v: "vendor_tag_for vs name a = (Some tag, vs')" and n: "is_vendor_name name"
    by (auto simp: resolve_tag_def split: if_splits)
  have inv: "vendor_inv vs'" using vendor_inv_step [OF assms(1), of name a] v by simp
  have "(name, tag) \<in> set (vendor_tags vs')"
    using v by (auto simp: vendor_tag_for_eq split: option.splits if_splits dest: map_of_SomeD)
  then have "tag \<in> set (map snd (vendor_tags vs'))" by force
  with inv have "tag \<in> set (map of_nat [64..<unat (vendor_counter vs')])"
    unfolding vendor_inv_def by metis
  then obtain n where n: "tag = of_nat n" "64 \<le> n" "n < unat (vendor_counter vs')" by auto
  moreover from inv have "unat (vendor_counter vs') \<le> 193"
    by (simp add: vendor_inv_def word_le_nat_alt)
  ultimately have "unat tag = n" "n \<le> 192" by (simp_all add: unat_of_nat)
  with n(2) show ?thesis by (auto simp: KV_TAG_MAX_def word_le_nat_alt)
next
  case (Some x)
  with assms(3) have "map_of resolve_table name = Some (Some tag)" by (simp add: resolve_tag_def)
  then have "tag \<noteq> 0 \<and> tag \<le> 25" by (rule resolve_table_range)
  then show ?thesis by (auto simp: KV_TAG_MAX_def word_le_nat_alt)
qed

text \<open>A write outside the fixed names reads back.\<close>

lemma field_write_get_kv:
  assumes "rec_wf r" and "vendor_inv vs" and "vendor_core_free vs" and "fits_usize v"
    and "utf8_valid v" and w: "field_write vs r name v = (Inr (), r', vs')"
    and kv: "name \<notin> set fixed_names"
  shows "field_get vs' r' name ring' = (Inr v, vs')"
proof -
  from w kv obtain tag where tag: "resolve_tag vs name True = (Some tag, vs')"
    and r': "r' = rec_kv_put_string r tag v"
    by (auto simp: field_write_kv split: prod.splits option.splits)
  have valid: "tag \<noteq> 0" "tag \<le> KV_TAG_MAX" using resolve_valid [OF assms(2,3) tag] by simp_all
  have "rec_kv_get_display_string r' tag = Some v"
    using assms(1,4,5) valid rec_put_maps(1) [of r tag v]
    by (simp add: r' rec_display_map rec_wf_def)
  moreover have "field_get vs' r' name ring' = (ok_or (rec_kv_get_display_string r' tag) NotFound, vs')"
    using kv by (simp add: field_get_def fixed_names_def resolve_again [OF tag])
  ultimately show ?thesis by simp
qed

text \<open>A caller of ring 2 or 3 can write vendor fields only.\<close>

lemma untrusted_write_safe:
  assumes "rec_wf r" and "vendor_core_free vs" and "fits_usize v"
    and w: "field_write vs r name v = (res, r', vs')"
    and target: "field_ring_of name = Some target" "target \<noteq> Ring0" "target = Ring1 \<longrightarrow> ring \<le> Ring1"
    and hi: "Ring1 < ring"
  shows "rec_fixed r' = rec_fixed r \<and> (\<forall>t < 64. rec_map r' t = rec_map r t)"
proof -
  from target hi have "Ring1 < target"
    by (cases target) (auto simp: less_field_ring_def less_eq_field_ring_def word_le_nat_alt word_less_nat_alt)
  then have vendor: "is_vendor_name name" using target(1) by (rule ring_vendor [rotated])
  then have kv: "name \<notin> set fixed_names" by (rule vendor_not_in_table)
  obtain x vs1 where rt: "resolve_tag vs name True = (x, vs1)" by fastforce
  show ?thesis
  proof (cases x)
    case None
    with kv rt w show ?thesis by (auto simp: field_write_kv)
  next
    case (Some tag)
    with assms(2) vendor rt have "64 \<le> tag" using vendor_resolve by blast
    moreover from Some kv rt w have "r' = rec_kv_put_string r tag v" by (auto simp: field_write_kv)
    ultimately show ?thesis
      using assms(1,3) by (auto intro!: rec_put_string_map)
  qed
qed

lemma field_set_untrusted:
  assumes "rec_wf r" and "vendor_core_free vs" and "fits_usize v"
    and "field_set vs r name v Ring3 = (res, r', vs')"
  shows "rec_fixed r' = rec_fixed r" and "\<forall>t < 64. rec_map r' t = rec_map r t" and "rec_wf r'"
    and "vendor_core_free vs'" and "res \<noteq> Inr () \<Longrightarrow> r' = r"
proof -
  have "(rec_fixed r' = rec_fixed r \<and> (\<forall>t < 64. rec_map r' t = rec_map r t)) \<and> rec_wf r' \<and>
      vendor_core_free vs' \<and> (res \<noteq> Inr () \<longrightarrow> r' = r)"
  proof (cases "\<exists>target. field_ring_of name = Some target \<and> target \<noteq> Ring0 \<and>
      (target = Ring1 \<longrightarrow> Ring3 \<le> Ring1)")
    case False
    then have "r' = r" "vs' = vs"
      using assms(4) by (auto simp: field_set_def not_less split: option.splits if_splits)
    with assms(1,2) show ?thesis by simp
  next
    case True
    then obtain target where target: "field_ring_of name = Some target" "target \<noteq> Ring0"
      "target = Ring1 \<longrightarrow> Ring3 \<le> Ring1" by blast
    then have w: "field_write vs r name v = (res, r', vs')"
      using assms(4) by (auto simp: field_set_def dest: leD split: if_splits)
    have hi: "Ring1 < Ring3" by (simp add: less_field_ring_def)
    have err: "res \<noteq> Inr () \<longrightarrow> r' = r"
      using field_write_error [where vs = vs and r = r and name = name and v = v] w
      by (cases res) auto
    show ?thesis
      using field_write_safe [OF assms(1-3), of name] w err
        untrusted_write_safe [OF assms(1-3) w target hi] by simp
  qed
  then show "rec_fixed r' = rec_fixed r" "\<forall>t < 64. rec_map r' t = rec_map r t" "rec_wf r'"
    "vendor_core_free vs'" "res \<noteq> Inr () \<Longrightarrow> r' = r" by blast+
qed

section \<open>Properties\<close>

text \<open>C5: The field interface respects the rings: a write that succeeds is on a field of ring
  1 to 3, on a ring 1 field only for a caller of ring 0 or 1, and a refused write changes
  nothing; whatever the name, value and caller, the timestamp, LSN, content hash, pool
  index, the flag bits other than the gap bit and the record id are never changed; and a
  caller of ring 2 or 3 changes no fixed field and no core tag (below 64) at all.\<close>

theorem field_set_ring_safety:
  assumes "rec_wf r" and "vendor_core_free vs" and "fits_usize v"
    and "field_set vs r name v ring = (res, r', vs')"
  shows "(res = Inr () \<longrightarrow> (\<exists>target. field_ring_of name = Some target \<and> target \<noteq> Ring0 \<and>
            (target = Ring1 \<longrightarrow> ring \<le> Ring1))) \<and>
    (res \<noteq> Inr () \<longrightarrow> r' = r) \<and>
    rec_protected r' = rec_protected r \<and> rec_map r' 1 = rec_map r 1 \<and>
    (Ring1 < ring \<longrightarrow> rec_fixed r' = rec_fixed r \<and> (\<forall>t < 64. rec_map r' t = rec_map r t)) \<and>
    rec_wf r' \<and> vendor_core_free vs'"
proof (cases "\<exists>target. field_ring_of name = Some target \<and> target \<noteq> Ring0 \<and>
    (target = Ring1 \<longrightarrow> ring \<le> Ring1)")
  case False
  then have "r' = r" "vs' = vs" "res \<noteq> Inr ()"
    using assms(4) by (auto simp: field_set_def not_less split: option.splits if_splits)
  with assms(1,2) show ?thesis by simp
next
  case True
  then obtain target where target: "field_ring_of name = Some target" "target \<noteq> Ring0"
    "target = Ring1 \<longrightarrow> ring \<le> Ring1" by blast
  then have w: "field_write vs r name v = (res, r', vs')"
    using assms(4) by (auto simp: field_set_def dest: leD split: if_splits)
  have safe: "rec_protected r' = rec_protected r" "rec_wf r'" "vendor_core_free vs'"
    "rec_map r' 1 = rec_map r 1"
    using field_write_safe [OF assms(1-3), of name] w by simp_all
  have err: "r' = r" if "res \<noteq> Inr ()"
    using field_write_error [where vs = vs and r = r and name = name and v = v] w that by (cases res) auto
  have "rec_fixed r' = rec_fixed r \<and> (\<forall>t < 64. rec_map r' t = rec_map r t)" if "Ring1 < ring"
    by (rule untrusted_write_safe [OF assms(1-3) w target that])
  with safe err True show ?thesis by blast
qed

theorem field_set_ring_safety_witness:
  "rec_map (fst (snd (field_set vendor_init (rec_new 0) ''ext.a'' [65] Ring3))) 1 = None"
proof -
  obtain res r' vs' where f: "field_set vendor_init (rec_new 0) ''ext.a'' [65] Ring3 = (res, r', vs')"
    by (metis prod_cases3)
  have "rec_map (rec_new 0) 1 = None" by code_simp
  then show ?thesis
    using field_set_ring_safety [OF _ _ _ f] f by (simp add: fits_usize_def)
qed



end
