(* ===== verification/Ffi.thy ===== *)
theory Ffi
  imports Field_Api
begin

text \<open>
  The C interface over records and errors (core/src/ffi.rs, and the host adapters of
  core/src/plugin/vtable.rs). A pointer is an option, null is \<open>None\<close>; a C string is a byte list
  whose text ends at its first NUL; a caller's buffer is the byte list it points to, of which
  the call may write a part. The thread-local last error is an explicit state.
\<close>

section \<open>The last error\<close>

definition set_last_error :: "dologger_error \<Rightarrow> int \<Rightarrow> bytes \<Rightarrow> dologger_error" where
  "set_last_error e code msg =
     (let len = min (length msg) (length (de_message e) - 1) in
      e\<lparr>de_code := code, de_message := take len msg @ 0 # drop (len + 1) (de_message e)\<rparr>)"

definition set_last_error_code :: "dologger_error \<Rightarrow> int \<Rightarrow> dologger_error" where
  "set_last_error_code e code = set_last_error e code (str_bytes (error_default_message code))"

definition dologger_get_last_error :: "dologger_error \<Rightarrow> dologger_error option \<Rightarrow> int \<times> dologger_error option" where
  "dologger_get_last_error le err =
     (case err of
        None \<Rightarrow> (DO_LOG_ERR_INVALID_ARG, None)
      | Some _ \<Rightarrow> (de_code le, Some le))"

section \<open>Copying into a caller's buffer\<close>

text \<open>\<open>n\<close> bytes and the terminator; the rest of the buffer stays.\<close>

definition copy_terminated :: "bytes \<Rightarrow> nat \<Rightarrow> bytes \<Rightarrow> bytes" where
  "copy_terminated src n buf = take n src @ 0 # drop (n + 1) buf"

definition dologger_error_key :: "int \<Rightarrow> bytes option \<Rightarrow> nat \<Rightarrow> int \<times> bytes option" where
  "dologger_error_key code buffer capacity =
     (case buffer of
        None \<Rightarrow> (DO_LOG_ERR_BUFFER_TOO_SMALL, None)
      | Some buf \<Rightarrow>
          if capacity = 0 then (DO_LOG_ERR_BUFFER_TOO_SMALL, Some buf)
          else
            let key = str_bytes (error_key code);
                writable = capacity - 1;
                copy_len = min (length key) writable
            in (if copy_len \<noteq> length key then DO_LOG_ERR_BUFFER_TOO_SMALL else int copy_len,
                Some (copy_terminated key copy_len buf)))"

section \<open>Field access\<close>

definition c_str :: "bytes \<Rightarrow> bytes" where "c_str b = takeWhile (\<lambda>x. x \<noteq> 0) b"

definition dologger_field_set ::
  "dologger_error \<Rightarrow> vendor_state \<Rightarrow> log_record option \<Rightarrow> bytes option \<Rightarrow> bytes option \<Rightarrow> bool \<Rightarrow>
     int \<times> log_record option \<times> vendor_state \<times> dologger_error" where
  "dologger_field_set le vs rec field_name val err_given =
     (case (rec, field_name, val) of
        (Some r, Some name, Some vl) \<Rightarrow>
          if \<not> err_given then (DO_LOG_ERR_INVALID_ARG, rec, vs, le)
          else if \<not> utf8_valid (c_str name) then
            (DO_LOG_ERR_INVALID_ARG, rec, vs, set_last_error_code le DO_LOG_ERR_INVALID_ARG)
          else if \<not> utf8_valid (c_str vl) then
            (DO_LOG_ERR_INVALID_ARG, rec, vs, set_last_error_code le DO_LOG_ERR_INVALID_ARG)
          else
            (case field_set vs r (bytes_str (c_str name)) (c_str vl) Ring3 of
               (Inr _, r', vs') \<Rightarrow>
                 (DO_LOG_OK, Some r', vs', set_last_error_code le DO_LOG_OK)
             | (Inl e, r', vs') \<Rightarrow>
                 (field_error_abi_code e, Some r', vs',
                  set_last_error_code le (field_error_abi_code e)))
      | _ \<Rightarrow> (DO_LOG_ERR_INVALID_ARG, rec, vs, le))"

definition dologger_field_get ::
  "dologger_error \<Rightarrow> vendor_state \<Rightarrow> log_record option \<Rightarrow> bytes option \<Rightarrow> bytes option \<Rightarrow> nat \<Rightarrow> bool \<Rightarrow>
     int \<times> bytes option \<times> vendor_state \<times> dologger_error" where
  "dologger_field_get le vs rec field_name buffer buffer_size err_given =
     (case (rec, field_name, buffer) of
        (Some r, Some name, Some buf) \<Rightarrow>
          if \<not> err_given then (DO_LOG_ERR_INVALID_ARG, buffer, vs, le)
          else if buffer_size = 0 then
            (DO_LOG_ERR_BUFFER_TOO_SMALL, buffer, vs,
             set_last_error_code le DO_LOG_ERR_BUFFER_TOO_SMALL)
          else if \<not> utf8_valid (c_str name) then
            (DO_LOG_ERR_INVALID_ARG, buffer, vs, set_last_error_code le DO_LOG_ERR_INVALID_ARG)
          else
            (case field_get vs r (bytes_str (c_str name)) Ring3 of
               (Inl e, vs') \<Rightarrow>
                 (field_error_abi_code e, buffer, vs',
                  set_last_error_code le (field_error_abi_code e))
             | (Inr v, vs') \<Rightarrow>
                 if buffer_size \<le> length v then
                   (DO_LOG_ERR_BUFFER_TOO_SMALL, Some (copy_terminated v (buffer_size - 1) buf), vs',
                    set_last_error_code le DO_LOG_ERR_BUFFER_TOO_SMALL)
                 else
                   (int (length v), Some (copy_terminated v (length v) buf), vs',
                    set_last_error_code le DO_LOG_OK))
      | _ \<Rightarrow> (DO_LOG_ERR_INVALID_ARG, buffer, vs, le))"

text \<open>The adapters plugins call pass an error structure of their own.\<close>

definition host_field_set ::
  "dologger_error \<Rightarrow> vendor_state \<Rightarrow> log_record \<Rightarrow> bytes \<Rightarrow> bytes \<Rightarrow>
     int \<times> log_record option \<times> vendor_state \<times> dologger_error" where
  "host_field_set le vs r name val = dologger_field_set le vs (Some r) (Some name) (Some val) True"

definition host_field_get ::
  "dologger_error \<Rightarrow> vendor_state \<Rightarrow> log_record \<Rightarrow> bytes \<Rightarrow> bytes \<Rightarrow> nat \<Rightarrow>
     int \<times> bytes option \<times> vendor_state \<times> dologger_error" where
  "host_field_get le vs r name buf cap =
     dologger_field_get le vs (Some r) (Some name) (Some buf) cap True"

definition dologger_record_create :: log_record where
  "dologger_record_create = rec_new 0"

section \<open>Lemmas\<close>

lemma copy_terminated_len:
  "n \<le> length src \<Longrightarrow> n < length buf \<Longrightarrow> length (copy_terminated src n buf) = length buf"
  by (simp add: copy_terminated_def)

lemma copy_terminated_frame:
  "n \<le> length src \<Longrightarrow> drop (n + 1) (copy_terminated src n buf) = drop (n + 1) buf"
  by (simp add: copy_terminated_def)

lemma c_str_no_nul [simp]: "0 \<notin> set (c_str b)"
  by (auto simp: c_str_def dest: set_takeWhileD)

lemma c_str_append: "c_str (a @ 0 # b) = c_str a"
  by (induction a) (simp_all add: c_str_def)

lemma c_str_id: "0 \<notin> set b \<Longrightarrow> c_str b = b"
  unfolding c_str_def by (subst takeWhile_eq_all_conv) auto

lemma c_str_copy: "c_str (copy_terminated src n buf) = c_str (take n src)"
  by (simp add: copy_terminated_def c_str_append)

lemma default_message_fits: "length (error_default_message code) < 256"
  using error_key_known [of code] error_key_unknown [of code] by blast

text \<open>The last error reads back as the default message of its code.\<close>

lemma last_error_message:
  assumes "length (de_message e) = 256"
  shows "length (de_message (set_last_error_code e code)) = 256"
    and "c_str (de_message (set_last_error_code e code)) = c_str (str_bytes (error_default_message code))"
proof -
  have "min (length (error_default_message code)) 255 = length (error_default_message code)"
    using default_message_fits [of code] by simp
  then have m: "de_message (set_last_error_code e code) =
      str_bytes (error_default_message code) @ 0 # drop (length (error_default_message code) + 1) (de_message e)"
    using assms by (simp add: set_last_error_code_def set_last_error_def)
  show "length (de_message (set_last_error_code e code)) = 256"
    using assms default_message_fits [of code] by (simp add: m)
  show "c_str (de_message (set_last_error_code e code)) = c_str (str_bytes (error_default_message code))"
    by (simp add: m c_str_append)
qed

lemma error_key_buffer:
  assumes "0 < capacity" and "capacity \<le> length buf"
    and "dologger_error_key code (Some buf) capacity = (rc, Some out)"
  shows "length out = length buf" and "drop capacity out = drop capacity buf"
    and "rc \<noteq> DO_LOG_ERR_BUFFER_TOO_SMALL \<longleftrightarrow> length (error_key code) < capacity"
proof -
  define n where "n = min (length (error_key code)) (capacity - 1)"
  have n: "n \<le> length (str_bytes (error_key code))" "n < length buf" "n + 1 \<le> capacity"
    using assms(1,2) by (auto simp: n_def)
  have out: "out = copy_terminated (str_bytes (error_key code)) n buf"
    and rc: "rc = (if n \<noteq> length (error_key code) then DO_LOG_ERR_BUFFER_TOO_SMALL else int n)"
    using assms by (auto simp: dologger_error_key_def Let_def n_def)
  show "length out = length buf" using n by (simp add: out copy_terminated_len)
  have "drop (capacity - (n + 1)) (drop (n + 1) out) = drop (capacity - (n + 1)) (drop (n + 1) buf)"
    by (simp only: out copy_terminated_frame [OF n(1)])
  then show "drop capacity out = drop capacity buf" using n(3) by (simp add: drop_drop)
  show "rc \<noteq> DO_LOG_ERR_BUFFER_TOO_SMALL \<longleftrightarrow> length (error_key code) < capacity"
    using assms(1) by (auto simp: rc n_def DO_LOG_ERR_BUFFER_TOO_SMALL_def)
qed

lemma field_error_codes: "field_error_abi_code e < DO_LOG_OK"
  by (cases e) (simp_all add: error_code_defs)

text \<open>What the untrusted caller behind the C interface can do to a record.\<close>

lemma dologger_field_set_safe:
  assumes "rec_wf r" and "vendor_core_free vs" and "fits_usize val"
    and "dologger_field_set le vs (Some r) (Some name) (Some val) ok = (rc, rec', vs', le')"
  obtains r' where "rec' = Some r'" "rec_fixed r' = rec_fixed r" "\<forall>t < 64. rec_map r' t = rec_map r t"
    "rec_wf r'" "vendor_core_free vs'" "rc \<noteq> DO_LOG_OK \<Longrightarrow> r' = r"
proof (cases "ok \<and> utf8_valid (c_str name) \<and> utf8_valid (c_str val)")
  case False
  with assms that show thesis
    by (auto simp: dologger_field_set_def split: if_splits)
next
  case True
  obtain res r' vs1 where f: "field_set vs r (bytes_str (c_str name)) (c_str val) Ring3 = (res, r', vs1)"
    by (metis prod_cases3)
  have "length (c_str val) \<le> length val" by (simp add: c_str_def length_takeWhile_le)
  with assms(3) have "fits_usize (c_str val)" by (simp add: fits_usize_def)
  note safe = field_set_untrusted [OF assms(1,2) this f]
  from True f assms(4) have "rec' = Some r'" "vs' = vs1" "rc = DO_LOG_OK \<longrightarrow> res = Inr ()"
    "rc \<noteq> DO_LOG_OK \<longrightarrow> res \<noteq> Inr ()"
    using field_error_codes by (auto simp: dologger_field_set_def split: sum.splits)
      (metis less_irrefl)+
  with safe that show thesis by blast
qed

section \<open>Properties\<close>

text \<open>Fields round-trip through the C interface within the caller's buffer: after a successful set,
  a get with a buffer of any positive size reports the value's length and leaves exactly the
  value and its terminator in the buffer, or, when the buffer is too small, says so and leaves
  the longest terminated prefix; no byte beyond the buffer is produced and the bytes behind
  the terminator are untouched.\<close>

theorem c_field_roundtrip:
  assumes "rec_wf r" and "vendor_inv vs" and "vendor_core_free vs" and "fits_usize val"
    and fset: "dologger_field_set le vs (Some r) (Some name) (Some val) True =
      (DO_LOG_OK, Some r', vs', le')"
    and "0 < cap" and "length buf = cap"
  shows "\<exists>rc out le''.
    dologger_field_get le' vs' (Some r') (Some name) (Some buf) cap True = (rc, Some out, vs', le'') \<and>
    length out = cap \<and>
    (if length (c_str val) < cap
     then rc = int (length (c_str val)) \<and> c_str out = c_str val \<and>
       drop (length (c_str val) + 1) out = drop (length (c_str val) + 1) buf
     else rc = DO_LOG_ERR_BUFFER_TOO_SMALL \<and> c_str out = take (cap - 1) (c_str val))"
proof -
  let ?n = "bytes_str (c_str name)" and ?v = "c_str val"
  have "length ?v \<le> length val" by (simp add: c_str_def length_takeWhile_le)
  with assms(4) have fits: "fits_usize ?v" by (simp add: fits_usize_def)
  have utf: "utf8_valid (c_str name)" "utf8_valid ?v"
    using fset by (auto simp: dologger_field_set_def error_code_defs split: if_splits)
  have f: "field_set vs r ?n ?v Ring3 = (Inr (), r', vs')"
    using fset utf field_error_codes
    by (auto simp: dologger_field_set_def split: prod.splits sum.splits) (metis less_irrefl)
  then obtain target where t: "field_ring_of ?n = Some target" "target \<noteq> Ring0"
      "target = Ring1 \<longrightarrow> Ring3 \<le> Ring1" and w: "field_write vs r ?n ?v = (Inr (), r', vs')"
    by (auto simp: field_set_def not_less split: option.splits if_splits)
  have "Ring1 < target"
    using t by (cases target) (auto simp: less_field_ring_def less_eq_field_ring_def word_le_nat_alt word_less_nat_alt)
  then have "is_vendor_name ?n" using t(1) by (rule ring_vendor [rotated])
  then have kv: "?n \<notin> set fixed_names" by (rule vendor_not_in_table)
  have g: "field_get vs' r' ?n Ring3 = (Inr ?v, vs')"
    by (rule field_write_get_kv [OF assms(1-3) fits utf(2) w kv])
  have nul: "0 \<notin> set ?v" "0 \<notin> set (take (cap - 1) ?v)"
    using c_str_no_nul [of val] in_set_takeD by fastforce+
  show ?thesis
  proof (cases "length ?v < cap")
    case True
    with assms(6,7) utf g nul show ?thesis
      by (auto simp: dologger_field_get_def copy_terminated_len
          copy_terminated_frame [simplified] c_str_copy c_str_id)
  next
    case False
    with assms(6,7) utf g nul show ?thesis
      by (auto simp: dologger_field_get_def copy_terminated_len c_str_copy c_str_id)
  qed
qed

theorem c_field_roundtrip_witness:
  "\<exists>r' vs' le'. dologger_field_set de_new vendor_init (Some (rec_new 0)) (Some (str_bytes ''ext.a''))
      (Some [65, 66]) True = (DO_LOG_OK, Some r', vs', le') \<and>
    (\<exists>rc out le''. dologger_field_get le' vs' (Some r') (Some (str_bytes ''ext.a''))
       (Some [9, 9, 9, 9]) 4 True = (rc, Some out, vs', le'') \<and> rc = 2 \<and> c_str out = [65, 66])"
proof -
  have "case dologger_field_set de_new vendor_init (Some (rec_new 0)) (Some (str_bytes ''ext.a''))
      (Some [65, 66]) True of (rc, rec, _) \<Rightarrow> rc = DO_LOG_OK \<and> rec \<noteq> None"
    by code_simp
  then obtain r' vs' le' where f: "dologger_field_set de_new vendor_init (Some (rec_new 0))
      (Some (str_bytes ''ext.a'')) (Some [65, 66]) True = (DO_LOG_OK, Some r', vs', le')"
    by (auto split: prod.splits)
  have "fits_usize [65, 66]" by (simp add: fits_usize_def)
  from c_field_roundtrip [OF _ _ _ this f, of 4 "[9, 9, 9, 9]"] f
  show ?thesis by (auto simp: c_str_def)
qed

end
