(* ===== verification/Machine.thy ===== *)
theory Machine
  imports Prelude
begin

text \<open>
  Components with concurrent or repeated operations are step functions \<open>step s a\<close>, where
  the action \<open>a\<close> says which thread or caller moves and \<open>None\<close> that it cannot. \<open>reachable\<close>
  is the set of states any schedule of actions can produce. The locale is the contract of
  an invariant: it holds at the start and every step keeps it.
\<close>

inductive reachable :: "('s \<Rightarrow> 'a \<Rightarrow> 's option) \<Rightarrow> 's \<Rightarrow> 's \<Rightarrow> bool"
  for step :: "'s \<Rightarrow> 'a \<Rightarrow> 's option" and init :: 's where
  reach_init: "reachable step init init"
| reach_step: "reachable step init s \<Longrightarrow> step s a = Some s' \<Longrightarrow> reachable step init s'"

inductive_cases reachable_cases: "reachable step init s"

fun run :: "('s \<Rightarrow> 'a \<Rightarrow> 's option) \<Rightarrow> 's \<Rightarrow> 'a list \<Rightarrow> 's option" where
  "run step s [] = Some s"
| "run step s (a # as) = (case step s a of None \<Rightarrow> None | Some s' \<Rightarrow> run step s' as)"

lemma run_reachable:
  "run step s as = Some s' \<Longrightarrow> reachable step init s \<Longrightarrow> reachable step init s'"
  by (induction as arbitrary: s) (auto split: option.splits intro: reach_step)

lemma run_append:
  "run step s (as @ bs) = (case run step s as of None \<Rightarrow> None | Some s' \<Rightarrow> run step s' bs)"
  by (induction as arbitrary: s) (auto split: option.splits)

locale safe_machine =
  fixes step :: "'s \<Rightarrow> 'a \<Rightarrow> 's option"
    and init :: 's
    and inv :: "'s \<Rightarrow> bool"
  assumes inv_init: "inv init"
    and inv_step: "inv s \<Longrightarrow> step s a = Some s' \<Longrightarrow> inv s'"
begin

lemma inv_reachable: "reachable step init s \<Longrightarrow> inv s"
  by (induction rule: reachable.induct) (auto intro: inv_init inv_step)

lemma inv_run: "inv s \<Longrightarrow> run step s as = Some s' \<Longrightarrow> inv s'"
  by (induction as arbitrary: s) (auto split: option.splits dest: inv_step)

end

text \<open>An operation called again and again, with a measure that each call adds to.\<close>

lemma fold_count:
  "(\<And>s x. f (g x s) = f s + w x) \<Longrightarrow> f (fold g xs s) = f s + sum_list (map w xs)"
  for f :: "'s \<Rightarrow> nat"
  by (induction xs arbitrary: s) (simp_all add: add.assoc)

end
