(* ===== verification/Policy.thy ===== *)
theory Policy
  imports Record_Tags Machine
begin

text \<open>
  Admission policies in front of the pipeline (core/src/pipeline/policy.rs): the token-bucket
  rate limiter and the drop-level policy. An \<open>Instant\<close> is a number of nanoseconds and the
  clock an argument of the call that reads it; the atomics carry one call at a time (the
  retried exchanges of the code make each call take effect at once). Both policies count
  their decisions, which is the contract of the locale: of any sequence of calls, each is
  counted exactly once, under its own decision.
\<close>

section \<open>Gates\<close>

fun admit_all :: "('s \<Rightarrow> 'x \<Rightarrow> bool \<times> 's) \<Rightarrow> 's \<Rightarrow> 'x list \<Rightarrow> bool list \<times> 's" where
  "admit_all f s [] = ([], s)"
| "admit_all f s (x # xs) =
     (case f s x of (b, s1) \<Rightarrow> (case admit_all f s1 xs of (bs, s2) \<Rightarrow> (b # bs, s2)))"

definition admitted :: "bool list \<Rightarrow> nat" where
  "admitted bs = length (filter (\<lambda>b. b) bs)"

lemma admitted_simps [simp]:
  "admitted [] = 0" "admitted (b # bs) = (if b then 1 else 0) + admitted bs"
  by (simp_all add: admitted_def)

lemma admit_all_length: "admit_all f s xs = (bs, s') \<Longrightarrow> length bs = length xs"
  by (induction xs arbitrary: s bs) (auto split: prod.splits)

lemma fst_admit_all [simp]:
  "fst (admit_all f s (x # xs)) = fst (f s x) # fst (admit_all f (snd (f s x)) xs)"
  by (simp split: prod.splits)

text \<open>An invariant of each call is one of the whole sequence.\<close>

lemma admit_all_inv:
  assumes "admit_all f s xs = (bs, s')" and "P s"
    and "\<And>s x. x \<in> set xs \<Longrightarrow> P s \<Longrightarrow> P (snd (f s x))"
  shows "P s'"
  using assms
proof (induction xs arbitrary: s bs)
  case (Cons x xs)
  obtain b s1 where f: "f s x = (b, s1)" by (cases "f s x")
  with Cons.prems(1) obtain bs1 where r: "admit_all f s1 xs = (bs1, s')"
    by (auto split: prod.splits)
  have "P s1" using Cons.prems(3) [of x s] Cons.prems(2) f by simp
  then show ?case using Cons.IH [OF r] Cons.prems(3) by simp
qed simp

locale admission_gate =
  fixes admit :: "'s \<Rightarrow> 'x \<Rightarrow> bool \<times> 's"
    and kept :: "'s \<Rightarrow> u64"
    and refused :: "'s \<Rightarrow> u64"
  assumes counted: "admit s x = (b, s') \<Longrightarrow>
      kept s' = kept s + (if b then 1 else 0) \<and> refused s' = refused s + (if b then 0 else 1)"
begin

lemma kept_counts:
  "admit_all admit s xs = (bs, s') \<Longrightarrow>
     kept s' = kept s + of_nat (admitted bs) \<and>
     refused s' = refused s + of_nat (length xs - admitted bs) \<and> admitted bs \<le> length xs"
proof (induction xs arbitrary: s bs)
  case (Cons x xs)
  obtain b s1 where f: "admit s x = (b, s1)" by (cases "admit s x")
  with Cons.prems obtain bs1 where r: "admit_all admit s1 xs = (bs1, s')" and bs: "bs = b # bs1"
    by (auto split: prod.splits)
  show ?case
    using Cons.IH [OF r] counted [OF f] bs by (auto simp: Suc_diff_le)
qed simp

end

section \<open>Rate limiter\<close>

record rate_limiter =
  rl_rate_per_sec :: u64
  rl_burst_size :: u64
  rl_tokens :: u64
  rl_last_refill :: nat
  rl_refill_interval :: nat
  rl_tokens_per_refill :: u64
  rl_allowed :: u64
  rl_dropped :: u64

text \<open>Nanoseconds in a millisecond.\<close>

definition ns_per_ms :: nat where "ns_per_ms = 1000000"

definition rl_new :: "u64 \<Rightarrow> u64 \<Rightarrow> nat \<Rightarrow> rate_limiter" where
  "rl_new rate_per_sec burst_size now =
     \<lparr>rl_rate_per_sec = rate_per_sec, rl_burst_size = burst_size,
      rl_tokens = sat_mul64 burst_size 1000, rl_last_refill = now,
      rl_refill_interval = 100 * ns_per_ms,
      rl_tokens_per_refill = (if 0 < rate_per_sec then max (rate_per_sec div 10) 1 else 0),
      rl_allowed = 0, rl_dropped = 0\<rparr>"

definition rl_refill :: "rate_limiter \<Rightarrow> nat \<Rightarrow> rate_limiter" where
  "rl_refill s now =
     (let elapsed = now - rl_last_refill s in
      if rl_refill_interval s \<le> elapsed then
        let refills = of_nat ((elapsed div ns_per_ms) div (rl_refill_interval s div ns_per_ms));
            add = sat_mul64 (sat_mul64 refills (rl_tokens_per_refill s)) 1000;
            max_tokens = sat_mul64 (rl_burst_size s) 1000
        in s\<lparr>rl_tokens := min (sat_add64 (rl_tokens s) add) max_tokens, rl_last_refill := now\<rparr>
      else s)"

definition rl_evaluate :: "rate_limiter \<Rightarrow> nat \<Rightarrow> bool \<times> rate_limiter" where
  "rl_evaluate s now =
     (if rl_rate_per_sec s = 0 then (True, s\<lparr>rl_allowed := rl_allowed s + 1\<rparr>)
      else
        let s1 = rl_refill s now in
        if rl_tokens s1 < 1000 then (False, s1\<lparr>rl_dropped := rl_dropped s1 + 1\<rparr>)
        else (True, s1\<lparr>rl_tokens := rl_tokens s1 - 1000, rl_allowed := rl_allowed s1 + 1\<rparr>))"

definition rl_available_tokens :: "rate_limiter \<Rightarrow> u64" where
  "rl_available_tokens s = rl_tokens s div 1000"

definition rl_default :: "nat \<Rightarrow> rate_limiter" where
  "rl_default now = rl_new 0 0 now"

section \<open>Drop-level policy\<close>

record drop_level_policy =
  dl_min_level :: u8
  dl_allowed :: u64
  dl_dropped :: u64

definition dl_new :: "log_level \<Rightarrow> drop_level_policy" where
  "dl_new min_level = \<lparr>dl_min_level = level_as_u8 min_level, dl_allowed = 0, dl_dropped = 0\<rparr>"

definition dl_level :: "drop_level_policy \<Rightarrow> log_level" where
  "dl_level s = (case level_from_u8 (dl_min_level s) of Some l \<Rightarrow> l | None \<Rightarrow> Audit)"

definition dl_evaluate :: "drop_level_policy \<Rightarrow> log_level \<Rightarrow> bool \<times> drop_level_policy" where
  "dl_evaluate s level =
     (let minimum = dl_level s in
      if minimum \<le> level then (True, s\<lparr>dl_allowed := dl_allowed s + 1\<rparr>)
      else (False, s\<lparr>dl_dropped := dl_dropped s + 1\<rparr>))"

definition dl_set_min_level :: "drop_level_policy \<Rightarrow> log_level \<Rightarrow> log_level \<times> drop_level_policy" where
  "dl_set_min_level s min_level = (dl_level s, s\<lparr>dl_min_level := level_as_u8 min_level\<rparr>)"

section \<open>Both are gates\<close>

lemma rl_refill_frame [simp]:
  "rl_rate_per_sec (rl_refill s now) = rl_rate_per_sec s"
  "rl_burst_size (rl_refill s now) = rl_burst_size s"
  "rl_refill_interval (rl_refill s now) = rl_refill_interval s"
  "rl_tokens_per_refill (rl_refill s now) = rl_tokens_per_refill s"
  "rl_allowed (rl_refill s now) = rl_allowed s"
  "rl_dropped (rl_refill s now) = rl_dropped s"
  by (simp_all add: rl_refill_def Let_def)

interpretation limiter: admission_gate rl_evaluate rl_allowed rl_dropped
  by unfold_locales (auto simp: rl_evaluate_def Let_def split: if_splits)

interpretation drop_level: admission_gate dl_evaluate dl_allowed dl_dropped
  by unfold_locales (auto simp: dl_evaluate_def Let_def split: if_splits)

section \<open>The bucket\<close>

definition rl_wf :: "u64 \<Rightarrow> u64 \<Rightarrow> nat \<Rightarrow> rate_limiter \<Rightarrow> bool" where
  "rl_wf rate burst t0 s \<longleftrightarrow>
     rl_rate_per_sec s = rate \<and> rl_burst_size s = burst \<and>
     rl_refill_interval s = 100 * ns_per_ms \<and> rl_tokens_per_refill s = max (rate div 10) 1 \<and>
     rl_tokens s \<le> sat_mul64 burst 1000 \<and> t0 \<le> rl_last_refill s"

lemma rl_new_wf: "rate \<noteq> 0 \<Longrightarrow> rl_wf rate burst t0 (rl_new rate burst t0)"
  by (simp add: rl_wf_def rl_new_def word_gt_0)

lemma rl_refill_wf: "rl_wf rate burst t0 s \<Longrightarrow> rl_wf rate burst t0 (rl_refill s now)"
  by (auto simp: rl_wf_def rl_refill_def Let_def ns_per_ms_def)

text \<open>The number of whole refill intervals between two times.\<close>

definition intervals :: "nat \<Rightarrow> nat \<Rightarrow> nat" where
  "intervals a b = (b - a) div (100 * ns_per_ms)"

lemma intervals_self [simp]: "intervals a a = 0"
  by (simp add: intervals_def)

lemma div_add_le: "a div m + b div m \<le> (a + b) div m" for m :: nat
  by (cases "m = 0") (simp_all add: less_eq_div_iff_mult_less_eq distrib_right add_mono)

lemma intervals_add: "a \<le> b \<Longrightarrow> b \<le> c \<Longrightarrow> intervals a b + intervals b c \<le> intervals a c"
  using div_add_le [of "b - a" "100 * ns_per_ms" "c - b"] by (simp add: intervals_def)

lemma intervals_mono: "b \<le> c \<Longrightarrow> intervals a b \<le> intervals a c"
  by (simp add: intervals_def div_le_mono)

lemma refill_count: "(e div ns_per_ms) div (100 * ns_per_ms div ns_per_ms) = e div (100 * ns_per_ms)"
  by (simp add: ns_per_ms_def flip: div_mult2_eq)

lemma rl_refill_tokens:
  assumes "rl_wf rate burst t0 s"
  shows "unat (rl_tokens (rl_refill s now)) + 1000 * unat (max (rate div 10) 1) * intervals t0 (rl_last_refill s)
     \<le> unat (rl_tokens s) + 1000 * unat (max (rate div 10) 1) * intervals t0 (rl_last_refill (rl_refill s now))"
proof (cases "rl_refill_interval s \<le> now - rl_last_refill s")
  case True
  define m where "m = unat (max (rate div 10) (1 :: u64))"
  define k where "k = intervals (rl_last_refill s) now"
  have le: "t0 \<le> rl_last_refill s" "rl_last_refill s \<le> now"
    using assms True by (simp_all add: rl_wf_def ns_per_ms_def)
  have fields: "rl_refill_interval s = 100 * ns_per_ms" "rl_tokens_per_refill s = max (rate div 10) 1"
    using assms by (simp_all add: rl_wf_def)
  have small: "unat (of_nat k :: u64) \<le> k" by (simp add: unat_of_nat)
  define d where "d = sat_mul64 (sat_mul64 (of_nat k) (max (rate div 10) 1)) 1000"
  have "unat d \<le> unat (of_nat k :: u64) * m * 1000"
    by (simp add: unat_sat_mul64 m_def d_def)
  also have "\<dots> \<le> k * m * 1000" using small by simp
  finally have d: "unat d \<le> k * m * 1000" .
  have "rl_tokens (rl_refill s now) = min (sat_add64 (rl_tokens s) d) (sat_mul64 (rl_burst_size s) 1000)"
    using True unfolding rl_refill_def Let_def fields refill_count d_def k_def intervals_def by simp
  also have "unat \<dots> \<le> unat (sat_add64 (rl_tokens s) d)"
    by (simp add: min_def word_le_nat_alt)
  also have "\<dots> \<le> unat (rl_tokens s) + k * m * 1000"
    using d by (simp add: unat_sat_add64)
  finally have add: "unat (rl_tokens (rl_refill s now)) \<le> unat (rl_tokens s) + k * m * 1000" .
  have "k + intervals t0 (rl_last_refill s) \<le> intervals t0 now"
    using intervals_add [OF le] by (simp add: k_def)
  then have "1000 * m * (k + intervals t0 (rl_last_refill s)) \<le> 1000 * m * intervals t0 now"
    by (rule mult_le_mono2)
  with add True show ?thesis
    by (simp add: rl_refill_def Let_def m_def [symmetric] algebra_simps)
qed (simp add: rl_refill_def)

section \<open>Properties of the limiter\<close>

lemma rl_evaluate_wf:
  assumes "rl_wf rate burst t0 s" and "rate \<noteq> 0"
  shows "rl_wf rate burst t0 (snd (rl_evaluate s now))"
proof -
  have w: "rl_wf rate burst t0 (rl_refill s now)" by (rule rl_refill_wf [OF assms(1)])
  have "rl_tokens s' - 1000 \<le> rl_tokens s'" if "\<not> rl_tokens s' < 1000" for s'
    using that by (simp add: word_less_nat_alt word_le_nat_alt unat_sub not_less)
  then show ?thesis
    using assms w by (auto simp: rl_evaluate_def Let_def rl_wf_def intro: order_trans)
qed

text \<open>Each call spends what it admits: tokens and admissions against bursts and intervals.\<close>

lemma rl_evaluate_budget:
  assumes "rl_wf rate burst t0 s" and "rate \<noteq> 0" and "rl_evaluate s now = (b, s')"
  shows "unat (rl_tokens s') + 1000 * (if b then 1 else 0) +
      1000 * unat (max (rate div 10) 1) * intervals t0 (rl_last_refill s)
    \<le> unat (rl_tokens s) + 1000 * unat (max (rate div 10) 1) * intervals t0 (rl_last_refill s')"
  using rl_refill_tokens [OF assms(1), of now] assms
  by (auto simp: rl_evaluate_def Let_def rl_wf_def word_less_nat_alt word_le_nat_alt unat_sub not_less
      split: if_splits)

lemma rl_last_refill_bound:
  "rl_last_refill s \<le> T \<Longrightarrow> now \<le> T \<Longrightarrow> rl_last_refill (snd (rl_evaluate s now)) \<le> T"
  by (simp add: rl_evaluate_def rl_refill_def Let_def)

lemma rl_all_budget:
  assumes "admit_all rl_evaluate s ts = (bs, s')" and "rl_wf rate burst t0 s" and "rate \<noteq> 0"
  shows "unat (rl_tokens s') + 1000 * admitted bs +
      1000 * unat (max (rate div 10) 1) * intervals t0 (rl_last_refill s)
    \<le> unat (rl_tokens s) + 1000 * unat (max (rate div 10) 1) * intervals t0 (rl_last_refill s')"
  using assms
proof (induction ts arbitrary: s bs)
  case (Cons t ts)
  obtain b s1 where f: "rl_evaluate s t = (b, s1)" by (cases "rl_evaluate s t")
  with Cons.prems(1) obtain bs1 where r: "admit_all rl_evaluate s1 ts = (bs1, s')" and bs: "bs = b # bs1"
    by (auto split: prod.splits)
  have "rl_wf rate burst t0 s1" using rl_evaluate_wf [OF Cons.prems(2,3), of t] f by simp
  from Cons.IH [OF r this Cons.prems(3)] rl_evaluate_budget [OF Cons.prems(2,3) f] bs
  show ?case by auto
qed simp

text \<open>C37: The limiter never admits more than its budget: of any calls made no later than a time
  \<open>T\<close>, on a limiter created at \<open>t0\<close> with a non-zero rate, at most the burst size plus the
  tokens of the whole refill intervals between the two times are admitted, every call is
  counted once under its decision, and the tokens left never exceed the burst.\<close>

theorem rate_limiter_conforms:
  assumes "rate \<noteq> 0" and "t0 \<le> T" and "\<forall>t \<in> set ts. t \<le> T"
    and "admit_all rl_evaluate (rl_new rate burst t0) ts = (bs, s)"
  shows "admitted bs \<le> unat burst + unat (max (rate div 10) 1) * ((T - t0) div 100000000) \<and>
    rl_allowed s = of_nat (admitted bs) \<and> rl_dropped s = of_nat (length ts - admitted bs) \<and>
    unat (rl_available_tokens s) \<le> unat burst"
proof -
  define m where "m = unat (max (rate div 10) (1 :: u64))"
  note w = rl_new_wf [OF assms(1), of burst t0]
  have ws: "rl_wf rate burst t0 s"
    by (rule admit_all_inv [OF assms(4), of "rl_wf rate burst t0"])
      (simp_all add: w rl_evaluate_wf assms(1))
  have "rl_last_refill s \<le> T"
    by (rule admit_all_inv [OF assms(4), of "\<lambda>s. rl_last_refill s \<le> T"])
      (use assms in \<open>auto intro: rl_last_refill_bound simp: rl_new_def\<close>)
  then have "m * intervals t0 (rl_last_refill s) \<le> m * intervals t0 T"
    by (intro mult_le_mono2 intervals_mono)
  moreover have "1000 * admitted bs \<le> unat (sat_mul64 burst 1000) + 1000 * (m * intervals t0 (rl_last_refill s))"
    using rl_all_budget [OF assms(4) w assms(1)] by (simp add: rl_new_def m_def)
  moreover have cap: "unat (sat_mul64 burst 1000) \<le> 1000 * unat burst"
    by (simp add: unat_sat_mul64)
  ultimately have "1000 * admitted bs \<le> 1000 * (unat burst + m * intervals t0 T)"
    unfolding distrib_left by linarith
  then have "admitted bs \<le> unat burst + m * intervals t0 T" by simp
  moreover have "unat (rl_tokens s) \<le> 1000 * unat burst"
    using ws cap by (simp add: rl_wf_def word_le_nat_alt)
  then have "unat (rl_available_tokens s) \<le> unat burst"
    by (simp add: rl_available_tokens_def unat_div)
  ultimately show ?thesis
    using limiter.kept_counts [OF assms(4)]
    by (simp add: rl_new_def m_def intervals_def ns_per_ms_def)
qed

theorem rate_limiter_conforms_witness:
  "admitted (fst (admit_all rl_evaluate (rl_new 20 3 0) [0, 0, 0, 0, 150000000, 150000000, 150000000])) \<le> 5"
proof -
  obtain bs s where r: "admit_all rl_evaluate (rl_new 20 3 0)
      [0, 0, 0, 0, 150000000, 150000000, 150000000] = (bs, s)"
    by (cases "admit_all rl_evaluate (rl_new 20 3 0) [0, 0, 0, 0, 150000000, 150000000, 150000000]")
  have n: "(20 :: u64) \<noteq> 0" by simp
  have le: "(0 :: nat) \<le> 150000000" by simp
  have all: "\<forall>t \<in> set [0, 0, 0, 0, 150000000, 150000000, 150000000]. t \<le> (150000000 :: nat)" by simp
  have m: "unat (max (20 div 10) (1 :: u64)) = 2" by code_simp
  show ?thesis using rate_limiter_conforms [OF n le all r] r by (simp add: m)
qed

lemma rl_evaluate_after_interval:
  assumes "rl_wf rate burst t0 s" and "rate \<noteq> 0" and "1 \<le> burst"
    and "now = rl_last_refill s + 100000000"
  shows "\<exists>s'. rl_evaluate s now = (True, s') \<and> rl_wf rate burst t0 s' \<and> rl_last_refill s' = now"
proof -
  have fields: "rl_refill_interval s = 100 * ns_per_ms" "rl_tokens_per_refill s = max (rate div 10) 1"
      "rl_burst_size s = burst" "rl_rate_per_sec s = rate"
    using assms by (simp_all add: rl_wf_def)
  define d where "d = sat_mul64 (sat_mul64 1 (max (rate div 10) 1)) 1000"
  have m: "1 \<le> unat (max (rate div 10) (1 :: u64))"
    by (simp add: max_def word_le_nat_alt)
  have d: "1000 \<le> unat d" using m by (simp add: d_def unat_sat_mul64)
  have b: "1000 \<le> unat (sat_mul64 burst 1000)"
    using assms(3) by (simp add: unat_sat_mul64 word_le_nat_alt)
  have r: "rl_refill s now = s\<lparr>rl_tokens := min (sat_add64 (rl_tokens s) d) (sat_mul64 burst 1000),
      rl_last_refill := now\<rparr>"
    by (simp add: rl_refill_def Let_def fields assms(4) ns_per_ms_def d_def)
  have "1000 \<le> unat (min (sat_add64 (rl_tokens s) d) (sat_mul64 burst 1000))"
    using b d by (auto simp: min_def unat_sat_add64)
  then have "\<not> rl_tokens (rl_refill s now) < 1000"
    by (simp add: r word_less_nat_alt not_less)
  then have "fst (rl_evaluate s now)" "rl_last_refill (snd (rl_evaluate s now)) = now"
    using assms(2) by (simp_all add: rl_evaluate_def Let_def fields r)
  then show ?thesis
    using rl_evaluate_wf [OF assms(1,2), of now] by (cases "rl_evaluate s now") auto
qed

lemma rl_all_spaced:
  assumes "rl_wf rate burst t0 s" and "rate \<noteq> 0" and "1 \<le> burst"
  shows "fst (admit_all rl_evaluate s (map (\<lambda>i. rl_last_refill s + Suc i * 100000000) [0..<n])) = replicate n True"
  using assms(1)
proof (induction n arbitrary: s)
  case (Suc n)
  obtain s' where s': "rl_evaluate s (rl_last_refill s + 100000000) = (True, s')" "rl_wf rate burst t0 s'"
      "rl_last_refill s' = rl_last_refill s + 100000000"
    using rl_evaluate_after_interval [OF Suc.prems assms(2,3) refl] by blast
  have ts: "map (\<lambda>i. rl_last_refill s + Suc i * 100000000) [0..<Suc n] =
      (rl_last_refill s + 100000000) # map (\<lambda>i. rl_last_refill s' + Suc i * 100000000) [0..<n]"
    by (simp add: map_upt_Suc s'(3) add.assoc del: upt_Suc)
  show ?case
    unfolding ts fst_admit_all using Suc.IH [OF s'(2)] s'(1) by simp
qed simp

text \<open>At low rates the bucket gives more than the configured
  pace: the refill is rounded up to one token per 100 ms, so for every rate from 1 to 10
  per second a caller that asks every 100 ms is always admitted, which is ten records per
  second even when the configured rate is one.\<close>

theorem rate_limiter_small_rates:
  assumes "0 < rate" and "rate \<le> 10" and "1 \<le> burst"
  shows "rl_tokens_per_refill (rl_new rate burst t0) = 1 \<and>
    fst (admit_all rl_evaluate (rl_new rate burst t0) (map (\<lambda>i. t0 + i * 100000000) [0..<n])) =
      replicate n True"
proof -
  have nz: "rate \<noteq> 0" using assms(1) by auto
  have m: "max (rate div 10) 1 = 1"
    using assms(2) div_le_mono [of "unat rate" 10 10]
    by (intro max_absorb2) (simp add: word_le_nat_alt unat_div)
  let ?s = "rl_new rate burst t0"
  have b: "\<not> rl_tokens ?s < 1000"
    using assms(3) by (simp add: rl_new_def word_less_nat_alt word_le_nat_alt unat_sat_mul64 not_less)
  define s1 where "s1 = snd (rl_evaluate ?s t0)"
  have e: "rl_evaluate ?s t0 = (True, s1)" "rl_last_refill s1 = t0"
    using nz b by (simp_all add: s1_def rl_evaluate_def rl_refill_def Let_def rl_new_def ns_per_ms_def)
  have w: "rl_wf rate burst t0 s1"
    unfolding s1_def by (rule rl_evaluate_wf [OF rl_new_wf [OF nz] nz])
  have "fst (admit_all rl_evaluate ?s (map (\<lambda>i. t0 + i * 100000000) [0..<n])) = replicate n True"
  proof (cases n)
    case (Suc k)
    have ts: "map (\<lambda>i. t0 + i * 100000000) [0..<n] =
        t0 # map (\<lambda>i. rl_last_refill s1 + Suc i * 100000000) [0..<k]"
      by (simp add: Suc map_upt_Suc e(2) del: upt_Suc)
    show ?thesis
      unfolding ts fst_admit_all using rl_all_spaced [OF w nz assms(3), of k] e(1) Suc by simp
  qed simp
  then show ?thesis using assms(1) m by (simp add: rl_new_def)
qed

theorem rate_limiter_small_rates_witness:
  "fst (admit_all rl_evaluate (rl_new 1 1 0) (map (\<lambda>i. 0 + i * 100000000) [0..<10])) = replicate 10 True"
  using rate_limiter_small_rates [of 1 1 0 10] by simp

section \<open>Properties of the drop level\<close>

lemma dl_all_level:
  "admit_all dl_evaluate s ls = (bs, s') \<Longrightarrow>
     bs = map (\<lambda>l. dl_level s \<le> l) ls \<and> dl_min_level s' = dl_min_level s"
proof (induction ls arbitrary: s bs)
  case (Cons l ls)
  obtain b s1 where f: "dl_evaluate s l = (b, s1)" by (cases "dl_evaluate s l")
  with Cons.prems obtain bs1 where r: "admit_all dl_evaluate s1 ls = (bs1, s')" and bs: "bs = b # bs1"
    by (auto split: prod.splits)
  have "b \<longleftrightarrow> dl_level s \<le> l" "dl_min_level s1 = dl_min_level s"
    using f by (auto simp: dl_evaluate_def Let_def split: if_splits)
  then show ?case using Cons.IH [OF r] bs by (simp add: dl_level_def)
qed simp

text \<open>The drop-level policy is exact and fails closed: after the minimum is set, every record
  is kept when its level reaches the minimum and dropped otherwise, both counted; audit
  records are always kept; setting returns the level that was in force; and an undecodable
  stored level keeps audit records only.\<close>

theorem drop_level_exact:
  assumes "dl_set_min_level s l = (old, s1)" and "admit_all dl_evaluate s1 ls = (bs, s2)"
  shows "old = dl_level s \<and> bs = map (\<lambda>x. l \<le> x) ls \<and> dl_level s2 = l \<and>
    dl_allowed s2 = dl_allowed s + of_nat (admitted bs) \<and>
    dl_dropped s2 = dl_dropped s + of_nat (length ls - admitted bs) \<and>
    fst (dl_evaluate s Audit) \<and>
    (6 < dl_min_level s \<longrightarrow> (\<forall>x. fst (dl_evaluate s x) \<longleftrightarrow> x = Audit))"
proof -
  have s1: "s1 = s\<lparr>dl_min_level := level_as_u8 l\<rparr>" "old = dl_level s"
    using assms(1) by (simp_all add: dl_set_min_level_def)
  have "level_from_u8 v = None" if "6 < v" for v :: u8
    using that by (auto simp: level_from_u8_def)
  then have "6 < dl_min_level s \<longrightarrow> (\<forall>x. fst (dl_evaluate s x) \<longleftrightarrow> x = Audit)"
    by (auto simp: dl_evaluate_def dl_level_def Let_def intro: order_antisym)
  then show ?thesis
    using dl_all_level [OF assms(2)] drop_level.kept_counts [OF assms(2)] s1
    by (simp add: dl_level_def dl_evaluate_def Let_def)
qed

theorem drop_level_exact_witness:
  "\<exists>s. admit_all dl_evaluate (snd (dl_set_min_level (dl_new Info) Warn)) [Debug, Error] = ([False, True], s)"
proof -
  obtain old s1 where 1: "dl_set_min_level (dl_new Info) Warn = (old, s1)"
    by (cases "dl_set_min_level (dl_new Info) Warn")
  obtain bs s2 where 2: "admit_all dl_evaluate s1 [Debug, Error] = (bs, s2)"
    by (cases "admit_all dl_evaluate s1 [Debug, Error]")
  have "map (\<lambda>x. Warn \<le> x) [Debug, Error] = [False, True]" by code_simp
  then show ?thesis using drop_level_exact [OF 1 2] 1 2 by auto
qed

end
