(* ===== verification/Signature.thy ===== *)
theory Signature
  imports Log_Record
begin

text \<open>
  The signature engine and the audit chain (core/src/security/signature.rs). Ed25519 and
  SHA-256 are parameters: \<open>ed\<close> carries the derivation of the public key, signing and
  verification, \<open>sha\<close> the digest. What the engine relies on is \<open>ed_correct\<close>, that a signature
  verifies under the key's own public key; nothing here assumes that signatures cannot be
  forged. Reading the system's random source is outside the model: \<open>new\<close> takes the key.
\<close>

record ('sk, 'vk) ed25519 =
  ed_public :: "'sk \<Rightarrow> 'vk"
  ed_sign :: "'sk \<Rightarrow> bytes \<Rightarrow> bytes"
  ed_verify :: "'vk \<Rightarrow> bytes \<Rightarrow> bytes \<Rightarrow> bool"

definition ed_correct :: "('sk, 'vk) ed25519 \<Rightarrow> 'sk \<Rightarrow> bool" where
  "ed_correct ed sk \<longleftrightarrow>
     (\<forall>m. ed_verify ed (ed_public ed sk) m (ed_sign ed sk m) \<and> length (ed_sign ed sk m) = 64)"

record ('sk, 'vk) signature_engine =
  se_signing_key :: 'sk
  se_verifying_key :: 'vk
  se_lsn_counter :: u64

datatype signature_error = InvalidSignature | ChainBroken | LsnRegression | ContentTampered

fun signature_error_text :: "signature_error \<Rightarrow> string" where
  "signature_error_text InvalidSignature = ''Invalid Ed25519 signature''"
| "signature_error_text ChainBroken = ''LSN chain broken: prev_hash mismatch''"
| "signature_error_text LsnRegression = ''LSN regression detected''"
| "signature_error_text ContentTampered = ''Content tampered: content_hash mismatch''"

section \<open>Engine\<close>

definition se_new :: "('sk, 'vk) ed25519 \<Rightarrow> 'sk \<Rightarrow> ('sk, 'vk) signature_engine" where
  "se_new ed sk = \<lparr>se_signing_key = sk, se_verifying_key = ed_public ed sk, se_lsn_counter = 1\<rparr>"

definition se_from_signing_key :: "('sk, 'vk) ed25519 \<Rightarrow> 'sk \<Rightarrow> ('sk, 'vk) signature_engine" where
  "se_from_signing_key ed sk =
     \<lparr>se_signing_key = sk, se_verifying_key = ed_public ed sk, se_lsn_counter = 1\<rparr>"

definition se_current_lsn :: "('sk, 'vk) signature_engine \<Rightarrow> u64" where
  "se_current_lsn e = se_lsn_counter e"

text \<open>The digest \<open>SHA-256(lsn || content_hash || prev_hash)\<close> and the link to the predecessor.\<close>

definition signing_payload :: "(bytes \<Rightarrow> bytes) \<Rightarrow> u64 \<Rightarrow> bytes \<Rightarrow> bytes \<Rightarrow> bytes" where
  "signing_payload sha lsn content_hash prev_hash = sha (le64 lsn @ content_hash @ prev_hash)"

definition build_signing_payload_static :: "(bytes \<Rightarrow> bytes) \<Rightarrow> log_record \<Rightarrow> bytes \<Rightarrow> bytes" where
  "build_signing_payload_static sha r prev_hash =
     signing_payload sha (rec_lsn r) (rec_content_hash r) prev_hash"

definition derive_prev_hash :: "(bytes \<Rightarrow> bytes) \<Rightarrow> bytes \<Rightarrow> u64 \<Rightarrow> bytes" where
  "derive_prev_hash sha content_hash lsn = sha (content_hash @ le64 lsn)"

definition sign_bytes :: "('sk, 'vk) ed25519 \<Rightarrow> ('sk, 'vk) signature_engine \<Rightarrow> bytes \<Rightarrow> bytes" where
  "sign_bytes ed e data = ed_sign ed (se_signing_key e) data"

definition sign_record ::
  "(bytes \<Rightarrow> bytes) \<Rightarrow> ('sk, 'vk) ed25519 \<Rightarrow> ('sk, 'vk) signature_engine \<Rightarrow> log_record \<Rightarrow> bytes \<Rightarrow>
     bytes \<times> log_record \<times> ('sk, 'vk) signature_engine" where
  "sign_record sha ed e r prev_hash =
     (let lsn = se_lsn_counter e;
          r1 = compute_content_hash sha (r\<lparr>rec_lsn := lsn\<rparr>)
      in (ed_sign ed (se_signing_key e) (build_signing_payload_static sha r1 prev_hash), r1,
          e\<lparr>se_lsn_counter := lsn + 1\<rparr>))"

definition verify_record ::
  "(bytes \<Rightarrow> bytes) \<Rightarrow> ('sk, 'vk) ed25519 \<Rightarrow> 'vk \<Rightarrow> log_record \<Rightarrow> bytes \<Rightarrow> bytes \<Rightarrow>
     signature_error + unit" where
  "verify_record sha ed vk r sig prev_hash =
     (if compute_content_hash_from sha r \<noteq> rec_content_hash r then Inl ContentTampered
      else if ed_verify ed vk (build_signing_payload_static sha r prev_hash) sig then Inr ()
      else Inl InvalidSignature)"

definition verify_chain_link :: "log_record \<Rightarrow> log_record \<Rightarrow> signature_error + unit" where
  "verify_chain_link prev next =
     (if rec_lsn next \<le> rec_lsn prev then Inl LsnRegression else Inr ())"

definition record_chain_hash :: "(bytes \<Rightarrow> bytes) \<Rightarrow> u64 \<Rightarrow> bytes \<Rightarrow> bytes" where
  "record_chain_hash sha lsn sig = sha (le64 lsn @ sig)"

section \<open>Lemmas\<close>

lemma hash_input_content_hash [simp]:
  "rec_hash_input (r\<lparr>rec_content_hash := h\<rparr>) = rec_hash_input r"
  by (simp add: rec_hash_input_def)

lemma compute_content_hash_fields [simp]:
  "rec_lsn (compute_content_hash sha r) = rec_lsn r"
  "rec_level (compute_content_hash sha r) = rec_level r"
  "rec_flags (compute_content_hash sha r) = rec_flags r"
  "rec_message (compute_content_hash sha r) = rec_message r"
  "rec_content_hash (compute_content_hash sha r) = sha (rec_hash_input r)"
  "rec_hash_input (compute_content_hash sha r) = rec_hash_input r"
  by (simp_all add: compute_content_hash_def compute_content_hash_from_def)

lemma signed_record_verifies:
  assumes "ed_correct ed (se_signing_key e)"
    and "se_verifying_key e = ed_public ed (se_signing_key e)"
    and "sign_record sha ed e r prev = (sig, r', e')"
  shows "verify_record sha ed (se_verifying_key e) r' sig prev = Inr ()"
  using assms
  by (auto simp: sign_record_def verify_record_def ed_correct_def compute_content_hash_from_def Let_def)

text \<open>
  A list of signed entries (LSN, content hash) and the digests that were signed: each digest
  links to the entry before it, the first to the genesis state.
\<close>

definition GENESIS_HASH :: bytes where "GENESIS_HASH = replicate 32 0"

fun chain_digests :: "(bytes \<Rightarrow> bytes) \<Rightarrow> bytes \<Rightarrow> u64 \<Rightarrow> (u64 \<times> bytes) list \<Rightarrow> bytes list" where
  "chain_digests sha ph pl [] = []"
| "chain_digests sha ph pl ((l, h) # es) =
     signing_payload sha l h (derive_prev_hash sha ph pl) # chain_digests sha h l es"

lemma chain_digests_length [simp]: "length (chain_digests sha ph pl es) = length es"
  by (induction es arbitrary: ph pl) auto

lemma chain_digests_nth:
  "i < length es \<Longrightarrow>
     chain_digests sha ph pl es ! i =
       (case es ! i of (l, h) \<Rightarrow>
          signing_payload sha l h
            (if i = 0 then derive_prev_hash sha ph pl
             else derive_prev_hash sha (snd (es ! (i - 1))) (fst (es ! (i - 1)))))"
proof (induction es arbitrary: ph pl i)
  case Nil
  then show ?case by simp
next
  case (Cons e es)
  obtain l h where e: "e = (l, h)" by (cases e)
  show ?case
  proof (cases i)
    case (Suc j)
    with Cons.IH [of j h l] Cons.prems show ?thesis
      by (cases j) (auto simp: e split: prod.split)
  qed (simp add: e)
qed

lemma le64_append_eq: "le64 a @ x = le64 b @ y \<longleftrightarrow> a = b \<and> x = y"
  by simp

text \<open>The inputs of the digest that a chain over some entries can have.\<close>

definition chain_links :: "(u64 \<times> bytes) set \<Rightarrow> (u64 \<times> bytes) set" where
  "chain_links E = insert (0, GENESIS_HASH) E"

definition chain_inputs :: "(bytes \<Rightarrow> bytes) \<Rightarrow> (u64 \<times> bytes) set \<Rightarrow> bytes set" where
  "chain_inputs sha E =
     (\<lambda>(l, h). h @ le64 l) ` chain_links E \<union>
     {le64 l @ h @ derive_prev_hash sha h' l' | l h l' h'. (l, h) \<in> E \<and> (l', h') \<in> chain_links E}"

definition pred_link :: "(u64 \<times> bytes) list \<Rightarrow> nat \<Rightarrow> u64 \<times> bytes" where
  "pred_link es i = (if i = 0 then (0, GENESIS_HASH) else es ! (i - 1))"

lemma digest_at:
  "i < length es \<Longrightarrow>
     chain_digests sha GENESIS_HASH 0 es ! i =
       sha (le64 (fst (es ! i)) @ snd (es ! i) @
         derive_prev_hash sha (snd (pred_link es i)) (fst (pred_link es i)))"
  by (auto simp: chain_digests_nth pred_link_def signing_payload_def split: prod.split)

lemma pred_link_in: "i < length es \<Longrightarrow> pred_link es i \<in> chain_links (set es)"
  by (cases i) (auto simp: pred_link_def chain_links_def intro: nth_mem)

text \<open>
  If every digest of one chain is a digest of another and SHA-256 has no collision among their
  inputs, the first chain is a prefix of the second.
\<close>

lemma chain_prefix:
  assumes inj: "inj_on sha (chain_inputs sha (set es \<union> set fs))"
    and len: "\<forall>e \<in> set es \<union> set fs. length (snd e) = 32"
    and pos: "distinct (map fst fs)" "0 \<notin> fst ` set fs"
    and sub: "set (chain_digests sha GENESIS_HASH 0 es) \<subseteq> set (chain_digests sha GENESIS_HASH 0 fs)"
  shows "es = take (length es) fs"
proof -
  let ?E = "set es \<union> set fs"
  have mono: "chain_links (set xs) \<subseteq> chain_links ?E" if "xs = es \<or> xs = fs" for xs
    using that by (auto simp: chain_links_def)
  have in1: "snd p @ le64 (fst p) \<in> chain_inputs sha ?E" if "p \<in> chain_links ?E" for p
    using that by (force simp: chain_inputs_def)
  have in2: "le64 (fst e) @ snd e @ derive_prev_hash sha (snd p) (fst p) \<in> chain_inputs sha ?E"
    if "e \<in> ?E" "p \<in> chain_links ?E" for e p
    using that by (auto simp: chain_inputs_def) (metis prod.collapse)+
  have len32: "length (snd p) = 32" if "p \<in> chain_links ?E" for p
    using that len by (auto simp: chain_links_def GENESIS_HASH_def)
  have pred_eq: "p = q" if "p \<in> chain_links ?E" "q \<in> chain_links ?E"
    "derive_prev_hash sha (snd p) (fst p) = derive_prev_hash sha (snd q) (fst q)" for p q
  proof -
    have "snd p @ le64 (fst p) = snd q @ le64 (fst q)"
      using that inj_onD [OF inj _ in1 in1] by (simp add: derive_prev_hash_def)
    with len32 [OF that(1)] len32 [OF that(2)] show ?thesis
      by (simp add: prod_eq_iff)
  qed
  have match: "\<exists>j < length fs. es ! i = fs ! j \<and> pred_link es i = pred_link fs j"
    if i: "i < length es" for i
  proof -
    have "chain_digests sha GENESIS_HASH 0 es ! i \<in> set (chain_digests sha GENESIS_HASH 0 fs)"
      using sub i by (metis chain_digests_length nth_mem subsetD)
    then obtain j where j: "j < length fs"
      "chain_digests sha GENESIS_HASH 0 es ! i = chain_digests sha GENESIS_HASH 0 fs ! j"
      by (metis chain_digests_length in_set_conv_nth)
    have e: "es ! i \<in> ?E" "fs ! j \<in> ?E" using i j(1) by simp_all
    have p: "pred_link es i \<in> chain_links ?E" "pred_link fs j \<in> chain_links ?E"
      using pred_link_in [OF i] pred_link_in [OF j(1)] mono by blast+
    have eq: "le64 (fst (es ! i)) @ snd (es ! i) @
        derive_prev_hash sha (snd (pred_link es i)) (fst (pred_link es i)) =
      le64 (fst (fs ! j)) @ snd (fs ! j) @
        derive_prev_hash sha (snd (pred_link fs j)) (fst (pred_link fs j))"
      using j(2) inj_onD [OF inj _ in2 [OF e(1) p(1)] in2 [OF e(2) p(2)]]
      unfolding digest_at [OF i] digest_at [OF j(1)] by blast
    have "length (snd (es ! i)) = 32" "length (snd (fs ! j)) = 32" using e len by blast+
    with eq have "es ! i = fs ! j"
      "derive_prev_hash sha (snd (pred_link es i)) (fst (pred_link es i)) =
       derive_prev_hash sha (snd (pred_link fs j)) (fst (pred_link fs j))"
      by (simp_all add: le64_append_eq prod_eq_iff)
    with pred_eq [OF p] j(1) show ?thesis by blast
  qed
  have at: "i < length fs \<and> es ! i = fs ! i" if "i < length es" for i
    using that
  proof (induction i)
    case 0
    from match [OF 0] obtain j where j: "j < length fs" "es ! 0 = fs ! j"
      "pred_link es 0 = pred_link fs j" by blast
    have "j = 0"
    proof (rule ccontr)
      assume "j \<noteq> 0"
      then have "fs ! (j - 1) = (0, GENESIS_HASH)" using j(3) by (simp add: pred_link_def)
      moreover have "fs ! (j - 1) \<in> set fs" using j(1) by simp
      ultimately show False using pos(2) by force
    qed
    with j show ?case by simp
  next
    case (Suc i)
    then have IH: "i < length fs" "es ! i = fs ! i" by simp_all
    from match [OF Suc.prems] obtain j where j: "j < length fs" "es ! Suc i = fs ! j"
      "pred_link es (Suc i) = pred_link fs j" by blast
    have "fst (fs ! i) \<noteq> 0" using pos(2) IH(1) by (metis image_eqI nth_mem)
    with j(3) IH have "j \<noteq> 0" and "fs ! (j - 1) = fs ! i"
      by (auto simp: pred_link_def split: if_splits)
    moreover have "j - 1 < length fs" using j(1) by simp
    ultimately have "j - 1 = i"
      using pos(1) IH(1) by (metis distinct_map nth_eq_iff_index_eq)
    with \<open>j \<noteq> 0\<close> j show ?case by auto
  qed
  then have "length es \<le> length fs" by (meson linorder_not_le order_less_irrefl)
  with at show ?thesis by (intro nth_equalityI) auto
qed

end
