(* ===== verification/Stages.thy ===== *)
theory Stages
  imports Ffi Policy Signature Secret_Detector
begin

text \<open>
  The stages of the normal pipeline (core/src/pipeline/stages.rs, with the dispatch table of
  core/src/plugin/vtable.rs). A plugin is a parameter: a function of its own state, the vendor
  tags and the record to its return code and the writes it makes through the host accessor,
  which the model applies as the accessor does; a filter or formatter sees the record and
  writes nothing. The clock is an argument. \<open>None\<close> is a panic (of the secret detector).
\<close>

section \<open>Context\<close>

datatype stage_action = ActContinue | ActDrop | ActRateLimited | ActAbort

datatype stage_index =
  PreFilter | FilterStage | FieldProvider | Assembly | Processing | Formatting | SinkStage

record stage_stats =
  ss_passed :: u64
  ss_dropped :: u64
  ss_errors :: u64

type_synonym 'w filter_entry = "'w \<Rightarrow> log_record \<Rightarrow> int \<times> 'w"
type_synonym 'w writer_entry =
  "'w \<Rightarrow> vendor_state \<Rightarrow> log_record \<Rightarrow> int \<times> (bytes \<times> bytes) list \<times> 'w"
type_synonym 'w formatter_entry = "'w \<Rightarrow> log_record \<Rightarrow> nat \<Rightarrow> int \<times> bytes \<times> 'w"

record 'w plugin_dispatch =
  pd_filters :: "'w filter_entry list"
  pd_processors :: "'w writer_entry list"
  pd_formatters :: "'w formatter_entry list"
  pd_field_providers :: "'w writer_entry list"

record ('w, 'sk, 'vk) pipeline_context =
  cx_engine :: "('sk, 'vk) signature_engine"
  cx_limiter :: rate_limiter
  cx_drop :: drop_level_policy
  cx_enable_signature :: bool
  cx_stats :: "stage_index \<Rightarrow> stage_stats"
  cx_lsn :: u64
  cx_prev_hash :: bytes
  cx_prev_lsn :: u64
  cx_last_signature :: "(u64 \<times> bytes \<times> bytes) option"
  cx_format_kind :: "string option"
  cx_dispatch :: "'w plugin_dispatch"
  cx_world :: 'w
  cx_vendor :: vendor_state

definition zero_stats :: stage_stats where
  "zero_stats = \<lparr>ss_passed = 0, ss_dropped = 0, ss_errors = 0\<rparr>"

text \<open>A new context per drain cycle borrows the state that survives the cycle.\<close>

definition new_cycle :: "('w, 'sk, 'vk) pipeline_context \<Rightarrow> ('w, 'sk, 'vk) pipeline_context" where
  "new_cycle c =
     c\<lparr>cx_stats := (\<lambda>_. zero_stats), cx_last_signature := None, cx_format_kind := Some ''plain''\<rparr>"

definition take_last_signature ::
  "('w, 'sk, 'vk) pipeline_context \<Rightarrow> (u64 \<times> bytes \<times> bytes) option \<times> ('w, 'sk, 'vk) pipeline_context" where
  "take_last_signature c = (cx_last_signature c, c\<lparr>cx_last_signature := None\<rparr>)"

fun count_action :: "stage_action \<Rightarrow> stage_stats \<Rightarrow> stage_stats" where
  "count_action ActContinue s = s\<lparr>ss_passed := ss_passed s + 1\<rparr>"
| "count_action ActDrop s = s\<lparr>ss_dropped := ss_dropped s + 1\<rparr>"
| "count_action ActRateLimited s = s\<lparr>ss_dropped := ss_dropped s + 1\<rparr>"
| "count_action ActAbort s = s\<lparr>ss_errors := ss_errors s + 1\<rparr>"

definition record_stage ::
  "stage_index \<Rightarrow> stage_action \<Rightarrow> ('w, 'sk, 'vk) pipeline_context \<Rightarrow> ('w, 'sk, 'vk) pipeline_context" where
  "record_stage i a c = c\<lparr>cx_stats := (cx_stats c)(i := count_action a (cx_stats c i))\<rparr>"

section \<open>Plugins\<close>

text \<open>The first nonzero code of the filters, or zero.\<close>

fun run_filters :: "'w filter_entry list \<Rightarrow> 'w \<Rightarrow> log_record \<Rightarrow> int \<times> 'w" where
  "run_filters [] w r = (0, w)"
| "run_filters (f # fs) w r =
     (case f w r of (code, w') \<Rightarrow> if code \<noteq> 0 then (code, w') else run_filters fs w' r)"

fun plugin_writes :: "vendor_state \<Rightarrow> log_record \<Rightarrow> (bytes \<times> bytes) list \<Rightarrow> log_record \<times> vendor_state" where
  "plugin_writes vs r [] = (r, vs)"
| "plugin_writes vs r ((name, v) # ws) =
     (case host_field_set de_new vs r name v of
        (_, Some r', vs', _) \<Rightarrow> plugin_writes vs' r' ws
      | (_, None, vs', _) \<Rightarrow> plugin_writes vs' r ws)"

text \<open>A negative code of a field provider is only logged.\<close>

fun run_providers ::
  "'w writer_entry list \<Rightarrow> 'w \<Rightarrow> vendor_state \<Rightarrow> log_record \<Rightarrow> log_record \<times> vendor_state \<times> 'w" where
  "run_providers [] w vs r = (r, vs, w)"
| "run_providers (p # ps) w vs r =
     (case p w vs r of (code, ws, w') \<Rightarrow>
        (case plugin_writes vs r ws of (r', vs') \<Rightarrow> run_providers ps w' vs' r'))"

fun run_processors ::
  "'w writer_entry list \<Rightarrow> 'w \<Rightarrow> vendor_state \<Rightarrow> log_record \<Rightarrow> bool \<times> log_record \<times> vendor_state \<times> 'w" where
  "run_processors [] w vs r = (True, r, vs, w)"
| "run_processors (p # ps) w vs r =
     (case p w vs r of (code, ws, w') \<Rightarrow>
        (case plugin_writes vs r ws of (r', vs') \<Rightarrow>
           if code < 0 then (False, r', vs', w') else run_processors ps w' vs' r'))"

section \<open>Stages\<close>

definition prefilter ::
  "nat \<Rightarrow> log_record \<Rightarrow> ('w, 'sk, 'vk) pipeline_context \<Rightarrow> bool \<times> ('w, 'sk, 'vk) pipeline_context" where
  "prefilter now r c =
     (case dl_evaluate (cx_drop c) (rec_level r) of (ok, d) \<Rightarrow>
        let c1 = c\<lparr>cx_drop := d\<rparr> in
        if \<not> ok then (False, record_stage PreFilter ActDrop c1)
        else
          (case rl_evaluate (cx_limiter c1) now of (ok, l) \<Rightarrow>
             let c2 = c1\<lparr>cx_limiter := l\<rparr> in
             if \<not> ok then (False, record_stage PreFilter ActRateLimited c2)
             else (True, record_stage PreFilter ActContinue c2)))"

definition filter_stage ::
  "log_record \<Rightarrow> ('w, 'sk, 'vk) pipeline_context \<Rightarrow> bool \<times> ('w, 'sk, 'vk) pipeline_context" where
  "filter_stage r c =
     (case run_filters (pd_filters (cx_dispatch c)) (cx_world c) r of (code, w) \<Rightarrow>
        let c1 = c\<lparr>cx_world := w\<rparr> in
        if code < 0 then (False, record_stage FilterStage ActAbort c1)
        else if 0 < code then (False, record_stage FilterStage ActDrop c1)
        else (True, record_stage FilterStage ActContinue c1))"

definition provider_stage ::
  "log_record \<Rightarrow> ('w, 'sk, 'vk) pipeline_context \<Rightarrow> log_record \<times> ('w, 'sk, 'vk) pipeline_context" where
  "provider_stage r c =
     (case run_providers (pd_field_providers (cx_dispatch c)) (cx_world c) (cx_vendor c) r of
        (r', vs, w) \<Rightarrow>
          (r', record_stage FieldProvider ActContinue (c\<lparr>cx_world := w, cx_vendor := vs\<rparr>)))"

definition assembly_stage ::
  "log_record \<Rightarrow> ('w, 'sk, 'vk) pipeline_context \<Rightarrow> log_record \<times> ('w, 'sk, 'vk) pipeline_context" where
  "assembly_stage r c =
     (let r1 = r\<lparr>rec_lsn := cx_lsn c\<rparr>;
          r2 = (if rec_level r1 = Audit then
                  let r' = r1\<lparr>rec_flags := rec_flags r1 OR RECORD_FLAG_AUDIT\<rparr> in
                  if cx_enable_signature c then r'\<lparr>rec_flags := rec_flags r' OR RECORD_FLAG_SIGNED\<rparr>
                  else r'
                else r1)
      in (r2, record_stage Assembly ActContinue (c\<lparr>cx_lsn := cx_lsn c + 1\<rparr>)))"

definition detect_secrets :: "log_record \<Rightarrow> log_record option" where
  "detect_secrets r =
     (case rs_as_utf8 (rec_message r) of
        None \<Rightarrow> Some r
      | Some message \<Rightarrow>
          (case scan sd_new message of
             Some (Inr (d, res)) \<Rightarrow>
               Some (if dr_should_block res then
                       r\<lparr>rec_message := rs_set (rec_message r) (str_bytes ''[SECRET-BLOCKED]'')\<rparr>
                     else if dr_detected res then
                       r\<lparr>rec_message := rs_set (rec_message r) (dr_message res)\<rparr>
                     else r)
           | _ \<Rightarrow> None))"

definition sign_stage ::
  "(bytes \<Rightarrow> bytes) \<Rightarrow> ('sk, 'vk) ed25519 \<Rightarrow> u64 \<Rightarrow> log_record \<Rightarrow> ('w, 'sk, 'vk) pipeline_context \<Rightarrow>
     log_record \<times> ('w, 'sk, 'vk) pipeline_context" where
  "sign_stage sha ed lsn r c =
     (if rec_level r = Audit then
        let r1 = compute_content_hash sha r in
        if cx_enable_signature c then
          let prev_hash = sha (cx_prev_hash c @ le64 (cx_prev_lsn c));
              digest = build_signing_payload_static sha r1 prev_hash;
              sig = sign_bytes ed (cx_engine c) digest
          in (r1, c\<lparr>cx_last_signature := Some (lsn, rec_content_hash r1, sig),
                    cx_prev_hash := rec_content_hash r1, cx_prev_lsn := lsn\<rparr>)
        else (r1, c)
      else (r, c))"

definition run_pipeline ::
  "(bytes \<Rightarrow> bytes) \<Rightarrow> ('sk, 'vk) ed25519 \<Rightarrow> nat \<Rightarrow> log_record \<Rightarrow> ('w, 'sk, 'vk) pipeline_context \<Rightarrow>
     (bool \<times> log_record \<times> ('w, 'sk, 'vk) pipeline_context) option" where
  "run_pipeline sha ed now r c0 =
     (case prefilter now r c0 of
        (False, c) \<Rightarrow> Some (False, r, c)
      | (True, c1) \<Rightarrow>
     (case filter_stage r c1 of
        (False, c) \<Rightarrow> Some (False, r, c)
      | (True, c2) \<Rightarrow>
     (case provider_stage r c2 of (r3, c3) \<Rightarrow>
     (case assembly_stage r3 c3 of (r4, c4) \<Rightarrow>
     (case detect_secrets r4 of
        None \<Rightarrow> None
      | Some r5 \<Rightarrow>
     (case run_processors (pd_processors (cx_dispatch c4)) (cx_world c4) (cx_vendor c4) r5 of
        (False, r6, vs, w) \<Rightarrow>
          Some (False, r6, record_stage Processing ActAbort (c4\<lparr>cx_world := w, cx_vendor := vs\<rparr>))
      | (True, r6, vs, w) \<Rightarrow>
     (case sign_stage sha ed (cx_lsn c3) r6 (c4\<lparr>cx_world := w, cx_vendor := vs\<rparr>) of (r7, c7) \<Rightarrow>
        Some (True, r7,
          record_stage SinkStage ActContinue (record_stage Formatting ActContinue
            (record_stage Processing ActContinue c7))))))))))"

section \<open>What plugins can do\<close>

definition writes_fit :: "(bytes \<times> bytes) list \<Rightarrow> bool" where
  "writes_fit ws \<longleftrightarrow> (\<forall>(name, v) \<in> set ws. fits_usize v)"

definition writer_fits :: "'w writer_entry \<Rightarrow> bool" where
  "writer_fits p \<longleftrightarrow> (\<forall>w vs r. writes_fit (fst (snd (p w vs r))))"

definition dispatch_fits :: "'w plugin_dispatch \<Rightarrow> bool" where
  "dispatch_fits d \<longleftrightarrow>
     list_all writer_fits (pd_field_providers d) \<and> list_all writer_fits (pd_processors d)"

text \<open>The part of a record that writes through the accessor leave alone.\<close>

definition same_core :: "log_record \<Rightarrow> log_record \<Rightarrow> bool" where
  "same_core r r' \<longleftrightarrow> rec_fixed r' = rec_fixed r \<and> (\<forall>t < 64. rec_map r' t = rec_map r t)"

lemma same_core_refl [simp]: "same_core r r"
  by (simp add: same_core_def)

lemma same_core_trans: "same_core a b \<Longrightarrow> same_core b c \<Longrightarrow> same_core a c"
  by (simp add: same_core_def)

lemma same_coreD:
  assumes "same_core r r'"
  shows "rec_timestamp r' = rec_timestamp r" "rec_level r' = rec_level r"
    "rec_process_id r' = rec_process_id r" "rec_thread_id r' = rec_thread_id r"
    "rec_lsn r' = rec_lsn r" "rec_flags r' = rec_flags r" "rec_pool_index r' = rec_pool_index r"
    "rec_message r' = rec_message r" "rec_content_hash r' = rec_content_hash r"
    "t < 64 \<Longrightarrow> rec_map r' t = rec_map r t"
  using assms by (auto simp: same_core_def rec_fixed_def)

lemma plugin_writes_safe:
  assumes "rec_wf r" and "vendor_core_free vs" and "writes_fit ws"
    and "plugin_writes vs r ws = (r', vs')"
  shows "same_core r r' \<and> rec_wf r' \<and> vendor_core_free vs'"
  using assms
proof (induction ws arbitrary: vs r)
  case (Cons x ws)
  obtain name v where x: "x = (name, v)" by fastforce
  with Cons.prems(3) have fits: "fits_usize v" "writes_fit ws" by (auto simp: writes_fit_def)
  obtain rc rec' vs1 e where f: "host_field_set de_new vs r name v = (rc, rec', vs1, e)"
    by (metis prod_cases4)
  from dologger_field_set_safe [OF Cons.prems(1,2) fits(1) f [unfolded host_field_set_def]]
  obtain r1 where r1: "rec' = Some r1" "same_core r r1" "rec_wf r1" "vendor_core_free vs1"
    unfolding same_core_def by metis
  have "plugin_writes vs1 r1 ws = (r', vs')" using Cons.prems(4) f r1(1) by (simp add: x)
  from Cons.IH [OF r1(3,4) fits(2) this] r1(2) same_core_trans show ?case by blast
qed simp

lemma run_providers_safe:
  assumes "rec_wf r" and "vendor_core_free vs" and "list_all writer_fits ps"
    and "run_providers ps w vs r = (r', vs', w')"
  shows "same_core r r' \<and> rec_wf r' \<and> vendor_core_free vs'"
  using assms
proof (induction ps arbitrary: w vs r)
  case (Cons p ps)
  obtain code ws w1 where p: "p w vs r = (code, ws, w1)" by (metis prod_cases3)
  obtain r1 vs1 where pw: "plugin_writes vs r ws = (r1, vs1)" by fastforce
  have "writes_fit ws" using Cons.prems(3) p by (metis fst_conv snd_conv writer_fits_def list.pred_inject(2))
  from plugin_writes_safe [OF Cons.prems(1,2) this pw]
  have s: "same_core r r1" "rec_wf r1" "vendor_core_free vs1" by simp_all
  have "run_providers ps w1 vs1 r1 = (r', vs', w')" using Cons.prems(4) p pw by simp
  with Cons.IH [OF s(2,3), of w1] Cons.prems(3) s(1) same_core_trans show ?case by auto
qed simp

lemma run_processors_safe:
  assumes "rec_wf r" and "vendor_core_free vs" and "list_all writer_fits ps"
    and "run_processors ps w vs r = (ok, r', vs', w')"
  shows "same_core r r' \<and> rec_wf r' \<and> vendor_core_free vs'"
  using assms
proof (induction ps arbitrary: w vs r)
  case (Cons p ps)
  obtain code ws w1 where p: "p w vs r = (code, ws, w1)" by (metis prod_cases3)
  obtain r1 vs1 where pw: "plugin_writes vs r ws = (r1, vs1)" by fastforce
  have "writes_fit ws" using Cons.prems(3) p by (metis fst_conv snd_conv writer_fits_def list.pred_inject(2))
  from plugin_writes_safe [OF Cons.prems(1,2) this pw]
  have s: "same_core r r1" "rec_wf r1" "vendor_core_free vs1" by simp_all
  show ?case
  proof (cases "code < 0")
    case True
    with Cons.prems(4) p pw s show ?thesis by auto
  next
    case False
    then have "run_processors ps w1 vs1 r1 = (ok, r', vs', w')" using Cons.prems(4) p pw by simp
    with Cons.IH [OF s(2,3), of w1] Cons.prems(3) s(1) same_core_trans show ?thesis by auto
  qed
qed simp

section \<open>One record\<close>

lemma record_stage_frame [simp]:
  "cx_engine (record_stage i a c) = cx_engine c" "cx_lsn (record_stage i a c) = cx_lsn c"
  "cx_prev_hash (record_stage i a c) = cx_prev_hash c" "cx_prev_lsn (record_stage i a c) = cx_prev_lsn c"
  "cx_last_signature (record_stage i a c) = cx_last_signature c"
  "cx_enable_signature (record_stage i a c) = cx_enable_signature c"
  "cx_dispatch (record_stage i a c) = cx_dispatch c" "cx_vendor (record_stage i a c) = cx_vendor c"
  "cx_world (record_stage i a c) = cx_world c" "cx_drop (record_stage i a c) = cx_drop c"
  "cx_limiter (record_stage i a c) = cx_limiter c"
  by (simp_all add: record_stage_def)

text \<open>The chain and dispatch part of the context, and what the gates keep of it.\<close>

definition chain_part ::
  "('w, 'sk, 'vk) pipeline_context \<Rightarrow>
     ('sk, 'vk) signature_engine \<times> bool \<times> bytes \<times> u64 \<times> (u64 \<times> bytes \<times> bytes) option \<times> 'w plugin_dispatch" where
  "chain_part c =
     (cx_engine c, cx_enable_signature c, cx_prev_hash c, cx_prev_lsn c, cx_last_signature c,
      cx_dispatch c)"

lemma prefilter_frame:
  "prefilter now r c = (ok, c') \<Longrightarrow>
     chain_part c' = chain_part c \<and> cx_lsn c' = cx_lsn c \<and> cx_vendor c' = cx_vendor c"
  by (auto simp: prefilter_def chain_part_def Let_def split: prod.splits if_splits)

lemma filter_stage_frame:
  "filter_stage r c = (ok, c') \<Longrightarrow>
     chain_part c' = chain_part c \<and> cx_lsn c' = cx_lsn c \<and> cx_vendor c' = cx_vendor c"
  by (auto simp: filter_stage_def chain_part_def Let_def split: prod.splits if_splits)

lemma provider_stage_safe:
  assumes "rec_wf r" and "vendor_core_free (cx_vendor c)" and "dispatch_fits (cx_dispatch c)"
    and "provider_stage r c = (r', c')"
  shows "same_core r r' \<and> rec_wf r' \<and> vendor_core_free (cx_vendor c') \<and> chain_part c' = chain_part c \<and>
    cx_lsn c' = cx_lsn c"
  using assms run_providers_safe [OF assms(1,2), of "pd_field_providers (cx_dispatch c)" "cx_world c"]
  by (auto simp: provider_stage_def dispatch_fits_def chain_part_def split: prod.splits)

lemma assembly_stage_eq:
  assumes "assembly_stage r c = (r', c')"
  shows "r' = r\<lparr>rec_lsn := cx_lsn c, rec_flags := rec_flags r OR
      (if rec_level r = Audit then RECORD_FLAG_AUDIT OR
         (if cx_enable_signature c then RECORD_FLAG_SIGNED else 0) else 0)\<rparr>"
    and "chain_part c' = chain_part c" "cx_lsn c' = cx_lsn c + 1" "cx_vendor c' = cx_vendor c"
  using assms by (auto simp: assembly_stage_def chain_part_def Let_def ac_simps)

lemma rec_wf_lsn_flags [simp]: "rec_wf (r\<lparr>rec_lsn := a, rec_flags := b\<rparr>) = rec_wf r"
  by (simp add: rec_wf_def rec_slots_def)

lemma rec_map_lsn_flags [simp]: "rec_map (r\<lparr>rec_lsn := a, rec_flags := b\<rparr>) = rec_map r"
  by (simp add: rec_map_def rec_slots_def)

text \<open>The detector changes the message only, and depends on nothing else.\<close>

definition detected_message :: "record_string \<Rightarrow> record_string option" where
  "detected_message m = map_option rec_message (detect_secrets ((rec_new 0)\<lparr>rec_message := m\<rparr>))"

lemma detect_secrets_eq:
  "detect_secrets r = map_option (\<lambda>m. r\<lparr>rec_message := m\<rparr>) (detected_message (rec_message r))"
  by (auto simp: detect_secrets_def detected_message_def split: option.splits sum.splits)

lemma detect_secrets_wf: "detect_secrets r = Some r' \<Longrightarrow> rec_wf r \<Longrightarrow> rec_wf r'"
  by (auto simp: detect_secrets_def split: option.splits sum.splits if_splits)

lemma sign_stage_eq:
  assumes "sign_stage sha ed lsn r c = (r', c')"
  shows "r' = (if rec_level r = Audit then compute_content_hash sha r else r)"
    and "rec_level r = Audit \<and> cx_enable_signature c \<Longrightarrow>
      cx_last_signature c' = Some (lsn, rec_content_hash r', sign_bytes ed (cx_engine c)
        (signing_payload sha (rec_lsn r) (rec_content_hash r')
           (derive_prev_hash sha (cx_prev_hash c) (cx_prev_lsn c)))) \<and>
      cx_prev_hash c' = rec_content_hash r' \<and> cx_prev_lsn c' = lsn"
    and "\<not> (rec_level r = Audit \<and> cx_enable_signature c) \<Longrightarrow> chain_part c' = chain_part c"
    and "cx_lsn c' = cx_lsn c" "cx_vendor c' = cx_vendor c" "cx_engine c' = cx_engine c"
    "cx_enable_signature c' = cx_enable_signature c" "cx_dispatch c' = cx_dispatch c"
  using assms
  by (auto simp: sign_stage_def Let_def chain_part_def build_signing_payload_static_def
      derive_prev_hash_def split: if_splits)

lemma compute_content_hash_wf:
  "rec_wf r \<Longrightarrow> length (sha (rec_hash_input r)) = 32 \<Longrightarrow> rec_wf (compute_content_hash sha r)"
  by (simp add: rec_wf_def rec_slots_def compute_content_hash_def compute_content_hash_from_def)

lemma same_core_updates:
  assumes "same_core a b"
  shows "same_core (a\<lparr>rec_lsn := x, rec_flags := y\<rparr>) (b\<lparr>rec_lsn := x, rec_flags := y\<rparr>)"
    and "same_core (a\<lparr>rec_message := m\<rparr>) (b\<lparr>rec_message := m\<rparr>)"
  using assms by (simp_all add: same_core_def rec_fixed_def)

text \<open>The state a run starts and ends with.\<close>

definition context_ok :: "('w, 'sk, 'vk) pipeline_context \<Rightarrow> bool" where
  "context_ok c \<longleftrightarrow> vendor_core_free (cx_vendor c) \<and> dispatch_fits (cx_dispatch c)"

definition signs :: "('w, 'sk, 'vk) pipeline_context \<Rightarrow> log_record \<Rightarrow> bool" where
  "signs c r \<longleftrightarrow> rec_level r = Audit \<and> cx_enable_signature c"

text \<open>The outcome of one pass, by cases: not taken past the filters, aborted by a processor, or
  accepted.\<close>

lemma run_pipeline_cases:
  assumes "rec_wf r" and "context_ok c" and "run_pipeline sha ed now r c = Some (ok, r', c')"
  obtains (refused) "\<not> ok" "r' = r" "cx_lsn c' = cx_lsn c" "chain_part c' = chain_part c" "context_ok c'"
  | (aborted) "\<not> ok" "cx_lsn c' = cx_lsn c + 1" "chain_part c' = chain_part c" "context_ok c'"
      "rec_wf r'" "rec_level r' = rec_level r" "rec_pool_index r' = rec_pool_index r"
  | (accepted) r4 r6 where "ok" "cx_lsn c' = cx_lsn c + 1" "context_ok c'" "rec_wf r6"
      "r4 = r\<lparr>rec_lsn := cx_lsn c, rec_flags := rec_flags r OR
        (if rec_level r = Audit then RECORD_FLAG_AUDIT OR
           (if cx_enable_signature c then RECORD_FLAG_SIGNED else 0) else 0)\<rparr>"
      "\<exists>m. detected_message (rec_message r) = Some m \<and> same_core (r4\<lparr>rec_message := m\<rparr>) r6"
      "r' = (if rec_level r = Audit then compute_content_hash sha r6 else r6)"
      "signs c r \<Longrightarrow> cx_last_signature c' = Some (cx_lsn c, rec_content_hash r',
        sign_bytes ed (cx_engine c) (signing_payload sha (cx_lsn c) (rec_content_hash r')
           (derive_prev_hash sha (cx_prev_hash c) (cx_prev_lsn c)))) \<and>
        cx_prev_hash c' = rec_content_hash r' \<and> cx_prev_lsn c' = cx_lsn c"
      "\<not> signs c r \<Longrightarrow> chain_part c' = chain_part c"
      "cx_engine c' = cx_engine c" "cx_enable_signature c' = cx_enable_signature c"
proof -
  obtain ok1 c1 where p: "prefilter now r c = (ok1, c1)" by fastforce
  note fr1 = prefilter_frame [OF p]
  have okc1: "context_ok c1" using fr1 assms(2) by (simp add: context_ok_def chain_part_def)
  show thesis
  proof (cases ok1)
    case False
    then have "ok = False" "r' = r" "c' = c1" using assms(3) p by (simp_all add: run_pipeline_def)
    with fr1 okc1 refused show thesis by simp
  next
    case ok1: True
    obtain ok2 c2 where f: "filter_stage r c1 = (ok2, c2)" by fastforce
    note fr2 = filter_stage_frame [OF f]
    have okc2: "context_ok c2" using fr2 okc1 by (simp add: context_ok_def chain_part_def)
    show thesis
    proof (cases ok2)
      case False
      then have "ok = False" "r' = r" "c' = c2" using assms(3) p f ok1 by (simp_all add: run_pipeline_def)
      with fr1 fr2 okc2 refused show thesis by simp
    next
      case ok2: True
      obtain r3 c3 where pr: "provider_stage r c2 = (r3, c3)" by fastforce
      have s3: "same_core r r3" "rec_wf r3" "vendor_core_free (cx_vendor c3)"
        "chain_part c3 = chain_part c2" "cx_lsn c3 = cx_lsn c2"
        using provider_stage_safe [OF assms(1) _ _ pr] okc2 by (auto simp: context_ok_def)
      obtain r4 c4 where as: "assembly_stage r3 c3 = (r4, c4)" by fastforce
      note s4 = assembly_stage_eq [OF as]
      obtain r5 where d: "detect_secrets r4 = Some r5"
        using assms(3) p f ok1 ok2 pr as by (auto simp: run_pipeline_def split: option.splits)
      have wf4: "rec_wf r4" using s3(2) by (simp add: s4(1))
      then have wf5: "rec_wf r5" using detect_secrets_wf [OF d] by simp
      obtain ok6 r6 vs w where q: "run_processors (pd_processors (cx_dispatch c4)) (cx_world c4) (cx_vendor c4) r5
          = (ok6, r6, vs, w)" by (metis prod_cases4)
      have disp: "dispatch_fits (cx_dispatch c4)" "cx_engine c4 = cx_engine c"
          "cx_enable_signature c4 = cx_enable_signature c" "cx_prev_hash c4 = cx_prev_hash c"
          "cx_prev_lsn c4 = cx_prev_lsn c" "cx_lsn c3 = cx_lsn c" "chain_part c4 = chain_part c"
        using okc2 s3 s4 fr1 fr2 by (auto simp: context_ok_def chain_part_def)
      have s6: "same_core r5 r6" "rec_wf r6" "vendor_core_free vs"
        using run_processors_safe [OF wf5 _ _ q] disp(1) s3(3) s4(4) by (auto simp: dispatch_fits_def)
      show thesis
      proof (cases ok6)
        case False
        then have "ok = False" "r' = r6"
            "c' = record_stage Processing ActAbort (c4\<lparr>cx_world := w, cx_vendor := vs\<rparr>)"
          using assms(3) p f ok1 ok2 pr as d q by (simp_all add: run_pipeline_def)
        moreover have "rec_level r6 = rec_level r" "rec_pool_index r6 = rec_pool_index r"
          using same_coreD(2,7) [OF s6(1)] same_coreD(2,7) [OF s3(1)] d s4(1)
          by (auto simp: detect_secrets_eq)
        ultimately show thesis
          using aborted s6 disp s4(3) by (auto simp: context_ok_def chain_part_def)
      next
        case True
        obtain r7 c7 where sg: "sign_stage sha ed (cx_lsn c3) r6 (c4\<lparr>cx_world := w, cx_vendor := vs\<rparr>) = (r7, c7)"
          by fastforce
        note s7 = sign_stage_eq [OF sg]
        from True have out: "ok = True" "r' = r7" "c' = record_stage SinkStage ActContinue (record_stage Formatting ActContinue
            (record_stage Processing ActContinue c7))"
          using assms(3) p f ok1 ok2 pr as d q sg by (simp_all add: run_pipeline_def)
        from d obtain m where m: "detected_message (rec_message r4) = Some m" "r5 = r4\<lparr>rec_message := m\<rparr>"
          by (auto simp: detect_secrets_eq)
        have lvl: "rec_level r3 = rec_level r" "rec_flags r3 = rec_flags r" "rec_message r4 = rec_message r"
          using same_coreD [OF s3(1)] by (simp_all add: s4(1))
        have en: "cx_enable_signature c3 = cx_enable_signature c"
          using disp(7) s4(2,3) disp(3) by (simp add: chain_part_def)
        define r4' where "r4' = r\<lparr>rec_lsn := cx_lsn c, rec_flags := rec_flags r OR
          (if rec_level r = Audit then RECORD_FLAG_AUDIT OR
             (if cx_enable_signature c then RECORD_FLAG_SIGNED else 0) else 0)\<rparr>"
        have "same_core r4' r4"
          unfolding r4'_def s4(1) lvl(1,2) en disp(6)
          by (rule same_core_updates(1) [OF s3(1)])
        then have sc: "same_core (r4'\<lparr>rec_message := m\<rparr>) r6"
          using same_core_trans [OF same_core_updates(2)] s6(1) unfolding m(2) by blast
        have lvl6: "rec_level r6 = rec_level r" "rec_lsn r6 = cx_lsn c"
          using same_coreD [OF sc] by (simp_all add: r4'_def)
        show thesis
        proof (rule accepted [where ?r4.0 = r4' and ?r6.0 = r6])
          show "\<exists>m. detected_message (rec_message r) = Some m \<and> same_core (r4'\<lparr>rec_message := m\<rparr>) r6"
            using m(1) sc lvl(3) by auto
          show "context_ok c'" using s7(5,8) disp(1) s6(3) by (simp add: out context_ok_def)
        qed (use out s6 s7 disp lvl6 s4 in \<open>auto simp: r4'_def signs_def chain_part_def\<close>)
      qed
    qed
  qed
qed

lemma rec_map_message_hash [simp]:
  "rec_map (r\<lparr>rec_message := m\<rparr>) = rec_map r" "rec_map (r\<lparr>rec_content_hash := h\<rparr>) = rec_map r"
  by (simp_all add: rec_map_def rec_slots_def)

text \<open>What an accepted record looks like.\<close>

definition passed_as :: "log_record \<Rightarrow> u64 \<Rightarrow> bool \<Rightarrow> (bytes \<Rightarrow> bytes) \<Rightarrow> log_record \<Rightarrow> bool" where
  "passed_as r lsn signing sha r' \<longleftrightarrow>
     rec_lsn r' = lsn \<and> rec_level r' = rec_level r \<and> rec_timestamp r' = rec_timestamp r \<and>
     rec_process_id r' = rec_process_id r \<and> rec_thread_id r' = rec_thread_id r \<and>
     rec_pool_index r' = rec_pool_index r \<and> (\<forall>t < 64. rec_map r' t = rec_map r t) \<and>
     detected_message (rec_message r) = Some (rec_message r') \<and>
     (if rec_level r = Audit
      then rec_content_hash r' = sha (rec_hash_input r') \<and>
        rec_flags r' = rec_flags r OR RECORD_FLAG_AUDIT OR (if signing then RECORD_FLAG_SIGNED else 0)
      else rec_content_hash r' = rec_content_hash r \<and> rec_flags r' = rec_flags r)"

lemma run_pipeline_accepted:
  assumes "rec_wf r" and "context_ok c" and "run_pipeline sha ed now r c = Some (True, r', c')"
  shows "passed_as r (cx_lsn c) (cx_enable_signature c) sha r'" and "cx_lsn c' = cx_lsn c + 1"
  using assms(3)
proof (atomize (full), cases rule: run_pipeline_cases [OF assms])
  case (3 r4 r6)
  then obtain m where m: "detected_message (rec_message r) = Some m" "same_core (r4\<lparr>rec_message := m\<rparr>) r6"
    by blast
  note f = same_coreD [OF m(2)]
  show "passed_as r (cx_lsn c) (cx_enable_signature c) sha r' \<and> cx_lsn c' = cx_lsn c + 1"
    unfolding passed_as_def 3(7) using m(1) f 3(2,5)
    by (auto simp: compute_content_hash_def compute_content_hash_from_def or.assoc)
qed auto

section \<open>Properties\<close>

text \<open>C7: One pass of the pipeline over a record, whatever the plugins do through their accessor: a
  refused or aborted record leaves the signature chain alone and costs at most one LSN (a
  processor's abort leaves a gap); an accepted record carries the next LSN, its level,
  timestamp, ids and core fields as submitted, exactly the message the secret detector
  returned, and, at audit level, flags and a content hash of its final content; it advances the
  chain only if it is signed, and then its signature verifies under the engine's key against
  the predecessor.\<close>

theorem pipeline_record_contract:
  assumes "rec_wf r" and "context_ok c" and "run_pipeline sha ed now r c = Some (ok, r', c')"
    and "ed_correct ed (se_signing_key (cx_engine c))"
  shows "(if ok then passed_as r (cx_lsn c) (cx_enable_signature c) sha r' \<and> cx_lsn c' = cx_lsn c + 1
          else cx_lsn c' \<in> {cx_lsn c, cx_lsn c + 1}) \<and>
    (if ok \<and> signs c r
     then \<exists>sig. cx_last_signature c' = Some (cx_lsn c, rec_content_hash r', sig) \<and>
       verify_record sha ed (ed_public ed (se_signing_key (cx_engine c))) r' sig
         (derive_prev_hash sha (cx_prev_hash c) (cx_prev_lsn c)) = Inr () \<and>
       cx_prev_hash c' = rec_content_hash r' \<and> cx_prev_lsn c' = cx_lsn c
     else chain_part c' = chain_part c)"
  using assms(3)
proof (cases rule: run_pipeline_cases [OF assms(1-3)])
  case (3 r4 r6)
  have acc: "passed_as r (cx_lsn c) (cx_enable_signature c) sha r'"
    using run_pipeline_accepted [OF assms(1,2)] assms(3) 3(1) by simp
  show ?thesis
  proof (cases "signs c r")
    case True
    note sg = 3(8) [OF True]
    have "rec_content_hash r' = sha (rec_hash_input r')" "rec_lsn r' = cx_lsn c"
      using acc True by (simp_all add: passed_as_def signs_def)
    with sg assms(4) have "verify_record sha ed (ed_public ed (se_signing_key (cx_engine c))) r'
        (sign_bytes ed (cx_engine c) (signing_payload sha (cx_lsn c) (rec_content_hash r')
           (derive_prev_hash sha (cx_prev_hash c) (cx_prev_lsn c))))
        (derive_prev_hash sha (cx_prev_hash c) (cx_prev_lsn c)) = Inr ()"
      by (simp add: verify_record_def compute_content_hash_from_def build_signing_payload_static_def
          sign_bytes_def ed_correct_def)
    with sg acc 3(1,2) True show ?thesis by auto
  next
    case False
    with 3(9) [OF False] acc 3(1,2) show ?thesis by simp
  qed
qed auto

text \<open>An audit record through a pipeline with a filter and a processor.\<close>

definition demo_ed :: "(unit, unit) ed25519" where
  "demo_ed = \<lparr>ed_public = \<lambda>_. (), ed_sign = \<lambda>_ m. take 64 (m @ replicate 64 0),
     ed_verify = \<lambda>_ m s. s = take 64 (m @ replicate 64 0)\<rparr>"

definition demo_context :: "(unit, unit, unit) pipeline_context" where
  "demo_context =
     \<lparr>cx_engine = se_new demo_ed (), cx_limiter = rl_default 0, cx_drop = dl_new Info,
      cx_enable_signature = True, cx_stats = (\<lambda>_. zero_stats), cx_lsn = 1,
      cx_prev_hash = GENESIS_HASH, cx_prev_lsn = 0, cx_last_signature = None,
      cx_format_kind = Some ''plain'',
      cx_dispatch = \<lparr>pd_filters = [\<lambda>w r. (0, w)], pd_processors = [\<lambda>w vs r. (0, [], w)],
        pd_formatters = [], pd_field_providers = []\<rparr>,
      cx_world = (), cx_vendor = vendor_init\<rparr>"

definition demo_record :: log_record where
  "demo_record = (rec_new 0)\<lparr>rec_level := Audit\<rparr>"

lemma demo_ok: "rec_wf demo_record" "context_ok demo_context" "ed_correct demo_ed sk"
proof -
  show "rec_wf demo_record" by (simp add: demo_record_def)
  show "context_ok demo_context"
    by (simp add: context_ok_def demo_context_def dispatch_fits_def writer_fits_def writes_fit_def)
  show "ed_correct demo_ed sk" by (auto simp: ed_correct_def demo_ed_def min_def)
qed

lemma demo_stages:
  "dl_evaluate (dl_new Info) Audit = (True, (dl_new Info)\<lparr>dl_allowed := 1\<rparr>)"
  "rl_evaluate (rl_default 0) 0 = (True, (rl_default 0)\<lparr>rl_allowed := 1\<rparr>)"
  "rs_as_utf8 (rec_message demo_record) = Some []"
proof -
  show "dl_evaluate (dl_new Info) Audit = (True, (dl_new Info)\<lparr>dl_allowed := 1\<rparr>)"
    by (simp add: dl_evaluate_def dl_new_def dl_level_def level_from_u8_def less_eq_log_level_def)
  show "rl_evaluate (rl_default 0) 0 = (True, (rl_default 0)\<lparr>rl_allowed := 1\<rparr>)"
    by (simp add: rl_evaluate_def rl_default_def rl_new_def)
  show "rs_as_utf8 (rec_message demo_record) = Some []"
    by (simp add: rs_as_utf8_def demo_record_def rec_new_def)
qed

theorem pipeline_record_contract_witness:
  "\<exists>r' c' sig. run_pipeline (\<lambda>_. replicate 32 1) demo_ed 0 demo_record demo_context = Some (True, r', c') \<and>
     rec_lsn r' = 1 \<and> rec_content_hash r' = replicate 32 1 \<and>
     cx_last_signature c' = Some (1, replicate 32 1, sig)"
proof -
  have "detect_secrets (demo_record\<lparr>rec_lsn := a, rec_flags := b\<rparr>) =
      Some (demo_record\<lparr>rec_lsn := a, rec_flags := b\<rparr>)" for a b
    using demo_stages(3) by (simp add: detect_secrets_def scan_def)
  then have "\<exists>r' c'. run_pipeline (\<lambda>_. replicate 32 1) demo_ed 0 demo_record demo_context = Some (True, r', c')"
    using demo_stages(1,2)
    by (simp add: run_pipeline_def prefilter_def filter_stage_def provider_stage_def assembly_stage_def
        demo_context_def demo_record_def Let_def record_stage_def split: prod.split)
  then obtain r' c' where run: "run_pipeline (\<lambda>_. replicate 32 1) demo_ed 0 demo_record demo_context =
      Some (True, r', c')" by blast
  have "signs demo_context demo_record" "cx_lsn demo_context = 1" "rec_level demo_record = Audit"
    by (simp_all add: signs_def demo_context_def demo_record_def)
  with pipeline_record_contract [OF demo_ok(1,2) run demo_ok(3)] run show ?thesis
    by (auto simp: passed_as_def)
qed

end
