(* ===== verification/Object_Pool.thy ===== *)
theory Object_Pool
  imports Log_Record Machine
begin

text \<open>
  The record pool (core/src/buffer/object_pool.rs): a Treiber stack of free nodes. The
  operations are given twice: as whole functions, what a call does when no other thread
  interferes, and as a machine of their atomic accesses for any number of threads. A record
  pointer is the number of its node; \<open>usize::MAX\<close> as a link is \<open>None\<close>.
\<close>

section \<open>The pool\<close>

record record_pool =
  op_size :: nat
  op_record :: "nat \<Rightarrow> log_record"
  op_next :: "nat \<Rightarrow> nat option"
  op_head :: "nat option"
  op_alloc_count :: u64
  op_free_count :: u64

definition pool_new :: "nat \<Rightarrow> record_pool option" where
  "pool_new capacity =
     (if capacity = 0 then None
      else Some \<lparr>op_size = capacity, op_record = (\<lambda>i. rec_new (of_nat i)),
        op_next = (\<lambda>i. if i + 1 < capacity then Some (i + 1) else None), op_head = Some 0,
        op_alloc_count = 0, op_free_count = 0\<rparr>)"

definition pool_alloc :: "record_pool \<Rightarrow> nat option \<times> record_pool" where
  "pool_alloc s =
     (case op_head s of
        None \<Rightarrow> (None, s)
      | Some h \<Rightarrow>
          (Some h, s\<lparr>op_head := op_next s h, op_alloc_count := op_alloc_count s + 1\<rparr>))"

text \<open>\<open>None\<close> is the panic of the bounds assertion.\<close>

definition pool_free :: "record_pool \<Rightarrow> nat \<Rightarrow> record_pool option" where
  "pool_free s ptr =
     (let index = unat (rec_pool_index (op_record s ptr)) in
      if op_size s \<le> index then None
      else Some (s\<lparr>op_record := (op_record s)(index := rec_reset (op_record s index)),
             op_next := (op_next s)(index := op_head s), op_head := Some index,
             op_free_count := op_free_count s + 1\<rparr>))"

definition pool_available :: "record_pool \<Rightarrow> nat" where
  "pool_available s =
     op_size s - unat (sat_sub64 (op_alloc_count s) (op_free_count s))"

section \<open>Owners\<close>

text \<open>
  The protocol the callers follow: a node is freed by its owner only, who may change its
  record (not its pool index) meanwhile. \<open>po_owned\<close> lists the nodes handed out.
\<close>

record owned_pool =
  po_pool :: record_pool
  po_owned :: "nat list"

datatype pool_act = PAlloc | PFree nat | PMutate nat log_record

fun pool_step :: "owned_pool \<Rightarrow> pool_act \<Rightarrow> owned_pool option" where
  "pool_step s PAlloc =
     (case pool_alloc (po_pool s) of
        (None, p) \<Rightarrow> Some (s\<lparr>po_pool := p\<rparr>)
      | (Some i, p) \<Rightarrow> Some (s\<lparr>po_pool := p, po_owned := i # po_owned s\<rparr>))"
| "pool_step s (PFree i) =
     (if i \<in> set (po_owned s) then
        map_option (\<lambda>p. s\<lparr>po_pool := p, po_owned := remove1 i (po_owned s)\<rparr>) (pool_free (po_pool s) i)
      else None)"
| "pool_step s (PMutate i r) =
     (if i \<in> set (po_owned s) \<and> rec_wf r \<and> rec_pool_index r = rec_pool_index (op_record (po_pool s) i)
      then Some (s\<lparr>po_pool := (po_pool s)\<lparr>op_record := (op_record (po_pool s))(i := r)\<rparr>\<rparr>)
      else None)"

fun chain :: "(nat \<Rightarrow> nat option) \<Rightarrow> nat option \<Rightarrow> nat list \<Rightarrow> bool" where
  "chain next h [] \<longleftrightarrow> h = None"
| "chain next h (x # xs) \<longleftrightarrow> h = Some x \<and> chain next (next x) xs"

definition pool_inv_with :: "owned_pool \<Rightarrow> nat list \<Rightarrow> bool" where
  "pool_inv_with s free \<longleftrightarrow>
     op_size (po_pool s) \<le> 2 ^ 32 \<and>
     chain (op_next (po_pool s)) (op_head (po_pool s)) free \<and>
     distinct (free @ po_owned s) \<and> set (free @ po_owned s) = {..<op_size (po_pool s)} \<and>
     (\<forall>i \<in> set free. op_record (po_pool s) i = rec_new (of_nat i)) \<and>
     (\<forall>i < op_size (po_pool s).
        rec_wf (op_record (po_pool s) i) \<and> rec_pool_index (op_record (po_pool s) i) = of_nat i)"

definition pool_inv :: "owned_pool \<Rightarrow> bool" where
  "pool_inv s \<longleftrightarrow> (\<exists>free. pool_inv_with s free)"

lemma chain_upd: "x \<notin> set xs \<Longrightarrow> chain (next(x := y)) h xs = chain next h xs"
  by (induction xs arbitrary: h) auto

lemma chain_upto:
  "k \<le> n \<Longrightarrow> chain (\<lambda>i. if i + 1 < n then Some (i + 1) else None) (if k < n then Some k else None) [k..<n]"
proof (induction "n - k" arbitrary: k)
  case (Suc d)
  then have "k < n" by simp
  moreover from this Suc have "chain (\<lambda>i. if i + 1 < n then Some (i + 1) else None)
      (if Suc k < n then Some (Suc k) else None) [Suc k..<n]"
    by (intro Suc.hyps(1)) simp_all
  moreover from \<open>k < n\<close> have "[k..<n] = k # [Suc k..<n]" by (rule upt_conv_Cons)
  ultimately show ?case by auto
qed simp

lemma rec_new_index [simp]: "rec_pool_index (rec_new i) = i"
  by (simp add: rec_new_def)

lemma pool_init_inv:
  assumes "pool_new capacity = Some p" and "capacity \<le> 2 ^ 32"
  shows "pool_inv_with \<lparr>po_pool = p, po_owned = []\<rparr> [0..<capacity]"
proof -
  let ?next = "\<lambda>i. if i + 1 < capacity then Some (i + 1) else None"
  from assms(1) have pos: "0 < capacity"
    and p: "p = \<lparr>op_size = capacity, op_record = (\<lambda>i. rec_new (of_nat i)), op_next = ?next,
      op_head = Some 0, op_alloc_count = 0, op_free_count = 0\<rparr>"
    by (auto simp: pool_new_def split: if_splits)
  have "chain ?next (Some 0) [0..<capacity]"
    using chain_upto [of 0 capacity] pos by simp
  moreover have "set [0..<capacity] = {..<capacity}" by auto
  ultimately show ?thesis
    unfolding pool_inv_with_def p using assms(2) by simp
qed

lemma pool_alloc_inv:
  assumes "pool_inv_with s free" and "pool_step s PAlloc = Some s'"
  shows "(free = [] \<and> s' = s \<and> op_head (po_pool s) = None) \<or>
    (\<exists>i rest. free = i # rest \<and> op_head (po_pool s) = Some i \<and> po_owned s' = i # po_owned s \<and>
       op_record (po_pool s') = op_record (po_pool s) \<and> pool_inv_with s' rest)"
  using assms
  by (cases free) (auto simp: pool_inv_with_def pool_alloc_def split: option.splits)

lemma pool_free_inv:
  assumes "pool_inv_with s free" and "i \<in> set (po_owned s)"
  shows "\<exists>s'. pool_step s (PFree i) = Some s' \<and> pool_inv_with s' (i # free) \<and>
    op_record (po_pool s') i = rec_new (of_nat i)"
proof -
  let ?p = "po_pool s"
  have i: "i < op_size ?p" "i \<notin> set free" using assms by (auto simp: pool_inv_with_def)
  have ok: "rec_wf (op_record ?p i)" "rec_pool_index (op_record ?p i) = of_nat i" "op_size ?p \<le> 2 ^ 32"
    using assms(1) i by (auto simp: pool_inv_with_def)
  then have idx: "unat (rec_pool_index (op_record ?p i)) = i"
    using i by (simp add: unat_of_nat)
  have reset: "rec_reset (op_record ?p i) = rec_new (of_nat i)"
    using ok by (cases "rec_kv_ext (op_record ?p i)")
      (simp_all add: rec_reset_def rec_kv_clear_ext_def rec_new_def rec_wf_def rs_clear_eq kv_clear_def)
  let ?p' = "?p\<lparr>op_record := (op_record ?p)(i := rec_new (of_nat i)), op_next := (op_next ?p)(i := op_head ?p),
      op_head := Some i, op_free_count := op_free_count ?p + 1\<rparr>"
  let ?s' = "s\<lparr>po_pool := ?p', po_owned := remove1 i (po_owned s)\<rparr>"
  have "pool_step s (PFree i) = Some ?s'"
    using assms(2) i idx reset by (simp add: pool_free_def Let_def)
  moreover have "pool_inv_with ?s' (i # free)"
    using assms i chain_upd [of i free "op_next ?p" "op_head ?p" "op_head ?p"]
    by (auto simp: pool_inv_with_def)
  ultimately show ?thesis by auto
qed

lemma pool_inv_step: "pool_inv s \<Longrightarrow> pool_step s a = Some s' \<Longrightarrow> pool_inv s'"
proof (cases a)
  case PAlloc
  then show "pool_inv s \<Longrightarrow> pool_step s a = Some s' \<Longrightarrow> pool_inv s'"
    unfolding pool_inv_def using pool_alloc_inv by blast
next
  case (PFree i)
  then show "pool_inv s \<Longrightarrow> pool_step s a = Some s' \<Longrightarrow> pool_inv s'"
    unfolding pool_inv_def using pool_free_inv [of s _ i]
    by (metis option.inject option.distinct(1) pool_step.simps(2))
next
  case (PMutate i r)
  then show "pool_inv s \<Longrightarrow> pool_step s a = Some s' \<Longrightarrow> pool_inv s'"
  proof -
    assume "pool_inv s" and step: "pool_step s a = Some s'"
    then obtain free where f: "pool_inv_with s free" by (auto simp: pool_inv_def)
    from step PMutate have own: "i \<in> set (po_owned s)" "rec_wf r"
      "rec_pool_index r = rec_pool_index (op_record (po_pool s) i)"
      and s': "s' = s\<lparr>po_pool := (po_pool s)\<lparr>op_record := (op_record (po_pool s))(i := r)\<rparr>\<rparr>"
      by (auto split: if_splits)
    have "i \<notin> set free" "i < op_size (po_pool s)"
      using f own(1) by (auto simp: pool_inv_with_def)
    with f own have "pool_inv_with s' free"
      by (simp add: pool_inv_with_def s')
    then show "pool_inv s'" by (auto simp: pool_inv_def)
  qed
qed

interpretation pool_machine: safe_machine pool_step
  "\<lparr>po_pool = the (pool_new (min (Suc k) (2 ^ 32))), po_owned = []\<rparr>" pool_inv for k
proof
  have "pool_new (min (Suc k) (2 ^ 32)) = Some (the (pool_new (min (Suc k) (2 ^ 32))))"
    by (simp add: pool_new_def min_def)
  then show "pool_inv \<lparr>po_pool = the (pool_new (min (Suc k) (2 ^ 32))), po_owned = []\<rparr>"
    unfolding pool_inv_def by (intro exI, rule pool_init_inv) simp
qed (rule pool_inv_step)

section \<open>The atomic accesses\<close>

text \<open>
  Where a thread is inside \<open>alloc\<close> or \<open>free\<close>, and the nodes it owns.
\<close>

datatype pool_pc =
    PoolIdle
  | AllocStart
  | AllocGotHead nat
  | AllocGotNext nat "nat option"
  | FreeReset nat
  | FreeStart nat
  | FreeGotHead nat "nat option"
  | FreeStored nat "nat option"

record pool_threads =
  pt_pool :: record_pool
  pt_pc :: "nat \<Rightarrow> pool_pc"
  pt_owns :: "nat \<Rightarrow> nat list"

datatype pool_thread_act = StartAlloc | StartFree nat | PoolGo | PoolCasFails

definition pt_set :: "nat \<Rightarrow> pool_pc \<Rightarrow> pool_threads \<Rightarrow> pool_threads" where
  "pt_set t p s = s\<lparr>pt_pc := (pt_pc s)(t := p)\<rparr>"

fun pool_go :: "pool_threads \<Rightarrow> nat \<Rightarrow> pool_pc \<Rightarrow> pool_threads option" where
  "pool_go s t AllocStart =
     (case op_head (pt_pool s) of
        None \<Rightarrow> Some (pt_set t PoolIdle s)
      | Some h \<Rightarrow> Some (pt_set t (AllocGotHead h) s))"
| "pool_go s t (AllocGotHead h) = Some (pt_set t (AllocGotNext h (op_next (pt_pool s) h)) s)"
| "pool_go s t (AllocGotNext h nxt) =
     (if op_head (pt_pool s) = Some h then
        Some (pt_set t PoolIdle
          (s\<lparr>pt_pool := (pt_pool s)\<lparr>op_head := nxt, op_alloc_count := op_alloc_count (pt_pool s) + 1\<rparr>,
             pt_owns := (pt_owns s)(t := h # pt_owns s t)\<rparr>))
      else Some (pt_set t AllocStart s))"
| "pool_go s t (FreeReset ptr) =
     (let index = unat (rec_pool_index (op_record (pt_pool s) ptr)) in
      if op_size (pt_pool s) \<le> index then None
      else Some (pt_set t (FreeStart index)
        (s\<lparr>pt_pool := (pt_pool s)\<lparr>op_record := (op_record (pt_pool s))
             (index := rec_reset (op_record (pt_pool s) index))\<rparr>\<rparr>)))"
| "pool_go s t (FreeStart i) = Some (pt_set t (FreeGotHead i (op_head (pt_pool s))) s)"
| "pool_go s t (FreeGotHead i h) =
     Some (pt_set t (FreeStored i h)
       (s\<lparr>pt_pool := (pt_pool s)\<lparr>op_next := (op_next (pt_pool s))(i := h)\<rparr>\<rparr>))"
| "pool_go s t (FreeStored i h) =
     (if op_head (pt_pool s) = h then
        Some (pt_set t PoolIdle
          (s\<lparr>pt_pool := (pt_pool s)\<lparr>op_head := Some i, op_free_count := op_free_count (pt_pool s) + 1\<rparr>\<rparr>))
      else Some (pt_set t (FreeStart i) s))"
| "pool_go s t PoolIdle = None"

fun pool_spurious :: "pool_pc \<Rightarrow> pool_pc option" where
  "pool_spurious (AllocGotNext h nxt) = Some AllocStart"
| "pool_spurious (FreeStored i h) = Some (FreeStart i)"
| "pool_spurious _ = None"

definition pool_thread_step :: "pool_threads \<Rightarrow> nat \<times> pool_thread_act \<Rightarrow> pool_threads option" where
  "pool_thread_step s a =
     (case a of
        (t, StartAlloc) \<Rightarrow> if pt_pc s t = PoolIdle then Some (pt_set t AllocStart s) else None
      | (t, StartFree i) \<Rightarrow>
          if pt_pc s t = PoolIdle \<and> i \<in> set (pt_owns s t) then
            Some (pt_set t (FreeReset i) (s\<lparr>pt_owns := (pt_owns s)(t := remove1 i (pt_owns s t))\<rparr>))
          else None
      | (t, PoolGo) \<Rightarrow> pool_go s t (pt_pc s t)
      | (t, PoolCasFails) \<Rightarrow> map_option (\<lambda>p. pt_set t p s) (pool_spurious (pt_pc s t)))"

definition pool_threads_init :: "nat \<Rightarrow> pool_threads" where
  "pool_threads_init n =
     \<lparr>pt_pool = the (pool_new n), pt_pc = (\<lambda>_. PoolIdle), pt_owns = (\<lambda>_. [])\<rparr>"

text \<open>A thread that is not disturbed performs the whole operations.\<close>

lemma pool_solo_alloc:
  assumes "pt_pc s t = PoolIdle" and "op_head (pt_pool s) = Some h"
  shows "map_option (\<lambda>s'. (pt_pool s', pt_owns s' t)) (run pool_thread_step s [(t, StartAlloc), (t, PoolGo), (t, PoolGo), (t, PoolGo)]) =
    Some (snd (pool_alloc (pt_pool s)), h # pt_owns s t)"
  using assms by (simp add: pool_thread_step_def pt_set_def pool_alloc_def)

lemma pool_solo_free:
  assumes "pt_pc s t = PoolIdle" and "i \<in> set (pt_owns s t)"
  shows "map_option pt_pool (run pool_thread_step s
      [(t, StartFree i), (t, PoolGo), (t, PoolGo), (t, PoolGo), (t, PoolGo)]) = pool_free (pt_pool s) i"
  using assms by (simp add: pool_thread_step_def pt_set_def pool_free_def Let_def split: option.split)

text \<open>
  Thread 0 reads the head and its successor; thread 1 allocates both and frees the first;
  thread 0's exchange then succeeds on a stale successor.
\<close>

definition aba_schedule :: "(nat \<times> pool_thread_act) list" where
  "aba_schedule =
     [(0, StartAlloc), (0, PoolGo), (0, PoolGo)] @
     [(1, StartAlloc), (1, PoolGo), (1, PoolGo), (1, PoolGo)] @
     [(1, StartAlloc), (1, PoolGo), (1, PoolGo), (1, PoolGo)] @
     [(1, StartFree 0), (1, PoolGo), (1, PoolGo), (1, PoolGo), (1, PoolGo)] @
     [(0, PoolGo)] @
     [(0, StartAlloc), (0, PoolGo), (0, PoolGo), (0, PoolGo)]"

section \<open>Properties\<close>



text \<open>The lock-free stack is not safe against reuse: with two threads there is a schedule of
  the atomic accesses of \<open>alloc\<close> and \<open>free\<close>, each freeing only what it owns, after which
  both threads own the same record, because the exchange on the head cannot tell that the
  head was taken and returned between the load of its successor and the exchange.\<close>

theorem pool_aba_double_ownership:
  "\<exists>s. reachable pool_thread_step (pool_threads_init 3) s \<and>
     1 \<in> set (pt_owns s 0) \<and> 1 \<in> set (pt_owns s 1)"
proof -
  have "map_option (\<lambda>s. (pt_owns s 0, pt_owns s 1)) (run pool_thread_step (pool_threads_init 3) aba_schedule) =
      Some ([1, 0], [1])"
    by code_simp
  then obtain s where s: "run pool_thread_step (pool_threads_init 3) aba_schedule = Some s"
    "pt_owns s 0 = [1, 0]" "pt_owns s 1 = [1]" by auto
  have "reachable pool_thread_step (pool_threads_init 3) s"
    by (rule run_reachable [OF s(1) reach_init])
  with s(2,3) show ?thesis by (intro exI [of _ s]) simp
qed

end
