(* ===== verification/Sidecar.thy ===== *)
theory Sidecar
  imports Util_Hex "HOL-Library.AList"
begin

text \<open>
  The signature sidecar: lines \<open><lsn>:<content hash>:<signature>\<close>, written by the pipelines
  (\<open>write_sidecar_line\<close> of core/src/pipeline/scheduler.rs and core/src/security/audit.rs) and
  read by the command line (\<open>read_sidecar\<close> of cli/src/commands/verify.rs), with the operations
  on text of the standard library the reader uses. The hash map of entries is an association
  list.
\<close>

section \<open>Text\<close>

text \<open>\<open>str::trim\<close>: the encodings of the characters with the property White_Space.\<close>

definition white_space :: "bytes list" where
  "white_space =
     [[0x09], [0x0A], [0x0B], [0x0C], [0x0D], [0x20], [0xC2, 0x85], [0xC2, 0xA0],
      [0xE1, 0x9A, 0x80], [0xE2, 0x80, 0x80], [0xE2, 0x80, 0x81], [0xE2, 0x80, 0x82],
      [0xE2, 0x80, 0x83], [0xE2, 0x80, 0x84], [0xE2, 0x80, 0x85], [0xE2, 0x80, 0x86],
      [0xE2, 0x80, 0x87], [0xE2, 0x80, 0x88], [0xE2, 0x80, 0x89], [0xE2, 0x80, 0x8A],
      [0xE2, 0x80, 0xA8], [0xE2, 0x80, 0xA9], [0xE2, 0x80, 0xAF], [0xE2, 0x81, 0x9F],
      [0xE3, 0x80, 0x80]]"

lemma white_space_nonempty: "w \<in> set white_space \<Longrightarrow> w \<noteq> []"
  by (auto simp: white_space_def)

function strip_words :: "bytes list \<Rightarrow> bytes \<Rightarrow> bytes" where
  "strip_words ws s =
     (case List.find (\<lambda>w. w \<noteq> [] \<and> starts_with w s) ws of
        Some w \<Rightarrow> strip_words ws (drop (length w) s)
      | None \<Rightarrow> s)"
  by pat_completeness auto
termination
  by (relation "measure (length \<circ> snd)")
     (auto simp: find_Some_iff starts_with_iff)

declare strip_words.simps [simp del]

definition trim_start :: "bytes \<Rightarrow> bytes" where
  "trim_start s = strip_words white_space s"

definition trim_end :: "bytes \<Rightarrow> bytes" where
  "trim_end s = rev (strip_words (map rev white_space) (rev s))"

definition trim :: "bytes \<Rightarrow> bytes" where
  "trim s = trim_end (trim_start s)"

text \<open>\<open>str::lines\<close>, and \<open>str::split\<close> at one ASCII character.\<close>

definition strip_cr :: "bytes \<Rightarrow> bytes" where
  "strip_cr s = (if s \<noteq> [] \<and> last s = 0x0D then butlast s else s)"

fun lines_from :: "bytes \<Rightarrow> bytes \<Rightarrow> bytes list" where
  "lines_from acc [] = (if acc = [] then [] else [acc])"
| "lines_from acc (b # bs) =
     (if b = 0x0A then strip_cr acc # lines_from [] bs else lines_from (acc @ [b]) bs)"

definition str_lines :: "bytes \<Rightarrow> bytes list" where
  "str_lines s = lines_from [] s"

fun split_at :: "u8 \<Rightarrow> bytes \<Rightarrow> bytes list" where
  "split_at c [] = [[]]"
| "split_at c (b # bs) =
     (if b = c then [] # split_at c bs
      else case split_at c bs of [] \<Rightarrow> [[b]] | p # ps \<Rightarrow> (b # p) # ps)"

section \<open>Writing\<close>

definition write_sidecar_line :: "u64 \<Rightarrow> bytes \<Rightarrow> bytes \<Rightarrow> bytes" where
  "write_sidecar_line lsn content_hash signature =
     str_bytes (dec (unat lsn)) @ [0x3A] @ concat (map (hex_pair hex_chars_lower) content_hash) @
     [0x3A] @ concat (map (hex_pair hex_chars_lower) signature) @ [0x0A]"

section \<open>Reading\<close>

record sidecar_entry =
  sc_content_hash :: bytes
  sc_signature :: bytes

datatype sidecar_error =
    NotUtf8
  | MalformedLsn nat
  | MalformedContentHash nat
  | MalformedSignature nat
  | ExtraFields nat

text \<open>\<open>hex::decode(s)\<close> converted to an array of \<open>n\<close> bytes.\<close>

definition hex_array :: "nat \<Rightarrow> bytes option \<Rightarrow> bytes option" where
  "hex_array n part =
     (case part of
        None \<Rightarrow> None
      | Some s \<Rightarrow>
          (case hex_decode s of
             Inr b \<Rightarrow> if length b = n then Some b else None
           | Inl _ \<Rightarrow> None))"

definition part_at :: "'a list \<Rightarrow> nat \<Rightarrow> 'a option" where
  "part_at ps i = (if i < length ps then Some (ps ! i) else None)"

definition parse_sidecar_line :: "nat \<Rightarrow> bytes \<Rightarrow> sidecar_error + u64 \<times> sidecar_entry" where
  "parse_sidecar_line n line =
     (let parts = split_at 0x3A line in
      case Option.bind (part_at parts 0) (\<lambda>s. parse_unsigned (2 ^ 64 - 1) (bytes_str s)) of
        None \<Rightarrow> Inl (MalformedLsn n)
      | Some lsn \<Rightarrow>
          (case hex_array 32 (part_at parts 1) of
             None \<Rightarrow> Inl (MalformedContentHash n)
           | Some ch \<Rightarrow>
               (case hex_array 64 (part_at parts 2) of
                  None \<Rightarrow> Inl (MalformedSignature n)
                | Some sig \<Rightarrow>
                    if 3 < length parts then Inl (ExtraFields n)
                    else Inr (of_nat lsn, \<lparr>sc_content_hash = ch, sc_signature = sig\<rparr>))))"

fun read_sidecar_lines ::
  "nat \<Rightarrow> bytes list \<Rightarrow> (u64 \<times> sidecar_entry) list \<Rightarrow> sidecar_error + (u64 \<times> sidecar_entry) list" where
  "read_sidecar_lines n [] m = Inr m"
| "read_sidecar_lines n (l # ls) m =
     (let line = trim l in
      if line = [] then read_sidecar_lines (n + 1) ls m
      else case parse_sidecar_line n line of
             Inl e \<Rightarrow> Inl e
           | Inr (lsn, e) \<Rightarrow> read_sidecar_lines (n + 1) ls (AList.update lsn e m))"

definition read_sidecar :: "bytes \<Rightarrow> sidecar_error + (u64 \<times> sidecar_entry) list" where
  "read_sidecar text =
     (if utf8_valid text then read_sidecar_lines 1 (str_lines text) [] else Inl NotUtf8)"

section \<open>What is written reads back\<close>

lemma strip_words_id:
  "(\<And>w. w \<in> set ws \<Longrightarrow> w \<noteq> [] \<Longrightarrow> s \<noteq> [] \<Longrightarrow> hd w \<noteq> hd s) \<Longrightarrow> strip_words ws s = s"
proof -
  assume h: "\<And>w. w \<in> set ws \<Longrightarrow> w \<noteq> [] \<Longrightarrow> s \<noteq> [] \<Longrightarrow> hd w \<noteq> hd s"
  have "\<forall>w \<in> set ws. \<not> (w \<noteq> [] \<and> starts_with w s)"
  proof (intro ballI notI, elim conjE)
    fix w assume w: "w \<in> set ws" "w \<noteq> []" "starts_with w s"
    then obtain t where "s = w @ t" by (auto simp: starts_with_iff)
    with w h [of w] show False by simp
  qed
  then have "List.find (\<lambda>w. w \<noteq> [] \<and> starts_with w s) ws = None"
    by (simp add: find_None_iff)
  then show ?thesis by (subst strip_words.simps) simp
qed

definition plain_byte :: "u8 \<Rightarrow> bool" where
  "plain_byte b \<longleftrightarrow> (0x30 \<le> b \<and> b \<le> 0x39) \<or> (0x61 \<le> b \<and> b \<le> 0x66)"

lemma trim_plain:
  assumes "s \<noteq> []" and "plain_byte (hd s)" and "plain_byte (last s)"
  shows "trim s = s"
proof -
  have a: "\<forall>w \<in> set white_space. w \<noteq> [] \<and> \<not> plain_byte (hd w)"
    by (simp add: white_space_def plain_byte_def)
  have b: "\<forall>w \<in> set (map rev white_space). w \<noteq> [] \<and> \<not> plain_byte (hd w)"
    by (simp add: white_space_def plain_byte_def)
  have "trim_start s = s"
    unfolding trim_start_def using a assms by (intro strip_words_id) auto
  moreover have "trim_end s = s"
    unfolding trim_end_def using b assms
    by (subst strip_words_id) (auto simp: hd_rev)
  ultimately show ?thesis by (simp add: trim_def)
qed

lemma plain_dec: "list_all plain_byte (str_bytes (dec n))"
proof (induction n rule: dec.induct)
  case (1 n)
  have d: "plain_byte (of_char (digit_char m))" if "m < 10" for m
  proof -
    have "m \<in> set [0..<10]" using that by simp
    moreover have "list_all (\<lambda>m. plain_byte (of_char (digit_char m))) [0..<10]" by code_simp
    ultimately show ?thesis by (simp only: list_all_iff)
  qed
  show ?case
  proof (cases "n < 10")
    case True
    with d show ?thesis by (subst dec.simps) (simp add: str_bytes_def)
  next
    case False
    with d [of "n mod 10"] 1 show ?thesis by (subst dec.simps) (simp add: str_bytes_def)
  qed
qed

lemma plain_hex: "list_all plain_byte (concat (map (hex_pair hex_chars_lower) bs))"
proof -
  have h: "plain_byte (hex_chars_lower ! k)" if "k < 16" for k
  proof -
    have "k \<in> set [0..<16]" using that by simp
    moreover have "list_all (\<lambda>k. plain_byte (hex_chars_lower ! k)) [0..<16]" by code_simp
    ultimately show ?thesis by (simp only: list_all_iff)
  qed
  show ?thesis
    using h nibbles_less by (induction bs) (simp_all add: hex_pair_def)
qed

lemma split_at_free: "c \<notin> set s \<Longrightarrow> split_at c (s @ c # t) = s # split_at c t"
  by (induction s) auto

lemma split_at_none: "c \<notin> set s \<Longrightarrow> split_at c s = [s]"
  by (induction s) auto

lemma plain_not_in: "list_all plain_byte s \<Longrightarrow> \<not> plain_byte c \<Longrightarrow> c \<notin> set s"
  by (auto simp: list_all_iff)

lemma lines_from_free:
  "0x0A \<notin> set s \<Longrightarrow> lines_from acc (s @ 0x0A # t) = strip_cr (acc @ s) # lines_from [] t"
  by (induction s arbitrary: acc) auto

lemma parse_written_line:
  assumes "length ch = 32" and "length sig = 64"
  shows "parse_sidecar_line n
      (str_bytes (dec (unat lsn)) @ [0x3A] @ concat (map (hex_pair hex_chars_lower) ch) @
       [0x3A] @ concat (map (hex_pair hex_chars_lower) sig)) =
    Inr (lsn, \<lparr>sc_content_hash = ch, sc_signature = sig\<rparr>)"
proof -
  have c: "\<not> plain_byte 0x3A" by (simp add: plain_byte_def)
  note free = plain_not_in [OF plain_dec c] plain_not_in [OF plain_hex c]
  have dec: "hex_decode (concat (map (hex_pair hex_chars_lower) bs)) = Inr bs" for bs
    using lower_hex.decode_encoded [of bs] by (simp add: encode_to_iter_eq)
  have l: "unat lsn \<le> 2 ^ 64 - 1" using unat_bound [of lsn] by simp
  show ?thesis
    using assms free parse_unsigned_dec [OF l]
    by (simp add: parse_sidecar_line_def split_at_free split_at_none part_at_def hex_array_def dec)
qed

definition line_ok :: "u64 \<times> bytes \<times> bytes \<Rightarrow> bool" where
  "line_ok = (\<lambda>(lsn, ch, sig). length ch = 32 \<and> length sig = 64)"

definition entry_of_line :: "u64 \<times> bytes \<times> bytes \<Rightarrow> u64 \<times> sidecar_entry" where
  "entry_of_line = (\<lambda>(lsn, ch, sig). (lsn, \<lparr>sc_content_hash = ch, sc_signature = sig\<rparr>))"

definition sidecar_text :: "(u64 \<times> bytes \<times> bytes) list \<Rightarrow> bytes" where
  "sidecar_text es = concat (map (\<lambda>(lsn, ch, sig). write_sidecar_line lsn ch sig) es)"

lemma read_written_lines:
  "list_all line_ok es \<Longrightarrow>
     read_sidecar_lines n (lines_from [] (sidecar_text es)) m =
       Inr (fold (\<lambda>(l, e). AList.update l e) (map entry_of_line es) m)"
proof (induction es arbitrary: n m)
  case Nil
  then show ?case by (simp add: sidecar_text_def)
next
  case (Cons e es)
  obtain lsn ch sig where e: "e = (lsn, ch, sig)" by (metis prod_cases3)
  from Cons.prems e have len: "length ch = 32" "length sig = 64" by (auto simp: line_ok_def)
  define line where "line = str_bytes (dec (unat lsn)) @ [0x3A] @
    concat (map (hex_pair hex_chars_lower) ch) @ [0x3A] @ concat (map (hex_pair hex_chars_lower) sig)"
  have shape: "sidecar_text (e # es) = line @ 0x0A # sidecar_text es"
    by (simp add: sidecar_text_def e write_sidecar_line_def line_def)
  have nl: "\<not> plain_byte 0x0A" by (simp add: plain_byte_def)
  have free: "0x0A \<notin> set line"
    using plain_not_in [OF plain_dec nl] plain_not_in [OF plain_hex nl] by (simp add: line_def)
  have "str_bytes (dec (unat lsn)) \<noteq> []" by (simp add: str_bytes_def)
  then have hd: "line \<noteq> []" "plain_byte (hd line)"
    using plain_dec [of "unat lsn"] by (auto simp: line_def list_all_iff)
  obtain s0 ss where s: "sig = ss @ [s0]" using len(2) by (cases sig rule: rev_cases) auto
  have "plain_byte (last line)"
    using plain_hex [of "[s0]"] by (simp add: line_def s hex_pair_def)
  then have t: "trim line = line" and cr: "strip_cr line = line"
    using trim_plain [OF hd] by (auto simp: strip_cr_def plain_byte_def)
  have "read_sidecar_lines n (lines_from [] (sidecar_text (e # es))) m =
      read_sidecar_lines (n + 1) (lines_from [] (sidecar_text es))
        (AList.update lsn \<lparr>sc_content_hash = ch, sc_signature = sig\<rparr> m)"
    using hd(1) parse_written_line [OF len, of n lsn]
    by (simp add: shape lines_from_free [OF free] cr t) (simp add: line_def)
  with Cons show ?case by (simp add: e entry_of_line_def)
qed

lemma sidecar_text_ascii: "list_all line_ok es \<Longrightarrow> utf8_valid (sidecar_text es)"
proof (rule utf8_valid_ascii)
  have p: "plain_byte b \<Longrightarrow> b < 0x80" for b
    by (auto simp: plain_byte_def word_less_nat_alt word_le_nat_alt)
  show "\<forall>b \<in> set (sidecar_text es). b < 0x80"
    using p plain_dec plain_hex
    by (auto simp: sidecar_text_def write_sidecar_line_def list_all_iff)
qed

lemma read_sidecar_written:
  "list_all line_ok es \<Longrightarrow>
     read_sidecar (sidecar_text es) =
       Inr (fold (\<lambda>(l, e). AList.update l e) (map entry_of_line es) [])"
  using read_written_lines [of es 1 "[]"] sidecar_text_ascii [of es]
  by (simp add: read_sidecar_def str_lines_def)

end
