(* ===== verification/Sif_Codec.thy ===== *)
theory Sif_Codec
  imports Log_Record
begin

text \<open>
  The SIF frame (core/src/sif/codec.rs): validation of the header, encoding of a record,
  decoding under resource limits and an integrity policy, and the borrowed entry view. A
  frame is a list of bytes, \<open>usize\<close> values are naturals, and the vendor map that decoding
  extends is threaded through. SHA-256 is the parameter \<open>sha\<close>.
\<close>

section \<open>Constants, errors and options\<close>

definition SIF_MAGIC :: bytes where "SIF_MAGIC = [0x53, 0x49, 0x46, 0]"
definition SIF_HEADER_LEN :: nat where "SIF_HEADER_LEN = 32"
definition SIF_FIXED_LEN :: nat where "SIF_FIXED_LEN = 90"
definition SIF_HASH_OFFSET :: nat where "SIF_HASH_OFFSET = 54"
definition SIF_MESSAGE_LEN_OFFSET :: nat where "SIF_MESSAGE_LEN_OFFSET = 86"
definition MAX_FRAME_SIZE :: nat where "MAX_FRAME_SIZE = 16 * 1024 * 1024"
definition MAX_FIELD_COUNT :: nat where "MAX_FIELD_COUNT = 1024"
definition MAX_FIELD_NAME :: nat where "MAX_FIELD_NAME = 1024"
definition MAX_MESSAGE_SIZE :: nat where "MAX_MESSAGE_SIZE = 8 * 1024 * 1024"
definition MAX_FIELD_VALUE :: nat where "MAX_FIELD_VALUE = 8 * 1024 * 1024"
definition SIF_FLAG_CONTENT_HASH :: u16 where "SIF_FLAG_CONTENT_HASH = 0x0001"
definition SIF_FLAG_AUDIT :: u16 where "SIF_FLAG_AUDIT = 0x0002"
definition SIF_FLAG_CANONICAL :: u16 where "SIF_FLAG_CANONICAL = 0x0004"
definition SIF_FLAG_MESSAGE_BINARY :: u16 where "SIF_FLAG_MESSAGE_BINARY = 0x0008"
definition SIF_FLAG_MESSAGE_EXPLICIT_TEXT :: u16 where "SIF_FLAG_MESSAGE_EXPLICIT_TEXT = 0x0010"

lemmas sif_lens = SIF_HEADER_LEN_def SIF_FIXED_LEN_def SIF_HASH_OFFSET_def
  SIF_MESSAGE_LEN_OFFSET_def
lemmas sif_maxima = MAX_FRAME_SIZE_def MAX_FIELD_COUNT_def MAX_FIELD_NAME_def
  MAX_MESSAGE_SIZE_def MAX_FIELD_VALUE_def
lemmas sif_flags = SIF_FLAG_CONTENT_HASH_def SIF_FLAG_AUDIT_def SIF_FLAG_CANONICAL_def
  SIF_FLAG_MESSAGE_BINARY_def SIF_FLAG_MESSAGE_EXPLICIT_TEXT_def

datatype sif_error =
    Truncated nat nat
  | InvalidMagic
  | InvalidHeaderLength nat nat
  | LengthMismatch nat nat
  | LengthExceeded string nat nat
  | TooManyFields nat nat
  | DuplicateTag u8
  | InvalidUtf8
  | InvalidMessageKind
  | InvalidFieldName
  | UnknownType u8
  | InvalidLevel u8
  | FieldApply string
  | ContentHashMismatch
  | EncodeOverflow string

record decode_options =
  do_max_frame_size :: nat
  do_max_field_count :: nat
  do_verify_content_hash :: bool

definition decode_options_default :: decode_options where
  "decode_options_default =
     \<lparr>do_max_frame_size = MAX_FRAME_SIZE, do_max_field_count = MAX_FIELD_COUNT,
      do_verify_content_hash = False\<rparr>"

definition decode_options_untrusted :: decode_options where
  "decode_options_untrusted =
     \<lparr>do_max_frame_size = MAX_FRAME_SIZE, do_max_field_count = MAX_FIELD_COUNT,
      do_verify_content_hash = True\<rparr>"

definition decode_options_audit :: decode_options where
  "decode_options_audit = decode_options_untrusted"

record sif_frame_header =
  fh_flags :: u16
  fh_total_length :: nat
  fh_field_count :: nat
  fh_fixed_length :: nat

record kv_entry =
  ke_tag :: u8
  ke_ty :: u8
  ke_name :: string
  ke_value :: bytes

section \<open>Reading\<close>

text \<open>\<open>bytes.get(offset..offset + k)\<close>.\<close>

definition get_slice :: "bytes \<Rightarrow> nat \<Rightarrow> nat \<Rightarrow> bytes option" where
  "get_slice bs offset k = (if offset + k \<le> length bs then Some (take k (drop offset bs)) else None)"

definition read_u8 :: "bytes \<Rightarrow> nat \<Rightarrow> sif_error + u8" where
  "read_u8 bs offset =
     (if offset < length bs then Inr (bs ! offset) else Inl (Truncated offset 1))"

definition read_u16 :: "bytes \<Rightarrow> nat \<Rightarrow> sif_error + u16" where
  "read_u16 bs offset =
     r_bind (ok_or (get_slice bs offset 2) (Truncated offset 2)) (\<lambda>s. Inr (u16_of s))"

definition read_u32 :: "bytes \<Rightarrow> nat \<Rightarrow> sif_error + u32" where
  "read_u32 bs offset =
     r_bind (ok_or (get_slice bs offset 4) (Truncated offset 4)) (\<lambda>s. Inr (u32_of s))"

definition read_u64 :: "bytes \<Rightarrow> nat \<Rightarrow> sif_error + u64" where
  "read_u64 bs offset =
     r_bind (ok_or (get_slice bs offset 8) (Truncated offset 8)) (\<lambda>s. Inr (u64_of s))"

definition read_array :: "nat \<Rightarrow> bytes \<Rightarrow> nat \<Rightarrow> sif_error + bytes" where
  "read_array n bs offset = ok_or (get_slice bs offset n) (Truncated offset n)"

text \<open>\<open>usize::checked_add\<close>.\<close>

definition checked_add_usize :: "nat \<Rightarrow> nat \<Rightarrow> nat option" where
  "checked_add_usize a b = (if a + b < 2 ^ 64 then Some (a + b) else None)"

definition r_check :: "bool \<Rightarrow> 'e \<Rightarrow> 'e + unit" where
  "r_check bad e = (if bad then Inl e else Inr ())"

lemma r_check_simps [simp, res_simps]:
  "r_check bad e = Inr u \<longleftrightarrow> \<not> bad" "r_check bad e = Inl e' \<longleftrightarrow> bad \<and> e' = e"
  by (auto simp: r_check_def)

lemma r_check_bind [simp]: "\<not> bad \<Longrightarrow> r_bind (r_check bad e) f = f ()"
  by (simp add: r_check_def)

definition validate_frame_with :: "bytes \<Rightarrow> decode_options \<Rightarrow> sif_error + sif_frame_header" where
  "validate_frame_with frame options =
     r_bind (r_check (do_max_frame_size options < length frame)
       (LengthExceeded ''frame'' (length frame) (do_max_frame_size options))) (\<lambda>_.
     r_bind (r_check (length frame < SIF_HEADER_LEN)
       (Truncated (length frame) (SIF_HEADER_LEN - length frame))) (\<lambda>_.
     r_bind (r_check (take 4 frame \<noteq> SIF_MAGIC) InvalidMagic) (\<lambda>_.
     r_bind (read_u16 frame 4) (\<lambda>header_len.
     r_bind (r_check (unat header_len \<noteq> SIF_HEADER_LEN)
       (InvalidHeaderLength (unat header_len) SIF_HEADER_LEN)) (\<lambda>_.
     r_bind (read_u16 frame 6) (\<lambda>flags.
     r_bind (r_check (flags AND SIF_FLAG_MESSAGE_BINARY \<noteq> 0 \<and>
         flags AND SIF_FLAG_MESSAGE_EXPLICIT_TEXT \<noteq> 0) InvalidMessageKind) (\<lambda>_.
     r_bind (read_u32 frame 8) (\<lambda>total_length.
     r_bind (r_check (unat total_length \<noteq> length frame)
       (LengthMismatch (unat total_length) (length frame))) (\<lambda>_.
     r_bind (r_check (do_max_frame_size options < unat total_length)
       (LengthExceeded ''declared frame'' (unat total_length) (do_max_frame_size options))) (\<lambda>_.
     r_bind (read_u32 frame 12) (\<lambda>field_count.
     r_bind (r_check (do_max_field_count options < unat field_count)
       (TooManyFields (unat field_count) (do_max_field_count options))) (\<lambda>_.
     r_bind (read_u32 frame 16) (\<lambda>fixed_length.
     r_bind (r_check (unat fixed_length \<noteq> SIF_FIXED_LEN)
       (InvalidHeaderLength (unat fixed_length) SIF_FIXED_LEN)) (\<lambda>_.
     r_bind (ok_or (checked_add_usize SIF_HEADER_LEN (unat fixed_length))
       (LengthMismatch (unat total_length) (length frame))) (\<lambda>minimum.
     r_bind (r_check (unat total_length < minimum)
       (Truncated (unat total_length) (minimum - unat total_length))) (\<lambda>_.
     Inr \<lparr>fh_flags = flags, fh_total_length = unat total_length,
          fh_field_count = unat field_count, fh_fixed_length = unat fixed_length\<rparr>))))))))))))))))"

definition validate_frame :: "bytes \<Rightarrow> sif_error + sif_frame_header" where
  "validate_frame frame = validate_frame_with frame decode_options_default"

section \<open>Names of tags\<close>

definition sif_names :: "string list" where
  "sif_names =
     [''trace.id'', ''span.id'', ''user.id'', ''session.id'', ''request.id'', ''host.name'',
      ''app.name'', ''app.version'', ''environment'', ''thread.name'', ''container.id'',
      ''process.name'', ''source.file'', ''source.function'', ''source.line'', ''source.column'',
      ''exception.type'', ''exception.message'', ''exception.stacktrace'', ''exception.code'',
      ''labels'', ''security.audit_tags'', ''coroutine.id'', ''security.gap'']"

definition vendor_name_for_tag :: "vendor_state \<Rightarrow> u8 \<Rightarrow> string option" where
  "vendor_name_for_tag vs tag =
     (case vt_tags vs of
        None \<Rightarrow> None
      | Some m \<Rightarrow> map_option fst (List.find (\<lambda>(_, t). t = tag) m))"

definition field_name_for_tag :: "vendor_state \<Rightarrow> u8 \<Rightarrow> string" where
  "field_name_for_tag vs tag =
     (case List.find (\<lambda>n. fst (resolve_tag vs n False) = Some tag) sif_names of
        Some n \<Rightarrow> n
      | None \<Rightarrow>
          (case vendor_name_for_tag vs tag of
             Some n \<Rightarrow> n
           | None \<Rightarrow> ''ext.unknown.'' @ dec (unat tag)))"

definition register_vendor_tag :: "vendor_state \<Rightarrow> string \<Rightarrow> u8 \<Rightarrow> vendor_state" where
  "register_vendor_tag vs name tag =
     (if tag \<le> KV_TAG_CORE_MAX \<or> \<not> is_vendor_name name then vs
      else
        case vt_tags vs of
          None \<Rightarrow> vs
        | Some m \<Rightarrow>
            (if map_of m name = None then vs\<lparr>vt_tags := Some (m @ [(name, tag)])\<rparr> else vs))"

definition name_char_ok :: "char \<Rightarrow> bool" where
  "name_char_ok c \<longleftrightarrow>
     (let n = of_char c :: nat in
      48 \<le> n \<and> n \<le> 57 \<or> 65 \<le> n \<and> n \<le> 90 \<or> 97 \<le> n \<and> n \<le> 122 \<or>
      n = 46 \<or> n = 95 \<or> n = 45)"

definition validate_name :: "string \<Rightarrow> sif_error + unit" where
  "validate_name name =
     r_bind (r_check (name = [] \<or> MAX_FIELD_NAME < length name \<or> char_of (0::nat) \<in> set name)
       InvalidFieldName) (\<lambda>_.
     r_bind (r_check (\<not> list_all name_char_ok name) InvalidFieldName) (\<lambda>_.
     r_check (\<not> starts_with ''ext.'' name \<and> \<not> starts_with ''verified.'' name \<and>
       CHR ''.'' \<notin> set name) InvalidFieldName))"

section \<open>Encoding\<close>

definition collect_entries :: "vendor_state \<Rightarrow> log_record \<Rightarrow> kv_entry list" where
  "collect_entries vs r =
     (let add = (\<lambda>slot es. case kv_wire_value slot of
            None \<Rightarrow> es
          | Some (tag, ty, v) \<Rightarrow>
              es @ [\<lparr>ke_tag = tag, ke_ty = ty, ke_name = field_name_for_tag vs tag, ke_value = v\<rparr>]);
          es1 = add (rec_kv1 r) (add (rec_kv0 r) [])
      in case rec_kv_ext r of Some ext \<Rightarrow> fold add ext es1 | None \<Rightarrow> es1)"

text \<open>The loop over the fields, on the frame written so far.\<close>

fun encode_fields :: "kv_entry list \<Rightarrow> bytes \<Rightarrow> sif_error + bytes" where
  "encode_fields [] frame = Inr frame"
| "encode_fields (f # fs) frame =
     r_bind (r_check (MAX_FIELD_NAME < length (ke_name f))
       (LengthExceeded ''field name'' (length (ke_name f)) MAX_FIELD_NAME)) (\<lambda>_.
     r_bind (r_check (MAX_FIELD_VALUE < length (ke_value f))
       (LengthExceeded ''field value'' (length (ke_value f)) MAX_FIELD_VALUE)) (\<lambda>_.
     r_bind (r_check (2 ^ 16 \<le> length (ke_name f)) (EncodeOverflow ''field name'')) (\<lambda>_.
     r_bind (r_check (2 ^ 32 \<le> length (ke_value f)) (EncodeOverflow ''field value'')) (\<lambda>_.
     encode_fields fs
       (frame @ [ke_tag f] @ [ke_ty f] @ to_le 2 (length (ke_name f)) @
        to_le 4 (length (ke_value f)) @ str_bytes (ke_name f) @ ke_value f)))))"

definition sif_record_flags :: "log_record \<Rightarrow> u16" where
  "sif_record_flags r =
     (let f0 = SIF_FLAG_CANONICAL;
          f1 = (if rec_level r = Audit then f0 OR SIF_FLAG_AUDIT else f0);
          f2 = (if rec_content_hash r \<noteq> replicate 32 0 then f1 OR SIF_FLAG_CONTENT_HASH else f1)
      in case rs_kind (rec_message r) of
           Utf8 \<Rightarrow> f2
         | Binary \<Rightarrow> f2 OR SIF_FLAG_MESSAGE_BINARY
         | ExplicitDecodedText \<Rightarrow> f2 OR SIF_FLAG_MESSAGE_EXPLICIT_TEXT)"

definition encode_record :: "vendor_state \<Rightarrow> log_record \<Rightarrow> sif_error + bytes" where
  "encode_record vs r =
     (let fields = collect_entries vs r;
          message = rs_as_bytes (rec_message r);
          flags = sif_record_flags r in
      r_bind (r_check (MAX_FIELD_COUNT < length fields)
        (TooManyFields (length fields) MAX_FIELD_COUNT)) (\<lambda>_.
      r_bind (r_check (MAX_MESSAGE_SIZE < length message)
        (LengthExceeded ''message'' (length message) MAX_MESSAGE_SIZE)) (\<lambda>_.
      r_bind (encode_fields fields
        (SIF_MAGIC @ to_le 2 SIF_HEADER_LEN @ le16 flags @ le32 0 @ to_le 4 (length fields) @
         to_le 4 SIF_FIXED_LEN @ le32 0 @ le32 0 @ le32 0 @
         le64 (rec_id_hi r) @ le64 (rec_id_lo r) @ le64 (rec_timestamp r) @
         [level_as_u8 (rec_level r)] @ replicate 7 0 @ le32 (rec_thread_id r) @
         le32 (rec_process_id r) @ le64 (rec_lsn r) @ le16 (rec_flags r) @
         le32 (rec_pool_index r) @ rec_content_hash r @ to_le 4 (length message) @ message))
        (\<lambda>frame.
      r_bind (r_check (2 ^ 32 \<le> length frame) (EncodeOverflow ''frame'')) (\<lambda>_.
      r_bind (r_check (MAX_FRAME_SIZE < length frame)
        (LengthExceeded ''frame'' (length frame) MAX_FRAME_SIZE)) (\<lambda>_.
      Inr (take 8 frame @ to_le 4 (length frame) @ drop 12 frame)))))))"

section \<open>Decoding\<close>

definition put_wire_slot ::
  "vendor_state \<Rightarrow> log_record \<Rightarrow> u8 \<Rightarrow> u8 \<Rightarrow> bytes \<Rightarrow> sif_error + log_record" where
  "put_wire_slot vs r tag ty v =
     (let failed = FieldApply (field_name_for_tag vs tag);
          put = (\<lambda>q ref. case kv_wire_put (slot_at q ref) tag ty v of
                   (Inr _, s) \<Rightarrow> Inr (slot_write q ref s)
                 | (Inl _, _) \<Rightarrow> Inl failed)
      in case rec_kv_find_mut r tag of
           Some ref \<Rightarrow> put r ref
         | None \<Rightarrow>
             (case rec_kv_find_empty r of
                (Some ref, r1) \<Rightarrow> put r1 ref
              | (None, r1) \<Rightarrow>
                  (case kv_wire_put kv_empty tag ty v of
                     (Inr _, s) \<Rightarrow> Inr (rec_push_ext r1 s)
                   | (Inl _, _) \<Rightarrow> Inl failed)))"

text \<open>One entry of the field loop, up to the validation of its name.\<close>

definition decode_entry ::
  "bytes \<Rightarrow> nat \<Rightarrow> u8 list \<Rightarrow> sif_error + (kv_entry \<times> nat)" where
  "decode_entry frame cursor tags =
     r_bind (read_u8 frame cursor) (\<lambda>tag.
     r_bind (read_u8 frame (cursor + 1)) (\<lambda>ty.
     r_bind (r_check (kv_type_from_u8 ty = None) (UnknownType ty)) (\<lambda>_.
     r_bind (read_u16 frame (cursor + 2)) (\<lambda>name_len.
     r_bind (read_u32 frame (cursor + 4)) (\<lambda>value_len.
     r_bind (r_check (tag = 0 \<or> tag \<in> set tags) (DuplicateTag tag)) (\<lambda>_.
     r_bind (r_check (name_len = 0 \<or> MAX_FIELD_NAME < unat name_len) InvalidFieldName) (\<lambda>_.
     r_bind (r_check (MAX_FIELD_VALUE < unat value_len)
       (LengthExceeded ''field value'' (unat value_len) MAX_FIELD_VALUE)) (\<lambda>_.
     r_bind (ok_or (checked_add_usize (cursor + 8) (unat name_len))
       (LengthMismatch (length frame) (cursor + 8))) (\<lambda>name_end.
     r_bind (ok_or (checked_add_usize name_end (unat value_len))
       (LengthMismatch (length frame) (cursor + 8))) (\<lambda>value_end.
     r_bind (r_check (length frame < value_end)
       (Truncated (cursor + 8) (value_end - length frame))) (\<lambda>_.
     let raw = take (unat name_len) (drop (cursor + 8) frame) in
     r_bind (r_check (\<not> utf8_valid raw) InvalidUtf8) (\<lambda>_.
     r_bind (validate_name (bytes_str raw)) (\<lambda>_.
     Inr (\<lparr>ke_tag = tag, ke_ty = ty, ke_name = bytes_str raw,
            ke_value = take (unat value_len) (drop name_end frame)\<rparr>, value_end))))))))))))))"

fun decode_fields ::
  "bytes \<Rightarrow> nat \<Rightarrow> nat \<Rightarrow> u8 list \<Rightarrow> vendor_state \<Rightarrow> log_record \<Rightarrow>
     (sif_error + (nat \<times> log_record)) \<times> vendor_state" where
  "decode_fields frame 0 cursor tags vs r = (Inr (cursor, r), vs)"
| "decode_fields frame (Suc n) cursor tags vs r =
     (case decode_entry frame cursor tags of
        Inl e \<Rightarrow> (Inl e, vs)
      | Inr (e, value_end) \<Rightarrow>
          let vs' = (if KV_TAG_CORE_MAX < ke_tag e then register_vendor_tag vs (ke_name e) (ke_tag e)
                     else vs) in
          (case put_wire_slot vs' r (ke_tag e) (ke_ty e) (ke_value e) of
             Inl err \<Rightarrow> (Inl err, vs')
           | Inr r' \<Rightarrow> decode_fields frame n value_end (ke_tag e # tags) vs' r'))"

definition message_kind_of :: "u16 \<Rightarrow> sif_error + payload_kind" where
  "message_kind_of flags =
     (let m = flags AND (SIF_FLAG_MESSAGE_BINARY OR SIF_FLAG_MESSAGE_EXPLICIT_TEXT) in
      if m = 0 then Inr Utf8
      else if m = SIF_FLAG_MESSAGE_BINARY then Inr Binary
      else if m = SIF_FLAG_MESSAGE_EXPLICIT_TEXT then Inr ExplicitDecodedText
      else Inl InvalidMessageKind)"

definition decode_set_message ::
  "payload_kind \<Rightarrow> record_string \<Rightarrow> bytes \<Rightarrow> sif_error + record_string" where
  "decode_set_message kind m message =
     (case kind of
        Utf8 \<Rightarrow>
          (case rs_set_utf8_bytes m message of
             (Inr _, m') \<Rightarrow> Inr m' | (Inl _, _) \<Rightarrow> Inl InvalidUtf8)
      | Binary \<Rightarrow> Inr (rs_set_bytes m message)
      | ExplicitDecodedText \<Rightarrow>
          (if utf8_valid message then Inr (rs_set_explicit_decoded_text m message)
           else Inl InvalidUtf8))"

text \<open>Everything before the field loop: the record with its fixed part and the message's end.\<close>

definition decode_fixed ::
  "bytes \<Rightarrow> sif_frame_header \<Rightarrow> sif_error + (log_record \<times> nat)" where
  "decode_fixed frame header =
     (let s = SIF_HEADER_LEN; fixed_end = s + fh_fixed_length header in
      r_bind (read_u64 frame s) (\<lambda>id_hi.
      r_bind (read_u64 frame (s + 8)) (\<lambda>id_lo.
      r_bind (read_u64 frame (s + 16)) (\<lambda>timestamp.
      r_bind (read_u8 frame (s + 24)) (\<lambda>level_raw.
      r_bind (ok_or (level_from_u8 level_raw) (InvalidLevel level_raw)) (\<lambda>level.
      r_bind (read_u32 frame (s + 32)) (\<lambda>thread_id.
      r_bind (read_u32 frame (s + 36)) (\<lambda>process_id.
      r_bind (read_u64 frame (s + 40)) (\<lambda>lsn.
      r_bind (read_u16 frame (s + 48)) (\<lambda>flags.
      r_bind (read_u32 frame (s + 50)) (\<lambda>pool_index.
      r_bind (read_array 32 frame (s + SIF_HASH_OFFSET)) (\<lambda>content_hash.
      r_bind (read_u32 frame (s + SIF_MESSAGE_LEN_OFFSET)) (\<lambda>message_len.
      r_bind (r_check (MAX_MESSAGE_SIZE < unat message_len \<or>
          checked_add_usize fixed_end (unat message_len) = None \<or>
          length frame < fixed_end + unat message_len)
        (LengthExceeded ''message'' (unat message_len) MAX_MESSAGE_SIZE)) (\<lambda>_.
      let message = take (unat message_len) (drop fixed_end frame) in
      r_bind (message_kind_of (fh_flags header)) (\<lambda>kind.
      r_bind (r_check (kind \<noteq> Binary \<and> \<not> utf8_valid message) InvalidUtf8) (\<lambda>_.
      let r0 = (rec_set_id (rec_new pool_index) id_hi id_lo)
            \<lparr>rec_timestamp := timestamp, rec_level := level, rec_thread_id := thread_id,
             rec_process_id := process_id, rec_lsn := lsn, rec_flags := flags,
             rec_content_hash := content_hash\<rparr> in
      r_bind (decode_set_message kind (rec_message r0) message)
        (\<lambda>m. Inr (r0\<lparr>rec_message := m\<rparr>, fixed_end + unat message_len))))))))))))))))))"

definition decode_record_with ::
  "(bytes \<Rightarrow> bytes) \<Rightarrow> vendor_state \<Rightarrow> bytes \<Rightarrow> decode_options \<Rightarrow>
     (sif_error + log_record) \<times> vendor_state" where
  "decode_record_with sha vs frame options =
     (case r_bind (validate_frame_with frame options) (\<lambda>header.
           r_bind (decode_fixed frame header) (\<lambda>x. Inr (header, x))) of
        Inl e \<Rightarrow> (Inl e, vs)
      | Inr (header, r0, message_end) \<Rightarrow>
          (case decode_fields frame (fh_field_count header) message_end [] vs r0 of
             (Inl e, vs') \<Rightarrow> (Inl e, vs')
           | (Inr (cursor, r), vs') \<Rightarrow>
               (if cursor \<noteq> length frame then (Inl (LengthMismatch (length frame) cursor), vs')
                else if do_verify_content_hash options \<and> rec_content_hash r0 \<noteq> replicate 32 0 \<and>
                  compute_content_hash_from sha r \<noteq> rec_content_hash r0
                then (Inl ContentHashMismatch, vs')
                else (Inr r, vs'))))"

definition decode_record ::
  "(bytes \<Rightarrow> bytes) \<Rightarrow> vendor_state \<Rightarrow> bytes \<Rightarrow> (sif_error + log_record) \<times> vendor_state" where
  "decode_record sha vs frame = decode_record_with sha vs frame decode_options_default"

section \<open>The entry view\<close>

definition view_entry ::
  "bytes \<Rightarrow> nat \<Rightarrow> u8 list \<Rightarrow> sif_error + (kv_entry \<times> nat)" where
  "view_entry frame cursor tags =
     r_bind (read_u8 frame cursor) (\<lambda>tag.
     r_bind (read_u8 frame (cursor + 1)) (\<lambda>ty.
     r_bind (read_u16 frame (cursor + 2)) (\<lambda>name_len.
     r_bind (read_u32 frame (cursor + 4)) (\<lambda>value_len.
     r_bind (r_check (tag \<in> set tags) (DuplicateTag tag)) (\<lambda>_.
     r_bind (ok_or (checked_add_usize (cursor + 8) (unat name_len))
       (LengthMismatch (length frame) (cursor + 8))) (\<lambda>name_end.
     r_bind (ok_or (checked_add_usize name_end (unat value_len))
       (LengthMismatch (length frame) (cursor + 8))) (\<lambda>value_end.
     r_bind (r_check (length frame < value_end)
       (Truncated (cursor + 8) (value_end - length frame))) (\<lambda>_.
     let raw = take (unat name_len) (drop (cursor + 8) frame) in
     r_bind (r_check (\<not> utf8_valid raw) InvalidUtf8) (\<lambda>_.
     r_bind (validate_name (bytes_str raw)) (\<lambda>_.
     Inr (\<lparr>ke_tag = tag, ke_ty = ty, ke_name = bytes_str raw,
            ke_value = take (unat value_len) (drop name_end frame)\<rparr>, value_end)))))))))))"

fun view_fields :: "bytes \<Rightarrow> nat \<Rightarrow> nat \<Rightarrow> u8 list \<Rightarrow> sif_error + (kv_entry list \<times> nat)" where
  "view_fields frame 0 cursor tags = Inr ([], cursor)"
| "view_fields frame (Suc n) cursor tags =
     r_bind (view_entry frame cursor tags) (\<lambda>(e, value_end).
     r_bind (view_fields frame n value_end (ke_tag e # tags)) (\<lambda>(es, c). Inr (e # es, c)))"

definition sif_entries :: "bytes \<Rightarrow> sif_error + kv_entry list" where
  "sif_entries frame =
     r_bind (validate_frame frame) (\<lambda>header.
     let fixed_end = SIF_HEADER_LEN + fh_fixed_length header in
     r_bind (read_u32 frame (SIF_HEADER_LEN + SIF_MESSAGE_LEN_OFFSET)) (\<lambda>message_len.
     r_bind (ok_or (checked_add_usize fixed_end (unat message_len))
       (LengthMismatch (length frame) fixed_end)) (\<lambda>cursor.
     r_bind (r_check (length frame < cursor) (Truncated fixed_end (cursor - length frame))) (\<lambda>_.
     r_bind (view_fields frame (fh_field_count header) cursor []) (\<lambda>(es, c).
     r_bind (r_check (c \<noteq> length frame) (LengthMismatch (length frame) c)) (\<lambda>_. Inr es))))))"

end
