(* ===== verification/Engine.thy ===== *)
theory Engine
  imports Stages Object_Pool Sidecar Sif_Codec "HOL-Library.Multiset" "HOL-Library.Sublist"
begin

text \<open>
  The engine as its callers see it: submission through the C interface (core/src/ffi.rs
  \<open>dologger_log\<close>), the consumer of the normal ring (core/src/pipeline/scheduler.rs),
  cooperative helping by producers (core/src/lib.rs) and the built-in text format
  (core/src/sink/console.rs). A record pointer is the number of its pool node. The ring is the
  queue it implements (oldest first, bounded by its capacity); a call is one step, so what is
  shown here holds for every order of whole calls. A sink is a parameter that says which
  writes it accepts. \<open>None\<close> is a panic, or an audit submission that waits for room.
\<close>

section \<open>Text format\<close>

definition pad3 :: "nat \<Rightarrow> string" where
  "pad3 n = replicate (3 - length (dec n)) (CHR ''0'') @ dec n"

definition console_format_record :: "log_record \<Rightarrow> bytes" where
  "console_format_record r =
     (let total_ms = unat (rec_timestamp r) div 1000000;
          secs = total_ms div 1000; millis = total_ms mod 1000
      in str_bytes (''['' @ dec secs @ ''.'' @ pad3 millis @ ''] ['' @ level_to_str (rec_level r) @
           ''] ['' @ dec (unat (rec_thread_id r)) @ ''] '') @ rs_display_lossy (rec_message r))"

text \<open>
  The formatter plugin is offered buffers of 256 bytes doubling to 1 MiB, so at most 13
  attempts; \<open>k\<close> counts the doublings.
\<close>

function format_attempt :: "'w formatter_entry \<Rightarrow> 'w \<Rightarrow> log_record \<Rightarrow> nat \<Rightarrow> bytes \<times> 'w" where
  "format_attempt fmt w r k =
     (case fmt w r (256 * 2 ^ k) of (rc, out, w') \<Rightarrow>
        if rc = 0 then (utf8_lossy (take (256 * 2 ^ k) out), w')
        else if rc = DO_LOG_ERR_BUFFER_TOO_SMALL \<and> k < 12 then format_attempt fmt w' r (k + 1)
        else (console_format_record r, w'))"
  by pat_completeness auto
termination by (relation "measure (\<lambda>(fmt, w, r, k). 12 - k)") auto

declare format_attempt.simps [simp del]

definition format_record :: "'w plugin_dispatch \<Rightarrow> 'w \<Rightarrow> log_record \<Rightarrow> bytes \<times> 'w" where
  "format_record d w r =
     (case pd_formatters d of
        [] \<Rightarrow> (console_format_record r, w)
      | fmt # _ \<Rightarrow> format_attempt fmt w r 0)"

section \<open>State\<close>

record control_stats =
  ks_accepted :: u64
  ks_processed :: u64
  ks_dropped :: u64
  ks_errors :: u64
  ks_sink_errors :: u64
  ks_shm_drops :: u64

definition record_accepted :: "control_stats \<Rightarrow> control_stats" where
  "record_accepted s = s\<lparr>ks_accepted := ks_accepted s + 1\<rparr>"

definition record_dropped :: "control_stats \<Rightarrow> control_stats" where
  "record_dropped s = s\<lparr>ks_dropped := ks_dropped s + 1\<rparr>"

definition record_error :: "control_stats \<Rightarrow> control_stats" where
  "record_error s = s\<lparr>ks_errors := ks_errors s + 1\<rparr>"

definition record_sink_error :: "control_stats \<Rightarrow> control_stats" where
  "record_sink_error s = s\<lparr>ks_sink_errors := ks_sink_errors s + 1, ks_errors := ks_errors s + 1\<rparr>"

definition record_shm_drop :: "control_stats \<Rightarrow> control_stats" where
  "record_shm_drop s = s\<lparr>ks_shm_drops := ks_shm_drops s + 1, ks_dropped := ks_dropped s + 1\<rparr>"

definition record_batch :: "u64 \<Rightarrow> u64 \<Rightarrow> u64 \<Rightarrow> control_stats \<Rightarrow> control_stats" where
  "record_batch processed dropped errors s =
     s\<lparr>ks_processed := ks_processed s + processed, ks_dropped := ks_dropped s + dropped,
       ks_errors := ks_errors s + errors\<rparr>"

record audit_queue =
  aq_capacity :: nat
  aq_queue :: "nat list"
  aq_closed :: bool

record ('w, 'sk, 'vk) engine =
  en_pool :: record_pool
  en_ring :: "nat list"
  en_ring_capacity :: nat
  en_audit :: "audit_queue option"
  en_helping :: "bool option"
  en_cx :: "('w, 'sk, 'vk) pipeline_context"
  en_stats :: control_stats
  en_sidecar :: "bytes option"
  en_sink :: "bytes list"
  en_helping_sink :: "bytes list"
  en_shm :: "bytes list option"
  en_last_error :: dologger_error

definition try_push :: "nat \<Rightarrow> nat list \<Rightarrow> nat \<Rightarrow> nat list option" where
  "try_push capacity q x = (if length q < capacity then Some (q @ [x]) else None)"

section \<open>Submission\<close>

record log_params =
  lp_level :: u8
  lp_message :: "bytes option"
  lp_source_file :: "bytes option"
  lp_source_line :: u32

text \<open>What the call reads from its surroundings: the time source, the thread and process, and
  the clock of the rate limiter.\<close>

record call_env =
  ce_id_hi :: u64
  ce_id_lo :: u64
  ce_now :: u64
  ce_thread :: u64
  ce_process :: u32
  ce_clock :: nat

text \<open>Filling the fresh record; \<open>None\<close> is a text that is not UTF-8.\<close>

definition fill_record :: "log_params \<Rightarrow> call_env \<Rightarrow> log_record \<Rightarrow> log_record option" where
  "fill_record p env r =
     (let r1 = (rec_set_id r (ce_id_hi env) (ce_id_lo env))\<lparr>rec_timestamp := ce_now env\<rparr>;
          r2 = r1\<lparr>rec_level := (case level_from_u8 (lp_level p) of Some l \<Rightarrow> l | None \<Rightarrow> Info)\<rparr>
      in case (case lp_message p of
                 None \<Rightarrow> Some r2
               | Some m \<Rightarrow>
                   if utf8_valid (c_str m) then Some (r2\<lparr>rec_message := rs_set (rec_message r2) (c_str m)\<rparr>)
                   else None) of
           None \<Rightarrow> None
         | Some r3 \<Rightarrow>
             (case (case lp_source_file p of
                      None \<Rightarrow> Some r3
                    | Some f \<Rightarrow>
                        if utf8_valid (c_str f) then Some (set_source_file r3 (c_str f)) else None) of
                None \<Rightarrow> None
              | Some r4 \<Rightarrow>
                  Some ((set_source_line r4 (lp_source_line p))
                    \<lparr>rec_thread_id := ucast (ce_thread env), rec_process_id := ce_process env\<rparr>)))"

definition put_record :: "nat \<Rightarrow> log_record \<Rightarrow> record_pool \<Rightarrow> record_pool" where
  "put_record i r p = p\<lparr>op_record := (op_record p)(i := r)\<rparr>"

text \<open>A helper takes the oldest record, formats and writes it, and returns it to the pool.\<close>

definition help_one ::
  "(bytes \<Rightarrow> bool) \<Rightarrow> nat \<Rightarrow> nat \<Rightarrow> (nat \<times> nat) \<times> ('w, 'sk, 'vk) engine \<Rightarrow>
     ((nat \<times> nat) \<times> ('w, 'sk, 'vk) engine) option" where
  "help_one accepts clock i = (\<lambda>((processed, dropped), e).
     (let r = op_record (en_pool e) i; c = en_cx e in
      case dl_evaluate (cx_drop c) (rec_level r) of (ok1, d) \<Rightarrow>
      (case (if ok1 then rl_evaluate (cx_limiter c) clock else (False, cx_limiter c)) of (ok2, l) \<Rightarrow>
        let e1 = e\<lparr>en_cx := c\<lparr>cx_drop := d, cx_limiter := l\<rparr>\<rparr>;
            (e2, counts) =
              (if ok2 then
                 let line = console_format_record r in
                 ((if accepts line then e1\<lparr>en_helping_sink := en_helping_sink e1 @ [line]\<rparr>
                   else e1\<lparr>en_stats := record_sink_error (en_stats e1)\<rparr>), (processed + 1, dropped))
               else (e1, (processed, dropped + 1)))
        in map_option (\<lambda>p. (counts, e2\<lparr>en_pool := p\<rparr>)) (pool_free (en_pool e2) i))))"

fun help_all ::
  "(bytes \<Rightarrow> bool) \<Rightarrow> nat \<Rightarrow> nat list \<Rightarrow> (nat \<times> nat) \<times> ('w, 'sk, 'vk) engine \<Rightarrow>
     ((nat \<times> nat) \<times> ('w, 'sk, 'vk) engine) option" where
  "help_all accepts clock [] s = Some s"
| "help_all accepts clock (i # is) s =
     (case help_one accepts clock i s of None \<Rightarrow> None | Some s' \<Rightarrow> help_all accepts clock is s')"

definition HELPING_BATCH :: nat where "HELPING_BATCH = 32"

text \<open>The result is the number of records drained. The fill level is compared with 0.90.\<close>

definition try_help ::
  "(bytes \<Rightarrow> bool) \<Rightarrow> nat \<Rightarrow> bool \<Rightarrow> ('w, 'sk, 'vk) engine \<Rightarrow> (nat \<times> ('w, 'sk, 'vk) engine) option" where
  "try_help accepts clock enabled e =
     (if \<not> enabled then Some (0, e)
      else if 10 * length (en_ring e) < 9 * en_ring_capacity e then Some (0, e)
      else
        let batch = take HELPING_BATCH (en_ring e) in
        map_option (\<lambda>((processed, dropped), e').
            (length batch, e'\<lparr>en_stats := record_batch (of_nat processed) (of_nat dropped) 0 (en_stats e')\<rparr>))
          (help_all accepts clock batch
             ((0, 0), e\<lparr>en_ring := drop HELPING_BATCH (en_ring e)\<rparr>)))"

text \<open>Giving a record back and reporting a code.\<close>

definition reject ::
  "nat \<Rightarrow> (control_stats \<Rightarrow> control_stats) \<Rightarrow> int \<Rightarrow> ('w, 'sk, 'vk) engine \<Rightarrow>
     (int \<times> ('w, 'sk, 'vk) engine) option" where
  "reject i bump code e =
     map_option (\<lambda>p. (code, e\<lparr>en_pool := p, en_stats := bump (en_stats e),
         en_last_error := set_last_error_code (en_last_error e) code\<rparr>))
       (pool_free (en_pool e) i)"

definition push_audit :: "nat \<Rightarrow> audit_queue \<Rightarrow> (bool \<times> audit_queue) option" where
  "push_audit i q =
     (if aq_closed q then Some (False, q)
      else map_option (\<lambda>q'. (True, q\<lparr>aq_queue := q'\<rparr>)) (try_push (aq_capacity q) (aq_queue q) i))"

definition accept :: "('w, 'sk, 'vk) engine \<Rightarrow> int \<times> ('w, 'sk, 'vk) engine" where
  "accept e = (DO_LOG_OK, e\<lparr>en_stats := record_accepted (en_stats e)\<rparr>)"

text \<open>Routing of the filled record \<open>i\<close>: audit records to their own queue, the others to the ring,
  where a producer may help to make room.\<close>

definition submit_record ::
  "(bytes \<Rightarrow> bool) \<Rightarrow> nat \<Rightarrow> nat \<Rightarrow> ('w, 'sk, 'vk) engine \<Rightarrow> (int \<times> ('w, 'sk, 'vk) engine) option" where
  "submit_record accepts clock i e =
     (if rec_level (op_record (en_pool e) i) = Audit then
        (case en_audit e of
           None \<Rightarrow> reject i record_error DO_LOG_ERR_AUDIT_NO_PERSISTENT_SINK e
         | Some q \<Rightarrow>
             (case push_audit i q of
                None \<Rightarrow> None
              | Some (True, q') \<Rightarrow> Some (accept (e\<lparr>en_audit := Some q'\<rparr>))
              | Some (False, _) \<Rightarrow> reject i record_error DO_LOG_ERR_SINK_WRITE_FAILED e))
      else
        (case try_push (en_ring_capacity e) (en_ring e) i of
           Some q \<Rightarrow> Some (accept (e\<lparr>en_ring := q\<rparr>))
         | None \<Rightarrow>
             (case en_helping e of
                None \<Rightarrow> reject i record_dropped DO_LOG_ERR_BUFFER_FULL e
              | Some enabled \<Rightarrow>
                  (case try_help accepts clock enabled e of
                     None \<Rightarrow> None
                   | Some (helped, e3) \<Rightarrow>
                       if 0 < helped then
                         (case try_push (en_ring_capacity e3) (en_ring e3) i of
                            Some q \<Rightarrow> Some (accept (e3\<lparr>en_ring := q\<rparr>))
                          | None \<Rightarrow> reject i record_dropped DO_LOG_ERR_BUFFER_FULL e3)
                       else reject i record_dropped DO_LOG_ERR_BUFFER_FULL e3))))"

definition dologger_log ::
  "(bytes \<Rightarrow> bool) \<Rightarrow> call_env \<Rightarrow> log_params option \<Rightarrow> ('w, 'sk, 'vk) engine \<Rightarrow>
     (int \<times> ('w, 'sk, 'vk) engine) option" where
  "dologger_log accepts env params e =
     (case params of
        None \<Rightarrow> Some (DO_LOG_ERR_INVALID_ARG, e)
      | Some p \<Rightarrow>
     (case pool_alloc (en_pool e) of
        (None, pool) \<Rightarrow>
          Some (DO_LOG_ERR_OUT_OF_MEMORY, e\<lparr>en_pool := pool, en_stats := record_error (en_stats e),
            en_last_error := set_last_error_code (en_last_error e) DO_LOG_ERR_OUT_OF_MEMORY\<rparr>)
      | (Some i, pool) \<Rightarrow>
          (case fill_record p env (op_record pool i) of
             None \<Rightarrow> reject i id DO_LOG_ERR_RECORD_INVALID_ENCODING (e\<lparr>en_pool := pool\<rparr>)
           | Some r \<Rightarrow> submit_record accepts (ce_clock env) i (e\<lparr>en_pool := put_record i r pool\<rparr>))))"

section \<open>The consumer\<close>

text \<open>Mirroring an accepted record to shared memory as a frame; a sink takes it or drops it.\<close>

definition mirror_record_to_shm ::
  "(bytes \<Rightarrow> bool) \<Rightarrow> log_record \<Rightarrow> ('w, 'sk, 'vk) engine \<Rightarrow> ('w, 'sk, 'vk) engine" where
  "mirror_record_to_shm accepts r e =
     (case en_shm e of
        None \<Rightarrow> e
      | Some frames \<Rightarrow>
          (case encode_record (cx_vendor (en_cx e)) r of
             Inl _ \<Rightarrow> e\<lparr>en_stats := record_sink_error (en_stats e)\<rparr>
           | Inr frame \<Rightarrow>
               if accepts frame then e\<lparr>en_shm := Some (frames @ [frame])\<rparr>
               else e\<lparr>en_stats := record_shm_drop (en_stats e)\<rparr>))"

definition write_signature ::
  "log_record \<Rightarrow> ('w, 'sk, 'vk) engine \<Rightarrow> ('w, 'sk, 'vk) engine" where
  "write_signature r e =
     (case take_last_signature (en_cx e) of (slot, c) \<Rightarrow>
        let e1 = e\<lparr>en_cx := c\<rparr> in
        case slot of
          None \<Rightarrow> e1
        | Some (lsn, ch, sig) \<Rightarrow>
            if lsn = rec_lsn r then
              e1\<lparr>en_sidecar := map_option (\<lambda>t. t @ write_sidecar_line lsn ch sig) (en_sidecar e1)\<rparr>
            else e1)"

text \<open>The drain callback for node \<open>i\<close>: pending lines and counts, and the engine.\<close>

definition consume_one ::
  "(bytes \<Rightarrow> bytes) \<Rightarrow> ('sk, 'vk) ed25519 \<Rightarrow> (bytes \<Rightarrow> bool) \<Rightarrow> (nat \<Rightarrow> nat) \<Rightarrow> nat \<Rightarrow>
     (bytes list \<times> nat \<times> nat) \<times> ('w, 'sk, 'vk) engine \<Rightarrow>
     ((bytes list \<times> nat \<times> nat) \<times> ('w, 'sk, 'vk) engine) option" where
  "consume_one sha ed shm_accepts clock i = (\<lambda>((pending, processed, dropped), e).
     (case run_pipeline sha ed (clock i) (op_record (en_pool e) i) (en_cx e) of
        None \<Rightarrow> None
      | Some (ok, r, c) \<Rightarrow>
          let e1 = e\<lparr>en_pool := put_record i r (en_pool e), en_cx := c\<rparr>;
              (counts, e2) =
                (if ok then
                   let e' = write_signature r e1;
                       (line, w) = format_record (cx_dispatch (en_cx e')) (cx_world (en_cx e')) r;
                       e'' = e'\<lparr>en_cx := (en_cx e')\<lparr>cx_world := w\<rparr>\<rparr>
                   in ((pending @ [line], processed + 1, dropped),
                       mirror_record_to_shm shm_accepts r e'')
                 else ((pending, processed, dropped + 1), e1))
          in map_option (\<lambda>p. (counts, e2\<lparr>en_pool := p\<rparr>)) (pool_free (en_pool e2) i)))"

fun consume_all ::
  "(bytes \<Rightarrow> bytes) \<Rightarrow> ('sk, 'vk) ed25519 \<Rightarrow> (bytes \<Rightarrow> bool) \<Rightarrow> (nat \<Rightarrow> nat) \<Rightarrow> nat list \<Rightarrow>
     (bytes list \<times> nat \<times> nat) \<times> ('w, 'sk, 'vk) engine \<Rightarrow>
     ((bytes list \<times> nat \<times> nat) \<times> ('w, 'sk, 'vk) engine) option" where
  "consume_all sha ed sa clock [] s = Some s"
| "consume_all sha ed sa clock (i # is) s =
     (case consume_one sha ed sa clock i s of
        None \<Rightarrow> None
      | Some s' \<Rightarrow> consume_all sha ed sa clock is s')"

definition dispatch_write :: "(bytes \<Rightarrow> bool) \<Rightarrow> bytes \<Rightarrow> ('w, 'sk, 'vk) engine \<Rightarrow> ('w, 'sk, 'vk) engine" where
  "dispatch_write accepts line e =
     (if accepts line then e\<lparr>en_sink := en_sink e @ [line]\<rparr>
      else e\<lparr>en_stats := record_sink_error (en_stats e)\<rparr>)"

definition all_stages :: "stage_index list" where
  "all_stages =
     [PreFilter, FilterStage, FieldProvider, Assembly, Processing, Formatting, SinkStage]"

text \<open>One drain cycle of up to \<open>n\<close> records.\<close>

definition consumer_cycle ::
  "(bytes \<Rightarrow> bytes) \<Rightarrow> ('sk, 'vk) ed25519 \<Rightarrow> (bytes \<Rightarrow> bool) \<Rightarrow> (bytes \<Rightarrow> bool) \<Rightarrow> (nat \<Rightarrow> nat) \<Rightarrow> nat \<Rightarrow>
     ('w, 'sk, 'vk) engine \<Rightarrow> ('w, 'sk, 'vk) engine option" where
  "consumer_cycle sha ed accepts shm_accepts clock n e =
     (case consume_all sha ed shm_accepts clock (take n (en_ring e))
         (([], 0, 0), e\<lparr>en_ring := drop n (en_ring e), en_cx := new_cycle (en_cx e)\<rparr>) of
        None \<Rightarrow> None
      | Some ((pending, processed, dropped), e1) \<Rightarrow>
          let e2 = fold (dispatch_write accepts) pending e1;
              errors = sum_list (map (\<lambda>s. ss_errors (cx_stats (en_cx e2) s)) all_stages)
          in Some (e2\<lparr>en_stats :=
               record_batch (of_nat processed) (of_nat dropped) errors (en_stats e2)\<rparr>))"

text \<open>The drain on shutdown repeats the cycle once with no bound on the batch.\<close>

definition final_drain ::
  "(bytes \<Rightarrow> bytes) \<Rightarrow> ('sk, 'vk) ed25519 \<Rightarrow> (bytes \<Rightarrow> bool) \<Rightarrow> (bytes \<Rightarrow> bool) \<Rightarrow> (nat \<Rightarrow> nat) \<Rightarrow>
     ('w, 'sk, 'vk) engine \<Rightarrow> ('w, 'sk, 'vk) engine option" where
  "final_drain sha ed accepts shm_accepts clock e =
     consumer_cycle sha ed accepts shm_accepts clock (length (en_ring e)) e"

section \<open>The pool behind the queues\<close>

definition pool_holds :: "record_pool \<Rightarrow> nat list \<Rightarrow> bool" where
  "pool_holds p owned \<longleftrightarrow> pool_inv \<lparr>po_pool = p, po_owned = owned\<rparr>"

lemma pool_holds_perm: "pool_holds p a \<longleftrightarrow> pool_holds p b" if "mset a = mset b"
  unfolding pool_holds_def pool_inv_def pool_inv_with_def
  using mset_eq_setD [of a b] mset_eq_imp_distinct_iff [of a b] that by auto

lemma pool_holds_alloc:
  assumes "pool_holds p owned" and "pool_alloc p = (x, p')"
  shows "case x of None \<Rightarrow> p' = p | Some i \<Rightarrow> pool_holds p' (i # owned) \<and> i \<notin> set owned \<and>
    op_record p' = op_record p \<and> op_record p i = rec_new (of_nat i)"
proof (cases x)
  case None
  with assms(2) show ?thesis by (auto simp: pool_alloc_def split: option.splits)
next
  case (Some i)
  obtain free where f: "pool_inv_with \<lparr>po_pool = p, po_owned = owned\<rparr> free"
    using assms(1) by (auto simp: pool_holds_def pool_inv_def)
  have s: "pool_step \<lparr>po_pool = p, po_owned = owned\<rparr> PAlloc = Some \<lparr>po_pool = p', po_owned = i # owned\<rparr>"
    using assms(2) Some by simp
  from pool_alloc_inv [OF f s] assms(2) Some obtain rest where r: "free = i # rest"
    "op_record p' = op_record p" "pool_inv_with \<lparr>po_pool = p', po_owned = i # owned\<rparr> rest"
    by (auto simp: pool_alloc_def split: option.splits)
  moreover have "op_record p i = rec_new (of_nat i)" "i \<notin> set owned"
    using f r(1) by (auto simp: pool_inv_with_def)
  ultimately show ?thesis using Some by (auto simp: pool_holds_def pool_inv_def)
qed

lemma pool_holds_put:
  assumes "pool_holds p owned" and "i \<in> set owned" and "rec_wf r"
    and "rec_pool_index r = rec_pool_index (op_record p i)"
  shows "pool_holds (put_record i r p) owned"
  using pool_inv_step [of "\<lparr>po_pool = p, po_owned = owned\<rparr>" "PMutate i r"] assms
  by (simp add: pool_holds_def put_record_def)

lemma pool_holds_free:
  assumes "pool_holds p owned" and "i \<in> set owned"
  shows "\<exists>p'. pool_free p i = Some p' \<and> pool_holds p' (remove1 i owned) \<and>
    (\<forall>j. j \<noteq> i \<longrightarrow> op_record p' j = op_record p j)"
proof -
  obtain free where f: "pool_inv_with \<lparr>po_pool = p, po_owned = owned\<rparr> free"
    using assms(1) by (auto simp: pool_holds_def pool_inv_def)
  then have i: "i < op_size p" "rec_pool_index (op_record p i) = of_nat i" "op_size p \<le> 2 ^ 32"
    using assms(2) by (auto simp: pool_inv_with_def)
  then have idx: "unat (rec_pool_index (op_record p i)) = i" by (simp add: unat_of_nat)
  from pool_free_inv [OF f, of i] assms(2) obtain s' where
    s: "pool_step \<lparr>po_pool = p, po_owned = owned\<rparr> (PFree i) = Some s'" "pool_inv_with s' (i # free)"
    by auto
  then obtain p' where p': "pool_free p i = Some p'" "s' = \<lparr>po_pool = p', po_owned = remove1 i owned\<rparr>"
    using assms(2) by auto
  with s(2) have "pool_holds p' (remove1 i owned)" by (auto simp: pool_holds_def pool_inv_def)
  moreover have "\<forall>j. j \<noteq> i \<longrightarrow> op_record p' j = op_record p j"
    using p'(1) idx i(1) by (auto simp: pool_free_def Let_def split: if_splits)
  ultimately show ?thesis using p'(1) by blast
qed

lemma pool_holds_wf:
  assumes "pool_holds p owned" and "i \<in> set owned"
  shows "rec_wf (op_record p i)"
  using assms by (auto simp: pool_holds_def pool_inv_def pool_inv_with_def)

lemma pool_holds_fresh: "pool_holds p (i # owned) \<Longrightarrow> i \<notin> set owned"
  by (auto simp: pool_holds_def pool_inv_def pool_inv_with_def)

section \<open>The invariant\<close>

text \<open>
  \<open>hand\<close> holds the records a call is working on. Audit records are only in the queue of the
  audit pipeline, all others only in the ring.
\<close>

definition audit_items :: "('w, 'sk, 'vk) engine \<Rightarrow> nat list" where
  "audit_items e = (case en_audit e of None \<Rightarrow> [] | Some q \<Rightarrow> aq_queue q)"

definition engine_ok_with :: "nat list \<Rightarrow> ('w, 'sk, 'vk) engine \<Rightarrow> bool" where
  "engine_ok_with hand e \<longleftrightarrow>
     pool_holds (en_pool e) (hand @ en_ring e @ audit_items e) \<and>
     (\<forall>i \<in> set (en_ring e). rec_level (op_record (en_pool e) i) \<noteq> Audit) \<and>
     (\<forall>i \<in> set (audit_items e). rec_level (op_record (en_pool e) i) = Audit) \<and>
     length (en_ring e) \<le> en_ring_capacity e \<and>
     context_ok (en_cx e) \<and> cx_last_signature (en_cx e) = None"

abbreviation engine_inv :: "('w, 'sk, 'vk) engine \<Rightarrow> bool" where
  "engine_inv \<equiv> engine_ok_with []"

definition params_fit :: "log_params \<Rightarrow> bool" where
  "params_fit p \<longleftrightarrow> (\<forall>f. lp_source_file p = Some f \<longrightarrow> fits_usize f)"

lemma engine_ok_frame [simp]:
  "engine_ok_with hand (e\<lparr>en_stats := s\<rparr>) = engine_ok_with hand e"
  "engine_ok_with hand (e\<lparr>en_last_error := le\<rparr>) = engine_ok_with hand e"
  "engine_ok_with hand (e\<lparr>en_sink := l\<rparr>) = engine_ok_with hand e"
  "engine_ok_with hand (e\<lparr>en_helping_sink := l\<rparr>) = engine_ok_with hand e"
  "engine_ok_with hand (e\<lparr>en_shm := m\<rparr>) = engine_ok_with hand e"
  "engine_ok_with hand (e\<lparr>en_sidecar := sc\<rparr>) = engine_ok_with hand e"
  by (simp_all add: engine_ok_with_def audit_items_def)

lemma engine_ok_cx:
  "engine_ok_with hand e \<Longrightarrow> context_ok c \<Longrightarrow> cx_last_signature c = None \<Longrightarrow>
     engine_ok_with hand (e\<lparr>en_cx := c\<rparr>)"
  by (simp add: engine_ok_with_def audit_items_def)

lemma engine_ok_perm: "mset a = mset b \<Longrightarrow> engine_ok_with a e = engine_ok_with b e"
  unfolding engine_ok_with_def by (subst pool_holds_perm [of _ "b @ en_ring e @ audit_items e"]) simp_all

lemma engine_ok_free:
  assumes "engine_ok_with (i # hand) e"
  shows "\<exists>p. pool_free (en_pool e) i = Some p \<and> engine_ok_with hand (e\<lparr>en_pool := p\<rparr>) \<and>
    (\<forall>j. j \<noteq> i \<longrightarrow> op_record p j = op_record (en_pool e) j)"
proof -
  have h: "pool_holds (en_pool e) (i # hand @ en_ring e @ audit_items e)"
    using assms by (simp add: engine_ok_with_def)
  from pool_holds_free [OF h, of i] obtain p where p: "pool_free (en_pool e) i = Some p"
    "pool_holds p (hand @ en_ring e @ audit_items e)"
    "\<forall>j. j \<noteq> i \<longrightarrow> op_record p j = op_record (en_pool e) j" by auto
  moreover have "i \<notin> set (en_ring e)" "i \<notin> set (audit_items e)" using pool_holds_fresh [OF h] by auto
  then have "\<forall>j \<in> set (en_ring e). op_record p j = op_record (en_pool e) j"
    "\<forall>j \<in> set (audit_items e). op_record p j = op_record (en_pool e) j" using p(3) by metis+
  ultimately show ?thesis using assms by (simp add: engine_ok_with_def audit_items_def)
qed

lemma engine_ok_put:
  assumes "engine_ok_with (i # hand) e" and "rec_wf r"
    and "rec_pool_index r = rec_pool_index (op_record (en_pool e) i)"
  shows "engine_ok_with (i # hand) (e\<lparr>en_pool := put_record i r (en_pool e)\<rparr>)"
proof -
  have h: "pool_holds (en_pool e) (i # hand @ en_ring e @ audit_items e)"
    using assms(1) by (simp add: engine_ok_with_def)
  have "pool_holds (put_record i r (en_pool e)) (i # hand @ en_ring e @ audit_items e)"
    using pool_holds_put [OF h _ assms(2,3)] by simp
  moreover have "i \<notin> set (en_ring e)" "i \<notin> set (audit_items e)" using pool_holds_fresh [OF h] by auto
  then have "\<forall>j \<in> set (en_ring e). op_record (put_record i r (en_pool e)) j = op_record (en_pool e) j"
    "\<forall>j \<in> set (audit_items e). op_record (put_record i r (en_pool e)) j = op_record (en_pool e) j"
    by (auto simp: put_record_def)
  ultimately show ?thesis using assms(1) by (simp add: engine_ok_with_def audit_items_def)
qed

lemma engine_ok_alloc:
  assumes "engine_ok_with hand e" and "pool_alloc (en_pool e) = (x, p)"
  shows "case x of None \<Rightarrow> p = en_pool e | Some i \<Rightarrow> engine_ok_with (i # hand) (e\<lparr>en_pool := p\<rparr>) \<and>
    op_record p = op_record (en_pool e) \<and> op_record p i = rec_new (of_nat i)"
proof -
  have "pool_holds (en_pool e) (hand @ en_ring e @ audit_items e)"
    using assms(1) by (simp add: engine_ok_with_def)
  from pool_holds_alloc [OF this assms(2)] assms(1) show ?thesis
    by (cases x) (auto simp: engine_ok_with_def audit_items_def)
qed

lemma engine_ok_push:
  assumes "engine_ok_with [i] e" and "try_push (en_ring_capacity e) (en_ring e) i = Some q"
    and "rec_level (op_record (en_pool e) i) \<noteq> Audit"
  shows "engine_inv (e\<lparr>en_ring := q\<rparr>)" and "q = en_ring e @ [i]"
proof -
  show q: "q = en_ring e @ [i]" using assms(2) by (simp add: try_push_def split: if_splits)
  have "pool_holds (en_pool e) (q @ audit_items e)"
    using assms(1) pool_holds_perm [of "i # en_ring e @ audit_items e" "q @ audit_items e"]
    by (simp add: engine_ok_with_def q)
  then show "engine_inv (e\<lparr>en_ring := q\<rparr>)"
    using assms by (auto simp: engine_ok_with_def audit_items_def try_push_def split: if_splits)
qed

text \<open>The counters: what was accepted and is neither processed nor dropped since is queued.\<close>

definition engine_balance :: "('w, 'sk, 'vk) engine \<Rightarrow> u64" where
  "engine_balance e =
     ks_accepted (en_stats e) + ks_shm_drops (en_stats e) - ks_processed (en_stats e) -
     ks_dropped (en_stats e) - of_nat (length (en_ring e))"

lemmas stats_simps = record_accepted_def record_dropped_def record_error_def record_sink_error_def
  record_shm_drop_def record_batch_def

definition queues ::
  "('w, 'sk, 'vk) engine \<Rightarrow> nat list \<times> nat \<times> audit_queue option \<times> bool option" where
  "queues e = (en_ring e, en_ring_capacity e, en_audit e, en_helping e)"

definition outputs ::
  "('w, 'sk, 'vk) engine \<Rightarrow> bytes list \<times> bytes option \<times> bytes list option \<times> u64 \<times> (stage_index \<Rightarrow> stage_stats) \<times>
     (('sk, 'vk) signature_engine \<times> bool \<times> bytes \<times> u64 \<times> (u64 \<times> bytes \<times> bytes) option \<times> 'w plugin_dispatch)" where
  "outputs e = (en_sink e, en_sidecar e, en_shm e, cx_lsn (en_cx e), cx_stats (en_cx e), chain_part (en_cx e))"

section \<open>Submission keeps the invariant\<close>

lemma fill_record_ok:
  assumes "rec_wf r" and "params_fit p" and "fill_record p env r = Some r'"
  shows "rec_wf r' \<and> rec_pool_index r' = rec_pool_index r"
proof -
  have len: "length (c_str f) \<le> length f" for f by (simp add: c_str_def length_takeWhile_le)
  have fits: "fits_usize (c_str f)" if "lp_source_file p = Some f" for f
    using assms(2) that len [of f] by (auto simp: params_fit_def fits_usize_def)
  have id: "rec_wf (rec_set_id r hi lo)" "rec_pool_index (rec_set_id r hi lo) = rec_pool_index r" for hi lo
    using assms(1) rec_put_fixed_all(2) [of r 1 "le64 hi @ le64 lo"]
    by (simp_all add: rec_set_id_def rec_wf_puts fits_usize_def rec_fixed_def)
  have fl: "rec_wf r \<Longrightarrow> fits_usize v \<Longrightarrow> rec_wf (set_source_file r v)"
    "rec_pool_index (set_source_file r v) = rec_pool_index r"
    "rec_wf r \<Longrightarrow> rec_wf (set_source_line r l)" "rec_pool_index (set_source_line r l) = rec_pool_index r" for r v l
    using rec_put_fixed_all(1) [of r KV_TAG_SOURCE_FILE v] rec_put_fixed_all(3) [of r KV_TAG_SOURCE_LINE "ucast l"]
    by (simp_all add: set_source_file_def set_source_line_def rec_wf_puts rec_fixed_def)
  have up: "rec_wf (r\<lparr>rec_timestamp := t\<rparr>) = rec_wf r"
    "rec_wf r \<Longrightarrow> rs_wf m \<Longrightarrow> rec_wf (r\<lparr>rec_message := rs_set m v\<rparr>)" for r t m v
    by (simp_all add: rec_wf_def rec_slots_def rs_set_def)
  have idm: "rs_wf (rec_message (rec_set_id r hi lo))" for hi lo using id(1) by (simp add: rec_wf_def)
  show ?thesis using assms(3) fits
    by (auto simp: fill_record_def Let_def id idm fl up split: option.splits if_splits)
qed

lemma reject_ok:
  assumes "engine_ok_with (i # hand) e"
  shows "\<exists>e'. reject i bump code e = Some (code, e') \<and> engine_ok_with hand e' \<and>
    queues e' = queues e \<and> outputs e' = outputs e \<and> en_stats e' = bump (en_stats e) \<and>
    (\<forall>j. j \<noteq> i \<longrightarrow> op_record (en_pool e') j = op_record (en_pool e) j)"
proof -
  from engine_ok_free [OF assms] obtain p where "pool_free (en_pool e) i = Some p"
    "engine_ok_with hand (e\<lparr>en_pool := p\<rparr>)" "\<forall>j. j \<noteq> i \<longrightarrow> op_record p j = op_record (en_pool e) j"
    by blast
  then show ?thesis by (simp add: reject_def queues_def outputs_def)
qed

lemma dl_rl_context:
  assumes "context_ok c" and "cx_last_signature c = None"
  shows "context_ok (c\<lparr>cx_drop := d, cx_limiter := l\<rparr>)"
    and "cx_last_signature (c\<lparr>cx_drop := d, cx_limiter := l\<rparr>) = None"
    and "chain_part (c\<lparr>cx_drop := d, cx_limiter := l\<rparr>) = chain_part c"
  using assms by (simp_all add: context_ok_def chain_part_def)

lemma help_one_ok:
  assumes "engine_ok_with (i # hand) e"
  shows "\<exists>p' d' e'. help_one accepts clock i ((p, d), e) = Some ((p', d'), e') \<and>
    engine_ok_with hand e' \<and> p' + d' = p + d + 1 \<and> queues e' = queues e \<and> outputs e' = outputs e \<and>
    engine_balance e' = engine_balance e \<and>
    (\<forall>j. j \<noteq> i \<longrightarrow> op_record (en_pool e') j = op_record (en_pool e) j) \<and>
    (\<exists>js. subseq js [i] \<and> p' = p + length js \<and> en_helping_sink e' = en_helping_sink e @
       filter accepts (map (\<lambda>j. console_format_record (op_record (en_pool e) j)) js))"
proof -
  let ?r = "op_record (en_pool e) i" and ?c = "en_cx e"
  obtain ok1 d1 where dl: "dl_evaluate (cx_drop ?c) (rec_level ?r) = (ok1, d1)" by fastforce
  obtain ok2 l where rl: "(if ok1 then rl_evaluate (cx_limiter ?c) clock else (False, cx_limiter ?c)) = (ok2, l)"
    by fastforce
  define e1 where "e1 = e\<lparr>en_cx := ?c\<lparr>cx_drop := d1, cx_limiter := l\<rparr>\<rparr>"
  define line where "line = console_format_record ?r"
  define e2 where "e2 = (if ok2 then
      (if accepts line then e1\<lparr>en_helping_sink := en_helping_sink e1 @ [line]\<rparr>
       else e1\<lparr>en_stats := record_sink_error (en_stats e1)\<rparr>) else e1)"
  define cs where "cs = (if ok2 then (p + 1, d) else (p, d + 1))"
  have "context_ok ?c" "cx_last_signature ?c = None" using assms by (simp_all add: engine_ok_with_def)
  note cx = dl_rl_context [OF this, where d = d1 and l = l]
  have "engine_ok_with (i # hand) e1" unfolding e1_def using engine_ok_cx [OF assms cx(1,2)] .
  then have ok: "engine_ok_with (i # hand) e2" by (simp add: e2_def)
  from engine_ok_free [OF ok] obtain q where q: "pool_free (en_pool e2) i = Some q"
    "engine_ok_with hand (e2\<lparr>en_pool := q\<rparr>)" "\<forall>j. j \<noteq> i \<longrightarrow> op_record q j = op_record (en_pool e2) j"
    by blast
  have frame: "en_pool e2 = en_pool e" "queues e2 = queues e" "outputs e2 = outputs e" "engine_balance e2 = engine_balance e"
    by (simp_all add: e2_def e1_def queues_def outputs_def cx(3) engine_balance_def stats_simps)
  have "help_one accepts clock i ((p, d), e) = Some (cs, e2\<lparr>en_pool := q\<rparr>)"
    using q(1) [unfolded frame(1)] dl rl
    by (simp add: help_one_def cs_def e2_def e1_def line_def Let_def)
  moreover have "fst cs + snd cs = p + d + 1" by (simp add: cs_def)
  moreover have "subseq (if ok2 then [i] else []) [i] \<and> fst cs = p + length (if ok2 then [i] else []) \<and>
      en_helping_sink e2 = en_helping_sink e @ filter accepts
        (map (\<lambda>j. console_format_record (op_record (en_pool e) j)) (if ok2 then [i] else []))"
    by (simp add: cs_def e2_def e1_def line_def)
  ultimately show ?thesis using q(2,3) frame
    by (cases cs) (auto simp: queues_def outputs_def engine_balance_def simp del: subseq_Cons2_iff split del: if_split)
qed

lemma engine_ok_fresh:
  "engine_ok_with (i # hand) e \<Longrightarrow> i \<notin> set (en_ring e) \<and> i \<notin> set (audit_items e) \<and> i \<notin> set hand"
  using pool_holds_fresh [of "en_pool e" i "hand @ en_ring e @ audit_items e"]
  by (auto simp: engine_ok_with_def)

lemma help_all_ok:
  assumes "engine_ok_with (ns @ hand) e"
  shows "\<exists>p' d' e'. help_all accepts clock ns ((p, d), e) = Some ((p', d'), e') \<and>
    engine_ok_with hand e' \<and> p' + d' = p + d + length ns \<and> queues e' = queues e \<and>
    outputs e' = outputs e \<and> engine_balance e' = engine_balance e \<and>
    (\<forall>j. j \<notin> set ns \<longrightarrow> op_record (en_pool e') j = op_record (en_pool e) j) \<and>
    (\<exists>js. subseq js ns \<and> p' = p + length js \<and> en_helping_sink e' = en_helping_sink e @
       filter accepts (map (\<lambda>j. console_format_record (op_record (en_pool e) j)) js))"
  using assms
proof (induction ns arbitrary: p d e)
  case Nil
  then show ?case by (auto intro!: exI [of _ "[] :: nat list"])
next
  case (Cons i ns)
  from help_one_ok [of i "ns @ hand" e accepts clock p d] Cons.prems obtain p1 d1 e1 js1 where
    one: "help_one accepts clock i ((p, d), e) = Some ((p1, d1), e1)" "engine_ok_with (ns @ hand) e1"
      "p1 + d1 = p + d + 1" "queues e1 = queues e" "outputs e1 = outputs e"
      "engine_balance e1 = engine_balance e"
      "\<forall>j. j \<noteq> i \<longrightarrow> op_record (en_pool e1) j = op_record (en_pool e) j"
    and js1: "subseq js1 [i]" "p1 = p + length js1" "en_helping_sink e1 = en_helping_sink e @
       filter accepts (map (\<lambda>j. console_format_record (op_record (en_pool e) j)) js1)"
    by auto
  from Cons.IH [OF one(2), of p1 d1] obtain p2 d2 e2 js2 where
    rest: "help_all accepts clock ns ((p1, d1), e1) = Some ((p2, d2), e2)" "engine_ok_with hand e2"
      "p2 + d2 = p1 + d1 + length ns" "queues e2 = queues e1" "outputs e2 = outputs e1"
      "engine_balance e2 = engine_balance e1"
      "\<forall>j. j \<notin> set ns \<longrightarrow> op_record (en_pool e2) j = op_record (en_pool e1) j"
    and js2: "subseq js2 ns" "p2 = p1 + length js2" "en_helping_sink e2 = en_helping_sink e1 @
       filter accepts (map (\<lambda>j. console_format_record (op_record (en_pool e1) j)) js2)" by blast
  have "set js2 \<subseteq> set ns" using js2(1) by (auto elim: list_emb_set)
  moreover have "i \<notin> set ns" using engine_ok_fresh [of i "ns @ hand" e] Cons.prems by simp
  ultimately have "\<forall>j \<in> set js2. j \<noteq> i" by blast
  then have "\<forall>j \<in> set js2. op_record (en_pool e1) j = op_record (en_pool e) j" using one(7) by simp
  then have lines: "map (\<lambda>j. console_format_record (op_record (en_pool e1) j)) js2 =
      map (\<lambda>j. console_format_record (op_record (en_pool e) j)) js2" by simp
  have "subseq (js1 @ js2) (i # ns) \<and> p2 = p + length (js1 @ js2) \<and> en_helping_sink e2 = en_helping_sink e @
       filter accepts (map (\<lambda>j. console_format_record (op_record (en_pool e) j)) (js1 @ js2))"
    using js1 js2 [unfolded lines] list_emb_append_mono [OF js1(1) js2(1)] by simp
  moreover have "help_all accepts clock (i # ns) ((p, d), e) = Some ((p2, d2), e2)" "queues e2 = queues e"
      "outputs e2 = outputs e" "engine_balance e2 = engine_balance e" "p2 + d2 = p + d + length (i # ns)"
      "\<forall>j. j \<notin> set (i # ns) \<longrightarrow> op_record (en_pool e2) j = op_record (en_pool e) j"
    using one rest by simp_all
  ultimately show ?case using rest(2) by blast
qed

lemma take_batch:
  assumes "engine_ok_with hand e"
  shows "engine_ok_with (take n (en_ring e) @ hand) (e\<lparr>en_ring := drop n (en_ring e)\<rparr>)"
    and "engine_balance (e\<lparr>en_ring := drop n (en_ring e)\<rparr>) = engine_balance e + of_nat (length (take n (en_ring e)))"
proof -
  let ?b = "take n (en_ring e)"
  have "mset (en_ring e) = mset ?b + mset (drop n (en_ring e))"
    by (metis append_take_drop_id mset_append)
  then have "mset (hand @ en_ring e @ audit_items e) =
      mset ((?b @ hand) @ drop n (en_ring e) @ audit_items e)" by simp
  from pool_holds_perm [OF this] assms
  have "pool_holds (en_pool e) ((?b @ hand) @ drop n (en_ring e) @ audit_items e)"
    by (simp add: engine_ok_with_def)
  then show "engine_ok_with (?b @ hand) (e\<lparr>en_ring := drop n (en_ring e)\<rparr>)" using assms
    by (auto simp: engine_ok_with_def audit_items_def dest: in_set_dropD)
  have "length (en_ring e) = length ?b + length (drop n (en_ring e))" by simp
  then have "(of_nat (length (en_ring e)) :: u64) = of_nat (length ?b) + of_nat (length (drop n (en_ring e)))"
    by (metis of_nat_add)
  then show "engine_balance (e\<lparr>en_ring := drop n (en_ring e)\<rparr>) = engine_balance e + of_nat (length ?b)"
    by (simp add: engine_balance_def del: length_drop length_take)
qed

text \<open>Helping takes a batch off the ring; the record in hand stays.\<close>

lemma try_help_ok:
  assumes "engine_ok_with hand e"
  shows "\<exists>h e'. try_help accepts clock enabled e = Some (h, e') \<and> engine_ok_with hand e' \<and>
    h \<le> HELPING_BATCH \<and> h \<le> length (en_ring e) \<and> en_ring e' = drop h (en_ring e) \<and> en_ring_capacity e' = en_ring_capacity e \<and>
    en_audit e' = en_audit e \<and> en_helping e' = en_helping e \<and> outputs e' = outputs e \<and>
    engine_balance e' = engine_balance e \<and> (0 < h \<longrightarrow> enabled) \<and>
    (\<forall>j. j \<notin> set (take h (en_ring e)) \<longrightarrow> op_record (en_pool e') j = op_record (en_pool e) j) \<and>
    (\<exists>js. subseq js (take h (en_ring e)) \<and> en_helping_sink e' = en_helping_sink e @
       filter accepts (map (\<lambda>j. console_format_record (op_record (en_pool e) j)) js))"
proof (cases "enabled \<and> \<not> 10 * length (en_ring e) < 9 * en_ring_capacity e")
  case False
  then show ?thesis using assms
    by (auto simp: try_help_def HELPING_BATCH_def intro!: exI [of _ "[] :: nat list"])
next
  case True
  let ?b = "take HELPING_BATCH (en_ring e)"
  let ?e = "e\<lparr>en_ring := drop HELPING_BATCH (en_ring e)\<rparr>"
  from help_all_ok [OF take_batch(1) [OF assms, of HELPING_BATCH], of accepts clock 0 0] obtain p d e' js where
    h: "help_all accepts clock ?b ((0, 0), ?e) = Some ((p, d), e')" "engine_ok_with hand e'"
      "p + d = length ?b" "queues e' = queues ?e" "outputs e' = outputs ?e"
      "engine_balance e' = engine_balance ?e"
      "\<forall>j. j \<notin> set ?b \<longrightarrow> op_record (en_pool e') j = op_record (en_pool ?e) j"
    and js: "subseq js ?b" "en_helping_sink e' = en_helping_sink e @
       filter accepts (map (\<lambda>j. console_format_record (op_record (en_pool e) j)) js)" by auto
  let ?e' = "e'\<lparr>en_stats := record_batch (of_nat p) (of_nat d) 0 (en_stats e')\<rparr>"
  have run: "try_help accepts clock enabled e = Some (length ?b, ?e')"
    using True h(1) by (simp add: try_help_def Let_def)
  have len: "drop (length ?b) (en_ring e) = drop HELPING_BATCH (en_ring e)"
    "take (length ?b) (en_ring e) = ?b" by (auto simp: min_def)
  have "engine_balance ?e' = engine_balance e' - of_nat (p + d)"
    by (simp add: engine_balance_def stats_simps)
  then have "engine_balance ?e' = engine_balance e" using h(3,6) take_batch(2) [OF assms] by simp
  then show ?thesis unfolding run using h js True len
    by (auto simp: queues_def outputs_def)
qed

text \<open>Helping takes records off the front of the ring and writes the raw ones to its own sink: the
  lines are the built-in text of the records as submitted, message included, in ring order,
  some left out by the policies. The configured sink, shared memory, the LSN counter and the
  statistics of the stages see nothing of them: secret detection, filters and formatters are
  bypassed.\<close>

theorem helping_bypasses_pipeline:
  assumes "engine_ok_with hand e" and "try_help accepts clock enabled e = Some (h, e')"
  shows "en_ring e' = drop h (en_ring e) \<and> en_sink e' = en_sink e \<and> en_shm e' = en_shm e \<and>
    cx_lsn (en_cx e') = cx_lsn (en_cx e) \<and> cx_stats (en_cx e') = cx_stats (en_cx e) \<and>
    (\<exists>js. subseq js (take h (en_ring e)) \<and> en_helping_sink e' = en_helping_sink e @
       filter accepts (map (\<lambda>j. console_format_record (op_record (en_pool e) j)) js)) \<and>
    (\<forall>r. \<exists>prefix. console_format_record r = prefix @ rs_display_lossy (rec_message r))"
proof -
  have "\<forall>r. \<exists>prefix. console_format_record r = prefix @ rs_display_lossy (rec_message r)"
    by (simp add: console_format_record_def Let_def)
  then show ?thesis
    using try_help_ok [OF assms(1), of accepts clock enabled] assms(2)
    by (auto simp: outputs_def)
qed

lemmas log_codes = DO_LOG_OK_def DO_LOG_ERR_BUFFER_FULL_def DO_LOG_ERR_INVALID_ARG_def
  DO_LOG_ERR_OUT_OF_MEMORY_def DO_LOG_ERR_RECORD_INVALID_ENCODING_def
  DO_LOG_ERR_AUDIT_NO_PERSISTENT_SINK_def DO_LOG_ERR_SINK_WRITE_FAILED_def

text \<open>How a call that holds record \<open>i\<close> ends.\<close>

definition settled :: "nat \<Rightarrow> ('w, 'sk, 'vk) engine \<Rightarrow> int \<Rightarrow> ('w, 'sk, 'vk) engine \<Rightarrow> bool" where
  "settled i e code e' \<longleftrightarrow> engine_inv e' \<and> outputs e' = outputs e \<and>
     (\<exists>h \<le> HELPING_BATCH. (0 < h \<longrightarrow> en_helping e = Some True) \<and>
        (if code = DO_LOG_OK then
           op_record (en_pool e') i = op_record (en_pool e) i \<and>
           (if rec_level (op_record (en_pool e) i) = Audit
            then en_ring e' = en_ring e \<and> audit_items e' = audit_items e @ [i] \<and>
              engine_balance e' = engine_balance e + 1
            else en_ring e' = drop h (en_ring e) @ [i] \<and> audit_items e' = audit_items e \<and>
              engine_balance e' = engine_balance e)
         else en_ring e' = drop h (en_ring e) \<and> audit_items e' = audit_items e \<and>
           engine_balance e' = engine_balance e - (if code = DO_LOG_ERR_BUFFER_FULL then 1 else 0)) \<and>
        (\<forall>j \<in> set (drop h (en_ring e)) \<union> set (audit_items e).
           op_record (en_pool e') j = op_record (en_pool e) j))"

lemma settled_reject:
  assumes "engine_ok_with [i] e" and "code \<noteq> DO_LOG_OK"
    and "engine_balance (e\<lparr>en_stats := bump (en_stats e)\<rparr>) =
      engine_balance e - (if code = DO_LOG_ERR_BUFFER_FULL then 1 else 0)"
  shows "\<exists>e'. reject i bump code e = Some (code, e') \<and> settled i e code e'"
proof -
  from reject_ok [OF assms(1), of bump code] obtain e' where
    e': "reject i bump code e = Some (code, e')" "engine_inv e'" "queues e' = queues e"
      "outputs e' = outputs e" "en_stats e' = bump (en_stats e)"
      "\<forall>j. j \<noteq> i \<longrightarrow> op_record (en_pool e') j = op_record (en_pool e) j" by auto
  have "engine_balance e' = engine_balance (e\<lparr>en_stats := bump (en_stats e)\<rparr>)"
    using e'(3,5) by (simp add: engine_balance_def queues_def)
  moreover have "audit_items e' = audit_items e" using e'(3) by (simp add: queues_def audit_items_def)
  ultimately have "settled i e code e'"
    using e' assms engine_ok_fresh [OF assms(1)]
    by (auto simp: settled_def queues_def intro!: exI [of _ "0 :: nat"])
  with e'(1) show ?thesis by blast
qed

lemma bump_balance:
  "engine_balance (e\<lparr>en_stats := record_error (en_stats e)\<rparr>) = engine_balance e"
  "engine_balance (e\<lparr>en_stats := record_dropped (en_stats e)\<rparr>) = engine_balance e - 1"
  by (simp_all add: engine_balance_def stats_simps)

lemma settled_audit:
  assumes "engine_ok_with [i] e" and "rec_level (op_record (en_pool e) i) = Audit"
    and "en_audit e = Some q" and "push_audit i q = Some (True, q')"
  shows "case accept (e\<lparr>en_audit := Some q'\<rparr>) of (code, e') \<Rightarrow> settled i e code e'"
proof -
  let ?e = "e\<lparr>en_audit := Some q'\<rparr>"
  have items: "audit_items ?e = audit_items e @ [i]"
    using assms(3,4) by (auto simp: audit_items_def push_audit_def try_push_def split: if_splits)
  have "pool_holds (en_pool e) (en_ring e @ audit_items e @ [i])"
    using assms(1) pool_holds_perm [of "i # en_ring e @ audit_items e" "en_ring e @ audit_items e @ [i]"]
    by (simp add: engine_ok_with_def)
  then have "engine_inv ?e"
    using assms(1,2) by (simp add: engine_ok_with_def items)
  moreover have "audit_items (?e\<lparr>en_stats := s\<rparr>) = audit_items ?e" for s by (simp add: audit_items_def)
  ultimately show ?thesis
    using assms items
    by (auto simp: accept_def settled_def outputs_def engine_balance_def stats_simps
        intro!: exI [of _ "0 :: nat"])
qed

lemma settled_push:
  assumes "engine_ok_with [i] e" and "engine_ok_with [i] e0"
    and "try_push (en_ring_capacity e) (en_ring e) i = Some q"
    and lvl: "rec_level (op_record (en_pool e0) i) \<noteq> Audit"
    and h: "h \<le> HELPING_BATCH" "0 < h \<longrightarrow> en_helping e0 = Some True"
      "en_ring e = drop h (en_ring e0)" "en_audit e = en_audit e0" "outputs e = outputs e0"
      "engine_balance e = engine_balance e0"
      "\<forall>j. j \<notin> set (take h (en_ring e0)) \<longrightarrow> op_record (en_pool e) j = op_record (en_pool e0) j"
  shows "case accept (e\<lparr>en_ring := q\<rparr>) of (code, e') \<Rightarrow> settled i e0 code e'"
proof -
  have dist: "distinct (en_ring e0 @ audit_items e0)"
    using assms(2) by (auto simp: engine_ok_with_def pool_holds_def pool_inv_def pool_inv_with_def)
  have i: "op_record (en_pool e) i = op_record (en_pool e0) i"
    using h(7) engine_ok_fresh [OF assms(2)] by (auto dest: in_set_takeD)
  note p = engine_ok_push [OF assms(1,3)]
  have keep: "\<forall>j \<in> set (drop h (en_ring e0)) \<union> set (audit_items e0). op_record (en_pool e) j = op_record (en_pool e0) j"
    using h(7) dist append_take_drop_id [of h "en_ring e0"]
    by (metis Un_iff disjoint_iff distinct_append in_set_takeD set_take_disj_set_drop_if_distinct order_refl)
  have bal: "engine_balance (e\<lparr>en_ring := q, en_stats := record_accepted (en_stats e)\<rparr>) = engine_balance e"
    using p(2) i lvl by (simp add: engine_balance_def stats_simps)
  have items: "audit_items (e\<lparr>en_ring := q, en_stats := record_accepted (en_stats e)\<rparr>) = audit_items e0"
    using h(4) by (simp add: audit_items_def)
  show ?thesis
    using p i lvl h keep bal items
    by (auto simp: accept_def settled_def outputs_def intro!: exI [of _ h])
qed

lemma settled_help:
  assumes ok: "engine_ok_with [i] e" and lvl: "rec_level (op_record (en_pool e) i) \<noteq> Audit"
    and full: "try_push (en_ring_capacity e) (en_ring e) i = None" and h: "en_helping e = Some enabled"
  shows "\<exists>code e'. (case try_help accepts clock enabled e of
      None \<Rightarrow> None
    | Some (helped, e3) \<Rightarrow>
        if 0 < helped then
          (case try_push (en_ring_capacity e3) (en_ring e3) i of
             Some q \<Rightarrow> Some (accept (e3\<lparr>en_ring := q\<rparr>))
           | None \<Rightarrow> reject i record_dropped DO_LOG_ERR_BUFFER_FULL e3)
        else reject i record_dropped DO_LOG_ERR_BUFFER_FULL e3) = Some (code, e') \<and> settled i e code e'"
proof -
  from try_help_ok [OF ok, of accepts clock enabled] obtain n e3 where
    t: "try_help accepts clock enabled e = Some (n, e3)" "engine_ok_with [i] e3" "n \<le> HELPING_BATCH" "n \<le> length (en_ring e)"
      "en_ring e3 = drop n (en_ring e)" "en_ring_capacity e3 = en_ring_capacity e"
      "en_audit e3 = en_audit e" "en_helping e3 = en_helping e" "outputs e3 = outputs e"
      "engine_balance e3 = engine_balance e" "0 < n \<longrightarrow> enabled"
      "\<forall>j. j \<notin> set (take n (en_ring e)) \<longrightarrow> op_record (en_pool e3) j = op_record (en_pool e) j"
    by auto
  show ?thesis
  proof (cases "0 < n \<and> try_push (en_ring_capacity e3) (en_ring e3) i \<noteq> None")
    case True
    then obtain q where q: "try_push (en_ring_capacity e3) (en_ring e3) i = Some q" by blast
    have "0 < n \<longrightarrow> en_helping e = Some True" using t(11) h by simp
    from settled_push [OF t(2) ok q lvl t(3) this t(5,7,9,10,12)]
    show ?thesis using t(1) True q by (auto simp: accept_def)
  next
    case False
    have "n = 0"
    proof (rule ccontr)
      assume n: "n \<noteq> 0"
      with False have "en_ring_capacity e \<le> length (en_ring e) - n"
        by (auto simp: try_push_def t(5,6) split: if_splits)
      moreover have "length (en_ring e) \<le> en_ring_capacity e" using ok by (simp add: engine_ok_with_def)
      ultimately show False using n t(4) by simp
    qed
    from settled_reject [OF t(2), of DO_LOG_ERR_BUFFER_FULL record_dropped] obtain e' where
      "reject i record_dropped DO_LOG_ERR_BUFFER_FULL e3 = Some (DO_LOG_ERR_BUFFER_FULL, e')"
      "settled i e3 DO_LOG_ERR_BUFFER_FULL e'"
      by (auto simp: bump_balance DO_LOG_ERR_BUFFER_FULL_def DO_LOG_OK_def)
    moreover have "settled i e3 c x = settled i e c x" for c x
      using t \<open>n = 0\<close> by (simp add: settled_def audit_items_def)
    ultimately show ?thesis using t(1) \<open>n = 0\<close> by auto
  qed
qed

lemma submit_record_settled:
  assumes ok: "engine_ok_with [i] e"
  shows "case submit_record accepts clock i e of
      None \<Rightarrow> \<exists>q. en_audit e = Some q \<and> \<not> aq_closed q \<and> aq_capacity q \<le> length (aq_queue q)
    | Some (code, e') \<Rightarrow> settled i e code e'"
proof (cases "rec_level (op_record (en_pool e) i) = Audit")
  case True
  show ?thesis
  proof (cases "en_audit e")
    case None
    then show ?thesis
      using True settled_reject [OF ok, of DO_LOG_ERR_AUDIT_NO_PERSISTENT_SINK record_error]
      by (auto simp: submit_record_def bump_balance log_codes)
  next
    case (Some q)
    consider "aq_closed q" | "\<not> aq_closed q" "aq_capacity q \<le> length (aq_queue q)"
      | q' where "push_audit i q = Some (True, q')"
      by (cases "aq_closed q"; cases "aq_capacity q \<le> length (aq_queue q)")
         (auto simp: push_audit_def try_push_def)
    then show ?thesis
    proof cases
      case 1
      then show ?thesis
        using True Some settled_reject [OF ok, of DO_LOG_ERR_SINK_WRITE_FAILED record_error]
        by (auto simp: submit_record_def push_audit_def bump_balance log_codes)
    next
      case 2
      then show ?thesis using True Some by (simp add: submit_record_def push_audit_def try_push_def)
    next
      case 3
      with settled_audit [OF ok True Some] show ?thesis using True Some
        by (simp add: submit_record_def split: prod.split)
    qed
  qed
next
  case False
  show ?thesis
  proof (cases "try_push (en_ring_capacity e) (en_ring e) i")
    case (Some q)
    with settled_push [OF ok ok Some False, of 0] False show ?thesis
      by (simp add: submit_record_def split: prod.split)
  next
    case full: None
    show ?thesis
    proof (cases "en_helping e")
      case None
      then show ?thesis
        using False full settled_reject [OF ok, of DO_LOG_ERR_BUFFER_FULL record_dropped]
        by (auto simp: submit_record_def bump_balance log_codes)
    next
      case (Some enabled)
      with settled_help [OF ok False full Some, of accepts clock] False full show ?thesis
        by (auto simp: submit_record_def)
    qed
  qed
qed

text \<open>What a call promises of the state it leaves, given the state before it: with \<open>h\<close> records
  taken off the ring by helping, the accepted record is at the end of its queue, or nothing
  was added; everything still queued is as it was.\<close>

definition log_contract ::
  "call_env \<Rightarrow> log_params option \<Rightarrow> ('w, 'sk, 'vk) engine \<Rightarrow> int \<Rightarrow> ('w, 'sk, 'vk) engine \<Rightarrow> bool" where
  "log_contract env params e code e' \<longleftrightarrow> engine_inv e' \<and> outputs e' = outputs e \<and>
     (\<exists>h \<le> HELPING_BATCH. (0 < h \<longrightarrow> en_helping e = Some True) \<and>
        (if code = DO_LOG_OK
         then \<exists>p i r. params = Some p \<and> fill_record p env (rec_new (of_nat i)) = Some r \<and>
           op_record (en_pool e') i = r \<and>
           (if rec_level r = Audit
            then en_ring e' = en_ring e \<and> audit_items e' = audit_items e @ [i] \<and>
              engine_balance e' = engine_balance e + 1
            else en_ring e' = drop h (en_ring e) @ [i] \<and> audit_items e' = audit_items e \<and>
              engine_balance e' = engine_balance e)
         else en_ring e' = drop h (en_ring e) \<and> audit_items e' = audit_items e \<and>
           engine_balance e' = engine_balance e - (if code = DO_LOG_ERR_BUFFER_FULL then 1 else 0)) \<and>
        (\<forall>j \<in> set (drop h (en_ring e)) \<union> set (audit_items e).
           op_record (en_pool e') j = op_record (en_pool e) j))"

text \<open>What the fresh record in hand adds to the queues of the state before the call.\<close>

lemma settled_contract:
  assumes "engine_ok_with [i] (e\<lparr>en_pool := pool\<rparr>)" and "op_record pool = op_record (en_pool e)"
    and "settled i (e\<lparr>en_pool := put_record i r pool\<rparr>) code e'"
    and fill: "fill_record p env (rec_new (of_nat i)) = Some r"
  shows "log_contract env (Some p) e code e'"
proof -
  let ?e2 = "e\<lparr>en_pool := put_record i r pool\<rparr>"
  have keep: "\<forall>j \<in> set (drop h (en_ring e)) \<union> set (audit_items e).
      op_record (put_record i r pool) j = op_record (en_pool e) j" for h
    using engine_ok_fresh [OF assms(1)] assms(2)
    by (auto simp: put_record_def audit_items_def dest: in_set_dropD)
  have at: "op_record (en_pool ?e2) i = r" by (simp add: put_record_def)
  have same: "en_ring ?e2 = en_ring e" "audit_items ?e2 = audit_items e" "outputs ?e2 = outputs e"
    "engine_balance ?e2 = engine_balance e" "en_helping ?e2 = en_helping e"
    by (simp_all add: audit_items_def outputs_def engine_balance_def)
  from assms(3) obtain h where h: "h \<le> HELPING_BATCH" "0 < h \<longrightarrow> en_helping e = Some True"
    "if code = DO_LOG_OK then
       op_record (en_pool e') i = r \<and>
       (if rec_level r = Audit
        then en_ring e' = en_ring e \<and> audit_items e' = audit_items e @ [i] \<and>
          engine_balance e' = engine_balance e + 1
        else en_ring e' = drop h (en_ring e) @ [i] \<and> audit_items e' = audit_items e \<and>
          engine_balance e' = engine_balance e)
     else en_ring e' = drop h (en_ring e) \<and> audit_items e' = audit_items e \<and>
       engine_balance e' = engine_balance e - (if code = DO_LOG_ERR_BUFFER_FULL then 1 else 0)"
    "\<forall>j \<in> set (drop h (en_ring e)) \<union> set (audit_items e).
       op_record (en_pool e') j = op_record (put_record i r pool) j"
    unfolding settled_def same at by auto
  have inv: "engine_inv e'" "outputs e' = outputs e" using assms(3) by (simp_all add: settled_def same)
  have out: "if code = DO_LOG_OK
       then \<exists>p' i r. Some p = Some p' \<and> fill_record p' env (rec_new (of_nat i)) = Some r \<and>
         op_record (en_pool e') i = r \<and>
         (if rec_level r = Audit
          then en_ring e' = en_ring e \<and> audit_items e' = audit_items e @ [i] \<and>
            engine_balance e' = engine_balance e + 1
          else en_ring e' = drop h (en_ring e) @ [i] \<and> audit_items e' = audit_items e \<and>
            engine_balance e' = engine_balance e)
       else en_ring e' = drop h (en_ring e) \<and> audit_items e' = audit_items e \<and>
         engine_balance e' = engine_balance e - (if code = DO_LOG_ERR_BUFFER_FULL then 1 else 0)"
  proof (cases "code = DO_LOG_OK")
    case True
    show ?thesis
      unfolding if_P [OF True]
      by (rule exI [of _ p], rule exI [of _ i], rule exI [of _ r]) (use h(3) fill True in simp)
  qed (use h(3) in simp)
  show ?thesis
    unfolding log_contract_def
    by (intro conjI exI [of _ h] inv h(1,2) out) (use h(4) keep [of h] in simp)
qed

lemma idle_contract:
  assumes "engine_inv e'" and "queues e' = queues e" and "outputs e' = outputs e"
    and "engine_balance e' = engine_balance e" and "code \<noteq> DO_LOG_OK" and "code \<noteq> DO_LOG_ERR_BUFFER_FULL"
    and "\<forall>j \<in> set (en_ring e) \<union> set (audit_items e). op_record (en_pool e') j = op_record (en_pool e) j"
  shows "log_contract env params e code e'"
  using assms by (auto simp: log_contract_def queues_def audit_items_def intro!: exI [of _ "0 :: nat"])

text \<open>C8: A call of \<open>dologger_log\<close> in any well-formed state, whatever its arguments: it returns a code, or
  waits, and that only while the audit queue is full and open; it never panics and leaks or
  doubles no record. On success exactly the filled record is at the end of its queue, audit
  records in the audit queue, never in the ring; on failure nothing is added. Everything else
  that is queued is untouched, except for records that helping took from the front when it
  was enabled, and the counters balance: accepted less processed and dropped is what is queued.\<close>

theorem log_submission:
  assumes "engine_inv e" and "\<forall>p. params = Some p \<longrightarrow> params_fit p"
  shows "case dologger_log accepts env params e of
      None \<Rightarrow> \<exists>q. en_audit e = Some q \<and> \<not> aq_closed q \<and> aq_capacity q \<le> length (aq_queue q)
    | Some (code, e') \<Rightarrow> log_contract env params e code e'"
proof (cases params)
  case None
  with idle_contract [of e e DO_LOG_ERR_INVALID_ARG] assms(1) show ?thesis
    by (simp add: dologger_log_def log_codes)
next
  case p: (Some p)
  obtain x pool where al: "pool_alloc (en_pool e) = (x, pool)" by fastforce
  note a = engine_ok_alloc [OF assms(1) al]
  show ?thesis
  proof (cases x)
    case None
    let ?e = "e\<lparr>en_pool := pool, en_stats := record_error (en_stats e),
      en_last_error := set_last_error_code (en_last_error e) DO_LOG_ERR_OUT_OF_MEMORY\<rparr>"
    from a None have "pool = en_pool e" by simp
    then have "engine_inv ?e" "queues ?e = queues e" "outputs ?e = outputs e"
        "engine_balance ?e = engine_balance e" "op_record (en_pool ?e) j = op_record (en_pool e) j" for j
      using assms(1) by (simp_all add: queues_def outputs_def engine_balance_def stats_simps)
    with idle_contract [of ?e e DO_LOG_ERR_OUT_OF_MEMORY] None al p show ?thesis
      by (simp add: dologger_log_def log_codes)
  next
    case i: (Some i)
    let ?e1 = "e\<lparr>en_pool := pool\<rparr>"
    from a i have ok1: "engine_ok_with [i] ?e1" and rec: "op_record pool = op_record (en_pool e)"
      "op_record pool i = rec_new (of_nat i)" by auto
    show ?thesis
    proof (cases "fill_record p env (rec_new (of_nat i))")
      case None
      from reject_ok [OF ok1, of id DO_LOG_ERR_RECORD_INVALID_ENCODING] obtain e' where
        e': "reject i id DO_LOG_ERR_RECORD_INVALID_ENCODING ?e1 =
            Some (DO_LOG_ERR_RECORD_INVALID_ENCODING, e')" "engine_inv e'" "queues e' = queues ?e1"
          "outputs e' = outputs ?e1" "en_stats e' = en_stats ?e1"
          "\<forall>j. j \<noteq> i \<longrightarrow> op_record (en_pool e') j = op_record pool j" by auto
      then have "queues e' = queues e" "outputs e' = outputs e" "engine_balance e' = engine_balance e"
          "\<forall>j \<in> set (en_ring e) \<union> set (audit_items e). op_record (en_pool e') j = op_record (en_pool e) j"
        using engine_ok_fresh [OF ok1] rec(1)
        by (auto simp: queues_def outputs_def engine_balance_def audit_items_def)
      with idle_contract [OF e'(2)] None p i al e'(1) rec(2) show ?thesis
        by (simp add: dologger_log_def log_codes)
    next
      case r: (Some r)
      have "rec_wf (rec_new (of_nat i))" by simp
      from fill_record_ok [OF this _ r] assms(2) p
      have "rec_wf r" "rec_pool_index r = rec_pool_index (op_record pool i)" by (auto simp: rec(2))
      with engine_ok_put [OF ok1] have "engine_ok_with [i] (?e1\<lparr>en_pool := put_record i r pool\<rparr>)" by simp
      then have "engine_ok_with [i] (e\<lparr>en_pool := put_record i r pool\<rparr>)" by simp
      from submit_record_settled [OF this, of accepts "ce_clock env"]
        settled_contract [OF ok1 rec(1) _ r] r p i al rec(2)
      show ?thesis by (auto simp: dologger_log_def split: option.splits)
    qed
  qed
qed

section \<open>The consumer keeps the invariant\<close>

text \<open>What one queued record leaves behind: nothing, or one line, the text of the record that the
  pipeline passed.\<close>

definition emitted ::
  "(bytes \<Rightarrow> bytes) \<Rightarrow> ('w, 'sk, 'vk) engine \<Rightarrow> nat \<Rightarrow> bytes list \<Rightarrow> bool" where
  "emitted sha e i ls \<longleftrightarrow> ls = [] \<or>
     (\<exists>lsn r line. ls = [line] \<and>
        passed_as (op_record (en_pool e) i) lsn (cx_enable_signature (en_cx e)) sha r \<and>
        (pd_formatters (cx_dispatch (en_cx e)) = [] \<longrightarrow> line = console_format_record r))"

text \<open>The parts of the engine a drain does not touch.\<close>

definition drain_frame ::
  "('w, 'sk, 'vk) engine \<Rightarrow> (nat list \<times> nat \<times> audit_queue option \<times> bool option) \<times> bytes list \<times> bytes option \<times>
     bytes list \<times> (('sk, 'vk) signature_engine \<times> bool \<times> bytes \<times> u64 \<times> (u64 \<times> bytes \<times> bytes) option \<times> 'w plugin_dispatch)" where
  "drain_frame e = (queues e, en_sink e, en_sidecar e, en_helping_sink e, chain_part (en_cx e))"

lemma mirror_frame:
  "drain_frame (mirror_record_to_shm a r e) = drain_frame e"
  "en_pool (mirror_record_to_shm a r e) = en_pool e" "en_cx (mirror_record_to_shm a r e) = en_cx e"
  "engine_balance (mirror_record_to_shm a r e) = engine_balance e"
  "engine_ok_with hand (mirror_record_to_shm a r e) = engine_ok_with hand e"
  by (simp_all add: mirror_record_to_shm_def drain_frame_def queues_def engine_balance_def stats_simps
      split: option.split sum.split)

lemma run_pipeline_ordinary:
  assumes "rec_wf r" and "context_ok c" and "cx_last_signature c = None" and "rec_level r \<noteq> Audit"
    and "run_pipeline sha ed now r c = Some (ok, r', c')"
  shows "rec_wf r'" and "rec_pool_index r' = rec_pool_index r" and "context_ok c'"
    and "chain_part c' = chain_part c" and "cx_last_signature c' = None"
    and "\<exists>m \<le> 1. cx_lsn c' = cx_lsn c + of_nat m \<and> (ok \<longrightarrow> m = 1)"
    and "ok \<Longrightarrow> passed_as r (cx_lsn c) (cx_enable_signature c) sha r'"
proof -
  show chain: "chain_part c' = chain_part c"
    using assms(5) by (cases rule: run_pipeline_cases [OF assms(1,2,5)]) (use assms(4) in \<open>auto simp: signs_def\<close>)
  then show "cx_last_signature c' = None" using assms(3) by (simp add: chain_part_def)
  show pass: "passed_as r (cx_lsn c) (cx_enable_signature c) sha r'" if ok
    using run_pipeline_accepted(1) [OF assms(1,2)] assms(5) that by simp
  show "rec_wf r'" "rec_pool_index r' = rec_pool_index r" "context_ok c'"
      "\<exists>m \<le> 1. cx_lsn c' = cx_lsn c + of_nat m \<and> (ok \<longrightarrow> m = 1)"
    using assms(5) by (atomize (full), cases rule: run_pipeline_cases [OF assms(1,2,5)])
      (use assms(1,4) pass in \<open>auto simp: passed_as_def intro: exI [of _ "1 :: nat"] exI [of _ "0 :: nat"]\<close>)
qed

lemma consume_one_ok:
  assumes ok: "engine_ok_with (i # hand) e" and lvl: "rec_level (op_record (en_pool e) i) \<noteq> Audit"
    and run: "consume_one sha ed sa clock i ((pending, p, d), e) = Some ((pending', p', d'), e')"
  shows "engine_ok_with hand e' \<and> p' + d' = p + d + 1 \<and> drain_frame e' = drain_frame e \<and>
    engine_balance e' = engine_balance e \<and>
    (\<forall>j. j \<noteq> i \<longrightarrow> op_record (en_pool e') j = op_record (en_pool e) j) \<and>
    (\<exists>ls m. pending' = pending @ ls \<and> emitted sha e i ls \<and> p' = p + length ls \<and>
       length ls \<le> m \<and> m \<le> 1 \<and> cx_lsn (en_cx e') = cx_lsn (en_cx e) + of_nat m)"
proof -
  have wf: "rec_wf (op_record (en_pool e) i)" "context_ok (en_cx e)" "cx_last_signature (en_cx e) = None"
    using ok pool_holds_wf [of "en_pool e" "(i # hand) @ en_ring e @ audit_items e" i]
    by (simp_all add: engine_ok_with_def)
  obtain acc r c where rp: "run_pipeline sha ed (clock i) (op_record (en_pool e) i) (en_cx e) = Some (acc, r, c)"
    using run by (auto simp: consume_one_def split: option.splits)
  note f = run_pipeline_ordinary [OF wf lvl rp]
  define e1 where "e1 = e\<lparr>en_pool := put_record i r (en_pool e), en_cx := c\<rparr>"
  have ok1: "engine_ok_with (i # hand) e1"
    unfolding e1_def using engine_ok_cx [OF engine_ok_put [OF ok f(1,2)] f(3,5)] by simp
  have ws: "write_signature r e1 = e1"
    using f(5) by (simp add: write_signature_def take_last_signature_def e1_def)
  obtain line w where fm: "format_record (cx_dispatch (en_cx e1)) (cx_world (en_cx e1)) r = (line, w)" by fastforce
  define e2 where "e2 = (if acc then mirror_record_to_shm sa r (e1\<lparr>en_cx := (en_cx e1)\<lparr>cx_world := w\<rparr>\<rparr>) else e1)"
  define ls where "ls = (if acc then [line] else [])"
  have cx: "context_ok (c\<lparr>cx_world := w\<rparr>)" "cx_last_signature (c\<lparr>cx_world := w\<rparr>) = None"
      "chain_part (c\<lparr>cx_world := w\<rparr>) = chain_part (en_cx e)"
    using f(3-5) by (simp_all add: context_ok_def chain_part_def)
  have ok2: "engine_ok_with (i # hand) e2"
    using engine_ok_cx [OF ok1 cx(1,2)] ok1 by (simp add: e2_def mirror_frame e1_def)
  from engine_ok_free [OF ok2] obtain q where q: "pool_free (en_pool e2) i = Some q"
    "engine_ok_with hand (e2\<lparr>en_pool := q\<rparr>)" "\<forall>j. j \<noteq> i \<longrightarrow> op_record q j = op_record (en_pool e2) j"
    by blast
  have pool2: "en_pool e2 = put_record i r (en_pool e)" "cx_lsn (en_cx e2) = cx_lsn c"
    by (simp_all add: e2_def mirror_frame e1_def)
  have out: "pending' = pending @ ls" "p' = p + length ls" "d' = d + (1 - length ls)" "e' = e2\<lparr>en_pool := q\<rparr>"
    using run rp ws fm q(1)
    by (auto simp: consume_one_def Let_def ls_def e2_def simp flip: e1_def split: if_splits)
  have frame: "drain_frame e2 = drain_frame e" "engine_balance e2 = engine_balance e"
    using f(4) cx(3) by (auto simp: e2_def mirror_frame) (simp_all add: drain_frame_def queues_def e1_def engine_balance_def)
  have "pd_formatters (cx_dispatch (en_cx e)) = [] \<longrightarrow> line = console_format_record r"
    using fm f(4) by (auto simp: e1_def format_record_def chain_part_def)
  then have em: "emitted sha e i ls" using f(7) unfolding emitted_def ls_def by auto
  from f(6) obtain m where m: "m \<le> 1" "cx_lsn c = cx_lsn (en_cx e) + of_nat m" "acc \<longrightarrow> m = 1" by blast
  have "drain_frame e' = drain_frame e" "engine_balance e' = engine_balance e"
    using frame by (simp_all add: out(4) drain_frame_def queues_def engine_balance_def)
  moreover have "\<forall>j. j \<noteq> i \<longrightarrow> op_record (en_pool e') j = op_record (en_pool e) j"
    using q(3) by (simp add: out(4) pool2 put_record_def)
  moreover have "cx_lsn (en_cx e') = cx_lsn (en_cx e) + of_nat m" "length ls \<le> m"
    using m by (auto simp: out(4) pool2 ls_def)
  moreover have "p' + d' = p + d + 1" by (simp add: out ls_def)
  ultimately show ?thesis using q(2) out(1,2,4) em m(1) by blast
qed

text \<open>A panic of the consumer is a panic of the secret detector.\<close>

lemma run_pipeline_panics:
  assumes "rec_wf r" and "context_ok c" and "run_pipeline sha ed now r c = None"
  shows "detected_message (rec_message r) = None"
proof -
  obtain c1 c2 where p: "prefilter now r c = (True, c1)" "filter_stage r c1 = (True, c2)"
    using assms(3) by (auto simp: run_pipeline_def split: prod.splits bool.splits)
  obtain r3 c3 where pr: "provider_stage r c2 = (r3, c3)" by fastforce
  have "context_ok c2" using prefilter_frame [OF p(1)] filter_stage_frame [OF p(2)] assms(2)
    by (simp add: context_ok_def chain_part_def)
  then have "same_core r r3" using provider_stage_safe [OF assms(1) _ _ pr] by (simp add: context_ok_def)
  moreover obtain r4 c4 where as: "assembly_stage r3 c3 = (r4, c4)" by fastforce
  ultimately have "rec_message r4 = rec_message r"
    using assembly_stage_eq(1) [OF as] same_coreD(8) by simp
  moreover have "detect_secrets r4 = None"
    using assms(3) p pr as by (auto simp: run_pipeline_def split: option.splits prod.splits bool.splits)
  ultimately show ?thesis by (simp add: detect_secrets_eq)
qed

lemma consume_one_panics:
  assumes "engine_ok_with (i # hand) e" and lvl: "rec_level (op_record (en_pool e) i) \<noteq> Audit"
    and "consume_one sha ed sa clock i (s, e) = None"
  shows "detected_message (rec_message (op_record (en_pool e) i)) = None"
proof -
  have wf: "rec_wf (op_record (en_pool e) i)" "context_ok (en_cx e)" "cx_last_signature (en_cx e) = None"
    using assms(1) pool_holds_wf [of "en_pool e" "(i # hand) @ en_ring e @ audit_items e" i]
    by (simp_all add: engine_ok_with_def)
  show ?thesis
  proof (cases "run_pipeline sha ed (clock i) (op_record (en_pool e) i) (en_cx e)")
    case None
    from run_pipeline_panics [OF wf(1,2) None] show ?thesis .
  next
    case (Some x)
    obtain acc r c where rp: "run_pipeline sha ed (clock i) (op_record (en_pool e) i) (en_cx e) = Some (acc, r, c)"
      using Some by (cases x) auto
    note f = run_pipeline_ordinary [OF wf lvl rp]
    define e1 where "e1 = e\<lparr>en_pool := put_record i r (en_pool e), en_cx := c\<rparr>"
    have ok1: "engine_ok_with (i # hand) e1"
      unfolding e1_def using engine_ok_cx [OF engine_ok_put [OF assms(1) f(1,2)] f(3,5)] by simp
    from engine_ok_free [OF ok1] obtain q where "pool_free (put_record i r (en_pool e)) i = Some q"
      by (auto simp: e1_def)
    moreover have "en_pool (write_signature r x) = en_pool x" for x :: "('a, 'b, 'c) engine"
      by (auto simp: write_signature_def take_last_signature_def Let_def split: option.split)
    ultimately have False using assms(3) rp
      by (cases s) (auto simp: consume_one_def Let_def mirror_frame split: prod.splits if_splits)
    then show ?thesis ..
  qed
qed

lemma emitted_frame:
  assumes "op_record (en_pool e') i = op_record (en_pool e) i" and "chain_part (en_cx e') = chain_part (en_cx e)"
  shows "emitted sha e' i = emitted sha e i"
  using assms by (simp add: emitted_def chain_part_def fun_eq_iff)

lemma consume_all_ok:
  assumes "engine_ok_with (ns @ hand) e" and "\<forall>i \<in> set ns. rec_level (op_record (en_pool e) i) \<noteq> Audit"
  shows "case consume_all sha ed sa clock ns ((pending, p, d), e) of
      None \<Rightarrow> \<exists>i \<in> set ns. detected_message (rec_message (op_record (en_pool e) i)) = None
    | Some ((pending', p', d'), e') \<Rightarrow>
        engine_ok_with hand e' \<and> p' + d' = p + d + length ns \<and> drain_frame e' = drain_frame e \<and>
        engine_balance e' = engine_balance e \<and>
        (\<forall>j. j \<notin> set ns \<longrightarrow> op_record (en_pool e') j = op_record (en_pool e) j) \<and>
        (\<exists>lss m. pending' = pending @ concat lss \<and> list_all2 (emitted sha e) ns lss \<and>
           length (concat lss) \<le> m \<and> m \<le> length ns \<and>
           cx_lsn (en_cx e') = cx_lsn (en_cx e) + of_nat m)"
  using assms
proof (induction ns arbitrary: pending p d e)
  case Nil
  then show ?case by (auto intro!: exI [of _ "0 :: nat"])
next
  case (Cons i ns)
  have ok: "engine_ok_with (i # ns @ hand) e" and lvl: "rec_level (op_record (en_pool e) i) \<noteq> Audit"
    using Cons.prems by auto
  have i: "i \<notin> set ns" using engine_ok_fresh [OF ok] by auto
  show ?case
  proof (cases "consume_one sha ed sa clock i ((pending, p, d), e)")
    case None
    with consume_one_panics [OF ok lvl None] show ?thesis by simp
  next
    case (Some x)
    obtain pending1 p1 d1 e1 where one: "consume_one sha ed sa clock i ((pending, p, d), e) = Some ((pending1, p1, d1), e1)"
      using Some by (metis surj_pair)
    from consume_one_ok [OF ok lvl one] obtain ls m where
      c: "engine_ok_with (ns @ hand) e1" "p1 + d1 = p + d + 1" "drain_frame e1 = drain_frame e"
        "engine_balance e1 = engine_balance e" "\<forall>j. j \<noteq> i \<longrightarrow> op_record (en_pool e1) j = op_record (en_pool e) j"
        "pending1 = pending @ ls" "emitted sha e i ls" "length ls \<le> m" "m \<le> 1"
        "cx_lsn (en_cx e1) = cx_lsn (en_cx e) + of_nat m" by blast
    have same: "\<forall>j \<in> set ns. op_record (en_pool e1) j = op_record (en_pool e) j" using c(5) i by metis
    have em: "emitted sha e1 j = emitted sha e j" if "j \<in> set ns" for j
      by (rule emitted_frame) (use same that c(3) in \<open>auto simp: drain_frame_def\<close>)
    have ems: "list_all2 (emitted sha e1) ns lss \<Longrightarrow> list_all2 (emitted sha e) ns lss" for lss
      using em by (auto simp: list_all2_conv_all_nth)
    from Cons.IH [OF c(1), where pending = pending1 and p = p1 and d = d1] Cons.prems(2) same
    have IH: "case consume_all sha ed sa clock ns ((pending1, p1, d1), e1) of
        None \<Rightarrow> \<exists>i \<in> set ns. detected_message (rec_message (op_record (en_pool e) i)) = None
      | Some ((pending', p', d'), e') \<Rightarrow>
          engine_ok_with hand e' \<and> p' + d' = p1 + d1 + length ns \<and> drain_frame e' = drain_frame e1 \<and>
          engine_balance e' = engine_balance e1 \<and>
          (\<forall>j. j \<notin> set ns \<longrightarrow> op_record (en_pool e') j = op_record (en_pool e1) j) \<and>
          (\<exists>lss m. pending' = pending1 @ concat lss \<and> list_all2 (emitted sha e1) ns lss \<and>
             length (concat lss) \<le> m \<and> m \<le> length ns \<and>
             cx_lsn (en_cx e') = cx_lsn (en_cx e1) + of_nat m)"
      by (auto split: option.splits)
    show ?thesis
    proof (cases "consume_all sha ed sa clock ns ((pending1, p1, d1), e1)")
      case None
      with IH one show ?thesis by auto
    next
      case (Some y)
      obtain pending2 p2 d2 e2 where y: "y = ((pending2, p2, d2), e2)" by (metis surj_pair)
      from IH Some y obtain lss k where
        r: "engine_ok_with hand e2" "p2 + d2 = p1 + d1 + length ns" "drain_frame e2 = drain_frame e1"
          "engine_balance e2 = engine_balance e1"
          "\<forall>j. j \<notin> set ns \<longrightarrow> op_record (en_pool e2) j = op_record (en_pool e1) j"
          "pending2 = pending1 @ concat lss" "list_all2 (emitted sha e1) ns lss"
          "length (concat lss) \<le> k" "k \<le> length ns" "cx_lsn (en_cx e2) = cx_lsn (en_cx e1) + of_nat k"
        by auto
      have "list_all2 (emitted sha e) (i # ns) (ls # lss)" "pending2 = pending @ concat (ls # lss)"
          "length (concat (ls # lss)) \<le> m + k" "m + k \<le> length (i # ns)"
          "cx_lsn (en_cx e2) = cx_lsn (en_cx e) + of_nat (m + k)"
        using c r ems by auto
      moreover have "\<forall>j. j \<notin> set (i # ns) \<longrightarrow> op_record (en_pool e2) j = op_record (en_pool e) j"
        using r(5) c(5) by simp
      moreover have "p2 + d2 = p + d + length (i # ns)" using r(2) c(2) by simp
      ultimately show ?thesis using one Some y r(1,3,4) c(3,4)
        by (simp del: concat.simps list_all2_Cons length_Cons of_nat_add) blast
    qed
  qed
qed

lemma dispatch_all:
  "engine_ok_with hand (fold (dispatch_write a) ls e) = engine_ok_with hand e"
  "en_sink (fold (dispatch_write a) ls e) = en_sink e @ filter a ls"
  "queues (fold (dispatch_write a) ls e) = queues e"
  "en_sidecar (fold (dispatch_write a) ls e) = en_sidecar e"
  "en_cx (fold (dispatch_write a) ls e) = en_cx e" "en_pool (fold (dispatch_write a) ls e) = en_pool e"
  "engine_balance (fold (dispatch_write a) ls e) = engine_balance e"
  by (induction ls arbitrary: e)
     (simp_all add: dispatch_write_def queues_def engine_balance_def stats_simps)

lemma batch_balance:
  "engine_balance (e\<lparr>en_stats := record_batch p d n (en_stats e)\<rparr>) = engine_balance e - p - d"
  by (simp add: engine_balance_def stats_simps)


section \<open>Witnesses\<close>

text \<open>An engine whose ring of one slot holds the default record of node 0.\<close>

definition demo_engine :: "(unit, unit, unit) engine" where
  "demo_engine =
     \<lparr>en_pool = snd (pool_alloc (the (pool_new 2))), en_ring = [0], en_ring_capacity = 1,
      en_audit = None, en_helping = Some True, en_cx = demo_context,
      en_stats = \<lparr>ks_accepted = 1, ks_processed = 0, ks_dropped = 0, ks_errors = 0, ks_sink_errors = 0,
        ks_shm_drops = 0\<rparr>,
      en_sidecar = None, en_sink = [], en_helping_sink = [], en_shm = Some [], en_last_error = de_new\<rparr>"

definition demo_params :: log_params where
  "demo_params = \<lparr>lp_level = 5, lp_message = None, lp_source_file = None, lp_source_line = 7\<rparr>"

definition demo_env :: call_env where
  "demo_env = \<lparr>ce_id_hi = 1, ce_id_lo = 2, ce_now = 3, ce_thread = 4, ce_process = 5, ce_clock = 6\<rparr>"

lemma demo_engine_ok: "engine_inv demo_engine"
proof -
  define p where "p = the (pool_new 2)"
  have "pool_new 2 = Some p" by (simp add: p_def pool_new_def)
  from pool_init_inv [OF this] have "pool_holds p []" by (auto simp: pool_holds_def pool_inv_def)
  moreover have "fst (pool_alloc p) = Some 0" by (simp add: p_def pool_new_def pool_alloc_def)
  then have al: "pool_alloc p = (Some 0, snd (pool_alloc p))" by (metis prod.collapse)
  ultimately have "pool_holds (snd (pool_alloc p)) [0]" "op_record (snd (pool_alloc p)) 0 = rec_new 0"
    using pool_holds_alloc [OF _ al] by auto
  moreover have "rec_level (rec_new 0) \<noteq> Audit" by (simp add: rec_new_def)
  ultimately show ?thesis
    using demo_ok(2)
    by (simp add: engine_ok_with_def demo_engine_def audit_items_def demo_context_def flip: p_def)
qed

theorem log_submission_witness:
  "params_fit demo_params \<and>
   (\<exists>code e'. dologger_log (\<lambda>_. True) demo_env (Some demo_params) demo_engine = Some (code, e') \<and>
     log_contract demo_env (Some demo_params) demo_engine code e')"
proof -
  have fit: "params_fit demo_params" by (simp add: params_fit_def demo_params_def)
  have "en_audit demo_engine = None" by (simp add: demo_engine_def)
  with log_submission [OF demo_engine_ok, where params = "Some demo_params" and accepts = "\<lambda>_. True" and env = demo_env] fit
  show ?thesis by (auto split: option.splits)
qed


theorem helping_bypasses_pipeline_witness:
  "\<exists>e' js. try_help (\<lambda>_. True) 0 True demo_engine = Some (1, e') \<and> en_ring e' = [] \<and> en_sink e' = [] \<and>
     subseq js [0] \<and>
     en_helping_sink e' = map (\<lambda>j. console_format_record (op_record (en_pool demo_engine) j)) js"
proof -
  from try_help_ok [OF demo_engine_ok, of "\<lambda>_. True" 0 True] obtain h e' where
    h: "try_help (\<lambda>_. True) 0 True demo_engine = Some (h, e')" by blast
  moreover from h have "h = 1"
    by (auto simp: try_help_def demo_engine_def HELPING_BATCH_def)
  ultimately have run: "try_help (\<lambda>_. True) 0 True demo_engine = Some (1, e')" by simp
  have "en_sink demo_engine = []" "en_helping_sink demo_engine = []" "drop 1 (en_ring demo_engine) = []"
      "take 1 (en_ring demo_engine) = [0]" by (simp_all add: demo_engine_def)
  with helping_bypasses_pipeline [OF demo_engine_ok run] run show ?thesis by auto
qed

end
