(* ===== verification/Buffered_File.thy ===== *)
theory Buffered_File
  imports Prelude
begin

text \<open>
  A file behind a \<open>BufWriter\<close>, as the file sinks use it (Rust's standard library): the bytes the
  operating system has, how many of them are known to be on the medium, and what the next
  system calls will do. A failing write may have written a part. The sinks call
  \<open>get_mut().sync_all()\<close>, which reaches the file and not the buffer in front of it.
\<close>

datatype io_outcome = IoOk | IoFail nat

record file_device =
  fd_bytes :: bytes
  fd_synced :: nat
  fd_calls :: "io_outcome list"

definition dev_next :: "file_device \<Rightarrow> io_outcome \<times> file_device" where
  "dev_next d =
     (case fd_calls d of
        [] \<Rightarrow> (IoOk, d)
      | c # cs \<Rightarrow> (c, d\<lparr>fd_calls := cs\<rparr>))"

text \<open>The count is that of the bytes written.\<close>

definition dev_write :: "bytes \<Rightarrow> file_device \<Rightarrow> (nat + unit) \<times> file_device" where
  "dev_write data d =
     (case dev_next d of
        (IoOk, d') \<Rightarrow> (Inr (), d'\<lparr>fd_bytes := fd_bytes d' @ data\<rparr>)
      | (IoFail k, d') \<Rightarrow> (Inl (min k (length data)), d'\<lparr>fd_bytes := fd_bytes d' @ take k data\<rparr>))"

definition dev_sync :: "file_device \<Rightarrow> bool \<times> file_device" where
  "dev_sync d =
     (case dev_next d of
        (IoOk, d') \<Rightarrow> (True, d'\<lparr>fd_synced := length (fd_bytes d')\<rparr>)
      | (IoFail k, d') \<Rightarrow> (False, d'))"

record buf_writer =
  bw_capacity :: nat
  bw_buffer :: bytes

text \<open>Bytes that were written leave the buffer also when the call fails.\<close>

definition bw_flush :: "buf_writer \<Rightarrow> file_device \<Rightarrow> bool \<times> buf_writer \<times> file_device" where
  "bw_flush w d =
     (if bw_buffer w = [] then (True, w, d)
      else
        (case dev_write (bw_buffer w) d of
           (Inr _, d') \<Rightarrow> (True, w\<lparr>bw_buffer := []\<rparr>, d')
         | (Inl k, d') \<Rightarrow> (False, w\<lparr>bw_buffer := drop k (bw_buffer w)\<rparr>, d')))"

definition bw_write_all :: "bytes \<Rightarrow> buf_writer \<Rightarrow> file_device \<Rightarrow> bool \<times> buf_writer \<times> file_device" where
  "bw_write_all data w d =
     (case (if bw_capacity w - length (bw_buffer w) < length data then bw_flush w d else (True, w, d)) of
        (False, w', d') \<Rightarrow> (False, w', d')
      | (True, w', d') \<Rightarrow>
          if bw_capacity w' \<le> length data then
            (case dev_write data d' of
               (Inr _, d'') \<Rightarrow> (True, w', d'')
             | (Inl k, d'') \<Rightarrow> (False, w', d''))
          else (True, w'\<lparr>bw_buffer := bw_buffer w' @ data\<rparr>, d'))"

text \<open>All that was handed over, in order: on the device or still in the buffer.\<close>

definition bw_content :: "buf_writer \<Rightarrow> file_device \<Rightarrow> bytes" where
  "bw_content w d = fd_bytes d @ bw_buffer w"

lemma dev_next_sound [simp]: "fd_calls d = [] \<Longrightarrow> dev_next d = (IoOk, d)"
  by (simp add: dev_next_def)

lemma dev_write_sound:
  "fd_calls d = [] \<Longrightarrow> dev_write data d = (Inr (), d\<lparr>fd_bytes := fd_bytes d @ data\<rparr>)"
  by (simp add: dev_write_def)

lemma dev_sync_sound:
  "fd_calls d = [] \<Longrightarrow> dev_sync d = (True, d\<lparr>fd_synced := length (fd_bytes d)\<rparr>)"
  by (simp add: dev_sync_def)

text \<open>Without failing calls a write keeps the order of the bytes.\<close>

lemma bw_flush_sound:
  assumes "fd_calls d = []"
  shows "\<exists>w' d'. bw_flush w d = (True, w', d') \<and> fd_calls d' = [] \<and> bw_buffer w' = [] \<and>
    bw_capacity w' = bw_capacity w \<and> fd_bytes d' = bw_content w d \<and> fd_synced d' = fd_synced d"
  using assms by (auto simp: bw_flush_def dev_write_sound bw_content_def)

lemma bw_write_all_sound:
  assumes "fd_calls d = []"
  shows "\<exists>w' d'. bw_write_all data w d = (True, w', d') \<and> fd_calls d' = [] \<and>
    bw_capacity w' = bw_capacity w \<and> bw_content w' d' = bw_content w d @ data \<and> fd_synced d' = fd_synced d"
proof (cases "bw_capacity w - length (bw_buffer w) < length data")
  case False
  then have "bw_capacity w \<le> length data \<Longrightarrow> length (bw_buffer w) = 0 \<or> length data = 0" by arith
  with False show ?thesis using assms
    by (cases "bw_capacity w \<le> length data") (auto simp: bw_write_all_def bw_content_def dev_write_sound)
next
  case True
  from bw_flush_sound [OF assms, of w] obtain w' d' where
    f: "bw_flush w d = (True, w', d')" "fd_calls d' = []" "bw_buffer w' = []" "bw_capacity w' = bw_capacity w"
      "fd_bytes d' = bw_content w d" "fd_synced d' = fd_synced d" by blast
  with True show ?thesis
    by (cases "bw_capacity w \<le> length data") (auto simp: bw_write_all_def bw_content_def dev_write_sound)
qed

text \<open>A write that fits in the buffer reaches no device, and a later sync does not change that.\<close>

lemma bw_write_buffered:
  "length (bw_buffer w) + length data \<le> bw_capacity w \<Longrightarrow> length data < bw_capacity w \<Longrightarrow>
     bw_write_all data w d = (True, w\<lparr>bw_buffer := bw_buffer w @ data\<rparr>, d)"
  by (simp add: bw_write_all_def less_diff_conv2 not_less le_diff_conv2)

end
