(* ===== verification/Worm_Sink.thy ===== *)
theory Worm_Sink
  imports Buffered_File Signature "HOL-Library.AList"
begin

text \<open>
  The write-once file of audit records (core/src/sink/worm.rs): records arrive with their LSN,
  those ahead of their turn wait in a reorder buffer, and a gap that outlasts the window gets a
  marker. The file is a device behind a buffer; the clock (an \<open>Instant\<close> in nanoseconds and the
  system time in seconds) is an argument. Rotated files are kept under the second of their
  rotation, and a rename over an existing name replaces it; renaming, opening and changing
  permissions succeed.
\<close>

section \<open>State\<close>

datatype worm_durability = OsCache | Media | MediaWithFua

record worm_config =
  wc_durability :: worm_durability
  wc_window_ms :: u64
  wc_max_size :: u64
  wc_buffer_size :: nat
  wc_lock_readonly :: bool
  wc_adaptive :: bool

definition worm_config_default :: worm_config where
  "worm_config_default =
     \<lparr>wc_durability = Media, wc_window_ms = 200, wc_max_size = 0, wc_buffer_size = 65536,
      wc_lock_readonly = True, wc_adaptive = False\<rparr>"

datatype sink_error = WriteFailed string | SinkClosed

fun sink_error_text :: "sink_error \<Rightarrow> string" where
  "sink_error_text (WriteFailed msg) = ''Sink write failed: '' @ msg"
| "sink_error_text SinkClosed = ''Sink is closed''"

record pending_record =
  pr_data :: bytes
  pr_prev_hash :: bytes
  pr_content_hash :: "bytes option"

text \<open>The reorder buffer is a list ordered by LSN; \<open>wk_archive\<close> and \<open>wk_readonly\<close> are the files
  beside the current one and whether that one has been locked.\<close>

record worm_sink =
  wk_config :: worm_config
  wk_writer :: "buf_writer option"
  wk_device :: file_device
  wk_last_lsn :: u64
  wk_last_hash :: bytes
  wk_reorder :: "(u64 \<times> pending_record) list"
  wk_start :: "nat option"
  wk_bytes :: u64
  wk_open :: bool
  wk_archive :: "(nat \<times> bytes) list"
  wk_readonly :: bool

definition worm_new :: "worm_config \<Rightarrow> file_device \<Rightarrow> worm_sink" where
  "worm_new config dev =
     \<lparr>wk_config = config, wk_writer = None, wk_device = dev, wk_last_lsn = 0,
      wk_last_hash = replicate 32 0, wk_reorder = [], wk_start = None, wk_bytes = 0, wk_open = False,
      wk_archive = [], wk_readonly = False\<rparr>"

definition derive_chain_link :: "(bytes \<Rightarrow> bytes) \<Rightarrow> bytes \<Rightarrow> u64 \<Rightarrow> bytes" where
  "derive_chain_link sha content_hash lsn = sha (content_hash @ le64 lsn)"

text \<open>Results: an error, or nothing; the state as far as the call got either way.\<close>

type_synonym worm_result = "(sink_error + unit) \<times> worm_sink"

section \<open>File operations\<close>

definition worm_open_writer :: "worm_sink \<Rightarrow> worm_sink" where
  "worm_open_writer s =
     s\<lparr>wk_writer := Some \<lparr>bw_capacity = wc_buffer_size (wk_config s), bw_buffer = []\<rparr>\<rparr>"

definition worm_open :: "worm_sink \<Rightarrow> worm_result" where
  "worm_open s = (Inr (), (worm_open_writer s)\<lparr>wk_open := True\<rparr>)"

definition worm_flush :: "worm_sink \<Rightarrow> worm_result" where
  "worm_flush s =
     (case wk_writer s of
        None \<Rightarrow> (Inr (), s)
      | Some w \<Rightarrow>
          (case bw_flush w (wk_device s) of
             (ok, w', d) \<Rightarrow>
               ((if ok then Inr () else Inl (WriteFailed ''worm flush'')),
                s\<lparr>wk_writer := Some w', wk_device := d\<rparr>)))"

definition worm_fsync :: "worm_sink \<Rightarrow> worm_result" where
  "worm_fsync s =
     (case wk_writer s of
        None \<Rightarrow> (Inr (), s)
      | Some w \<Rightarrow>
          (case dev_sync (wk_device s) of
             (ok, d) \<Rightarrow>
               ((if ok then Inr () else Inl (WriteFailed ''worm fsync'')), s\<lparr>wk_device := d\<rparr>)))"

definition worm_rotate :: "nat \<Rightarrow> worm_sink \<Rightarrow> worm_result" where
  "worm_rotate secs s =
     (case worm_flush s of
        (Inl e, s1) \<Rightarrow> (Inl e, s1)
      | (Inr _, s1) \<Rightarrow>
          let s2 = s1\<lparr>wk_writer := None,
              wk_archive := AList.update secs (fd_bytes (wk_device s1)) (wk_archive s1),
              wk_device := (wk_device s1)\<lparr>fd_bytes := [], fd_synced := 0\<rparr>\<rparr>
          in (Inr (), (worm_open_writer s2)\<lparr>wk_bytes := 0\<rparr>))"

definition worm_write_raw :: "nat \<Rightarrow> bytes \<Rightarrow> worm_sink \<Rightarrow> worm_result" where
  "worm_write_raw secs data s =
     (case wk_writer s of
        None \<Rightarrow> (Inr (), s)
      | Some w \<Rightarrow>
          (case bw_write_all data w (wk_device s) of
             (False, w', d) \<Rightarrow>
               (Inl (WriteFailed ''worm write''), s\<lparr>wk_writer := Some w', wk_device := d\<rparr>)
           | (True, w', d) \<Rightarrow>
               let s' = s\<lparr>wk_writer := Some w', wk_device := d, wk_bytes := wk_bytes s + of_nat (length data)\<rparr>
               in if 0 < wc_max_size (wk_config s) \<and> wc_max_size (wk_config s) \<le> wk_bytes s'
                  then worm_rotate secs s' else (Inr (), s')))"

section \<open>Ordering\<close>

definition next_hash :: "(bytes \<Rightarrow> bytes) \<Rightarrow> u64 \<Rightarrow> bytes option \<Rightarrow> bytes \<Rightarrow> bytes" where
  "next_hash sha lsn content_hash prev_hash =
     (case content_hash of Some h \<Rightarrow> derive_chain_link sha h lsn | None \<Rightarrow> prev_hash)"

text \<open>The loop over the first entries; the list is the reorder buffer of the state.\<close>

fun worm_flush_loop :: "(bytes \<Rightarrow> bytes) \<Rightarrow> nat \<Rightarrow> (u64 \<times> pending_record) list \<Rightarrow> worm_sink \<Rightarrow> worm_result" where
  "worm_flush_loop sha secs [] s = (Inr (), s)"
| "worm_flush_loop sha secs ((lsn, p) # rest) s =
     (let expected = wk_last_lsn s + 1 in
      if lsn = expected then
        (case worm_write_raw secs (pr_data p) (s\<lparr>wk_reorder := rest\<rparr>) of
           (Inl e, s') \<Rightarrow> (Inl e, s')
         | (Inr _, s') \<Rightarrow>
             worm_flush_loop sha secs rest
               (s'\<lparr>wk_last_lsn := lsn,
                  wk_last_hash := next_hash sha lsn (pr_content_hash p) (pr_prev_hash p)\<rparr>))
      else if lsn < expected then worm_flush_loop sha secs rest (s\<lparr>wk_reorder := rest\<rparr>)
      else (Inr (), s))"

definition flush_reorder_buffer :: "(bytes \<Rightarrow> bytes) \<Rightarrow> nat \<Rightarrow> worm_sink \<Rightarrow> worm_result" where
  "flush_reorder_buffer sha secs s =
     (case worm_flush_loop sha secs (wk_reorder s) s of
        (Inl e, s') \<Rightarrow> (Inl e, s')
      | (Inr _, s') \<Rightarrow> (Inr (), if wk_reorder s' = [] then s'\<lparr>wk_start := None\<rparr> else s'))"

definition gap_marker :: "u64 \<Rightarrow> u64 \<Rightarrow> bytes" where
  "gap_marker a b =
     str_bytes (''[GAP] LSN '' @ dec (unat a) @ ''-'' @ dec (unat b) @ '' missing '') @
     [0xE2, 0x80, 0x94] @ str_bytes '' gap marker'' @ [0x0A]"

definition check_reorder_window :: "(bytes \<Rightarrow> bytes) \<Rightarrow> nat \<Rightarrow> nat \<Rightarrow> worm_sink \<Rightarrow> worm_result" where
  "check_reorder_window sha now secs s =
     (if wc_window_ms (wk_config s) = 0 \<or> wk_reorder s = [] then (Inr (), s)
      else
        (case wk_start s of
           None \<Rightarrow> (Inr (), s)
         | Some start \<Rightarrow>
             if unat (wc_window_ms (wk_config s)) * 1000000 \<le> now - start then
               (let gap_start = wk_last_lsn s + 1; gap_end = fst (hd (wk_reorder s)) - 1 in
                case worm_write_raw secs (gap_marker gap_start gap_end) s of
                  (Inl e, s1) \<Rightarrow> (Inl e, s1)
                | (Inr _, s1) \<Rightarrow>
                    (case worm_fsync s1 of
                       (Inl e, s2) \<Rightarrow> (Inl e, s2)
                     | (Inr _, s2) \<Rightarrow>
                         (case flush_reorder_buffer sha secs (s2\<lparr>wk_last_lsn := gap_end\<rparr>) of
                            (Inl e, s3) \<Rightarrow> (Inl e, s3)
                          | (Inr _, s3) \<Rightarrow> (Inr (), s3\<lparr>wk_start := None\<rparr>))))
             else (Inr (), s)))"

fun reorder_insert :: "u64 \<Rightarrow> pending_record \<Rightarrow> (u64 \<times> pending_record) list \<Rightarrow> (u64 \<times> pending_record) list" where
  "reorder_insert l p [] = [(l, p)]"
| "reorder_insert l p ((k, q) # rest) =
     (if l < k then (l, p) # (k, q) # rest
      else if l = k then (l, p) # rest
      else (k, q) # reorder_insert l p rest)"

definition worm_write ::
  "(bytes \<Rightarrow> bytes) \<Rightarrow> nat \<Rightarrow> nat \<Rightarrow> u64 \<Rightarrow> bytes \<Rightarrow> bytes option \<Rightarrow> bytes \<Rightarrow> worm_sink \<Rightarrow> worm_result" where
  "worm_write sha now secs lsn prev_hash content_hash data s =
     (if \<not> wk_open s then (Inl SinkClosed, s)
      else
        let expected = wk_last_lsn s + 1 in
        if lsn = expected then
          (if 0 < wk_last_lsn s \<and> prev_hash \<noteq> wk_last_hash s
           then (Inl (WriteFailed ''WORM chain broken: prev_hash mismatch''), s)
           else
             (case flush_reorder_buffer sha secs s of
                (Inl e, s1) \<Rightarrow> (Inl e, s1)
              | (Inr _, s1) \<Rightarrow>
                  (case worm_write_raw secs data s1 of
                     (Inl e, s2) \<Rightarrow> (Inl e, s2)
                   | (Inr _, s2) \<Rightarrow>
                       (case (if wc_durability (wk_config s2) \<in> {Media, MediaWithFua} then worm_fsync s2
                              else (Inr (), s2)) of
                          (Inl e, s3) \<Rightarrow> (Inl e, s3)
                        | (Inr _, s3) \<Rightarrow>
                            (Inr (), s3\<lparr>wk_last_lsn := lsn,
                               wk_last_hash := next_hash sha lsn content_hash prev_hash\<rparr>)))))
        else if expected < lsn then
          (let s1 = s\<lparr>wk_reorder := reorder_insert lsn
                 \<lparr>pr_data = data, pr_prev_hash = prev_hash, pr_content_hash = content_hash\<rparr> (wk_reorder s)\<rparr>;
               s2 = (if wk_start s1 = None then s1\<lparr>wk_start := Some now\<rparr> else s1)
           in check_reorder_window sha now secs s2)
        else (Inr (), s))"

text \<open>The two entry points, and a plain line without an LSN.\<close>

definition write_worm_record ::
  "(bytes \<Rightarrow> bytes) \<Rightarrow> nat \<Rightarrow> nat \<Rightarrow> u64 \<Rightarrow> bytes \<Rightarrow> bytes \<Rightarrow> worm_sink \<Rightarrow> worm_result" where
  "write_worm_record sha now secs lsn prev_hash data s = worm_write sha now secs lsn prev_hash None data s"

definition write_worm_record_with_hash ::
  "(bytes \<Rightarrow> bytes) \<Rightarrow> nat \<Rightarrow> nat \<Rightarrow> u64 \<Rightarrow> bytes \<Rightarrow> bytes \<Rightarrow> bytes \<Rightarrow> worm_sink \<Rightarrow> worm_result" where
  "write_worm_record_with_hash sha now secs lsn prev_hash content_hash data s =
     worm_write sha now secs lsn prev_hash (Some content_hash) data s"

definition worm_write_line :: "nat \<Rightarrow> bytes \<Rightarrow> worm_sink \<Rightarrow> worm_result" where
  "worm_write_line secs formatted s =
     (case worm_write_raw secs formatted s of
        (Inl e, s1) \<Rightarrow> (Inl e, s1)
      | (Inr _, s1) \<Rightarrow>
          (case worm_write_raw secs [0x0A] s1 of
             (Inl e, s2) \<Rightarrow> (Inl e, s2)
           | (Inr _, s2) \<Rightarrow>
               if wc_durability (wk_config s2) \<in> {Media, MediaWithFua} then worm_fsync s2
               else (Inr (), s2)))"

definition worm_close :: "(bytes \<Rightarrow> bytes) \<Rightarrow> nat \<Rightarrow> worm_sink \<Rightarrow> worm_result" where
  "worm_close sha secs s =
     (case flush_reorder_buffer sha secs s of
        (Inl e, s1) \<Rightarrow> (Inl e, s1)
      | (Inr _, s1) \<Rightarrow>
          (case worm_flush s1 of
             (Inl e, s2) \<Rightarrow> (Inl e, s2)
           | (Inr _, s2) \<Rightarrow>
               (case worm_fsync s2 of
                  (Inl e, s3) \<Rightarrow> (Inl e, s3)
                | (Inr _, s3) \<Rightarrow>
                    (Inr (), s3\<lparr>wk_writer := None, wk_open := False,
                       wk_readonly := wk_readonly s3 \<or> wc_lock_readonly (wk_config s3)\<rparr>))))"

section \<open>What the file holds\<close>

datatype worm_entry = WRec u64 bytes | WGap u64 u64

fun entry_bytes :: "worm_entry \<Rightarrow> bytes" where
  "entry_bytes (WRec l d) = d"
| "entry_bytes (WGap a b) = gap_marker a b"

text \<open>The entries cover the LSNs from \<open>n\<close> to below \<open>m\<close>, each once and in order; a marker may be
  empty.\<close>

fun tiles :: "nat \<Rightarrow> worm_entry list \<Rightarrow> nat \<Rightarrow> bool" where
  "tiles n [] m \<longleftrightarrow> m = n"
| "tiles n (WRec l d # es) m \<longleftrightarrow> unat l = n \<and> tiles (n + 1) es m"
| "tiles n (WGap a b # es) m \<longleftrightarrow> unat a = n \<and> n \<le> unat b + 1 \<and> tiles (unat b + 1) es m"

lemma tiles_append: "tiles n (es @ fs) m \<longleftrightarrow> (\<exists>k. tiles n es k \<and> tiles k fs m)"
proof (induction es arbitrary: n)
  case (Cons e es)
  then show ?case by (cases e) auto
qed simp

lemma tiles_cover:
  "tiles n es m \<Longrightarrow> n \<le> unat l \<Longrightarrow> unat l < m \<Longrightarrow>
     (\<exists>d. WRec l d \<in> set es) \<or> (\<exists>a b. WGap a b \<in> set es \<and> a \<le> l \<and> l \<le> b)"
proof (induction es arbitrary: n)
  case (Cons e es)
  show ?case
  proof (cases e)
    case (WRec k d)
    show ?thesis
    proof (cases "k = l")
      case False
      with WRec Cons.prems have "n + 1 \<le> unat l" by (auto simp: word_unat_eq_iff)
      with Cons.IH [of "n + 1"] Cons.prems WRec show ?thesis by auto
    qed (use WRec in auto)
  next
    case (WGap a b)
    show ?thesis
    proof (cases "l \<le> b")
      case True
      with WGap Cons.prems show ?thesis by (auto simp: word_le_nat_alt)
    next
      case False
      then have "unat b + 1 \<le> unat l" by (simp add: word_le_nat_alt)
      with Cons.IH [of "unat b + 1"] Cons.prems WGap show ?thesis by auto
    qed
  qed
qed simp

definition worm_content :: "worm_sink \<Rightarrow> bytes" where
  "worm_content s =
     (case wk_writer s of None \<Rightarrow> fd_bytes (wk_device s) | Some w \<Rightarrow> bw_content w (wk_device s))"

lemma worm_content_upd [simp]:
  "worm_content (s\<lparr>wk_reorder := r\<rparr>) = worm_content s" "worm_content (s\<lparr>wk_last_lsn := l\<rparr>) = worm_content s"
  "worm_content (s\<lparr>wk_last_hash := h\<rparr>) = worm_content s" "worm_content (s\<lparr>wk_start := t\<rparr>) = worm_content s"
  "worm_content (s\<lparr>wk_last_lsn := l, wk_last_hash := h\<rparr>) = worm_content s"
  by (simp_all add: worm_content_def split: option.split)

text \<open>A sink that is open, does not rotate, and whose system calls succeed.\<close>

definition worm_sound :: "worm_sink \<Rightarrow> bool" where
  "worm_sound s \<longleftrightarrow> wk_writer s \<noteq> None \<and> fd_calls (wk_device s) = [] \<and> wc_max_size (wk_config s) = 0"

definition worm_rest ::
  "worm_sink \<Rightarrow> worm_config \<times> u64 \<times> bytes \<times> (u64 \<times> pending_record) list \<times> nat option \<times> bool \<times> (nat \<times> bytes) list" where
  "worm_rest s =
     (wk_config s, wk_last_lsn s, wk_last_hash s, wk_reorder s, wk_start s, wk_open s, wk_archive s)"

lemma worm_write_raw_sound:
  assumes "worm_sound s"
  shows "\<exists>s'. worm_write_raw secs data s = (Inr (), s') \<and> worm_sound s' \<and>
    worm_content s' = worm_content s @ data \<and> worm_rest s' = worm_rest s"
proof -
  obtain w where w: "wk_writer s = Some w" "fd_calls (wk_device s) = []" "wc_max_size (wk_config s) = 0"
    using assms by (auto simp: worm_sound_def)
  from bw_write_all_sound [OF w(2), of data w] obtain w' d' where
    "bw_write_all data w (wk_device s) = (True, w', d')" "fd_calls d' = []"
    "bw_content w' d' = bw_content w (wk_device s) @ data" by blast
  with w show ?thesis
    by (simp add: worm_write_raw_def worm_sound_def worm_content_def worm_rest_def)
qed

lemma worm_fsync_sound:
  assumes "worm_sound s"
  shows "\<exists>s'. worm_fsync s = (Inr (), s') \<and> worm_sound s' \<and> worm_content s' = worm_content s \<and>
    worm_rest s' = worm_rest s"
  using assms by (auto simp: worm_fsync_def worm_sound_def worm_content_def worm_rest_def dev_sync_sound
      bw_content_def)

text \<open>\<open>A\<close> holds the records the sink has taken, \<open>out\<close> is what the file held at first.\<close>

definition worm_inv :: "bytes \<Rightarrow> (u64 \<times> bytes) set \<Rightarrow> worm_sink \<Rightarrow> worm_entry list \<Rightarrow> bool" where
  "worm_inv out A s es \<longleftrightarrow> worm_sound s \<and> worm_content s = out @ concat (map entry_bytes es) \<and>
     tiles 1 es (unat (wk_last_lsn s) + 1) \<and> wk_last_lsn s < - 1 \<and>
     sorted_wrt (<) (map fst (wk_reorder s)) \<and>
     (\<forall>(l, p) \<in> set (wk_reorder s). wk_last_lsn s < l \<and> l < - 1 \<and> (l, pr_data p) \<in> A) \<and>
     (\<forall>l d. WRec l d \<in> set es \<longrightarrow> (l, d) \<in> A) \<and>
     (\<forall>(l, d) \<in> A. l \<le> wk_last_lsn s \<or> (\<exists>p. (l, p) \<in> set (wk_reorder s) \<and> pr_data p = d))"

lemma worm_inv_frame:
  "worm_inv out A s es \<Longrightarrow> worm_sound s' \<Longrightarrow> worm_content s' = worm_content s \<Longrightarrow>
     wk_last_lsn s' = wk_last_lsn s \<Longrightarrow> wk_reorder s' = wk_reorder s \<Longrightarrow> worm_inv out A s' es"
  by (simp add: worm_inv_def)

lemma succ_u64: "x < (- 1 :: u64) \<Longrightarrow> unat (x + 1) = unat x + 1"
proof -
  assume "x < - 1"
  then have "1 + x \<noteq> 0" by (metis add.commute add_diff_cancel_right' diff_0 order_less_irrefl)
  then show ?thesis using unatSuc [of x] by (simp add: add.commute)
qed

lemma below_max: "x < (- 1 :: u64) \<longleftrightarrow> unat x < 2 ^ 64 - 1"
  by (simp add: word_less_nat_alt unsigned_minus_1_eq_mask mask_eq_exp_minus_1)

lemma worm_inv_pending:
  assumes "worm_inv out A s es" and "wk_reorder s = (l, p) # rest" and "l = wk_last_lsn s + 1"
    and "worm_sound s'" and "worm_content s' = worm_content s @ pr_data p"
    and "wk_last_lsn s' = l" and "wk_reorder s' = rest"
  shows "worm_inv out A s' (es @ [WRec l (pr_data p)])"
proof -
  have bound: "wk_last_lsn s < - 1" using assms(1) by (simp add: worm_inv_def)
  have l: "unat l = unat (wk_last_lsn s) + 1" using succ_u64 [OF bound] assms(3) by simp
  have tail: "\<forall>(k, q) \<in> set rest. l < k" using assms(1,2) by (auto simp: worm_inv_def)
  have "\<forall>(k, d) \<in> A. k \<le> l \<or> (\<exists>q. (k, q) \<in> set rest \<and> pr_data q = d)"
  proof clarify
    fix k d assume "(k, d) \<in> A" and "\<not> (\<exists>q. (k, q) \<in> set rest \<and> pr_data q = d)"
    with assms(1,2) have "k \<le> wk_last_lsn s \<or> k = l" by (fastforce simp: worm_inv_def)
    then show "k \<le> l" using l by (auto simp: word_le_nat_alt)
  qed
  moreover have "l < - 1" "(l, pr_data p) \<in> A" using assms(1,2) by (auto simp: worm_inv_def)
  ultimately show ?thesis using assms(1,2,4-7) tail l
    by (auto simp: worm_inv_def tiles_append)
qed

lemma worm_flush_loop_sound:
  assumes "worm_inv out A s es"
  shows "\<exists>s' es'. worm_flush_loop sha secs (wk_reorder s) s = (Inr (), s') \<and> worm_inv out A s' es' \<and>
    wk_config s' = wk_config s \<and> wk_open s' = wk_open s"
  using assms
proof (induction "wk_reorder s" arbitrary: s es)
  case Nil
  then have "wk_reorder s = []" by simp
  with Nil show ?case by auto
next
  case (Cons x rest)
  obtain l p where x: "x = (l, p)" by fastforce
  with Cons.hyps have r: "wk_reorder s = (l, p) # rest" by simp
  have sound: "worm_sound (s\<lparr>wk_reorder := rest\<rparr>)" using Cons.prems by (simp add: worm_inv_def worm_sound_def)
  have late: "\<not> l < wk_last_lsn s + 1"
  proof -
    have "wk_last_lsn s < - 1" "wk_last_lsn s < l" using Cons.prems r by (auto simp: worm_inv_def)
    with succ_u64 show ?thesis by (auto simp: word_less_nat_alt)
  qed
  show ?case
  proof (cases "l = wk_last_lsn s + 1")
    case True
    from worm_write_raw_sound [OF sound, of secs "pr_data p"] obtain s1 where
      s1: "worm_write_raw secs (pr_data p) (s\<lparr>wk_reorder := rest\<rparr>) = (Inr (), s1)" "worm_sound s1"
        "worm_content s1 = worm_content s @ pr_data p" "worm_rest s1 = worm_rest (s\<lparr>wk_reorder := rest\<rparr>)"
      by auto
    let ?s2 = "s1\<lparr>wk_last_lsn := l, wk_last_hash := next_hash sha l (pr_content_hash p) (pr_prev_hash p)\<rparr>"
    have r2: "wk_reorder ?s2 = rest" using s1(4) by (simp add: worm_rest_def)
    have "worm_inv out A ?s2 (es @ [WRec l (pr_data p)])"
      by (rule worm_inv_pending [OF Cons.prems r True])
         (use s1 r2 in \<open>simp_all add: worm_sound_def\<close>)
    from Cons.hyps(1) [OF r2 [symmetric] this] obtain s' es' where
      "worm_flush_loop sha secs rest ?s2 = (Inr (), s')" "worm_inv out A s' es'"
      "wk_config s' = wk_config ?s2" "wk_open s' = wk_open ?s2" by (auto simp: r2)
    with s1(1,4) True r show ?thesis by (auto simp: Let_def worm_rest_def)
  next
    case False
    with late r Cons.prems show ?thesis by (auto simp: Let_def)
  qed
qed

lemma worm_inv_start [simp]: "worm_inv out A (s\<lparr>wk_start := t\<rparr>) es = worm_inv out A s es"
  by (simp add: worm_inv_def worm_sound_def)

lemma flush_reorder_sound:
  assumes "worm_inv out A s es"
  shows "\<exists>s' es'. flush_reorder_buffer sha secs s = (Inr (), s') \<and> worm_inv out A s' es' \<and>
    wk_config s' = wk_config s \<and> wk_open s' = wk_open s"
  using worm_flush_loop_sound [OF assms, of sha secs]
  by (fastforce simp: flush_reorder_buffer_def)

lemma flush_reorder_idle:
  assumes "worm_inv out A s es" and "wk_last_lsn s + 1 \<notin> fst ` set (wk_reorder s)"
  shows "\<exists>t. flush_reorder_buffer sha secs s = (Inr (), s\<lparr>wk_start := t\<rparr>)"
proof (cases "wk_reorder s")
  case Nil
  then show ?thesis by (auto simp: flush_reorder_buffer_def)
next
  case (Cons x rest)
  obtain l p where x: "x = (l, p)" by fastforce
  have "wk_last_lsn s < - 1" "wk_last_lsn s < l" using assms(1) Cons x by (auto simp: worm_inv_def)
  with succ_u64 have "\<not> l < wk_last_lsn s + 1" by (auto simp: word_less_nat_alt)
  moreover have "l \<noteq> wk_last_lsn s + 1" using assms(2) Cons x by auto
  ultimately show ?thesis using Cons x
    by (auto simp: flush_reorder_buffer_def Let_def intro!: exI [of _ "wk_start s"])
qed

lemma reorder_insert_set:
  "l \<notin> fst ` set xs \<Longrightarrow> set (reorder_insert l p xs) = insert (l, p) (set xs)"
  by (induction xs rule: reorder_insert.induct) auto

lemma reorder_insert_sorted:
  "sorted_wrt (<) (map fst xs) \<Longrightarrow> l \<notin> fst ` set xs \<Longrightarrow> sorted_wrt (<) (map fst (reorder_insert l p xs))"
  by (induction l p xs rule: reorder_insert.induct) (auto simp: reorder_insert_set)

lemma worm_inv_direct:
  assumes "worm_inv out A s es" and "l = wk_last_lsn s + 1" and "l < - 1" and "l \<notin> fst ` A"
    and "worm_sound s'" and "worm_content s' = worm_content s @ d"
    and "wk_last_lsn s' = l" and "wk_reorder s' = wk_reorder s"
  shows "worm_inv out (insert (l, d) A) s' (es @ [WRec l d])"
proof -
  have bound: "wk_last_lsn s < - 1" using assms(1) by (simp add: worm_inv_def)
  have l: "unat l = unat (wk_last_lsn s) + 1" using succ_u64 [OF bound] assms(2) by simp
  have "\<forall>(k, q) \<in> set (wk_reorder s). l < k"
  proof clarify
    fix k q assume kq: "(k, q) \<in> set (wk_reorder s)"
    then have "wk_last_lsn s < k" "k \<noteq> l" using assms(1,4) by (force simp: worm_inv_def)+
    with l show "l < k" by (auto simp: word_less_nat_alt word_unat_eq_iff)
  qed
  moreover have "\<forall>(k, d) \<in> A. k \<le> l \<or> (\<exists>p. (k, p) \<in> set (wk_reorder s) \<and> pr_data p = d)"
    using assms(1) l by (fastforce simp: worm_inv_def word_le_nat_alt)
  ultimately show ?thesis using assms(1,3,5-8) l
    by (fastforce simp: worm_inv_def tiles_append)
qed

lemma worm_inv_gap:
  assumes "worm_inv out A s es" and "wk_reorder s = (f, p) # rest"
    and "worm_sound s'" and "worm_content s' = worm_content s @ gap_marker (wk_last_lsn s + 1) (f - 1)"
    and "wk_last_lsn s' = f - 1" and "wk_reorder s' = wk_reorder s"
  shows "worm_inv out A s' (es @ [WGap (wk_last_lsn s + 1) (f - 1)])"
proof -
  have b: "wk_last_lsn s < - 1" "wk_last_lsn s < f" "f < - 1" using assms(1,2) by (auto simp: worm_inv_def)
  then have "f \<noteq> 0" by auto
  then have f: "unat (f - 1) = unat f - 1" "0 < unat f" by (simp_all add: unat_minus_one unat_gt_0)
  have keys: "\<forall>(k, q) \<in> set (wk_reorder s). f - 1 < k"
  proof clarify
    fix k q assume "(k, q) \<in> set (wk_reorder s)"
    then have "f \<le> k" using assms(1,2) by (auto simp: worm_inv_def)
    with f show "f - 1 < k" by (auto simp: word_less_nat_alt word_le_nat_alt)
  qed
  have "unat (wk_last_lsn s) < unat f" using b(2) by (simp add: word_less_nat_alt)
  then have "tiles 1 (es @ [WGap (wk_last_lsn s + 1) (f - 1)]) (unat (f - 1) + 1)"
    and "f - 1 < - 1" and "wk_last_lsn s \<le> f - 1"
    using assms(1) succ_u64 [OF b(1)] f b(3)
    by (auto simp: worm_inv_def tiles_append word_less_nat_alt word_le_nat_alt)
  moreover have "\<forall>(k, d) \<in> A. k \<le> f - 1 \<or> (\<exists>q. (k, q) \<in> set (wk_reorder s) \<and> pr_data q = d)"
  proof clarify
    fix k d assume "(k, d) \<in> A" and "\<not> (\<exists>q. (k, q) \<in> set (wk_reorder s) \<and> pr_data q = d)"
    then have "k \<le> wk_last_lsn s" using assms(1) by (auto simp: worm_inv_def)
    then show "k \<le> f - 1" using \<open>wk_last_lsn s \<le> f - 1\<close> by (rule order_trans)
  qed
  ultimately show ?thesis using assms keys by (auto simp: worm_inv_def)
qed

lemma worm_inv_keys: "worm_inv out A s es \<Longrightarrow> fst ` set (wk_reorder s) \<subseteq> fst ` A"
proof
  fix k assume inv: "worm_inv out A s es" and "k \<in> fst ` set (wk_reorder s)"
  then obtain q where "(k, q) \<in> set (wk_reorder s)" by auto
  with inv have "(k, pr_data q) \<in> A" by (auto simp: worm_inv_def)
  then show "k \<in> fst ` A" by force
qed

lemma check_reorder_sound:
  assumes "worm_inv out A s es"
  shows "\<exists>s' es'. check_reorder_window sha now secs s = (Inr (), s') \<and> worm_inv out A s' es' \<and>
    wk_open s' = wk_open s"
proof (cases "\<exists>f p rest start. wk_reorder s = (f, p) # rest \<and> wk_start s = Some start \<and>
    wc_window_ms (wk_config s) \<noteq> 0 \<and> unat (wc_window_ms (wk_config s)) * 1000000 \<le> now - start")
  case False
  then have "check_reorder_window sha now secs s = (Inr (), s)"
    by (cases "wk_reorder s") (auto simp: check_reorder_window_def split: option.split)
  with assms show ?thesis by auto
next
  case True
  then obtain f p rest start where t: "wk_reorder s = (f, p) # rest" "wk_start s = Some start"
    "wc_window_ms (wk_config s) \<noteq> 0" "unat (wc_window_ms (wk_config s)) * 1000000 \<le> now - start" by blast
  have sound: "worm_sound s" using assms by (simp add: worm_inv_def)
  from worm_write_raw_sound [OF this] obtain s1 where
    s1: "worm_write_raw secs (gap_marker (wk_last_lsn s + 1) (f - 1)) s = (Inr (), s1)" "worm_sound s1"
      "worm_content s1 = worm_content s @ gap_marker (wk_last_lsn s + 1) (f - 1)" "worm_rest s1 = worm_rest s"
    by blast
  from worm_fsync_sound [OF s1(2)] obtain s2 where
    s2: "worm_fsync s1 = (Inr (), s2)" "worm_sound s2" "worm_content s2 = worm_content s1" "worm_rest s2 = worm_rest s1"
    by blast
  have "worm_inv out A (s2\<lparr>wk_last_lsn := f - 1\<rparr>) (es @ [WGap (wk_last_lsn s + 1) (f - 1)])"
    by (rule worm_inv_gap [OF assms t(1)]) (use s1 s2 in \<open>simp_all add: worm_sound_def worm_rest_def\<close>)
  from flush_reorder_sound [OF this, of sha secs] obtain s3 es' where
    "flush_reorder_buffer sha secs (s2\<lparr>wk_last_lsn := f - 1\<rparr>) = (Inr (), s3)" "worm_inv out A s3 es'"
    "wk_open s3 = wk_open s2" by auto
  moreover have "wk_open s2 = wk_open s" using s1(4) s2(4) by (simp add: worm_rest_def)
  ultimately show ?thesis using t s1(1) s2(1)
    by (auto simp: check_reorder_window_def Let_def)
qed

text \<open>One record: taken, or refused with the sink unchanged.\<close>

lemma worm_write_sound:
  assumes inv: "worm_inv out A s es" and op: "wk_open s" and l: "0 < lsn" "lsn < - 1" "lsn \<notin> fst ` A"
  shows "(\<exists>s' es'. worm_write sha now secs lsn ph ch data s = (Inr (), s') \<and>
      worm_inv out (insert (lsn, data) A) s' es' \<and> wk_open s') \<or>
    (\<exists>e. worm_write sha now secs lsn ph ch data s = (Inl e, s))"
proof -
  consider (expected) "lsn = wk_last_lsn s + 1" | (ahead) "wk_last_lsn s + 1 < lsn" | (late) "lsn < wk_last_lsn s + 1"
    by (meson linorder_less_linear)
  then show ?thesis
  proof cases
    case expected
    show ?thesis
    proof (cases "0 < wk_last_lsn s \<and> ph \<noteq> wk_last_hash s")
      case True
      with expected op show ?thesis by (simp add: worm_write_def)
    next
      case False
      have "wk_last_lsn s + 1 \<notin> fst ` set (wk_reorder s)"
        using worm_inv_keys [OF inv] l(3) expected by blast
      from flush_reorder_idle [OF inv this, of sha secs] obtain t where
        f: "flush_reorder_buffer sha secs s = (Inr (), s\<lparr>wk_start := t\<rparr>)" by blast
      let ?s1 = "s\<lparr>wk_start := t\<rparr>"
      have "worm_sound ?s1" using inv by (simp add: worm_inv_def worm_sound_def)
      from worm_write_raw_sound [OF this, of secs data] obtain s2 where
        s2: "worm_write_raw secs data ?s1 = (Inr (), s2)" "worm_sound s2"
          "worm_content s2 = worm_content s @ data" "worm_rest s2 = worm_rest ?s1" by auto
      from worm_fsync_sound [OF s2(2)] obtain s3 where
        s3: "(if wc_durability (wk_config s2) \<in> {Media, MediaWithFua} then worm_fsync s2 else (Inr (), s2)) =
            (Inr (), s3)" "worm_sound s3" "worm_content s3 = worm_content s2" "worm_rest s3 = worm_rest s2"
        using s2(2) by (metis (full_types))
      let ?s4 = "s3\<lparr>wk_last_lsn := lsn, wk_last_hash := next_hash sha lsn ch ph\<rparr>"
      have "worm_inv out (insert (lsn, data) A) ?s4 (es @ [WRec lsn data])"
        by (rule worm_inv_direct [OF inv expected l(2,3)])
           (use s2 s3 in \<open>simp_all add: worm_sound_def worm_rest_def\<close>)
      moreover have "worm_write sha now secs lsn ph ch data s = (Inr (), ?s4)"
        using expected False op f s2(1) s3(1) by (simp add: worm_write_def Let_def)
      moreover have "wk_open ?s4" using op s2(4) s3(4) by (simp add: worm_rest_def)
      ultimately show ?thesis by blast
    qed
  next
    case ahead
    let ?p = "\<lparr>pr_data = data, pr_prev_hash = ph, pr_content_hash = ch\<rparr>"
    let ?s1 = "s\<lparr>wk_reorder := reorder_insert lsn ?p (wk_reorder s)\<rparr>"
    have new: "lsn \<notin> fst ` set (wk_reorder s)" using worm_inv_keys [OF inv] l(3) by blast
    have "wk_last_lsn s < lsn"
      using ahead inv succ_u64 by (auto simp: worm_inv_def word_less_nat_alt)
    then have "worm_inv out (insert (lsn, data) A) ?s1 es"
      using inv l(2) reorder_insert_set [OF new] reorder_insert_sorted [OF _ new]
      by (fastforce simp: worm_inv_def worm_sound_def)
    then have "worm_inv out (insert (lsn, data) A) (if wk_start ?s1 = None then ?s1\<lparr>wk_start := Some now\<rparr> else ?s1) es"
      by simp
    from check_reorder_sound [OF this, of sha now secs] ahead op show ?thesis
      by (auto simp: worm_write_def Let_def split: if_splits)
  next
    case late
    then have "lsn \<le> wk_last_lsn s"
      using inv succ_u64 by (auto simp: worm_inv_def word_less_nat_alt word_le_nat_alt)
    with inv have "worm_inv out (insert (lsn, data) A) s es" by (fastforce simp: worm_inv_def)
    with late op show ?thesis by (auto simp: worm_write_def Let_def)
  qed
qed

section \<open>Sequences of records\<close>

record worm_call =
  wl_now :: nat
  wl_secs :: nat
  wl_lsn :: u64
  wl_prev_hash :: bytes
  wl_content_hash :: "bytes option"
  wl_data :: bytes

fun worm_writes :: "(bytes \<Rightarrow> bytes) \<Rightarrow> worm_call list \<Rightarrow> worm_sink \<Rightarrow> (sink_error + unit) list \<times> worm_sink" where
  "worm_writes sha [] s = ([], s)"
| "worm_writes sha (c # cs) s =
     (case worm_write sha (wl_now c) (wl_secs c) (wl_lsn c) (wl_prev_hash c) (wl_content_hash c) (wl_data c) s of
        (r, s') \<Rightarrow> (case worm_writes sha cs s' of (rs, s'') \<Rightarrow> (r # rs, s'')))"

definition worm_taken :: "worm_call list \<Rightarrow> (sink_error + unit) list \<Rightarrow> (u64 \<times> bytes) set" where
  "worm_taken cs rs = {(wl_lsn c, wl_data c) | c. (c, Inr ()) \<in> set (zip cs rs)}"

lemma worm_taken_Cons:
  "worm_taken (c # cs) (r # rs) =
     (if r = Inr () then insert (wl_lsn c, wl_data c) (worm_taken cs rs) else worm_taken cs rs)"
  by (auto simp: worm_taken_def)

definition one_each :: "(u64 \<times> bytes) set \<Rightarrow> bool" where
  "one_each A \<longleftrightarrow> (\<forall>l d d'. (l, d) \<in> A \<longrightarrow> (l, d') \<in> A \<longrightarrow> d = d')"

lemma worm_writes_sound:
  assumes "worm_inv out A s es" and "wk_open s" and "one_each A"
    and "distinct (map wl_lsn cs)" and "\<forall>c \<in> set cs. 0 < wl_lsn c \<and> wl_lsn c < - 1 \<and> wl_lsn c \<notin> fst ` A"
    and "worm_writes sha cs s = (rs, s')"
  shows "\<exists>es'. worm_inv out (A \<union> worm_taken cs rs) s' es' \<and> one_each (A \<union> worm_taken cs rs)"
  using assms
proof (induction cs arbitrary: A s es rs)
  case Nil
  then show ?case by (auto simp: worm_taken_def)
next
  case (Cons c cs)
  obtain r s1 where one: "worm_write sha (wl_now c) (wl_secs c) (wl_lsn c) (wl_prev_hash c) (wl_content_hash c)
      (wl_data c) s = (r, s1)" by fastforce
  obtain rs' s2 where rest: "worm_writes sha cs s1 = (rs', s2)" by fastforce
  have out: "rs = r # rs'" "s2 = s'" using Cons.prems(6) one rest by simp_all
  note rest = rest [unfolded out(2)]
  have c: "0 < wl_lsn c" "wl_lsn c < - 1" "wl_lsn c \<notin> fst ` A" using Cons.prems(5) by auto
  from worm_write_sound [OF Cons.prems(1,2) c, where data = "wl_data c" and sha = sha and now = "wl_now c" and
      secs = "wl_secs c" and ph = "wl_prev_hash c" and ch = "wl_content_hash c"] one
  consider es1 where "r = Inr ()" "worm_inv out (insert (wl_lsn c, wl_data c) A) s1 es1" "wk_open s1"
    | e where "r = Inl e" "s1 = s" by fastforce
  then show ?case
  proof cases
    case 1
    have "(wl_lsn c, d) \<notin> A" for d using c(3) by (metis fst_conv image_eqI)
    then have "one_each (insert (wl_lsn c, wl_data c) A)" using Cons.prems(3) by (auto simp: one_each_def)
    moreover have "\<forall>x \<in> set cs. wl_lsn x \<noteq> wl_lsn c" using Cons.prems(4) by (auto simp: image_iff)
    then have "\<forall>x \<in> set cs. 0 < wl_lsn x \<and> wl_lsn x < - 1 \<and> wl_lsn x \<notin> fst ` insert (wl_lsn c, wl_data c) A"
      using Cons.prems(5) by simp
    ultimately have "\<exists>es'. worm_inv out (insert (wl_lsn c, wl_data c) A \<union> worm_taken cs rs') s' es' \<and>
        one_each (insert (wl_lsn c, wl_data c) A \<union> worm_taken cs rs')"
      using Cons.IH [OF 1(2,3)] Cons.prems(4) rest by simp
    then show ?thesis by (simp add: out worm_taken_Cons 1(1))
  next
    case 2
    with Cons.IH [OF Cons.prems(1-3)] Cons.prems(4,5) rest show ?thesis
      by (simp add: out worm_taken_Cons)
  qed
qed

text \<open>C16: Whatever order the records arrive in, each LSN at most once, as long as the system calls
  succeed and the file does not rotate: the file holds, after what it held before, one
  uninterrupted sequence of entries in LSN order that covers every LSN up to the last one
  exactly once, by the bytes of a record that was taken or inside a gap marker; and no record
  that was taken is lost, except those a gap marker covers: each is in the file, is covered, or
  still waits in the reorder buffer.\<close>

theorem worm_file_gapless:
  assumes "fd_calls dev = []" and "wc_max_size config = 0"
    and "distinct (map wl_lsn cs)" and "\<forall>c \<in> set cs. 0 < wl_lsn c \<and> unat (wl_lsn c) < 2 ^ 64 - 1"
    and "worm_writes sha cs (snd (worm_open (worm_new config dev))) = (rs, s)"
  shows "\<exists>es. worm_content s = fd_bytes dev @ concat (map entry_bytes es) \<and>
    tiles 1 es (unat (wk_last_lsn s) + 1) \<and>
    (\<forall>l d. WRec l d \<in> set es \<longrightarrow> (l, d) \<in> worm_taken cs rs) \<and>
    (\<forall>(l, d) \<in> worm_taken cs rs. WRec l d \<in> set es \<or> (\<exists>a b. WGap a b \<in> set es \<and> a \<le> l \<and> l \<le> b) \<or>
       (\<exists>p. (l, p) \<in> set (wk_reorder s) \<and> pr_data p = d))"
proof -
  let ?s0 = "snd (worm_open (worm_new config dev))"
  have "worm_inv (fd_bytes dev) {} ?s0 []" "wk_open ?s0"
    using assms(1,2)
    by (simp_all add: worm_inv_def worm_sound_def worm_content_def worm_open_def worm_open_writer_def
        worm_new_def bw_content_def below_max)
  from worm_writes_sound [OF this _ assms(3) _ assms(5)] assms(4) [folded below_max] obtain es where
    inv: "worm_inv (fd_bytes dev) (worm_taken cs rs) s es" and one: "one_each (worm_taken cs rs)"
    by (auto simp: one_each_def)
  have "WRec l d \<in> set es \<or> (\<exists>a b. WGap a b \<in> set es \<and> a \<le> l \<and> l \<le> b) \<or>
      (\<exists>p. (l, p) \<in> set (wk_reorder s) \<and> pr_data p = d)" if ld: "(l, d) \<in> worm_taken cs rs" for l d
  proof (cases "l \<le> wk_last_lsn s")
    case True
    have "0 < l" using ld assms(4) by (auto simp: worm_taken_def dest: set_zip_leftD)
    then have "1 \<le> unat l" using unat_gt_0 [of l] by auto
    moreover have "unat l < unat (wk_last_lsn s) + 1" using True by (simp add: word_le_nat_alt)
    ultimately have "(\<exists>d'. WRec l d' \<in> set es) \<or> (\<exists>a b. WGap a b \<in> set es \<and> a \<le> l \<and> l \<le> b)"
      using tiles_cover [of 1 es "unat (wk_last_lsn s) + 1" l] inv by (auto simp: worm_inv_def)
    moreover have "WRec l d' \<in> set es \<Longrightarrow> d' = d" for d'
    proof -
      assume "WRec l d' \<in> set es"
      with inv have "(l, d') \<in> worm_taken cs rs" by (simp add: worm_inv_def)
      with one ld show ?thesis unfolding one_each_def by blast
    qed
    ultimately show ?thesis by blast
  next
    case False
    with inv ld show ?thesis by (auto simp: worm_inv_def)
  qed
  with inv show ?thesis by (auto simp: worm_inv_def intro!: exI [of _ es])
qed

definition demo_calls :: "worm_call list" where
  "demo_calls =
     [\<lparr>wl_now = 0, wl_secs = 0, wl_lsn = 2, wl_prev_hash = [], wl_content_hash = None, wl_data = [66]\<rparr>,
      \<lparr>wl_now = 0, wl_secs = 0, wl_lsn = 1, wl_prev_hash = [], wl_content_hash = None, wl_data = [65]\<rparr>,
      \<lparr>wl_now = 0, wl_secs = 0, wl_lsn = 3, wl_prev_hash = [], wl_content_hash = None, wl_data = [67]\<rparr>,
      \<lparr>wl_now = 10 ^ 9, wl_secs = 1, wl_lsn = 9, wl_prev_hash = [], wl_content_hash = None, wl_data = [68]\<rparr>]"

definition demo_device :: file_device where
  "demo_device = \<lparr>fd_bytes = [], fd_synced = 0, fd_calls = []\<rparr>"

theorem worm_file_gapless_witness:
  "\<exists>rs s es. worm_writes (\<lambda>x. x) demo_calls (snd (worm_open (worm_new worm_config_default demo_device))) = (rs, s) \<and>
     worm_content s = concat (map entry_bytes es) \<and> tiles 1 es (unat (wk_last_lsn s) + 1)"
proof -
  obtain rs s where r: "worm_writes (\<lambda>x. x) demo_calls (snd (worm_open (worm_new worm_config_default demo_device))) = (rs, s)"
    by fastforce
  have "fd_calls demo_device = []" "wc_max_size worm_config_default = 0" "fd_bytes demo_device = []"
    "distinct (map wl_lsn demo_calls)" "\<forall>c \<in> set demo_calls. 0 < wl_lsn c \<and> unat (wl_lsn c) < 2 ^ 64 - 1"
    by (simp_all add: demo_device_def worm_config_default_def demo_calls_def)
  with worm_file_gapless [OF _ _ _ _ r] r show ?thesis by auto
qed

section \<open>What the sink does not do\<close>

definition demo_sink :: "worm_config \<Rightarrow> worm_sink" where
  "demo_sink config = snd (worm_open (worm_new config demo_device))"

definition demo_call :: "u64 \<Rightarrow> bytes \<Rightarrow> bytes \<Rightarrow> worm_call" where
  "demo_call lsn prev data =
     \<lparr>wl_now = 0, wl_secs = 7, wl_lsn = lsn, wl_prev_hash = prev, wl_content_hash = Some [],
      wl_data = data\<rparr>"

text \<open>A record written with media durability is only in memory although the file was synced; the
  same LSN twice ahead of its turn is written twice; a record ahead of its turn is never checked
  against its predecessor; two rotations within a second keep only the second file.\<close>

lemmas worm_run_simps = demo_sink_def demo_call_def demo_device_def worm_open_def worm_open_writer_def
  worm_new_def worm_config_default_def worm_write_def flush_reorder_buffer_def worm_write_raw_def
  worm_fsync_def dev_sync_def dev_next_def bw_write_all_def check_reorder_window_def next_hash_def
  derive_chain_link_def worm_content_def bw_content_def worm_rotate_def worm_flush_def bw_flush_def
  dev_write_def worm_close_def Let_def

lemma worm_not_durable:
  "(case worm_writes (\<lambda>x. x) [demo_call 1 [] [65]] (demo_sink worm_config_default) of (rs, s) \<Rightarrow>
      rs = [Inr ()] \<and> wc_durability (wk_config s) = Media \<and> fd_bytes (wk_device s) = [])"
  by (simp add: worm_run_simps)

lemma worm_written_twice:
  "(case worm_writes (\<lambda>x. x) [demo_call 2 [] [66], demo_call 1 [] [65], demo_call 2 (le64 1) [66]]
      (demo_sink worm_config_default) of (rs, s) \<Rightarrow>
      rs = [Inr (), Inr (), Inr ()] \<and> worm_content s = [65, 66, 66])"
  by (simp add: worm_run_simps)

lemma worm_chain_unchecked:
  "(case worm_writes (\<lambda>x. x) [demo_call 2 [1] [66], demo_call 1 [] [65], demo_call 3 (le64 2) [67]]
      (demo_sink (worm_config_default\<lparr>wc_window_ms := 0\<rparr>)) of (rs, s) \<Rightarrow>
      rs = [Inr (), Inr (), Inr ()] \<and>
      (case worm_close (\<lambda>x. x) 7 s of (r, s') \<Rightarrow> r = Inr () \<and> worm_content s' = [65, 66, 67]))"
  by (simp add: worm_run_simps)

lemma worm_rotation_overwrites:
  "(case worm_writes (\<lambda>x. x) [demo_call 1 [] [65], demo_call 2 (le64 1) [66]]
      (demo_sink (worm_config_default\<lparr>wc_max_size := 1\<rparr>)) of (rs, s) \<Rightarrow>
      rs = [Inr (), Inr ()] \<and> wk_archive s = [(7, [66])] \<and> worm_content s = [])"
  by (simp add: worm_run_simps)

end
