(* ===== verification/Sif_Correct.thy ===== *)
theory Sif_Correct
  imports Sif_Codec
begin

text \<open>
  Correctness of the SIF codec: the layout of an encoded frame, the decoder on it entry by
  entry, the round trip, and what a successful decode of an arbitrary frame guarantees.
\<close>

section \<open>Reading a written frame\<close>

lemma get_slice_app:
  "length pre = off \<Longrightarrow> length x = k \<Longrightarrow> get_slice (pre @ x @ post) off k = Some x"
  by (simp add: get_slice_def)

lemma read_at [res_simps]:
  "length pre = off \<Longrightarrow> read_u8 (pre @ a # post) off = Inr a"
  "length pre = off \<Longrightarrow> n < 2 ^ 16 \<Longrightarrow> read_u16 (pre @ to_le 2 n @ post) off = Inr (of_nat n)"
  "length pre = off \<Longrightarrow> n < 2 ^ 32 \<Longrightarrow> read_u32 (pre @ to_le 4 n @ post) off = Inr (of_nat n)"
  by (auto simp: read_u8_def read_u16_def read_u32_def get_slice_app u16_of_def u32_of_def
      from_le_to_le_mod)

definition entry_bytes :: "kv_entry \<Rightarrow> bytes" where
  "entry_bytes e =
     [ke_tag e] @ [ke_ty e] @ to_le 2 (length (ke_name e)) @ to_le 4 (length (ke_value e)) @
     str_bytes (ke_name e) @ ke_value e"

lemma length_entry_bytes [simp]:
  "length (entry_bytes e) = 8 + length (ke_name e) + length (ke_value e)"
  by (simp add: entry_bytes_def)

definition entry_fits :: "kv_entry \<Rightarrow> bool" where
  "entry_fits e \<longleftrightarrow> length (ke_name e) \<le> MAX_FIELD_NAME \<and> length (ke_value e) \<le> MAX_FIELD_VALUE"

lemma encode_fields_Inr:
  "encode_fields es frame = Inr out \<longleftrightarrow>
     (\<forall>e \<in> set es. entry_fits e) \<and> out = frame @ concat (map entry_bytes es)"
  by (induction es arbitrary: frame)
     (auto simp: res_simps entry_fits_def entry_bytes_def sif_maxima not_less)

lemma name_ok_ascii: "validate_name name = Inr u \<Longrightarrow> utf8_valid (str_bytes name) \<and> name \<noteq> []"
proof -
  assume "validate_name name = Inr u"
  then have "list_all name_char_ok name" and ne: "name \<noteq> []"
    by (auto simp: validate_name_def res_simps)
  moreover have "(of_char c :: u8) < 0x80" if "name_char_ok c" for c
  proof -
    from that have "(of_char c :: nat) \<le> 122" by (auto simp: name_char_ok_def Let_def)
    then have "unat (of_char c :: u8) \<le> 122" by (simp add: unat_of_char)
    then show ?thesis by (simp add: word_less_nat_alt)
  qed
  ultimately have "\<forall>b \<in> set (str_bytes name). b < 0x80"
    by (auto simp: str_bytes_def list_all_iff)
  with ne show ?thesis by (simp add: utf8_valid_ascii)
qed

text \<open>The decoder on one written entry: the checks it makes and what it returns.\<close>

lemma decode_entry_written:
  assumes "entry_fits e" and "length pre + length (entry_bytes e) < 2 ^ 63"
  shows "decode_entry (pre @ entry_bytes e @ post) (length pre) tags =
    r_bind (r_check (kv_type_from_u8 (ke_ty e) = None) (UnknownType (ke_ty e))) (\<lambda>_.
    r_bind (r_check (ke_tag e = 0 \<or> ke_tag e \<in> set tags) (DuplicateTag (ke_tag e))) (\<lambda>_.
    r_bind (r_check (ke_name e = []) InvalidFieldName) (\<lambda>_.
    r_bind (r_check (\<not> utf8_valid (str_bytes (ke_name e))) InvalidUtf8) (\<lambda>_.
    r_bind (validate_name (ke_name e)) (\<lambda>_.
    Inr (e, length pre + length (entry_bytes e)))))))"
proof -
  let ?F = "pre @ entry_bytes e @ post"
  let ?n = "length (ke_name e)" and ?v = "length (ke_value e)" and ?p = "length pre"
  have small: "?n \<le> 1024" "?v \<le> 8388608"
    using assms(1) by (simp_all add: entry_fits_def sif_maxima)
  have tag: "read_u8 ?F ?p = Inr (ke_tag e)" and ty: "read_u8 ?F (?p + 1) = Inr (ke_ty e)"
    by (simp_all add: read_u8_def entry_bytes_def nth_append)
  have nl: "read_u16 ?F (?p + 2) = Inr (of_nat ?n)"
    using read_at(2) [of "pre @ [ke_tag e, ke_ty e]" "?p + 2" ?n] small
    by (simp add: entry_bytes_def)
  have vl: "read_u32 ?F (?p + 4) = Inr (of_nat ?v)"
    using read_at(3) [of "pre @ [ke_tag e, ke_ty e] @ to_le 2 ?n" "?p + 4" ?v] small
    by (simp add: entry_bytes_def)
  have un: "unat (of_nat ?n :: u16) = ?n" "unat (of_nat ?v :: u32) = ?v"
    using small by (simp_all add: unat_of_nat)
  have z: "(of_nat ?n :: u16) = 0 \<longleftrightarrow> ke_name e = []"
  proof
    assume "(of_nat ?n :: u16) = 0"
    then have "?n = unat (0 :: u16)" using un(1) by (simp only:)
    then show "ke_name e = []" by simp
  qed simp
  let ?A = "pre @ [ke_tag e, ke_ty e] @ to_le 2 ?n @ to_le 4 ?v @ str_bytes (ke_name e)"
  have "?F = ?A @ ke_value e @ post" "length ?A = ?p + 8 + ?n"
    by (simp_all add: entry_bytes_def)
  then have "drop (?p + 8 + ?n) ?F = ke_value e @ post"
    by (metis append_eq_conv_conj)
  then have raw: "take ?n (drop (?p + 8) ?F) = str_bytes (ke_name e)"
    "take ?v (drop (?p + 8 + ?n) ?F) = ke_value e"
    by (simp_all add: entry_bytes_def)
  have bounds: "?p + 8 + ?n < 2 ^ 64" "?p + 8 + ?n + ?v < 2 ^ 64"
    using assms(2) by simp_all
  have len: "\<not> length ?F < ?p + 8 + ?n + ?v" by simp
  have max: "\<not> MAX_FIELD_NAME < ?n" "\<not> MAX_FIELD_VALUE < ?v"
    using small by (simp_all add: sif_maxima)
  have e: "\<lparr>ke_tag = ke_tag e, ke_ty = ke_ty e, ke_name = ke_name e, ke_value = ke_value e\<rparr> = e"
    by simp
  show ?thesis
    unfolding decode_entry_def tag ty nl vl r_bind_simps un z checked_add_usize_def
      if_P [OF bounds(1)] if_P [OF bounds(2)] ok_or_simps raw Let_def bytes_str_bytes
      r_check_bind [OF len] r_check_bind [OF max(2)] simp_thms e
    using max(1) by (simp add: add.commute add.left_commute)
qed

section \<open>Restoring slots\<close>

interpretation kind_writer: slot_writer "\<lambda>s t v. snd (kv_put s t k v)" "kv_type_as_u8 k" "\<lambda>d. d" fits_usize for k
  by unfold_locales (simp_all add: kv_wf_put kv_get_put fits_usize_def)

lemma wire_put_known:
  assumes "kv_type_from_u8 ty = Some k" and "tag \<noteq> 0"
  shows "kv_wire_put s tag ty v = (Inr (), snd (kv_put s tag k v))"
  using assms kv_put_ok [of tag s k v] by (cases "kv_put s tag k v") (simp add: kv_wire_put_def)

lemma put_wire_slot_store:
  assumes "kv_type_from_u8 ty = Some k" and "tag \<noteq> 0"
  shows "put_wire_slot vs r tag ty v = Inr (rec_kv_store (\<lambda>s t v. snd (kv_put s t k v)) r tag v)"
  by (auto simp: put_wire_slot_def rec_kv_store_def wire_put_known [OF assms] Let_def
      split: option.splits prod.splits)

lemma put_wire_slot_ok:
  assumes "kv_type_from_u8 ty \<noteq> None" and "tag \<noteq> 0" and "slots_wf (rec_slots r)" and "fits_usize v"
  obtains r' where "put_wire_slot vs r tag ty v = Inr r'" "slots_wf (rec_slots r')"
    "rec_map r' = (rec_map r)(tag \<mapsto> (ty, v))" "rec_fixed r' = rec_fixed r"
proof -
  from assms(1) obtain k where k: "kv_type_from_u8 ty = Some k" by blast
  then have "ty = kv_type_as_u8 k" by (rule kv_type_from_u8_Some)
  then show thesis
    using that put_wire_slot_store [OF k assms(2)] kind_writer.rec_store_slots_wf [OF assms(3,2,4)]
      kind_writer.rec_store_fixed by blast
qed

definition entries_map :: "kv_entry list \<Rightarrow> u8 \<Rightarrow> (u8 \<times> bytes) option" where
  "entries_map es = map_of (map (\<lambda>e. (ke_tag e, ke_ty e, ke_value e)) es)"

text \<open>What an entry must satisfy to be accepted, and an entry that is not.\<close>

definition entry_valid :: "kv_entry \<Rightarrow> bool" where
  "entry_valid e \<longleftrightarrow>
     entry_fits e \<and> ke_tag e \<noteq> 0 \<and> kv_type_from_u8 (ke_ty e) \<noteq> None \<and>
     validate_name (ke_name e) = Inr ()"

lemma decode_entry_valid:
  assumes "entry_valid e" and "ke_tag e \<notin> set tags" and "length pre + length (entry_bytes e) < 2 ^ 63"
  shows "decode_entry (pre @ entry_bytes e @ post) (length pre) tags =
    Inr (e, length pre + length (entry_bytes e))"
proof -
  have "\<not> (ke_tag e = 0 \<or> ke_tag e \<in> set tags)" "utf8_valid (str_bytes (ke_name e))" "ke_name e \<noteq> []"
    using assms name_ok_ascii by (auto simp: entry_valid_def)
  then show ?thesis
    using assms(1) by (simp add: decode_entry_written [OF _ assms(3)] entry_valid_def)
qed

lemma decode_entry_only:
  assumes "entry_fits e" and "length pre + length (entry_bytes e) < 2 ^ 63"
    and "decode_entry (pre @ entry_bytes e @ post) (length pre) tags = Inr (e', c)"
  shows "e' = e \<and> c = length pre + length (entry_bytes e) \<and> validate_name (ke_name e) = Inr ()"
  using assms(3) by (auto simp: decode_entry_written [OF assms(1,2)] res_simps)

lemma decode_fields_written:
  assumes "\<forall>e \<in> set es. entry_valid e" and "distinct (map ke_tag es @ tags)"
    and "length pre + length (concat (map entry_bytes es)) < 2 ^ 63" and "slots_wf (rec_slots r)"
  shows "\<exists>r' vs'. decode_fields (pre @ concat (map entry_bytes es) @ post) (length es) (length pre) tags vs r =
      (Inr (length pre + length (concat (map entry_bytes es)), r'), vs') \<and>
    slots_wf (rec_slots r') \<and> rec_map r' = rec_map r ++ entries_map es \<and> rec_fixed r' = rec_fixed r"
  using assms
proof (induction es arbitrary: pre tags vs r)
  case Nil
  then show ?case by (simp add: entries_map_def)
next
  case (Cons e es)
  let ?vs = "if KV_TAG_CORE_MAX < ke_tag e then register_vendor_tag vs (ke_name e) (ke_tag e) else vs"
  from Cons.prems have v: "entry_valid e" "ke_tag e \<notin> set tags" "ke_tag e \<notin> ke_tag ` set es"
    "length pre + length (entry_bytes e) < 2 ^ 63" by auto
  have d: "decode_entry (pre @ entry_bytes e @ concat (map entry_bytes es) @ post) (length pre) tags =
      Inr (e, length pre + length (entry_bytes e))"
    by (rule decode_entry_valid [OF v(1,2,4)])
  have "fits_usize (ke_value e)"
    using v(1) by (simp add: entry_valid_def entry_fits_def fits_usize_def sif_maxima)
  moreover have "kv_type_from_u8 (ke_ty e) \<noteq> None" "ke_tag e \<noteq> 0"
    using v(1) by (simp_all add: entry_valid_def)
  ultimately obtain r1 where r1: "put_wire_slot ?vs r (ke_tag e) (ke_ty e) (ke_value e) = Inr r1"
    "slots_wf (rec_slots r1)" "rec_map r1 = (rec_map r)(ke_tag e \<mapsto> (ke_ty e, ke_value e))"
    "rec_fixed r1 = rec_fixed r"
    using Cons.prems(4) by (metis put_wire_slot_ok)
  obtain r' vs' where ih: "decode_fields ((pre @ entry_bytes e) @ concat (map entry_bytes es) @ post)
      (length es) (length (pre @ entry_bytes e)) (ke_tag e # tags) ?vs r1 =
      (Inr (length (pre @ entry_bytes e) + length (concat (map entry_bytes es)), r'), vs')"
    "slots_wf (rec_slots r')" "rec_map r' = rec_map r1 ++ entries_map es" "rec_fixed r' = rec_fixed r1"
    using Cons.IH [of "ke_tag e # tags" "pre @ entry_bytes e" r1 ?vs] Cons.prems r1(2) by auto
  have none: "entries_map es (ke_tag e) = None"
    using v(3) by (auto simp: entries_map_def map_of_eq_None_iff image_iff)
  have "(rec_map r)(ke_tag e \<mapsto> (ke_ty e, ke_value e)) ++ entries_map es = rec_map r ++ entries_map (e # es)"
    using none by (intro ext) (auto simp: entries_map_def map_add_def split: option.splits)
  with d r1 ih show ?case
    by (simp add: Let_def add.assoc)
qed

lemma decode_fields_bad_name:
  assumes "\<forall>e \<in> set es. entry_fits e"
    and "length pre + length (concat (map entry_bytes es)) < 2 ^ 63"
    and "\<exists>e \<in> set es. validate_name (ke_name e) \<noteq> Inr ()"
  shows "\<not> is_ok (fst (decode_fields (pre @ concat (map entry_bytes es) @ post) (length es) (length pre) tags vs r))"
  using assms
proof (induction es arbitrary: pre tags vs r)
  case Nil
  then show ?case by simp
next
  case (Cons e es)
  let ?vs = "if KV_TAG_CORE_MAX < ke_tag e then register_vendor_tag vs (ke_name e) (ke_tag e) else vs"
  let ?F = "pre @ entry_bytes e @ concat (map entry_bytes es) @ post"
  show ?case
  proof (cases "decode_entry ?F (length pre) tags")
    case (Inl x)
    then show ?thesis by simp
  next
    case (Inr p)
    with Cons.prems have p: "p = (e, length pre + length (entry_bytes e))" "validate_name (ke_name e) = Inr ()"
      using decode_entry_only [of e pre "concat (map entry_bytes es) @ post" tags] by (cases p; auto)+
    show ?thesis
    proof (cases "put_wire_slot ?vs r (ke_tag e) (ke_ty e) (ke_value e)")
      case (Inl x)
      with p Inr show ?thesis by (simp add: Let_def)
    next
      case r1: (Inr r1)
      have "\<not> is_ok (fst (decode_fields ((pre @ entry_bytes e) @ concat (map entry_bytes es) @ post)
        (length es) (length (pre @ entry_bytes e)) (ke_tag e # tags) ?vs r1))"
        using Cons.prems p(2) by (intro Cons.IH) auto
      with p Inr r1 show ?thesis by (simp add: Let_def)
    qed
  qed
qed

section \<open>The layout of a frame\<close>

definition entry_of :: "vendor_state \<Rightarrow> u8 \<times> u8 \<times> bytes \<Rightarrow> kv_entry" where
  "entry_of vs = (\<lambda>(t, y, v). \<lparr>ke_tag = t, ke_ty = y, ke_name = field_name_for_tag vs t, ke_value = v\<rparr>)"

lemma collect_entries_eq:
  "collect_entries vs r = map (entry_of vs) (List.map_filter kv_get (rec_slots r))"
proof -
  let ?add = "\<lambda>slot es. case kv_wire_value slot of None \<Rightarrow> es
    | Some (tag, ty, v) \<Rightarrow>
        es @ [\<lparr>ke_tag = tag, ke_ty = ty, ke_name = field_name_for_tag vs tag, ke_value = v\<rparr>]"
  have "fold ?add ss es = es @ map (entry_of vs) (List.map_filter kv_get ss)" for ss es
    by (induction ss arbitrary: es)
       (auto simp: List.map_filter_simps kv_wire_value_def entry_of_def split: option.splits)
  moreover have "collect_entries vs r = fold ?add (rec_slots r) []"
    by (cases "rec_kv_ext r") (simp_all add: collect_entries_def Let_def rec_slots_def)
  ultimately show ?thesis by simp
qed

definition sif_fixed_bytes :: "log_record \<Rightarrow> bytes" where
  "sif_fixed_bytes r =
     le64 (rec_id_hi r) @ le64 (rec_id_lo r) @ le64 (rec_timestamp r) @
     [level_as_u8 (rec_level r)] @ replicate 7 0 @ le32 (rec_thread_id r) @
     le32 (rec_process_id r) @ le64 (rec_lsn r) @ le16 (rec_flags r) @
     le32 (rec_pool_index r) @ rec_content_hash r @ to_le 4 (length (rs_as_bytes (rec_message r)))"

definition sif_header_bytes :: "u16 \<Rightarrow> nat \<Rightarrow> nat \<Rightarrow> bytes" where
  "sif_header_bytes flags tot n =
     SIF_MAGIC @ to_le 2 SIF_HEADER_LEN @ le16 flags @ to_le 4 tot @ to_le 4 n @
     to_le 4 SIF_FIXED_LEN @ le32 0 @ le32 0 @ le32 0"

lemma length_sif_parts [simp]:
  "length (sif_header_bytes flags tot n) = 32"
  "length (rec_content_hash r) = 32 \<Longrightarrow> length (sif_fixed_bytes r) = 90"
  by (simp_all add: sif_header_bytes_def sif_fixed_bytes_def SIF_MAGIC_def)

lemma encode_record_Inr:
  assumes "encode_record vs r = Inr frame"
  defines "es \<equiv> collect_entries vs r"
  shows "frame = sif_header_bytes (sif_record_flags r) (length frame) (length es) @ sif_fixed_bytes r @
      rs_as_bytes (rec_message r) @ concat (map entry_bytes es)"
    and "length es \<le> MAX_FIELD_COUNT" and "\<forall>e \<in> set es. entry_fits e"
    and "length (rs_as_bytes (rec_message r)) \<le> MAX_MESSAGE_SIZE" and "length frame \<le> MAX_FRAME_SIZE"
proof -
  let ?body = "sif_fixed_bytes r @ rs_as_bytes (rec_message r) @ concat (map entry_bytes es)"
  let ?f0 = "SIF_MAGIC @ to_le 2 SIF_HEADER_LEN @ le16 (sif_record_flags r) @ le32 0 @
    to_le 4 (length es) @ to_le 4 SIF_FIXED_LEN @ le32 0 @ le32 0 @ le32 0 @ ?body"
  have facts: "length es \<le> MAX_FIELD_COUNT \<and> length (rs_as_bytes (rec_message r)) \<le> MAX_MESSAGE_SIZE \<and>
      (\<forall>e \<in> set es. entry_fits e) \<and> length ?f0 \<le> MAX_FRAME_SIZE \<and>
      frame = take 8 ?f0 @ to_le 4 (length ?f0) @ drop 12 ?f0"
    using assms(1) by (auto simp: encode_record_def Let_def res_simps encode_fields_Inr es_def
        sif_fixed_bytes_def not_less)
  then have eq: "frame = SIF_MAGIC @ to_le 2 SIF_HEADER_LEN @ le16 (sif_record_flags r) @
      to_le 4 (length ?f0) @ to_le 4 (length es) @ to_le 4 SIF_FIXED_LEN @ le32 0 @ le32 0 @ le32 0 @ ?body"
    by (simp add: SIF_MAGIC_def)
  then have len: "length frame = length ?f0" by simp
  from eq show "frame = sif_header_bytes (sif_record_flags r) (length frame) (length es) @ ?body"
    unfolding len by (simp add: sif_header_bytes_def)
  from facts show "length es \<le> MAX_FIELD_COUNT" "\<forall>e \<in> set es. entry_fits e"
    "length (rs_as_bytes (rec_message r)) \<le> MAX_MESSAGE_SIZE"
    by blast+
  show "length frame \<le> MAX_FRAME_SIZE"
    unfolding len using facts by blast
qed

lemma record_flags_kind:
  "message_kind_of (sif_record_flags r) = Inr (rs_kind (rec_message r))"
  "\<not> (sif_record_flags r AND SIF_FLAG_MESSAGE_BINARY \<noteq> 0 \<and>
      sif_record_flags r AND SIF_FLAG_MESSAGE_EXPLICIT_TEXT \<noteq> 0)"
  by (cases "rs_kind (rec_message r)";
      simp add: sif_record_flags_def message_kind_of_def Let_def sif_flags)+

lemma validate_header:
  assumes "length rest = length frame - 32" and "32 + 90 \<le> length frame" and "length frame \<le> MAX_FRAME_SIZE"
    and "frame = sif_header_bytes flags (length frame) n @ rest" and "n \<le> MAX_FIELD_COUNT"
    and "\<not> (flags AND SIF_FLAG_MESSAGE_BINARY \<noteq> 0 \<and> flags AND SIF_FLAG_MESSAGE_EXPLICIT_TEXT \<noteq> 0)"
    and "do_max_frame_size options = MAX_FRAME_SIZE" "do_max_field_count options = MAX_FIELD_COUNT"
  shows "validate_frame_with frame options =
    Inr \<lparr>fh_flags = flags, fh_total_length = length frame, fh_field_count = n, fh_fixed_length = 90\<rparr>"
proof -
  define L where "L = length frame"
  have F: "frame = sif_header_bytes flags L n @ rest" and L: "L \<le> 16777216" "122 \<le> L"
    using assms(2-4) by (simp_all add: L_def sif_maxima)
  have slices: "get_slice frame 4 2 = Some (to_le 2 32)" "get_slice frame 6 2 = Some (le16 flags)"
    "get_slice frame 8 4 = Some (to_le 4 L)" "get_slice frame 12 4 = Some (to_le 4 n)"
    "get_slice frame 16 4 = Some (to_le 4 90)" "take 4 frame = SIF_MAGIC"
    unfolding F by (simp_all add: get_slice_def sif_header_bytes_def SIF_MAGIC_def sif_lens)
  have vals: "unat (u16_of (to_le 2 32)) = 32" "unat (u32_of (to_le 4 L)) = L"
    "unat (u32_of (to_le 4 n)) = n" "unat (u32_of (to_le 4 90)) = 90"
    using L assms(5)
    by (simp_all add: u16_of_def u32_of_def from_le_to_le_mod unat_of_nat sif_maxima)
  show ?thesis
    using L assms(5,6)
    unfolding validate_frame_with_def read_u16_def read_u32_def slices L_def [symmetric] assms(7,8)
      ok_or_simps r_bind_simps vals
    by (auto simp: checked_add_usize_def sif_lens sif_maxima)
qed

definition id_map :: "u64 \<Rightarrow> u64 \<Rightarrow> u8 \<Rightarrow> (u8 \<times> bytes) option" where
  "id_map hi lo = [1 \<mapsto> (6, le64 hi @ le64 lo)]"

lemma rec_map_new [simp]: "rec_map (rec_new i) = Map.empty"
  by (rule ext) (simp add: rec_map_def slots_map_def rec_slots_def rec_new_def kv_empty_def kv_consts)

lemma rec_map_id: "rec_map (rec_set_id (rec_new i) hi lo) = id_map hi lo"
proof -
  have "slots_wf (rec_slots (rec_new i))"
    using rec_wf_new [of i] by (simp add: rec_wf_def del: rec_wf_new)
  then have "rec_map (rec_set_id (rec_new i) hi lo) = (rec_map (rec_new i))(1 \<mapsto> (6, le64 hi @ le64 lo))"
    unfolding rec_set_id_def by (rule rec_put_maps(2)) (simp_all add: fits_usize_def)
  then show ?thesis by (simp add: id_map_def)
qed

lemma set_message_kinds:
  "kind \<noteq> Binary \<longrightarrow> utf8_valid v \<Longrightarrow> decode_set_message kind m v = Inr (rs_set_with_kind m v kind)"
  by (cases kind)
     (simp_all add: decode_set_message_def rs_set_utf8_bytes_def rs_set_bytes_def
        rs_set_explicit_decoded_text_def)

lemma set_message_wf: "decode_set_message kind m v = Inr m' \<Longrightarrow> rs_wf m \<Longrightarrow> rs_wf m'"
  by (auto simp: decode_set_message_def rs_set_utf8_bytes_def rs_set_bytes_def
        rs_set_explicit_decoded_text_def split: payload_kind.splits if_splits)

lemma decode_fixed_written:
  assumes "rec_wf r" and "length H = 32" and "frame = H @ sif_fixed_bytes r @ msg @ rest"
    and "msg = rs_as_bytes (rec_message r)" and "length msg \<le> MAX_MESSAGE_SIZE"
    and "rs_kind (rec_message r) \<noteq> Binary \<longrightarrow> utf8_valid msg"
    and "fh_flags header = sif_record_flags r" "fh_fixed_length header = 90"
  shows "decode_fixed frame header =
    Inr ((rec_set_id (rec_new (rec_pool_index r)) (rec_id_hi r) (rec_id_lo r))
      \<lparr>rec_timestamp := rec_timestamp r, rec_level := rec_level r, rec_thread_id := rec_thread_id r,
       rec_process_id := rec_process_id r, rec_lsn := rec_lsn r, rec_flags := rec_flags r,
       rec_content_hash := rec_content_hash r,
       rec_message := rs_set_with_kind rs_empty msg (rs_kind (rec_message r))\<rparr>, 122 + length msg)"
proof -
  have hash: "length (rec_content_hash r) = 32" using assms(1) by (simp add: rec_wf_def)
  note F = assms(3) [unfolded sif_fixed_bytes_def]
  have slices: "get_slice frame 32 8 = Some (le64 (rec_id_hi r))"
    "get_slice frame 40 8 = Some (le64 (rec_id_lo r))"
    "get_slice frame 48 8 = Some (le64 (rec_timestamp r))"
    "get_slice frame 64 4 = Some (le32 (rec_thread_id r))"
    "get_slice frame 68 4 = Some (le32 (rec_process_id r))"
    "get_slice frame 72 8 = Some (le64 (rec_lsn r))"
    "get_slice frame 80 2 = Some (le16 (rec_flags r))"
    "get_slice frame 82 4 = Some (le32 (rec_pool_index r))"
    "get_slice frame 86 32 = Some (rec_content_hash r)"
    "get_slice frame 118 4 = Some (to_le 4 (length msg))"
    unfolding F by (simp_all add: get_slice_def assms(2,4) hash)
  have lev: "56 < length frame" "frame ! 56 = level_as_u8 (rec_level r)"
    unfolding F by (simp_all add: assms(2) hash nth_append)
  have n: "length msg \<le> 8388608" using assms(5) by (simp add: sif_maxima)
  have vals: "unat (u32_of (to_le 4 (length msg))) = length msg"
    using n by (simp add: u32_of_def from_le_to_le_mod unat_of_nat)
  have msg: "take (length msg) (drop 122 frame) = msg" "\<not> length frame < 122 + length msg"
    unfolding F by (simp_all add: assms(2) hash)
  have "rec_fixed (rec_set_id (rec_new i) a b) = rec_fixed (rec_new i)" for i a b
    by (simp add: rec_set_id_def)
  then have m0: "rec_message (rec_set_id (rec_new i) a b) = rs_empty" for i a b
    by (simp add: rec_fixed_def rec_new_def)
  have bad: "\<not> (MAX_MESSAGE_SIZE < length msg \<or> checked_add_usize 122 (length msg) = None \<or>
      length frame < 122 + length msg)"
    using n msg(2) by (simp add: sif_maxima checked_add_usize_def)
  have utf: "\<not> (rs_kind (rec_message r) \<noteq> Binary \<and> \<not> utf8_valid msg)" using assms(6) by blast
  have offs: "32 + (8::nat) = 40" "32 + (16::nat) = 48" "32 + (24::nat) = 56" "32 + (32::nat) = 64"
    "32 + (36::nat) = 68" "32 + (40::nat) = 72" "32 + (48::nat) = 80" "32 + (50::nat) = 82"
    "32 + (54::nat) = 86" "32 + (86::nat) = 118" "32 + (90::nat) = 122"
    by simp_all
  have lvl: "read_u8 frame 56 = Inr (level_as_u8 (rec_level r))"
    using lev by (simp add: read_u8_def)
  show ?thesis
    unfolding decode_fixed_def Let_def assms(7,8) sif_lens offs read_u16_def read_u32_def read_u64_def
      read_array_def slices lvl ok_or_simps r_bind_simps level_from_as u_of_le vals
      r_check_bind [OF bad] msg(1) record_flags_kind(1) r_check_bind [OF utf]
    by (simp add: m0 set_message_kinds [OF assms(6)])
qed

section \<open>Entries and the field map\<close>

lemma entries_of_slots:
  "map_of (List.map_filter kv_get ss) = slots_map ss"
  "map fst (List.map_filter kv_get ss) = filter (\<lambda>t. t \<noteq> 0) (map kv_tag ss)"
proof -
  show "map_of (List.map_filter kv_get ss) = slots_map ss"
    by (induction ss)
       (auto simp: List.map_filter_simps kv_get_def kv_is_empty_def kv_consts slots_map_def fun_eq_iff)
qed (induction ss; simp add: List.map_filter_simps kv_get_def kv_is_empty_def kv_consts)

lemma entries_map_record: "entries_map (collect_entries vs r) = rec_map r"
proof -
  have "(\<lambda>e. (ke_tag e, ke_ty e, ke_value e)) \<circ> entry_of vs = id"
    by (auto simp: entry_of_def)
  then show ?thesis
    by (simp add: entries_map_def collect_entries_eq entries_of_slots rec_map_def)
qed

lemma entries_distinct: "slots_wf (rec_slots r) \<Longrightarrow> distinct (map ke_tag (collect_entries vs r))"
proof -
  have "ke_tag \<circ> entry_of vs = fst" by (auto simp: entry_of_def)
  then show "slots_wf (rec_slots r) \<Longrightarrow> distinct (map ke_tag (collect_entries vs r))"
    by (simp add: collect_entries_eq entries_of_slots slots_wf_def)
qed

text \<open>The record a frame of \<open>r\<close> starts from.\<close>

definition restored_base :: "log_record \<Rightarrow> log_record" where
  "restored_base r =
     (rec_set_id (rec_new (rec_pool_index r)) (rec_id_hi r) (rec_id_lo r))
      \<lparr>rec_timestamp := rec_timestamp r, rec_level := rec_level r, rec_thread_id := rec_thread_id r,
       rec_process_id := rec_process_id r, rec_lsn := rec_lsn r, rec_flags := rec_flags r,
       rec_content_hash := rec_content_hash r,
       rec_message := rs_set_with_kind rs_empty (rs_as_bytes (rec_message r)) (rs_kind (rec_message r))\<rparr>"

lemma rec_slots_all [simp]:
  "rec_slots (r\<lparr>rec_timestamp := a\<rparr>) = rec_slots r" "rec_slots (r\<lparr>rec_level := b\<rparr>) = rec_slots r"
  "rec_slots (r\<lparr>rec_thread_id := c\<rparr>) = rec_slots r" "rec_slots (r\<lparr>rec_process_id := d\<rparr>) = rec_slots r"
  "rec_slots (r\<lparr>rec_lsn := e\<rparr>) = rec_slots r" "rec_slots (r\<lparr>rec_flags := f\<rparr>) = rec_slots r"
  "rec_slots (r\<lparr>rec_content_hash := g\<rparr>) = rec_slots r" "rec_slots (r\<lparr>rec_message := h\<rparr>) = rec_slots r"
  by (simp_all add: rec_slots_def)

lemma restored_base_props:
  assumes "rec_wf r"
  shows "rec_map (restored_base r) = id_map (rec_id_hi r) (rec_id_lo r)"
    and "slots_wf (rec_slots (restored_base r))"
    and "fst (rec_fixed (restored_base r)) = fst (rec_fixed r)"
    and "rec_content_hash (restored_base r) = rec_content_hash r"
    and "rs_kind (rec_message (restored_base r)) = rs_kind (rec_message r)"
    and "rs_as_bytes (rec_message (restored_base r)) = rs_as_bytes (rec_message r)"
    and "rs_wf (rec_message (restored_base r))"
proof -
  let ?b = "rec_set_id (rec_new (rec_pool_index r)) (rec_id_hi r) (rec_id_lo r)"
  have "rec_wf ?b" by (simp add: rec_set_id_def rec_wf_puts fits_usize_def)
  then show "slots_wf (rec_slots (restored_base r))"
    by (simp add: restored_base_def rec_wf_def)
  show "rec_map (restored_base r) = id_map (rec_id_hi r) (rec_id_lo r)"
    using rec_map_id [of "rec_pool_index r"] by (simp add: restored_base_def rec_map_def)
  have "rec_fixed ?b = rec_fixed (rec_new (rec_pool_index r))" by (simp add: rec_set_id_def)
  then show "fst (rec_fixed (restored_base r)) = fst (rec_fixed r)"
    by (simp add: restored_base_def rec_fixed_def rec_new_def)
  have "rs_wf (rec_message r)" using assms by (simp add: rec_wf_def)
  then show "rs_as_bytes (rec_message (restored_base r)) = rs_as_bytes (rec_message r)"
    by (simp add: restored_base_def rs_as_bytes_set payload_visible_self)
qed (simp_all add: restored_base_def)

lemma frame_prefix_decodes:
  assumes "rec_wf r" and "encode_record vs r = Inr frame"
    and "rs_kind (rec_message r) \<noteq> Binary \<longrightarrow> utf8_valid (rs_as_bytes (rec_message r))"
    and "do_max_frame_size options = MAX_FRAME_SIZE" "do_max_field_count options = MAX_FIELD_COUNT"
  defines "es \<equiv> collect_entries vs r"
  obtains pre header where
    "frame = pre @ concat (map entry_bytes es)" "length frame < 2 ^ 63"
    "validate_frame_with frame options = Inr header" "fh_field_count header = length es"
    "decode_fixed frame header = Inr (restored_base r, length pre)"
proof -
  let ?msg = "rs_as_bytes (rec_message r)"
  let ?H = "sif_header_bytes (sif_record_flags r) (length frame) (length es)"
  let ?h = "\<lparr>fh_flags = sif_record_flags r, fh_total_length = length frame,
    fh_field_count = length es, fh_fixed_length = 90\<rparr>"
  have hash: "length (rec_content_hash r) = 32" using assms(1) by (simp add: rec_wf_def)
  note e = encode_record_Inr [OF assms(2), folded es_def]
  have F: "frame = ?H @ sif_fixed_bytes r @ ?msg @ concat (map entry_bytes es)" by (rule e(1))
  have "length frame = 32 + (90 + (length ?msg + length (concat (map entry_bytes es))))"
    by (subst F) (simp add: hash)
  then have v: "validate_frame_with frame options = Inr ?h"
    using F e(2,5) record_flags_kind(2) assms(4,5)
    by (intro validate_header [of "sif_fixed_bytes r @ ?msg @ concat (map entry_bytes es)"])
       (simp_all add: hash)
  have d: "decode_fixed frame ?h = Inr (restored_base r, 122 + length ?msg)"
    unfolding restored_base_def
    by (rule decode_fixed_written [OF assms(1) _ F refl e(4) assms(3)]) simp_all
  show thesis
  proof (rule that)
    show "frame = (?H @ sif_fixed_bytes r @ ?msg) @ concat (map entry_bytes es)"
      using F by simp
    show "length frame < 2 ^ 63" using e(5) by (simp add: sif_maxima)
    show "decode_fixed frame ?h = Inr (restored_base r, length (?H @ sif_fixed_bytes r @ ?msg))"
      using d by (simp add: hash)
  qed (use v in simp_all)
qed

section \<open>Core names\<close>

lemma core_names_known:
  "list_all (\<lambda>n. map_of resolve_table n \<noteq> None) sif_names"
  "List.find (\<lambda>n. map_of resolve_table n = Some (Some KV_TAG_LABELS)) sif_names = Some ''labels''"
  "List.find (\<lambda>n. map_of resolve_table n = Some (Some KV_TAG_ENVIRONMENT)) sif_names = Some ''environment''"
  "validate_name ''labels'' = Inl InvalidFieldName" "validate_name ''environment'' = Inl InvalidFieldName"
  by code_simp+

lemma name_of_core_tag:
  assumes "List.find (\<lambda>n. map_of resolve_table n = Some (Some tag)) sif_names = Some name"
  shows "field_name_for_tag vs tag = name"
proof -
  have "fst (resolve_tag vs n False) = Some tag \<longleftrightarrow> map_of resolve_table n = Some (Some tag)"
    if "n \<in> set sif_names" for n
    using that core_names_known(1) by (auto simp: list_all_iff resolve_tag_def)
  then have "List.find (\<lambda>n. fst (resolve_tag vs n False) = Some tag) sif_names =
      List.find (\<lambda>n. map_of resolve_table n = Some (Some tag)) sif_names"
    by (intro find_cong) auto
  with assms show ?thesis by (simp add: field_name_for_tag_def)
qed

section \<open>Decoding arbitrary frames\<close>

lemma decode_entry_Inr:
  "decode_entry frame cursor tags = Inr (e, c) \<Longrightarrow>
     ke_tag e \<noteq> 0 \<and> ke_tag e \<notin> set tags \<and> kv_type_from_u8 (ke_ty e) \<noteq> None \<and> fits_usize (ke_value e) \<and>
     validate_name (ke_name e) = Inr () \<and> c \<le> length frame"
  by (auto simp: decode_entry_def res_simps Let_def fits_usize_def sif_maxima not_less
      checked_add_usize_def ok_or_def split: option.splits if_splits)

lemma register_vendor_safe:
  "vendor_core_free vs \<Longrightarrow> vendor_core_free (register_vendor_tag vs name tag)"
  "map_of (vendor_tags vs) n = Some t \<Longrightarrow> map_of (vendor_tags (register_vendor_tag vs name tag)) n = Some t"
proof -
  have "64 \<le> tag" if "\<not> tag \<le> KV_TAG_CORE_MAX"
    using that by (simp add: kv_consts word_le_nat_alt)
  then show "vendor_core_free vs \<Longrightarrow> vendor_core_free (register_vendor_tag vs name tag)"
    by (auto simp: register_vendor_tag_def vendor_core_free_def vendor_tags_def vendor_counter_def
        split: option.splits)
  show "map_of (vendor_tags vs) n = Some t \<Longrightarrow> map_of (vendor_tags (register_vendor_tag vs name tag)) n = Some t"
    by (auto simp: register_vendor_tag_def vendor_tags_def map_add_def split: option.splits)
qed

lemma put_wire_slot_length:
  assumes "kv_type_from_u8 ty \<noteq> None" "tag \<noteq> 0" "put_wire_slot vs r tag ty v = Inr r'"
  shows "length (rec_slots r') \<le> Suc (length (rec_slots r))"
proof -
  from assms(1) obtain k where "kv_type_from_u8 ty = Some k" by blast
  then show ?thesis
    using put_wire_slot_store [of ty k tag vs r v] assms(2,3)
    by (auto simp: kind_writer.rec_store_slots split: option.splits)
qed

lemma decode_fields_vendor:
  assumes "decode_fields frame n c tags vs r = (res, vs')"
  shows "(vendor_core_free vs \<longrightarrow> vendor_core_free vs') \<and>
    (\<forall>m t. map_of (vendor_tags vs) m = Some t \<longrightarrow> map_of (vendor_tags vs') m = Some t)"
  using assms
proof (induction frame n c tags vs r rule: decode_fields.induct)
  case (2 frame n cursor tags vs r)
  show ?case
  proof (cases "decode_entry frame cursor tags")
    case (Inl x)
    with "2.prems" show ?thesis by simp
  next
    case (Inr p)
    obtain e c where p: "p = (e, c)" by (cases p)
    let ?vs = "if KV_TAG_CORE_MAX < ke_tag e then register_vendor_tag vs (ke_name e) (ke_tag e) else vs"
    have vs: "vendor_core_free vs \<longrightarrow> vendor_core_free ?vs"
      "map_of (vendor_tags vs) m = Some t \<longrightarrow> map_of (vendor_tags ?vs) m = Some t" for m t
      using register_vendor_safe by auto
    show ?thesis
    proof (cases "put_wire_slot ?vs r (ke_tag e) (ke_ty e) (ke_value e)")
      case (Inl x)
      with "2.prems" Inr p vs show ?thesis by (auto simp: Let_def)
    next
      case r': (Inr r')
      with "2.prems" Inr p have "decode_fields frame n c (ke_tag e # tags) ?vs r' = (res, vs')"
        by (simp add: Let_def)
      from "2.IH" [OF Inr p [symmetric] refl r' this] vs show ?thesis by blast
    qed
  qed
qed simp

lemma decode_fields_ok:
  assumes "decode_fields frame n c tags vs r = (Inr (c', r'), vs')" and "slots_wf (rec_slots r)"
  shows "slots_wf (rec_slots r') \<and> rec_fixed r' = rec_fixed r \<and>
    length (rec_slots r') \<le> n + length (rec_slots r)"
  using assms
proof (induction frame n c tags vs r rule: decode_fields.induct)
  case (2 frame n cursor tags vs r)
  obtain e c where d: "decode_entry frame cursor tags = Inr (e, c)"
    using "2.prems"(1) by (cases "decode_entry frame cursor tags") auto
  let ?vs = "if KV_TAG_CORE_MAX < ke_tag e then register_vendor_tag vs (ke_name e) (ke_tag e) else vs"
  note e = decode_entry_Inr [OF d]
  then obtain r1 where r1: "put_wire_slot ?vs r (ke_tag e) (ke_ty e) (ke_value e) = Inr r1"
    "slots_wf (rec_slots r1)" "rec_fixed r1 = rec_fixed r"
    using "2.prems"(2) by (metis put_wire_slot_ok)
  then have l: "length (rec_slots r1) \<le> Suc (length (rec_slots r))"
    using e by (intro put_wire_slot_length) auto
  from "2.prems"(1) d r1(1) have "decode_fields frame n c (ke_tag e # tags) ?vs r1 = (Inr (c', r'), vs')"
    by (simp add: Let_def)
  from "2.IH" [OF d refl refl r1(1) this r1(2)] r1(3) l show ?case by simp
qed simp

lemma decode_fixed_ok:
  assumes "decode_fixed frame header = Inr (r0, end)"
  shows "rec_wf r0 \<and> length (rec_slots r0) = 2"
proof -
  obtain pool hi lo ts lev tid pid lsn fl hash m kind v where
    r0: "r0 = (rec_set_id (rec_new pool) hi lo)\<lparr>rec_timestamp := ts, rec_level := lev,
        rec_thread_id := tid, rec_process_id := pid, rec_lsn := lsn, rec_flags := fl,
        rec_content_hash := hash, rec_message := m\<rparr>"
    and hash: "length hash = 32"
    and m: "decode_set_message kind (rec_message (rec_set_id (rec_new pool) hi lo)) v = Inr m"
    using assms
    by (auto simp: decode_fixed_def Let_def res_simps read_array_def get_slice_def ok_or_def
        split: if_splits option.splits)
  have b: "rec_wf (rec_set_id (rec_new pool) hi lo)"
    by (simp add: rec_set_id_def rec_wf_puts fits_usize_def)
  have "slots_wf (rec_slots (rec_set_id (rec_new pool) hi lo))" "rs_wf m"
    using b m by (auto simp: rec_wf_def intro: set_message_wf)
  moreover have "length (rec_slots (rec_set_id (rec_new pool) hi lo)) = 2"
    by (simp add: rec_set_id_def rec_kv_put_binary_def rec_kv_put_def rec_kv_store_def kv_consts
        KV_TAG_MAX_def rec_kv_find_def rec_kv_find_empty_def rec_new_def kv_empty_def
        kv_is_empty_def rec_slots_def word_less_nat_alt)
  ultimately show ?thesis
    unfolding r0 using hash by (simp add: rec_wf_def)
qed

text \<open>Encoding succeeds within the limits.\<close>

lemma encode_record_total:
  assumes "length (collect_entries vs r) \<le> MAX_FIELD_COUNT"
    and "length (rs_as_bytes (rec_message r)) \<le> MAX_MESSAGE_SIZE"
    and "\<forall>e \<in> set (collect_entries vs r). entry_fits e" and "length (rec_content_hash r) = 32"
    and "122 + length (rs_as_bytes (rec_message r)) +
      length (concat (map entry_bytes (collect_entries vs r))) \<le> MAX_FRAME_SIZE"
  shows "\<exists>frame. encode_record vs r = Inr frame"
proof -
  let ?es = "collect_entries vs r" and ?msg = "rs_as_bytes (rec_message r)"
  let ?h = "SIF_MAGIC @ to_le 2 SIF_HEADER_LEN @ le16 (sif_record_flags r) @ le32 0 @
    to_le 4 (length ?es) @ to_le 4 SIF_FIXED_LEN @ le32 0 @ le32 0 @ le32 0 @
    le64 (rec_id_hi r) @ le64 (rec_id_lo r) @ le64 (rec_timestamp r) @
    [level_as_u8 (rec_level r)] @ replicate 7 0 @ le32 (rec_thread_id r) @
    le32 (rec_process_id r) @ le64 (rec_lsn r) @ le16 (rec_flags r) @
    le32 (rec_pool_index r) @ rec_content_hash r @ to_le 4 (length ?msg) @ ?msg"
  have f: "encode_fields ?es ?h = Inr (?h @ concat (map entry_bytes ?es))"
    using assms(3) by (simp add: encode_fields_Inr)
  have len: "length (?h @ concat (map entry_bytes ?es)) \<le> MAX_FRAME_SIZE"
    using assms(4,5) by (simp add: SIF_MAGIC_def)
  then have "\<not> 2 ^ 32 \<le> length (?h @ concat (map entry_bytes ?es))" by (simp add: sif_maxima)
  with f len assms(1,2) show ?thesis
    unfolding encode_record_def Let_def f r_bind_simps by (auto simp: res_simps r_bind_def r_check_def)
qed

lemma small_record_encodes:
  assumes "rec_wf r" and "rec_message r = rs_empty"
    and "concat (map entry_bytes (collect_entries vs r)) = b" and "length b \<le> 1000"
    and "list_all (\<lambda>e. length (ke_name e) \<le> 100 \<and> length (ke_value e) \<le> 100) (collect_entries vs r)"
    and "length (collect_entries vs r) \<le> 100"
  shows "\<exists>frame. encode_record vs r = Inr frame"
  using assms
  by (intro encode_record_total)
     (auto simp: sif_maxima rec_wf_def entry_fits_def list_all_iff simp del: length_concat)

section \<open>Properties\<close>

text \<open>C3: A frame decodes to the record it was encoded from: for every well-formed record whose
  field names the decoder accepts, whatever vendor map the decoding process has, \<open>decode\<close> of
  the encoded frame succeeds and restores every fixed field, the content hash, the kind and
  bytes of the message and exactly the dynamic fields, the id field being added when the
  record had none.\<close>

theorem sif_roundtrip:
  assumes "rec_wf r" and "encode_record vs r = Inr frame"
    and "\<forall>s \<in> set (rec_slots r). kv_is_empty s \<or>
      kv_type_from_u8 (kv_ty s) \<noteq> None \<and> validate_name (field_name_for_tag vs (kv_tag s)) = Inr ()"
    and "rs_kind (rec_message r) \<noteq> Binary \<longrightarrow> utf8_valid (rs_as_bytes (rec_message r))"
  shows "\<exists>r' vs''. decode_record sha vs' frame = (Inr r', vs'') \<and>
    fst (rec_fixed r') = fst (rec_fixed r) \<and> rec_content_hash r' = rec_content_hash r \<and>
    rs_kind (rec_message r') = rs_kind (rec_message r) \<and>
    rs_as_bytes (rec_message r') = rs_as_bytes (rec_message r) \<and>
    rec_map r' = id_map (rec_id_hi r) (rec_id_lo r) ++ rec_map r"
proof -
  let ?es = "collect_entries vs r" and ?o = decode_options_default
  obtain pre header where f: "frame = pre @ concat (map entry_bytes ?es)" "length frame < 2 ^ 63"
    and h: "validate_frame_with frame ?o = Inr header" "fh_field_count header = length ?es"
    and d: "decode_fixed frame header = Inr (restored_base r, length pre)"
    using frame_prefix_decodes [OF assms(1,2,4), of ?o]
    by (auto simp: decode_options_default_def)
  note b = restored_base_props [OF assms(1)]
  have valid: "\<forall>e \<in> set ?es. entry_valid e"
  proof
    fix e
    assume e: "e \<in> set ?es"
    then obtain s where s: "s \<in> set (rec_slots r)" "\<not> kv_is_empty s"
      "e = entry_of vs (kv_tag s, kv_ty s, kv_value_slice s)"
      by (auto simp: collect_entries_eq List.map_filter_def kv_get_def split: if_splits)
    with assms(3) e encode_record_Inr(3) [OF assms(2)] show "entry_valid e"
      by (auto simp: entry_valid_def entry_of_def kv_is_empty_def kv_consts)
  qed
  have dist: "distinct (map ke_tag ?es @ [])"
    using assms(1) entries_distinct by (simp add: rec_wf_def)
  have bound: "length pre + length (concat (map entry_bytes ?es)) < 2 ^ 63"
    using f by simp
  obtain r' vs'' where r': "decode_fields frame (length ?es) (length pre) [] vs' (restored_base r) =
      (Inr (length frame, r'), vs'')"
    "rec_map r' = rec_map (restored_base r) ++ entries_map ?es" "rec_fixed r' = rec_fixed (restored_base r)"
    using decode_fields_written [OF valid dist bound b(2), of "[]" vs'] f(1) by auto
  have "decode_record sha vs' frame = (Inr r', vs'')"
    using h d r'(1) by (simp add: decode_record_def decode_record_with_def decode_options_default_def)
  with b r'(2,3) show ?thesis
    by (auto simp: entries_map_record rec_fixed_def)
qed

theorem sif_roundtrip_witness:
  "\<exists>frame r' vs''. encode_record vendor_init (set_trace_id (rec_set_id (rec_new 7) 1 2) [65]) = Inr frame \<and>
    decode_record (\<lambda>_. []) vendor_init frame = (Inr r', vs'') \<and>
    rec_map r' = rec_map (set_trace_id (rec_set_id (rec_new 7) 1 2) [65])"
proof -
  let ?r = "set_trace_id (rec_set_id (rec_new 7) 1 2) [65]"
  have wf: "rec_wf ?r"
    by (simp add: set_trace_id_def rec_set_id_def rec_wf_puts fits_usize_def)
  have v: "list_all (\<lambda>s. kv_is_empty s \<or>
      kv_type_from_u8 (kv_ty s) \<noteq> None \<and> is_ok (validate_name (field_name_for_tag vendor_init (kv_tag s))))
      (rec_slots ?r)" "rec_message ?r = rs_empty"
    by code_simp+
  have "length (concat (map entry_bytes (collect_entries vendor_init ?r))) \<le> 1000"
    "list_all (\<lambda>e. length (ke_name e) \<le> 100 \<and> length (ke_value e) \<le> 100) (collect_entries vendor_init ?r)"
    "length (collect_entries vendor_init ?r) \<le> 100"
    by code_simp+
  then obtain frame where e: "encode_record vendor_init ?r = Inr frame"
    using small_record_encodes [OF wf v(2) refl] by blast
  have ok: "is_ok x \<longleftrightarrow> x = Inr ()" for x :: "sif_error + unit"
    by (cases x) auto
  have m: "rec_map ?r 1 = Some (6, le64 (rec_id_hi ?r) @ le64 (rec_id_lo ?r))"
    by code_simp
  have eq: "id_map (rec_id_hi ?r) (rec_id_lo ?r) ++ rec_map ?r = rec_map ?r"
    by (rule ext) (simp add: id_map_def map_add_def m split: option.split)
  have slots: "\<forall>s \<in> set (rec_slots ?r). kv_is_empty s \<or>
      kv_type_from_u8 (kv_ty s) \<noteq> None \<and> validate_name (field_name_for_tag vendor_init (kv_tag s)) = Inr ()"
    using v(1) unfolding list_all_iff ok .
  have utf: "rs_kind (rec_message ?r) \<noteq> Binary \<longrightarrow> utf8_valid (rs_as_bytes (rec_message ?r))"
    unfolding v(2) by simp
  show ?thesis
    using sif_roundtrip [OF wf e slots utf, of "\<lambda>_. []" vendor_init] e unfolding eq by blast
qed

text \<open>C4: Untrusted frames are contained: whatever bytes are decoded under whatever limits, a
  successful decode had a frame within the size limit and yields a well-formed record with
  at most the allowed number of fields; with verification on, a non-zero content hash equals
  the hash of the restored record; and, successful or not, decoding never moves a vendor name
  to another tag nor maps one to a core tag.\<close>

theorem sif_decode_safety:
  assumes "decode_record_with sha vs frame options = (res, vs')"
  shows "(\<forall>r. res = Inr r \<longrightarrow>
      length frame \<le> do_max_frame_size options \<and> rec_wf r \<and>
      length (rec_slots r) \<le> do_max_field_count options + 2 \<and>
      (do_verify_content_hash options \<and> rec_content_hash r \<noteq> replicate 32 0 \<longrightarrow>
         compute_content_hash_from sha r = rec_content_hash r)) \<and>
    (vendor_core_free vs \<longrightarrow> vendor_core_free vs') \<and>
    (\<forall>n t. map_of (vendor_tags vs) n = Some t \<longrightarrow> map_of (vendor_tags vs') n = Some t)"
proof (cases "r_bind (validate_frame_with frame options)
    (\<lambda>header. r_bind (decode_fixed frame header) (\<lambda>x. Inr (header, x)))")
  case (Inl e)
  with assms have "res = Inl e" "vs' = vs" by (auto simp: decode_record_with_def)
  then show ?thesis by simp
next
  case (Inr p)
  obtain header r0 me where p: "p = (header, r0, me)" by (cases p)
  from Inr p have v: "validate_frame_with frame options = Inr header"
    and d: "decode_fixed frame header = Inr (r0, me)"
    by (auto simp: res_simps)
  obtain fr vs1 where f: "decode_fields frame (fh_field_count header) me [] vs r0 = (fr, vs1)"
    by fastforce
  have "vs' = vs1"
    using assms Inr p f by (auto simp: decode_record_with_def split: sum.splits prod.splits if_splits)
  then have vendor: "(vendor_core_free vs \<longrightarrow> vendor_core_free vs') \<and>
      (\<forall>n t. map_of (vendor_tags vs) n = Some t \<longrightarrow> map_of (vendor_tags vs') n = Some t)"
    using decode_fields_vendor [OF f] by simp
  have bounds: "length frame \<le> do_max_frame_size options" "fh_field_count header \<le> do_max_field_count options"
    using v by (auto simp: validate_frame_with_def res_simps not_less)
  have "length frame \<le> do_max_frame_size options \<and> rec_wf r \<and>
      length (rec_slots r) \<le> do_max_field_count options + 2 \<and>
      (do_verify_content_hash options \<and> rec_content_hash r \<noteq> replicate 32 0 \<longrightarrow>
         compute_content_hash_from sha r = rec_content_hash r)" if res: "res = Inr r" for r
  proof -
    obtain c where fr: "fr = Inr (c, r)"
      and check: "\<not> (do_verify_content_hash options \<and> rec_content_hash r0 \<noteq> replicate 32 0 \<and>
        compute_content_hash_from sha r \<noteq> rec_content_hash r0)"
      using assms Inr p f res
      by (auto simp: decode_record_with_def split: sum.splits prod.splits if_splits)
    have r0: "rec_wf r0" "length (rec_slots r0) = 2" using decode_fixed_ok [OF d] by simp_all
    then have ok: "slots_wf (rec_slots r)" "rec_fixed r = rec_fixed r0"
      "length (rec_slots r) \<le> fh_field_count header + length (rec_slots r0)"
      using decode_fields_ok [OF f [unfolded fr]] by (auto simp: rec_wf_def)
    have "rec_wf r" by (rule rec_wf_fixed [OF ok(2) r0(1) ok(1)])
    moreover have "rec_content_hash r = rec_content_hash r0" using ok(2) by (simp add: rec_fixed_def)
    ultimately show ?thesis using check bounds ok(3) r0(2) by auto
  qed
  with vendor show ?thesis by blast
qed

theorem sif_decode_safety_witness:
  "vendor_core_free (snd (decode_record_with (\<lambda>_. []) vendor_init (replicate 200 0) decode_options_untrusted))"
  using sif_decode_safety [of "\<lambda>_. []" vendor_init "replicate 200 0" decode_options_untrusted] vendor_inv_init(2)
  by (metis prod.collapse)

text \<open>Records with labels or an environment do not survive: the encoder writes the core
  names \<open>labels\<close> and \<open>environment\<close> as they are, but the decoder refuses every name without a
  dot, so a frame of any well-formed record that carries one of the two fields is written
  without an error and never decodes.\<close>

theorem sif_undotted_names_rejected:
  assumes "rec_wf r" and "encode_record vs r = Inr frame"
    and "rec_map r KV_TAG_LABELS \<noteq> None \<or> rec_map r KV_TAG_ENVIRONMENT \<noteq> None"
    and "rs_kind (rec_message r) \<noteq> Binary \<longrightarrow> utf8_valid (rs_as_bytes (rec_message r))"
  shows "\<not> is_ok (fst (decode_record sha vs' frame))"
proof -
  let ?es = "collect_entries vs r" and ?o = decode_options_default
  obtain pre header where f: "frame = pre @ concat (map entry_bytes ?es)" "length frame < 2 ^ 63"
    and h: "validate_frame_with frame ?o = Inr header" "fh_field_count header = length ?es"
    and d: "decode_fixed frame header = Inr (restored_base r, length pre)"
    using frame_prefix_decodes [OF assms(1,2,4), of ?o]
    by (auto simp: decode_options_default_def)
  have entry: "\<exists>e \<in> set ?es. ke_name e = field_name_for_tag vs t" if some: "rec_map r t \<noteq> None" for t
  proof -
    from some have "t \<in> ke_tag ` set ?es"
      by (auto simp: entries_map_record [of vs, symmetric] entries_map_def dest!: map_of_SomeD)
    then show ?thesis
      by (force simp: collect_entries_eq entry_of_def)
  qed
  have "\<exists>e \<in> set ?es. validate_name (ke_name e) \<noteq> Inr ()"
    using assms(3) entry [of KV_TAG_LABELS] entry [of KV_TAG_ENVIRONMENT]
      name_of_core_tag [OF core_names_known(2), of vs] name_of_core_tag [OF core_names_known(3), of vs]
      core_names_known(4,5)
    by force
  moreover have "length pre + length (concat (map entry_bytes ?es)) < 2 ^ 63" using f by simp
  ultimately have bad: "\<not> is_ok (fst (decode_fields frame (length ?es) (length pre) [] vs' (restored_base r)))"
    using decode_fields_bad_name [OF encode_record_Inr(3) [OF assms(2)], of pre "[]" "[]" vs'] f(1) by simp
  obtain fr vs1 where "decode_fields frame (length ?es) (length pre) [] vs' (restored_base r) = (fr, vs1)"
    by fastforce
  with bad h d show ?thesis
    by (cases fr) (auto simp: decode_record_def decode_record_with_def)
qed

theorem sif_undotted_names_rejected_witness:
  "\<exists>frame. encode_record vendor_init (set_labels (rec_set_id (rec_new 0) 1 2) [123, 125]) = Inr frame \<and>
     \<not> is_ok (fst (decode_record (\<lambda>_. []) vendor_init frame))"
proof -
  let ?r = "set_labels (rec_set_id (rec_new 0) 1 2) [123, 125]"
  have wf: "rec_wf ?r"
    by (simp add: set_labels_def rec_set_id_def rec_wf_puts fits_usize_def)
  have empty: "rec_message ?r = rs_empty" by code_simp
  have "length (concat (map entry_bytes (collect_entries vendor_init ?r))) \<le> 1000"
    "list_all (\<lambda>e. length (ke_name e) \<le> 100 \<and> length (ke_value e) \<le> 100) (collect_entries vendor_init ?r)"
    "length (collect_entries vendor_init ?r) \<le> 100"
    by code_simp+
  then obtain frame where e: "encode_record vendor_init ?r = Inr frame"
    using small_record_encodes [OF wf empty refl] by blast
  have "rec_map ?r KV_TAG_LABELS \<noteq> None" by code_simp
  moreover have "utf8_valid (rs_as_bytes (rec_message ?r))" unfolding empty by simp
  ultimately show ?thesis
    using e sif_undotted_names_rejected [OF wf e, of "\<lambda>_. []" vendor_init] by blast
qed

end
