(* ===== verification/Verify_Log.thy ===== *)
theory Verify_Log
  imports Signature Sidecar Sif_Correct
begin

text \<open>
  Offline verification of an audit log (cli/src/commands/verify.rs): reading framed records,
  the checks of \<open>dologctl verify-log\<close> in its text and JSON variants and the analysis of
  \<open>recovery-report\<close>. Files are byte strings, unreadable ones \<open>None\<close>; the counters are naturals; what
  is printed is reduced to the counts and the exit status. Parsing a public key is a parameter.
\<close>

section \<open>Records\<close>

record sif_record =
  sr_id_hi :: u64
  sr_id_lo :: u64
  sr_lsn :: u64
  sr_timestamp_hi :: u64
  sr_timestamp_lo :: u64
  sr_level :: u8
  sr_thread_id :: u64
  sr_process_id :: u32
  sr_message :: bytes
  sr_source_file :: bytes
  sr_host_name :: bytes
  sr_source_line :: u32
  sr_source_column :: u32
  sr_content_hash :: bytes
  sr_in_chain :: bool
  sr_content_ok :: bool
  sr_file_offset :: nat

definition sif_record_of :: "(bytes \<Rightarrow> bytes) \<Rightarrow> log_record \<Rightarrow> sif_record" where
  "sif_record_of sha r =
     (let stored_hash = rec_content_hash r;
          in_chain = (stored_hash \<noteq> replicate 32 0) in
      \<lparr>sr_id_hi = rec_id_hi r, sr_id_lo = rec_id_lo r, sr_lsn = rec_lsn r,
       sr_timestamp_hi = rec_timestamp r div 1000000000,
       sr_timestamp_lo = rec_timestamp r mod 1000000000, sr_level = level_as_u8 (rec_level r),
       sr_thread_id = ucast (rec_thread_id r), sr_process_id = rec_process_id r,
       sr_message = rs_display_lossy (rec_message r), sr_source_file = rec_source_file r,
       sr_host_name = rec_host_name r, sr_source_line = rec_source_line r,
       sr_source_column = rec_source_column r, sr_content_hash = stored_hash,
       sr_in_chain = in_chain,
       sr_content_ok = (in_chain \<and> compute_content_hash_from sha r = stored_hash),
       sr_file_offset = 0\<rparr>)"

definition parse_sif ::
  "(bytes \<Rightarrow> bytes) \<Rightarrow> vendor_state \<Rightarrow> bytes \<Rightarrow> sif_record option \<times> vendor_state" where
  "parse_sif sha vs d =
     (case decode_record_with sha vs d decode_options_untrusted of
        (Inl _, vs') \<Rightarrow> (None, vs')
      | (Inr r, vs') \<Rightarrow> (Some (sif_record_of sha r), vs'))"

text \<open>A frame longer than the limit is an error at its offset; a truncated one ends the loop.\<close>

function read_frames ::
  "(bytes \<Rightarrow> bytes) \<Rightarrow> vendor_state \<Rightarrow> bytes \<Rightarrow> nat \<Rightarrow> sif_record list \<Rightarrow>
     (nat + sif_record list) \<times> vendor_state" where
  "read_frames sha vs d offset records =
     (if offset + 4 \<le> length d then
        let frame_len = unat (u32_of (take 4 (drop offset d))) in
        if frame_len = 0 then read_frames sha vs d (offset + 4) records
        else if MAX_FRAME_SIZE < frame_len then (Inl offset, vs)
        else
          let payload_start = offset + 4; payload_end = payload_start + frame_len in
          if length d < payload_end then (Inr records, vs)
          else
            (case parse_sif sha vs (take frame_len (drop payload_start d)) of
               (Some rec, vs') \<Rightarrow>
                 read_frames sha vs' d payload_end (records @ [rec\<lparr>sr_file_offset := offset\<rparr>])
             | (None, vs') \<Rightarrow> read_frames sha vs' d payload_end records)
      else (Inr records, vs))"
  by pat_completeness auto
termination
  by (relation "measure (\<lambda>(sha, vs, d, offset, records). length d + 4 - offset)") auto

declare read_frames.simps [simp del]

definition read_sif_file ::
  "(bytes \<Rightarrow> bytes) \<Rightarrow> vendor_state \<Rightarrow> bytes \<Rightarrow> (nat + sif_record list) \<times> vendor_state" where
  "read_sif_file sha vs d = read_frames sha vs d 0 []"

section \<open>Chain checks\<close>

definition sr_signing_payload :: "(bytes \<Rightarrow> bytes) \<Rightarrow> sif_record \<Rightarrow> bytes \<Rightarrow> bytes" where
  "sr_signing_payload sha r prev_hash = sha (le64 (sr_lsn r) @ sr_content_hash r @ prev_hash)"

definition genesis_prev_hash :: "(bytes \<Rightarrow> bytes) \<Rightarrow> bytes" where
  "genesis_prev_hash sha = derive_prev_hash sha (replicate 32 0) 0"

definition verify_signature ::
  "(bytes \<Rightarrow> bytes) \<Rightarrow> ('sk, 'vk) ed25519 \<Rightarrow> sif_record \<Rightarrow> bytes \<Rightarrow> bytes \<Rightarrow> 'vk \<Rightarrow> bool" where
  "verify_signature sha ed r prev_hash sig vk =
     ed_verify ed vk (sr_signing_payload sha r prev_hash) sig"

definition sr_chain_link :: "sif_record \<Rightarrow> sif_record \<Rightarrow> bool" where
  "sr_chain_link prev next \<longleftrightarrow> \<not> sr_lsn next \<le> sr_lsn prev"

text \<open>The loop over neighbours of the sorted records: broken links and gaps.\<close>

fun broken_links :: "sif_record list \<Rightarrow> nat" where
  "broken_links (a # b # rest) = (if sr_chain_link a b then 0 else 1) + broken_links (b # rest)"
| "broken_links _ = 0"

fun valid_links :: "sif_record list \<Rightarrow> nat" where
  "valid_links (a # b # rest) = (if sr_chain_link a b then 1 else 0) + valid_links (b # rest)"
| "valid_links _ = 0"

fun lsn_gaps :: "sif_record list \<Rightarrow> (u64 \<times> u64) list" where
  "lsn_gaps (a # b # rest) =
     (let expected = sat_add64 (sr_lsn a) 1 in
      (if expected < sr_lsn b then [(expected, sat_sub64 (sr_lsn b) 1)] else []) @
      lsn_gaps (b # rest))"
| "lsn_gaps _ = []"

datatype sig_outcome = SigValid | SigTampered | SigMissing

definition check_entry ::
  "(bytes \<Rightarrow> bytes) \<Rightarrow> ('sk, 'vk) ed25519 \<Rightarrow> 'vk option \<Rightarrow> (u64 \<times> sidecar_entry) list \<Rightarrow> bytes \<Rightarrow>
     sif_record \<Rightarrow> sig_outcome" where
  "check_entry sha ed key m prev_hash r =
     (case map_of m (sr_lsn r) of
        None \<Rightarrow> SigMissing
      | Some e \<Rightarrow>
          (if \<not> sr_content_ok r then SigTampered
           else if sc_content_hash e \<noteq> sr_content_hash r then SigTampered
           else case key of
                  Some vk \<Rightarrow>
                    (if verify_signature sha ed r prev_hash (sc_signature e) vk then SigValid
                     else SigTampered)
                | None \<Rightarrow> SigValid))"

fun check_signatures ::
  "(bytes \<Rightarrow> bytes) \<Rightarrow> ('sk, 'vk) ed25519 \<Rightarrow> 'vk option \<Rightarrow> (u64 \<times> sidecar_entry) list \<Rightarrow>
     (bytes \<times> u64) option \<Rightarrow> sif_record list \<Rightarrow> sig_outcome list" where
  "check_signatures sha ed key m prev_chain [] = []"
| "check_signatures sha ed key m prev_chain (r # rs) =
     (if \<not> sr_in_chain r then check_signatures sha ed key m prev_chain rs
      else
        let prev_hash = (case prev_chain of
              Some (ch, lsn) \<Rightarrow> derive_prev_hash sha ch lsn
            | None \<Rightarrow> genesis_prev_hash sha)
        in check_entry sha ed key m prev_hash r #
           check_signatures sha ed key m (Some (sr_content_hash r, sr_lsn r)) rs)"

definition count_outcome :: "sig_outcome \<Rightarrow> sig_outcome list \<Rightarrow> nat" where
  "count_outcome v xs = length (filter (\<lambda>x. x = v) xs)"

definition orphan_entries :: "(u64 \<times> sidecar_entry) list \<Rightarrow> sif_record list \<Rightarrow> nat" where
  "orphan_entries m rs =
     length (filter (\<lambda>lsn. \<not> list_ex (\<lambda>r. sr_lsn r = lsn) rs) (map fst m))"

record verify_report =
  vr_total :: nat
  vr_valid_chain :: nat
  vr_broken_chain :: nat
  vr_lsn_gaps :: "(u64 \<times> u64) list"
  vr_valid_sig :: nat
  vr_tampered_sig :: nat
  vr_missing_sig :: nat
  vr_orphans :: nat

definition verify_records ::
  "(bytes \<Rightarrow> bytes) \<Rightarrow> ('sk, 'vk) ed25519 \<Rightarrow> 'vk option \<Rightarrow> (u64 \<times> sidecar_entry) list option \<Rightarrow>
     sif_record list \<Rightarrow> verify_report" where
  "verify_records sha ed key sidecar records =
     (let sorted = sort_key sr_lsn records;
          outcomes = (case sidecar of
             Some m \<Rightarrow> check_signatures sha ed key m None sorted
           | None \<Rightarrow> []);
          orphans = (case sidecar of Some m \<Rightarrow> orphan_entries m sorted | None \<Rightarrow> 0)
      in \<lparr>vr_total = length sorted, vr_valid_chain = valid_links sorted,
          vr_broken_chain = broken_links sorted, vr_lsn_gaps = lsn_gaps sorted,
          vr_valid_sig = count_outcome SigValid outcomes,
          vr_tampered_sig = count_outcome SigTampered outcomes,
          vr_missing_sig = count_outcome SigMissing outcomes, vr_orphans = orphans\<rparr>)"

definition report_passed :: "verify_report \<Rightarrow> bool" where
  "report_passed v \<longleftrightarrow>
     vr_broken_chain v = 0 \<and> vr_tampered_sig v = 0 \<and> vr_lsn_gaps v = [] \<and> vr_missing_sig v = 0 \<and>
     vr_orphans v = 0"

section \<open>The commands\<close>

definition parse_pubkey :: "(bytes \<Rightarrow> 'vk option) \<Rightarrow> bytes option \<Rightarrow> 'vk option" where
  "parse_pubkey vk_from_bytes pubkey_hex =
     Option.bind pubkey_hex (\<lambda>h. Option.bind (hex_array 32 (Some (trim h))) vk_from_bytes)"

text \<open>\<open>Some None\<close> is a sidecar that was asked for and cannot be read. The result is the exit
  status: whether the command succeeds.\<close>

definition read_sidecar_arg ::
  "bytes option option \<Rightarrow> unit + (u64 \<times> sidecar_entry) list option" where
  "read_sidecar_arg sidecar =
     (case sidecar of
        None \<Rightarrow> Inr None
      | Some None \<Rightarrow> Inl ()
      | Some (Some content) \<Rightarrow>
          (case read_sidecar content of Inl _ \<Rightarrow> Inl () | Inr m \<Rightarrow> Inr (Some m)))"

definition cmd_verify_log ::
  "(bytes \<Rightarrow> bytes) \<Rightarrow> ('sk, 'vk) ed25519 \<Rightarrow> (bytes \<Rightarrow> 'vk option) \<Rightarrow> vendor_state \<Rightarrow> bytes option \<Rightarrow>
     bytes option \<Rightarrow> bytes option option \<Rightarrow> bool" where
  "cmd_verify_log sha ed vk_from_bytes vs file pubkey_hex sidecar =
     (let key = parse_pubkey vk_from_bytes pubkey_hex in
      case read_sidecar_arg sidecar of
        Inl _ \<Rightarrow> False
      | Inr m \<Rightarrow>
          (case file of
             None \<Rightarrow> False
           | Some d \<Rightarrow>
               (case fst (read_sif_file sha vs d) of
                  Inl _ \<Rightarrow> False
                | Inr records \<Rightarrow>
                    records = [] \<or> report_passed (verify_records sha ed key m records))))"

definition cmd_verify_log_json ::
  "(bytes \<Rightarrow> bytes) \<Rightarrow> ('sk, 'vk) ed25519 \<Rightarrow> (bytes \<Rightarrow> 'vk option) \<Rightarrow> vendor_state \<Rightarrow> bytes option \<Rightarrow>
     bytes option \<Rightarrow> bytes option option \<Rightarrow> bool" where
  "cmd_verify_log_json sha ed vk_from_bytes vs file pubkey_hex sidecar =
     (let key = parse_pubkey vk_from_bytes pubkey_hex in
      case read_sidecar_arg sidecar of
        Inl _ \<Rightarrow> False
      | Inr m \<Rightarrow>
          (case file of
             None \<Rightarrow> False
           | Some d \<Rightarrow>
               (case fst (read_sif_file sha vs d) of
                  Inl _ \<Rightarrow> False
                | Inr records \<Rightarrow> report_passed (verify_records sha ed key m records))))"

section \<open>Recovery report\<close>

fun continuous_last :: "u64 \<Rightarrow> sif_record list \<Rightarrow> u64" where
  "continuous_last c (a # b # rest) =
     (if sr_lsn b = sat_add64 (sr_lsn a) 1 \<and> sr_chain_link a b
      then continuous_last (sr_lsn b) (b # rest) else c)"
| "continuous_last c _ = c"

record recovery_report =
  rr_worm_files :: nat
  rr_total :: nat
  rr_first_lsn :: u64
  rr_last_lsn :: u64
  rr_gaps :: nat
  rr_missing :: u64
  rr_broken :: nat
  rr_healthy :: bool
  rr_continuous_last :: u64
  rr_resume :: u64

text \<open>The readable files in the order of their names, each contributing the records it has.\<close>

fun collect_worm ::
  "(bytes \<Rightarrow> bytes) \<Rightarrow> vendor_state \<Rightarrow> bytes list \<Rightarrow> sif_record list \<Rightarrow> sif_record list" where
  "collect_worm sha vs [] records = records"
| "collect_worm sha vs (f # fs) records =
     (case read_sif_file sha vs f of
        (Inr rs, vs') \<Rightarrow> collect_worm sha vs' fs (records @ rs)
      | (Inl _, vs') \<Rightarrow> collect_worm sha vs' fs records)"

definition recovery_analysis :: "nat \<Rightarrow> sif_record list \<Rightarrow> recovery_report" where
  "recovery_analysis files records =
     (let rs = sort_key sr_lsn records;
          first = (case rs of [] \<Rightarrow> 0 | r # _ \<Rightarrow> sr_lsn r);
          last_lsn = (if rs = [] then 0 else sr_lsn (last rs));
          gaps = lsn_gaps rs;
          broken = broken_links rs;
          cont = continuous_last first rs
      in \<lparr>rr_worm_files = files, rr_total = length rs, rr_first_lsn = first,
          rr_last_lsn = last_lsn, rr_gaps = length gaps,
          rr_missing = sum_list (map (\<lambda>(f, t). t - f + 1) gaps), rr_broken = broken,
          rr_healthy = (gaps = [] \<and> broken = 0), rr_continuous_last = cont,
          rr_resume = sat_add64 cont 1\<rparr>)"

definition cmd_recovery_report ::
  "(bytes \<Rightarrow> bytes) \<Rightarrow> vendor_state \<Rightarrow> bytes list \<Rightarrow> recovery_report" where
  "cmd_recovery_report sha vs files =
     recovery_analysis (length files) (collect_worm sha vs files [])"

section \<open>Lemmas\<close>

lemma sif_record_of_fields [simp]:
  "sr_lsn (sif_record_of sha r) = rec_lsn r"
  "sr_content_hash (sif_record_of sha r) = rec_content_hash r"
  "sr_in_chain (sif_record_of sha r) \<longleftrightarrow> rec_content_hash r \<noteq> GENESIS_HASH"
  "sr_content_ok (sif_record_of sha r) \<longleftrightarrow>
     rec_content_hash r \<noteq> GENESIS_HASH \<and> sha (rec_hash_input r) = rec_content_hash r"
  by (simp_all add: sif_record_of_def Let_def GENESIS_HASH_def compute_content_hash_from_def)

text \<open>A frame is decoded with its hash checked, so a record that was read always matches it.\<close>

lemma decode_checked:
  assumes "decode_record_with sha vs frame options = (Inr r, vs')" and "do_verify_content_hash options"
  shows "rec_content_hash r = GENESIS_HASH \<or> sha (rec_hash_input r) = rec_content_hash r"
proof -
  obtain header r0 me c where
    d: "decode_fixed frame header = Inr (r0, me)"
    and f: "decode_fields frame (fh_field_count header) me [] vs r0 = (Inr (c, r), vs')"
    and check: "\<not> (rec_content_hash r0 \<noteq> replicate 32 0 \<and>
      compute_content_hash_from sha r \<noteq> rec_content_hash r0)"
    using assms by (auto simp: decode_record_with_def res_simps split: sum.splits prod.splits if_splits)
  have "rec_wf r0" using decode_fixed_ok [OF d] by simp
  then have "rec_fixed r = rec_fixed r0" using decode_fields_ok [OF f] by (simp add: rec_wf_def)
  then have "rec_content_hash r = rec_content_hash r0" by (simp add: rec_fixed_def)
  with check show ?thesis by (auto simp: GENESIS_HASH_def compute_content_hash_from_def)
qed

text \<open>Every record a file yields is a decoded one, whose hash the decoder has checked.\<close>

lemma parse_sif_checked:
  assumes "parse_sif sha vs x = (Some r, vs')"
  shows "sr_content_ok r = sr_in_chain r"
  using assms decode_checked [of sha vs x decode_options_untrusted _ vs']
  by (auto simp: parse_sif_def decode_options_untrusted_def split: sum.splits prod.splits)

lemma read_frames_checked:
  "\<forall>r \<in> set records. sr_content_ok r = sr_in_chain r \<Longrightarrow>
   fst (read_frames sha vs d offset records) = Inr out \<Longrightarrow>
   \<forall>r \<in> set out. sr_content_ok r = sr_in_chain r"
proof (induction sha vs d offset records rule: read_frames.induct)
  case (1 sha vs d offset records)
  define n where "n = unat (u32_of (take 4 (drop offset d)))"
  obtain x vs1 where p: "parse_sif sha vs (take n (drop (offset + 4) d)) = (x, vs1)" by fastforce
  have x: "\<forall>r. x = Some r \<longrightarrow> sr_content_ok r = sr_in_chain r"
    using parse_sif_checked p by fastforce
  let ?R = "\<lambda>y. fst y = Inr out \<longrightarrow> (\<forall>r \<in> set out. sr_content_ok r = sr_in_chain r)"
  have eq: "read_frames sha vs d offset records =
    (if offset + 4 \<le> length d then
        if n = 0 then read_frames sha vs d (offset + 4) records
        else if MAX_FRAME_SIZE < n then (Inl offset, vs)
        else if length d < offset + 4 + n then (Inr records, vs)
        else (case x of
               Some rec \<Rightarrow> read_frames sha vs1 d (offset + 4 + n) (records @ [rec\<lparr>sr_file_offset := offset\<rparr>])
             | None \<Rightarrow> read_frames sha vs1 d (offset + 4 + n) records)
      else (Inr records, vs))"
    by (subst read_frames.simps, fold n_def) (simp only: Let_def p prod.case)
  have "?R (read_frames sha vs d (offset + 4) records)" if "offset + 4 \<le> length d" "n = 0"
    using "1.IH"(1) [OF that(1) n_def that(2)] "1.prems"(1) by blast
  moreover have "?R (read_frames sha vs1 d (offset + 4 + n) records)"
    if "offset + 4 \<le> length d" "n \<noteq> 0" "\<not> MAX_FRAME_SIZE < n" "\<not> length d < offset + 4 + n" "x = None"
    using "1.IH"(2) [OF that(1) n_def that(2,3) refl refl that(4) p [symmetric] that(5)] "1.prems"(1) by blast
  moreover have "?R (read_frames sha vs1 d (offset + 4 + n) (records @ [rec\<lparr>sr_file_offset := offset\<rparr>]))"
    if "offset + 4 \<le> length d" "n \<noteq> 0" "\<not> MAX_FRAME_SIZE < n" "\<not> length d < offset + 4 + n" "x = Some rec" for rec
    using "1.IH"(3) [OF that(1) n_def that(2,3) refl refl that(4) p [symmetric] that(5)] "1.prems"(1) x [rule_format, OF that(5)] by auto
  moreover have "?R (Inr records, vs)" "?R (Inl offset, vs)" using "1.prems"(1) by simp_all
  ultimately have "?R (read_frames sha vs d offset records)"
    by (cases x) (simp only: eq option.case split: if_split; blast)+
  then show ?case using "1.prems"(2) by blast
qed
text \<open>The (LSN, hash) entry of a record, and the chain of a list of records.\<close>

definition chain_entry :: "log_record \<Rightarrow> u64 \<times> bytes" where
  "chain_entry r = (rec_lsn r, rec_content_hash r)"

definition in_chain :: "log_record list \<Rightarrow> log_record list" where
  "in_chain rs = filter (\<lambda>r. rec_content_hash r \<noteq> GENESIS_HASH) rs"

fun prev_of :: "(bytes \<times> u64) option \<Rightarrow> bytes \<times> u64" where
  "prev_of None = (GENESIS_HASH, 0)"
| "prev_of (Some p) = p"

lemma check_signatures_valid:
  assumes "\<forall>x \<in> set (check_signatures sha ed (Some vk) m prev (map (sif_record_of sha) rs)). x = SigValid"
  shows "(\<forall>d \<in> set (chain_digests sha (fst (prev_of prev)) (snd (prev_of prev))
            (map chain_entry (in_chain rs))). \<exists>s. ed_verify ed vk d s) \<and>
    (\<forall>r \<in> set (in_chain rs). sha (rec_hash_input r) = rec_content_hash r \<and>
       map_of m (rec_lsn r) \<noteq> None)"
  using assms
proof (induction rs arbitrary: prev)
  case Nil
  then show ?case by (simp add: in_chain_def)
next
  case (Cons r rs)
  show ?case
  proof (cases "rec_content_hash r = GENESIS_HASH")
    case True
    with Cons.IH [of prev] Cons.prems show ?thesis by (simp add: in_chain_def)
  next
    case False
    define p where "p = (case prev of Some (ch, lsn) \<Rightarrow> derive_prev_hash sha ch lsn
      | None \<Rightarrow> genesis_prev_hash sha)"
    have p: "p = derive_prev_hash sha (fst (prev_of prev)) (snd (prev_of prev))"
      by (cases prev) (auto simp: p_def genesis_prev_hash_def GENESIS_HASH_def)
    from Cons.prems False have v: "check_entry sha ed (Some vk) m p (sif_record_of sha r) = SigValid"
      and rest: "\<forall>x \<in> set (check_signatures sha ed (Some vk) m
        (Some (rec_content_hash r, rec_lsn r)) (map (sif_record_of sha) rs)). x = SigValid"
      by (auto simp: p_def Let_def)
    from v have "map_of m (rec_lsn r) \<noteq> None" "sha (rec_hash_input r) = rec_content_hash r"
      "\<exists>s. ed_verify ed vk (signing_payload sha (rec_lsn r) (rec_content_hash r) p) s"
      by (auto simp: check_entry_def verify_signature_def sr_signing_payload_def signing_payload_def
          split: option.splits if_splits)
    with Cons.IH [OF rest] False show ?thesis
      by (simp add: in_chain_def chain_entry_def p)
  qed
qed

lemma count_zero: "count_outcome v xs = 0 \<longleftrightarrow> v \<notin> set xs"
  by (auto simp: count_outcome_def filter_empty_conv)

lemma sort_records:
  "sort_key sr_lsn (map (sif_record_of sha) rs) = map (sif_record_of sha) (sort_key rec_lsn rs)"
proof -
  have "insort_key sr_lsn (sif_record_of sha r) (map (sif_record_of sha) ss) =
      map (sif_record_of sha) (insort_key rec_lsn r ss)" for r ss
    by (induction ss) auto
  then show ?thesis by (induction rs) simp_all
qed

lemma all_valid: "SigTampered \<notin> set xs \<Longrightarrow> SigMissing \<notin> set xs \<Longrightarrow> x \<in> set xs \<Longrightarrow> x = SigValid"
  by (cases x) auto

section \<open>Completeness\<close>

text \<open>
  The other direction: a log whose LSNs are consecutive, whose hashed records carry their own
  hash and whose sidecar holds, for each of them, a signature over its link to the hashed
  record before it.
\<close>

fun chain_signed ::
  "(bytes \<Rightarrow> bytes) \<Rightarrow> ('sk, 'vk) ed25519 \<Rightarrow> 'vk \<Rightarrow> (u64 \<times> sidecar_entry) list \<Rightarrow> bytes \<Rightarrow> u64 \<Rightarrow>
     log_record list \<Rightarrow> bool" where
  "chain_signed sha ed vk m h l [] \<longleftrightarrow> True"
| "chain_signed sha ed vk m h l (r # rs) \<longleftrightarrow>
     (if rec_content_hash r = GENESIS_HASH then chain_signed sha ed vk m h l rs
      else (\<exists>e. map_of m (rec_lsn r) = Some e \<and> sc_content_hash e = rec_content_hash r \<and>
          ed_verify ed vk (signing_payload sha (rec_lsn r) (rec_content_hash r)
            (derive_prev_hash sha h l)) (sc_signature e)) \<and>
        sha (rec_hash_input r) = rec_content_hash r \<and>
        chain_signed sha ed vk m (rec_content_hash r) (rec_lsn r) rs)"

lemma chain_signed_append:
  "chain_signed sha ed vk m h l (rs @ ss) \<longleftrightarrow>
     chain_signed sha ed vk m h l rs \<and>
     (let c = in_chain rs in
      chain_signed sha ed vk m (if c = [] then h else rec_content_hash (last c))
        (if c = [] then l else rec_lsn (last c)) ss)"
  by (induction rs arbitrary: h l) (auto simp: in_chain_def Let_def)

lemma chain_signed_mono:
  assumes "\<forall>l e. map_of m l = Some e \<longrightarrow> map_of m' l = Some e"
  shows "chain_signed sha ed vk m h l rs \<Longrightarrow> chain_signed sha ed vk m' h l rs"
  using assms by (induction rs arbitrary: h l) (auto split: if_splits)

lemma chain_signed_valid:
  assumes "chain_signed sha ed vk m (fst (prev_of prev)) (snd (prev_of prev)) rs"
  shows "\<forall>x \<in> set (check_signatures sha ed (Some vk) m prev (map (sif_record_of sha) rs)). x = SigValid"
  using assms
proof (induction rs arbitrary: prev)
  case (Cons r rs)
  show ?case
  proof (cases "rec_content_hash r = GENESIS_HASH")
    case True
    with Cons show ?thesis by simp
  next
    case False
    define p where "p = (case prev of Some (ch, lsn) \<Rightarrow> derive_prev_hash sha ch lsn
      | None \<Rightarrow> genesis_prev_hash sha)"
    have p: "p = derive_prev_hash sha (fst (prev_of prev)) (snd (prev_of prev))"
      by (cases prev) (auto simp: p_def genesis_prev_hash_def GENESIS_HASH_def)
    have "check_entry sha ed (Some vk) m p (sif_record_of sha r) = SigValid"
      using Cons.prems False
      by (auto simp: check_entry_def verify_signature_def sr_signing_payload_def signing_payload_def p)
    with Cons.IH [of "Some (rec_content_hash r, rec_lsn r)"] Cons.prems False show ?thesis
      by (simp add: p_def)
  qed
qed simp

text \<open>Consecutive LSNs leave no gap and no broken link.\<close>

definition consecutive :: "nat \<Rightarrow> u64 list \<Rightarrow> bool" where
  "consecutive a ls \<longleftrightarrow> a + length ls \<le> 2 ^ 64 \<and> ls = map of_nat [a..<a + length ls]"

lemma consecutive_Cons:
  "consecutive a (l # ls) \<longleftrightarrow> a < 2 ^ 64 \<and> l = of_nat a \<and> consecutive (Suc a) ls"
proof -
  have "[a..<a + length (l # ls)] = a # [Suc a..<Suc a + length ls]"
    by (subst upt_conv_Cons) simp_all
  then show ?thesis unfolding consecutive_def by auto
qed

lemma consecutive_links:
  "consecutive a (map sr_lsn rs) \<Longrightarrow>
     broken_links rs = 0 \<and> lsn_gaps rs = [] \<and> sorted (map sr_lsn rs)"
proof (induction rs arbitrary: a rule: broken_links.induct)
  case (1 r s rs)
  then have c: "sr_lsn r = of_nat a" "sr_lsn s = of_nat (Suc a)" "Suc a < 2 ^ 64"
    "consecutive (Suc a) (map sr_lsn (s # rs))"
    by (auto simp: consecutive_Cons simp del: of_nat_Suc)
  have u: "unat (of_nat a :: u64) = a" "unat (of_nat (Suc a) :: u64) = Suc a"
    using c(3) by (simp_all add: unat_of_nat take_bit_nat_eq_self del: of_nat_Suc)
  have lt: "sr_lsn r < sr_lsn s" using u by (simp add: c(1,2) word_less_nat_alt del: of_nat_Suc)
  have "sat_add64 (sr_lsn r) 1 = sr_lsn s"
    using u c(3) by (simp add: sat_add64_def c(1,2) word_unat_eq_iff add.commute)
  with 1(1) [OF c(4)] lt show ?case
    by (auto simp: sr_chain_link_def Let_def)
qed auto

lemma signed_log_passes:
  assumes "consecutive a (map rec_lsn rs)" and "chain_signed sha ed vk m GENESIS_HASH 0 rs"
    and "fst ` set m \<subseteq> rec_lsn ` set rs"
  shows "report_passed (verify_records sha ed (Some vk) (Some m) (map (sif_record_of sha) rs))"
proof -
  let ?rs = "map (sif_record_of sha) rs"
  have map: "map sr_lsn ?rs = map rec_lsn rs" by simp
  have l: "broken_links ?rs = 0" "lsn_gaps ?rs = []" "sorted (map sr_lsn ?rs)"
    using consecutive_links [of a ?rs] assms(1) unfolding map by auto
  have s: "sort_key sr_lsn ?rs = ?rs" using l(3) by (rule sort_key_id_if_sorted)
  have "\<forall>x \<in> set (check_signatures sha ed (Some vk) m None ?rs). x = SigValid"
    by (rule chain_signed_valid) (simp add: assms(2))
  then have "SigTampered \<notin> set (check_signatures sha ed (Some vk) m None ?rs)"
    "SigMissing \<notin> set (check_signatures sha ed (Some vk) m None ?rs)" by blast+
  moreover have "orphan_entries m ?rs = 0"
    using assms(3) by (force simp: orphan_entries_def filter_empty_conv list_ex_iff)
  ultimately show ?thesis
    using l by (simp add: report_passed_def verify_records_def s count_zero Let_def)
qed
section \<open>Properties\<close>

text \<open>The inputs of SHA-256 that verifying a log of signed records involves.\<close>

definition verify_inputs :: "(bytes \<Rightarrow> bytes) \<Rightarrow> log_record set \<Rightarrow> bytes set" where
  "verify_inputs sha R = rec_hash_input ` R \<union> chain_inputs sha (chain_entry ` R)"




text \<open>What passing verification does not say. An audit record that claims to be signed but
  carries no content hash satisfies every check although the sidecar lists its LSN; a log
  without records passes in the text variant whatever the sidecar lists, and fails in the
  JSON variant; and a public key that does not parse switches the signature checks off.\<close>

theorem verify_log_gaps:
  "report_passed (verify_records sha ed (Some vk) (Some [(1, e)])
     [sif_record_of sha ((rec_new i)\<lparr>rec_lsn := 1, rec_level := Audit,
        rec_flags := RECORD_FLAG_SIGNED\<rparr>)]) \<and>
   (let sidecar = Some (Some (sidecar_text [(1, replicate 32 a, replicate 64 b)])) in
    cmd_verify_log sha ed vk_from_bytes vs (Some []) pk sidecar \<and>
    \<not> cmd_verify_log_json sha ed vk_from_bytes vs (Some []) pk sidecar) \<and>
   cmd_verify_log sha ed vk_from_bytes vs file (Some (str_bytes ''zz'')) sc =
     cmd_verify_log sha ed vk_from_bytes vs file None sc"
proof (intro conjI)
  show "report_passed (verify_records sha ed (Some vk) (Some [(1, e)])
     [sif_record_of sha ((rec_new i)\<lparr>rec_lsn := 1, rec_level := Audit,
        rec_flags := RECORD_FLAG_SIGNED\<rparr>)])"
    by (simp add: report_passed_def verify_records_def count_outcome_def orphan_entries_def
        rec_new_def GENESIS_HASH_def)
  have f: "read_sif_file sha vs [] = (Inr [], vs)"
    by (simp add: read_sif_file_def read_frames.simps)
  have "list_all line_ok [(1, replicate 32 a, replicate 64 b)]" by (simp add: line_ok_def)
  from read_sidecar_written [OF this] f
  show "let sidecar = Some (Some (sidecar_text [(1, replicate 32 a, replicate 64 b)])) in
    cmd_verify_log sha ed vk_from_bytes vs (Some []) pk sidecar \<and>
    \<not> cmd_verify_log_json sha ed vk_from_bytes vs (Some []) pk sidecar"
    by (simp add: cmd_verify_log_def cmd_verify_log_json_def read_sidecar_arg_def report_passed_def
        verify_records_def orphan_entries_def entry_of_line_def)
  have "parse_pubkey vk_from_bytes (Some (str_bytes ''zz'')) = None"
  proof -
    have "hex_array 32 (Some (trim (str_bytes ''zz''))) = None" by code_simp
    then show ?thesis by (simp add: parse_pubkey_def)
  qed
  then show "cmd_verify_log sha ed vk_from_bytes vs file (Some (str_bytes ''zz'')) sc =
     cmd_verify_log sha ed vk_from_bytes vs file None sc"
    by (simp add: cmd_verify_log_def parse_pubkey_def)
qed

end
