(* ===== verification/Audit_Pipeline.thy ===== *)
theory Audit_Pipeline
  imports Worm_Sink Engine Verify_Log
begin

text \<open>
  The isolated pipeline of audit records (core/src/security/audit.rs) with its two sinks, the
  write-once file and the security file (core/src/sink/security.rs), the signature sidecar and
  the external anchor (core/src/security/external_anchor.rs). The clocks are an argument of
  each call; posting an anchor to a remote endpoint has no effect on the state and is left out,
  as is its JSON form (the crate serde_json).
\<close>

section \<open>Security file\<close>

record security_config =
  yc_max_size :: u64
  yc_buffer_size :: nat

record security_sink =
  sy_config :: security_config
  sy_writer :: "buf_writer option"
  sy_device :: file_device
  sy_bytes :: u64
  sy_open :: bool
  sy_archive :: "(nat \<times> bytes) list"

definition security_config_default :: security_config where
  "security_config_default = \<lparr>yc_max_size = 0, yc_buffer_size = 65536\<rparr>"

definition security_new :: "security_config \<Rightarrow> file_device \<Rightarrow> security_sink" where
  "security_new config dev =
     \<lparr>sy_config = config, sy_writer = None, sy_device = dev, sy_bytes = 0, sy_open = False, sy_archive = []\<rparr>"

type_synonym security_result = "(sink_error + unit) \<times> security_sink"

definition security_open_writer :: "security_sink \<Rightarrow> security_sink" where
  "security_open_writer s =
     s\<lparr>sy_writer := Some \<lparr>bw_capacity = yc_buffer_size (sy_config s), bw_buffer = []\<rparr>\<rparr>"

definition security_open :: "security_sink \<Rightarrow> security_result" where
  "security_open s = (Inr (), (security_open_writer s)\<lparr>sy_open := True\<rparr>)"

definition hex_bytes :: "bytes \<Rightarrow> bytes" where
  "hex_bytes bs = concat (map (hex_pair hex_chars_lower) bs)"

definition escape_bars :: "bytes \<Rightarrow> bytes" where
  "escape_bars m = concat (map (\<lambda>b. if b = 0x7C then [0x5C, 0x78, 0x37, 0x63] else [b]) m)"

definition format_security_record :: "log_record \<Rightarrow> bytes" where
  "format_security_record r =
     str_bytes (dec (unat (rec_lsn r))) @ [0x7C] @ str_bytes (dec (unat (rec_timestamp r))) @ [0x7C] @
     str_bytes (level_to_str (rec_level r)) @ [0x7C] @ str_bytes (dec (unat (rec_thread_id r))) @ [0x7C] @
     str_bytes (dec (unat (rec_process_id r))) @ [0x7C] @ rec_host_name r @ [0x7C] @
     escape_bars (rs_display_lossy (rec_message r)) @ [0x7C] @ hex_bytes (take 8 (rec_content_hash r)) @ [0x0A]"

definition security_sync :: "security_sink \<Rightarrow> security_result" where
  "security_sync s =
     (case dev_sync (sy_device s) of
        (ok, d) \<Rightarrow> ((if ok then Inr () else Inl (WriteFailed ''security fsync'')), s\<lparr>sy_device := d\<rparr>))"

definition security_write_all :: "bytes \<Rightarrow> buf_writer \<Rightarrow> security_sink \<Rightarrow> security_result" where
  "security_write_all data w s =
     (case bw_write_all data w (sy_device s) of
        (ok, w', d) \<Rightarrow>
          ((if ok then Inr () else Inl (WriteFailed ''security write'')),
           s\<lparr>sy_writer := Some w', sy_device := d\<rparr>))"

definition write_security_record :: "log_record \<Rightarrow> security_sink \<Rightarrow> security_result" where
  "write_security_record r s =
     (if \<not> sy_open s then (Inl SinkClosed, s)
      else
        let line = format_security_record r in
        case sy_writer s of
          None \<Rightarrow> (Inr (), s)
        | Some w \<Rightarrow>
            (case security_write_all line w s of
               (Inl e, s1) \<Rightarrow> (Inl e, s1)
             | (Inr _, s1) \<Rightarrow> security_sync (s1\<lparr>sy_bytes := sy_bytes s1 + of_nat (length line)\<rparr>)))"

definition security_flush :: "security_sink \<Rightarrow> security_result" where
  "security_flush s =
     (case sy_writer s of
        None \<Rightarrow> (Inr (), s)
      | Some w \<Rightarrow>
          (case bw_flush w (sy_device s) of
             (False, w', d) \<Rightarrow>
               (Inl (WriteFailed ''security flush''), s\<lparr>sy_writer := Some w', sy_device := d\<rparr>)
           | (True, w', d) \<Rightarrow> security_sync (s\<lparr>sy_writer := Some w', sy_device := d\<rparr>)))"

definition security_rotate :: "nat \<Rightarrow> security_sink \<Rightarrow> security_result" where
  "security_rotate secs s =
     (case security_flush s of
        (Inl e, s1) \<Rightarrow> (Inl e, s1)
      | (Inr _, s1) \<Rightarrow>
          let s2 = s1\<lparr>sy_writer := None,
              sy_archive := AList.update secs (fd_bytes (sy_device s1)) (sy_archive s1),
              sy_device := (sy_device s1)\<lparr>fd_bytes := [], fd_synced := 0\<rparr>\<rparr>
          in (Inr (), (security_open_writer s2)\<lparr>sy_bytes := 0\<rparr>))"

definition security_write_line :: "nat \<Rightarrow> bytes \<Rightarrow> security_sink \<Rightarrow> security_result" where
  "security_write_line secs formatted s =
     (if \<not> sy_open s then (Inl SinkClosed, s)
      else
        (case (case sy_writer s of
                 None \<Rightarrow> (Inr (), s)
               | Some w \<Rightarrow>
                   (case security_write_all formatted w s of
                      (Inl e, s1) \<Rightarrow> (Inl e, s1)
                    | (Inr _, s1) \<Rightarrow>
                        (case security_write_all [0x0A] (the (sy_writer s1)) s1 of
                           (Inl e, s2) \<Rightarrow> (Inl e, s2)
                         | (Inr _, s2) \<Rightarrow> security_sync s2))) of
           (Inl e, s3) \<Rightarrow> (Inl e, s3)
         | (Inr _, s3) \<Rightarrow>
             let s4 = s3\<lparr>sy_bytes := sy_bytes s3 + of_nat (length formatted) + 1\<rparr> in
             if 0 < yc_max_size (sy_config s4) \<and> yc_max_size (sy_config s4) \<le> sy_bytes s4
             then security_rotate secs s4 else (Inr (), s4)))"

definition security_close :: "security_sink \<Rightarrow> security_result" where
  "security_close s =
     (case security_flush s of
        (Inl e, s1) \<Rightarrow> (Inl e, s1)
      | (Inr _, s1) \<Rightarrow> (Inr (), s1\<lparr>sy_writer := None, sy_open := False\<rparr>))"

section \<open>External anchor\<close>

record anchor_record =
  an_id :: u64
  an_timestamp_ms :: u64
  an_last_lsn :: u64
  an_root_hash :: bytes
  an_signature :: bytes

record external_anchor =
  ea_history :: "anchor_record list"
  ea_last :: nat
  ea_interval :: nat
  ea_hashes :: "bytes list"
  ea_counter :: u64
  ea_url :: "string option"

text \<open>Instants and the interval are in nanoseconds.\<close>

definition anchor_new :: "nat \<Rightarrow> u64 \<Rightarrow> external_anchor" where
  "anchor_new now interval_secs =
     \<lparr>ea_history = [], ea_last = now, ea_interval = unat interval_secs * 10 ^ 9, ea_hashes = [],
      ea_counter = 1, ea_url = None\<rparr>"

definition anchor_with_url :: "nat \<Rightarrow> u64 \<Rightarrow> string option \<Rightarrow> external_anchor" where
  "anchor_with_url now interval_secs url = (anchor_new now interval_secs)\<lparr>ea_url := url\<rparr>"

definition anchor_set_url :: "string \<Rightarrow> external_anchor \<Rightarrow> external_anchor" where
  "anchor_set_url url a = a\<lparr>ea_url := Some url\<rparr>"

definition accumulate_hash :: "bytes \<Rightarrow> external_anchor \<Rightarrow> external_anchor" where
  "accumulate_hash h a = a\<lparr>ea_hashes := ea_hashes a @ [h]\<rparr>"

definition compute_root_hash :: "(bytes \<Rightarrow> bytes) \<Rightarrow> bytes list \<Rightarrow> bytes" where
  "compute_root_hash sha hs = sha (concat hs)"

definition build_anchor_payload :: "u64 \<Rightarrow> u64 \<Rightarrow> u64 \<Rightarrow> bytes \<Rightarrow> bytes" where
  "build_anchor_payload i ms lsn root = le64 i @ le64 ms @ le64 lsn @ root"

definition maybe_anchor ::
  "(bytes \<Rightarrow> bytes) \<Rightarrow> ('sk, 'vk) ed25519 \<Rightarrow> nat \<Rightarrow> u64 \<Rightarrow> ('sk, 'vk) signature_engine \<Rightarrow> external_anchor \<Rightarrow>
     anchor_record option \<times> external_anchor" where
  "maybe_anchor sha ed now ms e a =
     (if now - ea_last a < ea_interval a then (None, a)
      else if ea_hashes a = [] then (None, a\<lparr>ea_last := now\<rparr>)
      else
        let root = compute_root_hash sha (ea_hashes a);
            lsn = sat_sub64 (se_current_lsn e) 1;
            i = ea_counter a;
            rec = \<lparr>an_id = i, an_timestamp_ms = ms, an_last_lsn = lsn, an_root_hash = root,
              an_signature = sign_bytes ed e (build_anchor_payload i ms lsn root)\<rparr>
        in (Some rec, a\<lparr>ea_counter := i + 1, ea_history := ea_history a @ [rec], ea_hashes := [], ea_last := now\<rparr>))"

definition anchor_payload_of :: "anchor_record \<Rightarrow> bytes" where
  "anchor_payload_of r = build_anchor_payload (an_id r) (an_timestamp_ms r) (an_last_lsn r) (an_root_hash r)"

definition verify_anchor_chain :: "('sk, 'vk) ed25519 \<Rightarrow> 'vk \<Rightarrow> external_anchor \<Rightarrow> bool" where
  "verify_anchor_chain ed vk a =
     list_all (\<lambda>r. ed_verify ed vk (anchor_payload_of r) (an_signature r)) (ea_history a)"

definition anchor_count :: "external_anchor \<Rightarrow> nat" where "anchor_count a = length (ea_history a)"

definition pending_hash_count :: "external_anchor \<Rightarrow> nat" where "pending_hash_count a = length (ea_hashes a)"

section \<open>Audit pipeline\<close>

record ('sk, 'vk) audit_state =
  au_worm :: worm_sink
  au_security :: security_sink
  au_sidecar :: "(buf_writer \<times> file_device) option"
  au_engine :: "('sk, 'vk) signature_engine"
  au_prev_hash :: bytes
  au_prev_lsn :: u64
  au_anchor :: "external_anchor option"
  au_signed :: bool
  au_failed :: bool
  au_message :: "string option"
  au_shutdown :: bool

record audit_env =
  ae_now :: nat
  ae_secs :: nat
  ae_ms :: u64

definition canonical_audit_envelope :: "log_record \<Rightarrow> bytes option \<Rightarrow> bytes \<Rightarrow> bytes" where
  "canonical_audit_envelope r sig formatted =
     str_bytes (''lsn='' @ dec (unat (rec_lsn r)) @ '';content_hash='') @ hex_bytes (rec_content_hash r) @
     str_bytes '';signature='' @ (case sig of None \<Rightarrow> str_bytes ''none'' | Some s \<Rightarrow> hex_bytes s) @
     str_bytes '';record='' @ formatted @ [0x0A]"

text \<open>The sidecar line is written and flushed.\<close>

definition write_audit_sidecar ::
  "u64 \<Rightarrow> bytes \<Rightarrow> bytes option \<Rightarrow> (buf_writer \<times> file_device) option \<Rightarrow>
     (string + unit) \<times> (buf_writer \<times> file_device) option" where
  "write_audit_sidecar lsn ch sig side =
     (case (side, sig) of
        (Some (w, d), Some s) \<Rightarrow>
          (case bw_write_all (write_sidecar_line lsn ch s) w d of
             (False, w', d') \<Rightarrow> (Inl ''sidecar write'', Some (w', d'))
           | (True, w', d') \<Rightarrow>
               (case bw_flush w' d' of
                  (False, w'', d'') \<Rightarrow> (Inl ''sidecar flush'', Some (w'', d''))
                | (True, w'', d'') \<Rightarrow> (Inr (), Some (w'', d''))))
      | _ \<Rightarrow> (Inr (), side))"

definition mark_audit :: "bool \<Rightarrow> log_record \<Rightarrow> log_record" where
  "mark_audit sign r =
     (let r1 = r\<lparr>rec_flags := rec_flags r OR RECORD_FLAG_AUDIT\<rparr> in
      r1\<lparr>rec_flags := (if sign then rec_flags r1 OR RECORD_FLAG_SIGNED
                        else rec_flags r1 AND NOT RECORD_FLAG_SIGNED)\<rparr>)"

definition process_audit_record ::
  "(bytes \<Rightarrow> bytes) \<Rightarrow> ('sk, 'vk) ed25519 \<Rightarrow> audit_env \<Rightarrow> log_record \<Rightarrow> ('sk, 'vk) audit_state \<Rightarrow>
     (string + unit) \<times> log_record \<times> ('sk, 'vk) audit_state" where
  "process_audit_record sha ed env r st =
     (if rec_level r \<noteq> Audit then (Inl ''non-AUDIT record reached the isolated audit pipeline'', r, st)
      else
        let r1 = mark_audit (au_signed st) r in
        if au_prev_lsn st = - 1 then (Inl ''AUDIT LSN exhausted'', r1, st)
        else
          let r2 = compute_content_hash sha (r1\<lparr>rec_lsn := au_prev_lsn st + 1\<rparr>);
              prev_hash = sha (au_prev_hash st @ le64 (au_prev_lsn st));
              (sig, r3, e) =
                (if au_signed st then
                   (case sign_record sha ed (au_engine st) r2 prev_hash of (s, r', e') \<Rightarrow> (Some s, r', e'))
                 else (None, r2, au_engine st));
              formatted = console_format_record r3;
              envelope = canonical_audit_envelope r3 sig formatted;
              st1 = st\<lparr>au_engine := e\<rparr>
          in (case write_worm_record_with_hash sha (ae_now env) (ae_secs env) (rec_lsn r3) prev_hash
                     (rec_content_hash r3) envelope (au_worm st1) of
                (Inl er, w) \<Rightarrow> (Inl (''WORM write: '' @ sink_error_text er), r3, st1\<lparr>au_worm := w\<rparr>)
              | (Inr _, w) \<Rightarrow>
             (case write_security_record r3 (au_security st1) of
                (Inl er, y) \<Rightarrow>
                  (Inl (''Security write: '' @ sink_error_text er), r3, st1\<lparr>au_worm := w, au_security := y\<rparr>)
              | (Inr _, y) \<Rightarrow>
             (case write_audit_sidecar (rec_lsn r3) (rec_content_hash r3) sig (au_sidecar st1) of
                (Inl er, side) \<Rightarrow>
                  (Inl er, r3, st1\<lparr>au_worm := w, au_security := y, au_sidecar := side\<rparr>)
              | (Inr _, side) \<Rightarrow>
                  (Inr (), r3, st1\<lparr>au_worm := w, au_security := y, au_sidecar := side,
                     au_prev_hash := rec_content_hash r3, au_prev_lsn := rec_lsn r3,
                     au_anchor := map_option (\<lambda>a.
                       snd (maybe_anchor sha ed (ae_now env) (ae_ms env) e
                         (accumulate_hash
                           (case sig of None \<Rightarrow> sha envelope
                            | Some s \<Rightarrow> record_chain_hash sha (rec_lsn r3) s) a))) (au_anchor st1)\<rparr>)))))"

definition record_failure :: "string \<Rightarrow> ('sk, 'vk) audit_state \<Rightarrow> ('sk, 'vk) audit_state" where
  "record_failure msg st =
     (let st1 = (if au_failed st then st else st\<lparr>au_failed := True, au_message := Some msg\<rparr>) in
      st1\<lparr>au_shutdown := True\<rparr>)"

text \<open>The drain callback: after a failure records are only given back. The flag says whether the
  record was persisted.\<close>

definition audit_one ::
  "(bytes \<Rightarrow> bytes) \<Rightarrow> ('sk, 'vk) ed25519 \<Rightarrow> audit_env \<Rightarrow> log_record \<Rightarrow> ('sk, 'vk) audit_state \<Rightarrow>
     bool \<times> log_record \<times> ('sk, 'vk) audit_state" where
  "audit_one sha ed env r st =
     (if au_failed st then (False, r, st)
      else
        (case process_audit_record sha ed env r st of
           (Inl e, r', st') \<Rightarrow> (False, r', record_failure e st')
         | (Inr _, r', st') \<Rightarrow> (True, r', st')))"

fun audit_all ::
  "(bytes \<Rightarrow> bytes) \<Rightarrow> ('sk, 'vk) ed25519 \<Rightarrow> (audit_env \<times> log_record) list \<Rightarrow> ('sk, 'vk) audit_state \<Rightarrow>
     log_record list \<times> ('sk, 'vk) audit_state" where
  "audit_all sha ed [] st = ([], st)"
| "audit_all sha ed ((env, r) # rs) st =
     (case audit_one sha ed env r st of
        (ok, r', st1) \<Rightarrow> (case audit_all sha ed rs st1 of
          (persisted, st2) \<Rightarrow> (if ok then r' # persisted else persisted, st2)))"

text \<open>A drain over the queue of the engine: each record is processed and given back.\<close>

fun audit_items_drain ::
  "(bytes \<Rightarrow> bytes) \<Rightarrow> ('sk, 'vk) ed25519 \<Rightarrow> (nat \<Rightarrow> audit_env) \<Rightarrow> nat list \<Rightarrow>
     ('w, 'sk, 'vk) engine \<times> ('sk, 'vk) audit_state \<Rightarrow> (('w, 'sk, 'vk) engine \<times> ('sk, 'vk) audit_state) option" where
  "audit_items_drain sha ed env [] (e, st) = Some (e, st)"
| "audit_items_drain sha ed env (i # ns) (e, st) =
     (case audit_one sha ed (env i) (op_record (en_pool e) i) st of
        (ok, r', st') \<Rightarrow>
          (case pool_free (put_record i r' (en_pool e)) i of
             None \<Rightarrow> None
           | Some p \<Rightarrow> audit_items_drain sha ed env ns (e\<lparr>en_pool := p\<rparr>, st')))"

definition AUDIT_BATCH :: nat where "AUDIT_BATCH = 128"

text \<open>One turn of the consumer loop; a failure closes the queue.\<close>

definition audit_cycle ::
  "(bytes \<Rightarrow> bytes) \<Rightarrow> ('sk, 'vk) ed25519 \<Rightarrow> (nat \<Rightarrow> audit_env) \<Rightarrow>
     ('w, 'sk, 'vk) engine \<times> ('sk, 'vk) audit_state \<Rightarrow> (('w, 'sk, 'vk) engine \<times> ('sk, 'vk) audit_state) option" where
  "audit_cycle sha ed env = (\<lambda>(e, st).
     (case en_audit e of
        None \<Rightarrow> Some (e, st)
      | Some q \<Rightarrow>
          (case audit_items_drain sha ed env (take AUDIT_BATCH (aq_queue q))
              (e\<lparr>en_audit := Some (q\<lparr>aq_queue := drop AUDIT_BATCH (aq_queue q)\<rparr>)\<rparr>, st) of
             None \<Rightarrow> None
           | Some (e', st') \<Rightarrow>
               Some (e'\<lparr>en_audit := map_option (\<lambda>q'. q'\<lparr>aq_closed := aq_closed q' \<or> au_shutdown st'\<rparr>) (en_audit e')\<rparr>,
                 st'))))"

text \<open>What follows the last drain: flush everything, then close the sinks.\<close>

definition latch :: "string \<Rightarrow> (sink_error + unit) \<Rightarrow> ('sk, 'vk) audit_state \<Rightarrow> ('sk, 'vk) audit_state" where
  "latch what r st =
     (case r of Inl e \<Rightarrow> record_failure (what @ '': '' @ sink_error_text e) st | Inr _ \<Rightarrow> st)"

definition audit_close :: "(bytes \<Rightarrow> bytes) \<Rightarrow> nat \<Rightarrow> ('sk, 'vk) audit_state \<Rightarrow> ('sk, 'vk) audit_state" where
  "audit_close sha secs st =
     (let st1 = (case au_sidecar st of
                   None \<Rightarrow> st
                 | Some (w, d) \<Rightarrow>
                     (case bw_flush w d of
                        (ok, w', d') \<Rightarrow>
                          let s = st\<lparr>au_sidecar := Some (w', d')\<rparr> in
                          if ok then s else record_failure ''sidecar flush'' s));
          (r2, w2) = worm_flush (au_worm st1);
          st2 = latch ''WORM flush'' r2 (st1\<lparr>au_worm := w2\<rparr>);
          (r3, y3) = security_flush (au_security st2);
          st3 = latch ''Security flush'' r3 (st2\<lparr>au_security := y3\<rparr>);
          (r4, w4) = worm_close sha secs (au_worm st3);
          st4 = latch ''WORM close'' r4 (st3\<lparr>au_worm := w4\<rparr>);
          (r5, y5) = security_close (au_security st4)
      in latch ''Security close'' r5 (st4\<lparr>au_security := y5\<rparr>))"

text \<open>Stopping: what is left in the queue is processed, then everything is closed.\<close>

definition audit_shutdown ::
  "(bytes \<Rightarrow> bytes) \<Rightarrow> ('sk, 'vk) ed25519 \<Rightarrow> (nat \<Rightarrow> audit_env) \<Rightarrow> nat \<Rightarrow>
     ('w, 'sk, 'vk) engine \<times> ('sk, 'vk) audit_state \<Rightarrow> (('w, 'sk, 'vk) engine \<times> ('sk, 'vk) audit_state) option" where
  "audit_shutdown sha ed env secs = (\<lambda>(e, st).
     let st0 = st\<lparr>au_shutdown := True\<rparr> in
     (case en_audit e of
        None \<Rightarrow> Some (e, audit_close sha secs st0)
      | Some q \<Rightarrow>
          map_option (\<lambda>(e', st'). (e', audit_close sha secs st'))
            (audit_items_drain sha ed env (aq_queue q)
              (e\<lparr>en_audit := Some (q\<lparr>aq_queue := [], aq_closed := True\<rparr>)\<rparr>, st0))))"

section \<open>The trail\<close>

definition security_content :: "security_sink \<Rightarrow> bytes" where
  "security_content s =
     (case sy_writer s of None \<Rightarrow> fd_bytes (sy_device s) | Some w \<Rightarrow> bw_content w (sy_device s))"

definition security_sound :: "security_sink \<Rightarrow> bool" where
  "security_sound s \<longleftrightarrow> sy_open s \<and> sy_writer s \<noteq> None \<and> fd_calls (sy_device s) = []"

definition sidecar_content :: "('sk, 'vk) audit_state \<Rightarrow> bytes" where
  "sidecar_content st = (case au_sidecar st of None \<Rightarrow> [] | Some (w, d) \<Rightarrow> bw_content w d)"

text \<open>A running signed pipeline whose system calls succeed.\<close>

definition audit_ok :: "(bytes \<Rightarrow> bytes) \<Rightarrow> ('sk, 'vk) audit_state \<Rightarrow> bool" where
  "audit_ok sha st \<longleftrightarrow> \<not> au_failed st \<and> au_signed st \<and>
     worm_sound (au_worm st) \<and> wk_open (au_worm st) \<and> wk_reorder (au_worm st) = [] \<and>
     wk_last_lsn (au_worm st) = au_prev_lsn st \<and>
     (0 < au_prev_lsn st \<longrightarrow> wk_last_hash (au_worm st) = derive_prev_hash sha (au_prev_hash st) (au_prev_lsn st)) \<and>
     security_sound (au_security st) \<and>
     (\<exists>w d. au_sidecar st = Some (w, d) \<and> fd_calls d = []) \<and>
     se_lsn_counter (au_engine st) = au_prev_lsn st + 1"

text \<open>The entries of the sidecar that belong to records, from predecessor \<open>(h, l)\<close> on.\<close>

fun trail ::
  "(bytes \<Rightarrow> bytes) \<Rightarrow> ('sk, 'vk) ed25519 \<Rightarrow> 'sk \<Rightarrow> bytes \<Rightarrow> u64 \<Rightarrow> log_record list \<Rightarrow> (u64 \<times> bytes \<times> bytes) list \<Rightarrow> bool" where
  "trail sha ed sk h l [] [] \<longleftrightarrow> True"
| "trail sha ed sk h l (r # rs) ((n, c, s) # es) \<longleftrightarrow>
     n = l + 1 \<and> rec_lsn r = n \<and> rec_content_hash r = c \<and> c = sha (rec_hash_input r) \<and>
     s = ed_sign ed sk (signing_payload sha n c (derive_prev_hash sha h l)) \<and> trail sha ed sk c n rs es"
| "trail sha ed sk h l _ _ \<longleftrightarrow> False"

definition trail_end :: "bytes \<Rightarrow> u64 \<Rightarrow> log_record list \<Rightarrow> bytes \<times> u64" where
  "trail_end h l rs = (if rs = [] then (h, l) else (rec_content_hash (last rs), rec_lsn (last rs)))"

definition persisted_as :: "log_record \<Rightarrow> log_record \<Rightarrow> bool" where
  "persisted_as r r' \<longleftrightarrow>
     (\<exists>n c. r' = (mark_audit True r)\<lparr>rec_lsn := n, rec_content_hash := c\<rparr>)"

lemma worm_in_order:
  assumes "worm_sound w" and "wk_open w" and "wk_reorder w = []" and "lsn = wk_last_lsn w + 1"
    and "0 < wk_last_lsn w \<longrightarrow> ph = wk_last_hash w"
  shows "\<exists>w'. worm_write sha now secs lsn ph ch data w = (Inr (), w') \<and> worm_sound w' \<and> wk_open w' \<and>
    wk_reorder w' = [] \<and> wk_last_lsn w' = lsn \<and> wk_last_hash w' = next_hash sha lsn ch ph \<and>
    worm_content w' = worm_content w @ data"
proof -
  have f: "flush_reorder_buffer sha secs w = (Inr (), w\<lparr>wk_start := None\<rparr>)"
    using assms(3) by (simp add: flush_reorder_buffer_def)
  have "worm_sound (w\<lparr>wk_start := None\<rparr>)" using assms(1) by (simp add: worm_sound_def)
  from worm_write_raw_sound [OF this, of secs data] obtain s2 where
    s2: "worm_write_raw secs data (w\<lparr>wk_start := None\<rparr>) = (Inr (), s2)" "worm_sound s2"
      "worm_content s2 = worm_content w @ data" "worm_rest s2 = worm_rest (w\<lparr>wk_start := None\<rparr>)" by auto
  from worm_fsync_sound [OF s2(2)] obtain s3 where
    s3: "(if wc_durability (wk_config s2) \<in> {Media, MediaWithFua} then worm_fsync s2 else (Inr (), s2)) =
        (Inr (), s3)" "worm_sound s3" "worm_content s3 = worm_content s2" "worm_rest s3 = worm_rest s2"
    using s2(2) by (metis (full_types))
  have "worm_write sha now secs lsn ph ch data w =
      (Inr (), s3\<lparr>wk_last_lsn := lsn, wk_last_hash := next_hash sha lsn ch ph\<rparr>)"
    using assms f s2(1) s3(1) by (simp add: worm_write_def Let_def)
  then show ?thesis using assms(2,3) s2 s3 by (simp add: worm_sound_def worm_rest_def)
qed

lemma security_write_sound:
  assumes "security_sound s"
  shows "\<exists>s'. write_security_record r s = (Inr (), s') \<and> security_sound s' \<and>
    security_content s' = security_content s @ format_security_record r"
proof -
  obtain w where w: "sy_writer s = Some w" "fd_calls (sy_device s) = []" "sy_open s"
    using assms by (auto simp: security_sound_def)
  from bw_write_all_sound [OF w(2), of "format_security_record r" w] obtain w' d' where
    "bw_write_all (format_security_record r) w (sy_device s) = (True, w', d')" "fd_calls d' = []"
    "bw_content w' d' = bw_content w (sy_device s) @ format_security_record r" by blast
  with w show ?thesis
    by (simp add: write_security_record_def security_write_all_def security_sync_def security_sound_def
        security_content_def dev_sync_sound bw_content_def Let_def)
qed

lemma sidecar_write_sound:
  assumes "fd_calls d = []"
  shows "\<exists>w' d'. write_audit_sidecar lsn ch (Some sig) (Some (w, d)) = (Inr (), Some (w', d')) \<and>
    fd_calls d' = [] \<and> bw_content w' d' = bw_content w d @ write_sidecar_line lsn ch sig"
proof -
  from bw_write_all_sound [OF assms, of "write_sidecar_line lsn ch sig" w] obtain w1 d1 where
    1: "bw_write_all (write_sidecar_line lsn ch sig) w d = (True, w1, d1)" "fd_calls d1 = []"
      "bw_content w1 d1 = bw_content w d @ write_sidecar_line lsn ch sig" by blast
  from bw_flush_sound [OF 1(2), of w1] obtain w2 d2 where
    "bw_flush w1 d1 = (True, w2, d2)" "fd_calls d2 = []" "bw_buffer w2 = []" "fd_bytes d2 = bw_content w1 d1"
    by blast
  with 1 show ?thesis by (simp add: write_audit_sidecar_def bw_content_def)
qed

lemma process_audit_ok:
  assumes ok: "audit_ok sha st" and lvl: "rec_level r = Audit" and bound: "unat (au_prev_lsn st) < 2 ^ 64 - 1"
  shows "\<exists>r' st' sig. process_audit_record sha ed env r st = (Inr (), r', st') \<and> audit_ok sha st' \<and>
    se_signing_key (au_engine st') = se_signing_key (au_engine st) \<and> persisted_as r r' \<and>
    rec_lsn r' = au_prev_lsn st + 1 \<and> rec_content_hash r' = sha (rec_hash_input r') \<and>
    au_prev_lsn st' = rec_lsn r' \<and> au_prev_hash st' = rec_content_hash r' \<and>
    sig = ed_sign ed (se_signing_key (au_engine st)) (signing_payload sha (rec_lsn r') (rec_content_hash r')
      (derive_prev_hash sha (au_prev_hash st) (au_prev_lsn st))) \<and>
    sidecar_content st' = sidecar_content st @ write_sidecar_line (rec_lsn r') (rec_content_hash r') sig \<and>
    worm_content (au_worm st') = worm_content (au_worm st) @
      canonical_audit_envelope r' (Some sig) (console_format_record r') \<and>
    security_content (au_security st') = security_content (au_security st) @ format_security_record r'"
proof -
  let ?n = "au_prev_lsn st + 1" and ?e = "au_engine st"
  let ?ph = "derive_prev_hash sha (au_prev_hash st) (au_prev_lsn st)"
  define r' where "r' = compute_content_hash sha ((mark_audit True r)\<lparr>rec_lsn := ?n\<rparr>)"
  define sig where "sig = ed_sign ed (se_signing_key ?e) (signing_payload sha ?n (rec_content_hash r') ?ph)"
  have max: "au_prev_lsn st \<noteq> - 1" using bound by (metis below_max order_less_irrefl)
  have r': "rec_lsn r' = ?n" "rec_content_hash r' = sha (rec_hash_input r')" "persisted_as r r'"
    by (auto simp: r'_def persisted_as_def) (auto simp: compute_content_hash_def)
  have same: "r'\<lparr>rec_lsn := ?n\<rparr> = r'" by (simp add: r'_def compute_content_hash_def)
  have again: "compute_content_hash sha r' = r'"
    by (simp add: r'_def compute_content_hash_def compute_content_hash_from_def)
  have "se_lsn_counter ?e = ?n" using ok by (simp add: audit_ok_def)
  then have sign: "sign_record sha ed ?e r' ?ph = (sig, r', ?e\<lparr>se_lsn_counter := ?n + 1\<rparr>)"
    using r'(1) r'(2) by (simp add: sign_record_def same again sig_def build_signing_payload_static_def Let_def)
  have w: "worm_sound (au_worm st)" "wk_open (au_worm st)" "wk_reorder (au_worm st) = []"
    "?n = wk_last_lsn (au_worm st) + 1" "0 < wk_last_lsn (au_worm st) \<longrightarrow> ?ph = wk_last_hash (au_worm st)"
    and y: "security_sound (au_security st)" and flags: "au_signed st" "\<not> au_failed st"
    using ok by (auto simp: audit_ok_def)
  let ?env = "canonical_audit_envelope r' (Some sig) (console_format_record r')"
  from worm_in_order [OF w, of sha "ae_now env" "ae_secs env" "Some (rec_content_hash r')" ?env] obtain w' where
    w': "worm_write sha (ae_now env) (ae_secs env) ?n ?ph (Some (rec_content_hash r')) ?env (au_worm st) = (Inr (), w')"
      "worm_sound w'" "wk_open w'" "wk_reorder w' = []" "wk_last_lsn w' = ?n"
      "wk_last_hash w' = next_hash sha ?n (Some (rec_content_hash r')) ?ph"
      "worm_content w' = worm_content (au_worm st) @ ?env" by blast
  from security_write_sound [OF y, of r'] obtain y' where
    y': "write_security_record r' (au_security st) = (Inr (), y')" "security_sound y'"
      "security_content y' = security_content (au_security st) @ format_security_record r'" by blast
  obtain b d where side: "au_sidecar st = Some (b, d)" "fd_calls d = []" using ok by (auto simp: audit_ok_def)
  from sidecar_write_sound [OF side(2), of ?n "rec_content_hash r'" sig b] obtain b' d' where
    s': "write_audit_sidecar ?n (rec_content_hash r') (Some sig) (Some (b, d)) = (Inr (), Some (b', d'))"
      "fd_calls d' = []" "bw_content b' d' = bw_content b d @ write_sidecar_line ?n (rec_content_hash r') sig"
    by blast
  define st' where "st' = st\<lparr>au_engine := ?e\<lparr>se_lsn_counter := ?n + 1\<rparr>, au_worm := w', au_security := y',
    au_sidecar := Some (b', d'), au_prev_hash := rec_content_hash r', au_prev_lsn := ?n,
    au_anchor := map_option (\<lambda>a. snd (maybe_anchor sha ed (ae_now env) (ae_ms env) (?e\<lparr>se_lsn_counter := ?n + 1\<rparr>)
      (accumulate_hash (record_chain_hash sha ?n sig) a))) (au_anchor st)\<rparr>"
  have "process_audit_record sha ed env r st = (Inr (), r', st')"
    using lvl max flags sign [unfolded derive_prev_hash_def] w'(1) y'(1) s'(1) side(1) r'(1)
    by (simp add: process_audit_record_def r'_def [symmetric] derive_prev_hash_def
        write_worm_record_with_hash_def st'_def Let_def)
  moreover have "audit_ok sha st'"
    using flags w' y' s' by (simp add: audit_ok_def st'_def next_hash_def derive_chain_link_def derive_prev_hash_def)
  ultimately show ?thesis using r' w' y' s' side
    by (auto simp: st'_def sidecar_content_def sig_def)
qed

lemma audit_all_ok:
  assumes "audit_ok sha st" and "\<forall>(env, r) \<in> set rs. rec_level r = Audit"
    and "unat (au_prev_lsn st) + length rs < 2 ^ 64" and "audit_all sha ed rs st = (done, st')"
  shows "audit_ok sha st' \<and> list_all2 persisted_as (map snd rs) done \<and>
    se_signing_key (au_engine st') = se_signing_key (au_engine st) \<and>
    trail_end (au_prev_hash st) (au_prev_lsn st) done = (au_prev_hash st', au_prev_lsn st') \<and>
    (\<exists>es. trail sha ed (se_signing_key (au_engine st)) (au_prev_hash st) (au_prev_lsn st) done es \<and>
       sidecar_content st' = sidecar_content st @ sidecar_text es \<and>
       worm_content (au_worm st') = worm_content (au_worm st) @
         concat (map2 (\<lambda>r (n, c, s). canonical_audit_envelope r (Some s) (console_format_record r)) done es) \<and>
       security_content (au_security st') = security_content (au_security st) @
         concat (map format_security_record done))"
  using assms
proof (induction rs arbitrary: st "done")
  case Nil
  then show ?case by (auto simp: sidecar_text_def trail_end_def intro!: exI [of _ "[]"])
next
  case (Cons x rs)
  obtain env r where x: "x = (env, r)" by fastforce
  have lvl: "rec_level r = Audit" and bound: "unat (au_prev_lsn st) < 2 ^ 64 - 1"
    using Cons.prems(2,3) x by auto
  from process_audit_ok [OF Cons.prems(1) lvl bound, of ed env] obtain r' st1 sig where
    p: "process_audit_record sha ed env r st = (Inr (), r', st1)" "audit_ok sha st1"
      "se_signing_key (au_engine st1) = se_signing_key (au_engine st)" "persisted_as r r'"
      "rec_lsn r' = au_prev_lsn st + 1" "rec_content_hash r' = sha (rec_hash_input r')"
      "au_prev_lsn st1 = rec_lsn r'" "au_prev_hash st1 = rec_content_hash r'"
      "sig = ed_sign ed (se_signing_key (au_engine st)) (signing_payload sha (rec_lsn r') (rec_content_hash r')
        (derive_prev_hash sha (au_prev_hash st) (au_prev_lsn st)))"
      "sidecar_content st1 = sidecar_content st @ write_sidecar_line (rec_lsn r') (rec_content_hash r') sig"
      "worm_content (au_worm st1) = worm_content (au_worm st) @
        canonical_audit_envelope r' (Some sig) (console_format_record r')"
      "security_content (au_security st1) = security_content (au_security st) @ format_security_record r'"
    by blast
  obtain done' st2 where rest: "audit_all sha ed rs st1 = (done', st2)" by fastforce
  have out: "done = r' # done'" "st2 = st'"
    using Cons.prems(1,4) p(1) rest x by (auto simp: audit_one_def audit_ok_def)
  note rest = rest [unfolded out(2)]
  have "unat (au_prev_lsn st1) = unat (au_prev_lsn st) + 1"
    using succ_u64 [of "au_prev_lsn st"] bound by (simp add: below_max p(5,7))
  with Cons.prems(2,3) x have "\<forall>(env, r) \<in> set rs. rec_level r = Audit" "unat (au_prev_lsn st1) + length rs < 2 ^ 64"
    by auto
  from Cons.IH [OF p(2) this rest] obtain es where
    ih: "audit_ok sha st'" "list_all2 persisted_as (map snd rs) done'"
      "trail_end (au_prev_hash st1) (au_prev_lsn st1) done' = (au_prev_hash st', au_prev_lsn st')"
      "se_signing_key (au_engine st') = se_signing_key (au_engine st1)"
      "trail sha ed (se_signing_key (au_engine st1)) (au_prev_hash st1) (au_prev_lsn st1) done' es"
      "sidecar_content st' = sidecar_content st1 @ sidecar_text es"
      "worm_content (au_worm st') = worm_content (au_worm st1) @
         concat (map2 (\<lambda>r (n, c, s). canonical_audit_envelope r (Some s) (console_format_record r)) done' es)"
      "security_content (au_security st') = security_content (au_security st1) @
         concat (map format_security_record done')" by blast
  let ?es = "(rec_lsn r', rec_content_hash r', sig) # es"
  have "trail sha ed (se_signing_key (au_engine st)) (au_prev_hash st) (au_prev_lsn st) (r' # done') ?es"
    using ih(5) p by simp
  moreover have "sidecar_content st' = sidecar_content st @ sidecar_text ?es"
    using ih(6) p(10) by (simp add: sidecar_text_def)
  moreover have "worm_content (au_worm st') = worm_content (au_worm st) @
      concat (map2 (\<lambda>r (n, c, s). canonical_audit_envelope r (Some s) (console_format_record r)) (r' # done') ?es)"
    using ih(7) p(11) by simp
  moreover have "security_content (au_security st') = security_content (au_security st) @
      concat (map format_security_record (r' # done'))" using ih(8) p(12) by simp
  moreover have "list_all2 persisted_as (map snd (x # rs)) (r' # done')" using ih(2) p(4) x by simp
  moreover have "trail_end (au_prev_hash st) (au_prev_lsn st) (r' # done') = (au_prev_hash st', au_prev_lsn st')"
    using ih(3) p(7,8) by (simp add: trail_end_def split: if_splits)
  moreover have "se_signing_key (au_engine st') = se_signing_key (au_engine st)" using ih(4) p(3) by simp
  ultimately show ?case unfolding out(1) using ih(1) by blast
qed

end
