(* ===== verification/Audit_Trail.thy ===== *)
theory Audit_Trail
  imports Audit_Pipeline
begin

text \<open>
  What the audit pipeline leaves behind: a signed, gap-free trail that the offline verifier
  accepts, written while the records go back to the pool.
\<close>

section \<open>A trail verifies\<close>

lemma trail_length: "trail sha ed sk h l rs es \<Longrightarrow> length es = length rs"
  by (induction sha ed sk h l rs es rule: trail.induct) auto

lemma trail_append:
  "trail sha ed sk h l rs es \<Longrightarrow> trail_end h l rs = (h', l') \<Longrightarrow> trail sha ed sk h' l' ss fs \<Longrightarrow>
     trail sha ed sk h l (rs @ ss) (es @ fs)"
  by (induction sha ed sk h l rs es rule: trail.induct) (auto simp: trail_end_def split: if_splits)

lemma trail_end_append:
  "trail_end h l rs = (h', l') \<Longrightarrow> trail_end h l (rs @ ss) = trail_end h' l' ss"
  by (auto simp: trail_end_def split: if_splits)

lemma trail_lsns:
  "trail sha ed sk h l rs es \<Longrightarrow> unat l + length rs < 2 ^ 64 \<Longrightarrow>
     map fst es = map rec_lsn rs \<and> consecutive (unat l + 1) (map rec_lsn rs)"
proof (induction sha ed sk h l rs es rule: trail.induct)
  case (2 sha ed sk h l r rs n c s es)
  have n: "n = l + 1" "rec_lsn r = n" "trail sha ed sk c n rs es" using "2.prems"(1) by auto
  have "l < - 1" unfolding below_max using "2.prems"(2) by simp
  then have u: "unat n = unat l + 1" using succ_u64 [of l] n(1) by simp
  with "2.prems"(2) have "unat n + length rs < 2 ^ 64" by simp
  from "2.IH" [OF n(3) this]
  have "map fst es = map rec_lsn rs" "consecutive (unat n + 1) (map rec_lsn rs)" by auto
  moreover have "n = of_nat (unat l + 1)" by (simp add: n(1))
  ultimately show ?case using u "2.prems"(2) n(2) by (simp add: consecutive_Cons del: of_nat_add of_nat_Suc)
qed (auto simp: consecutive_def)

lemma consecutive_distinct: "consecutive a ls \<Longrightarrow> distinct ls"
proof -
  assume c: "consecutive a ls"
  have "inj_on (of_nat :: nat \<Rightarrow> u64) {a..<a + length ls}"
    by (rule inj_on_inverseI [of _ unat]) (use c in \<open>simp add: consecutive_def unat_of_nat take_bit_nat_eq_self\<close>)
  moreover have "ls = map of_nat [a..<a + length ls]" using c by (simp add: consecutive_def)
  ultimately show "distinct ls" by (metis distinct_map distinct_upt set_upt)
qed

lemma map_of_updates:
  "distinct (map fst xs) \<Longrightarrow>
     map_of (fold (\<lambda>(k, v). AList.update k v) xs m) k = (case map_of xs k of None \<Rightarrow> map_of m k | Some v \<Rightarrow> Some v)"
proof (induction xs arbitrary: m)
  case (Cons x xs)
  obtain a b where x: "x = (a, b)" by fastforce
  from Cons.prems x have "map_of xs a = None" by (simp add: map_of_eq_None_iff)
  with Cons.IH [of "AList.update a b m"] Cons.prems x show ?case
    by (auto simp: update_conv' split: option.splits)
qed simp

lemma keys_updates: "fst ` set (fold (\<lambda>(k, v). AList.update k v) xs m) = fst ` set m \<union> fst ` set xs"
proof (induction xs arbitrary: m)
  case (Cons x xs)
  obtain a b where "x = (a, b)" by fastforce
  with Cons show ?case by (simp add: dom_update)
qed simp

lemma trail_chain_signed:
  assumes "ed_correct ed sk" and "\<forall>x. sha x \<noteq> GENESIS_HASH"
  shows "trail sha ed sk h l rs es \<Longrightarrow> \<forall>(n, c, s) \<in> set es. map_of m n = Some \<lparr>sc_content_hash = c, sc_signature = s\<rparr> \<Longrightarrow>
    chain_signed sha ed (ed_public ed sk) m h l rs"
  using assms by (induction sha ed sk h l rs es rule: trail.induct) (auto simp: ed_correct_def)

lemma trail_lines_ok:
  assumes "ed_correct ed sk" and "\<forall>x. length (sha x) = 32"
  shows "trail sha ed sk h l rs es \<Longrightarrow> list_all line_ok es"
  using assms by (induction sha ed sk h l rs es rule: trail.induct) (auto simp: ed_correct_def line_ok_def)

lemma trail_verifies:
  assumes t: "trail sha ed sk GENESIS_HASH 0 rs es" and len: "length rs < 2 ^ 64"
    and ed: "ed_correct ed sk" and sha: "\<forall>x. length (sha x) = 32 \<and> sha x \<noteq> GENESIS_HASH"
  shows "\<exists>m. read_sidecar (sidecar_text es) = Inr m \<and>
    report_passed (verify_records sha ed (Some (ed_public ed sk)) (Some m) (map (sif_record_of sha) rs))"
proof -
  let ?xs = "map entry_of_line es"
  define m where "m = fold (\<lambda>(k, v). AList.update k v) ?xs []"
  have l: "map fst es = map rec_lsn rs" "consecutive 1 (map rec_lsn rs)" using trail_lsns [OF t] len by simp_all
  have keys: "map fst ?xs = map rec_lsn rs" by (simp add: entry_of_line_def case_prod_unfold comp_def flip: l(1))
  have d: "distinct (map fst ?xs)" unfolding keys using consecutive_distinct [OF l(2)] .
  have "\<forall>(n, c, s) \<in> set es. map_of m n = Some \<lparr>sc_content_hash = c, sc_signature = s\<rparr>"
  proof clarify
    fix n c s assume "(n, c, s) \<in> set es"
    then have "(n, \<lparr>sc_content_hash = c, sc_signature = s\<rparr>) \<in> set ?xs" by (force simp: entry_of_line_def)
    then have "map_of ?xs n = Some \<lparr>sc_content_hash = c, sc_signature = s\<rparr>" using d by simp
    then show "map_of m n = Some \<lparr>sc_content_hash = c, sc_signature = s\<rparr>" by (simp add: m_def map_of_updates [OF d])
  qed
  with trail_chain_signed [OF ed _ t] sha have c: "chain_signed sha ed (ed_public ed sk) m GENESIS_HASH 0 rs" by simp
  have "fst ` set m \<subseteq> rec_lsn ` set rs"
    unfolding m_def keys_updates using arg_cong [OF keys, of set] by (simp add: image_comp comp_def)
  from signed_log_passes [OF l(2) c this]
  show ?thesis using read_sidecar_written [OF trail_lines_ok [OF ed _ t]] sha by (simp add: m_def)
qed

section \<open>Records in hand\<close>

lemma audit_one_record:
  assumes "audit_one sha ed env r st = (ok, r', st')" and "\<forall>x. length (sha x) = 32" and "rec_wf r"
  shows "rec_wf r' \<and> rec_pool_index r' = rec_pool_index r"
proof -
  define same where "same x \<longleftrightarrow> rec_wf x \<and> rec_pool_index x = rec_pool_index r" for x :: log_record
  have hash: "same (compute_content_hash sha (x\<lparr>rec_lsn := n\<rparr>))" if "same x" for x n
    using assms(2) that
    by (simp add: same_def rec_wf_def rec_slots_def compute_content_hash_def compute_content_hash_from_def)
  have sign: "same (fst (snd (sign_record sha ed e x p)))" if "same x" for e x p
    using hash [OF that] by (simp add: sign_record_def Let_def)
  have r: "same r" "same (mark_audit b r)" for b
    using assms(3) by (simp_all add: same_def rec_wf_def rec_slots_def mark_audit_def Let_def)
  note hashed = hash [OF r(2)] and signs = sign [OF hash [OF r(2)]]
  have "same (fst (snd (process_audit_record sha ed env r st)))"
  proof (cases "au_signed st")
    case True
    obtain s x e' where s: "sign_record sha ed (au_engine st) (compute_content_hash sha ((mark_audit True r)\<lparr>rec_lsn := au_prev_lsn st + 1\<rparr>))
        (sha (au_prev_hash st @ le64 (au_prev_lsn st))) = (s, x, e')"
      using prod_cases3 by blast
    with signs have "same x" by (metis fst_conv snd_conv)
    with True s r show ?thesis by (auto simp: process_audit_record_def Let_def split: sum.splits prod.splits)
  next
    case False
    with r hashed show ?thesis by (auto simp: process_audit_record_def Let_def split: sum.splits prod.splits)
  qed
  then have "same r'" using assms(1) r(1)
    by (auto simp: audit_one_def split: if_splits sum.splits prod.splits)
  then show ?thesis by (simp add: same_def)
qed

lemma audit_drain_ok:
  assumes "engine_ok_with ns e" and "\<forall>x. length (sha x) = 32"
  shows "\<exists>e'. audit_items_drain sha ed env ns (e, st) =
      Some (e', snd (audit_all sha ed (map (\<lambda>i. (env i, op_record (en_pool e) i)) ns) st)) \<and>
    engine_inv e' \<and> queues e' = queues e \<and> e' = e\<lparr>en_pool := en_pool e'\<rparr>"
  using assms(1)
proof (induction ns arbitrary: e st)
  case (Cons i ns)
  let ?r = "op_record (en_pool e) i"
  obtain ok r' st1 where one: "audit_one sha ed (env i) ?r st = (ok, r', st1)" using prod_cases3 by blast
  have "pool_holds (en_pool e) (i # ns @ en_ring e @ audit_items e)" using Cons.prems by (simp add: engine_ok_with_def)
  then have "rec_wf ?r" by (auto simp: pool_holds_def pool_inv_def pool_inv_with_def)
  from audit_one_record [OF one assms(2) this] have r': "rec_wf r'" "rec_pool_index r' = rec_pool_index ?r" by auto
  from engine_ok_free [OF engine_ok_put [OF Cons.prems r']] obtain p where
    p: "pool_free (put_record i r' (en_pool e)) i = Some p" "engine_ok_with ns (e\<lparr>en_pool := p\<rparr>)"
      "\<forall>j. j \<noteq> i \<longrightarrow> op_record p j = op_record (put_record i r' (en_pool e)) j" by auto
  have "i \<notin> set ns" using engine_ok_fresh Cons.prems by blast
  with p(3) have recs: "map (\<lambda>i. (env i, op_record p i)) ns = map (\<lambda>i. (env i, op_record (en_pool e) i)) ns"
    by (auto simp: put_record_def)
  from Cons.IH [OF p(2), of st1] obtain e' where
    e': "audit_items_drain sha ed env ns (e\<lparr>en_pool := p\<rparr>, st1) =
        Some (e', snd (audit_all sha ed (map (\<lambda>i. (env i, op_record p i)) ns) st1))"
      "engine_inv e'" "queues e' = queues e" "e' = e\<lparr>en_pool := en_pool e'\<rparr>"
    by (auto simp: queues_def)
  then show ?case using one p(1) recs by (auto simp: case_prod_unfold)
qed simp

lemma take_audit:
  assumes "engine_inv e" and "en_audit e = Some q"
  shows "engine_ok_with (take n (aq_queue q)) (e\<lparr>en_audit := Some (q\<lparr>aq_queue := drop n (aq_queue q)\<rparr>)\<rparr>)"
    and "\<forall>i \<in> set (take n (aq_queue q)). rec_level (op_record (en_pool e) i) = Audit"
proof -
  let ?b = "take n (aq_queue q)" and ?d = "drop n (aq_queue q)"
  have h: "pool_holds (en_pool e) (en_ring e @ aq_queue q)" using assms by (simp add: engine_ok_with_def audit_items_def)
  have "mset (aq_queue q) = mset ?b + mset ?d" by (metis append_take_drop_id mset_append)
  then have "mset (en_ring e @ aq_queue q) = mset (?b @ en_ring e @ ?d)" by simp
  from pool_holds_perm [OF this] h have "pool_holds (en_pool e) (?b @ en_ring e @ ?d)" by simp
  then show "engine_ok_with ?b (e\<lparr>en_audit := Some (q\<lparr>aq_queue := ?d\<rparr>)\<rparr>)"
    using assms by (auto simp: engine_ok_with_def audit_items_def dest: in_set_dropD)
  show "\<forall>i \<in> set ?b. rec_level (op_record (en_pool e) i) = Audit"
    using assms by (auto simp: engine_ok_with_def audit_items_def dest: in_set_takeD)
qed

section \<open>Properties\<close>

text \<open>What the files hold for the records persisted so far.\<close>

definition persisted ::
  "(bytes \<Rightarrow> bytes) \<Rightarrow> ('sk, 'vk) ed25519 \<Rightarrow> 'sk \<Rightarrow> log_record list \<Rightarrow> ('sk, 'vk) audit_state \<Rightarrow> bool" where
  "persisted sha ed sk rs st \<longleftrightarrow>
     audit_ok sha st \<and> se_signing_key (au_engine st) = sk \<and>
     trail_end GENESIS_HASH 0 rs = (au_prev_hash st, au_prev_lsn st) \<and>
     (\<exists>es. trail sha ed sk GENESIS_HASH 0 rs es \<and> sidecar_content st = sidecar_text es \<and>
        worm_content (au_worm st) =
          concat (map2 (\<lambda>r (n, c, s). canonical_audit_envelope r (Some s) (console_format_record r)) rs es) \<and>
        security_content (au_security st) = concat (map format_security_record rs))"

lemma persisted_more:
  assumes p: "persisted sha ed sk rs st" and lvl: "\<forall>(env, r) \<in> set xs. rec_level r = Audit"
    and len: "length rs + length xs < 2 ^ 64" and run: "audit_all sha ed xs st = (new, st')"
  shows "persisted sha ed sk (rs @ new) st' \<and> list_all2 persisted_as (map snd xs) new"
proof -
  obtain es where es: "audit_ok sha st" "se_signing_key (au_engine st) = sk"
    "trail_end GENESIS_HASH 0 rs = (au_prev_hash st, au_prev_lsn st)" "trail sha ed sk GENESIS_HASH 0 rs es"
    "sidecar_content st = sidecar_text es"
    "worm_content (au_worm st) =
       concat (map2 (\<lambda>r (n, c, s). canonical_audit_envelope r (Some s) (console_format_record r)) rs es)"
    "security_content (au_security st) = concat (map format_security_record rs)"
    using p by (auto simp: persisted_def)
  have "unat (au_prev_lsn st) = length rs"
  proof (cases rs rule: rev_cases)
    case (snoc rs' r)
    have "consecutive 1 (map rec_lsn rs)" using trail_lsns [OF es(4)] len by simp
    then have "map rec_lsn rs = map of_nat [1..<1 + length rs]" "1 + length rs \<le> 2 ^ 64" by (auto simp: consecutive_def)
    then have "last (map rec_lsn rs) = of_nat (length rs)" by (simp add: snoc)
    moreover have "last (map rec_lsn rs) = au_prev_lsn st" using es(3) by (simp add: snoc trail_end_def)
    ultimately have "au_prev_lsn st = of_nat (length rs)" by simp
    then show ?thesis using len by (simp add: unat_of_nat take_bit_nat_eq_self)
  qed (use es(3) in \<open>simp add: trail_end_def\<close>)
  with len have "unat (au_prev_lsn st) + length xs < 2 ^ 64" by simp
  from audit_all_ok [OF es(1) lvl this run] obtain fs where
    fs: "audit_ok sha st'" "list_all2 persisted_as (map snd xs) new"
      "trail sha ed sk (au_prev_hash st) (au_prev_lsn st) new fs"
      "sidecar_content st' = sidecar_content st @ sidecar_text fs"
      "worm_content (au_worm st') = worm_content (au_worm st) @
         concat (map2 (\<lambda>r (n, c, s). canonical_audit_envelope r (Some s) (console_format_record r)) new fs)"
      "security_content (au_security st') = security_content (au_security st) @
         concat (map format_security_record new)"
      "se_signing_key (au_engine st') = sk" "trail_end (au_prev_hash st) (au_prev_lsn st) new = (au_prev_hash st', au_prev_lsn st')"
    unfolding es(2) by blast
  have "trail sha ed sk GENESIS_HASH 0 (rs @ new) (es @ fs)" by (rule trail_append [OF es(4,3) fs(3)])
  moreover have "length es = length rs" using trail_length [OF es(4)] .
  ultimately show ?thesis
    using fs es(5-7) trail_end_append [OF es(3), of new]
    by (auto simp: persisted_def sidecar_text_def intro!: exI [of _ "es @ fs"])
qed


text \<open>One audit record, queued behind a pipeline that has just been set up.\<close>

definition demo_audit :: "(unit, unit) audit_state" where
  "demo_audit =
     \<lparr>au_worm = snd (worm_open (worm_new worm_config_default demo_device)),
      au_security = snd (security_open (security_new security_config_default demo_device)),
      au_sidecar = Some (\<lparr>bw_capacity = 8, bw_buffer = []\<rparr>, demo_device),
      au_engine = se_new demo_ed (), au_prev_hash = GENESIS_HASH, au_prev_lsn = 0,
      au_anchor = Some (anchor_new 0 60), au_signed = True, au_failed = False, au_message = None,
      au_shutdown = False\<rparr>"

definition demo_audit_engine :: "(unit, unit, unit) engine" where
  "demo_audit_engine = demo_engine\<lparr>en_ring := [],
     en_pool := put_record 0 demo_record (en_pool demo_engine),
     en_audit := Some \<lparr>aq_capacity = 2, aq_queue = [0], aq_closed = False\<rparr>\<rparr>"

lemma demo_audit_ok: "persisted sha demo_ed () [] demo_audit"
  by (auto simp: persisted_def audit_ok_def demo_audit_def worm_sound_def worm_open_def worm_open_writer_def
      worm_new_def worm_config_default_def demo_device_def security_open_def security_open_writer_def
      security_new_def security_sound_def security_content_def sidecar_content_def sidecar_text_def
      worm_content_def bw_content_def trail_end_def se_new_def intro!: exI [of _ "[]"])

lemma demo_audit_engine_ok: "engine_inv demo_audit_engine"
proof -
  have h: "pool_holds (en_pool demo_engine) [0]" "context_ok (en_cx demo_engine)"
      "cx_last_signature (en_cx demo_engine) = None"
    using demo_engine_ok by (simp_all add: engine_ok_with_def audit_items_def demo_engine_def)
  have "op_record (en_pool demo_engine) 0 = rec_new 0"
    by (simp add: demo_engine_def pool_alloc_def pool_new_def)
  then have "pool_holds (put_record 0 demo_record (en_pool demo_engine)) [0]"
    using pool_holds_put [OF h(1) _ demo_ok(1), of 0] by (simp add: demo_record_def)
  then show ?thesis using h(2,3)
    by (simp add: engine_ok_with_def audit_items_def demo_audit_engine_def put_record_def demo_record_def)
qed


end
