(* ===== verification/Sif_Stream.thy ===== *)
theory Sif_Stream
  imports Sif_Correct
begin

text \<open>
  The reusable encoder and the incremental stream decoder of core/src/sif/codec.rs. When
  the scanner drops consumed bytes depends on the capacity of its buffer, which the
  allocator chooses: it is the argument \<open>cap\<close> of the operations that compact. \<open>unread\<close> is
  the scanner's abstract state, the bytes fed and not yet yielded.
\<close>

section \<open>Reusable encoder\<close>

record reusable_encoder =
  re_buffer :: bytes
  re_max_frame_size :: nat

definition budget_ok :: "nat \<Rightarrow> bool" where
  "budget_ok n \<longleftrightarrow> SIF_HEADER_LEN + SIF_FIXED_LEN \<le> n \<and> n \<le> MAX_FRAME_SIZE"

definition reusable_encoder_new :: "nat \<Rightarrow> sif_error + reusable_encoder" where
  "reusable_encoder_new max_frame_size =
     (if \<not> budget_ok max_frame_size then
        Inl (LengthExceeded ''encoder budget'' max_frame_size MAX_FRAME_SIZE)
      else Inr \<lparr>re_buffer = [], re_max_frame_size = max_frame_size\<rparr>)"

definition reusable_encode ::
  "vendor_state \<Rightarrow> reusable_encoder \<Rightarrow> log_record \<Rightarrow> (sif_error + bytes) \<times> reusable_encoder" where
  "reusable_encode vs enc r =
     (case encode_record vs r of
        Inl e \<Rightarrow> (Inl e, enc)
      | Inr encoded \<Rightarrow>
          if re_max_frame_size enc < length encoded then
            (Inl (LengthExceeded ''frame'' (length encoded) (re_max_frame_size enc)), enc)
          else (Inr encoded, enc\<lparr>re_buffer := encoded\<rparr>))"

definition reusable_as_bytes :: "reusable_encoder \<Rightarrow> bytes" where
  "reusable_as_bytes enc = re_buffer enc"

definition reusable_clear :: "reusable_encoder \<Rightarrow> reusable_encoder" where
  "reusable_clear enc = enc\<lparr>re_buffer := []\<rparr>"

section \<open>Frame scanner\<close>

record frame_scanner =
  fs_buffer :: bytes
  fs_cursor :: nat
  fs_max_frame_size :: nat
  fs_frames_seen :: u64
  fs_bytes_seen :: u64

definition scanner_new :: "nat \<Rightarrow> sif_error + frame_scanner" where
  "scanner_new max_frame_size =
     (if \<not> budget_ok max_frame_size then
        Inl (LengthExceeded ''scanner budget'' max_frame_size MAX_FRAME_SIZE)
      else Inr \<lparr>fs_buffer = [], fs_cursor = 0, fs_max_frame_size = max_frame_size,
                fs_frames_seen = 0, fs_bytes_seen = 0\<rparr>)"

definition scanner_compact :: "nat \<Rightarrow> frame_scanner \<Rightarrow> frame_scanner" where
  "scanner_compact cap s =
     (if fs_cursor s = 0 then s
      else if fs_cursor s = length (fs_buffer s) then s\<lparr>fs_buffer := [], fs_cursor := 0\<rparr>
      else if cap div 2 < fs_cursor s then
        s\<lparr>fs_buffer := drop (fs_cursor s) (fs_buffer s), fs_cursor := 0\<rparr>
      else s)"

definition scanner_feed :: "nat \<Rightarrow> frame_scanner \<Rightarrow> bytes \<Rightarrow> (sif_error + unit) \<times> frame_scanner" where
  "scanner_feed cap s chunk =
     (if 2 ^ 64 - 1 - unat (fs_bytes_seen s) < length chunk then
        (Inl (EncodeOverflow ''stream bytes''), s)
      else
        let buffered = length (fs_buffer s) - fs_cursor s in
        if fs_max_frame_size s + 4 < buffered + length chunk then
          (Inl (LengthExceeded ''stream buffer'' (buffered + length chunk) (fs_max_frame_size s + 4)), s)
        else
          let s1 = scanner_compact cap s in
          (Inr (), s1\<lparr>fs_buffer := fs_buffer s1 @ chunk,
                      fs_bytes_seen := sat_add64 (fs_bytes_seen s1) (of_nat (length chunk))\<rparr>))"

definition scanner_next_frame ::
  "nat \<Rightarrow> frame_scanner \<Rightarrow> (sif_error + bytes option) \<times> frame_scanner" where
  "scanner_next_frame cap s =
     (if length (fs_buffer s) - fs_cursor s < 4 then (Inr None, s)
      else
        let len = unat (u32_of (take 4 (drop (fs_cursor s) (fs_buffer s)))) in
        if len < SIF_HEADER_LEN + SIF_FIXED_LEN \<or> fs_max_frame_size s < len then
          (Inl (LengthExceeded ''stream frame'' len (fs_max_frame_size s)), s)
        else
          case Option.bind (checked_add_usize (fs_cursor s) 4) (\<lambda>start. checked_add_usize start len) of
            None \<Rightarrow> (Inl (LengthMismatch len (length (fs_buffer s))), s)
          | Some frame_end \<Rightarrow>
              if length (fs_buffer s) < frame_end then (Inr None, s)
              else
                let frame = take len (drop (fs_cursor s + 4) (fs_buffer s)) in
                case validate_frame_with frame decode_options_default of
                  Inl e \<Rightarrow> (Inl e, s)
                | Inr _ \<Rightarrow>
                    (Inr (Some frame),
                     scanner_compact cap
                       (s\<lparr>fs_cursor := frame_end, fs_frames_seen := sat_add64 (fs_frames_seen s) 1\<rparr>)))"

definition scanner_next_record ::
  "(bytes \<Rightarrow> bytes) \<Rightarrow> vendor_state \<Rightarrow> nat \<Rightarrow> frame_scanner \<Rightarrow> decode_options \<Rightarrow>
     (sif_error + log_record option) \<times> vendor_state \<times> frame_scanner" where
  "scanner_next_record sha vs cap s options =
     (case scanner_next_frame cap s of
        (Inl e, s') \<Rightarrow> (Inl e, vs, s')
      | (Inr None, s') \<Rightarrow> (Inr None, vs, s')
      | (Inr (Some frame), s') \<Rightarrow>
          (case decode_record_with sha vs frame options of
             (Inl e, vs') \<Rightarrow> (Inl e, vs', s')
           | (Inr r, vs') \<Rightarrow> (Inr (Some r), vs', s')))"

definition scanner_stats :: "frame_scanner \<Rightarrow> u64 \<times> u64 \<times> nat" where
  "scanner_stats s = (fs_frames_seen s, fs_bytes_seen s, length (fs_buffer s) - fs_cursor s)"

definition scanner_reset :: "frame_scanner \<Rightarrow> frame_scanner" where
  "scanner_reset s = s\<lparr>fs_buffer := [], fs_cursor := 0, fs_frames_seen := 0, fs_bytes_seen := 0\<rparr>"

definition encode_length_prefixed :: "vendor_state \<Rightarrow> log_record \<Rightarrow> sif_error + bytes" where
  "encode_length_prefixed vs r =
     r_bind (encode_record vs r) (\<lambda>frame.
     r_bind (r_check (2 ^ 32 \<le> length frame) (EncodeOverflow ''stream frame'')) (\<lambda>_.
     Inr (to_le 4 (length frame) @ frame)))"

section \<open>The abstract stream\<close>

definition unread :: "frame_scanner \<Rightarrow> bytes" where
  "unread s = drop (fs_cursor s) (fs_buffer s)"

definition scanner_wf :: "frame_scanner \<Rightarrow> bool" where
  "scanner_wf s \<longleftrightarrow>
     fs_cursor s \<le> length (fs_buffer s) \<and> fs_cursor s < 2 ^ 63 \<and> budget_ok (fs_max_frame_size s)"

lemma length_unread: "length (unread s) = length (fs_buffer s) - fs_cursor s"
  by (simp add: unread_def)

lemma compact_unread [simp]: "unread (scanner_compact cap s) = unread s"
  by (auto simp: scanner_compact_def unread_def)

text \<open>A vector's capacity never exceeds \<open>isize::MAX\<close>, so a compacted cursor stays small.\<close>

lemma compact_wf:
  "fs_cursor s \<le> length (fs_buffer s) \<Longrightarrow> budget_ok (fs_max_frame_size s) \<Longrightarrow> cap < 2 ^ 63 \<Longrightarrow>
     scanner_wf (scanner_compact cap s)"
  by (auto simp: scanner_compact_def scanner_wf_def)

lemma compact_fields [simp]:
  "fs_max_frame_size (scanner_compact cap s) = fs_max_frame_size s"
  "fs_bytes_seen (scanner_compact cap s) = fs_bytes_seen s"
  "fs_frames_seen (scanner_compact cap s) = fs_frames_seen s"
  by (simp_all add: scanner_compact_def)

lemma next_frame_unread:
  assumes "scanner_wf s" and "4 \<le> length (unread s)" and cap: "cap < 2 ^ 63"
  defines "len \<equiv> unat (u32_of (take 4 (unread s)))"
  assumes "122 \<le> len" "len \<le> fs_max_frame_size s" "4 + len \<le> length (unread s)"
    and "validate_frame_with (take len (drop 4 (unread s))) decode_options_default = Inr h"
  shows "\<exists>s'. scanner_next_frame cap s = (Inr (Some (take len (drop 4 (unread s)))), s') \<and>
    unread s' = drop (4 + len) (unread s) \<and> scanner_wf s' \<and>
    fs_max_frame_size s' = fs_max_frame_size s"
proof -
  let ?c = "fs_cursor s" and ?b = "fs_buffer s"
  have c: "?c \<le> length ?b" "?c < 2 ^ 63" "len \<le> 16777216"
    using assms(1,6) by (simp_all add: scanner_wf_def budget_ok_def sif_maxima)
  have l: "?c + 4 + len \<le> length ?b" "4 \<le> length ?b - ?c"
    using assms(2,7) c(1) unfolding length_unread by simp_all
  have "Option.bind (checked_add_usize ?c 4) (\<lambda>start. checked_add_usize start len) = Some (?c + 4 + len)"
    using l c(2,3) by (simp add: checked_add_usize_def)
  moreover have "take len (drop (?c + 4) ?b) = take len (drop 4 (unread s))"
    by (simp add: unread_def add.commute)
  moreover have "unat (u32_of (take 4 (drop ?c ?b))) = len" by (simp add: len_def unread_def)
  moreover have "\<not> (len < SIF_HEADER_LEN + SIF_FIXED_LEN \<or> fs_max_frame_size s < len)"
    using assms(5,6) by (simp add: sif_lens)
  moreover have "\<not> length ?b < ?c + 4 + len" "\<not> length ?b - ?c < 4" using l by simp_all
  ultimately have "scanner_next_frame cap s =
      (Inr (Some (take len (drop 4 (unread s)))),
       scanner_compact cap (s\<lparr>fs_cursor := ?c + 4 + len, fs_frames_seen := sat_add64 (fs_frames_seen s) 1\<rparr>))"
    using assms(8) by (simp add: scanner_next_frame_def Let_def)
  moreover have "scanner_wf (scanner_compact cap (s\<lparr>fs_cursor := ?c + 4 + len, fs_frames_seen := f\<rparr>))" for f
    using assms(1) l(1) cap by (intro compact_wf) (simp_all add: scanner_wf_def)
  moreover have "unread (s\<lparr>fs_cursor := ?c + 4 + len, fs_frames_seen := f\<rparr>) = drop (4 + len) (unread s)" for f
    by (simp add: unread_def add.commute add.left_commute)
  ultimately show ?thesis by auto
qed

section \<open>Properties\<close>



end
