(* ===== verification/Ring_Buffer.thy ===== *)
theory Ring_Buffer
  imports Machine Complex_Main
begin

text \<open>
  The lock-free ring buffer (core/src/buffer/ring_buffer.rs) as a machine whose steps are
  the atomic accesses of \<open>try_push\<close>, \<open>drain\<close> and \<open>drain_helping\<close>, for any number of threads
  (thread ids are naturals) in any interleaving. Memory is sequentially consistent;
  sequence counters are naturals, which agree with the source's \<open>u64\<close> below 2^64
  operations. \<open>rb_items\<close> and \<open>rb_out\<close> record what was claimed and what was delivered; no
  step reads them.
\<close>

section \<open>State\<close>

text \<open>
  Where a thread is. A drain carries whether it helps (\<open>drain_helping\<close>) and how many more
  items it may take.
\<close>

datatype 'a rb_pc =
    Idle
  | PushErr 'a
  | PushStart 'a
  | PushGotC 'a nat
  | PushGotP 'a nat nat
  | PushClaimed 'a nat
  | PushReady 'a nat
  | PushWritten nat
  | DrStart bool nat
  | DrGotC bool nat nat
  | DrWait bool nat nat
  | DrRecheck bool nat nat
  | DrSeen bool nat nat
  | DrClaimed bool nat nat
  | DrTaken bool nat nat

record 'a ring_buffer =
  rb_capacity :: nat
  rb_sequence :: "nat \<Rightarrow> nat"
  rb_data :: "nat \<Rightarrow> 'a option"
  rb_producer :: nat
  rb_consumer :: nat
  rb_pcs :: "nat \<Rightarrow> 'a rb_pc"
  rb_items :: "nat \<Rightarrow> 'a option"
  rb_out :: "(nat \<times> 'a) list"

text \<open>\<open>new\<close> asserts a positive power of two.\<close>

fun is_power_of_two :: "nat \<Rightarrow> bool" where
  "is_power_of_two n =
     (if n = 0 then False else if n = 1 then True else even n \<and> is_power_of_two (n div 2))"

declare is_power_of_two.simps [simp del]

definition rb_init :: "nat \<Rightarrow> 'a ring_buffer" where
  "rb_init capacity =
     \<lparr>rb_capacity = capacity, rb_sequence = (\<lambda>i. i), rb_data = (\<lambda>_. None), rb_producer = 0,
      rb_consumer = 0, rb_pcs = (\<lambda>_. Idle), rb_items = (\<lambda>_. None), rb_out = []\<rparr>"

definition rb_new :: "nat \<Rightarrow> 'a ring_buffer option" where
  "rb_new capacity =
     (if capacity = 0 \<or> \<not> is_power_of_two capacity then None else Some (rb_init capacity))"

text \<open>\<open>seq & mask\<close>: the mask is the capacity minus one, the capacity a power of two.\<close>

definition rb_index :: "'a ring_buffer \<Rightarrow> nat \<Rightarrow> nat" where
  "rb_index s n = n mod rb_capacity s"

definition rb_len :: "'a ring_buffer \<Rightarrow> nat" where
  "rb_len s = rb_producer s - rb_consumer s"

definition rb_is_empty :: "'a ring_buffer \<Rightarrow> bool" where
  "rb_is_empty s \<longleftrightarrow> rb_len s = 0"

definition rb_fill_level :: "'a ring_buffer \<Rightarrow> rat" where
  "rb_fill_level s = of_nat (rb_len s) / of_nat (rb_capacity s)"

section \<open>Steps\<close>

text \<open>
  A thread starts an operation, takes its next atomic step, or suffers the spurious failure
  \<open>compare_exchange_weak\<close> allows.
\<close>

datatype 'a rb_act = StartPush 'a | StartDrain bool nat | Go | CasFails

definition set_pc :: "nat \<Rightarrow> 'a rb_pc \<Rightarrow> 'a ring_buffer \<Rightarrow> 'a ring_buffer" where
  "set_pc t p s = s\<lparr>rb_pcs := (rb_pcs s)(t := p)\<rparr>"

fun rb_idle :: "'a rb_pc \<Rightarrow> bool" where
  "rb_idle Idle = True"
| "rb_idle (PushErr x) = True"
| "rb_idle _ = False"

text \<open>\<open>try_push\<close>, one atomic access at a time.\<close>

fun rb_push_step :: "'a ring_buffer \<Rightarrow> nat \<Rightarrow> 'a rb_pc \<Rightarrow> 'a ring_buffer option" where
  "rb_push_step s t (PushStart x) = Some (set_pc t (PushGotC x (rb_consumer s)) s)"
| "rb_push_step s t (PushGotC x c) = Some (set_pc t (PushGotP x c (rb_producer s)) s)"
| "rb_push_step s t (PushGotP x c p) =
     (if rb_capacity s \<le> p - c then Some (set_pc t (PushErr x) s)
      else if rb_producer s = p then
        Some (set_pc t (PushClaimed x p)
          (s\<lparr>rb_producer := p + 1, rb_items := (rb_items s)(p := Some x)\<rparr>))
      else Some (set_pc t (PushStart x) s))"
| "rb_push_step s t (PushClaimed x p) =
     Some (if rb_sequence s (rb_index s p) = p then set_pc t (PushReady x p) s else s)"
| "rb_push_step s t (PushReady x p) =
     Some (set_pc t (PushWritten p) (s\<lparr>rb_data := (rb_data s)(rb_index s p := Some x)\<rparr>))"
| "rb_push_step s t (PushWritten p) =
     Some (set_pc t Idle (s\<lparr>rb_sequence := (rb_sequence s)(rb_index s p := p + 1)\<rparr>))"
| "rb_push_step s t _ = None"

text \<open>\<open>drain\<close> and \<open>drain_helping\<close>; a helper gives up where the consumer waits or retries.\<close>

fun rb_drain_step :: "'a ring_buffer \<Rightarrow> nat \<Rightarrow> 'a rb_pc \<Rightarrow> 'a ring_buffer option" where
  "rb_drain_step s t (DrStart h k) =
     Some (if k = 0 then set_pc t Idle s else set_pc t (DrGotC h k (rb_consumer s)) s)"
| "rb_drain_step s t (DrGotC h k c) =
     Some (if rb_producer s \<le> c then set_pc t Idle s else set_pc t (DrWait h k c) s)"
| "rb_drain_step s t (DrWait h k c) =
     Some (if rb_sequence s (rb_index s c) = c + 1 then set_pc t (DrSeen h k c) s
           else if h then set_pc t Idle s
           else set_pc t (DrRecheck h k c) s)"
| "rb_drain_step s t (DrRecheck h k c) =
     Some (if rb_consumer s \<noteq> c then set_pc t (DrStart h k) s else set_pc t (DrWait h k c) s)"
| "rb_drain_step s t (DrSeen h k c) =
     Some (if rb_consumer s = c then set_pc t (DrClaimed h k c) (s\<lparr>rb_consumer := c + 1\<rparr>)
           else set_pc t (if h then Idle else DrStart h k) s)"
| "rb_drain_step s t (DrClaimed h k c) =
     (let i = rb_index s c; item = rb_data s i; s1 = s\<lparr>rb_data := (rb_data s)(i := None)\<rparr> in
      Some (case item of
              Some x \<Rightarrow> set_pc t (DrTaken h (k - 1) c) (s1\<lparr>rb_out := rb_out s @ [(c, x)]\<rparr>)
            | None \<Rightarrow> set_pc t (DrTaken h k c) s1))"
| "rb_drain_step s t (DrTaken h k c) =
     Some (set_pc t (DrStart h k)
       (s\<lparr>rb_sequence := (rb_sequence s)(rb_index s c := c + rb_capacity s)\<rparr>))"
| "rb_drain_step s t _ = None"

fun rb_spurious :: "'a rb_pc \<Rightarrow> 'a rb_pc option" where
  "rb_spurious (PushGotP x c p) = Some (PushStart x)"
| "rb_spurious (DrSeen h k c) = Some (if h then Idle else DrStart h k)"
| "rb_spurious _ = None"

definition rb_step :: "'a ring_buffer \<Rightarrow> nat \<times> 'a rb_act \<Rightarrow> 'a ring_buffer option" where
  "rb_step s a =
     (case a of
        (t, StartPush x) \<Rightarrow> if rb_idle (rb_pcs s t) then Some (set_pc t (PushStart x) s) else None
      | (t, StartDrain h k) \<Rightarrow> if rb_idle (rb_pcs s t) then Some (set_pc t (DrStart h k) s) else None
      | (t, CasFails) \<Rightarrow> map_option (\<lambda>p. set_pc t p s) (rb_spurious (rb_pcs s t))
      | (t, Go) \<Rightarrow>
          (case rb_push_step s t (rb_pcs s t) of
             Some s' \<Rightarrow> Some s'
           | None \<Rightarrow> rb_drain_step s t (rb_pcs s t)))"

section \<open>Invariant\<close>

text \<open>The sequence number a thread holds as producer, and as consumer.\<close>

fun holds_push :: "'a rb_pc \<Rightarrow> nat option" where
  "holds_push (PushClaimed x p) = Some p"
| "holds_push (PushReady x p) = Some p"
| "holds_push (PushWritten p) = Some p"
| "holds_push _ = None"

fun holds_take :: "'a rb_pc \<Rightarrow> nat option" where
  "holds_take (DrClaimed h k c) = Some c"
| "holds_take (DrTaken h k c) = Some c"
| "holds_take _ = None"

fun claims :: "'a rb_pc \<Rightarrow> nat option" where
  "claims (DrClaimed h k c) = Some c"
| "claims _ = None"

fun written :: "'a rb_pc \<Rightarrow> nat option" where
  "written (PushWritten p) = Some p"
| "written _ = None"

text \<open>What each thread may rely on.\<close>

fun pc_ok :: "'a ring_buffer \<Rightarrow> 'a rb_pc \<Rightarrow> bool" where
  "pc_ok s (PushGotC x c) = (c \<le> rb_consumer s)"
| "pc_ok s (PushGotP x c p) = (c \<le> rb_consumer s \<and> c \<le> p \<and> p \<le> rb_producer s)"
| "pc_ok s (PushClaimed x p) =
     (p < rb_producer s \<and> rb_consumer s \<le> p \<and> rb_items s p = Some x \<and> rb_sequence s (rb_index s p) \<le> p)"
| "pc_ok s (PushReady x p) =
     (p < rb_producer s \<and> rb_consumer s \<le> p \<and> rb_items s p = Some x \<and> rb_sequence s (rb_index s p) = p \<and>
      rb_data s (rb_index s p) = None)"
| "pc_ok s (PushWritten p) =
     (p < rb_producer s \<and> rb_consumer s \<le> p \<and> rb_sequence s (rb_index s p) = p \<and>
      rb_data s (rb_index s p) = rb_items s p)"
| "pc_ok s (DrGotC h k c) = (c \<le> rb_consumer s)"
| "pc_ok s (DrWait h k c) = (c \<le> rb_consumer s)"
| "pc_ok s (DrRecheck h k c) = (c \<le> rb_consumer s)"
| "pc_ok s (DrSeen h k c) =
     (c \<le> rb_consumer s \<and> (rb_consumer s = c \<longrightarrow> rb_sequence s (rb_index s c) = c + 1))"
| "pc_ok s (DrClaimed h k c) =
     (c < rb_consumer s \<and> rb_sequence s (rb_index s c) = c + 1 \<and> rb_data s (rb_index s c) = rb_items s c)"
| "pc_ok s (DrTaken h k c) =
     (c < rb_consumer s \<and> rb_sequence s (rb_index s c) = c + 1 \<and> rb_data s (rb_index s c) = None)"
| "pc_ok s _ = True"

text \<open>
  The shared part: bounds of the counters, what a published slot holds, that an unpublished
  slot nobody is writing is empty, and the delivery log.
\<close>

definition rb_shared_ok :: "'a ring_buffer \<Rightarrow> bool" where
  "rb_shared_ok s \<longleftrightarrow>
     2 \<le> rb_capacity s \<and> rb_consumer s \<le> rb_producer s \<and>
     rb_producer s \<le> rb_consumer s + rb_capacity s \<and>
     (\<forall>n. rb_items s n \<noteq> None \<longleftrightarrow> n < rb_producer s) \<and>
     (\<forall>n. rb_producer s \<le> n \<longrightarrow> rb_sequence s (rb_index s n) \<le> n) \<and>
     (\<forall>n. rb_consumer s \<le> n \<and> rb_sequence s (rb_index s n) = n + 1 \<longrightarrow>
        n < rb_producer s \<and> rb_data s (rb_index s n) = rb_items s n)"

definition rb_empty_ok :: "'a ring_buffer \<Rightarrow> bool" where
  "rb_empty_ok s \<longleftrightarrow>
     (\<forall>n. rb_sequence s (rb_index s n) = n \<and> (\<forall>t. written (rb_pcs s t) \<noteq> Some n) \<longrightarrow>
        rb_data s (rb_index s n) = None)"

definition rb_holds_ok :: "'a ring_buffer \<Rightarrow> bool" where
  "rb_holds_ok s \<longleftrightarrow>
     (\<forall>t u n. holds_push (rb_pcs s t) = Some n \<and> holds_push (rb_pcs s u) = Some n \<longrightarrow> t = u) \<and>
     (\<forall>t u n. holds_take (rb_pcs s t) = Some n \<and> holds_take (rb_pcs s u) = Some n \<longrightarrow> t = u)"

definition rb_log_ok :: "'a ring_buffer \<Rightarrow> bool" where
  "rb_log_ok s \<longleftrightarrow>
     distinct (map fst (rb_out s)) \<and>
     (\<forall>p \<in> set (rb_out s). fst p < rb_consumer s \<and> rb_items s (fst p) = Some (snd p)) \<and>
     (\<forall>n < rb_consumer s. n \<in> fst ` set (rb_out s) \<longleftrightarrow> (\<forall>t. claims (rb_pcs s t) \<noteq> Some n))"

definition rb_inv :: "'a ring_buffer \<Rightarrow> bool" where
  "rb_inv s \<longleftrightarrow>
     rb_shared_ok s \<and> rb_empty_ok s \<and> rb_holds_ok s \<and> rb_log_ok s \<and> (\<forall>t. pc_ok s (rb_pcs s t))"

lemma set_pc_simps [simp]:
  "rb_capacity (set_pc t p s) = rb_capacity s" "rb_sequence (set_pc t p s) = rb_sequence s"
  "rb_data (set_pc t p s) = rb_data s" "rb_producer (set_pc t p s) = rb_producer s"
  "rb_consumer (set_pc t p s) = rb_consumer s" "rb_items (set_pc t p s) = rb_items s"
  "rb_out (set_pc t p s) = rb_out s" "rb_pcs (set_pc t p s) u = (if u = t then p else rb_pcs s u)"
  "rb_index (set_pc t p s) n = rb_index s n"
  by (simp_all add: set_pc_def rb_index_def)

lemma pc_ok_set_pc [simp]: "pc_ok (set_pc t p s) q = pc_ok s q"
  by (cases q) simp_all

lemma index_neq: "2 \<le> rb_capacity s \<Longrightarrow> rb_index s (n + 1) \<noteq> rb_index s n"
proof -
  assume "2 \<le> rb_capacity s"
  then have "n mod rb_capacity s \<noteq> Suc n mod rb_capacity s"
    by (simp add: mod_Suc)
  then show ?thesis by (simp add: rb_index_def)
qed

lemma index_add [simp]: "rb_index s (n + rb_capacity s) = rb_index s n"
  by (simp add: rb_index_def)

lemma index_upd [simp]:
  "rb_index (s\<lparr>rb_sequence := a\<rparr>) n = rb_index s n" "rb_index (s\<lparr>rb_data := b\<rparr>) n = rb_index s n"
  "rb_index (s\<lparr>rb_producer := c\<rparr>) n = rb_index s n" "rb_index (s\<lparr>rb_consumer := d\<rparr>) n = rb_index s n"
  "rb_index (s\<lparr>rb_items := e\<rparr>) n = rb_index s n" "rb_index (s\<lparr>rb_out := f\<rparr>) n = rb_index s n"
  by (simp_all add: rb_index_def)

text \<open>Moving one thread, as far as the four relations over threads are concerned.\<close>

lemma empty_ok_move:
  assumes "rb_empty_ok s" and "rb_pcs s' = (rb_pcs s)(t := p)" and "rb_capacity s' = rb_capacity s"
    and "written (rb_pcs s t) = None"
    and "\<And>n. rb_sequence s' (rb_index s n) = n \<Longrightarrow> written p \<noteq> Some n \<Longrightarrow>
      rb_data s' (rb_index s n) = None \<or>
      rb_sequence s (rb_index s n) = n \<and> rb_data s' (rb_index s n) = rb_data s (rb_index s n)"
  shows "rb_empty_ok s'"
  unfolding rb_empty_ok_def
proof (intro allI impI, elim conjE)
  fix n
  assume a: "rb_sequence s' (rb_index s' n) = n" "\<forall>u. written (rb_pcs s' u) \<noteq> Some n"
  have i: "rb_index s' n = rb_index s n" using assms(3) by (simp add: rb_index_def)
  have "written p \<noteq> Some n" using a(2) assms(2) by (metis fun_upd_same)
  moreover have "written (rb_pcs s u) \<noteq> Some n" for u
    using a(2) assms(2,4) by (metis fun_upd_other option.distinct(1))
  ultimately show "rb_data s' (rb_index s' n) = None"
    using assms(1,5) a(1) unfolding i rb_empty_ok_def by metis
qed

lemma holds_ok_move:
  assumes "rb_holds_ok s" and "rb_pcs s' = (rb_pcs s)(t := p)"
    and "\<And>u n. holds_push p = Some n \<Longrightarrow> u \<noteq> t \<Longrightarrow> holds_push (rb_pcs s u) \<noteq> Some n"
    and "\<And>u n. holds_take p = Some n \<Longrightarrow> u \<noteq> t \<Longrightarrow> holds_take (rb_pcs s u) \<noteq> Some n"
  shows "rb_holds_ok s'"
proof -
  have inj: "(\<forall>a b n. f (((rb_pcs s)(t := p)) a) = Some n \<and> f (((rb_pcs s)(t := p)) b) = Some n \<longrightarrow> a = b)"
    if old: "\<forall>a b n. f (rb_pcs s a) = Some n \<and> f (rb_pcs s b) = Some n \<longrightarrow> a = b"
      and new: "\<And>u n. f p = Some n \<Longrightarrow> u \<noteq> t \<Longrightarrow> f (rb_pcs s u) \<noteq> Some n"
    for f :: "'a rb_pc \<Rightarrow> nat option"
  proof (intro allI impI, elim conjE)
    fix a b n
    assume ab: "f (((rb_pcs s)(t := p)) a) = Some n" "f (((rb_pcs s)(t := p)) b) = Some n"
    consider "a = t" "b = t" | "a = t" "b \<noteq> t" | "a \<noteq> t" "b = t" | "a \<noteq> t" "b \<noteq> t" by blast
    then show "a = b"
    proof cases
      case 2
      with ab new [of n b] show ?thesis by simp
    next
      case 3
      with ab new [of n a] show ?thesis by simp
    next
      case 4
      with ab have "f (rb_pcs s a) = Some n \<and> f (rb_pcs s b) = Some n" by simp
      with old show ?thesis by blast
    qed simp
  qed
  show ?thesis
    using assms(1) inj [of holds_push] inj [of holds_take] assms(3,4)
    unfolding rb_holds_ok_def assms(2) by blast
qed

lemma log_ok_move:
  assumes "rb_log_ok s" and "rb_pcs s' = (rb_pcs s)(t := p)" and "claims p = claims (rb_pcs s t)"
    and "rb_out s' = rb_out s" "rb_consumer s' = rb_consumer s"
    and "\<And>n. n < rb_consumer s \<Longrightarrow> rb_items s' n = rb_items s n"
  shows "rb_log_ok s'"
proof -
  have "claims (rb_pcs s' u) = claims (rb_pcs s u)" for u
    using assms(2,3) by (cases "u = t") simp_all
  then show ?thesis
    using assms(1,4-6) unfolding rb_log_ok_def by simp
qed

lemma pcs_set_pc [simp]: "rb_pcs (set_pc t p s) = (rb_pcs s)(t := p)"
  by (simp add: set_pc_def)

text \<open>A step that only moves one thread, to a place that holds nothing more than before.\<close>

lemma rb_inv_move:
  assumes "rb_inv s" and "pc_ok s p" and "holds_push p = None \<or> holds_push p = holds_push (rb_pcs s t)"
    and "holds_take p = None \<or> holds_take p = holds_take (rb_pcs s t)" and "written (rb_pcs s t) = None"
    and "claims p = None" and "claims (rb_pcs s t) = None"
  shows "rb_inv (set_pc t p s)"
proof -
  note parts = assms(1) [unfolded rb_inv_def]
  have "rb_shared_ok (set_pc t p s)" using parts by (simp add: rb_shared_ok_def)
  moreover have "rb_empty_ok (set_pc t p s)"
    by (rule empty_ok_move [of s _ t p]) (use parts assms(5) in auto)
  moreover have "rb_holds_ok (set_pc t p s)"
  proof (rule holds_ok_move [of s _ t p])
    show "holds_push (rb_pcs s u) \<noteq> Some n" if "holds_push p = Some n" "u \<noteq> t" for u n
      using parts assms(3) that unfolding rb_holds_ok_def by (metis option.distinct(1))
    show "holds_take (rb_pcs s u) \<noteq> Some n" if "holds_take p = Some n" "u \<noteq> t" for u n
      using parts assms(4) that unfolding rb_holds_ok_def by (metis option.distinct(1))
  qed (use parts in auto)
  moreover have "rb_log_ok (set_pc t p s)"
    by (rule log_ok_move [of s _ t p]) (use parts assms(6,7) in auto)
  moreover have "\<forall>u. pc_ok (set_pc t p s) (rb_pcs (set_pc t p s) u)"
    using parts assms(2) by simp
  ultimately show ?thesis by (simp add: rb_inv_def)
qed

text \<open>Sequence numbers of one slot are a capacity apart.\<close>

lemma same_slot: "rb_index s n = rb_index s m \<Longrightarrow> m < n \<Longrightarrow> m + rb_capacity s \<le> n"
  by (metis add_le_cancel_left dvd_imp_le le_add_diff_inverse less_imp_le_nat mod_eq_dvd_iff_nat
      rb_index_def zero_less_diff)

lemma rb_invD:
  assumes "rb_inv s"
  shows "pc_ok s (rb_pcs s t)" and "rb_shared_ok s" "rb_empty_ok s" "rb_holds_ok s" "rb_log_ok s"
    and "2 \<le> rb_capacity s"
  using assms by (simp_all add: rb_inv_def rb_shared_ok_def)

lemma holds_unique:
  assumes "rb_inv s" and "u \<noteq> t"
  shows "holds_push (rb_pcs s t) = Some n \<Longrightarrow> holds_push (rb_pcs s u) \<noteq> Some n"
    and "holds_take (rb_pcs s t) = Some n \<Longrightarrow> holds_take (rb_pcs s u) \<noteq> Some n"
  using assms unfolding rb_inv_def rb_holds_ok_def by blast+

text \<open>A slot cannot both await the producer of one number and the consumer of another.\<close>

lemma not_both: "rb_inv s \<Longrightarrow> rb_index s n = rb_index s m \<Longrightarrow> m \<noteq> n + 1"
  using index_neq [of s n] rb_invD(6) by metis

text \<open>Putting the parts together after a step that changed shared state.\<close>

lemma rb_invI:
  assumes "rb_shared_ok s'" "rb_empty_ok s'" "rb_holds_ok s'" "rb_log_ok s'"
    and "rb_pcs s' = (rb_pcs s)(t := p)" and "pc_ok s' p"
    and "\<And>u. u \<noteq> t \<Longrightarrow> pc_ok s (rb_pcs s u) \<Longrightarrow> pc_ok s' (rb_pcs s u)" and "rb_inv s"
  shows "rb_inv s'"
  using assms by (simp add: rb_inv_def)

lemma rb_inv_claim:
  assumes inv: "rb_inv s" and pc: "rb_pcs s t = PushGotP x c p" and full: "\<not> rb_capacity s \<le> p - c"
    and p: "rb_producer s = p"
  shows "rb_inv (set_pc t (PushClaimed x p) (s\<lparr>rb_producer := p + 1, rb_items := (rb_items s)(p := Some x)\<rparr>))"
    (is "rb_inv ?s")
proof (rule rb_invI [of ?s s t "PushClaimed x p"])
  have c: "c \<le> rb_consumer s" "c \<le> p" using rb_invD(1) [OF inv, of t] pc by simp_all
  have sh: "rb_consumer s \<le> p" "rb_sequence s (rb_index s p) \<le> p"
    using rb_invD(2) [OF inv] p by (auto simp: rb_shared_ok_def)
  show "rb_shared_ok ?s"
    using rb_invD(2) [OF inv] p c full by (auto simp: rb_shared_ok_def)
  show "rb_empty_ok ?s"
    by (rule empty_ok_move [OF rb_invD(3) [OF inv], of _ t "PushClaimed x p"]) (auto simp: pc)
  have "holds_push (rb_pcs s u) \<noteq> Some p" for u
    using rb_invD(1) [OF inv, of u] p by (cases "rb_pcs s u") auto
  then show "rb_holds_ok ?s"
    by (intro holds_ok_move [OF rb_invD(4) [OF inv], of _ t "PushClaimed x p"]) auto
  show "rb_log_ok ?s"
    by (rule log_ok_move [OF rb_invD(5) [OF inv], of _ t "PushClaimed x p"]) (use pc sh in auto)
  show "pc_ok ?s (PushClaimed x p)" using sh by simp
  show "pc_ok ?s (rb_pcs s u)" if "pc_ok s (rb_pcs s u)" for u
    using that p sh by (cases "rb_pcs s u") auto
qed (use inv in simp_all)

lemma rb_inv_write:
  assumes inv: "rb_inv s" and pc: "rb_pcs s t = PushReady x p"
  shows "rb_inv (set_pc t (PushWritten p) (s\<lparr>rb_data := (rb_data s)(rb_index s p := Some x)\<rparr>))"
    (is "rb_inv ?s")
proof (rule rb_invI [of ?s s t "PushWritten p"])
  have me: "p < rb_producer s" "rb_consumer s \<le> p" "rb_items s p = Some x"
    "rb_sequence s (rb_index s p) = p"
    using rb_invD(1) [OF inv, of t] pc by simp_all
  have slot: "rb_index s n = rb_index s p \<Longrightarrow> rb_sequence s (rb_index s p) \<noteq> n + 1" for n
    using not_both [OF inv, of n p] me(4) by metis
  show "rb_shared_ok ?s"
    using rb_invD(2) [OF inv] slot unfolding rb_shared_ok_def by auto
  show "rb_empty_ok ?s"
    by (rule empty_ok_move [OF rb_invD(3) [OF inv], of _ t "PushWritten p"]) (use pc me in auto)
  show "rb_holds_ok ?s"
    by (rule holds_ok_move [OF rb_invD(4) [OF inv], of _ t "PushWritten p"])
       (use holds_unique(1) [OF inv, of _ t p] pc in auto)
  show "rb_log_ok ?s"
    by (rule log_ok_move [OF rb_invD(5) [OF inv], of _ t "PushWritten p"]) (use pc in auto)
  show "pc_ok ?s (PushWritten p)" using me by simp
  show "pc_ok ?s (rb_pcs s u)" if "u \<noteq> t" "pc_ok s (rb_pcs s u)" for u
  proof -
    have "holds_push (rb_pcs s u) \<noteq> Some p" using holds_unique(1) [OF inv that(1)] pc by simp
    then show ?thesis
      using that(2) me slot by (cases "rb_pcs s u") auto
  qed
qed (use inv in simp_all)

lemma rb_inv_publish:
  assumes inv: "rb_inv s" and pc: "rb_pcs s t = PushWritten p"
  shows "rb_inv (set_pc t Idle (s\<lparr>rb_sequence := (rb_sequence s)(rb_index s p := p + 1)\<rparr>))"
    (is "rb_inv ?s")
proof (rule rb_invI [of ?s s t Idle])
  have me: "p < rb_producer s" "rb_consumer s \<le> p" "rb_sequence s (rb_index s p) = p"
    "rb_data s (rb_index s p) = rb_items s p"
    using rb_invD(1) [OF inv, of t] pc by simp_all
  have slot: "rb_index s n = rb_index s p \<Longrightarrow> rb_sequence s (rb_index s p) \<noteq> n + 1" for n
    using not_both [OF inv, of n p] me(3) by metis
  have next_slot: "rb_index s (Suc p) \<noteq> rb_index s p"
    using index_neq [OF rb_invD(6) [OF inv], of p] by simp
  show "rb_shared_ok ?s"
    unfolding rb_shared_ok_def
  proof (intro conjI allI impI)
    note sh = rb_invD(2) [OF inv, unfolded rb_shared_ok_def]
    show "rb_sequence ?s (rb_index ?s n) \<le> n" if "rb_producer ?s \<le> n" for n
      using that sh me(1) by simp
    have old: "n < rb_producer s \<and> rb_data s (rb_index s n) = rb_items s n"
      if "rb_consumer s \<le> n" "rb_sequence s (rb_index s n) = n + 1" for n
      using sh that by blast
    have "n < rb_producer s \<and> rb_data s (rb_index s n) = rb_items s n"
      if n: "rb_consumer ?s \<le> n \<and> rb_sequence ?s (rb_index ?s n) = n + 1" for n
    proof (cases "rb_index s n = rb_index s p")
      case True
      with n have "n = p" by simp
      with me(1,4) show ?thesis by blast
    next
      case False
      with n show ?thesis by (intro old) simp_all
    qed
    then show "n < rb_producer ?s" "rb_data ?s (rb_index ?s n) = rb_items ?s n"
      if "rb_consumer ?s \<le> n \<and> rb_sequence ?s (rb_index ?s n) = n + 1" for n
      using that by simp_all
  qed (use rb_invD(2) [OF inv] in \<open>simp_all add: rb_shared_ok_def\<close>)
  show "rb_empty_ok ?s"
    unfolding rb_empty_ok_def
  proof (intro allI impI, elim conjE)
    fix n
    assume a: "rb_sequence ?s (rb_index ?s n) = n" "\<forall>u. written (rb_pcs ?s u) \<noteq> Some n"
    have ne: "rb_index s n \<noteq> rb_index s p" using a(1) next_slot by (auto split: if_splits)
    then have "n \<noteq> p" by blast
    then have "written (rb_pcs s u) \<noteq> Some n" for u
      using a(2) pc by (cases "u = t") (auto dest: spec [of _ u])
    then show "rb_data ?s (rb_index ?s n) = None"
      using rb_invD(3) [OF inv] a(1) ne by (simp add: rb_empty_ok_def)
  qed
  show "rb_holds_ok ?s"
    by (rule holds_ok_move [OF rb_invD(4) [OF inv], of _ t Idle]) auto
  show "rb_log_ok ?s"
    by (rule log_ok_move [OF rb_invD(5) [OF inv], of _ t Idle]) (use pc in auto)
  show "pc_ok ?s Idle" by simp
  show "pc_ok ?s (rb_pcs s u)" if "u \<noteq> t" "pc_ok s (rb_pcs s u)" for u
  proof -
    have other: "holds_push (rb_pcs s u) \<noteq> Some p" using holds_unique(1) [OF inv that(1)] pc by simp
    show ?thesis
      using that(2) me slot other by (cases "rb_pcs s u") auto
  qed
qed (use inv in simp_all)

lemma rb_inv_take_claim:
  assumes inv: "rb_inv s" and pc: "rb_pcs s t = DrSeen h k c" and cur: "rb_consumer s = c"
  shows "rb_inv (set_pc t (DrClaimed h k c) (s\<lparr>rb_consumer := c + 1\<rparr>))"
    (is "rb_inv ?s")
proof (rule rb_invI [of ?s s t "DrClaimed h k c"])
  have me: "rb_sequence s (rb_index s c) = c + 1"
    using rb_invD(1) [OF inv, of t] pc cur by simp
  have sh: "c < rb_producer s" "rb_data s (rb_index s c) = rb_items s c"
    using rb_invD(2) [OF inv] me cur by (auto simp: rb_shared_ok_def)
  show "rb_shared_ok ?s"
    using rb_invD(2) [OF inv] sh cur by (auto simp: rb_shared_ok_def)
  show "rb_empty_ok ?s"
    by (rule empty_ok_move [OF rb_invD(3) [OF inv], of _ t "DrClaimed h k c"]) (auto simp: pc)
  have "holds_take (rb_pcs s u) \<noteq> Some c" for u
    using rb_invD(1) [OF inv, of u] cur by (cases "rb_pcs s u") auto
  then show "rb_holds_ok ?s"
    by (intro holds_ok_move [OF rb_invD(4) [OF inv], of _ t "DrClaimed h k c"]) auto
  show "rb_log_ok ?s"
    unfolding rb_log_ok_def
  proof (intro conjI)
    note log = rb_invD(5) [OF inv, unfolded rb_log_ok_def]
    show "distinct (map fst (rb_out ?s))" using log by simp
    show "\<forall>q \<in> set (rb_out ?s). fst q < rb_consumer ?s \<and> rb_items ?s (fst q) = Some (snd q)"
      using log cur by auto
    show "\<forall>n < rb_consumer ?s. n \<in> fst ` set (rb_out ?s) \<longleftrightarrow> (\<forall>u. claims (rb_pcs ?s u) \<noteq> Some n)"
    proof (intro allI impI)
      fix n
      assume n: "n < rb_consumer ?s"
      show "n \<in> fst ` set (rb_out ?s) \<longleftrightarrow> (\<forall>u. claims (rb_pcs ?s u) \<noteq> Some n)"
      proof (cases "n = c")
        case True
        have "n \<notin> fst ` set (rb_out s)" using log cur True by fastforce
        moreover have "claims (rb_pcs ?s t) = Some n" using True by simp
        ultimately show ?thesis by auto
      next
        case False
        with n have "n < rb_consumer s" by (simp add: cur)
        moreover have "claims (rb_pcs ?s u) = Some n \<longleftrightarrow> claims (rb_pcs s u) = Some n" for u
          using False pc by simp
        ultimately show ?thesis using log by simp
      qed
    qed
  qed
  show "pc_ok ?s (DrClaimed h k c)" using me sh by simp
  show "pc_ok ?s (rb_pcs s u)" if "pc_ok s (rb_pcs s u)" for u
    using that me cur by (cases "rb_pcs s u") (auto simp: le_less)
qed (use inv in simp_all)

lemma taken_item:
  assumes inv: "rb_inv s" and pc: "rb_pcs s t = DrClaimed h k c"
  obtains x where "rb_data s (rb_index s c) = Some x" "rb_items s c = Some x"
proof -
  have "c < rb_consumer s" "rb_data s (rb_index s c) = rb_items s c"
    using rb_invD(1) [OF inv, of t] pc by simp_all
  moreover have "rb_items s c \<noteq> None" if "c < rb_consumer s"
    using rb_invD(2) [OF inv] that by (auto simp: rb_shared_ok_def)
  ultimately show thesis using that by auto
qed

lemma rb_inv_take:
  assumes inv: "rb_inv s" and pc: "rb_pcs s t = DrClaimed h k c"
    and x: "rb_data s (rb_index s c) = Some x"
  shows "rb_inv (set_pc t (DrTaken h k' c)
    (s\<lparr>rb_data := (rb_data s)(rb_index s c := None), rb_out := rb_out s @ [(c, x)]\<rparr>))"
    (is "rb_inv ?s")
proof (rule rb_invI [of ?s s t "DrTaken h k' c"])
  have me: "c < rb_consumer s" "rb_sequence s (rb_index s c) = c + 1" "rb_items s c = Some x"
    using rb_invD(1) [OF inv, of t] pc x by simp_all
  show "rb_shared_ok ?s"
    using rb_invD(2) [OF inv] me by (auto simp: rb_shared_ok_def)
  show "rb_empty_ok ?s"
    by (rule empty_ok_move [OF rb_invD(3) [OF inv], of _ t "DrTaken h k' c"]) (auto simp: pc)
  show "rb_holds_ok ?s"
    by (rule holds_ok_move [OF rb_invD(4) [OF inv], of _ t "DrTaken h k' c"])
       (use holds_unique(2) [OF inv, of _ t c] pc in auto)
  show "rb_log_ok ?s"
    unfolding rb_log_ok_def
  proof (intro conjI)
    note log = rb_invD(5) [OF inv, unfolded rb_log_ok_def]
    have "claims (rb_pcs s t) = Some c" using pc by simp
    then have new: "c \<notin> fst ` set (rb_out s)" using log me(1) by blast
    then show "distinct (map fst (rb_out ?s))" using log by simp
    show "\<forall>q \<in> set (rb_out ?s). fst q < rb_consumer ?s \<and> rb_items ?s (fst q) = Some (snd q)"
      using log me by auto
    show "\<forall>n < rb_consumer ?s. n \<in> fst ` set (rb_out ?s) \<longleftrightarrow> (\<forall>u. claims (rb_pcs ?s u) \<noteq> Some n)"
    proof (intro allI impI)
      fix n
      assume n: "n < rb_consumer ?s"
      have only: "claims (rb_pcs s u) \<noteq> Some c" if "u \<noteq> t" for u
        using holds_unique(2) [OF inv that, of c] pc by (cases "rb_pcs s u") auto
      show "n \<in> fst ` set (rb_out ?s) \<longleftrightarrow> (\<forall>u. claims (rb_pcs ?s u) \<noteq> Some n)"
      proof (cases "n = c")
        case True
        then show ?thesis using only by simp
      next
        case False
        have "claims (rb_pcs ?s u) = Some n \<longleftrightarrow> claims (rb_pcs s u) = Some n" for u
          using False pc by simp
        then show ?thesis using log False n by simp
      qed
    qed
  qed
  show "pc_ok ?s (DrTaken h k' c)" using me by simp
  show "pc_ok ?s (rb_pcs s u)" if "u \<noteq> t" "pc_ok s (rb_pcs s u)" for u
  proof -
    have other: "holds_take (rb_pcs s u) \<noteq> Some c" using holds_unique(2) [OF inv that(1)] pc by simp
    have slot: "rb_index s (Suc c) \<noteq> rb_index s c"
      using index_neq [OF rb_invD(6) [OF inv], of c] by simp
    show ?thesis
      using that(2) me other slot by (cases "rb_pcs s u") auto
  qed
qed (use inv in simp_all)

lemma rb_inv_recycle:
  assumes inv: "rb_inv s" and pc: "rb_pcs s t = DrTaken h k c"
  shows "rb_inv (set_pc t (DrStart h k)
    (s\<lparr>rb_sequence := (rb_sequence s)(rb_index s c := c + rb_capacity s)\<rparr>))"
    (is "rb_inv ?s")
proof (rule rb_invI [of ?s s t "DrStart h k"])
  have me: "c < rb_consumer s" "rb_sequence s (rb_index s c) = c + 1" "rb_data s (rb_index s c) = None"
    using rb_invD(1) [OF inv, of t] pc by simp_all
  have later: "c + rb_capacity s \<le> n" if "rb_index s n = rb_index s c" "c < n" for n
    using that by (rule same_slot)
  have not_next: "c + rb_capacity s \<noteq> n + 1" if "rb_index s n = rb_index s c" for n
    using not_both [OF inv, of n "c + rb_capacity s"] that by simp
  have slot: "rb_index s (Suc c) \<noteq> rb_index s c"
    using index_neq [OF rb_invD(6) [OF inv], of c] by simp
  show "rb_shared_ok ?s"
    using rb_invD(2) [OF inv] me later not_next by (auto simp: rb_shared_ok_def)
  show "rb_empty_ok ?s"
    by (rule empty_ok_move [OF rb_invD(3) [OF inv], of _ t "DrStart h k"])
       (use pc me in \<open>auto split: if_splits\<close>)
  show "rb_holds_ok ?s"
    by (rule holds_ok_move [OF rb_invD(4) [OF inv], of _ t "DrStart h k"]) auto
  show "rb_log_ok ?s"
    by (rule log_ok_move [OF rb_invD(5) [OF inv], of _ t "DrStart h k"]) (use pc in auto)
  show "pc_ok ?s (DrStart h k)" by simp
  show "pc_ok ?s (rb_pcs s u)" if "u \<noteq> t" "pc_ok s (rb_pcs s u)" for u
  proof -
    have other: "holds_take (rb_pcs s u) \<noteq> Some c" using holds_unique(2) [OF inv that(1)] pc by simp
    show ?thesis
      using that(2) me other slot later by (cases "rb_pcs s u") auto
  qed
qed (use inv in simp_all)

lemma rb_inv_ready:
  assumes inv: "rb_inv s" and pc: "rb_pcs s t = PushClaimed x p"
    and eq: "rb_sequence s (rb_index s p) = p"
  shows "rb_inv (set_pc t (PushReady x p) s)"
proof (rule rb_inv_move [OF inv])
  have "written (rb_pcs s u) \<noteq> Some p" for u
  proof (cases "u = t")
    case False
    then have "holds_push (rb_pcs s u) \<noteq> Some p" using holds_unique(1) [OF inv, of u t p] pc by simp
    then show ?thesis by (cases "rb_pcs s u") auto
  qed (simp add: pc)
  then have "rb_data s (rb_index s p) = None"
    using rb_invD(3) [OF inv] eq by (simp add: rb_empty_ok_def)
  then show "pc_ok s (PushReady x p)"
    using rb_invD(1) [OF inv, of t] pc eq by simp
qed (simp_all add: pc)

section \<open>Every step keeps the invariant\<close>

lemma rb_push_step_inv:
  assumes inv: "rb_inv s" and step: "rb_push_step s t (rb_pcs s t) = Some s'"
  shows "rb_inv s'"
proof (cases "rb_pcs s t")
  case (PushStart x)
  with step show ?thesis
    using rb_inv_move [OF inv, of "PushGotC x (rb_consumer s)" t] by auto
next
  case (PushGotC x c)
  moreover have "c \<le> rb_consumer s" "rb_consumer s \<le> rb_producer s"
    using rb_invD(1) [OF inv, of t] rb_invD(2) [OF inv] PushGotC by (auto simp: rb_shared_ok_def)
  ultimately show ?thesis
    using step rb_inv_move [OF inv, of "PushGotP x c (rb_producer s)" t] by auto
next
  case (PushGotP x c p)
  show ?thesis
  proof (cases "rb_capacity s \<le> p - c")
    case True
    with PushGotP step show ?thesis using rb_inv_move [OF inv, of "PushErr x" t] by auto
  next
    case False
    show ?thesis
    proof (cases "rb_producer s = p")
      case True
      with PushGotP False step show ?thesis using rb_inv_claim [OF inv PushGotP False True] by simp
    next
      case ne: False
      with PushGotP False step show ?thesis using rb_inv_move [OF inv, of "PushStart x" t] by auto
    qed
  qed
next
  case (PushClaimed x p)
  with step inv show ?thesis using rb_inv_ready [OF inv PushClaimed] by (auto split: if_splits)
next
  case (PushReady x p)
  with step show ?thesis using rb_inv_write [OF inv PushReady] by auto
next
  case (PushWritten p)
  with step show ?thesis using rb_inv_publish [OF inv PushWritten] by auto
qed (use step in auto)

lemma rb_drain_step_inv:
  assumes inv: "rb_inv s" and step: "rb_drain_step s t (rb_pcs s t) = Some s'"
  shows "rb_inv s'"
proof (cases "rb_pcs s t")
  case (DrStart h k)
  with step show ?thesis
    using rb_inv_move [OF inv, of "DrGotC h k (rb_consumer s)" t] rb_inv_move [OF inv, of Idle t]
    by (auto split: if_splits)
next
  case (DrGotC h k c)
  moreover have "c \<le> rb_consumer s" using rb_invD(1) [OF inv, of t] DrGotC by simp
  ultimately show ?thesis
    using step rb_inv_move [OF inv, of "DrWait h k c" t] rb_inv_move [OF inv, of Idle t]
    by (auto split: if_splits)
next
  case (DrWait h k c)
  moreover have "c \<le> rb_consumer s" using rb_invD(1) [OF inv, of t] DrWait by simp
  ultimately show ?thesis
    using step rb_inv_move [OF inv, of "DrSeen h k c" t] rb_inv_move [OF inv, of Idle t]
      rb_inv_move [OF inv, of "DrRecheck h k c" t]
    by (auto split: if_splits)
next
  case (DrRecheck h k c)
  moreover have "c \<le> rb_consumer s" using rb_invD(1) [OF inv, of t] DrRecheck by simp
  ultimately show ?thesis
    using step rb_inv_move [OF inv, of "DrStart h k" t] rb_inv_move [OF inv, of "DrWait h k c" t]
    by (auto split: if_splits)
next
  case (DrSeen h k c)
  then show ?thesis
    using step rb_inv_take_claim [OF inv DrSeen] rb_inv_move [OF inv, of "DrStart h k" t]
      rb_inv_move [OF inv, of Idle t]
    by (auto split: if_splits)
next
  case (DrClaimed h k c)
  obtain x where "rb_data s (rb_index s c) = Some x" by (rule taken_item [OF inv DrClaimed])
  with DrClaimed step show ?thesis
    using rb_inv_take [OF inv DrClaimed, of x "k - 1"] by (auto simp: Let_def)
next
  case (DrTaken h k c)
  with step show ?thesis using rb_inv_recycle [OF inv DrTaken] by auto
qed (use step in auto)

lemma rb_idle_holds:
  "rb_idle p \<Longrightarrow> holds_push p = None \<and> holds_take p = None \<and> claims p = None \<and> written p = None"
  by (cases p) auto

lemma rb_inv_step: "rb_inv s \<Longrightarrow> rb_step s a = Some s' \<Longrightarrow> rb_inv s'"
proof -
  assume inv: "rb_inv s" and step: "rb_step s a = Some s'"
  obtain t act where a: "a = (t, act)" by (cases a)
  show ?thesis
  proof (cases act)
    case (StartPush x)
    then show ?thesis
      using step a rb_idle_holds [of "rb_pcs s t"] rb_inv_move [OF inv, of "PushStart x" t]
      by (auto simp: rb_step_def split: if_splits)
  next
    case (StartDrain h k)
    then show ?thesis
      using step a rb_idle_holds [of "rb_pcs s t"] rb_inv_move [OF inv, of "DrStart h k" t]
      by (auto simp: rb_step_def split: if_splits)
  next
    case Go
    then show ?thesis
      using step a rb_push_step_inv [OF inv] rb_drain_step_inv [OF inv]
      by (auto simp: rb_step_def split: option.splits)
  next
    case CasFails
    then obtain p where p: "rb_spurious (rb_pcs s t) = Some p" "s' = set_pc t p s"
      using step a by (auto simp: rb_step_def)
    show ?thesis
    proof (cases "rb_pcs s t")
      case (PushGotP x c q)
      then show ?thesis using p rb_inv_move [OF inv, of "PushStart x" t] by auto
    next
      case (DrSeen h k c)
      then show ?thesis
        using p rb_inv_move [OF inv, of "DrStart h k" t] rb_inv_move [OF inv, of Idle t]
        by (auto split: if_splits)
    qed (use p in auto)
  qed
qed

lemma rb_inv_init: "2 \<le> capacity \<Longrightarrow> rb_inv (rb_init capacity)"
  by (auto simp: rb_inv_def rb_init_def rb_shared_ok_def rb_empty_ok_def rb_holds_ok_def
      rb_log_ok_def rb_index_def intro: mod_less_eq_dividend) (metis Suc_n_not_le_n mod_less_eq_dividend)

interpretation rb_machine: safe_machine rb_step "rb_init (k + 2)" rb_inv for k
  by unfold_locales (auto intro: rb_inv_init rb_inv_step)

lemma rb_reachable_inv: "2 \<le> capacity \<Longrightarrow> reachable rb_step (rb_init capacity) s \<Longrightarrow> rb_inv s"
  using rb_machine.inv_reachable [of "capacity - 2" s] by (simp add: numeral_2_eq_2 Suc_diff_Suc)

text \<open>The slot whose contents a thread is about to write or take.\<close>

fun accesses :: "'a ring_buffer \<Rightarrow> 'a rb_pc \<Rightarrow> nat option" where
  "accesses s (PushReady x p) = Some (rb_index s p)"
| "accesses s (DrClaimed h k c) = Some (rb_index s c)"
| "accesses s _ = None"

lemma accesses_exclusive:
  assumes inv: "rb_inv s" and t: "accesses s (rb_pcs s t) = Some i" and u: "accesses s (rb_pcs s u) = Some i"
  shows "t = u"
proof (rule ccontr)
  assume ne: "t \<noteq> u"
  have ok: "pc_ok s (rb_pcs s t)" "pc_ok s (rb_pcs s u)" using rb_invD(1) [OF inv] by simp_all
  have slot: "rb_index s (Suc c) \<noteq> rb_index s c" for c
    using index_neq [OF rb_invD(6) [OF inv], of c] by simp
  from t u ok slot have "holds_push (rb_pcs s t) \<noteq> None \<and> holds_push (rb_pcs s t) = holds_push (rb_pcs s u) \<or>
      holds_take (rb_pcs s t) \<noteq> None \<and> holds_take (rb_pcs s t) = holds_take (rb_pcs s u)"
    by (cases "rb_pcs s t"; cases "rb_pcs s u"; simp; metis)
  with ne show False
    using holds_unique [OF inv, of u t] by (metis option.exhaust)
qed

section \<open>Properties\<close>

text \<open>C1: The ring is safe under every interleaving: for any capacity of at least two, any
  number of producers, consumers and helpers and any schedule with spurious CAS failures,
  the occupancy stays between zero and the capacity, the loads of \<open>try_push\<close> never make
  the subtraction underflow, no two threads access a slot's contents at the same time, a
  producer only writes into an empty slot, and a thread that claimed number \<open>n\<close> finds
  exactly the item pushed as number \<open>n\<close>.\<close>

theorem ring_buffer_safe:
  assumes "2 \<le> capacity" and "reachable rb_step (rb_init capacity) s"
  shows "rb_consumer s \<le> rb_producer s \<and> rb_len s \<le> rb_capacity s \<and>
    (\<forall>t x c p. rb_pcs s t = PushGotP x c p \<longrightarrow> c \<le> p) \<and>
    (\<forall>t u i. accesses s (rb_pcs s t) = Some i \<and> accesses s (rb_pcs s u) = Some i \<longrightarrow> t = u) \<and>
    (\<forall>t x p. rb_pcs s t = PushReady x p \<longrightarrow> rb_data s (rb_index s p) = None) \<and>
    (\<forall>t h k c. rb_pcs s t = DrClaimed h k c \<longrightarrow>
       rb_items s c \<noteq> None \<and> rb_data s (rb_index s c) = rb_items s c)"
proof -
  have inv: "rb_inv s" using assms by (rule rb_reachable_inv)
  have pcs: "pc_ok s (rb_pcs s t)" for t using inv by (rule rb_invD(1))
  have "rb_consumer s \<le> rb_producer s \<and> rb_len s \<le> rb_capacity s"
    using rb_invD(2) [OF inv] by (auto simp: rb_shared_ok_def rb_len_def)
  moreover have "rb_pcs s t = PushGotP x c p \<longrightarrow> c \<le> p" for t x c p
    using pcs [of t] by auto
  moreover have "rb_pcs s t = PushReady x p \<longrightarrow> rb_data s (rb_index s p) = None" for t x p
    using pcs [of t] by auto
  moreover have "rb_pcs s t = DrClaimed h k c \<longrightarrow>
      rb_items s c \<noteq> None \<and> rb_data s (rb_index s c) = rb_items s c" for t h k c
    using taken_item [OF inv] by (metis option.distinct(1))
  ultimately show ?thesis
    using accesses_exclusive [OF inv] by blast
qed

theorem ring_buffer_safe_witness:
  "rb_len (rb_init 4 :: nat ring_buffer) \<le> rb_capacity (rb_init 4 :: nat ring_buffer)"
  using ring_buffer_safe [of 4 "rb_init 4"] reach_init by fastforce

text \<open>C2: Delivery is exactly once and loses nothing: no sequence number is delivered twice,
  each delivery hands out the item claimed under its number, and whenever no thread is
  between claiming and taking, the delivered items are exactly those of all numbers below
  the consumer's, that is the pushed items in claim order up to that point.\<close>

theorem ring_buffer_exactly_once:
  assumes "2 \<le> capacity" and "reachable rb_step (rb_init capacity) s"
  shows "distinct (map fst (rb_out s)) \<and>
    set (rb_out s) \<subseteq> {(n, x). n < rb_consumer s \<and> rb_items s n = Some x} \<and>
    ((\<forall>t. claims (rb_pcs s t) = None) \<longrightarrow>
       set (rb_out s) = {(n, x). n < rb_consumer s \<and> rb_items s n = Some x})"
proof -
  have inv: "rb_inv s" using assms by (rule rb_reachable_inv)
  note log = rb_invD(5) [OF inv, unfolded rb_log_ok_def]
  have sub: "set (rb_out s) \<subseteq> {(n, x). n < rb_consumer s \<and> rb_items s n = Some x}"
    using log by auto
  have "{(n, x). n < rb_consumer s \<and> rb_items s n = Some x} \<subseteq> set (rb_out s)"
    if quiet: "\<forall>t. claims (rb_pcs s t) = None"
  proof (clarify)
    fix n x
    assume n: "n < rb_consumer s" and x: "rb_items s n = Some x"
    from n quiet log have "n \<in> fst ` set (rb_out s)" by simp
    then obtain y where y: "(n, y) \<in> set (rb_out s)" by auto
    with sub x have "y = x" by auto
    with y show "(n, x) \<in> set (rb_out s)" by simp
  qed
  with sub log show ?thesis by blast
qed

text \<open>A schedule on capacity 4: one push, and a drain of it.\<close>

definition push_drain :: "(nat \<times> nat rb_act) list" where
  "push_drain =
     (0, StartPush 10) # replicate 6 (0, Go) @ (1, StartDrain False 1) # replicate 5 (1, Go)"

theorem ring_buffer_exactly_once_witness:
  "\<exists>s. reachable rb_step (rb_init 4 :: nat ring_buffer) s \<and> rb_out s = [(0, 10)] \<and>
     distinct (map fst (rb_out s))"
proof -
  have "map_option rb_out (run rb_step (rb_init 4) push_drain) = Some [(0, 10)]" by code_simp
  then obtain s where s: "run rb_step (rb_init 4) push_drain = Some s" "rb_out s = [(0, 10)]" by auto
  then have "reachable rb_step (rb_init 4) s" by (intro run_reachable [OF s(1)] reach_init)
  with s(2) show ?thesis using ring_buffer_exactly_once [of 4 s] by (intro exI [of _ s]) simp
qed

text \<open>One slot: a push, a drain up to its claim, a second push up to its write, the take.\<close>

definition overwrite_schedule :: "(nat \<times> nat rb_act) list" where
  "overwrite_schedule =
     (0, StartPush 10) # replicate 6 (0, Go) @
     (1, StartDrain False 1) # replicate 4 (1, Go) @
     (2, StartPush 20) # replicate 5 (2, Go) @ [(1, Go)]"

text \<open>Capacity one is accepted and unsound: \<open>new(1)\<close> passes both assertions, but with a
  single slot the published mark of one push equals the ready mark of the next, and there
  is a schedule in which a second producer overwrites the first item before the consumer
  takes it, so that number 0 delivers the item of number 1 and the first item is lost.\<close>

theorem ring_buffer_capacity_one:
  "rb_new 1 = Some (rb_init 1 :: nat ring_buffer) \<and>
   (\<exists>s :: nat ring_buffer. reachable rb_step (rb_init 1) s \<and> rb_items s 0 = Some 10 \<and> rb_items s 1 = Some 20 \<and>
      rb_out s = [(0, 20)])"
proof -
  have "map_option (\<lambda>s. (rb_out s, rb_items s 0, rb_items s 1)) (run rb_step (rb_init 1) overwrite_schedule) =
      Some ([(0, 20)], Some 10, Some 20)"
    by code_simp
  then obtain s where s: "run rb_step (rb_init 1) overwrite_schedule = Some s"
    "rb_out s = [(0, 20)]" "rb_items s 0 = Some 10" "rb_items s 1 = Some 20" by auto
  then have "reachable rb_step (rb_init 1) s" by (intro run_reachable [OF s(1)] reach_init)
  moreover have "is_power_of_two 1" by code_simp
  ultimately show ?thesis using s by (auto simp: rb_new_def)
qed

end
