(* ===== verification/Circuit_Breaker.thy ===== *)
theory Circuit_Breaker
  imports Policy
begin

text \<open>
  The circuit breaker in front of a remote sink (core/src/pipeline/circuit_breaker.rs). The
  mutex makes the operations atomic; the clock (nanoseconds) is an argument of the operations
  that read it. The counters keep their widths. Logging of the transitions is left out.
\<close>

section \<open>State\<close>

datatype circuit_state = Closed | Open | HalfOpen

record cb_config =
  cf_failure_threshold :: u32
  cf_timeout_ms :: u64
  cf_half_open_max_requests :: u32
  cf_roll_window_sec :: u64
  cf_is_audit :: bool

definition cb_config_default :: cb_config where
  "cb_config_default =
     \<lparr>cf_failure_threshold = 5, cf_timeout_ms = 30000, cf_half_open_max_requests = 3,
      cf_roll_window_sec = 60, cf_is_audit = False\<rparr>"

datatype cb_config_error = AuditThreshold u32 | AuditTimeout u64

definition cb_validate :: "cb_config \<Rightarrow> cb_config_error + unit" where
  "cb_validate c =
     (if cf_is_audit c then
        if cf_failure_threshold c < 3 then Inl (AuditThreshold (cf_failure_threshold c))
        else if cf_timeout_ms c < 60000 then Inl (AuditTimeout (cf_timeout_ms c))
        else Inr ()
      else Inr ())"

record circuit_breaker =
  cb_config :: cb_config
  cb_state :: circuit_state
  cb_opened_at :: "nat option"
  cb_failure_count :: u32
  cb_success_count :: u64
  cb_rejected_count :: u64
  cb_probes_remaining :: u32

definition cb_new :: "cb_config \<Rightarrow> circuit_breaker" where
  "cb_new config =
     \<lparr>cb_config = config, cb_state = Closed, cb_opened_at = None, cb_failure_count = 0,
      cb_success_count = 0, cb_rejected_count = 0, cb_probes_remaining = 0\<rparr>"

section \<open>Operations\<close>

text \<open>The half-open arm, which the open arm reaches again through its recursive call.\<close>

definition cb_probe :: "circuit_breaker \<Rightarrow> bool \<times> circuit_breaker" where
  "cb_probe s =
     (if 0 < cb_probes_remaining s then
        (True, s\<lparr>cb_probes_remaining := cb_probes_remaining s - 1\<rparr>)
      else (False, s\<lparr>cb_rejected_count := cb_rejected_count s + 1\<rparr>))"

definition cb_timeout :: "circuit_breaker \<Rightarrow> nat" where
  "cb_timeout s = unat (cf_timeout_ms (cb_config s)) * ns_per_ms"

definition cb_allow_request :: "circuit_breaker \<Rightarrow> nat \<Rightarrow> bool \<times> circuit_breaker" where
  "cb_allow_request s now =
     (case cb_state s of
        Closed \<Rightarrow> (True, s)
      | Open \<Rightarrow>
          (case cb_opened_at s of
             Some opened \<Rightarrow>
               if cb_timeout s \<le> now - opened then
                 cb_probe (s\<lparr>cb_state := HalfOpen,
                   cb_probes_remaining := cf_half_open_max_requests (cb_config s)\<rparr>)
               else (False, s\<lparr>cb_rejected_count := cb_rejected_count s + 1\<rparr>)
           | None \<Rightarrow>
               (False, s\<lparr>cb_opened_at := Some now, cb_rejected_count := cb_rejected_count s + 1\<rparr>))
      | HalfOpen \<Rightarrow> cb_probe s)"

definition cb_report_success :: "circuit_breaker \<Rightarrow> circuit_breaker" where
  "cb_report_success s =
     (let s1 = s\<lparr>cb_success_count := cb_success_count s + 1, cb_failure_count := 0\<rparr> in
      if cb_state s1 = HalfOpen then s1\<lparr>cb_state := Closed, cb_opened_at := None\<rparr> else s1)"

definition cb_report_failure :: "circuit_breaker \<Rightarrow> nat \<Rightarrow> circuit_breaker" where
  "cb_report_failure s now =
     (let prev = cb_failure_count s; s1 = s\<lparr>cb_failure_count := prev + 1\<rparr> in
      case cb_state s1 of
        Closed \<Rightarrow>
          if cf_failure_threshold (cb_config s) \<le> prev + 1 then
            s1\<lparr>cb_state := Open, cb_opened_at := Some now\<rparr>
          else s1
      | HalfOpen \<Rightarrow> s1\<lparr>cb_state := Open, cb_opened_at := Some now, cb_probes_remaining := 0\<rparr>
      | Open \<Rightarrow> s1\<lparr>cb_opened_at := Some now\<rparr>)"

definition cb_reset :: "circuit_breaker \<Rightarrow> circuit_breaker" where
  "cb_reset s =
     s\<lparr>cb_failure_count := 0, cb_state := Closed, cb_opened_at := None, cb_probes_remaining := 0\<rparr>"

section \<open>Histories\<close>

datatype cb_op = Allow | Success | Failure | Reset

text \<open>One call at a time; the answer of a request, nothing for the reports.\<close>

definition cb_step :: "circuit_breaker \<Rightarrow> cb_op \<times> nat \<Rightarrow> circuit_breaker option" where
  "cb_step s a =
     Some (case a of
             (Allow, now) \<Rightarrow> snd (cb_allow_request s now)
           | (Success, now) \<Rightarrow> cb_report_success s
           | (Failure, now) \<Rightarrow> cb_report_failure s now
           | (Reset, now) \<Rightarrow> cb_reset s)"

fun cb_answers :: "circuit_breaker \<Rightarrow> (cb_op \<times> nat) list \<Rightarrow> bool list" where
  "cb_answers s [] = []"
| "cb_answers s (a # as) =
     (if fst a = Allow then [fst (cb_allow_request s (snd a))] else []) @
     cb_answers (the (cb_step s a)) as"

text \<open>
  While closed, the failures stay below the threshold, so that \<open>prev + 1\<close> cannot overflow;
  an opening time is recorded exactly while the circuit is not closed; and the probes never
  exceed their maximum.
\<close>

definition cb_inv :: "cb_config \<Rightarrow> circuit_breaker \<Rightarrow> bool" where
  "cb_inv c s \<longleftrightarrow>
     cb_config s = c \<and>
     (cb_state s = Closed \<longrightarrow> cb_failure_count s < max (cf_failure_threshold c) 1) \<and>
     (cb_opened_at s = None \<longleftrightarrow> cb_state s = Closed) \<and>
     cb_probes_remaining s \<le> cf_half_open_max_requests c"

lemmas cb_defs = cb_allow_request_def cb_report_success_def cb_report_failure_def cb_reset_def
  cb_probe_def cb_step_def Let_def

lemma word_pred_le: "0 < w \<Longrightarrow> w - 1 \<le> (w :: u32)"
  by (simp add: word_le_nat_alt word_less_nat_alt unat_sub)

lemma max_one_nonzero [simp]: "max w 1 \<noteq> (0 :: u32)"
  by (cases "w = 0") (auto simp: max_def)

lemma cb_inv_step:
  assumes "cb_inv c s" and "cb_step s a = Some s'"
  shows "cb_inv c s'"
proof -
  obtain op now where a: "a = (op, now)" by (cases a)
  have "p - 1 \<le> m" if "0 < p" "p \<le> m" for p m :: u32
    using word_pred_le [OF that(1)] that(2) by (rule order_trans)
  then show ?thesis
    using assms unfolding a
    by (cases op; cases "cb_state s")
      (auto simp: cb_inv_def cb_defs word_gt_0 not_le less_max_iff_disj
        split: option.splits if_splits)
qed

interpretation cb_machine: safe_machine cb_step "cb_new c" "cb_inv c" for c
proof unfold_locales
  show "cb_inv c (cb_new c)"
    by (simp add: cb_inv_def cb_new_def word_gt_0)
qed (rule cb_inv_step)

lemma cb_reachable_inv: "run cb_step (cb_new c) hist = Some s \<Longrightarrow> cb_inv c s"
  by (rule cb_machine.inv_run [OF cb_machine.inv_init])

section \<open>Opening\<close>

text \<open>Consecutive failures on a closed circuit.\<close>

lemma cb_failures_open:
  "cb_state s \<noteq> Closed \<Longrightarrow> cb_state (fold (\<lambda>t s. cb_report_failure s t) ts s) \<noteq> Closed"
proof (induction ts arbitrary: s)
  case (Cons t ts)
  have "cb_state (cb_report_failure s t) \<noteq> Closed"
    using Cons.prems by (cases "cb_state s") (simp_all add: cb_report_failure_def Let_def)
  then show ?case using Cons.IH by simp
qed simp

lemma cb_failures_count:
  assumes "cb_inv c s" and "cb_state s = Closed"
  shows "cb_state (fold (\<lambda>t s. cb_report_failure s t) ts s) = Closed \<longleftrightarrow>
    ts = [] \<or> unat (cb_failure_count s) + length ts < unat (cf_failure_threshold c)"
  using assms
proof (induction ts arbitrary: s)
  case (Cons t ts)
  let ?s' = "cb_report_failure s t"
  have inv: "cb_inv c ?s'"
    by (rule cb_inv_step [OF Cons.prems(1), of "(Failure, t)"]) (simp add: cb_step_def)
  have lt: "cb_failure_count s < max (cf_failure_threshold c) 1" and cfg: "cb_config s = c"
    using Cons.prems by (simp_all add: cb_inv_def)
  have suc: "unat (cb_failure_count s + 1) = unat (cb_failure_count s) + 1"
    using lt unat_bound [of "max (cf_failure_threshold c) 1"]
    by (simp add: word_less_nat_alt unat_word_ariths)
  show ?case
  proof (cases "cf_failure_threshold c \<le> cb_failure_count s + 1")
    case True
    then have "cb_state ?s' = Open"
      using Cons.prems(2) cfg by (simp add: cb_report_failure_def Let_def)
    then show ?thesis
      using cb_failures_open [of ?s' ts] True suc by (simp add: word_le_nat_alt)
  next
    case False
    then have "cb_state ?s' = Closed" "cb_failure_count ?s' = cb_failure_count s + 1"
      using Cons.prems(2) cfg by (simp_all add: cb_report_failure_def Let_def)
    then show ?thesis
      using Cons.IH [OF inv] False suc by (auto simp: word_le_nat_alt)
  qed
qed simp

section \<open>Blocking and probing\<close>

lemma cb_open_blocks:
  assumes "cb_inv c s" and "cb_state s = Open" and "cb_opened_at s = Some t"
    and "Reset \<notin> fst ` set ops" and "sorted (map snd ops)"
    and "\<forall>x \<in> set ops. t \<le> snd x \<and> snd x < t + unat (cf_timeout_ms c) * ns_per_ms"
  shows "True \<notin> set (cb_answers s ops)"
  using assms
proof (induction ops arbitrary: s t)
  case (Cons a ops)
  obtain op now where a: "a = (op, now)" by (cases a)
  let ?s' = "the (cb_step s a)"
  have inv: "cb_inv c ?s'" by (rule cb_inv_step [OF Cons.prems(1), of a]) (simp add: cb_step_def)
  have now: "t \<le> now" "now < t + unat (cf_timeout_ms c) * ns_per_ms" "\<forall>x \<in> set ops. now \<le> snd x"
    using Cons.prems(5,6) a by auto
  have cfg: "cb_config s = c" using Cons.prems(1) by (simp add: cb_inv_def)
  have no: "op = Allow \<Longrightarrow> \<not> fst (cb_allow_request s now)"
  proof -
    have "\<not> unat (cf_timeout_ms c) * ns_per_ms \<le> now - t" using now by linarith
    then show "\<not> fst (cb_allow_request s now)"
      using Cons.prems(2,3) cfg by (simp add: cb_allow_request_def cb_timeout_def)
  qed
  define t' where "t' = (if op = Failure then now else t)"
  have s': "cb_state ?s' = Open" "cb_opened_at ?s' = Some t'"
    using Cons.prems(2-4) now cfg a
    by (cases op; simp add: cb_defs cb_timeout_def t'_def)+
  have "\<forall>x \<in> set ops. t' \<le> snd x \<and> snd x < t' + unat (cf_timeout_ms c) * ns_per_ms"
    using now Cons.prems(6) by (auto simp: t'_def)
  then show ?case
    using Cons.IH [OF inv s' _ _] Cons.prems(4,5) no a by auto
qed simp

lemma cb_probe_budget:
  assumes "cb_state s = HalfOpen" and "\<forall>x \<in> set ops. fst x = Allow"
  shows "admitted (cb_answers s ops) = min (length ops) (unat (cb_probes_remaining s))"
  using assms
proof (induction ops arbitrary: s)
  case (Cons a ops)
  obtain now where a: "a = (Allow, now)" using Cons.prems(2) by (cases a) auto
  show ?case
  proof (cases "cb_probes_remaining s = 0")
    case True
    then show ?thesis
      using Cons.IH [of "the (cb_step s a)"] Cons.prems a by (simp add: cb_defs)
  next
    case False
    then have "unat (cb_probes_remaining s - 1) = unat (cb_probes_remaining s) - 1"
        "0 < unat (cb_probes_remaining s)"
      by (simp_all add: unat_sub word_le_nat_alt unat_gt_0 Suc_leI)
    then show ?thesis
      using Cons.IH [of "the (cb_step s a)"] Cons.prems a False by (auto simp: cb_defs word_gt_0)
  qed
qed simp

lemma cb_open_probe_budget:
  assumes "cb_inv c s" and "cb_state s \<noteq> Closed" and "\<forall>x \<in> set ops. fst x = Allow"
  shows "admitted (cb_answers s ops) \<le> unat (cf_half_open_max_requests c)"
  using assms
proof (induction ops arbitrary: s)
  case (Cons a ops)
  obtain now where a: "a = (Allow, now)" using Cons.prems(3) by (cases a) auto
  have inv: "cb_inv c (the (cb_step s a))"
    by (rule cb_inv_step [OF Cons.prems(1), of a]) (simp add: cb_step_def)
  show ?case
  proof (cases "cb_state s")
    case HalfOpen
    then show ?thesis
      using cb_probe_budget [OF HalfOpen Cons.prems(3)] Cons.prems(1)
      by (simp add: cb_inv_def word_le_nat_alt min.coboundedI2 del: cb_answers.simps)
  next
    case Open
    then obtain t where t: "cb_opened_at s = Some t" "cb_config s = c"
      using Cons.prems(1) by (auto simp: cb_inv_def)
    show ?thesis
    proof (cases "cb_timeout s \<le> now - t")
      case True
      let ?h = "s\<lparr>cb_state := HalfOpen, cb_probes_remaining := cf_half_open_max_requests c\<rparr>"
      have "cb_answers s (a # ops) = cb_answers ?h (a # ops)"
        using True Open t a by (simp add: cb_defs)
      then show ?thesis
        using cb_probe_budget [of ?h "a # ops"] Cons.prems(3) by simp
    next
      case False
      then show ?thesis
        using Cons.IH [OF inv] Cons.prems(3) Open t a by (simp add: cb_defs)
    qed
  next
    case Closed
    then show ?thesis using Cons.prems(2) by simp
  qed
qed simp

section \<open>Properties\<close>

text \<open>C36: The breaker keeps its contract after any history of requests and reports: a closed
  circuit stays closed under further consecutive failures exactly while their number since
  the last success stays below the threshold; an open circuit answers no to every request
  before the timeout since its latest failure, whatever is reported meanwhile; and once open
  it lets at most the configured number of probes pass before one of them is reported. With
  a validated audit configuration the threshold is at least three and the timeout a minute.\<close>

theorem circuit_breaker_contract:
  assumes "cb_validate c = Inr ()" and "run cb_step (cb_new c) hist = Some s"
  shows "(cb_state s = Closed \<longrightarrow>
       (\<forall>ts. cb_state (fold (\<lambda>t s. cb_report_failure s t) ts s) = Closed \<longleftrightarrow>
          ts = [] \<or> unat (cb_failure_count s) + length ts < unat (cf_failure_threshold c))) \<and>
    (\<forall>t ops. cb_state s = Open \<and> cb_opened_at s = Some t \<and> Reset \<notin> fst ` set ops \<and>
       sorted (map snd ops) \<and>
       (\<forall>x \<in> set ops. t \<le> snd x \<and> snd x < t + unat (cf_timeout_ms c) * ns_per_ms) \<longrightarrow>
         True \<notin> set (cb_answers s ops)) \<and>
    (\<forall>ops. cb_state s \<noteq> Closed \<and> (\<forall>x \<in> set ops. fst x = Allow) \<longrightarrow>
       admitted (cb_answers s ops) \<le> unat (cf_half_open_max_requests c)) \<and>
    (cf_is_audit c \<longrightarrow> 3 \<le> cf_failure_threshold c \<and> 60000 \<le> cf_timeout_ms c)"
proof -
  note inv = cb_reachable_inv [OF assms(2)]
  have "cf_is_audit c \<longrightarrow> 3 \<le> cf_failure_threshold c \<and> 60000 \<le> cf_timeout_ms c"
    using assms(1) by (auto simp: cb_validate_def not_less split: if_splits)
  then show ?thesis
    using cb_failures_count [OF inv] cb_open_blocks [OF inv] cb_open_probe_budget [OF inv]
    by blast
qed

theorem circuit_breaker_contract_witness:
  "\<exists>s. run cb_step (cb_new cb_config_default) [(Allow, 0), (Failure, 1)] = Some s \<and>
     cb_state (fold (\<lambda>t s. cb_report_failure s t) [2, 3, 4] s) = Closed \<and>
     cb_state (fold (\<lambda>t s. cb_report_failure s t) [2, 3, 4, 5] s) \<noteq> Closed"
proof -
  have v: "cb_validate cb_config_default = Inr ()" by code_simp
  obtain s where s: "run cb_step (cb_new cb_config_default) [(Allow, 0), (Failure, 1)] = Some s"
    by (simp add: cb_step_def)
  have "map_option (\<lambda>s. (cb_state s, cb_failure_count s, cf_failure_threshold cb_config_default))
      (run cb_step (cb_new cb_config_default) [(Allow, 0), (Failure, 1)]) = Some (Closed, 1, 5)"
    by code_simp
  then have f: "cb_state s = Closed" "cb_failure_count s = 1" "cf_failure_threshold cb_config_default = 5"
    using s by auto
  note opens = circuit_breaker_contract [OF v s, THEN conjunct1, rule_format, OF f(1)]
  show ?thesis
    using opens [of "[2, 3, 4]"] opens [of "[2, 3, 4, 5]"] f(2,3) s by auto
qed

text \<open>A breaker can be lost for good: once half-open without probes left, which happens when
  no probes are configured or when the probes' outcomes are never reported, it refuses
  every later request however much time passes, because only a report leaves the half-open
  state.\<close>

theorem circuit_half_open_stuck:
  assumes "cb_state s = HalfOpen" and "cb_probes_remaining s = 0"
  shows "cb_answers s (map (Pair Allow) ts) = replicate (length ts) False \<and>
    (\<exists>s'. run cb_step s (map (Pair Allow) ts) = Some s' \<and> cb_state s' = HalfOpen)"
  using assms
proof (induction ts arbitrary: s)
  case (Cons t ts)
  have "cb_allow_request s t = (False, s\<lparr>cb_rejected_count := cb_rejected_count s + 1\<rparr>)"
    using Cons.prems by (simp add: cb_allow_request_def cb_probe_def)
  then show ?case
    using Cons.IH [of "s\<lparr>cb_rejected_count := cb_rejected_count s + 1\<rparr>"] Cons.prems
    by (simp add: cb_step_def)
qed simp

theorem circuit_half_open_stuck_witness:
  "\<exists>s. run cb_step (cb_new (cb_config_default\<lparr>cf_failure_threshold := 1, cf_timeout_ms := 1,
       cf_half_open_max_requests := 0\<rparr>)) [(Failure, 0), (Allow, 2000000)] = Some s \<and>
     cb_answers s (map (Pair Allow) [3000000, 4000000]) = replicate 2 False"
proof -
  let ?c = "cb_config_default\<lparr>cf_failure_threshold := 1, cf_timeout_ms := 1, cf_half_open_max_requests := 0\<rparr>"
  obtain s where s: "run cb_step (cb_new ?c) [(Failure, 0), (Allow, 2000000)] = Some s"
    by (simp add: cb_step_def)
  then have "cb_state s = HalfOpen" "cb_probes_remaining s = 0"
    by (auto simp: cb_step_def cb_new_def cb_config_default_def cb_report_failure_def
        cb_allow_request_def cb_probe_def cb_timeout_def Let_def ns_per_ms_def)
  from circuit_half_open_stuck [OF this, of "[3000000, 4000000]"] s show ?thesis
    by (auto simp: numeral_2_eq_2)
qed

end
