(* ===== verification/Replay_Guard.thy ===== *)
theory Replay_Guard
  imports Log_Record Machine "HOL-Library.AList"
begin

text \<open>
  The bounded replay guard of audit consumers (core/src/security/replay_guard.rs). The hash
  map of accepted records is an association list with unique keys, the deque a list; the
  mutex makes every operation atomic. \<open>window_size\<close> is a \<open>usize\<close>, at most a million by the
  policy's validation.
\<close>

section \<open>Data\<close>

datatype replay_decision =
    Accepted
  | Duplicate
  | HashConflict
  | TooOld
  | Gap u64 u64
  | InvalidLsn

fun is_accepted :: "replay_decision \<Rightarrow> bool" where
  "is_accepted Accepted = True"
| "is_accepted _ = False"

fun is_security_event :: "replay_decision \<Rightarrow> bool" where
  "is_security_event HashConflict = True"
| "is_security_event TooOld = True"
| "is_security_event (Gap expected found) = True"
| "is_security_event InvalidLsn = True"
| "is_security_event _ = False"

record replay_policy =
  rp_window_size :: nat
  rp_reject_gaps :: bool
  rp_reject_duplicates :: bool

definition replay_policy_default :: replay_policy where
  "replay_policy_default =
     \<lparr>rp_window_size = 4096, rp_reject_gaps = True, rp_reject_duplicates = False\<rparr>"

datatype replay_policy_error = InvalidWindow

definition replay_validate :: "replay_policy \<Rightarrow> replay_policy_error + unit" where
  "replay_validate p =
     (if rp_window_size p = 0 \<or> 1000000 < rp_window_size p then Inl InvalidWindow else Inr ())"

record replay_guard =
  rg_policy :: replay_policy
  rg_highest :: u64
  rg_entries :: "(u64 \<times> bytes) list"
  rg_order :: "u64 list"
  rg_accepted :: u64
  rg_duplicates :: u64
  rg_conflicts :: u64
  rg_too_old :: u64
  rg_gaps :: u64

definition replay_state_new :: "replay_policy \<Rightarrow> replay_guard" where
  "replay_state_new p =
     \<lparr>rg_policy = p, rg_highest = 0, rg_entries = [], rg_order = [], rg_accepted = 0,
      rg_duplicates = 0, rg_conflicts = 0, rg_too_old = 0, rg_gaps = 0\<rparr>"

definition replay_guard_new :: "replay_policy \<Rightarrow> replay_policy_error + replay_guard" where
  "replay_guard_new p = r_bind (replay_validate p) (\<lambda>_. Inr (replay_state_new p))"

section \<open>Operations\<close>

fun evict_loop :: "nat \<Rightarrow> u64 list \<Rightarrow> (u64 \<times> bytes) list \<Rightarrow> u64 list \<times> (u64 \<times> bytes) list" where
  "evict_loop capacity [] es = ([], es)"
| "evict_loop capacity (lsn # order) es =
     (if capacity < length (lsn # order) then evict_loop capacity order (AList.delete lsn es)
      else (lsn # order, es))"

definition evict_to :: "nat \<Rightarrow> replay_guard \<Rightarrow> replay_guard" where
  "evict_to capacity s =
     (case evict_loop capacity (rg_order s) (rg_entries s) of
        (order, es) \<Rightarrow> s\<lparr>rg_order := order, rg_entries := es\<rparr>)"

definition observe :: "replay_guard \<Rightarrow> u64 \<Rightarrow> bytes \<Rightarrow> replay_decision \<times> replay_guard" where
  "observe s lsn content_hash =
     (let window = rp_window_size (rg_policy s); w64 = of_nat window :: u64 in
      if lsn = 0 then (InvalidLsn, s\<lparr>rg_conflicts := sat_add64 (rg_conflicts s) 1\<rparr>)
      else
        case map_of (rg_entries s) lsn of
          Some previous \<Rightarrow>
            if previous = content_hash then
              (Duplicate, s\<lparr>rg_duplicates := sat_add64 (rg_duplicates s) 1\<rparr>)
            else (HashConflict, s\<lparr>rg_conflicts := sat_add64 (rg_conflicts s) 1\<rparr>)
        | None \<Rightarrow>
            if w64 < rg_highest s \<and> sat_add64 lsn w64 \<le> rg_highest s then
              (TooOld, s\<lparr>rg_too_old := sat_add64 (rg_too_old s) 1\<rparr>)
            else if rp_reject_gaps (rg_policy s) \<and> sat_add64 (rg_highest s) 1 < lsn then
              (Gap (sat_add64 (rg_highest s) 1) lsn, s\<lparr>rg_gaps := sat_add64 (rg_gaps s) 1\<rparr>)
            else
              let s1 = (if rg_highest s < lsn then s\<lparr>rg_highest := lsn\<rparr> else s);
                  s2 = s1\<lparr>rg_entries := AList.update lsn content_hash (rg_entries s1),
                          rg_order := rg_order s1 @ [lsn]\<rparr>;
                  s3 = evict_to window s2
              in (Accepted, s3\<lparr>rg_accepted := sat_add64 (rg_accepted s3) 1\<rparr>))"

definition observe_record :: "replay_guard \<Rightarrow> log_record \<Rightarrow> replay_decision \<times> replay_guard" where
  "observe_record s r = observe s (rec_lsn r) (rec_content_hash r)"

record replay_stats =
  st_highest_lsn :: u64
  st_retained :: nat
  st_accepted :: u64
  st_duplicates :: u64
  st_conflicts :: u64
  st_too_old :: u64
  st_gaps :: u64

definition replay_snapshot :: "replay_guard \<Rightarrow> replay_stats" where
  "replay_snapshot s =
     \<lparr>st_highest_lsn = rg_highest s, st_retained = length (rg_entries s),
      st_accepted = rg_accepted s, st_duplicates = rg_duplicates s, st_conflicts = rg_conflicts s,
      st_too_old = rg_too_old s, st_gaps = rg_gaps s\<rparr>"

definition replay_reset :: "replay_guard \<Rightarrow> replay_guard" where
  "replay_reset s = replay_state_new (rg_policy s)"

text \<open>Any sequence of submissions, with its decisions.\<close>

fun observe_all :: "replay_guard \<Rightarrow> (u64 \<times> bytes) list \<Rightarrow> replay_decision list \<times> replay_guard" where
  "observe_all s [] = ([], s)"
| "observe_all s ((lsn, h) # xs) =
     (case observe s lsn h of (d, s1) \<Rightarrow> (case observe_all s1 xs of (ds, s2) \<Rightarrow> (d # ds, s2)))"

section \<open>The abstract log\<close>

text \<open>
  A guard that rejects gaps is a log of the accepted hashes, number \<open>n\<close> at position \<open>n - 1\<close>,
  of which it remembers the last \<open>w\<close> entries.
\<close>

definition log_decide :: "nat \<Rightarrow> bytes list \<Rightarrow> u64 \<Rightarrow> bytes \<Rightarrow> replay_decision" where
  "log_decide w log lsn h =
     (let n = length log; k = unat lsn in
      if k = 0 then InvalidLsn
      else if k = n + 1 then Accepted
      else if n + 1 < k then Gap (of_nat (n + 1)) lsn
      else if k + w \<le> n then TooOld
      else if log ! (k - 1) = h then Duplicate
      else HashConflict)"

fun log_all :: "nat \<Rightarrow> bytes list \<Rightarrow> (u64 \<times> bytes) list \<Rightarrow> replay_decision list \<times> bytes list" where
  "log_all w log [] = ([], log)"
| "log_all w log ((lsn, h) # xs) =
     (let d = log_decide w log lsn h in
      case log_all w (if d = Accepted then log @ [h] else log) xs of
        (ds, log') \<Rightarrow> (d # ds, log'))"

definition rg_refines :: "replay_guard \<Rightarrow> bytes list \<Rightarrow> bool" where
  "rg_refines s log \<longleftrightarrow>
     (let w = rp_window_size (rg_policy s); n = length log in
      0 < w \<and> w \<le> 1000000 \<and> rp_reject_gaps (rg_policy s) \<and>
      unat (rg_highest s) = n \<and>
      rg_order s = map of_nat [max 1 (n + 1 - w) ..< n + 1] \<and>
      distinct (map fst (rg_entries s)) \<and> length (rg_entries s) = min w n \<and>
      (\<forall>k. map_of (rg_entries s) k =
         (if k \<noteq> 0 \<and> unat k \<le> n \<and> n < unat k + w then Some (log ! (unat k - 1)) else None)))"

section \<open>Refinement\<close>

lemma length_update_absent:
  "k \<notin> fst ` set al \<Longrightarrow> length (AList.update k v al) = Suc (length al)"
  by (induction al) auto

lemma delete_absent: "k \<notin> fst ` set al \<Longrightarrow> AList.delete k al = al"
  by (induction al) auto

lemma length_delete_present:
  "distinct (map fst al) \<Longrightarrow> k \<in> fst ` set al \<Longrightarrow> Suc (length (AList.delete k al)) = length al"
  by (induction al) (auto simp: delete_absent)

lemma evict_loop_fits: "length order \<le> capacity \<Longrightarrow> evict_loop capacity order es = (order, es)"
  by (cases order) auto

lemma evict_loop_one:
  "length order = capacity \<Longrightarrow> evict_loop capacity (x # order) es = (order, AList.delete x es)"
  by (simp add: evict_loop_fits)

lemma map_of_absent: "map_of al k = None \<longleftrightarrow> k \<notin> fst ` set al"
  by (simp add: map_of_eq_None_iff)

lemma u64_eq_of_nat: "n < 2 ^ 64 \<Longrightarrow> (k :: u64) = of_nat n \<longleftrightarrow> unat k = n"
  by (auto simp: unat_of_nat take_bit_nat_eq_self)

lemma u64_window: "w \<le> 1000000 \<Longrightarrow> unat (of_nat w :: u64) = w"
  by (simp add: unat_of_nat take_bit_nat_eq_self)

text \<open>The slots of the window after the number \<open>n + 1\<close> is pushed and the eviction ran.\<close>

lemma window_push:
  assumes "0 < w" and "n + 1 < 2 ^ 64" and "distinct (map fst es)" and "length es = min w n"
    and "\<forall>k. map_of es k = (if k \<noteq> 0 \<and> unat k \<le> n \<and> n < unat k + w then Some (f k) else None)"
    and "unat lsn = n + 1"
    and "evict_loop w (map of_nat [max 1 (n + 1 - w) ..< n + 1] @ [lsn]) (AList.update lsn h es) = (order', es')"
  shows "order' = map of_nat [max 1 (n + 2 - w) ..< n + 2] \<and> distinct (map fst es') \<and>
    length es' = min w (n + 1) \<and>
    (\<forall>k. map_of es' k = (if k = lsn then Some h
       else if k \<noteq> 0 \<and> unat k \<le> n + 1 \<and> n + 1 < unat k + w then Some (f k) else None))"
proof -
  have lsn: "lsn = of_nat (n + 1)" using u64_eq_of_nat [OF assms(2), of lsn] assms(6) by blast
  have absent: "lsn \<notin> fst ` set es"
    using assms(5,6) by (simp flip: map_of_absent)
  have nl: "unat k \<noteq> n + 1" if "k \<noteq> lsn" for k
    using that assms(6) by (simp add: word_unat_eq_iff)
  let ?es = "AList.update lsn h es"
  have upd: "distinct (map fst ?es)" "length ?es = Suc (min w n)"
      "map_of ?es = (map_of es)(lsn \<mapsto> h)"
    using assms(3,4) absent by (simp_all add: distinct_update length_update_absent update_conv')
  have order: "map of_nat [max 1 (n + 1 - w) ..< n + 1] @ [lsn] = map of_nat [max 1 (n + 1 - w) ..< n + 2]"
    by (simp add: lsn max_def)
  show ?thesis
  proof (cases "n < w")
    case True
    then have "order' = map of_nat [max 1 (n + 1 - w) ..< n + 2]" "es' = ?es"
      using assms(7) unfolding order by (simp_all add: evict_loop_fits)
    moreover have "max 1 (n + 1 - w) = max 1 (n + 2 - w)" using True by simp
    moreover have "map_of ?es k = (if k = lsn then Some h
       else if k \<noteq> 0 \<and> unat k \<le> n + 1 \<and> n + 1 < unat k + w then Some (f k) else None)" for k
    proof (cases "k = lsn")
      case True
      then show ?thesis by (simp add: upd(3))
    next
      case other: False
      have "k \<noteq> 0 \<and> unat k \<le> n \<and> n < unat k + w \<longleftrightarrow>
          k \<noteq> 0 \<and> unat k \<le> n + 1 \<and> n + 1 < unat k + w"
        using nl [OF other] True unat_gt_0 [of k] by linarith
      then show ?thesis using other assms(5) by (simp add: upd(3))
    qed
    ultimately show ?thesis using True upd by simp
  next
    case False
    define old :: u64 where "old = of_nat (n + 1 - w)"
    have cut: "map of_nat [max 1 (n + 1 - w) ..< n + 2] = old # map of_nat [n + 2 - w ..< n + 2]"
      using False assms(1) by (simp add: old_def max_def upt_conv_Cons Suc_diff_le del: upt_Suc)
    have "evict_loop w (old # map of_nat [n + 2 - w ..< n + 2]) ?es =
        (map of_nat [n + 2 - w ..< n + 2], AList.delete old ?es)"
      using False by (intro evict_loop_one) (simp del: upt_Suc)
    then have ev: "order' = map of_nat [n + 2 - w ..< n + 2]" "es' = AList.delete old ?es"
      using assms(7) unfolding order cut by simp_all
    have "unat old = n + 1 - w"
      using u64_eq_of_nat [of "n + 1 - w" old] assms(2) old_def by simp
    then have old: "unat old = n + 1 - w" "old \<noteq> 0" "old \<noteq> lsn"
      using False assms(1,6) by auto
    have ne: "unat k \<noteq> n + 1 - w" if "k \<noteq> old" for k
      using that old(1) by (simp add: word_unat_eq_iff)
    have "map_of es old \<noteq> None"
      using old False assms(1,5) by auto
    then have "old \<in> fst ` set ?es"
      using upd(3) by (metis fun_upd_apply map_of_absent option.discI)
    then have len: "length es' = w"
      using length_delete_present [OF upd(1)] upd(2) False by (simp add: ev(2) min_def split: if_splits)
    have "map_of es' k = (if k = lsn then Some h
       else if k \<noteq> 0 \<and> unat k \<le> n + 1 \<and> n + 1 < unat k + w then Some (f k) else None)" for k
    proof (cases "k = old \<or> k = lsn")
      case True
      then show ?thesis using old False by (auto simp: ev(2) delete_conv' upd(3))
    next
      case other: False
      then have "map_of es' k = map_of es k" by (simp add: ev(2) delete_conv' upd(3))
      moreover have "unat k \<le> n \<and> n < unat k + w \<longleftrightarrow> unat k \<le> n + 1 \<and> n + 1 < unat k + w"
        using other ne [of k] nl [of k] False by auto
      ultimately show ?thesis using other assms(5) by auto
    qed
    moreover have "max 1 (n + 2 - w) = n + 2 - w" using False by simp
    ultimately show ?thesis
      using False len distinct_delete [OF upd(1)] by (simp only: ev) simp
  qed
qed

lemma rg_refines_counters [simp]:
  "rg_refines (s\<lparr>rg_conflicts := c\<rparr>) log = rg_refines s log"
  "rg_refines (s\<lparr>rg_duplicates := c\<rparr>) log = rg_refines s log"
  "rg_refines (s\<lparr>rg_too_old := c\<rparr>) log = rg_refines s log"
  "rg_refines (s\<lparr>rg_gaps := c\<rparr>) log = rg_refines s log"
  by (simp_all add: rg_refines_def)

text \<open>The decision tree of \<open>observe\<close>, case by case.\<close>

lemma observe_zero: "observe s 0 h = (InvalidLsn, s\<lparr>rg_conflicts := sat_add64 (rg_conflicts s) 1\<rparr>)"
  by (simp add: observe_def Let_def)

lemma observe_seen:
  "lsn \<noteq> 0 \<Longrightarrow> map_of (rg_entries s) lsn = Some p \<Longrightarrow>
     observe s lsn h = (if p = h then (Duplicate, s\<lparr>rg_duplicates := sat_add64 (rg_duplicates s) 1\<rparr>)
       else (HashConflict, s\<lparr>rg_conflicts := sat_add64 (rg_conflicts s) 1\<rparr>))"
  by (simp add: observe_def Let_def)

lemma observe_old:
  "lsn \<noteq> 0 \<Longrightarrow> map_of (rg_entries s) lsn = None \<Longrightarrow>
     of_nat (rp_window_size (rg_policy s)) < rg_highest s \<Longrightarrow>
     sat_add64 lsn (of_nat (rp_window_size (rg_policy s))) \<le> rg_highest s \<Longrightarrow>
     observe s lsn h = (TooOld, s\<lparr>rg_too_old := sat_add64 (rg_too_old s) 1\<rparr>)"
  by (simp add: observe_def Let_def)

lemma observe_gap:
  "lsn \<noteq> 0 \<Longrightarrow> map_of (rg_entries s) lsn = None \<Longrightarrow>
     \<not> sat_add64 lsn (of_nat (rp_window_size (rg_policy s))) \<le> rg_highest s \<Longrightarrow>
     rp_reject_gaps (rg_policy s) \<Longrightarrow> sat_add64 (rg_highest s) 1 < lsn \<Longrightarrow>
     observe s lsn h = (Gap (sat_add64 (rg_highest s) 1) lsn, s\<lparr>rg_gaps := sat_add64 (rg_gaps s) 1\<rparr>)"
  by (simp add: observe_def Let_def)

lemma observe_new:
  assumes "lsn \<noteq> 0" "map_of (rg_entries s) lsn = None"
    and "\<not> sat_add64 lsn (of_nat (rp_window_size (rg_policy s))) \<le> rg_highest s"
    and "\<not> sat_add64 (rg_highest s) 1 < lsn" "rg_highest s < lsn"
    and "evict_loop (rp_window_size (rg_policy s)) (rg_order s @ [lsn])
           (AList.update lsn h (rg_entries s)) = (order', es')"
  shows "\<exists>s'. observe s lsn h = (Accepted, s') \<and> rg_policy s' = rg_policy s \<and>
    rg_highest s' = lsn \<and> rg_order s' = order' \<and> rg_entries s' = es'"
  using assms by (simp add: observe_def Let_def evict_to_def)

lemma rg_refines_observe:
  assumes "rg_refines s log" and "observe s lsn h = (d, s')"
  shows "d = log_decide (rp_window_size (rg_policy s)) log lsn h \<and>
    rg_refines s' (if d = Accepted then log @ [h] else log) \<and> rg_policy s' = rg_policy s"
proof -
  define w where "w = rp_window_size (rg_policy s)"
  define n where "n = length log"
  have w: "0 < w" "w \<le> 1000000" and rej: "rp_reject_gaps (rg_policy s)"
    and high: "unat (rg_highest s) = n"
    and order: "rg_order s = map of_nat [max 1 (n + 1 - w) ..< n + 1]"
    and dist: "distinct (map fst (rg_entries s))" "length (rg_entries s) = min w n"
    and ent: "\<forall>k. map_of (rg_entries s) k =
       (if k \<noteq> 0 \<and> unat k \<le> n \<and> n < unat k + w then Some (log ! (unat k - 1)) else None)"
    using assms(1) by (simp_all add: rg_refines_def Let_def w_def n_def)
  have w64: "unat (of_nat w :: u64) = w" by (rule u64_window [OF w(2)])
  have nb: "n < 2 ^ 64" using high unat_bound [of "rg_highest s"] by simp
  consider (zero) "lsn = 0" | (succ) "unat lsn = n + 1" | (gap) "n + 1 < unat lsn"
    | (old) "lsn \<noteq> 0" "unat lsn + w \<le> n" | (seen) "lsn \<noteq> 0" "unat lsn \<le> n" "n < unat lsn + w"
    by linarith
  then show ?thesis
  proof cases
    case zero
    then show ?thesis using assms by (auto simp: observe_zero log_decide_def Let_def)
  next
    case seen
    then have "map_of (rg_entries s) lsn = Some (log ! (unat lsn - 1))" using ent by simp
    moreover have "log_decide w log lsn h = (if log ! (unat lsn - 1) = h then Duplicate else HashConflict)"
      using seen by (simp add: log_decide_def Let_def n_def unat_gt_0)
    ultimately show ?thesis using assms observe_seen [OF seen(1)]
      by (auto simp: w_def split: if_splits)
  next
    case old
    then have "map_of (rg_entries s) lsn = None" using ent by simp
    moreover have p: "0 < unat lsn" using old(1) by (simp add: unat_gt_0)
    then have "of_nat w < rg_highest s" "sat_add64 lsn (of_nat w) \<le> rg_highest s"
      using old w64 high p
      by (simp_all add: word_less_nat_alt word_le_nat_alt unat_sat_add64)
    moreover have "log_decide w log lsn h = TooOld"
      using old w(1) by (simp add: log_decide_def Let_def n_def unat_gt_0)
    ultimately show ?thesis using assms observe_old [OF old(1)] by (auto simp: w_def)
  next
    case gap
    have nz: "lsn \<noteq> 0" "map_of (rg_entries s) lsn = None" using gap ent by auto
    have lb: "unat lsn < 2 ^ 64" using unat_bound [of lsn] by simp
    have "\<not> sat_add64 lsn (of_nat w) \<le> rg_highest s"
      using gap w64 high lb by (simp add: word_le_nat_alt unat_sat_add64)
    moreover have "unat (sat_add64 (rg_highest s) 1) = n + 1"
      using gap lb high by (simp add: unat_sat_add64)
    then have "sat_add64 (rg_highest s) 1 < lsn" "sat_add64 (rg_highest s) 1 = of_nat (n + 1)"
      using gap lb u64_eq_of_nat [of "n + 1" "sat_add64 (rg_highest s) 1"]
      by (simp_all add: word_less_nat_alt)
    moreover have "log_decide w log lsn h = Gap (of_nat (n + 1)) lsn"
      using gap by (simp add: log_decide_def Let_def n_def)
    ultimately show ?thesis using assms observe_gap [OF nz _ rej] by (auto simp: w_def)
  next
    case succ
    have nz: "lsn \<noteq> 0" "map_of (rg_entries s) lsn = None" using succ ent by auto
    have lb: "unat lsn < 2 ^ 64" using unat_bound [of lsn] by simp
    have no: "\<not> sat_add64 lsn (of_nat w) \<le> rg_highest s" "\<not> sat_add64 (rg_highest s) 1 < lsn"
        "rg_highest s < lsn"
      using succ w64 high lb by (simp_all add: word_le_nat_alt word_less_nat_alt unat_sat_add64)
    obtain order' es' where ev: "evict_loop w (rg_order s @ [lsn]) (AList.update lsn h (rg_entries s)) = (order', es')"
      by fastforce
    have push: "order' = map of_nat [max 1 (n + 2 - w) ..< n + 2] \<and> distinct (map fst es') \<and>
      length es' = min w (n + 1) \<and>
      (\<forall>k. map_of es' k = (if k = lsn then Some h
         else if k \<noteq> 0 \<and> unat k \<le> n + 1 \<and> n + 1 < unat k + w then Some (log ! (unat k - 1)) else None))"
      by (rule window_push [OF w(1) _ dist ent succ ev [unfolded order]]) (use succ lb in simp)
    have d: "d = Accepted"
      and s': "rg_policy s' = rg_policy s" "rg_highest s' = lsn" "rg_order s' = order'" "rg_entries s' = es'"
      using assms(2) observe_new [OF nz no [unfolded w_def] ev [unfolded w_def]] by auto
    have "map_of es' k = (if k \<noteq> 0 \<and> unat k \<le> n + 1 \<and> n + 1 < unat k + w
        then Some ((log @ [h]) ! (unat k - 1)) else None)" for k
    proof (cases "k = lsn")
      case True
      then show ?thesis using push nz succ w(1) by (simp add: n_def nth_append)
    next
      case False
      then have "unat k \<noteq> n + 1" using succ by (simp add: word_unat_eq_iff)
      then have "(log @ [h]) ! (unat k - 1) = log ! (unat k - 1)" if "k \<noteq> 0" "unat k \<le> n + 1"
      proof -
        have "0 < unat k" using that(1) by (simp add: unat_gt_0)
        with \<open>unat k \<noteq> n + 1\<close> that(2) have "unat k - 1 < length log"
          unfolding n_def by linarith
        then show ?thesis by (simp add: nth_append)
      qed
      then show ?thesis using push False by auto
    qed
    then have "rg_refines s' (log @ [h])"
      using push w rej succ by (simp add: rg_refines_def Let_def s' w_def [symmetric] n_def [symmetric])
    then show ?thesis using d succ by (simp add: s' log_decide_def Let_def n_def)
  qed
qed

lemma rg_refines_all:
  "rg_refines s log \<Longrightarrow> observe_all s xs = (ds, s') \<Longrightarrow>
     rg_policy s' = rg_policy s \<and>
     (\<exists>log'. log_all (rp_window_size (rg_policy s)) log xs = (ds, log') \<and> rg_refines s' log')"
proof (induction xs arbitrary: s log ds)
  case (Cons x xs)
  obtain lsn h where x: "x = (lsn, h)" by (cases x)
  obtain d s1 where o: "observe s lsn h = (d, s1)" by (cases "observe s lsn h")
  obtain ds1 where r: "observe_all s1 xs = (ds1, s')" and ds: "ds = d # ds1"
    using Cons.prems(2) o x by (auto split: prod.splits)
  note st = rg_refines_observe [OF Cons.prems(1) o]
  obtain log' where "log_all (rp_window_size (rg_policy s)) (if d = Accepted then log @ [h] else log) xs = (ds1, log')"
      "rg_refines s' log'"
    using Cons.IH [OF _ r] st by auto
  moreover have "rg_policy s' = rg_policy s1"
    using Cons.IH [OF _ r] st by blast
  ultimately show ?case using st x ds by (auto simp: Let_def)
qed simp

lemma log_all_accepted:
  "log_all w log xs = (ds, log') \<Longrightarrow> length ds = length xs \<and>
     log' = log @ map (snd \<circ> fst) (filter (\<lambda>(x, d). d = Accepted) (zip xs ds)) \<and>
     map (unat \<circ> fst \<circ> fst) (filter (\<lambda>(x, d). d = Accepted) (zip xs ds)) =
       [length log + 1 ..< length log' + 1]"
proof (induction xs arbitrary: log ds)
  case (Cons x xs)
  obtain lsn h where x: "x = (lsn, h)" by (cases x)
  define d where "d = log_decide w log lsn h"
  obtain ds1 where r: "log_all w (if d = Accepted then log @ [h] else log) xs = (ds1, log')"
    and ds: "ds = d # ds1"
    using Cons.prems x by (auto simp: Let_def d_def split: prod.splits)
  have acc: "d = Accepted \<Longrightarrow> unat lsn = length log + 1"
    by (auto simp: d_def log_decide_def Let_def split: if_splits)
  show ?case
  proof (cases "d = Accepted")
    case True
    note ih = Cons.IH [OF r]
    have "length log + 1 < length log' + 1" using ih True by auto
    then show ?thesis using ih True acc x ds by (simp add: upt_conv_Cons del: upt_Suc)
  next
    case False
    then show ?thesis using Cons.IH [OF r] x ds by simp
  qed
qed simp

lemma rg_refines_new: "replay_guard_new p = Inr s \<Longrightarrow> rp_reject_gaps p \<Longrightarrow> rg_refines s [] \<and> rg_policy s = p"
  by (auto simp: replay_guard_new_def replay_validate_def replay_state_new_def rg_refines_def Let_def
      r_bind_def max_def unat_eq_zero split: if_splits)

section \<open>Properties\<close>

text \<open>C35: A guard that rejects gaps is exactly an append-only log with a bounded memory: of any
  submissions, whatever their numbers, hashes and order, the accepted ones carry the numbers
  1, 2, 3 and so on, each once and in order; every decision is the one the log of the
  accepted hashes gives (duplicate or conflict inside the window, too old before it, a gap
  beyond the next number); and the guard never retains more entries than its window.\<close>

theorem replay_guard_is_log:
  assumes "replay_guard_new p = Inr s0" and "rp_reject_gaps p"
    and "observe_all s0 xs = (ds, s)"
  shows "\<exists>log. log_all (rp_window_size p) [] xs = (ds, log) \<and>
    log = map (snd \<circ> fst) (filter (\<lambda>(x, d). d = Accepted) (zip xs ds)) \<and>
    map (unat \<circ> fst \<circ> fst) (filter (\<lambda>(x, d). d = Accepted) (zip xs ds)) = [1 ..< length log + 1] \<and>
    unat (st_highest_lsn (replay_snapshot s)) = length log \<and>
    st_retained (replay_snapshot s) = min (rp_window_size p) (length log)"
proof -
  note init = rg_refines_new [OF assms(1,2)]
  obtain log where log: "log_all (rp_window_size p) [] xs = (ds, log)" "rg_refines s log"
    and pol: "rg_policy s = p"
    using rg_refines_all [OF _ assms(3)] init by blast
  show ?thesis
    using log_all_accepted [OF log(1)] log pol
    by (auto simp: rg_refines_def Let_def replay_snapshot_def)
qed

theorem replay_guard_is_log_witness:
  "\<exists>s0 s. replay_guard_new (replay_policy_default\<lparr>rp_window_size := 2\<rparr>) = Inr s0 \<and>
     observe_all s0 [(1, [7]), (3, [9]), (2, [8]), (2, [8]), (2, [5]), (3, [9]), (1, [7])] =
       ([Accepted, Gap 2 3, Accepted, Duplicate, HashConflict, Accepted, TooOld], s)"
proof -
  let ?p = "replay_policy_default\<lparr>rp_window_size := 2\<rparr>"
  let ?xs = "[(1, [7]), (3, [9]), (2, [8]), (2, [8]), (2, [5]), (3, [9]), (1, [7])] :: (u64 \<times> bytes) list"
  obtain s0 where s0: "replay_guard_new ?p = Inr s0"
    by (simp add: replay_guard_new_def replay_validate_def replay_policy_default_def r_bind_def)
  obtain ds s where o: "observe_all s0 ?xs = (ds, s)" by (cases "observe_all s0 ?xs")
  have rej: "rp_reject_gaps ?p" by (simp add: replay_policy_default_def)
  have "fst (log_all 2 [] ?xs) = [Accepted, Gap 2 3, Accepted, Duplicate, HashConflict, Accepted, TooOld]"
    by code_simp
  then have "ds = [Accepted, Gap 2 3, Accepted, Duplicate, HashConflict, Accepted, TooOld]"
    using replay_guard_is_log [OF s0 rej o] by auto
  then show ?thesis using s0 o by blast
qed

text \<open>Accepting gaps gives replay back: with \<open>reject_gaps\<close> off and a window of two, a record is
  accepted, pushed out of the memory by a lower number that arrives late and a higher one,
  and the same record with the same hash is then accepted a second time as fresh evidence.\<close>

theorem replay_reaccepted_with_gaps:
  "fst (observe_all
      (replay_state_new \<lparr>rp_window_size = 2, rp_reject_gaps = False, rp_reject_duplicates = True\<rparr>)
      [(10, h), (9, a), (11, b), (10, h)]) = [Accepted, Accepted, Accepted, Accepted]"
  by (simp add: replay_state_new_def observe_def Let_def evict_to_def sat_add64_def word_less_nat_alt)

end
