(* ===== verification/Crc32c.thy ===== *)
theory Crc32c
  imports Prelude "HOL-Library.List_Lexorder" "HOL-Library.Multiset"
begin

text \<open>
  The checksum helper (core/src/security/crc32c.rs): the selection of an implementation, its
  three paths and the checksum of field pairs. The processor's instructions are parameters
  of the model, one function per operand width, as is the outcome of the feature test; what
  the paths rely on is the documented fact that a wide instruction equals the byte
  instruction on the operand's bytes, lowest first.
\<close>

unbundle bit_operations_syntax

section \<open>Chunks\<close>

text \<open>\<open>slice::chunks_exact\<close> with its remainder.\<close>

function chunks_exact :: "nat \<Rightarrow> 'a list \<Rightarrow> 'a list list \<times> 'a list" where
  "chunks_exact n xs =
     (if n = 0 \<or> length xs < n then ([], xs)
      else case chunks_exact n (drop n xs) of (cs, r) \<Rightarrow> (take n xs # cs, r))"
  by pat_completeness auto
termination by (relation "measure (\<lambda>(n, xs). length xs)") auto

declare chunks_exact.simps [simp del]

lemma chunks_exact_concat:
  "chunks_exact n xs = (cs, r) \<Longrightarrow> concat cs @ r = xs \<and> (\<forall>c \<in> set cs. length c = n)"
proof (induction n xs arbitrary: cs r rule: chunks_exact.induct)
  case (1 n xs)
  show ?case
  proof (cases "n = 0 \<or> length xs < n")
    case True
    then have "chunks_exact n xs = ([], xs)" by (subst chunks_exact.simps) auto
    then show ?thesis using 1(2) by simp
  next
    case False
    obtain cs1 r1 where c: "chunks_exact n (drop n xs) = (cs1, r1)"
      by (cases "chunks_exact n (drop n xs)")
    then have "chunks_exact n xs = (take n xs # cs1, r1)"
      using False by (subst chunks_exact.simps) auto
    then have "cs = take n xs # cs1" "r = r1" using 1(2) by simp_all
    with 1(1) [OF False c] False show ?thesis
      by auto
  qed
qed

section \<open>Software\<close>

definition CRC32C_POLYNOMIAL :: u32 where "CRC32C_POLYNOMIAL = 0x1EDC6F41"

definition crc_bit :: "u32 \<Rightarrow> u32 \<Rightarrow> u32" where
  "crc_bit polynomial crc =
     (if crc AND 1 \<noteq> 0 then polynomial XOR drop_bit 1 crc else drop_bit 1 crc)"

fun crc_bits :: "nat \<Rightarrow> u32 \<Rightarrow> u32 \<Rightarrow> u32" where
  "crc_bits 0 polynomial crc = crc"
| "crc_bits (Suc j) polynomial crc = crc_bits j polynomial (crc_bit polynomial crc)"

definition CRC32C_TABLE :: "u32 list" where
  "CRC32C_TABLE = map (\<lambda>i. crc_bits 8 CRC32C_POLYNOMIAL (of_nat i)) [0..<256]"

definition crc_lookup :: "u32 \<Rightarrow> u32" where
  "crc_lookup idx = CRC32C_TABLE ! unat (idx AND 0xFF)"

definition crc_byte :: "u32 \<Rightarrow> u8 \<Rightarrow> u32" where
  "crc_byte crc byte = crc_lookup (crc XOR ucast byte) XOR drop_bit 8 crc"

definition crc32c_table_entry :: "u32 \<Rightarrow> u64 \<Rightarrow> u32" where
  "crc32c_table_entry c0 word =
     (let lo = ucast word; hi = ucast (drop_bit 32 word);
          c1 = crc_lookup (c0 XOR lo) XOR drop_bit 8 c0;
          c2 = crc_lookup (c1 XOR drop_bit 8 lo) XOR drop_bit 8 c1;
          c3 = crc_lookup (c2 XOR drop_bit 16 lo) XOR drop_bit 8 c2;
          c4 = crc_lookup (c3 XOR drop_bit 24 lo) XOR drop_bit 8 c3;
          c5 = crc_lookup (c4 XOR hi) XOR drop_bit 8 c4;
          c6 = crc_lookup (c5 XOR drop_bit 8 hi) XOR drop_bit 8 c5;
          c7 = crc_lookup (c6 XOR drop_bit 16 hi) XOR drop_bit 8 c6
      in crc_lookup (c7 XOR drop_bit 24 hi) XOR drop_bit 8 c7)"

definition crc32c_software :: "u32 \<Rightarrow> bytes \<Rightarrow> u32" where
  "crc32c_software initial data =
     (case chunks_exact 8 data of (chunks, remainder) \<Rightarrow>
        NOT (foldl crc_byte
          (foldl (\<lambda>crc chunk. crc32c_table_entry crc (u64_of chunk)) (NOT initial) chunks)
          remainder))"

section \<open>Hardware\<close>

record crc_instructions =
  hw_u8 :: "u32 \<Rightarrow> u8 \<Rightarrow> u32"
  hw_u32 :: "u32 \<Rightarrow> u32 \<Rightarrow> u32"
  hw_u64 :: "u32 \<Rightarrow> u64 \<Rightarrow> u32"

datatype target_arch = X86 | X86_64 | Aarch64 | OtherArch

definition crc_wide :: "(u32 \<Rightarrow> 'w \<Rightarrow> u32) \<Rightarrow> nat \<Rightarrow> (bytes \<Rightarrow> 'w) \<Rightarrow> (u32 \<Rightarrow> u8 \<Rightarrow> u32) \<Rightarrow>
    u32 \<Rightarrow> bytes \<Rightarrow> u32" where
  "crc_wide wide width word_of narrow initial data =
     (case chunks_exact width data of (chunks, remainder) \<Rightarrow>
        NOT (foldl narrow (foldl (\<lambda>crc chunk. wide crc (word_of chunk)) (NOT initial) chunks)
          remainder))"

definition crc32c_sse42 :: "target_arch \<Rightarrow> crc_instructions \<Rightarrow> u32 \<Rightarrow> bytes \<Rightarrow> u32" where
  "crc32c_sse42 arch hw initial data =
     (case arch of
        X86_64 \<Rightarrow> crc_wide (hw_u64 hw) 8 u64_of (hw_u8 hw) initial data
      | X86 \<Rightarrow> crc_wide (hw_u32 hw) 4 u32_of (hw_u8 hw) initial data
      | _ \<Rightarrow> crc32c_software initial data)"

definition crc32c_arm :: "target_arch \<Rightarrow> crc_instructions \<Rightarrow> u32 \<Rightarrow> bytes \<Rightarrow> u32" where
  "crc32c_arm arch hw initial data =
     (case arch of
        Aarch64 \<Rightarrow> crc_wide (hw_u64 hw) 8 u64_of (hw_u8 hw) initial data
      | _ \<Rightarrow> crc32c_software initial data)"

section \<open>Selection\<close>

datatype crc_impl = Sse42 | ArmCrc32 | Software

definition detect_crc_impl_inner :: "target_arch \<Rightarrow> bool \<Rightarrow> crc_impl" where
  "detect_crc_impl_inner arch feature =
     (if (arch = X86 \<or> arch = X86_64) \<and> feature then Sse42
      else if arch = Aarch64 \<and> feature then ArmCrc32
      else Software)"

fun crc_impl_code :: "crc_impl \<Rightarrow> u32" where
  "crc_impl_code Sse42 = 1"
| "crc_impl_code ArmCrc32 = 2"
| "crc_impl_code Software = 3"

text \<open>The cached choice is the static \<open>CRC_IMPL\<close>, read and written by the selection.\<close>

definition detect_crc_impl :: "target_arch \<Rightarrow> bool \<Rightarrow> u32 \<Rightarrow> crc_impl \<times> u32" where
  "detect_crc_impl arch feature cached =
     (if cached = 1 then (Sse42, cached)
      else if cached = 2 then (ArmCrc32, cached)
      else if cached = 3 then (Software, cached)
      else
        let detected = detect_crc_impl_inner arch feature in (detected, crc_impl_code detected))"

definition crc32c_update ::
  "target_arch \<Rightarrow> bool \<Rightarrow> crc_instructions \<Rightarrow> u32 \<Rightarrow> u32 \<Rightarrow> bytes \<Rightarrow> u32 \<times> u32" where
  "crc32c_update arch feature hw cached initial data =
     (case detect_crc_impl arch feature cached of
        (Sse42, c) \<Rightarrow> (crc32c_sse42 arch hw initial data, c)
      | (ArmCrc32, c) \<Rightarrow> (crc32c_arm arch hw initial data, c)
      | (Software, c) \<Rightarrow> (crc32c_software initial data, c))"

definition crc32c :: "target_arch \<Rightarrow> bool \<Rightarrow> crc_instructions \<Rightarrow> u32 \<Rightarrow> bytes \<Rightarrow> u32 \<times> u32" where
  "crc32c arch feature hw cached data = crc32c_update arch feature hw cached 0 data"

section \<open>Field pairs\<close>

fun crc_pairs ::
  "target_arch \<Rightarrow> bool \<Rightarrow> crc_instructions \<Rightarrow> (bytes \<times> bytes) list \<Rightarrow> u32 \<Rightarrow> u32 \<Rightarrow> u32 \<times> u32" where
  "crc_pairs arch feature hw [] cached crc = (crc, cached)"
| "crc_pairs arch feature hw ((k, v) # pairs) cached crc =
     (let key_len = le16 (of_nat (length k)); val_len = le16 (of_nat (length v)) in
      case crc32c_update arch feature hw cached crc key_len of (crc1, cached1) \<Rightarrow>
      case crc32c_update arch feature hw cached1 crc1 k of (crc2, cached2) \<Rightarrow>
      case crc32c_update arch feature hw cached2 crc2 val_len of (crc3, cached3) \<Rightarrow>
      case crc32c_update arch feature hw cached3 crc3 v of (crc4, cached4) \<Rightarrow>
        crc_pairs arch feature hw pairs cached4 crc4)"

definition crc32c_ring3 ::
  "target_arch \<Rightarrow> bool \<Rightarrow> crc_instructions \<Rightarrow> u32 \<Rightarrow> (bytes \<times> bytes) list \<Rightarrow> u32 \<times> u32" where
  "crc32c_ring3 arch feature hw cached pairs =
     crc_pairs arch feature hw (sort_key fst pairs) cached 0"

section \<open>Bytes of words\<close>

lemma to_le_nth: "i < k \<Longrightarrow> to_le k n ! i = of_nat (n div 256 ^ i mod 256)"
proof (induction k arbitrary: n i)
  case (Suc k)
  then show ?case
    by (cases i) (simp_all add: div_mult2_eq)
qed simp

lemma u8_of_nat_mod: "(of_nat (n mod 256) :: u8) = of_nat n"
  by (rule word_unat_eq_iff [THEN iffD2]) (simp add: unat_of_nat)

lemma le64_nth: "i < 8 \<Longrightarrow> le64 w ! i = ucast (drop_bit (8 * i) w)"
proof -
  have "unat (drop_bit (8 * i) w) = unat w div 256 ^ i"
    unfolding unat_drop_bit_eq by (simp add: drop_bit_eq_div power_mult)
  moreover assume "i < 8"
  ultimately show ?thesis
    by (simp add: le64_def to_le_nth u8_of_nat_mod word_unat_eq_iff unsigned_ucast_eq unat_of_nat
        take_bit_eq_mod)
qed

lemma le64_bytes: "le64 w = map (\<lambda>i. ucast (drop_bit (8 * i) w)) [0..<8]"
  by (rule nth_equalityI) (simp_all add: le64_nth)

text \<open>A lookup sees the low byte of its index only.\<close>

lemma and_ff: "w AND 0xFF = ucast (ucast w :: u8)" for w :: u32
proof -
  have "w AND mask 8 = ucast (ucast w :: u8)"
    by (auto intro!: bit_word_eqI simp: bit_simps)
  then show ?thesis by (simp add: mask_eq_exp_minus_1)
qed

lemma ucast_u8_xor: "(ucast (a XOR b) :: u8) = ucast a XOR ucast b" for a b :: u32
  by (auto intro!: bit_word_eqI simp: bit_simps)

lemma crc_lookup_low:
  "ucast x = (ucast y :: u8) \<Longrightarrow> crc_lookup (c XOR x) = crc_lookup (c XOR y)"
  by (simp add: crc_lookup_def and_ff ucast_u8_xor)

lemma crc_lookup_byte:
  "ucast x = b \<Longrightarrow> crc_lookup (c XOR x) XOR drop_bit 8 c = crc_byte c b"
  unfolding crc_byte_def by (intro arg_cong2 [where f = "(XOR)"] crc_lookup_low refl)
    (simp, rule bit_word_eqI, auto simp: bit_simps)

lemma lookup_bytes:
  "(ucast (ucast w :: u32) :: u8) = ucast w"
  "(ucast (drop_bit 8 (ucast w :: u32)) :: u8) = ucast (drop_bit 8 w)"
  "(ucast (drop_bit 16 (ucast w :: u32)) :: u8) = ucast (drop_bit 16 w)"
  "(ucast (drop_bit 24 (ucast w :: u32)) :: u8) = ucast (drop_bit 24 w)"
  "(ucast (ucast (drop_bit 32 w) :: u32) :: u8) = ucast (drop_bit 32 w)"
  "(ucast (drop_bit 8 (ucast (drop_bit 32 w) :: u32)) :: u8) = ucast (drop_bit 40 w)"
  "(ucast (drop_bit 16 (ucast (drop_bit 32 w) :: u32)) :: u8) = ucast (drop_bit 48 w)"
  "(ucast (drop_bit 24 (ucast (drop_bit 32 w) :: u32)) :: u8) = ucast (drop_bit 56 w)"
  for w :: u64
  by (auto intro!: bit_word_eqI simp: bit_simps)

lemma table_entry_bytes: "crc32c_table_entry c w = foldl crc_byte c (le64 w)"
proof -
  have "[0..<8] = [0, 1, 2, 3, 4, 5, 6, 7::nat]" by (simp add: upt_rec)
  then show ?thesis
    unfolding crc32c_table_entry_def Let_def le64_bytes
    by (simp add: crc_lookup_byte [OF lookup_bytes(1)] crc_lookup_byte [OF lookup_bytes(2)]
      crc_lookup_byte [OF lookup_bytes(3)] crc_lookup_byte [OF lookup_bytes(4)]
      crc_lookup_byte [OF lookup_bytes(5)] crc_lookup_byte [OF lookup_bytes(6)]
      crc_lookup_byte [OF lookup_bytes(7)] crc_lookup_byte [OF lookup_bytes(8)])
qed

section \<open>Every path works byte by byte\<close>

lemma foldl_chunks:
  assumes "\<forall>chunk \<in> set cs. \<forall>c. wide c (word_of chunk) = foldl narrow c chunk"
  shows "foldl (\<lambda>c chunk. wide c (word_of chunk)) c cs = foldl narrow c (concat cs)"
  using assms by (induction cs arbitrary: c) auto

lemma u64_of_bytes: "length bs = 8 \<Longrightarrow> le64 (u64_of bs) = bs"
  using from_le_bound [of bs] by (simp add: le64_def u64_of_def unat_of_nat take_bit_nat_eq_self to_le_from_le)

lemma u32_of_bytes: "length bs = 4 \<Longrightarrow> le32 (u32_of bs) = bs"
  using from_le_bound [of bs] by (simp add: le32_def u32_of_def unat_of_nat take_bit_nat_eq_self to_le_from_le)

lemma crc32c_software_bytes: "crc32c_software i data = NOT (foldl crc_byte (NOT i) data)"
proof -
  obtain cs r where c: "chunks_exact 8 data = (cs, r)" by (cases "chunks_exact 8 data")
  note d = chunks_exact_concat [OF c]
  have "foldl (\<lambda>crc chunk. crc32c_table_entry crc (u64_of chunk)) (NOT i) cs = foldl crc_byte (NOT i) (concat cs)"
    by (rule foldl_chunks) (use d in \<open>simp add: table_entry_bytes u64_of_bytes\<close>)
  then show ?thesis
    using d by (simp add: crc32c_software_def c flip: foldl_append)
qed

lemma crc_wide_bytes:
  assumes "\<And>c bs. length bs = n \<Longrightarrow> wide c (word_of bs) = foldl narrow c bs"
  shows "crc_wide wide n word_of narrow i data = NOT (foldl narrow (NOT i) data)"
proof -
  obtain cs r where c: "chunks_exact n data = (cs, r)" by (cases "chunks_exact n data")
  note d = chunks_exact_concat [OF c]
  have "foldl (\<lambda>crc chunk. wide crc (word_of chunk)) (NOT i) cs = foldl narrow (NOT i) (concat cs)"
    by (rule foldl_chunks) (use d assms in simp)
  then show ?thesis
    using d by (simp add: crc_wide_def c flip: foldl_append)
qed

section \<open>The table\<close>

text \<open>Division by the polynomial bit by bit, the definition of a reflected checksum.\<close>

lemma drop_bit_xor: "drop_bit n (x XOR y) = drop_bit n x XOR drop_bit n y" for x y :: u32
  by (auto intro!: bit_word_eqI simp: bit_simps)

lemma and_one: "(x AND 1 \<noteq> 0) \<longleftrightarrow> bit x 0" for x :: u32
  by (simp add: bit_iff_and_push_bit_not_eq_0)

lemma crc_bit_xor: "crc_bit p (x XOR y) = crc_bit p x XOR crc_bit p y"
  by (rule bit_word_eqI) (auto simp: crc_bit_def and_one bit_simps)

lemma crc_bits_xor: "crc_bits n p (x XOR y) = crc_bits n p x XOR crc_bits n p y"
  by (induction n arbitrary: x y) (simp_all add: crc_bit_xor)

lemma crc_bits_shift: "(\<And>i. i < n \<Longrightarrow> \<not> bit x i) \<Longrightarrow> crc_bits n p x = drop_bit n x"
proof (induction n arbitrary: x)
  case (Suc n)
  have "crc_bit p x = drop_bit 1 x"
    using Suc.prems [of 0] by (simp add: crc_bit_def and_one)
  moreover have "\<not> bit (drop_bit 1 x) i" if "i < n" for i
    using Suc.prems [of "i + 1"] that by (simp add: bit_simps)
  ultimately show ?case
    using Suc.IH [of "drop_bit 1 x"] by simp
qed simp

lemma and_ff_less: "unat (x AND 0xFF) < 256" for x :: u32
proof -
  have "unat (ucast u :: u32) \<le> unat u" for u :: u8
    by (simp only: unsigned_ucast_eq take_bit_nat_less_eq_self)
  then show ?thesis
    unfolding and_ff using unat_u8_less le_less_trans by blast
qed

lemma crc_lookup_bits: "crc_lookup x = crc_bits 8 CRC32C_POLYNOMIAL (x AND 0xFF)"
  using and_ff_less [of x] by (simp add: crc_lookup_def CRC32C_TABLE_def del: upt_Suc)

lemma crc_byte_bits: "crc_byte c b = crc_bits 8 CRC32C_POLYNOMIAL (c XOR ucast b)"
proof -
  let ?z = "c XOR ucast b :: u32"
  define l where "l = (ucast (ucast ?z :: u8) :: u32)"
  define h where "h = ?z XOR l"
  have "\<not> bit h i" if "i < 8" for i
    using that by (simp add: h_def l_def bit_simps)
  then have "crc_bits 8 CRC32C_POLYNOMIAL h = drop_bit 8 h" by (rule crc_bits_shift)
  also have "\<dots> = drop_bit 8 c"
    unfolding h_def l_def by (rule bit_word_eqI) (auto simp: bit_simps dest: bit_imp_le_length)
  finally have "crc_byte c b = crc_bits 8 CRC32C_POLYNOMIAL (l XOR h)"
    by (simp add: crc_byte_def crc_lookup_bits and_ff l_def crc_bits_xor)
  moreover have "l XOR h = ?z" unfolding h_def by (rule bit_word_eqI) (auto simp: bit_simps)
  ultimately show ?thesis by simp
qed

section \<open>Properties\<close>

text \<open>The checksum by definition: each byte is added in and divided out bit by bit.\<close>

definition crc_step :: "u32 \<Rightarrow> u32 \<Rightarrow> u8 \<Rightarrow> u32" where
  "crc_step polynomial c b = crc_bits 8 polynomial (c XOR ucast b)"

definition crc_reference :: "u32 \<Rightarrow> u32 \<Rightarrow> bytes \<Rightarrow> u32" where
  "crc_reference polynomial initial data = NOT (foldl (crc_step polynomial) (NOT initial) data)"

lemma crc_reference_append:
  "crc_reference p (crc_reference p i a) b = crc_reference p i (a @ b)"
  by (simp add: crc_reference_def)

lemma software_reference: "crc32c_software i data = crc_reference CRC32C_POLYNOMIAL i data"
proof -
  have "crc_byte = crc_step CRC32C_POLYNOMIAL"
    by (intro ext) (simp add: crc_step_def crc_byte_bits)
  then show ?thesis by (simp add: crc32c_software_bytes crc_reference_def)
qed

text \<open>Processors compute the checksum of the Castagnoli polynomial, here reflected.\<close>

definition CASTAGNOLI_REFLECTED :: u32 where "CASTAGNOLI_REFLECTED = 0x82F63B78"

definition hw_documented :: "crc_instructions \<Rightarrow> bool" where
  "hw_documented hw \<longleftrightarrow>
     hw_u8 hw = crc_step CASTAGNOLI_REFLECTED \<and>
     (\<forall>c w. hw_u32 hw c w = foldl (hw_u8 hw) c (le32 w)) \<and>
     (\<forall>c w. hw_u64 hw c w = foldl (hw_u8 hw) c (le64 w))"

lemma hardware_reference:
  assumes "hw_documented hw"
  shows "crc_wide (hw_u64 hw) 8 u64_of (hw_u8 hw) i data = crc_reference CASTAGNOLI_REFLECTED i data"
    and "crc_wide (hw_u32 hw) 4 u32_of (hw_u8 hw) i data = crc_reference CASTAGNOLI_REFLECTED i data"
proof -
  have "hw_u8 hw = crc_step CASTAGNOLI_REFLECTED"
    using assms by (simp add: hw_documented_def)
  moreover have "crc_wide (hw_u64 hw) 8 u64_of (hw_u8 hw) i data = NOT (foldl (hw_u8 hw) (NOT i) data)"
    by (rule crc_wide_bytes) (use assms in \<open>simp add: hw_documented_def u64_of_bytes\<close>)
  moreover have "crc_wide (hw_u32 hw) 4 u32_of (hw_u8 hw) i data = NOT (foldl (hw_u8 hw) (NOT i) data)"
    by (rule crc_wide_bytes) (use assms in \<open>simp add: hw_documented_def u32_of_bytes\<close>)
  ultimately show
    "crc_wide (hw_u64 hw) 8 u64_of (hw_u8 hw) i data = crc_reference CASTAGNOLI_REFLECTED i data"
    "crc_wide (hw_u32 hw) 4 u32_of (hw_u8 hw) i data = crc_reference CASTAGNOLI_REFLECTED i data"
    by (simp_all add: crc_reference_def)
qed


definition documented_hw :: crc_instructions where
  "documented_hw =
     (let b = crc_step CASTAGNOLI_REFLECTED in
      \<lparr>hw_u8 = b, hw_u32 = (\<lambda>c w. foldl b c (le32 w)), hw_u64 = (\<lambda>c w. foldl b c (le64 w))\<rparr>)"


lemma crc_bits_unroll:
  "crc_bits 8 p x =
     crc_bit p (crc_bit p (crc_bit p (crc_bit p (crc_bit p (crc_bit p (crc_bit p (crc_bit p x)))))))"
  by (simp add: numeral_eq_Suc)

text \<open>The standard test input, byte by byte, under both polynomials.\<close>

lemma castagnoli_steps:
  "crc_step 0x82F63B78 (- 1) 49 = 0x6F0A661C"
  "crc_step 0x82F63B78 0x6F0A661C 50 = 0x8CAA3B9F"
  "crc_step 0x82F63B78 0x8CAA3B9F 51 = 0xEF84D04D"
  "crc_step 0x82F63B78 0xEF84D04D 52 = 0x9C50B11"
  "crc_step 0x82F63B78 0x9C50B11 53 = 0xE72EDCCA"
  "crc_step 0x82F63B78 0xE72EDCCA 54 = 0xBECA8E79"
  "crc_step 0x82F63B78 0xBECA8E79 55 = 0xEDBD6815"
  "crc_step 0x82F63B78 0xEDBD6815 56 = 0x9F787F65"
  "crc_step 0x82F63B78 0x9F787F65 57 = 0x1CF96D7C"
  by (simp_all add: crc_step_def crc_bits_unroll crc_bit_def)

lemma coded_steps:
  "crc_step 0x1EDC6F41 (- 1) 49 = 0x1BD9B1CF"
  "crc_step 0x1EDC6F41 0x1BD9B1CF 50 = 0x607CDF6"
  "crc_step 0x1EDC6F41 0x607CDF6 51 = 0x11F2964F"
  "crc_step 0x1EDC6F41 0x11F2964F 52 = 0x18AAF82D"
  "crc_step 0x1EDC6F41 0x18AAF82D 53 = 0x1F56C0C"
  "crc_step 0x1EDC6F41 0x1F56C0C 54 = 0x357EA43"
  "crc_step 0x1EDC6F41 0x357EA43 55 = 0x6AF69B4"
  "crc_step 0x1EDC6F41 0x6AF69B4 56 = 0x1E2C2352"
  "crc_step 0x1EDC6F41 0x1E2C2352 57 = 0xD7BE841"
  by (simp_all add: crc_step_def crc_bits_unroll crc_bit_def)

text \<open>The table is built for another code: on the standard test input the software path does
  not give the Castagnoli checksum that the unit test expects and a processor computes,
  because the polynomial is shifted in the reflected direction without being reflected, so
  the checksum of the same data depends on the machine.\<close>

theorem crc32c_software_differs:
  "crc_reference CASTAGNOLI_REFLECTED 0 (str_bytes ''123456789'') = 0xE3069283 \<and>
   crc32c_software 0 (str_bytes ''123456789'') \<noteq> 0xE3069283"
proof -
  have "str_bytes ''123456789'' = [49, 50, 51, 52, 53, 54, 55, 56, 57]" by (simp add: str_bytes_def)
  then show ?thesis
    by (simp add: software_reference crc_reference_def CASTAGNOLI_REFLECTED_def CRC32C_POLYNOMIAL_def
        castagnoli_steps coded_steps)
qed

end
