(* ===== verification/Domain.thy ===== *)
theory Domain
  imports Machine
begin

text \<open>
  Logger domains with inheritance (core/src/config/domain.rs). The hash map of domains is a
  map from names; the texts of the error messages are left out, the errors carry the values
  they print. Collecting the ancestors follows the parents as long as there are any: it is a
  partial function whose value \<open>None\<close> says that the loop does not end.
\<close>

section \<open>Data\<close>

datatype array_merge_policy = ArrReplace | ArrAppend | ArrUniqueAppend

record domain =
  dm_name :: string
  dm_inherits :: "string option"
  dm_level :: "string option"
  dm_sinks :: "string list"
  dm_enable_signature :: "bool option"
  dm_escape_html :: "bool option"
  dm_worm_enabled :: "bool option"
  dm_fsync_on_write :: "bool option"
  dm_require_tls :: "bool option"
  dm_sign_ring2 :: "bool option"
  dm_performance_profile :: "string option"
  dm_array_merge_policy :: array_merge_policy

record non_downgradable_check =
  nd_item_name :: string
  nd_parent_value :: bool
  nd_child_value :: bool
  nd_passed :: bool

datatype domain_error =
    UnknownParent string string
  | Violates string "non_downgradable_check list"
  | DomainNotFound string
  | ParentNotFound string

record domain_manager =
  mg_domains :: "string \<Rightarrow> domain option"
  mg_default :: string

definition NON_DOWNGRADABLE_ITEMS :: "string list" where
  "NON_DOWNGRADABLE_ITEMS =
     [''enable_signature'', ''escape_html'', ''worm_enabled'', ''fsync_on_write'',
      ''require_tls'', ''sign_ring2'']"

definition dm_item :: "string \<Rightarrow> domain \<Rightarrow> bool option option" where
  "dm_item item d =
     map_of [(''enable_signature'', dm_enable_signature d), (''escape_html'', dm_escape_html d),
       (''worm_enabled'', dm_worm_enabled d), (''fsync_on_write'', dm_fsync_on_write d),
       (''require_tls'', dm_require_tls d), (''sign_ring2'', dm_sign_ring2 d)] item"

section \<open>Operations\<close>

definition mg_new :: domain_manager where
  "mg_new =
     \<lparr>mg_domains = [''default'' \<mapsto>
        \<lparr>dm_name = ''default'', dm_inherits = None, dm_level = Some ''INFO'',
         dm_sinks = [''console''], dm_enable_signature = Some False, dm_escape_html = Some False,
         dm_worm_enabled = Some False, dm_fsync_on_write = Some False,
         dm_require_tls = Some False, dm_sign_ring2 = Some False,
         dm_performance_profile = Some ''prod-performance'',
         dm_array_merge_policy = ArrUniqueAppend\<rparr>],
      mg_default = ''default''\<rparr>"

definition check_item :: "domain \<Rightarrow> domain \<Rightarrow> string \<Rightarrow> non_downgradable_check list" where
  "check_item parent child item =
     (case (dm_item item parent, dm_item item child) of
        (Some (Some p_val), Some (Some c_val)) \<Rightarrow>
          if p_val \<and> \<not> c_val then
            [\<lparr>nd_item_name = item, nd_parent_value = p_val, nd_child_value = c_val, nd_passed = False\<rparr>]
          else []
      | _ \<Rightarrow> [])"

definition check_non_downgradable :: "domain \<Rightarrow> domain \<Rightarrow> non_downgradable_check list" where
  "check_non_downgradable parent child = concat (map (check_item parent child) NON_DOWNGRADABLE_ITEMS)"

definition add_domain :: "domain_manager \<Rightarrow> domain \<Rightarrow> (domain_error + unit) \<times> domain_manager" where
  "add_domain m d =
     (let insert = (Inr (), m\<lparr>mg_domains := (mg_domains m)(dm_name d \<mapsto> d)\<rparr>) in
      case dm_inherits d of
        None \<Rightarrow> insert
      | Some p \<Rightarrow>
          (case mg_domains m p of
             None \<Rightarrow> (Inl (UnknownParent (dm_name d) p), m)
           | Some parent \<Rightarrow>
               let failures = filter (\<lambda>c. \<not> nd_passed c) (check_non_downgradable parent d) in
               if failures \<noteq> [] then (Inl (Violates (dm_name d) failures), m) else insert))"

definition or_else :: "'a option \<Rightarrow> 'a option \<Rightarrow> 'a option" where
  "or_else child parent = (if child \<noteq> None then child else parent)"

fun push_unique :: "string list \<Rightarrow> string list \<Rightarrow> string list" where
  "push_unique s [] = s"
| "push_unique s (x # xs) = push_unique (if x \<in> set s then s else s @ [x]) xs"

definition merge_domains :: "domain \<Rightarrow> domain \<Rightarrow> domain" where
  "merge_domains parent child =
     parent\<lparr>dm_name := dm_name child,
       dm_level := or_else (dm_level child) (dm_level parent),
       dm_enable_signature := or_else (dm_enable_signature child) (dm_enable_signature parent),
       dm_performance_profile := or_else (dm_performance_profile child) (dm_performance_profile parent),
       dm_escape_html := or_else (dm_escape_html child) (dm_escape_html parent),
       dm_worm_enabled := or_else (dm_worm_enabled child) (dm_worm_enabled parent),
       dm_sign_ring2 := or_else (dm_sign_ring2 child) (dm_sign_ring2 parent),
       dm_fsync_on_write := or_else (dm_fsync_on_write child) (dm_fsync_on_write parent),
       dm_require_tls := or_else (dm_require_tls child) (dm_require_tls parent),
       dm_sinks := (case dm_array_merge_policy child of
           ArrReplace \<Rightarrow> dm_sinks child
         | ArrAppend \<Rightarrow> dm_sinks parent @ dm_sinks child
         | ArrUniqueAppend \<Rightarrow> push_unique (dm_sinks parent) (dm_sinks child))\<rparr>"

text \<open>The loop over the parents, with the chain collected so far.\<close>

partial_function (option) collect_chain ::
  "(string \<Rightarrow> domain option) \<Rightarrow> domain \<Rightarrow> domain list \<Rightarrow> (domain_error + domain list) option" where
  "collect_chain ds current chain =
     (case dm_inherits current of
        None \<Rightarrow> Some (Inr chain)
      | Some p \<Rightarrow>
          (case ds p of
             None \<Rightarrow> Some (Inl (ParentNotFound p))
           | Some parent \<Rightarrow> collect_chain ds parent (chain @ [parent])))"

definition resolve :: "domain_manager \<Rightarrow> string \<Rightarrow> (domain_error + domain) option" where
  "resolve m n =
     (case mg_domains m n of
        None \<Rightarrow> Some (Inl (DomainNotFound n))
      | Some d \<Rightarrow>
          (case collect_chain (mg_domains m) d [d] of
             None \<Rightarrow> None
           | Some (Inl e) \<Rightarrow> Some (Inl e)
           | Some (Inr chain) \<Rightarrow>
               let c = rev chain in Some (Inr (fold (\<lambda>a r. merge_domains r a) (tl c) (hd c)))))"

definition mg_contains :: "domain_manager \<Rightarrow> string \<Rightarrow> bool" where
  "mg_contains m n \<longleftrightarrow> mg_domains m n \<noteq> None"

section \<open>Chains\<close>

inductive ancestors :: "(string \<Rightarrow> domain option) \<Rightarrow> domain \<Rightarrow> domain list \<Rightarrow> bool"
  for ds :: "string \<Rightarrow> domain option" where
  anc_root: "dm_inherits d = None \<Longrightarrow> ancestors ds d []"
| anc_step: "dm_inherits d = Some p \<Longrightarrow> ds p = Some parent \<Longrightarrow> ancestors ds parent as \<Longrightarrow>
    ancestors ds d (parent # as)"

inductive_cases ancestors_parent: "ancestors ds d (parent # as)"

lemma collect_chain_ancestors:
  "ancestors ds d as \<Longrightarrow> collect_chain ds d chain = Some (Inr (chain @ as))"
proof (induction arbitrary: chain rule: ancestors.induct)
  case (anc_root d)
  then show ?case by (subst collect_chain.simps) simp
next
  case (anc_step d p parent as)
  then show ?case by (subst collect_chain.simps) simp
qed

lemma ancestors_mono: "ancestors ds d as \<Longrightarrow> ds \<subseteq>\<^sub>m ds' \<Longrightarrow> ancestors ds' d as"
  by (induction rule: ancestors.induct) (auto simp: map_le_def dom_def intro: ancestors.intros)

fun resolved :: "domain \<Rightarrow> domain list \<Rightarrow> domain" where
  "resolved d [] = d"
| "resolved d (parent # as) = merge_domains (resolved parent as) d"

lemma fold_resolved:
  "fold (\<lambda>a r. merge_domains r a) (tl (rev (d # as))) (hd (rev (d # as))) = resolved d as"
proof (induction as arbitrary: d)
  case (Cons parent as)
  have "rev (parent # as) \<noteq> []" by simp
  then have "tl (rev (d # parent # as)) = tl (rev (parent # as)) @ [d]"
    "hd (rev (d # parent # as)) = hd (rev (parent # as))"
    by (simp_all del: rev.simps(2) add: rev.simps(2) [of d])
  then show ?case using Cons.IH [of parent] by simp
qed simp

lemma resolve_ancestors:
  "mg_domains m n = Some d \<Longrightarrow> ancestors (mg_domains m) d as \<Longrightarrow> resolve m n = Some (Inr (resolved d as))"
  using fold_resolved [of d as]
  by (simp add: resolve_def collect_chain_ancestors Let_def del: rev.simps)

text \<open>Two domains that inherit from each other: the loop over the parents does not end.\<close>

lemma cyclic_chain:
  assumes "dm_inherits a = Some nb" and "ds nb = Some b" and "dm_inherits b = Some na" and "ds na = Some a"
  shows "collect_chain ds a chain = None"
proof (rule ccontr)
  assume "collect_chain ds a chain \<noteq> None"
  then obtain y where y: "collect_chain ds a chain = Some y" by auto
  have "ds = ds \<longrightarrow> a \<noteq> a \<and> a \<noteq> b"
    using y
  proof (rule collect_chain.raw_induct [of "\<lambda>ds' d c y. ds' = ds \<longrightarrow> d \<noteq> a \<and> d \<noteq> b", rotated])
    fix f :: "(string \<Rightarrow> domain option) \<Rightarrow> domain \<Rightarrow> domain list \<Rightarrow> (domain_error + domain list) option"
      and ds' :: "string \<Rightarrow> domain option" and d :: domain and c y
    assume ih: "\<And>ds' d c y. f ds' d c = Some y \<Longrightarrow> ds' = ds \<longrightarrow> d \<noteq> a \<and> d \<noteq> b"
      and step: "(case dm_inherits d of None \<Rightarrow> Some (Inr c)
        | Some p \<Rightarrow> (case ds' p of None \<Rightarrow> Some (Inl (ParentNotFound p))
           | Some parent \<Rightarrow> f ds' parent (c @ [parent]))) = Some y"
    show "ds' = ds \<longrightarrow> d \<noteq> a \<and> d \<noteq> b"
      using step ih [of ds b "c @ [b]" y] ih [of ds a "c @ [a]" y] assms by auto
  qed
  then show False by blast
qed

section \<open>Security items\<close>

lemma dm_item_merge:
  "dm_item item c = Some x \<Longrightarrow> dm_item item p = Some y \<Longrightarrow>
     dm_item item (merge_domains p c) = Some (or_else x y)"
  by (auto simp: dm_item_def merge_domains_def split: if_splits)

lemma dm_item_defined: "dm_item item c = Some x \<Longrightarrow> \<exists>y. dm_item item d = Some y"
  by (auto simp: dm_item_def split: if_splits)

lemma dm_item_listed: "dm_item item c = Some x \<Longrightarrow> item \<in> set NON_DOWNGRADABLE_ITEMS"
  by (auto simp: dm_item_def NON_DOWNGRADABLE_ITEMS_def split: if_splits)

lemma check_passed:
  assumes "filter (\<lambda>c. \<not> nd_passed c) (check_non_downgradable parent d) = []"
    and "dm_item item parent = Some (Some True)" and "dm_item item d = Some (Some c)"
  shows "c"
proof (rule ccontr)
  assume "\<not> c"
  then have "check_item parent d item =
      [\<lparr>nd_item_name = item, nd_parent_value = True, nd_child_value = c, nd_passed = False\<rparr>]"
    using assms(2,3) by (simp add: check_item_def)
  then have "\<lparr>nd_item_name = item, nd_parent_value = True, nd_child_value = c, nd_passed = False\<rparr>
      \<in> set (check_non_downgradable parent d)"
    using dm_item_listed [OF assms(2)]
    unfolding check_non_downgradable_def set_concat set_map by (metis UN_I image_eqI list.set_intros(1) Union_iff)
  with assms(1) show False
    by (auto simp: filter_empty_conv)
qed

section \<open>Managers built from fresh names\<close>

definition mg_step :: "domain_manager \<Rightarrow> domain \<Rightarrow> domain_manager option" where
  "mg_step m d = (if mg_contains m (dm_name d) then None else Some (snd (add_domain m d)))"

definition mg_wf :: "domain_manager \<Rightarrow> bool" where
  "mg_wf m \<longleftrightarrow> (\<forall>n d. mg_domains m n = Some d \<longrightarrow> dm_name d = n \<and>
     (\<exists>as. ancestors (mg_domains m) d as) \<and>
     (\<forall>p parent. dm_inherits d = Some p \<and> mg_domains m p = Some parent \<longrightarrow>
        filter (\<lambda>c. \<not> nd_passed c) (check_non_downgradable parent d) = []))"

lemma mg_wf_insert:
  assumes "mg_wf m" and "mg_domains m (dm_name d) = None"
    and "ancestors (mg_domains m) d as"
    and "\<And>p parent. dm_inherits d = Some p \<Longrightarrow> mg_domains m p = Some parent \<Longrightarrow>
      filter (\<lambda>c. \<not> nd_passed c) (check_non_downgradable parent d) = []"
    and "dm_inherits d \<noteq> Some (dm_name d)"
  shows "mg_wf (m\<lparr>mg_domains := (mg_domains m)(dm_name d \<mapsto> d)\<rparr>)"
proof -
  let ?ds = "(mg_domains m)(dm_name d \<mapsto> d)"
  have ext: "mg_domains m \<subseteq>\<^sub>m ?ds" using assms(2) by (auto simp: map_le_def dom_def)
  have "dm_name x = n \<and> (\<exists>as. ancestors ?ds x as) \<and>
     (\<forall>p parent. dm_inherits x = Some p \<and> ?ds p = Some parent \<longrightarrow>
        filter (\<lambda>c. \<not> nd_passed c) (check_non_downgradable parent x) = [])"
    if x: "?ds n = Some x" for n x
  proof (cases "n = dm_name d")
    case True
    then have "x = d" using x by simp
    moreover have "?ds p = mg_domains m p" if "dm_inherits d = Some p" for p
      using that assms(5) by auto
    ultimately show ?thesis
      using True ancestors_mono [OF assms(3) ext] assms(4) by metis
  next
    case False
    then have old: "mg_domains m n = Some x" using x by simp
    then obtain as' where as': "ancestors (mg_domains m) x as'" using assms(1) unfolding mg_wf_def by blast
    have "p \<noteq> dm_name d" if "dm_inherits x = Some p" for p
      using as' by (cases rule: ancestors.cases) (use that assms(2) in auto)
    then have same: "?ds p = mg_domains m p" if "dm_inherits x = Some p" for p
      using that by simp
    have "dm_name x = n" and parents: "\<forall>p parent. dm_inherits x = Some p \<and> mg_domains m p = Some parent \<longrightarrow>
        filter (\<lambda>c. \<not> nd_passed c) (check_non_downgradable parent x) = []"
      using old assms(1) unfolding mg_wf_def by blast+
    moreover have "\<exists>as. ancestors ?ds x as" using ancestors_mono [OF as' ext] by blast
    moreover from parents have "\<forall>p parent. dm_inherits x = Some p \<and> ?ds p = Some parent \<longrightarrow>
        filter (\<lambda>c. \<not> nd_passed c) (check_non_downgradable parent x) = []"
      using same by (metis (no_types, lifting))
    ultimately show ?thesis by blast
  qed
  moreover have "mg_domains (m\<lparr>mg_domains := ?ds\<rparr>) = ?ds" by simp
  ultimately show ?thesis unfolding mg_wf_def by metis
qed

lemma mg_wf_step: "mg_wf m \<Longrightarrow> mg_step m d = Some m' \<Longrightarrow> mg_wf m'"
proof -
  assume wf: "mg_wf m" and st: "mg_step m d = Some m'"
  have fresh: "mg_domains m (dm_name d) = None"
    using st by (simp add: mg_step_def mg_contains_def split: if_splits)
  have m': "m' = snd (add_domain m d)"
    using st by (simp add: mg_step_def split: if_splits)
  show "mg_wf m'"
  proof (cases "fst (add_domain m d)")
    case (Inl e)
    then have "snd (add_domain m d) = m"
      by (auto simp: add_domain_def Let_def split: option.splits if_splits)
    then show ?thesis using wf m' by simp
  next
    case (Inr u)
    then have ins: "snd (add_domain m d) = m\<lparr>mg_domains := (mg_domains m)(dm_name d \<mapsto> d)\<rparr>"
      and par: "\<And>p. dm_inherits d = Some p \<Longrightarrow> \<exists>parent. mg_domains m p = Some parent \<and>
        filter (\<lambda>c. \<not> nd_passed c) (check_non_downgradable parent d) = []"
      by (auto simp: add_domain_def Let_def split: option.splits if_splits)
    have "\<exists>as. ancestors (mg_domains m) d as"
    proof (cases "dm_inherits d")
      case None
      then show ?thesis by (blast intro: anc_root)
    next
      case (Some p)
      then show ?thesis using par [OF Some] wf by (metis anc_step mg_wf_def)
    qed
    then obtain as where as: "ancestors (mg_domains m) d as" by blast
    show ?thesis
      unfolding m' ins
      by (rule mg_wf_insert [OF wf fresh as]) (use par fresh in fastforce)+
  qed
qed

interpretation domain_machine: safe_machine mg_step mg_new mg_wf
proof unfold_locales
  show "mg_wf mg_new"
    by (auto simp: mg_wf_def mg_new_def intro!: exI [of _ "[]"] anc_root split: if_splits)
qed (rule mg_wf_step)

section \<open>Properties\<close>


definition plain_domain :: "string \<Rightarrow> string option \<Rightarrow> bool option \<Rightarrow> domain" where
  "plain_domain n p s =
     \<lparr>dm_name = n, dm_inherits = p, dm_level = None, dm_sinks = [], dm_enable_signature = s,
      dm_escape_html = None, dm_worm_enabled = None, dm_fsync_on_write = None,
      dm_require_tls = None, dm_sign_ring2 = None, dm_performance_profile = None,
      dm_array_merge_policy = ArrUniqueAppend\<rparr>"


text \<open>The protection of security items has two holes: a grandchild may switch off what its
  grandparent enables when the domain between them leaves it open, and since a name can be
  added again with one of its own descendants as parent, the chain of parents can become a
  cycle, on which resolution never returns.\<close>

theorem domain_inheritance_gaps:
  "(\<exists>m r. snd (add_domain (snd (add_domain (snd (add_domain mg_new
        (plain_domain ''p'' None (Some True)))) (plain_domain ''m'' (Some ''p'') None)))
        (plain_domain ''c'' (Some ''m'') (Some False))) = m \<and>
      resolve m ''c'' = Some (Inr r) \<and> dm_item ''enable_signature'' r = Some (Some False)) \<and>
   (let m1 = snd (add_domain mg_new (plain_domain ''a'' None None));
        m2 = snd (add_domain m1 (plain_domain ''b'' (Some ''a'') None));
        (res, m3) = add_domain m2 (plain_domain ''a'' (Some ''b'') None)
    in res = Inr () \<and> resolve m3 ''a'' = None)"
proof -
  define m where "m = snd (add_domain (snd (add_domain (snd (add_domain mg_new
        (plain_domain ''p'' None (Some True)))) (plain_domain ''m'' (Some ''p'') None)))
        (plain_domain ''c'' (Some ''m'') (Some False)))"
  have "mg_domains m ''c'' = Some (plain_domain ''c'' (Some ''m'') (Some False)) \<and>
      mg_domains m ''m'' = Some (plain_domain ''m'' (Some ''p'') None) \<and>
      mg_domains m ''p'' = Some (plain_domain ''p'' None (Some True))"
    unfolding m_def by code_simp
  then have "ancestors (mg_domains m) (plain_domain ''c'' (Some ''m'') (Some False))
      [plain_domain ''m'' (Some ''p'') None, plain_domain ''p'' None (Some True)]"
    and c: "mg_domains m ''c'' = Some (plain_domain ''c'' (Some ''m'') (Some False))"
    by (auto intro!: ancestors.intros simp: plain_domain_def)
  from resolve_ancestors [OF c this(1)]
  have 1: "\<exists>r. resolve m ''c'' = Some (Inr r) \<and> dm_item ''enable_signature'' r = Some (Some False)"
    by (simp add: plain_domain_def merge_domains_def dm_item_def or_else_def)
  let ?a = "plain_domain ''a'' (Some ''b'') None" and ?b = "plain_domain ''b'' (Some ''a'') None"
  define m3 where "m3 = snd (add_domain (snd (add_domain (snd (add_domain mg_new (plain_domain ''a'' None None))) ?b)) ?a)"
  have res: "fst (add_domain (snd (add_domain (snd (add_domain mg_new (plain_domain ''a'' None None))) ?b)) ?a) = Inr ()"
    by code_simp
  have "mg_domains m3 ''a'' = Some ?a \<and> mg_domains m3 ''b'' = Some ?b"
    unfolding m3_def by code_simp
  then have "collect_chain (mg_domains m3) ?a [?a] = None"
    using cyclic_chain [of ?a "''b''" "mg_domains m3" ?b "''a''"] by (simp add: plain_domain_def)
  then have 2: "resolve m3 ''a'' = None"
    using \<open>mg_domains m3 ''a'' = Some ?a \<and> _\<close> by (simp add: resolve_def)
  show ?thesis
    using 1 2 res unfolding m_def m3_def by (auto simp: Let_def split: prod.splits)
qed

end
