(* ===== verification/Canary.thy ===== *)
theory Canary
  imports Policy
begin

text \<open>
  Health probes of the sinks (core/src/pipeline/canary.rs): one prober per sink and their
  manager. Times are nanoseconds and arguments of the operations that read the clock. The
  shared pointers of the manager are replaced by the probers themselves: an operation on a
  registered prober is an update of the list. The diagnostics messages are left out.
\<close>

section \<open>Prober\<close>

datatype canary_result = CanaryHealthy | CanaryUnhealthy | CanarySkipped

datatype sink_health = Healthy | Degraded | Dead

record canary_config =
  cc_interval_secs :: u64
  cc_failure_threshold :: u32
  cc_is_audit :: bool

definition canary_config_default :: canary_config where
  "canary_config_default =
     \<lparr>cc_interval_secs = 10, cc_failure_threshold = 3, cc_is_audit = False\<rparr>"

definition canary_config_audit :: canary_config where
  "canary_config_audit =
     \<lparr>cc_interval_secs = 10, cc_failure_threshold = 3, cc_is_audit = True\<rparr>"

datatype canary_config_error = ZeroInterval | AuditInterval u64 | ZeroThreshold

definition canary_validate :: "canary_config \<Rightarrow> canary_config_error + unit" where
  "canary_validate c =
     (if cc_interval_secs c = 0 then Inl ZeroInterval
      else if cc_is_audit c \<and> 10 < cc_interval_secs c then Inl (AuditInterval (cc_interval_secs c))
      else if cc_failure_threshold c = 0 then Inl ZeroThreshold
      else Inr ())"

record canary_prober =
  cp_config :: canary_config
  cp_last_probe :: nat
  cp_total_probes :: u64
  cp_successful :: u64
  cp_failed :: u64
  cp_consecutive_failures :: u64
  cp_dead :: bool
  cp_sink_name :: string

definition prober_new :: "string \<Rightarrow> canary_config \<Rightarrow> nat \<Rightarrow> canary_prober" where
  "prober_new sink_name config now =
     \<lparr>cp_config = config, cp_last_probe = now, cp_total_probes = 0, cp_successful = 0,
      cp_failed = 0, cp_consecutive_failures = 0, cp_dead = False, cp_sink_name = sink_name\<rparr>"

definition should_probe :: "canary_prober \<Rightarrow> nat \<Rightarrow> bool" where
  "should_probe s now \<longleftrightarrow>
     \<not> cp_dead s \<and>
     unat (cc_interval_secs (cp_config s)) * (1000 * ns_per_ms) \<le> now - cp_last_probe s"

definition mark_probe_sent :: "canary_prober \<Rightarrow> nat \<Rightarrow> canary_prober" where
  "mark_probe_sent s now = s\<lparr>cp_last_probe := now, cp_total_probes := cp_total_probes s + 1\<rparr>"

definition prober_health :: "canary_prober \<Rightarrow> sink_health" where
  "prober_health s =
     (if cp_dead s then Dead else if 0 < cp_consecutive_failures s then Degraded else Healthy)"

definition report_result :: "canary_prober \<Rightarrow> canary_result \<Rightarrow> sink_health \<times> canary_prober" where
  "report_result s result =
     (case result of
        CanaryHealthy \<Rightarrow>
          let s1 = s\<lparr>cp_successful := cp_successful s + 1, cp_consecutive_failures := 0\<rparr>;
              s2 = (if cp_dead s1 then s1\<lparr>cp_dead := False\<rparr> else s1)
          in (Healthy, s2)
      | CanaryUnhealthy \<Rightarrow>
          let s1 = s\<lparr>cp_failed := cp_failed s + 1,
                cp_consecutive_failures := cp_consecutive_failures s + 1\<rparr>;
              consecutive = cp_consecutive_failures s + 1
          in if ucast (cc_failure_threshold (cp_config s)) \<le> consecutive
             then (Dead, s1\<lparr>cp_dead := True\<rparr>) else (Degraded, s1)
      | CanarySkipped \<Rightarrow>
          (if cp_dead s then Dead
           else if 0 < cp_consecutive_failures s then Degraded else Healthy, s))"

record canary_stats =
  cs_total_probes :: u64
  cs_successful :: u64
  cs_failed :: u64
  cs_consecutive_failures :: u32
  cs_is_dead :: bool

definition prober_stats :: "canary_prober \<Rightarrow> canary_stats" where
  "prober_stats s =
     \<lparr>cs_total_probes = cp_total_probes s, cs_successful = cp_successful s,
      cs_failed = cp_failed s, cs_consecutive_failures = ucast (cp_consecutive_failures s),
      cs_is_dead = cp_dead s\<rparr>"

definition prober_reset :: "canary_prober \<Rightarrow> nat \<Rightarrow> canary_prober" where
  "prober_reset s now = s\<lparr>cp_consecutive_failures := 0, cp_dead := False, cp_last_probe := now\<rparr>"

section \<open>Manager\<close>

definition canary_register :: "canary_prober list \<Rightarrow> canary_prober \<Rightarrow> canary_prober list" where
  "canary_register m p = m @ [p]"

definition canary_unregister :: "canary_prober list \<Rightarrow> string \<Rightarrow> canary_prober list" where
  "canary_unregister m n = filter (\<lambda>p. cp_sink_name p \<noteq> n) m"

definition due_probes :: "canary_prober list \<Rightarrow> nat \<Rightarrow> canary_prober list" where
  "due_probes m now = filter (\<lambda>p. should_probe p now) m"

definition all_health :: "canary_prober list \<Rightarrow> (string \<times> sink_health) list" where
  "all_health m = map (\<lambda>p. (cp_sink_name p, prober_health p)) m"

definition any_dead :: "canary_prober list \<Rightarrow> bool" where
  "any_dead m \<longleftrightarrow> list_ex (\<lambda>p. prober_health p = Dead) m"

section \<open>Histories of reports\<close>

definition reports :: "canary_prober \<Rightarrow> canary_result list \<Rightarrow> canary_prober" where
  "reports s rs = fold (\<lambda>r s. snd (report_result s r)) rs s"

text \<open>The failures since the last success, the most recent result last; skips do not count.\<close>

fun streak :: "nat \<Rightarrow> canary_result list \<Rightarrow> nat" where
  "streak n [] = n"
| "streak n (CanaryHealthy # rs) = streak 0 rs"
| "streak n (CanaryUnhealthy # rs) = streak (n + 1) rs"
| "streak n (CanarySkipped # rs) = streak n rs"

lemma streak_bound: "streak n rs \<le> n + length rs"
  by (induction n rs rule: streak.induct) simp_all

lemma report_frame [simp]:
  "cp_config (snd (report_result s r)) = cp_config s"
  "cp_last_probe (snd (report_result s r)) = cp_last_probe s"
  "cp_total_probes (snd (report_result s r)) = cp_total_probes s"
  by (cases r; simp add: report_result_def Let_def)+

lemma reports_frame: "cp_config (reports s rs) = cp_config s \<and> cp_last_probe (reports s rs) = cp_last_probe s"
  unfolding reports_def by (induction rs arbitrary: s) simp_all

definition prober_tracks :: "nat \<Rightarrow> canary_prober \<Rightarrow> bool" where
  "prober_tracks n s \<longleftrightarrow> unat (cp_consecutive_failures s) = n \<and>
     (cp_dead s \<longleftrightarrow> unat (cc_failure_threshold (cp_config s)) \<le> n)"

lemma unat_ucast_u64: "unat (ucast (w :: u32) :: u64) = unat w"
  using unat_bound [of w] by (simp add: unsigned_ucast_eq take_bit_nat_eq_self)

lemma report_track:
  assumes "prober_tracks n s" and "cc_failure_threshold (cp_config s) \<noteq> 0" and "n + 1 < 2 ^ 64"
  shows "prober_tracks (streak n [r]) (snd (report_result s r))"
    and "fst (report_result s r) = prober_health (snd (report_result s r))"
proof -
  have t: "0 < unat (cc_failure_threshold (cp_config s))"
    using assms(2) by (simp add: unat_gt_0)
  have suc: "unat (cp_consecutive_failures s + 1) = n + 1"
    using assms(1,3) by (simp add: prober_tracks_def unat_word_ariths)
  then have nz: "0 < cp_consecutive_failures s + 1" by (simp add: word_less_nat_alt)
  show "prober_tracks (streak n [r]) (snd (report_result s r))"
    using assms(1) t suc
    by (cases r) (auto simp: prober_tracks_def report_result_def Let_def word_le_nat_alt unat_ucast_u64)
  show "fst (report_result s r) = prober_health (snd (report_result s r))"
    using assms(1) suc nz
    by (cases r) (auto simp: prober_tracks_def report_result_def prober_health_def Let_def
        word_le_nat_alt unat_ucast_u64)
qed

lemma streak_Cons: "streak n (r # rs) = streak (streak n [r]) rs"
  by (cases r) simp_all

lemma reports_track:
  assumes "prober_tracks n s" and "cc_failure_threshold (cp_config s) \<noteq> 0" and "n + length rs < 2 ^ 64"
  shows "prober_tracks (streak n rs) (reports s rs)"
  using assms
proof (induction rs arbitrary: n s)
  case (Cons r rs)
  have "prober_tracks (streak n [r]) (snd (report_result s r))"
    by (rule report_track) (use Cons.prems in simp_all)
  moreover have "streak n [r] + length rs < 2 ^ 64"
    using Cons.prems(3) streak_bound [of n "[r]"] by simp
  ultimately show ?case
    using Cons.IH [of "streak n [r]" "snd (report_result s r)"] Cons.prems(2) streak_Cons [of n r rs]
    by (simp add: reports_def)
qed (simp add: reports_def)

section \<open>Property\<close>

text \<open>A sink's health is a function of its results since the last success: with a validated
  configuration, after any fewer than 2^64 - 1 reports the sink is dead exactly when the current
  run of failures has reached the threshold, degraded when it is shorter and not empty, and
  healthy otherwise, skipped probes changing nothing and every report answering the health
  it leaves. A dead sink is not due for a probe at any time, so that only a report from
  outside the probing schedule, or a reset, revives it.\<close>

theorem canary_health_is_streak:
  assumes "canary_validate c = Inr ()" and "length rs + 1 < 2 ^ 64"
  shows "prober_health (reports (prober_new n c t) rs) =
      (if unat (cc_failure_threshold c) \<le> streak 0 rs then Dead
       else if 0 < streak 0 rs then Degraded else Healthy) \<and>
    (\<forall>r. fst (report_result (reports (prober_new n c t) rs) r) =
       prober_health (snd (report_result (reports (prober_new n c t) rs) r))) \<and>
    (unat (cc_failure_threshold c) \<le> streak 0 rs \<longrightarrow>
       (\<forall>now m. reports (prober_new n c t) rs \<notin> set (due_probes m now)))"
proof -
  have th: "cc_failure_threshold c \<noteq> 0"
    using assms(1) by (auto simp: canary_validate_def split: if_splits)
  have tracks: "prober_tracks (streak 0 rs) (reports (prober_new n c t) rs)"
    by (rule reports_track) (use th assms(2) in \<open>simp_all add: prober_tracks_def prober_new_def unat_eq_zero\<close>)
  then have tr: "unat (cp_consecutive_failures (reports (prober_new n c t) rs)) = streak 0 rs"
      "cp_dead (reports (prober_new n c t) rs) \<longleftrightarrow> unat (cc_failure_threshold c) \<le> streak 0 rs"
    using reports_frame [of "prober_new n c t" rs] by (simp_all add: prober_tracks_def prober_new_def)
  have health: "prober_health (reports (prober_new n c t) rs) =
      (if unat (cc_failure_threshold c) \<le> streak 0 rs then Dead
       else if 0 < streak 0 rs then Degraded else Healthy)"
    using tr by (auto simp: prober_health_def word_less_nat_alt)
  have "fst (report_result (reports (prober_new n c t) rs) r) =
      prober_health (snd (report_result (reports (prober_new n c t) rs) r))" for r
    using report_track(2) [OF tracks] th assms(2) streak_bound [of 0 rs]
      reports_frame [of "prober_new n c t" rs] by (simp add: prober_new_def)
  with health tr(2) show ?thesis
    by (auto simp: due_probes_def should_probe_def)
qed

theorem canary_health_is_streak_witness:
  "prober_health (reports (prober_new ''kafka'' canary_config_default 0)
     [CanaryUnhealthy, CanarySkipped, CanaryUnhealthy]) = Degraded"
proof -
  have v: "canary_validate canary_config_default = Inr ()"
    by (simp add: canary_validate_def canary_config_default_def)
  have l: "length [CanaryUnhealthy, CanarySkipped, CanaryUnhealthy] + 1 < 2 ^ 64" by simp
  show ?thesis
    using canary_health_is_streak [OF v l, of "''kafka''" 0] by (simp add: canary_config_default_def)
qed

end
