(* ===== verification/Backpressure.thy ===== *)
theory Backpressure
  imports Policy Ring_Buffer
begin

text \<open>
  The backpressure controller (core/src/pipeline/backpressure.rs) and its composition with
  the fill level of the ring. Fill ratios and thresholds are exact rationals where the code
  has doubles; a ratio is never negative. Times are nanoseconds; warnings are left out.
\<close>

section \<open>Configuration\<close>

datatype perf_profile = Dev | ProdPerformance | ProdAudit | Balanced

datatype drop_strategy = Newest | Oldest | BelowWarn | BelowError | NeverDrop

record bp_config =
  bf_block_timeout_ms :: u64
  bf_drop_strategy :: drop_strategy
  bf_is_audit_domain :: bool

definition bp_for_profile :: "perf_profile \<Rightarrow> bool \<Rightarrow> bp_config" where
  "bp_for_profile profile is_audit =
     (let (timeout, strategy) =
        (case profile of
           Dev \<Rightarrow> (100, Newest)
         | ProdPerformance \<Rightarrow> (3000, BelowWarn)
         | ProdAudit \<Rightarrow> (3000, BelowWarn)
         | Balanced \<Rightarrow> (2000, Oldest))
      in if is_audit then
           \<lparr>bf_block_timeout_ms = 0, bf_drop_strategy = NeverDrop, bf_is_audit_domain = True\<rparr>
         else
           \<lparr>bf_block_timeout_ms = timeout, bf_drop_strategy = strategy, bf_is_audit_domain = False\<rparr>)"

datatype bp_config_error = TimeoutTooShort u64 | AuditTimeoutSet u64 | AuditDropStrategy

definition bp_validate :: "bp_config \<Rightarrow> bp_config_error + unit" where
  "bp_validate c =
     (if \<not> bf_is_audit_domain c \<and> 0 < bf_block_timeout_ms c \<and> bf_block_timeout_ms c < 100 then
        Inl (TimeoutTooShort (bf_block_timeout_ms c))
      else if bf_is_audit_domain c \<and> bf_block_timeout_ms c \<noteq> 0 then
        Inl (AuditTimeoutSet (bf_block_timeout_ms c))
      else if bf_is_audit_domain c \<and> bf_drop_strategy c \<noteq> NeverDrop then Inl AuditDropStrategy
      else Inr ())"

section \<open>Controller\<close>

record bp_controller =
  bp_config :: bp_config
  bp_blocked :: u64
  bp_dropped :: u64
  bp_accepted :: u64
  bp_emergency_active :: bool
  bp_emergency_since :: "nat option"
  bp_fill_level :: u64

definition bp_new :: "bp_config \<Rightarrow> bp_controller" where
  "bp_new config =
     \<lparr>bp_config = config, bp_blocked = 0, bp_dropped = 0, bp_accepted = 0,
      bp_emergency_active = False, bp_emergency_since = None, bp_fill_level = 0\<rparr>"

definition permille :: "rat \<Rightarrow> u64" where
  "permille fill_ratio = of_int (min \<lfloor>fill_ratio * 1000\<rfloor> (2 ^ 64 - 1))"

definition DROP_THRESHOLD :: rat where "DROP_THRESHOLD = 95 / 100"

fun strategy_drops :: "drop_strategy \<Rightarrow> log_level \<Rightarrow> bool" where
  "strategy_drops NeverDrop level = False"
| "strategy_drops Newest level = True"
| "strategy_drops Oldest level = False"
| "strategy_drops BelowWarn level = (level < Warn)"
| "strategy_drops BelowError level = (level < Error)"

definition bp_evaluate :: "bp_controller \<Rightarrow> rat \<times> log_level \<Rightarrow> bool \<times> bp_controller" where
  "bp_evaluate s x =
     (let fill_ratio = fst x; level = snd x;
          s1 = s\<lparr>bp_fill_level := permille fill_ratio\<rparr>;
          blocked = s1\<lparr>bp_blocked := bp_blocked s1 + 1, bp_accepted := bp_accepted s1 + 1\<rparr>
      in if fill_ratio < 90 / 100 then (True, s1\<lparr>bp_accepted := bp_accepted s1 + 1\<rparr>)
         else if bf_is_audit_domain (bp_config s) then (True, blocked)
         else if fill_ratio < DROP_THRESHOLD then (True, blocked)
         else if strategy_drops (bf_drop_strategy (bp_config s)) level then
           (False, s1\<lparr>bp_dropped := bp_dropped s1 + 1\<rparr>)
         else (True, blocked))"

definition bp_check_emergency :: "bp_controller \<Rightarrow> nat \<Rightarrow> bool \<times> bp_controller" where
  "bp_check_emergency s now =
     (let fill = bp_fill_level s; emergency = bp_emergency_active s in
      if 950 < fill then
        if \<not> emergency then
          (case bp_emergency_since s of
             None \<Rightarrow> (emergency, s\<lparr>bp_emergency_since := Some now\<rparr>)
           | Some since \<Rightarrow>
               if 5000 * ns_per_ms < now - since then (True, s\<lparr>bp_emergency_active := True\<rparr>)
               else (emergency, s))
        else (emergency, s)
      else if emergency \<and> fill < 500 then
        (emergency, s\<lparr>bp_emergency_active := False, bp_emergency_since := None\<rparr>)
      else if fill < 950 then (emergency, s\<lparr>bp_emergency_since := None\<rparr>)
      else (emergency, s))"

text \<open>\<open>None\<close> is the unbounded wait.\<close>

definition bp_block_timeout :: "bp_controller \<Rightarrow> u64 option" where
  "bp_block_timeout s =
     (if bf_block_timeout_ms (bp_config s) = 0 then None else Some (bf_block_timeout_ms (bp_config s)))"

definition bp_drops_allowed :: "bp_controller \<Rightarrow> bool" where
  "bp_drops_allowed s \<longleftrightarrow> bf_drop_strategy (bp_config s) \<noteq> NeverDrop"

definition bp_should_help :: "bp_controller \<Rightarrow> bool" where
  "bp_should_help s \<longleftrightarrow> 900 \<le> bp_fill_level s"

definition bp_helping_batch_size :: nat where "bp_helping_batch_size = 32"

section \<open>The controller is a gate\<close>

interpretation backpressure: admission_gate bp_evaluate bp_accepted bp_dropped
  by unfold_locales (auto simp: bp_evaluate_def Let_def split: if_splits)

lemma bp_evaluate_config [simp]: "bp_config (snd (bp_evaluate s x)) = bp_config s"
  by (simp add: bp_evaluate_def Let_def)

lemma bp_evaluate_drops:
  "fst (bp_evaluate s (fill, level)) \<longleftrightarrow>
     \<not> (\<not> bf_is_audit_domain (bp_config s) \<and> DROP_THRESHOLD \<le> fill \<and>
        strategy_drops (bf_drop_strategy (bp_config s)) level)"
  by (auto simp: bp_evaluate_def Let_def not_less DROP_THRESHOLD_def)

lemma bp_all_decisions:
  "admit_all bp_evaluate s xs = (bs, s') \<Longrightarrow>
     bp_config s' = bp_config s \<and>
     bs = map (\<lambda>(fill, level). \<not> (\<not> bf_is_audit_domain (bp_config s) \<and> DROP_THRESHOLD \<le> fill \<and>
        strategy_drops (bf_drop_strategy (bp_config s)) level)) xs"
proof (induction xs arbitrary: s bs)
  case (Cons x xs)
  obtain b s1 where f: "bp_evaluate s x = (b, s1)" by (cases "bp_evaluate s x")
  with Cons.prems obtain bs1 where r: "admit_all bp_evaluate s1 xs = (bs1, s')" and bs: "bs = b # bs1"
    by (auto split: prod.splits)
  have c: "bp_config s1 = bp_config s" using bp_evaluate_config [of s x] f by simp
  have "b = (\<lambda>(fill, level). \<not> (\<not> bf_is_audit_domain (bp_config s) \<and> DROP_THRESHOLD \<le> fill \<and>
        strategy_drops (bf_drop_strategy (bp_config s)) level)) x"
    using bp_evaluate_drops [of s "fst x" "snd x"] f by (simp add: case_prod_beta)
  then show ?case using Cons.IH [OF r] bs c by simp
qed simp

section \<open>With the ring\<close>

text \<open>The ratio the producer passes is the fill level of the ring it pushes to.\<close>

lemma rb_fill_threshold:
  assumes "0 < rb_capacity s"
  shows "DROP_THRESHOLD \<le> rb_fill_level s \<longleftrightarrow> 95 * rb_capacity s \<le> 100 * rb_len s"
proof -
  have "DROP_THRESHOLD \<le> rb_fill_level s \<longleftrightarrow> 95 * of_nat (rb_capacity s) \<le> (100 * of_nat (rb_len s) :: rat)"
    using assms by (simp add: rb_fill_level_def DROP_THRESHOLD_def field_simps)
  also have "\<dots> \<longleftrightarrow> (of_nat (95 * rb_capacity s) :: rat) \<le> of_nat (100 * rb_len s)" by simp
  finally show ?thesis by (simp only: of_nat_le_iff)
qed

lemma rb_fill_below:
  "0 < rb_capacity s \<Longrightarrow> rb_fill_level s < DROP_THRESHOLD \<longleftrightarrow> 100 * rb_len s < 95 * rb_capacity s"
  using rb_fill_threshold [of s] by linarith

section \<open>Emergency\<close>

definition bp_quiet :: "bp_controller \<Rightarrow> bool" where
  "bp_quiet s \<longleftrightarrow> \<not> bp_emergency_active s \<and> bp_emergency_since s = None"

text \<open>Two checks above 95 percent, more than five seconds apart, raise the emergency.\<close>

lemma bp_emergency_raised:
  assumes "bp_quiet s" and "950 < bp_fill_level s" and "t + 5000 * ns_per_ms < t'"
  shows "\<not> fst (bp_check_emergency s t)"
    and "fst (bp_check_emergency (snd (bp_check_emergency s t)) t')"
    and "bp_emergency_active (snd (bp_check_emergency (snd (bp_check_emergency s t)) t'))"
  using assms by (simp_all add: bp_quiet_def bp_check_emergency_def Let_def)

lemma bp_emergency_cleared:
  "bp_fill_level s < 500 \<Longrightarrow> bp_quiet (snd (bp_check_emergency s t))"
  by (auto simp: bp_quiet_def bp_check_emergency_def Let_def word_less_nat_alt)

section \<open>Property\<close>

text \<open>Backpressure sheds exactly what its profile allows: every built-in profile validates;
  for any sequence of submissions, each with the fill level of the ring at that moment, a
  record is refused exactly when the ring holds at least 95 percent of its capacity, the
  domain is not an audit domain and the drop strategy selects the record's level; an audit
  domain refuses nothing and waits without limit; and every decision is counted once.\<close>

theorem backpressure_decisions:
  assumes "\<forall>(ring, level) \<in> set xs. 0 < rb_capacity (ring :: 'a ring_buffer)"
    and "admit_all bp_evaluate (bp_new (bp_for_profile profile audit))
       (map (\<lambda>(ring, level). (rb_fill_level ring, level)) xs) = (bs, s)"
  shows "bp_validate (bp_for_profile profile audit) = Inr () \<and>
    bs = map (\<lambda>(ring, level). audit \<or> 100 * rb_len ring < 95 * rb_capacity ring \<or>
        \<not> strategy_drops (bf_drop_strategy (bp_for_profile profile audit)) level) xs \<and>
    (audit \<longrightarrow> bs = replicate (length xs) True \<and> bp_block_timeout s = None) \<and>
    bp_accepted s = of_nat (admitted bs) \<and> bp_dropped s = of_nat (length xs - admitted bs)"
proof -
  have v: "bp_validate (bp_for_profile profile audit) = Inr ()"
    by (cases profile; cases audit) (simp_all add: bp_validate_def bp_for_profile_def word_less_nat_alt)
  have a: "bf_is_audit_domain (bp_for_profile profile audit) = audit"
    "audit \<longrightarrow> bf_block_timeout_ms (bp_for_profile profile audit) = 0"
    by (cases profile; simp add: bp_for_profile_def)+
  note d = bp_all_decisions [OF assms(2)]
  have bs: "bs = map (\<lambda>(ring, level). audit \<or> 100 * rb_len ring < 95 * rb_capacity ring \<or>
        \<not> strategy_drops (bf_drop_strategy (bp_for_profile profile audit)) level) xs"
  proof -
    have "bs = map (\<lambda>(ring, level). \<not> (\<not> audit \<and> DROP_THRESHOLD \<le> rb_fill_level ring \<and>
        strategy_drops (bf_drop_strategy (bp_for_profile profile audit)) level)) xs"
      using d by (simp add: bp_new_def a comp_def case_prod_beta)
    also have "\<dots> = map (\<lambda>(ring, level). audit \<or> 100 * rb_len ring < 95 * rb_capacity ring \<or>
        \<not> strategy_drops (bf_drop_strategy (bp_for_profile profile audit)) level) xs"
      by (rule map_cong) (use assms(1) in \<open>auto simp: rb_fill_below not_le\<close>)
    finally show ?thesis .
  qed
  have all: "audit \<longrightarrow> bs = replicate (length xs) True"
    by (intro impI replicate_eqI) (auto simp: bs)
  have timeout: "audit \<longrightarrow> bp_block_timeout s = None"
    using d a by (simp add: bp_new_def bp_block_timeout_def)
  have "bp_accepted s = of_nat (admitted bs) \<and> bp_dropped s = of_nat (length xs - admitted bs)"
    using backpressure.kept_counts [OF assms(2)] by (simp add: bp_new_def)
  with v bs all timeout show ?thesis by blast
qed

theorem backpressure_decisions_witness:
  "fst (admit_all bp_evaluate (bp_new (bp_for_profile ProdPerformance False))
     (map (\<lambda>(ring, level). (rb_fill_level ring, level))
       [(rb_init 2 :: nat ring_buffer, Debug), ((rb_init 2)\<lparr>rb_producer := 2\<rparr>, Debug),
        ((rb_init 2)\<lparr>rb_producer := 2\<rparr>, Error)])) = [True, False, True]"
proof -
  let ?xs = "[(rb_init 2 :: nat ring_buffer, Debug), ((rb_init 2)\<lparr>rb_producer := 2\<rparr>, Debug),
        ((rb_init 2)\<lparr>rb_producer := 2\<rparr>, Error)]"
  have p: "\<forall>(ring, level) \<in> set ?xs. 0 < rb_capacity ring" by (simp add: rb_init_def)
  obtain bs s where r: "admit_all bp_evaluate (bp_new (bp_for_profile ProdPerformance False))
     (map (\<lambda>(ring, level). (rb_fill_level ring, level)) ?xs) = (bs, s)" by fastforce
  show ?thesis
    unfolding r using backpressure_decisions [OF p r]
    by (simp add: bp_for_profile_def rb_init_def rb_len_def less_log_level_def word_less_nat_alt)
qed

end
