(* ===== verification/Quota.thy ===== *)
theory Quota
  imports Policy Complex_Main
begin

text \<open>
  Memory and processor quotas of the plugins (core/src/plugin/quota.rs). The counters keep
  their widths and wrap as the atomics do; the percentage of a window is an exact rational
  where the code has a double. Times are nanoseconds; the warnings are left out. The manager
  owns the trackers, so an operation on a tracker is an update of the list.
\<close>

section \<open>Tracker\<close>

record quota_config =
  qc_plugin_name :: string
  qc_memory_limit_mb :: u64
  qc_cpu_quota_percent :: u32
  qc_terminate_on_memory :: bool

definition quota_config_default :: quota_config where
  "quota_config_default =
     \<lparr>qc_plugin_name = ''unknown'', qc_memory_limit_mb = 100, qc_cpu_quota_percent = 200,
      qc_terminate_on_memory = True\<rparr>"

record cpu_window =
  cw_used_us :: u64
  cw_window_start :: nat
  cw_window_duration :: nat

definition cpu_window_new :: "nat \<Rightarrow> cpu_window" where
  "cpu_window_new now =
     \<lparr>cw_used_us = 0, cw_window_start = now, cw_window_duration = 10000 * ns_per_ms\<rparr>"

definition cpu_record :: "cpu_window \<Rightarrow> u64 \<Rightarrow> nat \<Rightarrow> u64 \<times> cpu_window" where
  "cpu_record w cpu_time_us now =
     (let w1 = (if cw_window_duration w \<le> now - cw_window_start w then
                  w\<lparr>cw_window_start := now, cw_used_us := 0\<rparr> else w)
      in (cw_used_us w1 + cpu_time_us, w1\<lparr>cw_used_us := cw_used_us w1 + cpu_time_us\<rparr>))"

definition cpu_usage_percent :: "cpu_window \<Rightarrow> rat" where
  "cpu_usage_percent w =
     of_nat (unat (cw_used_us w)) / of_nat (cw_window_duration w div 1000) * 100"

datatype quota_action = QAllow | QThrottle | QTerminate

record plugin_quota =
  pq_config :: quota_config
  pq_memory_bytes :: u64
  pq_cpu_window :: cpu_window
  pq_terminated :: bool
  pq_violation_count :: u64

definition pq_new :: "quota_config \<Rightarrow> nat \<Rightarrow> plugin_quota" where
  "pq_new config now =
     \<lparr>pq_config = config, pq_memory_bytes = 0, pq_cpu_window = cpu_window_new now,
      pq_terminated = False, pq_violation_count = 0\<rparr>"

definition pq_update_memory :: "plugin_quota \<Rightarrow> u64 \<Rightarrow> plugin_quota" where
  "pq_update_memory q bytes = q\<lparr>pq_memory_bytes := bytes\<rparr>"

definition pq_record_cpu_time :: "plugin_quota \<Rightarrow> u64 \<Rightarrow> nat \<Rightarrow> plugin_quota" where
  "pq_record_cpu_time q cpu_time_us now =
     q\<lparr>pq_cpu_window := snd (cpu_record (pq_cpu_window q) cpu_time_us now)\<rparr>"

definition pq_evaluate_cpu :: "plugin_quota \<Rightarrow> quota_action \<times> plugin_quota" where
  "pq_evaluate_cpu q =
     (if 0 < qc_cpu_quota_percent (pq_config q) \<and>
        of_nat (unat (qc_cpu_quota_percent (pq_config q))) < cpu_usage_percent (pq_cpu_window q)
      then (QThrottle, q\<lparr>pq_violation_count := pq_violation_count q + 1\<rparr>)
      else (QAllow, q))"

definition pq_evaluate :: "plugin_quota \<Rightarrow> quota_action \<times> plugin_quota" where
  "pq_evaluate q =
     (if pq_terminated q then (QTerminate, q)
      else
        let c = pq_config q; mem_bytes = pq_memory_bytes q;
            mem_limit = qc_memory_limit_mb c * 1024 * 1024
        in if 0 < qc_memory_limit_mb c \<and> mem_limit < mem_bytes \<and> qc_terminate_on_memory c then
             (QTerminate, q\<lparr>pq_terminated := True, pq_violation_count := pq_violation_count q + 1\<rparr>)
           else pq_evaluate_cpu q)"

definition pq_reset_violations :: "plugin_quota \<Rightarrow> plugin_quota" where
  "pq_reset_violations q = q\<lparr>pq_violation_count := 0\<rparr>"

definition pq_terminate :: "plugin_quota \<Rightarrow> plugin_quota" where
  "pq_terminate q = q\<lparr>pq_terminated := True\<rparr>"

section \<open>Manager\<close>

definition quota_register :: "plugin_quota list \<Rightarrow> quota_config \<Rightarrow> nat \<Rightarrow> plugin_quota list" where
  "quota_register m config now = m @ [pq_new config now]"

fun quota_evaluate_all ::
  "plugin_quota list \<Rightarrow> (string list \<times> string list) \<times> plugin_quota list" where
  "quota_evaluate_all [] = (([], []), [])"
| "quota_evaluate_all (p # ps) =
     (case (pq_evaluate p, quota_evaluate_all ps) of
        ((act, p'), ((throttled, terminated), ps')) \<Rightarrow>
          (case act of
             QAllow \<Rightarrow> ((throttled, terminated), p' # ps')
           | QThrottle \<Rightarrow> ((qc_plugin_name (pq_config p) # throttled, terminated), p' # ps')
           | QTerminate \<Rightarrow> ((throttled, qc_plugin_name (pq_config p) # terminated), p' # ps')))"

text \<open>The lookup always fails: no reference can leave the lock.\<close>

definition quota_get :: "plugin_quota list \<Rightarrow> string \<Rightarrow> plugin_quota option" where
  "quota_get m n = None"

definition quota_unregister :: "plugin_quota list \<Rightarrow> string \<Rightarrow> plugin_quota list" where
  "quota_unregister m n = filter (\<lambda>p. qc_plugin_name (pq_config p) \<noteq> n) m"

section \<open>Histories\<close>

datatype quota_op = QMemory u64 | QCpu u64 nat | QEvaluate | QReset | QKill

definition quota_step :: "plugin_quota \<Rightarrow> quota_op \<Rightarrow> plugin_quota option" where
  "quota_step q op =
     Some (case op of
             QMemory b \<Rightarrow> pq_update_memory q b
           | QCpu us now \<Rightarrow> pq_record_cpu_time q us now
           | QEvaluate \<Rightarrow> snd (pq_evaluate q)
           | QReset \<Rightarrow> pq_reset_violations q
           | QKill \<Rightarrow> pq_terminate q)"

interpretation terminated_machine: safe_machine quota_step "q\<lparr>pq_terminated := True\<rparr>" pq_terminated for q
  by unfold_locales
    (auto simp: quota_step_def pq_update_memory_def pq_record_cpu_time_def pq_evaluate_def
      pq_reset_violations_def pq_terminate_def split: quota_op.splits)

lemma terminated_stays:
  "pq_terminated q \<Longrightarrow> run quota_step q ops = Some q' \<Longrightarrow> fst (pq_evaluate q') = QTerminate"
  using terminated_machine.inv_run by (simp add: pq_evaluate_def)

lemma mem_limit_exact:
  "unat mb < 2 ^ 44 \<Longrightarrow> unat (mb * 1024 * 1024 :: u64) = unat mb * 1048576"
  by (simp add: unat_word_ariths)

lemma evaluate_all_names:
  "snd (fst (quota_evaluate_all m)) =
     map (qc_plugin_name \<circ> pq_config) (filter (\<lambda>p. fst (pq_evaluate p) = QTerminate) m)"
  "fst (fst (quota_evaluate_all m)) =
     map (qc_plugin_name \<circ> pq_config) (filter (\<lambda>p. fst (pq_evaluate p) = QThrottle) m)"
  by (induction m) (auto split: prod.splits quota_action.splits)

section \<open>Property\<close>

text \<open>Quotas bite and do not let go: with a limit below 2^44 megabytes a plugin is terminated
  exactly when it was before or its memory exceeds the limit and the limit is enforced, and
  then stays terminated under every further operation; it is throttled exactly when it is not
  terminated and its time in the window exceeds the quota. Evaluation never ends a window:
  a throttled plugin that is not run, and so records no time, is throttled at every later
  evaluation, although its window has long passed.\<close>

theorem quota_enforced:
  assumes "unat (qc_memory_limit_mb (pq_config q)) < 2 ^ 44"
  shows "(fst (pq_evaluate q) = QTerminate \<longleftrightarrow>
       pq_terminated q \<or>
       (0 < qc_memory_limit_mb (pq_config q) \<and> qc_terminate_on_memory (pq_config q) \<and>
        unat (qc_memory_limit_mb (pq_config q)) * 1048576 < unat (pq_memory_bytes q))) \<and>
    (fst (pq_evaluate q) = QTerminate \<longrightarrow>
       (\<forall>ops q'. run quota_step (snd (pq_evaluate q)) ops = Some q' \<longrightarrow> fst (pq_evaluate q') = QTerminate)) \<and>
    (fst (pq_evaluate q) = QThrottle \<longleftrightarrow>
       fst (pq_evaluate q) \<noteq> QTerminate \<and> 0 < qc_cpu_quota_percent (pq_config q) \<and>
       of_nat (unat (qc_cpu_quota_percent (pq_config q))) < cpu_usage_percent (pq_cpu_window q)) \<and>
    (fst (pq_evaluate q) = QThrottle \<longrightarrow>
       (\<forall>n q'. run quota_step q (replicate n QEvaluate) = Some q' \<longrightarrow> fst (pq_evaluate q') = QThrottle))"
proof -
  have t: "fst (pq_evaluate q) = QTerminate \<longleftrightarrow> pq_terminated q \<or>
       (0 < qc_memory_limit_mb (pq_config q) \<and> qc_terminate_on_memory (pq_config q) \<and>
        unat (qc_memory_limit_mb (pq_config q)) * 1048576 < unat (pq_memory_bytes q))"
    using mem_limit_exact [OF assms]
    by (auto simp: pq_evaluate_def pq_evaluate_cpu_def Let_def word_less_nat_alt)
  have s: "pq_terminated (snd (pq_evaluate q))" if "fst (pq_evaluate q) = QTerminate"
    using that by (auto simp: pq_evaluate_def pq_evaluate_cpu_def Let_def split: if_splits)
  have th: "fst (pq_evaluate q) = QThrottle \<longleftrightarrow>
       fst (pq_evaluate q) \<noteq> QTerminate \<and> 0 < qc_cpu_quota_percent (pq_config q) \<and>
       of_nat (unat (qc_cpu_quota_percent (pq_config q))) < cpu_usage_percent (pq_cpu_window q)"
    by (auto simp: pq_evaluate_def pq_evaluate_cpu_def Let_def)
  have stick: "fst (pq_evaluate q') = QThrottle"
    if "fst (pq_evaluate q) = QThrottle" "run quota_step q (replicate n QEvaluate) = Some q'" for n q'
    using that
  proof (induction n arbitrary: q)
    case (Suc n)
    have "fst (pq_evaluate (snd (pq_evaluate q))) = QThrottle"
      using Suc.prems(1)
      by (auto simp: pq_evaluate_def pq_evaluate_cpu_def Let_def split: if_splits)
    then show ?case
      using Suc.IH [of "snd (pq_evaluate q)"] Suc.prems(2) by (simp add: quota_step_def)
  qed simp
  show ?thesis
    using t th stick terminated_stays [OF s] by blast
qed

theorem quota_enforced_witness:
  "fst (pq_evaluate (pq_update_memory (pq_new quota_config_default 0) 200000000)) = QTerminate"
proof -
  let ?q = "pq_update_memory (pq_new quota_config_default 0) 200000000"
  have b: "unat (qc_memory_limit_mb (pq_config ?q)) < 2 ^ 44"
    by (simp add: pq_update_memory_def pq_new_def quota_config_default_def)
  show ?thesis
    using quota_enforced [OF b] by (simp add: pq_update_memory_def pq_new_def quota_config_default_def)
qed

end
