(* ===== verification/Dependency.thy ===== *)
theory Dependency
  imports Prelude "HOL-Library.AList"
begin

text \<open>
  Validation of the fields plugins require and provide (core/src/plugin/dependency.rs). Hash
  maps are association lists and hash sets lists without repetition, in an order that stands
  for the iteration order; nothing proved depends on it. The recursion of the search for
  cycles carries fuel: one unit per nested call, of which the number of plugins and providers
  is enough. Warnings are the list of the violations that would be printed.
\<close>

section \<open>Data\<close>

record field_dependency =
  fd_plugin_name :: string
  fd_requires :: "string list"
  fd_requires_optional :: "string list"
  fd_provides :: "string list"
  fd_pipeline_stage :: "u32 option"

record missing_field =
  mf_plugin :: string
  mf_field :: string

record validation_result =
  vr_satisfied :: bool
  vr_missing_required :: "missing_field list"
  vr_circular_deps :: "string list list"

type_synonym dep_graph = "(string \<times> string list) list"

definition dv_register :: "field_dependency list \<Rightarrow> field_dependency \<Rightarrow> field_dependency list" where
  "dv_register ps dep = ps @ [dep]"

section \<open>Search for cycles\<close>

definition nbrs :: "dep_graph \<Rightarrow> string \<Rightarrow> string list" where
  "nbrs g n = (case map_of g n of Some ms \<Rightarrow> ms | None \<Rightarrow> [])"

record dfs_state =
  ds_visited :: "string set"
  ds_in_stack :: "string set"
  ds_path :: "string list"
  ds_cycles :: "string list list"

definition dfs_enter :: "string \<Rightarrow> dfs_state \<Rightarrow> dfs_state" where
  "dfs_enter n st =
     st\<lparr>ds_visited := insert n (ds_visited st), ds_in_stack := insert n (ds_in_stack st),
        ds_path := ds_path st @ [n]\<rparr>"

definition dfs_leave :: "string \<Rightarrow> dfs_state \<Rightarrow> dfs_state" where
  "dfs_leave n st =
     st\<lparr>ds_path := butlast (ds_path st), ds_in_stack := ds_in_stack st - {n}\<rparr>"

definition dfs_report :: "string \<Rightarrow> dfs_state \<Rightarrow> dfs_state" where
  "dfs_report m st =
     st\<lparr>ds_cycles := ds_cycles st @ [dropWhile (\<lambda>p. p \<noteq> m) (ds_path st)]\<rparr>"

fun dfs :: "nat \<Rightarrow> dep_graph \<Rightarrow> string \<Rightarrow> dfs_state \<Rightarrow> dfs_state option"
  and dfs_neighbors :: "nat \<Rightarrow> dep_graph \<Rightarrow> string list \<Rightarrow> dfs_state \<Rightarrow> dfs_state option" where
  "dfs 0 g n st = None"
| "dfs (Suc k) g n st = map_option (dfs_leave n) (dfs_neighbors k g (nbrs g n) (dfs_enter n st))"
| "dfs_neighbors k g [] st = Some st"
| "dfs_neighbors k g (m # ms) st =
     (if m \<notin> ds_visited st then
        (case dfs k g m st of None \<Rightarrow> None | Some st' \<Rightarrow> dfs_neighbors k g ms st')
      else if m \<in> ds_in_stack st then dfs_neighbors k g ms (dfs_report m st)
      else dfs_neighbors k g ms st)"

fun dfs_roots :: "nat \<Rightarrow> dep_graph \<Rightarrow> string list \<Rightarrow> dfs_state \<Rightarrow> dfs_state option" where
  "dfs_roots k g [] st = Some st"
| "dfs_roots k g (n # ns) st =
     (if n \<notin> ds_visited st then
        (case dfs k g n st of None \<Rightarrow> None | Some st' \<Rightarrow> dfs_roots k g ns st')
      else dfs_roots k g ns st)"

definition provides_map :: "field_dependency list \<Rightarrow> dep_graph" where
  "provides_map ps =
     fold (\<lambda>dep m. AList.update (fd_plugin_name dep) (remdups (fd_provides dep)) m) ps []"

definition add_edge :: "string \<Rightarrow> string \<Rightarrow> dep_graph \<Rightarrow> dep_graph" where
  "add_edge a b g = AList.update a (List.insert b (nbrs g a)) g"

definition depends_on :: "field_dependency list \<Rightarrow> dep_graph" where
  "depends_on ps =
     fold (\<lambda>dep g.
       fold (\<lambda>field g.
         fold (\<lambda>(provider, fs) g.
           if field \<in> set fs \<and> provider \<noteq> fd_plugin_name dep
           then add_edge (fd_plugin_name dep) provider g else g)
         (provides_map ps) g)
       (fd_requires dep) g)
     ps []"

definition dfs_init :: dfs_state where
  "dfs_init = \<lparr>ds_visited = {}, ds_in_stack = {}, ds_path = [], ds_cycles = []\<rparr>"

text \<open>Every node on the search path but the last is a key of the graph, and none repeats: this
much fuel suffices for the nested calls.\<close>

definition dfs_fuel :: "dep_graph \<Rightarrow> nat" where
  "dfs_fuel g = length g + 1"

definition detect_cycles :: "field_dependency list \<Rightarrow> string list list option" where
  "detect_cycles ps =
     (let g = depends_on ps in
      map_option ds_cycles (dfs_roots (dfs_fuel g) g (map fst g) dfs_init))"

section \<open>Validation\<close>

definition all_provided :: "field_dependency list \<Rightarrow> string list" where
  "all_provided ps = concat (map fd_provides ps)"

definition missing_of :: "field_dependency list \<Rightarrow> missing_field list" where
  "missing_of ps =
     concat (map (\<lambda>dep. map (\<lambda>f. \<lparr>mf_plugin = fd_plugin_name dep, mf_field = f\<rparr>)
       (filter (\<lambda>f. f \<notin> set (all_provided ps)) (fd_requires dep))) ps)"

definition dv_validate :: "field_dependency list \<Rightarrow> validation_result option" where
  "dv_validate ps =
     (let missing = missing_of ps in
      map_option (\<lambda>cycles.
        \<lparr>vr_satisfied = (missing = [] \<and> cycles = []), vr_missing_required = missing,
         vr_circular_deps = cycles\<rparr>) (detect_cycles ps))"

text \<open>Consumer, its stage, field, provider, its stage.\<close>

definition field_providers :: "field_dependency list \<Rightarrow> string \<Rightarrow> (string \<times> u32) list" where
  "field_providers ps f =
     concat (map (\<lambda>dep. case fd_pipeline_stage dep of
         None \<Rightarrow> []
       | Some s \<Rightarrow> map (\<lambda>_. (fd_plugin_name dep, s)) (filter (\<lambda>x. x = f) (fd_provides dep))) ps)"

definition ordering_violations ::
  "field_dependency list \<Rightarrow> (string \<times> u32 \<times> string \<times> string \<times> u32) list" where
  "ordering_violations ps =
     concat (map (\<lambda>dep. case fd_pipeline_stage dep of
         None \<Rightarrow> []
       | Some cs \<Rightarrow>
           concat (map (\<lambda>f. map (\<lambda>(p, s). (fd_plugin_name dep, cs, f, p, s))
             (filter (\<lambda>(p, s). cs \<le> s) (field_providers ps f))) (fd_requires dep))) ps)"

section \<open>The graph is the declared relation\<close>

definition requires_from :: "field_dependency list \<Rightarrow> (string \<times> string) set" where
  "requires_from ps =
     {(a, b). a \<noteq> b \<and> (\<exists>dep \<in> set ps. fd_plugin_name dep = a \<and>
        (\<exists>f \<in> set (fd_requires dep). \<exists>fs. map_of (provides_map ps) b = Some fs \<and> f \<in> set fs))}"

definition edges :: "dep_graph \<Rightarrow> (string \<times> string) set" where
  "edges g = {(a, b). b \<in> set (nbrs g a)}"

lemma nbrs_add_edge: "nbrs (add_edge a b g) x = (if x = a then List.insert b (nbrs g a) else nbrs g x)"
  by (simp add: nbrs_def add_edge_def update_conv')

lemma edges_add_edge [simp]: "edges (add_edge a b g) = insert (a, b) (edges g)"
  by (auto simp: edges_def nbrs_add_edge split: if_splits)

lemma edges_Nil [simp]: "edges [] = {}"
  by (simp add: edges_def nbrs_def)

text \<open>A fold that only adds collects what each element adds.\<close>

lemma fold_collect:
  assumes "\<And>x g. E (f x g) = A x \<union> E g"
  shows "E (fold f xs g) = (\<Union>x \<in> set xs. A x) \<union> E g"
  using assms by (induction xs arbitrary: g) auto

lemma fold_keeps: "(\<And>x g. P g \<Longrightarrow> P (f x g)) \<Longrightarrow> P g \<Longrightarrow> P (fold f xs g)"
  by (induction xs arbitrary: g) auto

lemma distinct_provides_map: "distinct (map fst (provides_map ps))"
  unfolding provides_map_def by (rule fold_keeps) (auto intro: distinct_update)

lemma edges_depends_on: "edges (depends_on ps) = requires_from ps"
proof -
  let ?pm = "provides_map ps"
  let ?edge = "\<lambda>dep f (p, fs) g. if f \<in> set fs \<and> p \<noteq> fd_plugin_name dep
      then add_edge (fd_plugin_name dep) p g else g"
  let ?E = "\<lambda>dep f (p, fs). if f \<in> set fs \<and> p \<noteq> fd_plugin_name dep then {(fd_plugin_name dep, p)} else {}"
  have 1: "edges (?edge dep f x g) = ?E dep f x \<union> edges g" for dep f x g
    by (cases x) simp
  have 2: "edges (fold (?edge dep f) ?pm g) = (\<Union>x \<in> set ?pm. ?E dep f x) \<union> edges g" for dep f g
    by (rule fold_collect) (rule 1)
  have 3: "edges (fold (\<lambda>f g. fold (?edge dep f) ?pm g) (fd_requires dep) g) =
      (\<Union>f \<in> set (fd_requires dep). \<Union>x \<in> set ?pm. ?E dep f x) \<union> edges g" for dep g
    by (rule fold_collect) (rule 2)
  have "edges (depends_on ps) =
      (\<Union>dep \<in> set ps. \<Union>f \<in> set (fd_requires dep). \<Union>x \<in> set ?pm. ?E dep f x) \<union> edges []"
    unfolding depends_on_def by (rule fold_collect) (rule 3)
  also have "\<dots> = requires_from ps"
  proof (intro equalityI subrelI)
    fix a b
    assume "(a, b) \<in> (\<Union>dep \<in> set ps. \<Union>f \<in> set (fd_requires dep). \<Union>x \<in> set ?pm. ?E dep f x) \<union> edges []"
    then obtain dep f fs where d: "dep \<in> set ps" "f \<in> set (fd_requires dep)" "(b, fs) \<in> set ?pm" "f \<in> set fs"
        "b \<noteq> fd_plugin_name dep" "a = fd_plugin_name dep"
      by (auto split: if_splits)
    have "map_of ?pm b = Some fs"
      using d(3) distinct_provides_map by (simp add: map_of_eq_Some_iff)
    with d show "(a, b) \<in> requires_from ps" unfolding requires_from_def by blast
  next
    fix a b
    assume "(a, b) \<in> requires_from ps"
    then obtain dep f fs where d: "dep \<in> set ps" "f \<in> set (fd_requires dep)" "map_of ?pm b = Some fs"
        "f \<in> set fs" "b \<noteq> fd_plugin_name dep" "a = fd_plugin_name dep"
      unfolding requires_from_def by blast
    then have "(a, b) \<in> ?E dep f (b, fs)" "(b, fs) \<in> set ?pm"
      by (simp_all add: map_of_SomeD)
    with d(1,2) show "(a, b) \<in> (\<Union>dep \<in> set ps. \<Union>f \<in> set (fd_requires dep). \<Union>x \<in> set ?pm. ?E dep f x) \<union> edges []"
      by blast
  qed
  finally show ?thesis .
qed

lemma nbrs_key: "b \<in> set (nbrs g a) \<Longrightarrow> a \<in> fst ` set g"
  unfolding nbrs_def by (cases "map_of g a") (simp, metis map_of_SomeD fst_conv imageI)

section \<open>Invariants of the search\<close>

definition walk :: "dep_graph \<Rightarrow> string list \<Rightarrow> bool" where
  "walk g p \<longleftrightarrow> successively (\<lambda>a b. b \<in> set (nbrs g a)) p"

text \<open>A closed walk: each name requires the next, the last one the first.\<close>

definition is_cycle :: "dep_graph \<Rightarrow> string list \<Rightarrow> bool" where
  "is_cycle g c \<longleftrightarrow> c \<noteq> [] \<and> walk g c \<and> hd c \<in> set (nbrs g (last c))"

definition dfs_ok :: "dep_graph \<Rightarrow> dfs_state \<Rightarrow> bool" where
  "dfs_ok g st \<longleftrightarrow>
     ds_in_stack st = set (ds_path st) \<and> distinct (ds_path st) \<and>
     set (ds_path st) \<subseteq> ds_visited st \<and> walk g (ds_path st) \<and>
     list_all (is_cycle g) (ds_cycles st)"

text \<open>What a part of the search leaves unchanged, and what it only adds to.\<close>

definition dfs_grows :: "dfs_state \<Rightarrow> dfs_state \<Rightarrow> bool" where
  "dfs_grows st st' \<longleftrightarrow>
     ds_path st' = ds_path st \<and> ds_visited st \<subseteq> ds_visited st' \<and>
     (ds_cycles st' = [] \<longrightarrow> ds_cycles st = [])"

lemma dfs_grows_refl [simp]: "dfs_grows st st"
  by (simp add: dfs_grows_def)

lemma dfs_grows_trans: "dfs_grows a b \<Longrightarrow> dfs_grows b c \<Longrightarrow> dfs_grows a c"
  by (auto simp: dfs_grows_def)

lemma walk_snoc: "walk g (p @ [n]) \<longleftrightarrow> walk g p \<and> (p = [] \<or> n \<in> set (nbrs g (last p)))"
  by (auto simp: walk_def successively_append_iff)

lemma walk_suffix: "walk g (p @ q) \<Longrightarrow> walk g q"
  by (simp add: walk_def successively_append_iff)

lemma dfs_enter_ok:
  "dfs_ok g st \<Longrightarrow> n \<notin> ds_visited st \<Longrightarrow> ds_path st = [] \<or> n \<in> set (nbrs g (last (ds_path st))) \<Longrightarrow>
     dfs_ok g (dfs_enter n st)"
  by (auto simp: dfs_ok_def dfs_enter_def walk_snoc)

lemma dfs_report_ok:
  assumes "dfs_ok g st" and "m \<in> ds_in_stack st" and "m \<in> set (nbrs g (last (ds_path st)))"
  shows "dfs_ok g (dfs_report m st)"
proof -
  let ?p = "ds_path st"
  have m: "m \<in> set ?p" using assms(1,2) by (simp add: dfs_ok_def)
  then obtain a b where p: "?p = a @ m # b" and a: "m \<notin> set a"
    by (meson split_list_first)
  then have "dropWhile (\<lambda>p. p \<noteq> m) ?p = m # b"
    by (auto simp: dropWhile_append3)
  moreover have "is_cycle g (m # b)"
    using assms p walk_suffix [of g a "m # b"] by (auto simp: is_cycle_def dfs_ok_def)
  ultimately show ?thesis
    using assms(1) by (simp add: dfs_ok_def dfs_report_def)
qed

lemma dfs_leave_ok:
  assumes "dfs_ok g st" and "ds_path st = p @ [n]"
  shows "dfs_ok g (dfs_leave n st)" and "ds_path (dfs_leave n st) = p"
  using assms by (auto simp: dfs_ok_def dfs_leave_def walk_snoc)

lemma dfs_grows_call:
  "dfs_grows (dfs_enter n st) st' \<Longrightarrow> dfs_grows st (dfs_leave n st') \<and> n \<in> ds_visited (dfs_leave n st')"
  by (auto simp: dfs_grows_def dfs_enter_def dfs_leave_def)

lemma dfs_keeps:
  "dfs k g n st = Some st' \<Longrightarrow> dfs_ok g st \<Longrightarrow> n \<notin> ds_visited st \<Longrightarrow>
     ds_path st = [] \<or> n \<in> set (nbrs g (last (ds_path st))) \<Longrightarrow>
     dfs_ok g st' \<and> dfs_grows st st' \<and> n \<in> ds_visited st'"
  "dfs_neighbors k g ms st = Some st' \<Longrightarrow> dfs_ok g st \<Longrightarrow> ds_path st \<noteq> [] \<Longrightarrow>
     set ms \<subseteq> set (nbrs g (last (ds_path st))) \<Longrightarrow>
     dfs_ok g st' \<and> dfs_grows st st' \<and> set ms \<subseteq> ds_visited st'"
proof (induction k g n st and k g ms st arbitrary: st' and st' rule: dfs_dfs_neighbors.induct)
  case (2 k g n st)
  obtain st1 where s1: "dfs_neighbors k g (nbrs g n) (dfs_enter n st) = Some st1" "st' = dfs_leave n st1"
    using "2.prems"(1) by auto
  have e: "ds_path (dfs_enter n st) = ds_path st @ [n]" by (simp add: dfs_enter_def)
  have r: "dfs_ok g st1 \<and> dfs_grows (dfs_enter n st) st1 \<and> set (nbrs g n) \<subseteq> ds_visited st1"
    by (rule "2.IH" [OF s1(1) dfs_enter_ok [OF "2.prems"(2-4)]]) (simp_all add: e)
  then have "ds_path st1 = ds_path st @ [n]" by (simp add: dfs_grows_def e)
  then show ?case
    using r dfs_leave_ok(1) dfs_grows_call [of n st st1] s1(2) by blast
next
  case (4 k g m ms st)
  have m: "m \<in> set (nbrs g (last (ds_path st)))" using "4.prems"(4) by simp
  show ?case
  proof (cases "m \<in> ds_visited st")
    case False
    then obtain st1 where s1: "dfs k g m st = Some st1" "dfs_neighbors k g ms st1 = Some st'"
      using "4.prems"(1) by (auto split: option.splits)
    have r: "dfs_ok g st1 \<and> dfs_grows st st1 \<and> m \<in> ds_visited st1"
      by (rule "4.IH"(1) [OF False s1(1) "4.prems"(2) False]) (use m in simp)
    have "dfs_ok g st' \<and> dfs_grows st1 st' \<and> set ms \<subseteq> ds_visited st'"
      by (rule "4.IH"(2) [OF False s1(1) s1(2)]) (use r "4.prems" in \<open>auto simp: dfs_grows_def\<close>)
    moreover from this r have "dfs_grows st st'" using dfs_grows_trans by blast
    moreover from calculation(1) have "ds_visited st1 \<subseteq> ds_visited st'" by (simp add: dfs_grows_def)
    ultimately show ?thesis using r by auto
  next
    case vis: True
    show ?thesis
    proof (cases "m \<in> ds_in_stack st")
      case True
      have ok: "dfs_ok g (dfs_report m st)" by (rule dfs_report_ok [OF "4.prems"(2) True m])
      have "dfs_neighbors k g ms (dfs_report m st) = Some st'" using "4.prems"(1) vis True by simp
      then have "dfs_ok g st' \<and> dfs_grows (dfs_report m st) st' \<and> set ms \<subseteq> ds_visited st'"
        using "4.IH"(3) vis True ok "4.prems"(3,4) by (simp add: dfs_report_def)
      then show ?thesis using vis by (auto simp: dfs_grows_def dfs_report_def)
    next
      case False
      then show ?thesis
        using "4.IH"(4) vis "4.prems" by (auto simp: dfs_grows_def)
    qed
  qed
qed auto

section \<open>Finished names are ordered\<close>

text \<open>Every name of the list requires only names behind it.\<close>

fun topo :: "dep_graph \<Rightarrow> string list \<Rightarrow> bool" where
  "topo g [] = True"
| "topo g (n # ns) = (set (nbrs g n) \<subseteq> set ns \<and> n \<notin> set ns \<and> topo g ns)"

definition dfs_topo :: "dep_graph \<Rightarrow> dfs_state \<Rightarrow> string list \<Rightarrow> bool" where
  "dfs_topo g st ord \<longleftrightarrow>
     topo g ord \<and> ds_visited st = set (ds_path st) \<union> set ord \<and> set (ds_path st) \<inter> set ord = {}"

lemma dfs_topo_enter: "dfs_topo g st ord \<Longrightarrow> n \<notin> ds_visited st \<Longrightarrow> dfs_topo g (dfs_enter n st) ord"
  by (auto simp: dfs_topo_def dfs_enter_def)

lemma dfs_topo_leave:
  "dfs_topo g st ord \<Longrightarrow> ds_path st = p @ [n] \<Longrightarrow> n \<notin> set p \<Longrightarrow> set (nbrs g n) \<subseteq> set ord \<Longrightarrow>
     dfs_topo g (dfs_leave n st) (n # ord)"
  by (auto simp: dfs_topo_def dfs_leave_def)

lemma dfs_orders:
  "dfs k g n st = Some st' \<Longrightarrow> dfs_ok g st \<Longrightarrow> n \<notin> ds_visited st \<Longrightarrow>
     ds_path st = [] \<or> n \<in> set (nbrs g (last (ds_path st))) \<Longrightarrow>
     dfs_topo g st ord \<Longrightarrow> ds_cycles st' = [] \<Longrightarrow>
     \<exists>ord'. dfs_topo g st' ord' \<and> insert n (set ord) \<subseteq> set ord'"
  "dfs_neighbors k g ms st = Some st' \<Longrightarrow> dfs_ok g st \<Longrightarrow> ds_path st \<noteq> [] \<Longrightarrow>
     set ms \<subseteq> set (nbrs g (last (ds_path st))) \<Longrightarrow>
     dfs_topo g st ord \<Longrightarrow> ds_cycles st' = [] \<Longrightarrow>
     \<exists>ord'. dfs_topo g st' ord' \<and> set ms \<union> set ord \<subseteq> set ord'"
proof (induction k g n st and k g ms st arbitrary: st' ord and st' ord rule: dfs_dfs_neighbors.induct)
  case (2 k g n st)
  obtain st1 where s1: "dfs_neighbors k g (nbrs g n) (dfs_enter n st) = Some st1" "st' = dfs_leave n st1"
    using "2.prems"(1) by auto
  have e: "ds_path (dfs_enter n st) = ds_path st @ [n]" by (simp add: dfs_enter_def)
  note ok = dfs_enter_ok [OF "2.prems"(2-4)]
  have c: "ds_cycles st1 = []" using "2.prems"(6) s1(2) by (simp add: dfs_leave_def)
  obtain ord1 where o1: "dfs_topo g st1 ord1" "set (nbrs g n) \<union> set ord \<subseteq> set ord1"
    using "2.IH" [OF s1(1) ok _ _ dfs_topo_enter [OF "2.prems"(5,3)] c] by (auto simp: e)
  have p: "ds_path st1 = ds_path st @ [n]"
    using dfs_keeps(2) [OF s1(1) ok] by (simp add: e dfs_grows_def)
  have "n \<notin> set (ds_path st)" using "2.prems"(2,3) by (auto simp: dfs_ok_def)
  from dfs_topo_leave [OF o1(1) p this] o1(2) s1(2) show ?case
    by (intro exI [of _ "n # ord1"]) auto
next
  case (4 k g m ms st)
  have m: "m \<in> set (nbrs g (last (ds_path st)))" using "4.prems"(4) by simp
  show ?case
  proof (cases "m \<in> ds_visited st")
    case False
    then obtain st1 where s1: "dfs k g m st = Some st1" "dfs_neighbors k g ms st1 = Some st'"
      using "4.prems"(1) by (auto split: option.splits)
    have k1: "dfs_ok g st1 \<and> dfs_grows st st1 \<and> m \<in> ds_visited st1"
      by (rule dfs_keeps(1) [OF s1(1) "4.prems"(2) False]) (use m in simp)
    have pre: "ds_path st1 \<noteq> []" "set ms \<subseteq> set (nbrs g (last (ds_path st1)))"
      using k1 "4.prems"(3,4) by (auto simp: dfs_grows_def)
    have "dfs_grows st1 st'" using dfs_keeps(2) [OF s1(2) _ pre] k1 by simp
    then have c1: "ds_cycles st1 = []" using "4.prems"(6) by (simp add: dfs_grows_def)
    obtain ord1 where o1: "dfs_topo g st1 ord1" "insert m (set ord) \<subseteq> set ord1"
      using "4.IH"(1) [OF False s1(1) "4.prems"(2) False _ "4.prems"(5) c1] m by auto
    obtain ord2 where "dfs_topo g st' ord2" "set ms \<union> set ord1 \<subseteq> set ord2"
      using "4.IH"(2) [OF False s1(1) s1(2) _ pre o1(1) "4.prems"(6)] k1 by auto
    then show ?thesis using o1(2) by (intro exI [of _ ord2]) auto
  next
    case vis: True
    have notin: "m \<notin> ds_in_stack st"
    proof
      assume i: "m \<in> ds_in_stack st"
      have "dfs_neighbors k g ms (dfs_report m st) = Some st'" using "4.prems"(1) vis i by simp
      moreover have "dfs_ok g (dfs_report m st)" by (rule dfs_report_ok [OF "4.prems"(2) i m])
      ultimately have "dfs_grows (dfs_report m st) st'"
        using dfs_keeps(2) [of k g ms "dfs_report m st" st'] "4.prems"(3,4) by (simp add: dfs_report_def)
      then show False using "4.prems"(6) by (simp add: dfs_grows_def dfs_report_def)
    qed
    then have "m \<in> set ord" using vis "4.prems"(2,5) by (auto simp: dfs_topo_def dfs_ok_def)
    moreover have "\<exists>ord'. dfs_topo g st' ord' \<and> set ms \<union> set ord \<subseteq> set ord'"
      by (rule "4.IH"(4)) (use vis notin "4.prems" in auto)
    ultimately show ?thesis by fastforce
  qed
qed auto

section \<open>The fuel is enough\<close>

definition keys_left :: "dep_graph \<Rightarrow> dfs_state \<Rightarrow> nat" where
  "keys_left g st = card (fst ` set g - set (ds_path st))"

lemma keys_left_enter:
  "n \<in> fst ` set g \<Longrightarrow> n \<notin> set (ds_path st) \<Longrightarrow> keys_left g (dfs_enter n st) < keys_left g st"
  unfolding keys_left_def dfs_enter_def
  by (intro psubset_card_mono) auto

lemma dfs_returns:
  "dfs_ok g st \<Longrightarrow> n \<notin> ds_visited st \<Longrightarrow>
     ds_path st = [] \<or> n \<in> set (nbrs g (last (ds_path st))) \<Longrightarrow> keys_left g st < k \<Longrightarrow>
     \<exists>st'. dfs k g n st = Some st'"
  "dfs_ok g st \<Longrightarrow> ds_path st \<noteq> [] \<Longrightarrow> set ms \<subseteq> set (nbrs g (last (ds_path st))) \<Longrightarrow>
     ms = [] \<or> keys_left g st < k \<Longrightarrow> \<exists>st'. dfs_neighbors k g ms st = Some st'"
proof (induction k g n st and k g ms st rule: dfs_dfs_neighbors.induct)
  case (2 k g n st)
  have "n \<notin> set (ds_path st)" using "2.prems"(1,2) by (auto simp: dfs_ok_def)
  then have "nbrs g n = [] \<or> keys_left g (dfs_enter n st) < k"
    using keys_left_enter [of n g st] nbrs_key [of _ g n] "2.prems"(4)
    by (cases "nbrs g n") fastforce+
  moreover have "ds_path (dfs_enter n st) = ds_path st @ [n]" by (simp add: dfs_enter_def)
  ultimately obtain st1 where "dfs_neighbors k g (nbrs g n) (dfs_enter n st) = Some st1"
    using "2.IH" dfs_enter_ok [OF "2.prems"(1-3)] by auto
  then show ?case by simp
next
  case (4 k g m ms st)
  have m: "m \<in> set (nbrs g (last (ds_path st)))" and k: "keys_left g st < k"
    using "4.prems"(3,4) by auto
  show ?case
  proof (cases "m \<in> ds_visited st")
    case False
    then obtain st1 where s1: "dfs k g m st = Some st1"
      using "4.IH"(1) "4.prems"(1) m k by blast
    have k1: "dfs_ok g st1 \<and> dfs_grows st st1"
      using dfs_keeps(1) [OF s1 "4.prems"(1) False] m by simp
    then have "ds_path st1 = ds_path st" by (simp add: dfs_grows_def)
    then have "\<exists>st'. dfs_neighbors k g ms st1 = Some st'"
      using "4.IH"(2) [OF False s1] k1 "4.prems"(2,3) k by (simp add: keys_left_def)
    then show ?thesis using False s1 by simp
  next
    case vis: True
    show ?thesis
    proof (cases "m \<in> ds_in_stack st")
      case True
      have "dfs_ok g (dfs_report m st)" by (rule dfs_report_ok [OF "4.prems"(1) True m])
      then show ?thesis
        using "4.IH"(3) vis True "4.prems"(2,3) k by (simp add: dfs_report_def keys_left_def)
    next
      case False
      then show ?thesis using "4.IH"(4) vis "4.prems"(1-3) k by simp
    qed
  qed
qed auto

lemma dfs_roots_returns:
  assumes "dfs_ok g st" and "ds_path st = []" and "card (fst ` set g) < k"
  shows "\<exists>st'. dfs_roots k g ns st = Some st' \<and> dfs_ok g st' \<and> ds_path st' = [] \<and>
    dfs_grows st st' \<and>
    (\<forall>ord. dfs_topo g st ord \<longrightarrow> ds_cycles st' = [] \<longrightarrow>
       (\<exists>ord'. dfs_topo g st' ord' \<and> set ns \<union> set ord \<subseteq> set ord'))"
  using assms(1,2)
proof (induction ns arbitrary: st)
  case (Cons n ns)
  show ?case
  proof (cases "n \<in> ds_visited st")
    case True
    obtain st' where st': "dfs_roots k g ns st = Some st'" "dfs_ok g st'" "ds_path st' = []" "dfs_grows st st'"
      "\<forall>ord. dfs_topo g st ord \<longrightarrow> ds_cycles st' = [] \<longrightarrow>
         (\<exists>ord'. dfs_topo g st' ord' \<and> set ns \<union> set ord \<subseteq> set ord')"
      using Cons.IH [OF Cons.prems] by blast
    have "n \<in> set ord" if "dfs_topo g st ord" for ord
      using that True Cons.prems(2) by (simp add: dfs_topo_def)
    with st' True show ?thesis by (intro exI [of _ st']) fastforce
  next
    case False
    have left: "keys_left g st < k" using assms(3) Cons.prems(2) by (simp add: keys_left_def)
    obtain st1 where s1: "dfs k g n st = Some st1"
      using dfs_returns(1) [OF Cons.prems(1) False _ left] Cons.prems(2) by blast
    have k1: "dfs_ok g st1" "dfs_grows st st1" "ds_path st1 = []"
      using dfs_keeps(1) [OF s1 Cons.prems(1) False] Cons.prems(2) by (auto simp: dfs_grows_def)
    obtain st' where st': "dfs_roots k g ns st1 = Some st'" "dfs_ok g st'" "ds_path st' = []" "dfs_grows st1 st'"
      "\<forall>ord. dfs_topo g st1 ord \<longrightarrow> ds_cycles st' = [] \<longrightarrow>
         (\<exists>ord'. dfs_topo g st' ord' \<and> set ns \<union> set ord \<subseteq> set ord')"
      using Cons.IH [OF k1(1,3)] by blast
    have "\<exists>ord'. dfs_topo g st' ord' \<and> set (n # ns) \<union> set ord \<subseteq> set ord'"
      if o: "dfs_topo g st ord" and c: "ds_cycles st' = []" for ord
    proof -
      have "ds_cycles st1 = []" using st'(4) c by (simp add: dfs_grows_def)
      then obtain ord1 where "dfs_topo g st1 ord1" "insert n (set ord) \<subseteq> set ord1"
        using dfs_orders(1) [OF s1 Cons.prems(1) False _ o] Cons.prems(2) by blast
      then show ?thesis using st'(5) c by fastforce
    qed
    with st' s1 False dfs_grows_trans [OF k1(2) st'(4)] show ?thesis by auto
  qed
qed (auto simp: dfs_topo_def)

section \<open>Properties\<close>

lemma topo_rank:
  "topo g ord \<Longrightarrow> a \<in> set ord \<Longrightarrow> b \<in> set (nbrs g a) \<Longrightarrow>
     b \<in> set ord \<and> length (dropWhile (\<lambda>x. x \<noteq> b) ord) < length (dropWhile (\<lambda>x. x \<noteq> a) ord)"
proof (induction ord)
  case (Cons n ns)
  show ?case
  proof (cases "a = n")
    case True
    then have "b \<in> set ns" "b \<noteq> n" using Cons.prems by auto
    then show ?thesis using True length_dropWhile_le [of "\<lambda>x. x \<noteq> b" ns] by simp
  next
    case False
    then have "b \<in> set ns" "n \<notin> set ns" using Cons by auto
    then show ?thesis using Cons False by auto
  qed
qed simp

lemma topo_acyclic:
  assumes "topo g ord" and "fst ` set g \<subseteq> set ord"
  shows "acyclic (edges g)"
proof -
  have "(edges g)\<inverse> \<subseteq> measure (\<lambda>a. length (dropWhile (\<lambda>x. x \<noteq> a) ord))"
    using topo_rank [OF assms(1)] assms(2) nbrs_key by (fastforce simp: edges_def)
  then have "acyclic ((edges g)\<inverse>)" by (meson wf_acyclic wf_measure wf_subset)
  then show ?thesis by simp
qed

lemma walk_reach: "c \<noteq> [] \<Longrightarrow> walk g c \<Longrightarrow> (hd c, last c) \<in> (edges g)\<^sup>*"
proof (induction c)
  case (Cons a c)
  show ?case
  proof (cases c)
    case (Cons b d)
    then have "(a, b) \<in> edges g" "walk g c" using Cons.prems(2) by (simp_all add: walk_def edges_def)
    then show ?thesis using Cons.IH Cons by (auto intro: converse_rtrancl_into_rtrancl)
  qed simp
qed simp

lemma cycle_not_acyclic: "is_cycle g c \<Longrightarrow> \<not> acyclic (edges g)"
proof -
  assume c: "is_cycle g c"
  then have "(hd c, last c) \<in> (edges g)\<^sup>*" "(last c, hd c) \<in> edges g"
    using walk_reach by (auto simp: is_cycle_def edges_def)
  then show "\<not> acyclic (edges g)" by (meson acyclic_def rtrancl_into_trancl1)
qed

text \<open>C29: The search for circular dependencies ends and is exact: on any set of registered
  plugins it returns, every chain it reports is a cycle in which each plugin requires a field
  that the next provides and the last one of the first, and it reports nothing exactly when
  the relation of requiring a field from another plugin is acyclic. Validation succeeds
  exactly when moreover every required field is provided by some plugin.\<close>

theorem dependency_cycles_exact:
  "\<exists>cycles r. detect_cycles ps = Some cycles \<and> dv_validate ps = Some r \<and>
     vr_circular_deps r = cycles \<and>
     list_all (is_cycle (depends_on ps)) cycles \<and>
     (cycles = [] \<longleftrightarrow> acyclic (requires_from ps)) \<and>
     (vr_satisfied r \<longleftrightarrow> acyclic (requires_from ps) \<and>
        \<Union> (set ` fd_requires ` set ps) \<subseteq> \<Union> (set ` fd_provides ` set ps))"
proof -
  let ?g = "depends_on ps"
  have init: "dfs_ok ?g dfs_init" "ds_path dfs_init = []" "dfs_topo ?g dfs_init []"
    by (simp_all add: dfs_ok_def dfs_init_def walk_def dfs_topo_def)
  have "card (fst ` set ?g) < dfs_fuel ?g"
    using card_image_le [of "set ?g" fst] card_length [of ?g] by (simp add: dfs_fuel_def)
  from dfs_roots_returns [OF init(1,2) this, of "map fst ?g"] obtain st' where st':
    "dfs_roots (dfs_fuel ?g) ?g (map fst ?g) dfs_init = Some st'" "dfs_ok ?g st'"
    "ds_cycles st' = [] \<Longrightarrow> \<exists>ord'. dfs_topo ?g st' ord' \<and> set (map fst ?g) \<union> set [] \<subseteq> set ord'"
    using init(3) by blast
  have valid: "list_all (is_cycle ?g) (ds_cycles st')" using st'(2) by (simp add: dfs_ok_def)
  have acyc: "ds_cycles st' = [] \<longleftrightarrow> acyclic (requires_from ps)"
  proof
    assume "ds_cycles st' = []"
    from st'(3) [OF this] obtain ord' where "topo ?g ord'" "fst ` set ?g \<subseteq> set ord'"
      by (auto simp: dfs_topo_def)
    then show "acyclic (requires_from ps)" using topo_acyclic edges_depends_on by metis
  next
    assume "acyclic (requires_from ps)"
    then show "ds_cycles st' = []"
      using valid cycle_not_acyclic [of ?g] edges_depends_on [of ps]
      by (cases "ds_cycles st'") auto
  qed
  have miss: "missing_of ps = [] \<longleftrightarrow> \<Union> (set ` fd_requires ` set ps) \<subseteq> \<Union> (set ` fd_provides ` set ps)"
    by (auto simp: missing_of_def all_provided_def filter_empty_conv)
  have det: "detect_cycles ps = Some (ds_cycles st')" using st'(1) by (simp add: detect_cycles_def Let_def)
  show ?thesis
    using det valid acyc miss by (auto simp: dv_validate_def Let_def)
qed

end
