(* ===== verification/Key_Rotation.thy ===== *)
theory Key_Rotation
  imports Signature Util_Hex Machine
begin

text \<open>
  Rotation and revocation of signing keys (core/src/security/key_rotation.rs). The fingerprint
  of a key, a hash of its bytes, is a parameter \<open>fp\<close>; \<open>fingerprint_key\<close> is its definition. The
  fresh key of a rotation and the clock are arguments. The JSON text around the revocation
  list is the crate serde_json; the model starts from its parsed entries.
\<close>

section \<open>State\<close>

definition fingerprint_key :: "(bytes \<Rightarrow> bytes) \<Rightarrow> ('vk \<Rightarrow> bytes) \<Rightarrow> 'vk \<Rightarrow> bytes" where
  "fingerprint_key sha as_bytes vk = sha (as_bytes vk)"

datatype crl_reason = Compromised | Superseded | Deactivated

fun crl_reason_str :: "crl_reason \<Rightarrow> string" where
  "crl_reason_str Compromised = ''compromised''"
| "crl_reason_str Superseded = ''superseded''"
| "crl_reason_str Deactivated = ''deactivated''"

definition crl_reason_parse :: "string \<Rightarrow> crl_reason option" where
  "crl_reason_parse s =
     (if s = ''compromised'' then Some Compromised
      else if s = ''superseded'' then Some Superseded
      else if s = ''deactivated'' then Some Deactivated
      else None)"

record crl_entry =
  ce_fingerprint :: bytes
  ce_revoked_at :: u64
  ce_reason :: crl_reason

datatype rotation_status = InProgress | Completed | Cancelled

record rotation_event =
  re_old :: "bytes option"
  re_new :: bytes
  re_initiated_at :: u64
  re_status :: rotation_status

datatype rotation_error = NoRotationInProgress | RotationAlreadyInProgress | KeyNotFound
  | CannotRevokeOnlyKey | GracePeriodNotElapsed

fun rotation_error_text :: "rotation_error \<Rightarrow> string" where
  "rotation_error_text NoRotationInProgress = ''No key rotation in progress''"
| "rotation_error_text RotationAlreadyInProgress = ''Key rotation already in progress''"
| "rotation_error_text KeyNotFound = ''Key fingerprint not found among active keys''"
| "rotation_error_text CannotRevokeOnlyKey = ''Cannot revoke the only active key''"
| "rotation_error_text GracePeriodNotElapsed = ''Grace period has not elapsed''"

record ('sk, 'vk) key_rotation =
  kr_keys :: "'vk list"
  kr_signing :: "'sk list"
  kr_primary :: nat
  kr_history :: "rotation_event list"
  kr_revoked :: "bytes set"
  kr_crl :: "crl_entry list"
  kr_grace_days :: u32

definition kr_new :: "('sk, 'vk) ed25519 \<Rightarrow> 'sk \<Rightarrow> u32 \<Rightarrow> ('sk, 'vk) key_rotation" where
  "kr_new ed sk days =
     \<lparr>kr_keys = [ed_public ed sk], kr_signing = [sk], kr_primary = 0, kr_history = [],
      kr_revoked = {}, kr_crl = [], kr_grace_days = days\<rparr>"

definition active_key_count :: "('sk, 'vk) key_rotation \<Rightarrow> nat" where
  "active_key_count s = length (kr_keys s)"

definition primary_signing_key :: "('sk, 'vk) key_rotation \<Rightarrow> 'sk" where
  "primary_signing_key s = kr_signing s ! kr_primary s"

definition primary_verifying_key :: "('sk, 'vk) key_rotation \<Rightarrow> 'vk" where
  "primary_verifying_key s = kr_keys s ! kr_primary s"

definition primary_fingerprint :: "('vk \<Rightarrow> bytes) \<Rightarrow> ('sk, 'vk) key_rotation \<Rightarrow> bytes" where
  "primary_fingerprint fp s = fp (kr_keys s ! kr_primary s)"

definition rotation_in_progress :: "('sk, 'vk) key_rotation \<Rightarrow> bool" where
  "rotation_in_progress s \<longleftrightarrow> 1 < length (kr_keys s)"

section \<open>Operations\<close>

definition remove_at :: "nat \<Rightarrow> 'a list \<Rightarrow> 'a list" where
  "remove_at i xs = take i xs @ drop (Suc i) xs"

definition initiate_rotation ::
  "('vk \<Rightarrow> bytes) \<Rightarrow> ('sk, 'vk) ed25519 \<Rightarrow> 'sk \<Rightarrow> u64 \<Rightarrow> ('sk, 'vk) key_rotation \<Rightarrow>
     (rotation_error + rotation_event) \<times> ('sk, 'vk) key_rotation" where
  "initiate_rotation fp ed new_key now s =
     (if rotation_in_progress s then (Inl RotationAlreadyInProgress, s)
      else
        let event = \<lparr>re_old = Some (fp (kr_keys s ! kr_primary s)), re_new = fp (ed_public ed new_key),
              re_initiated_at = now, re_status = InProgress\<rparr>;
            keys = kr_keys s @ [ed_public ed new_key]
        in (Inr event, s\<lparr>kr_signing := kr_signing s @ [new_key], kr_keys := keys,
              kr_primary := length keys - 1, kr_history := kr_history s @ [event]\<rparr>))"

text \<open>The latest event in progress, and closing it.\<close>

definition pending_event :: "rotation_event list \<Rightarrow> rotation_event option" where
  "pending_event h = find (\<lambda>e. re_status e = InProgress) (rev h)"

fun close_first :: "rotation_status \<Rightarrow> rotation_event list \<Rightarrow> rotation_event list" where
  "close_first st [] = []"
| "close_first st (e # es) =
     (if re_status e = InProgress then e\<lparr>re_status := st\<rparr> # es else e # close_first st es)"

definition close_event :: "rotation_status \<Rightarrow> rotation_event list \<Rightarrow> rotation_event list" where
  "close_event st h = rev (close_first st (rev h))"

definition old_index :: "('sk, 'vk) key_rotation \<Rightarrow> nat" where
  "old_index s = (if kr_primary s = 0 then 1 else 0)"

definition complete_rotation ::
  "('vk \<Rightarrow> bytes) \<Rightarrow> u64 \<Rightarrow> ('sk, 'vk) key_rotation \<Rightarrow> (rotation_error + bytes) \<times> ('sk, 'vk) key_rotation" where
  "complete_rotation fp now s =
     (if \<not> rotation_in_progress s then (Inl NoRotationInProgress, s)
      else
        (case pending_event (kr_history s) of
           None \<Rightarrow> (Inl NoRotationInProgress, s)
         | Some event \<Rightarrow>
             if now < re_initiated_at event + ucast (kr_grace_days s) * 86400
             then (Inl GracePeriodNotElapsed, s)
             else
               let i = old_index s; old = fp (kr_keys s ! i) in
               (Inr old,
                s\<lparr>kr_crl := kr_crl s @ [\<lparr>ce_fingerprint = old, ce_revoked_at = now, ce_reason = Superseded\<rparr>],
                  kr_revoked := insert old (kr_revoked s),
                  kr_keys := remove_at i (kr_keys s), kr_signing := remove_at i (kr_signing s),
                  kr_primary := (if i < kr_primary s then kr_primary s - 1 else kr_primary s),
                  kr_history := close_event Completed (kr_history s)\<rparr>)))"

definition cancel_rotation ::
  "('vk \<Rightarrow> bytes) \<Rightarrow> ('sk, 'vk) key_rotation \<Rightarrow> (rotation_error + bytes) \<times> ('sk, 'vk) key_rotation" where
  "cancel_rotation fp s =
     (if \<not> rotation_in_progress s then (Inl NoRotationInProgress, s)
      else
        (Inr (fp (kr_keys s ! kr_primary s)),
         s\<lparr>kr_keys := remove_at (kr_primary s) (kr_keys s), kr_signing := remove_at (kr_primary s) (kr_signing s),
           kr_primary := 0, kr_history := close_event Cancelled (kr_history s)\<rparr>))"

definition revoke_key ::
  "('vk \<Rightarrow> bytes) \<Rightarrow> bytes \<Rightarrow> crl_reason \<Rightarrow> u64 \<Rightarrow> ('sk, 'vk) key_rotation \<Rightarrow>
     (rotation_error + unit) \<times> ('sk, 'vk) key_rotation" where
  "revoke_key fp f reason now s =
     (if length (kr_keys s) = 1 \<and> fp (kr_keys s ! 0) = f then (Inl CannotRevokeOnlyKey, s)
      else
        let s1 = s\<lparr>kr_crl := kr_crl s @ [\<lparr>ce_fingerprint = f, ce_revoked_at = now, ce_reason = reason\<rparr>],
              kr_revoked := insert f (kr_revoked s)\<rparr>
        in (Inr (),
            case position (\<lambda>vk. fp vk = f) (kr_keys s1) of
              None \<Rightarrow> s1
            | Some pos \<Rightarrow>
                let s2 = s1\<lparr>kr_keys := remove_at pos (kr_keys s1), kr_signing := remove_at pos (kr_signing s1)\<rparr> in
                if pos < kr_primary s2 then s2\<lparr>kr_primary := kr_primary s2 - 1\<rparr>
                else if pos = kr_primary s2 \<and> kr_keys s2 \<noteq> [] then s2\<lparr>kr_primary := 0\<rparr>
                else s2))"

definition is_revoked :: "bytes \<Rightarrow> ('sk, 'vk) key_rotation \<Rightarrow> bool" where
  "is_revoked f s \<longleftrightarrow> f \<in> kr_revoked s"

text \<open>The first active key that has not been revoked and verifies the signature.\<close>

definition verify_record_multi ::
  "(bytes \<Rightarrow> bytes) \<Rightarrow> ('vk \<Rightarrow> bytes) \<Rightarrow> ('sk, 'vk) ed25519 \<Rightarrow> log_record \<Rightarrow> bytes \<Rightarrow> bytes \<Rightarrow>
     ('sk, 'vk) key_rotation \<Rightarrow> signature_error + nat" where
  "verify_record_multi sha fp ed r sig prev_hash s =
     (let data = build_signing_payload_static sha r prev_hash in
      case position (\<lambda>vk. \<not> is_revoked (fp vk) s \<and> ed_verify ed vk data sig) (kr_keys s) of
        None \<Rightarrow> Inl InvalidSignature
      | Some i \<Rightarrow> Inr i)"

definition kr_sign_record ::
  "(bytes \<Rightarrow> bytes) \<Rightarrow> ('sk, 'vk) ed25519 \<Rightarrow> log_record \<Rightarrow> bytes \<Rightarrow> ('sk, 'vk) key_rotation \<Rightarrow> bytes" where
  "kr_sign_record sha ed r prev_hash s =
     ed_sign ed (primary_signing_key s) (build_signing_payload_static sha r prev_hash)"

definition kr_sign_bytes :: "('sk, 'vk) ed25519 \<Rightarrow> bytes \<Rightarrow> ('sk, 'vk) key_rotation \<Rightarrow> bytes" where
  "kr_sign_bytes ed data s = ed_sign ed (primary_signing_key s) data"

section \<open>Revocation list\<close>

record crl_json_entry =
  cj_fingerprint :: bytes
  cj_revoked_at :: u64
  cj_reason :: string

definition export_entry :: "crl_entry \<Rightarrow> crl_json_entry" where
  "export_entry e =
     \<lparr>cj_fingerprint = hex_encode (ce_fingerprint e), cj_revoked_at = ce_revoked_at e,
      cj_reason = crl_reason_str (ce_reason e)\<rparr>"

definition export_crl :: "('sk, 'vk) key_rotation \<Rightarrow> crl_json_entry list" where
  "export_crl s = map export_entry (kr_crl s)"

datatype crl_import_error = BadFingerprintHex bytes from_hex_error | BadFingerprintLength nat

fun import_crl :: "crl_json_entry list \<Rightarrow> crl_import_error + crl_entry list" where
  "import_crl [] = Inr []"
| "import_crl (raw # rest) =
     (case hex_decode (cj_fingerprint raw) of
        Inl e \<Rightarrow> Inl (BadFingerprintHex (cj_fingerprint raw) e)
      | Inr f \<Rightarrow>
          if length f \<noteq> 32 then Inl (BadFingerprintLength (length f))
          else
            let reason = (case crl_reason_parse (cj_reason raw) of None \<Rightarrow> Deactivated | Some x \<Rightarrow> x) in
            (case import_crl rest of
               Inl e \<Rightarrow> Inl e
             | Inr es \<Rightarrow> Inr (\<lparr>ce_fingerprint = f, ce_revoked_at = cj_revoked_at raw, ce_reason = reason\<rparr> # es)))"

section \<open>The lifecycle as a machine\<close>

datatype 'sk kr_call = KInitiate 'sk u64 | KComplete u64 | KCancel | KRevoke bytes crl_reason u64

text \<open>A rotation draws a key that was never seen before.\<close>

fun kr_step ::
  "('vk \<Rightarrow> bytes) \<Rightarrow> ('sk, 'vk) ed25519 \<Rightarrow> ('sk, 'vk) key_rotation \<Rightarrow> 'sk kr_call \<Rightarrow> ('sk, 'vk) key_rotation option" where
  "kr_step fp ed s (KInitiate sk now) =
     (if fp (ed_public ed sk) \<in> kr_revoked s \<union> fp ` set (kr_keys s) then None
      else Some (snd (initiate_rotation fp ed sk now s)))"
| "kr_step fp ed s (KComplete now) = Some (snd (complete_rotation fp now s))"
| "kr_step fp ed s KCancel = Some (snd (cancel_rotation fp s))"
| "kr_step fp ed s (KRevoke f reason now) = Some (snd (revoke_key fp f reason now s))"

text \<open>One active key, or the retiring one followed by the new one with its event pending.\<close>

definition kr_inv :: "('vk \<Rightarrow> bytes) \<Rightarrow> ('sk, 'vk) ed25519 \<Rightarrow> ('sk, 'vk) key_rotation \<Rightarrow> bool" where
  "kr_inv fp ed s \<longleftrightarrow>
     kr_keys s = map (ed_public ed) (kr_signing s) \<and>
     ((\<exists>k. kr_keys s = [k] \<and> kr_primary s = 0) \<or>
      (\<exists>k l. kr_keys s = [k, l] \<and> kr_primary s = 1 \<and> fp k \<noteq> fp l \<and>
         (\<exists>e. pending_event (kr_history s) = Some e \<and> re_old e = Some (fp k) \<and> re_new e = fp l))) \<and>
     kr_revoked s = ce_fingerprint ` set (kr_crl s) \<and> kr_revoked s \<inter> fp ` set (kr_keys s) = {}"

lemma kr_inv_cases:
  assumes "kr_inv fp ed s"
  obtains (single) a where "kr_signing s = [a]" "kr_keys s = [ed_public ed a]" "kr_primary s = 0"
  | (rotating) a b e where "kr_signing s = [a, b]" "kr_keys s = [ed_public ed a, ed_public ed b]"
      "kr_primary s = 1" "fp (ed_public ed a) \<noteq> fp (ed_public ed b)" "pending_event (kr_history s) = Some e"
      "re_old e = Some (fp (ed_public ed a))" "re_new e = fp (ed_public ed b)"
  using assms unfolding kr_inv_def by (auto simp: map_eq_Cons_conv)

lemma kr_inv_new: "kr_inv fp ed (kr_new ed sk days)"
  by (simp add: kr_inv_def kr_new_def)

lemma kr_inv_revoked:
  "kr_inv fp ed s \<Longrightarrow> kr_revoked s = ce_fingerprint ` set (kr_crl s) \<and> kr_revoked s \<inter> fp ` set (kr_keys s) = {}"
  unfolding kr_inv_def by blast

lemmas rotation_defs = initiate_rotation_def complete_rotation_def cancel_rotation_def
  rotation_in_progress_def pending_event_def old_index_def remove_at_def Let_def

lemma kr_inv_step:
  assumes "kr_inv fp ed s" and "kr_step fp ed s c = Some s'"
  shows "kr_inv fp ed s'"
proof -
  note r = kr_inv_revoked [OF assms(1)]
  show ?thesis
  proof (cases c)
    case (KInitiate sk now)
    with assms r show ?thesis
      by (cases rule: kr_inv_cases) (auto simp: rotation_defs kr_inv_def split: if_splits)
  next
    case (KComplete now)
    from assms(1) show ?thesis
    proof (cases rule: kr_inv_cases)
      case single
      with assms KComplete show ?thesis by (simp add: rotation_defs)
    next
      case (rotating a b e)
      with assms KComplete r show ?thesis
        by (auto simp: complete_rotation_def rotation_in_progress_def old_index_def remove_at_def kr_inv_def Let_def
            split: if_splits)
    qed
  next
    case KCancel
    with assms r show ?thesis
      by (cases rule: kr_inv_cases) (auto simp: rotation_defs kr_inv_def)
  next
    case (KRevoke f reason now)
    from assms(1) show ?thesis
    proof (cases rule: kr_inv_cases)
      case (single a)
      with assms KRevoke r show ?thesis by (auto simp: revoke_key_def kr_inv_def Let_def split: if_splits)
    next
      case (rotating a b e)
      define s1 where "s1 = s\<lparr>kr_crl := kr_crl s @ [\<lparr>ce_fingerprint = f, ce_revoked_at = now, ce_reason = reason\<rparr>],
        kr_revoked := insert f (kr_revoked s)\<rparr>"
      have crl: "kr_revoked s1 = ce_fingerprint ` set (kr_crl s1)" using r by (simp add: s1_def)
      have s': "s' = (if f = fp (ed_public ed a)
          then s1\<lparr>kr_keys := [ed_public ed b], kr_signing := [b], kr_primary := 0\<rparr>
          else if f = fp (ed_public ed b)
          then s1\<lparr>kr_keys := [ed_public ed a], kr_signing := [a], kr_primary := 0\<rparr> else s1)"
        using rotating assms(2) KRevoke
        by (cases "f = fp (ed_public ed a)"; cases "f = fp (ed_public ed b)";
            simp add: revoke_key_def remove_at_def s1_def Let_def)
      have "fp (ed_public ed a) \<notin> kr_revoked s" "fp (ed_public ed b) \<notin> kr_revoked s" using r rotating(2) by auto
      with rotating crl show ?thesis unfolding s' by (auto simp: kr_inv_def s1_def)
    qed
  qed
qed

interpretation rotation_machine: safe_machine "kr_step fp ed" "kr_new ed sk days" "kr_inv fp ed" for fp ed sk days
  by unfold_locales (rule kr_inv_new, erule (1) kr_inv_step)

lemma kr_revoked_step: "kr_step fp ed s c = Some s' \<Longrightarrow> kr_revoked s \<subseteq> kr_revoked s'"
  by (cases c) (auto simp: initiate_rotation_def complete_rotation_def cancel_rotation_def revoke_key_def Let_def
      split: if_splits option.splits)

lemma kr_revoked_run: "run (kr_step fp ed) s cs = Some s' \<Longrightarrow> kr_revoked s \<subseteq> kr_revoked s'"
  by (induction cs arbitrary: s) (auto split: option.splits dest!: kr_revoked_step)

lemma verify_multi_Inr:
  "verify_record_multi sha fp ed r sig p s = Inr i \<Longrightarrow>
     i < length (kr_keys s) \<and> fp (kr_keys s ! i) \<notin> kr_revoked s \<and>
     ed_verify ed (kr_keys s ! i) (build_signing_payload_static sha r p) sig"
  by (auto simp: verify_record_multi_def is_revoked_def Let_def dest: position_less position_nth split: option.splits)

lemma verify_multi_active:
  assumes "kr_inv fp ed s" and "ed_correct ed a" and "a \<in> set (kr_signing s)"
  shows "\<exists>i. verify_record_multi sha fp ed r (ed_sign ed a (build_signing_payload_static sha r p)) p s = Inr i"
proof -
  let ?d = "build_signing_payload_static sha r p"
  have "ed_public ed a \<in> set (kr_keys s)" "fp (ed_public ed a) \<notin> kr_revoked s"
    using assms(1,3) by (auto simp: kr_inv_def)
  moreover have "ed_verify ed (ed_public ed a) ?d (ed_sign ed a ?d)" using assms(2) by (simp add: ed_correct_def)
  ultimately have "position (\<lambda>vk. \<not> is_revoked (fp vk) s \<and> ed_verify ed vk ?d (ed_sign ed a ?d)) (kr_keys s) \<noteq> None"
    unfolding position_None_iff is_revoked_def by blast
  then show ?thesis by (auto simp: verify_record_multi_def Let_def)
qed

lemma reason_parse_str [simp]: "crl_reason_parse (crl_reason_str x) = Some x"
  by (cases x) (simp_all add: crl_reason_parse_def)

section \<open>Properties\<close>

text \<open>C12: Whatever sequence of rotations, completions, cancellations and revocations a manager has
  gone through, it can sign and accepts what it signed, accepts the signatures of every active
  key, so also those of the retiring key during the grace period, accepts nothing else, and
  never again accepts a signature through a key once that key has been revoked.\<close>

theorem key_rotation_safe:
  assumes reach: "reachable (kr_step fp ed) (kr_new ed sk days) s" and ed: "\<forall>a. ed_correct ed a"
  shows "kr_primary s < active_key_count s \<and> active_key_count s \<le> 2 \<and>
    (\<exists>i. verify_record_multi sha fp ed r (kr_sign_record sha ed r p s) p s = Inr i) \<and>
    (\<forall>a \<in> set (kr_signing s). \<exists>i. verify_record_multi sha fp ed r
       (ed_sign ed a (build_signing_payload_static sha r p)) p s = Inr i) \<and>
    (\<forall>sig i. verify_record_multi sha fp ed r sig p s = Inr i \<longrightarrow>
       i < active_key_count s \<and> fp (kr_keys s ! i) \<notin> ce_fingerprint ` set (kr_crl s) \<and>
       ed_verify ed (kr_keys s ! i) (build_signing_payload_static sha r p) sig) \<and>
    (\<forall>f reason now s1 cs s2 sig i. revoke_key fp f reason now s = (Inr (), s1) \<longrightarrow>
       run (kr_step fp ed) s1 cs = Some s2 \<longrightarrow> verify_record_multi sha fp ed r sig p s2 = Inr i \<longrightarrow>
       fp (kr_keys s2 ! i) \<noteq> f)"
proof -
  have inv: "kr_inv fp ed s" using rotation_machine.inv_reachable [OF reach] .
  then have n: "kr_primary s < active_key_count s" "active_key_count s \<le> 2"
    by (cases rule: kr_inv_cases; simp add: active_key_count_def)+
  have sign: "\<forall>a \<in> set (kr_signing s). \<exists>i. verify_record_multi sha fp ed r
      (ed_sign ed a (build_signing_payload_static sha r p)) p s = Inr i"
    using verify_multi_active [OF inv] ed by blast
  have "kr_primary s < length (kr_signing s)" using n(1) inv by (simp add: active_key_count_def kr_inv_def)
  then have "\<exists>i. verify_record_multi sha fp ed r (kr_sign_record sha ed r p s) p s = Inr i"
    using sign nth_mem by (fastforce simp: kr_sign_record_def primary_signing_key_def)
  moreover have "\<forall>sig i. verify_record_multi sha fp ed r sig p s = Inr i \<longrightarrow>
      i < active_key_count s \<and> fp (kr_keys s ! i) \<notin> ce_fingerprint ` set (kr_crl s) \<and>
      ed_verify ed (kr_keys s ! i) (build_signing_payload_static sha r p) sig"
    using verify_multi_Inr kr_inv_revoked [OF inv] by (metis active_key_count_def)
  moreover have "fp (kr_keys s2 ! i) \<noteq> f"
    if "revoke_key fp f reason now s = (Inr (), s1)" "run (kr_step fp ed) s1 cs = Some s2"
      "verify_record_multi sha fp ed r sig p s2 = Inr i" for f reason now s1 cs s2 sig i
  proof -
    have "f \<in> kr_revoked s1" using that(1) by (auto simp: revoke_key_def Let_def split: if_splits option.splits)
    then show ?thesis using kr_revoked_run [OF that(2)] verify_multi_Inr [OF that(3)] by blast
  qed
  ultimately show ?thesis using n sign by blast
qed

text \<open>A revocation list that is exported and imported again is the same list; a reason the
  importer does not know becomes \<open>Deactivated\<close>, and a fingerprint that is not 64 hexadecimal
  digits is an error for the whole list.\<close>

theorem crl_roundtrip:
  "((\<forall>e \<in> set (kr_crl s). length (ce_fingerprint e) = 32) \<longrightarrow> import_crl (export_crl s) = Inr (kr_crl s)) \<and>
   (import_crl raws = Inr es \<longrightarrow> length es = length raws \<and>
      (\<forall>i < length raws. hex_decode (cj_fingerprint (raws ! i)) = Inr (ce_fingerprint (es ! i)) \<and>
         length (ce_fingerprint (es ! i)) = 32 \<and> ce_revoked_at (es ! i) = cj_revoked_at (raws ! i) \<and>
         ce_reason (es ! i) = (case crl_reason_parse (cj_reason (raws ! i)) of None \<Rightarrow> Deactivated | Some x \<Rightarrow> x)))"
proof (intro conjI impI)
  have "import_crl (map export_entry xs) = Inr xs" if "\<forall>e \<in> set xs. length (ce_fingerprint e) = 32" for xs
    using that by (induction xs) (auto simp: export_entry_def hex_encode_def lower_hex.decode_encoded Let_def)
  then show "\<forall>e \<in> set (kr_crl s). length (ce_fingerprint e) = 32 \<Longrightarrow> import_crl (export_crl s) = Inr (kr_crl s)"
    by (simp add: export_crl_def)
next
  assume "import_crl raws = Inr es"
  then have "list_all2 (\<lambda>raw e. hex_decode (cj_fingerprint raw) = Inr (ce_fingerprint e) \<and>
      length (ce_fingerprint e) = 32 \<and> ce_revoked_at e = cj_revoked_at raw \<and>
      ce_reason e = (case crl_reason_parse (cj_reason raw) of None \<Rightarrow> Deactivated | Some x \<Rightarrow> x)) raws es"
    by (induction raws arbitrary: es) (auto simp: Let_def split: sum.splits if_splits)
  then show "length es = length raws" "\<forall>i < length raws. hex_decode (cj_fingerprint (raws ! i)) = Inr (ce_fingerprint (es ! i)) \<and>
      length (ce_fingerprint (es ! i)) = 32 \<and> ce_revoked_at (es ! i) = cj_revoked_at (raws ! i) \<and>
      ce_reason (es ! i) = (case crl_reason_parse (cj_reason (raws ! i)) of None \<Rightarrow> Deactivated | Some x \<Rightarrow> x)"
    by (auto simp: list_all2_conv_all_nth)
qed

definition demo_keys :: "(bool, bool) ed25519" where
  "demo_keys = \<lparr>ed_public = \<lambda>b. b, ed_sign = \<lambda>b m. take 64 (m @ replicate 64 (of_bool b)),
     ed_verify = \<lambda>b m s. s = take 64 (m @ replicate 64 (of_bool b))\<rparr>"

definition demo_fp :: "bool \<Rightarrow> bytes" where "demo_fp b = [of_bool b]"

theorem key_rotation_safe_witness:
  "\<exists>s. run (kr_step demo_fp demo_keys) (kr_new demo_keys True 0) [KInitiate False 5] = Some s \<and>
     kr_keys s = [True, False] \<and>
     (\<exists>i. verify_record_multi (\<lambda>x. x) demo_fp demo_keys (rec_new 0)
        (kr_sign_record (\<lambda>x. x) demo_keys (rec_new 0) [] s) [] s = Inr i)"
proof -
  let ?s = "snd (initiate_rotation demo_fp demo_keys False 5 (kr_new demo_keys True 0))"
  have run: "run (kr_step demo_fp demo_keys) (kr_new demo_keys True 0) [KInitiate False 5] = Some ?s"
    by (simp add: kr_new_def demo_keys_def demo_fp_def)
  have "\<forall>a. ed_correct demo_keys a" by (auto simp: ed_correct_def demo_keys_def min_def)
  from key_rotation_safe [OF run_reachable [OF run reach_init] this, of "\<lambda>x. x" "rec_new 0" "[]"] have "\<exists>i. verify_record_multi (\<lambda>x. x) demo_fp demo_keys (rec_new 0)
      (kr_sign_record (\<lambda>x. x) demo_keys (rec_new 0) [] ?s) [] ?s = Inr i"
    by (elim conjE)
  moreover have "kr_keys ?s = [True, False]"
    by (simp add: initiate_rotation_def rotation_in_progress_def kr_new_def demo_keys_def Let_def)
  ultimately show ?thesis using run by blast
qed

theorem crl_roundtrip_witness:
  "import_crl (export_crl ((kr_new demo_keys True 0)\<lparr>kr_crl := [\<lparr>ce_fingerprint = replicate 32 7,
     ce_revoked_at = 3, ce_reason = Superseded\<rparr>]\<rparr>)) =
     Inr [\<lparr>ce_fingerprint = replicate 32 7, ce_revoked_at = 3, ce_reason = Superseded\<rparr>]"
  using crl_roundtrip [of "(kr_new demo_keys True 0)\<lparr>kr_crl := [\<lparr>ce_fingerprint = replicate 32 7,
     ce_revoked_at = 3, ce_reason = Superseded\<rparr>]\<rparr>"] by simp

section \<open>What verification leaves out\<close>

text \<open>The content of a record is not compared with its content hash, so a changed message passes; and
  completing a rotation revokes the retired key, so every record it signed is refused from then on.\<close>

lemma multi_ignores_content:
  "verify_record_multi sha fp ed (r\<lparr>rec_message := m\<rparr>) sig p s = verify_record_multi sha fp ed r sig p s"
  by (simp add: verify_record_multi_def build_signing_payload_static_def)

lemma retired_key_refused:
  assumes "kr_inv fp ed s" and "complete_rotation fp now s = (Inr old, s')"
    and "\<forall>b \<in> set (kr_keys s'). \<not> ed_verify ed b (build_signing_payload_static sha r p) sig"
  shows "old \<in> kr_revoked s' \<and> verify_record_multi sha fp ed r sig p s' = Inl InvalidSignature"
  using assms(2,3)
  by (auto simp: complete_rotation_def verify_record_multi_def Let_def position_None_iff
      split: if_splits option.splits dest!: position_nth position_less)

end
