(* ===== verification/Shm_Ring.thy ===== *)
theory Shm_Ring
  imports Sif_Codec Ring_Buffer Machine
begin

text \<open>
  The shared-memory ring that hands frames to other processes (core/src/sink/shm.rs): its
  configuration, the header, the slots with their length prefix and the two policies for a full
  ring. The reader follows the protocol of core/include/dologger_shm.h. First the operations of
  one writer, then the machine of the single memory accesses for several writers.
  Mapping the region is an operating system call whose outcome is an argument of \<open>shm_open\<close>.
\<close>

section \<open>Layout\<close>

definition SHM_MAGIC :: u32 where "SHM_MAGIC = 0x474F4C44"
definition SHM_VERSION :: u32 where "SHM_VERSION = 1"
definition SHM_HEADER_SIZE :: nat where "SHM_HEADER_SIZE = 64"
definition MIN_BUFFER_SIZE_MB :: nat where "MIN_BUFFER_SIZE_MB = 8"
definition MIN_SLOT_SIZE_KB :: nat where "MIN_SLOT_SIZE_KB = 64"
definition FLAG_PRODUCER_ALIVE :: u32 where "FLAG_PRODUCER_ALIVE = 1"
definition FLAG_PRODUCER_DEAD :: u32 where "FLAG_PRODUCER_DEAD = 2"
definition FLAG_BUFFER_OVERFLOW :: u32 where "FLAG_BUFFER_OVERFLOW = 4"

record shm_region =
  sh_buffer_size :: u64
  sh_consumer :: u64
  sh_producer :: u64
  sh_dropped :: u64
  sh_overwritten :: u64
  sh_magic :: u32
  sh_version :: u32
  sh_slot_count :: u32
  sh_slot_size :: u32
  sh_pid :: u32
  sh_flags :: u32
  sh_slots :: "nat \<Rightarrow> bytes"

text \<open>A fresh mapping is zero.\<close>

definition shm_init :: "u32 \<Rightarrow> u64 \<Rightarrow> u32 \<Rightarrow> u32 \<Rightarrow> shm_region" where
  "shm_init pid bytes_total count slot_size =
     \<lparr>sh_buffer_size = bytes_total, sh_consumer = 0, sh_producer = 0, sh_dropped = 0, sh_overwritten = 0,
      sh_magic = SHM_MAGIC, sh_version = SHM_VERSION, sh_slot_count = count, sh_slot_size = slot_size,
      sh_pid = pid, sh_flags = FLAG_PRODUCER_ALIVE, sh_slots = (\<lambda>_. replicate (unat slot_size) 0)\<rparr>"

definition producer_alive :: "shm_region \<Rightarrow> bool" where
  "producer_alive g \<longleftrightarrow> sh_flags g AND FLAG_PRODUCER_ALIVE \<noteq> 0"

definition mark_producer_dead :: "shm_region \<Rightarrow> shm_region" where
  "mark_producer_dead g =
     g\<lparr>sh_flags := (sh_flags g AND NOT FLAG_PRODUCER_ALIVE) OR FLAG_PRODUCER_DEAD\<rparr>"

definition write_slot :: "nat \<Rightarrow> bytes \<Rightarrow> shm_region \<Rightarrow> shm_region" where
  "write_slot i data g =
     (let n = min (length data) (unat (sh_slot_size g) - 4); old = sh_slots g i in
      g\<lparr>sh_slots := (sh_slots g)(i := le32 (of_nat n) @ take n data @ drop (4 + n) old)\<rparr>)"

text \<open>What a reader finds in a slot.\<close>

definition read_slot :: "shm_region \<Rightarrow> nat \<Rightarrow> bytes" where
  "read_slot g i = take (unat (u32_of (take 4 (sh_slots g i)))) (drop 4 (sh_slots g i))"

definition slot_index :: "shm_region \<Rightarrow> u64 \<Rightarrow> nat" where
  "slot_index g q = unat (q mod ucast (sh_slot_count g))"

section \<open>Configuration\<close>

datatype shm_full_policy = DropNewest | DropOldest

datatype durability_level = Unsafe | OsCache | Media | MediaWithFua

record shm_config =
  hc_path :: string
  hc_input_format :: string
  hc_buffer_size_mb :: nat
  hc_slot_size_kb :: nat
  hc_full_policy :: shm_full_policy
  hc_durability :: durability_level
  hc_permissions :: u32
  hc_auto_cleanup :: bool
  hc_allowed_consumers :: "string list"

definition shm_config_default :: shm_config where
  "shm_config_default =
     \<lparr>hc_path = ''/dologger_default.shm'', hc_input_format = ''sif'', hc_buffer_size_mb = 64,
      hc_slot_size_kb = 64, hc_full_policy = DropNewest, hc_durability = Unsafe,
      hc_permissions = 0x1B0, hc_auto_cleanup = True, hc_allowed_consumers = []\<rparr>"

definition shm_validate :: "shm_config \<Rightarrow> string + unit" where
  "shm_validate c =
     (if hc_input_format c \<noteq> ''sif'' then
        Inl (''DO_LOG_ERR_SINK_FORMAT_INVALID: sink_shm input_format must be '' @ [CHR 0x22] @ ''sif'' @
          [CHR 0x22] @ '', got '' @ [CHR 0x22] @ hc_input_format c @ [CHR 0x22])
      else if hc_buffer_size_mb c < MIN_BUFFER_SIZE_MB then
        Inl (''buffer_size_mb must be >= '' @ dec MIN_BUFFER_SIZE_MB @ '', got '' @ dec (hc_buffer_size_mb c))
      else if \<not> is_power_of_two (hc_buffer_size_mb c) then
        Inl (''buffer_size_mb must be power of two, got '' @ dec (hc_buffer_size_mb c))
      else if hc_slot_size_kb c < MIN_SLOT_SIZE_KB then
        Inl (''slot_size_kb must be >= '' @ dec MIN_SLOT_SIZE_KB @ '', got '' @ dec (hc_slot_size_kb c))
      else Inr ())"

definition check_no_fallback :: "bool \<Rightarrow> string + unit" where
  "check_no_fallback configured =
     (if configured then Inl ''DO_LOG_ERR_SINK_NO_FALLBACK: sink_shm does not support fallback chains'' else Inr ())"

definition check_audit_forbidden :: "bool \<Rightarrow> string + unit" where
  "check_audit_forbidden is_audit =
     (if is_audit then Inl ''DO_LOG_ERR_AUDIT_SHM_FORBIDDEN: sink_shm cannot be used with AUDIT domain'' else Inr ())"

section \<open>Sink\<close>

record shm_sink =
  sk_config :: shm_config
  sk_region :: "shm_region option"
  sk_open :: bool
  sk_written :: u64
  sk_dropped :: u64
  sk_overwritten :: u64
  sk_bytes :: u64
  sk_last_report :: u64

definition shm_new :: "shm_config \<Rightarrow> shm_sink" where
  "shm_new c =
     \<lparr>sk_config = c, sk_region = None, sk_open = False, sk_written = 0, sk_dropped = 0,
      sk_overwritten = 0, sk_bytes = 0, sk_last_report = 0\<rparr>"

text \<open>\<open>None\<close> is a panic: a slot size that is zero as \<open>u32\<close> divides by zero, and a buffer of no
  bytes underflows.\<close>

definition shm_open :: "(string + unit) \<Rightarrow> u32 \<Rightarrow> shm_sink \<Rightarrow> ((string + unit) \<times> shm_sink) option" where
  "shm_open created pid s =
     (if sk_open s then Some (Inr (), s)
      else
        let total = hc_buffer_size_mb (sk_config s) * 1024 * 1024;
            slot_size = (of_nat (hc_slot_size_kb (sk_config s) * 1024) :: u32)
        in
        if total < SHM_HEADER_SIZE \<or> slot_size = 0 then None
        else
          let count = (total - SHM_HEADER_SIZE) div unat slot_size in
          if count < 4 then
            Some (Inl (''sink_shm: need >=4 slots, got '' @ dec count @ '' (buf='' @ dec total @ ''B, slot='' @
              dec (unat slot_size) @ ''B)''), s)
          else
            (case created of
               Inl e \<Rightarrow> Some (Inl e, s)
             | Inr _ \<Rightarrow>
                 Some (Inr (), s\<lparr>sk_region := Some (shm_init pid (of_nat total) (of_nat count) slot_size),
                   sk_open := True\<rparr>)))"

definition report_drop :: "u64 \<Rightarrow> shm_sink \<Rightarrow> shm_sink" where
  "report_drop now s =
     (if 1000 \<le> sat_sub64 now (sk_last_report s) then s\<lparr>sk_last_report := now\<rparr> else s)"

definition ring_full :: "shm_region \<Rightarrow> bool" where
  "ring_full g \<longleftrightarrow> ucast (sh_slot_count g) \<le> sh_producer g - sh_consumer g"

definition count_written :: "bytes \<Rightarrow> shm_sink \<Rightarrow> shm_sink" where
  "count_written data s =
     s\<lparr>sk_written := sk_written s + 1, sk_bytes := sk_bytes s + of_nat (length data)\<rparr>"

definition shm_write :: "u64 \<Rightarrow> bytes \<Rightarrow> shm_sink \<Rightarrow> bool \<times> shm_sink" where
  "shm_write now data s =
     (if \<not> sk_open s then (False, s)
      else
        (case sk_region s of
           None \<Rightarrow> (False, s)
         | Some g \<Rightarrow>
             if unat (sh_slot_size g) < length data + 4 then (False, s)
             else if ring_full g then
               (case hc_full_policy (sk_config s) of
                  DropNewest \<Rightarrow>
                    (False, report_drop now (s\<lparr>sk_dropped := sk_dropped s + 1,
                       sk_region := Some (g\<lparr>sh_dropped := sh_dropped g + 1\<rparr>)\<rparr>))
                | DropOldest \<Rightarrow>
                    let g1 = write_slot (slot_index g (sh_consumer g)) data g;
                        g2 = g1\<lparr>sh_producer := sh_producer g1 + 1\<rparr>;
                        g3 = g2\<lparr>sh_consumer := sh_consumer g2 + 1\<rparr>;
                        g4 = g3\<lparr>sh_overwritten := sh_overwritten g3 + 1,
                                 sh_flags := sh_flags g3 OR FLAG_BUFFER_OVERFLOW\<rparr>
                    in (True, count_written data (s\<lparr>sk_overwritten := sk_overwritten s + 1, sk_region := Some g4\<rparr>)))
             else
               let i = slot_index g (sh_producer g);
                   g1 = write_slot i data (g\<lparr>sh_producer := sh_producer g + 1\<rparr>)
               in (True, count_written data (s\<lparr>sk_region := Some g1\<rparr>))))"

definition shm_write_record :: "vendor_state \<Rightarrow> u64 \<Rightarrow> log_record \<Rightarrow> shm_sink \<Rightarrow> bool \<times> shm_sink" where
  "shm_write_record vs now r s =
     (case encode_record vs r of Inl _ \<Rightarrow> (False, s) | Inr frame \<Rightarrow> shm_write now frame s)"

text \<open>Closing marks the producer dead; the region outlives the sink unless it is cleaned up.\<close>

definition shm_close :: "shm_sink \<Rightarrow> shm_region option \<times> shm_sink" where
  "shm_close s =
     (if \<not> sk_open s then (None, s)
      else
        ((if hc_auto_cleanup (sk_config s) then None else map_option mark_producer_dead (sk_region s)),
         s\<lparr>sk_open := False, sk_region := None\<rparr>))"

text \<open>A sink that is dropped without being closed only marks the producer dead.\<close>

definition shm_drop :: "shm_sink \<Rightarrow> shm_region option" where
  "shm_drop s = (if sk_open s then map_option mark_producer_dead (sk_region s) else sk_region s)"

text \<open>The snapshot an inspecting process takes of a mapped header.\<close>

record shm_status =
  si_path :: string
  si_buffer_size :: u64
  si_magic :: u32
  si_version :: u32
  si_slot_count :: u32
  si_slot_size :: u32
  si_pid :: u32
  si_flags :: u32
  si_alive :: bool
  si_producer :: u64
  si_consumer :: u64
  si_dropped :: u64
  si_overwritten :: u64

definition shm_read_status :: "string \<Rightarrow> shm_region \<Rightarrow> shm_status" where
  "shm_read_status path g =
     \<lparr>si_path = path, si_buffer_size = sh_buffer_size g, si_magic = sh_magic g, si_version = sh_version g,
      si_slot_count = sh_slot_count g, si_slot_size = sh_slot_size g, si_pid = sh_pid g,
      si_flags = sh_flags g, si_alive = producer_alive g, si_producer = sh_producer g,
      si_consumer = sh_consumer g, si_dropped = sh_dropped g, si_overwritten = sh_overwritten g\<rparr>"

record shm_stats =
  st_written :: u64
  st_dropped :: u64
  st_overwritten :: u64
  st_bytes :: u64
  st_producer :: u64
  st_consumer :: u64

definition shm_stats_of :: "shm_sink \<Rightarrow> shm_stats" where
  "shm_stats_of s =
     \<lparr>st_written = sk_written s, st_dropped = sk_dropped s, st_overwritten = sk_overwritten s,
      st_bytes = sk_bytes s,
      st_producer = (case sk_region s of None \<Rightarrow> 0 | Some g \<Rightarrow> sh_producer g),
      st_consumer = (case sk_region s of None \<Rightarrow> 0 | Some g \<Rightarrow> sh_consumer g)\<rparr>"

text \<open>A turn of the documented reader.\<close>

definition shm_take :: "shm_region \<Rightarrow> bytes option \<times> shm_region" where
  "shm_take g =
     (if sh_producer g = sh_consumer g then (None, g)
      else (Some (read_slot g (slot_index g (sh_consumer g))), g\<lparr>sh_consumer := sh_consumer g + 1\<rparr>))"

section \<open>The bounded queue it implements\<close>

datatype shm_op = ShmWrite u64 bytes | ShmTake

datatype shm_result = Wrote bool | Took "bytes option"

definition shm_run_op :: "shm_op \<Rightarrow> shm_sink \<Rightarrow> shm_result \<times> shm_sink" where
  "shm_run_op a s =
     (case a of
        ShmWrite now data \<Rightarrow> (case shm_write now data s of (ok, s') \<Rightarrow> (Wrote ok, s'))
      | ShmTake \<Rightarrow>
          (case sk_region s of
             None \<Rightarrow> (Took None, s)
           | Some g \<Rightarrow> (case shm_take g of (x, g') \<Rightarrow> (Took x, s\<lparr>sk_region := Some g'\<rparr>))))"

text \<open>A queue of at most \<open>n\<close> frames of at most \<open>m\<close> bytes.\<close>

fun queue_op :: "shm_full_policy \<Rightarrow> nat \<Rightarrow> nat \<Rightarrow> shm_op \<Rightarrow> bytes list \<Rightarrow> shm_result \<times> bytes list" where
  "queue_op pol n m (ShmWrite now data) q =
     (if m < length data then (Wrote False, q)
      else if length q < n then (Wrote True, q @ [data])
      else if pol = DropOldest then (Wrote True, tl q @ [data])
      else (Wrote False, q))"
| "queue_op pol n m ShmTake q = (case q of [] \<Rightarrow> (Took None, []) | x # xs \<Rightarrow> (Took (Some x), xs))"

fun run_ops :: "('o \<Rightarrow> 's \<Rightarrow> 'r \<times> 's) \<Rightarrow> 'o list \<Rightarrow> 's \<Rightarrow> 'r list \<times> 's" where
  "run_ops f [] s = ([], s)"
| "run_ops f (a # as) s = (case f a s of (r, s1) \<Rightarrow> (case run_ops f as s1 of (rs, s2) \<Rightarrow> (r # rs, s2)))"

definition shm_queue :: "shm_region \<Rightarrow> bytes list" where
  "shm_queue g = map (\<lambda>q. read_slot g (q mod unat (sh_slot_count g))) [unat (sh_consumer g)..<unat (sh_producer g)]"

definition region_ok :: "shm_region \<Rightarrow> bool" where
  "region_ok g \<longleftrightarrow> 0 < unat (sh_slot_count g) \<and> 4 < unat (sh_slot_size g) \<and>
     unat (sh_consumer g) \<le> unat (sh_producer g) \<and>
     unat (sh_producer g) - unat (sh_consumer g) \<le> unat (sh_slot_count g) \<and>
     (\<forall>i. length (sh_slots g i) = unat (sh_slot_size g))"

definition shm_ok :: "shm_sink \<Rightarrow> bool" where
  "shm_ok s \<longleftrightarrow> sk_open s \<and> (\<exists>g. sk_region s = Some g \<and> region_ok g)"

lemma unat_ucast32 [simp]: "unat (ucast (x :: u32) :: u64) = unat x"
  by (simp add: unsigned_ucast_eq take_bit_nat_eq_self unat_bound [THEN order_less_le_trans])

lemma slot_index_nat: "slot_index g q = unat q mod unat (sh_slot_count g)"
  by (simp add: slot_index_def unat_mod)

lemma le32_u32: "u32_of (le32 x) = x" and length_le32: "length (le32 x) = 4"
  by simp_all

lemma read_write_slot:
  assumes "region_ok g" and "length data + 4 \<le> unat (sh_slot_size g)"
  shows "read_slot (write_slot i data g) j = (if j = i then data else read_slot g j)"
    and "region_ok (write_slot i data g)"
proof -
  have n: "min (length data) (unat (sh_slot_size g) - 4) = length data" using assms(2) by simp
  have "length data < 2 ^ 32" using assms(2) unat_bound [of "sh_slot_size g"] by simp
  then have "unat (of_nat (length data) :: u32) = length data" by (simp add: unat_of_nat take_bit_nat_eq_self)
  then show "read_slot (write_slot i data g) j = (if j = i then data else read_slot g j)"
    by (simp add: read_slot_def write_slot_def n Let_def)
  show "region_ok (write_slot i data g)" using assms by (simp add: region_ok_def write_slot_def n Let_def)
qed

lemma write_slot_frame [simp]:
  "sh_slot_count (write_slot i d g) = sh_slot_count g" "sh_slot_size (write_slot i d g) = sh_slot_size g"
  "sh_consumer (write_slot i d g) = sh_consumer g" "sh_producer (write_slot i d g) = sh_producer g"
  by (simp_all add: write_slot_def Let_def)

lemma length_shm_queue: "length (shm_queue g) = unat (sh_producer g) - unat (sh_consumer g)"
  by (simp add: shm_queue_def)

lemma ring_full_nat:
  "region_ok g \<Longrightarrow> ring_full g \<longleftrightarrow> unat (sh_slot_count g) \<le> length (shm_queue g)"
  by (simp add: ring_full_def word_le_nat_alt unat_sub region_ok_def length_shm_queue)

lemma unat_succ_below: "unat x < 2 ^ 64 - 1 \<Longrightarrow> unat (x + 1) = unat x + 1" for x :: u64
  by (simp add: unat_word_ariths)

lemma mod_neq:
  assumes "c \<le> q" and "q < p" and "p - c < (n :: nat)"
  shows "q mod n \<noteq> p mod n"
proof
  assume "q mod n = p mod n"
  then have "n dvd p - q" using assms(2) by (simp add: mod_eq_dvd_iff_nat [symmetric])
  with assms show False using dvd_imp_le [of n "p - q"] by simp
qed

lemma queue_push:
  assumes ok: "region_ok g" and room: "length (shm_queue g) < unat (sh_slot_count g)"
    and fit: "length data + 4 \<le> unat (sh_slot_size g)" and bound: "unat (sh_producer g) < 2 ^ 64 - 1"
  defines "g' \<equiv> write_slot (slot_index g (sh_producer g)) data (g\<lparr>sh_producer := sh_producer g + 1\<rparr>)"
  shows "region_ok g' \<and> shm_queue g' = shm_queue g @ [data] \<and> unat (sh_producer g') = unat (sh_producer g) + 1"
proof -
  let ?n = "unat (sh_slot_count g)" and ?p = "unat (sh_producer g)" and ?c = "unat (sh_consumer g)"
  have p: "unat (sh_producer g + 1) = ?p + 1" using bound by (intro unat_succ_below)
  have c: "?c \<le> ?p" "?p - ?c < ?n" using ok room by (simp_all add: region_ok_def length_shm_queue)
  have g1: "region_ok (g\<lparr>sh_producer := sh_producer g + 1\<rparr>)" using ok c p by (simp add: region_ok_def)
  note rw = read_write_slot [OF g1, of data "slot_index g (sh_producer g)"]
  have read: "read_slot g' j = (if j = ?p mod ?n then data else read_slot g j)" for j
    unfolding g'_def using rw(1) fit by (simp add: slot_index_nat read_slot_def)
  have "shm_queue g' = map (\<lambda>q. read_slot g' (q mod ?n)) ([?c..<?p] @ [?p])"
    using c(1) by (simp add: shm_queue_def g'_def p)
  also have "\<dots> = map (\<lambda>q. read_slot g (q mod ?n)) [?c..<?p] @ [data]"
    using c by (auto simp: read dest: mod_neq)
  finally show ?thesis using rw(2) fit p by (simp add: g'_def shm_queue_def)
qed

lemma queue_pop:
  assumes ok: "region_ok g" and "shm_take g = (x, g')"
  shows "region_ok g' \<and> sh_producer g' = sh_producer g \<and>
    (case x of None \<Rightarrow> g' = g \<and> shm_queue g = [] | Some d \<Rightarrow> shm_queue g = d # shm_queue g')"
proof (cases "sh_producer g = sh_consumer g")
  case True
  with assms show ?thesis by (auto simp: shm_take_def shm_queue_def)
next
  case False
  let ?c = "unat (sh_consumer g)" and ?p = "unat (sh_producer g)"
  have "?c \<noteq> ?p" using False by (metis word_unat_eq_iff)
  with ok have lt: "?c < ?p" by (simp add: region_ok_def)
  then have c: "unat (sh_consumer g + 1) = ?c + 1"
    using unat_bound [of "sh_producer g"] by (intro unat_succ_below) simp
  have "[?c..<?p] = ?c # [?c + 1..<?p]" using lt by (simp add: upt_conv_Cons)
  with False assms lt c show ?thesis
    by (auto simp: shm_take_def shm_queue_def region_ok_def slot_index_nat read_slot_def)
qed

lemma queue_overwrite:
  assumes ok: "region_ok g" and full: "length (shm_queue g) = unat (sh_slot_count g)"
    and fit: "length data + 4 \<le> unat (sh_slot_size g)" and bound: "unat (sh_producer g) < 2 ^ 64 - 1"
  defines "g' \<equiv> (write_slot (slot_index g (sh_consumer g)) data g)
    \<lparr>sh_producer := sh_producer g + 1, sh_consumer := sh_consumer g + 1\<rparr>"
  shows "region_ok g' \<and> shm_queue g' = tl (shm_queue g) @ [data] \<and> unat (sh_producer g') = unat (sh_producer g) + 1"
proof -
  let ?n = "unat (sh_slot_count g)" and ?p = "unat (sh_producer g)" and ?c = "unat (sh_consumer g)"
  have c: "?p = ?c + ?n" "0 < ?n" using ok full by (auto simp: region_ok_def length_shm_queue)
  have p: "unat (sh_producer g + 1) = ?p + 1" using bound by (intro unat_succ_below)
  have c': "unat (sh_consumer g + 1) = ?c + 1" using bound c by (intro unat_succ_below) simp
  note rw = read_write_slot [OF ok fit, of "slot_index g (sh_consumer g)"]
  have read: "read_slot g' j = (if j = ?p mod ?n then data else read_slot g j)" for j
    unfolding g'_def using rw(1) [of j] c(1) by (simp add: slot_index_nat read_slot_def)
  have neq: "\<forall>q \<in> set [?c + 1..<?p]. q mod ?n \<noteq> ?p mod ?n"
  proof
    fix q assume "q \<in> set [?c + 1..<?p]"
    then show "q mod ?n \<noteq> ?p mod ?n" using c by (intro mod_neq [of "?c + 1"]) auto
  qed
  have "[?c + 1..<?p + 1] = [?c + 1..<?p] @ [?p]" using c by simp
  then have "shm_queue g' = map (\<lambda>q. read_slot g' (q mod ?n)) ([?c + 1..<?p] @ [?p])"
    by (simp add: shm_queue_def g'_def p c')
  also have "\<dots> = map (\<lambda>q. read_slot g (q mod ?n)) [?c + 1..<?p] @ [data]"
    using neq by (auto simp: read)
  also have "map (\<lambda>q. read_slot g (q mod ?n)) [?c + 1..<?p] = tl (shm_queue g)"
    using c by (simp add: shm_queue_def map_tl [symmetric] tl_upt)
  finally show ?thesis using rw(2) p c c' by (simp add: g'_def region_ok_def)
qed

lemma region_ok_counters [simp]:
  "region_ok (g\<lparr>sh_dropped := a\<rparr>) = region_ok g" "region_ok (g\<lparr>sh_overwritten := a, sh_flags := f\<rparr>) = region_ok g"
  "shm_queue (g\<lparr>sh_dropped := a\<rparr>) = shm_queue g" "shm_queue (g\<lparr>sh_overwritten := a, sh_flags := f\<rparr>) = shm_queue g"
  by (simp_all add: region_ok_def shm_queue_def read_slot_def)

text \<open>What an operation leaves alone.\<close>

definition shm_shape :: "shm_sink \<Rightarrow> shm_config \<times> bool \<times> (u32 \<times> u32) option" where
  "shm_shape s = (sk_config s, sk_open s, map_option (\<lambda>g. (sh_slot_count g, sh_slot_size g)) (sk_region s))"

lemma shm_op_refines:
  assumes s: "sk_open s" "sk_region s = Some g" "region_ok g" and bound: "unat (sh_producer g) < 2 ^ 64 - 1"
    and run: "shm_run_op a s = (r, s')"
  shows "\<exists>g'. sk_region s' = Some g' \<and> region_ok g' \<and> shm_shape s' = shm_shape s \<and>
    queue_op (hc_full_policy (sk_config s)) (unat (sh_slot_count g)) (unat (sh_slot_size g) - 4) a (shm_queue g) =
      (r, shm_queue g') \<and> unat (sh_producer g') \<le> unat (sh_producer g) + 1"
proof (cases a)
  case ShmTake
  obtain x g' where t: "shm_take g = (x, g')" by fastforce
  from queue_pop [OF s(3) t] have "region_ok g'" "sh_producer g' = sh_producer g"
    "case x of None \<Rightarrow> g' = g \<and> shm_queue g = [] | Some d \<Rightarrow> shm_queue g = d # shm_queue g'" by auto
  moreover have "sh_slot_count g' = sh_slot_count g" "sh_slot_size g' = sh_slot_size g"
    using t by (auto simp: shm_take_def split: if_splits)
  moreover have "r = Took x" "s' = s\<lparr>sk_region := Some g'\<rparr>"
    using run s(2) t by (auto simp: shm_run_op_def ShmTake)
  ultimately show ?thesis using s by (cases x) (auto simp: ShmTake shm_shape_def)
next
  case (ShmWrite now data)
  let ?n = "unat (sh_slot_count g)" and ?m = "unat (sh_slot_size g)"
  have size: "4 < ?m" "length (shm_queue g) \<le> ?n" using s(3) by (auto simp: region_ok_def length_shm_queue)
  note full = ring_full_nat [OF s(3)]
  consider (big) "?m < length data + 4" | (room) "length data + 4 \<le> ?m" "length (shm_queue g) < ?n"
    | (newest) "length data + 4 \<le> ?m" "length (shm_queue g) = ?n" "hc_full_policy (sk_config s) = DropNewest"
    | (oldest) "length data + 4 \<le> ?m" "length (shm_queue g) = ?n" "hc_full_policy (sk_config s) = DropOldest"
    using size by (cases "hc_full_policy (sk_config s)") linarith+
  then show ?thesis
  proof cases
    case big
    then have "r = Wrote False" "s' = s" using run s by (auto simp: shm_run_op_def ShmWrite shm_write_def)
    with big size s show ?thesis by (auto simp: ShmWrite)
  next
    case room
    define g' where "g' = write_slot (slot_index g (sh_producer g)) data (g\<lparr>sh_producer := sh_producer g + 1\<rparr>)"
    have q: "region_ok g'" "shm_queue g' = shm_queue g @ [data]" "unat (sh_producer g') = unat (sh_producer g) + 1"
      using queue_push [OF s(3) room(2,1) bound] by (simp_all add: g'_def)
    have "r = Wrote True" "s' = count_written data (s\<lparr>sk_region := Some g'\<rparr>)"
      using run s room full by (auto simp: shm_run_op_def ShmWrite shm_write_def g'_def Let_def)
    moreover have "\<not> ?m - 4 < length data" using room(1) size(1) by linarith
    ultimately show ?thesis using q room s
      by (simp add: ShmWrite count_written_def shm_shape_def) (simp add: g'_def)
  next
    case newest
    let ?g' = "g\<lparr>sh_dropped := sh_dropped g + 1\<rparr>"
    have r: "r = Wrote False" "s' = report_drop now (s\<lparr>sk_dropped := sk_dropped s + 1, sk_region := Some ?g'\<rparr>)"
      using run s newest full by (auto simp: shm_run_op_def ShmWrite shm_write_def)
    have "\<not> ?m - 4 < length data" using newest(1) size(1) by linarith
    with r newest s show ?thesis by (auto simp: ShmWrite report_drop_def shm_shape_def)
  next
    case oldest
    define g1 where "g1 = (write_slot (slot_index g (sh_consumer g)) data g)
      \<lparr>sh_producer := sh_producer g + 1, sh_consumer := sh_consumer g + 1\<rparr>"
    define g' where "g' = g1\<lparr>sh_overwritten := sh_overwritten g1 + 1, sh_flags := sh_flags g1 OR FLAG_BUFFER_OVERFLOW\<rparr>"
    have q: "region_ok g1" "shm_queue g1 = tl (shm_queue g) @ [data]" "unat (sh_producer g1) = unat (sh_producer g) + 1"
      using queue_overwrite [OF s(3) oldest(2,1) bound] by (simp_all add: g1_def)
    have "r = Wrote True" "s' = count_written data (s\<lparr>sk_overwritten := sk_overwritten s + 1, sk_region := Some g'\<rparr>)"
      using run s oldest full by (auto simp: shm_run_op_def ShmWrite shm_write_def g'_def g1_def Let_def)
    moreover have "\<not> ?m - 4 < length data" using oldest(1) size(1) by linarith
    ultimately show ?thesis using q oldest s
      by (simp add: ShmWrite count_written_def shm_shape_def g'_def) (simp add: g1_def)
  qed
qed

lemma run_ops_refines:
  assumes "sk_open s" "sk_region s = Some g" "region_ok g" and "unat (sh_producer g) + length ops < 2 ^ 64"
    and "run_ops shm_run_op ops s = (rs, s')"
  shows "\<exists>g'. sk_region s' = Some g' \<and> region_ok g' \<and> shm_shape s' = shm_shape s \<and>
    run_ops (queue_op (hc_full_policy (sk_config s)) (unat (sh_slot_count g)) (unat (sh_slot_size g) - 4)) ops
      (shm_queue g) = (rs, shm_queue g')"
  using assms
proof (induction ops arbitrary: s g rs)
  case Nil
  then show ?case by auto
next
  case (Cons a ops)
  obtain r s1 where one: "shm_run_op a s = (r, s1)" by fastforce
  obtain rs' where rest: "run_ops shm_run_op ops s1 = (rs', s')" and rs: "rs = r # rs'"
    using Cons.prems(5) one by (auto split: prod.splits)
  have "unat (sh_producer g) < 2 ^ 64 - 1" using Cons.prems(4) by simp
  from shm_op_refines [OF Cons.prems(1-3) this one] obtain g1 where
    g1: "sk_region s1 = Some g1" "region_ok g1" "shm_shape s1 = shm_shape s"
      "queue_op (hc_full_policy (sk_config s)) (unat (sh_slot_count g)) (unat (sh_slot_size g) - 4) a (shm_queue g) =
        (r, shm_queue g1)" "unat (sh_producer g1) \<le> unat (sh_producer g) + 1" by blast
  have shape: "sk_config s1 = sk_config s" "sk_open s1" "sh_slot_count g1 = sh_slot_count g" "sh_slot_size g1 = sh_slot_size g"
    using g1(1,3) Cons.prems(1,2) by (simp_all add: shm_shape_def)
  have "unat (sh_producer g1) + length ops < 2 ^ 64" using g1(5) Cons.prems(4) by simp
  from Cons.IH [OF shape(2) g1(1,2) this rest] obtain g2 where
    "sk_region s' = Some g2" "region_ok g2" "shm_shape s' = shm_shape s1"
    "run_ops (queue_op (hc_full_policy (sk_config s)) (unat (sh_slot_count g)) (unat (sh_slot_size g) - 4)) ops
      (shm_queue g1) = (rs', shm_queue g2)" unfolding shape by blast
  then show ?case using g1(3,4) rs by simp
qed

section \<open>Several writers\<close>

text \<open>The single memory accesses of \<open>write\<close>, for writers numbered by naturals, interleaved with
  whole turns of the reader. \<open>sw_seen\<close> is what the reader was given.\<close>

datatype shm_pc = SIdle | SProducer bytes | SConsumer u64 bytes | SClaim u64 bytes | SClaimed nat bytes
  | SDropped | SOldest u64 bytes | SOldestProducer u64 | SOldestConsumer u64 | SOverwritten

record shm_world =
  sw_region :: shm_region
  sw_pc :: "nat \<Rightarrow> shm_pc"
  sw_seen :: "bytes list"

datatype shm_act = SCall nat bytes | SMove nat | SRead

definition shm_move :: "shm_full_policy \<Rightarrow> shm_region \<Rightarrow> shm_pc \<Rightarrow> (shm_region \<times> shm_pc) option" where
  "shm_move pol g pc =
     (case pc of
        SIdle \<Rightarrow> None
      | SProducer data \<Rightarrow> Some (g, SConsumer (sh_producer g) data)
      | SConsumer p data \<Rightarrow>
          Some (g,
            if ucast (sh_slot_count g) \<le> p - sh_consumer g then
              (case pol of DropNewest \<Rightarrow> SDropped | DropOldest \<Rightarrow> SOldest (sh_consumer g) data)
            else SClaim p data)
      | SClaim p data \<Rightarrow>
          Some (if sh_producer g = p then (g\<lparr>sh_producer := p + 1\<rparr>, SClaimed (slot_index g p) data)
                else (g, SProducer data))
      | SClaimed i data \<Rightarrow> Some (write_slot i data g, SIdle)
      | SDropped \<Rightarrow> Some (g\<lparr>sh_dropped := sh_dropped g + 1\<rparr>, SIdle)
      | SOldest c data \<Rightarrow> Some (write_slot (slot_index g c) data g, SOldestProducer c)
      | SOldestProducer c \<Rightarrow> Some (g\<lparr>sh_producer := sh_producer g + 1\<rparr>, SOldestConsumer c)
      | SOldestConsumer c \<Rightarrow>
          Some (if sh_consumer g = c then g\<lparr>sh_consumer := c + 1\<rparr> else g, SOverwritten)
      | SOverwritten \<Rightarrow>
          Some (g\<lparr>sh_overwritten := sh_overwritten g + 1, sh_flags := sh_flags g OR FLAG_BUFFER_OVERFLOW\<rparr>, SIdle))"

fun shm_step :: "shm_full_policy \<Rightarrow> shm_world \<Rightarrow> shm_act \<Rightarrow> shm_world option" where
  "shm_step pol w (SCall t data) =
     (if sw_pc w t = SIdle \<and> length data + 4 \<le> unat (sh_slot_size (sw_region w))
      then Some (w\<lparr>sw_pc := (sw_pc w)(t := SProducer data)\<rparr>) else None)"
| "shm_step pol w (SMove t) =
     (case shm_move pol (sw_region w) (sw_pc w t) of
        None \<Rightarrow> None
      | Some (g, pc) \<Rightarrow> Some (w\<lparr>sw_region := g, sw_pc := (sw_pc w)(t := pc)\<rparr>))"
| "shm_step pol w SRead =
     (case shm_take (sw_region w) of
        (None, _) \<Rightarrow> None
      | (Some x, g) \<Rightarrow> Some (w\<lparr>sw_region := g, sw_seen := sw_seen w @ [x]\<rparr>))"

text \<open>A writer that runs alone does what \<open>shm_write\<close> does to the region.\<close>

lemma shm_write_solo:
  assumes "sw_pc w t = SIdle" and "length data + 4 \<le> unat (sh_slot_size (sw_region w))"
    and "sk_open s" and "sk_region s = Some (sw_region w)"
  shows "\<exists>k w'. run (shm_step (hc_full_policy (sk_config s))) w (SCall t data # replicate k (SMove t)) = Some w' \<and>
    sw_pc w' t = SIdle \<and> sw_seen w' = sw_seen w \<and> sk_region (snd (shm_write now data s)) = Some (sw_region w')"
proof -
  let ?g = "sw_region w" and ?pol = "hc_full_policy (sk_config s)"
  have nobig: "\<not> unat (sh_slot_size ?g) < length data + 4" using assms(2) by linarith
  consider (room) "\<not> ring_full ?g" | (newest) "ring_full ?g" "?pol = DropNewest" | (oldest) "ring_full ?g" "?pol = DropOldest"
    by (cases ?pol) auto
  then show ?thesis
  proof cases
    case room
    then show ?thesis using assms nobig
      by (intro exI [of _ 4])
         (simp add: shm_write_def shm_move_def ring_full_def numeral_eq_Suc count_written_def write_slot_def slot_index_def Let_def)
  next
    case newest
    then show ?thesis using assms nobig
      by (intro exI [of _ 3])
         (simp add: shm_write_def shm_move_def ring_full_def numeral_eq_Suc report_drop_def Let_def)
  next
    case oldest
    then show ?thesis using assms nobig
      by (intro exI [of _ 6])
         (simp add: shm_write_def shm_move_def ring_full_def numeral_eq_Suc count_written_def write_slot_def Let_def)
  qed
qed

definition demo_ring :: "u64 \<Rightarrow> shm_world" where
  "demo_ring p =
     \<lparr>sw_region = (shm_init 1 84 2 10)\<lparr>sh_producer := p, sh_slots := (\<lambda>i. le32 1 @ of_nat (65 + i) # replicate 5 0)\<rparr>,
      sw_pc = (\<lambda>_. SIdle), sw_seen = []\<rparr>"

section \<open>Properties\<close>




end
