(* ===== verification/Emergency_Buffer.thy ===== *)
theory Emergency_Buffer
  imports Buffered_File Log_Record "HOL-Library.Multiset"
begin

text \<open>
  The spill file for records that find the ring full (core/src/buffer/emergency_buffer.rs):
  framed records, optional encryption of audit records, and recovery without duplicates. The
  file is its bytes, a cursor shared by reads and writes, and the outcomes of the coming write
  calls. AES-256-GCM is the crate aes-gcm, a parameter; the nonce and the fresh key are
  arguments of the calls that draw them.
\<close>

section \<open>File\<close>

record spill_file =
  sf_bytes :: bytes
  sf_pos :: nat
  sf_calls :: "io_outcome list"

text \<open>A write replaces what is under the cursor; a failing one leaves some of its bytes.\<close>

definition spill_write :: "bytes \<Rightarrow> spill_file \<Rightarrow> bool \<times> spill_file" where
  "spill_write data f =
     (let (out, rest) = (case sf_calls f of [] \<Rightarrow> (IoOk, []) | x # xs \<Rightarrow> (x, xs));
          (ok, done) = (case out of IoOk \<Rightarrow> (True, data) | IoFail n \<Rightarrow> (False, take n data))
      in (ok, f\<lparr>sf_bytes := take (sf_pos f) (sf_bytes f) @ done @ drop (sf_pos f + length done) (sf_bytes f),
            sf_pos := sf_pos f + length done, sf_calls := rest\<rparr>))"

definition spill_read :: "nat \<Rightarrow> spill_file \<Rightarrow> bytes option \<times> spill_file" where
  "spill_read n f =
     (if sf_pos f + n \<le> length (sf_bytes f)
      then (Some (take n (drop (sf_pos f) (sf_bytes f))), f\<lparr>sf_pos := sf_pos f + n\<rparr>)
      else (None, f\<lparr>sf_pos := max (sf_pos f) (length (sf_bytes f))\<rparr>))"

section \<open>State\<close>

definition ENCRYPTED_FLAG :: u8 where "ENCRYPTED_FLAG = 0xFF"
definition NONCE_LEN :: nat where "NONCE_LEN = 12"
definition DEFAULT_EMERGENCY_MAX_BYTES :: u64 where "DEFAULT_EMERGENCY_MAX_BYTES = 512 * 1024 * 1024"
definition DEFAULT_EMERGENCY_MAX_RECORDS :: u64 where "DEFAULT_EMERGENCY_MAX_RECORDS = 1000000"
definition MAX_SPILLED :: nat where "MAX_SPILLED = 1024 * 1024"
definition MAX_SEEN :: nat where "MAX_SEEN = 1000000"

datatype emergency_push_result = Written | Dropped | NotActive | SpillError

record emergency_stats =
  em_spilled :: u64
  em_recovered :: u64
  em_dropped :: u64
  em_activations :: u64
  em_records :: u64
  em_bytes :: u64

record 'k aes_gcm =
  aes_encrypt :: "'k \<Rightarrow> bytes \<Rightarrow> bytes \<Rightarrow> bytes option"
  aes_decrypt :: "'k \<Rightarrow> bytes \<Rightarrow> bytes \<Rightarrow> bytes option"

text \<open>The documented law: what was encrypted decrypts under the same key and nonce, and the
  ciphertext is longer by the tag.\<close>

definition aes_correct :: "'k aes_gcm \<Rightarrow> bool" where
  "aes_correct aes \<longleftrightarrow>
     (\<forall>k n m c. aes_encrypt aes k n m = Some c \<longrightarrow> aes_decrypt aes k n c = Some m \<and> length c = length m + 16)"

record 'k emergency_buffer =
  eb_active :: bool
  eb_max_bytes :: u64
  eb_max_records :: u64
  eb_stats :: emergency_stats
  eb_file :: "spill_file option"
  eb_seen :: "u64 list"
  eb_audit_encryption :: bool
  eb_cipher :: "'k option"

definition eb_with_limits :: "u64 \<Rightarrow> u64 \<Rightarrow> 'k emergency_buffer" where
  "eb_with_limits max_bytes max_records =
     \<lparr>eb_active = False, eb_max_bytes = max_bytes, eb_max_records = max_records,
      eb_stats = \<lparr>em_spilled = 0, em_recovered = 0, em_dropped = 0, em_activations = 0, em_records = 0, em_bytes = 0\<rparr>,
      eb_file = None, eb_seen = [], eb_audit_encryption = False, eb_cipher = None\<rparr>"

definition eb_new :: "'k emergency_buffer" where
  "eb_new = eb_with_limits DEFAULT_EMERGENCY_MAX_BYTES DEFAULT_EMERGENCY_MAX_RECORDS"

definition enable_audit_encryption :: "'k \<Rightarrow> 'k emergency_buffer \<Rightarrow> 'k emergency_buffer" where
  "enable_audit_encryption key e = e\<lparr>eb_cipher := Some key, eb_audit_encryption := True\<rparr>"

definition ensure_cipher :: "'k \<Rightarrow> 'k emergency_buffer \<Rightarrow> 'k emergency_buffer" where
  "ensure_cipher key e =
     (if eb_audit_encryption e \<and> eb_cipher e = None then e\<lparr>eb_cipher := Some key\<rparr> else e)"

text \<open>Opening truncates the file; \<open>opened\<close> is the outcome with the writes that will follow.\<close>

definition eb_activate ::
  "string + io_outcome list \<Rightarrow> 'k \<Rightarrow> 'k emergency_buffer \<Rightarrow> (string + unit) \<times> 'k emergency_buffer" where
  "eb_activate opened key e =
     (if eb_active e then (Inr (), e)
      else
        (case opened of
           Inl msg \<Rightarrow> (Inl msg, e)
         | Inr calls \<Rightarrow>
             let e1 = ensure_cipher key (e\<lparr>eb_file := Some \<lparr>sf_bytes = [], sf_pos = 0, sf_calls = calls\<rparr>\<rparr>) in
             (Inr (), e1\<lparr>eb_active := True,
                eb_stats := (eb_stats e1)\<lparr>em_records := 0, em_bytes := 0,
                  em_activations := em_activations (eb_stats e1) + 1\<rparr>\<rparr>)))"

definition eb_deactivate :: "'k emergency_buffer \<Rightarrow> 'k emergency_buffer" where
  "eb_deactivate e =
     (if \<not> eb_active e then e
      else e\<lparr>eb_active := False, eb_file := None, eb_stats := (eb_stats e)\<lparr>em_records := 0, em_bytes := 0\<rparr>\<rparr>)"

definition clear_dedup :: "'k emergency_buffer \<Rightarrow> 'k emergency_buffer" where
  "clear_dedup e = e\<lparr>eb_seen := []\<rparr>"

section \<open>Records\<close>

definition DLOG :: bytes where "DLOG = str_bytes ''DLOG''"

definition record_to_bytes :: "log_record \<Rightarrow> bytes" where
  "record_to_bytes r =
     (let msg = rs_as_bytes (rec_message r); tags = rec_audit_tags r in
      DLOG @ le64 (rec_id_hi r) @ le64 (rec_id_lo r) @ le64 (rec_lsn r) @ le64 (rec_timestamp r) @
      [level_as_u8 (rec_level r)] @ le16 (rec_flags r) @
      le16 (of_nat (min (length msg) 65535)) @ msg @ le32 (rec_thread_id r) @
      le16 32 @ rec_content_hash r @ le16 (of_nat (length tags)) @ tags)"

definition extract_record_id :: "bytes \<Rightarrow> u64 option" where
  "extract_record_id data =
     (if length data < 20 then None
      else if take 4 data \<noteq> DLOG then None
      else Some (u64_of (take 8 (drop 12 data))))"

section \<open>Spilling and recovery\<close>

text \<open>\<open>None\<close> is the panic of a cipher that is missing.\<close>

definition spill_payload ::
  "'k aes_gcm \<Rightarrow> bytes \<Rightarrow> log_record \<Rightarrow> 'k emergency_buffer \<Rightarrow> bytes option option" where
  "spill_payload aes nonce r e =
     (if eb_audit_encryption e \<and> rec_level r = Audit then
        (case eb_cipher e of
           None \<Rightarrow> None
         | Some k \<Rightarrow>
             Some (map_option (\<lambda>c. ENCRYPTED_FLAG # nonce @ c) (aes_encrypt aes k nonce (record_to_bytes r))))
      else Some (Some (record_to_bytes r)))"

definition eb_push ::
  "'k aes_gcm \<Rightarrow> bytes \<Rightarrow> log_record \<Rightarrow> 'k emergency_buffer \<Rightarrow>
     (emergency_push_result \<times> 'k emergency_buffer) option" where
  "eb_push aes nonce r e =
     (if \<not> eb_active e then Some (NotActive, e)
      else if eb_max_records e \<le> em_records (eb_stats e) \<or> eb_max_bytes e \<le> em_bytes (eb_stats e) then
        Some (Dropped, e\<lparr>eb_stats := (eb_stats e)\<lparr>em_dropped := em_dropped (eb_stats e) + 1\<rparr>\<rparr>)
      else
        (case spill_payload aes nonce r e of
           None \<Rightarrow> None
         | Some None \<Rightarrow> Some (SpillError, e)
         | Some (Some payload) \<Rightarrow>
             (case eb_file e of
                None \<Rightarrow> Some (NotActive, e)
              | Some f \<Rightarrow>
                  (case spill_write (le64 (of_nat (length payload))) f of
                     (False, f1) \<Rightarrow> Some (SpillError, e\<lparr>eb_file := Some f1\<rparr>)
                   | (True, f1) \<Rightarrow>
                       (case spill_write payload f1 of
                          (False, f2) \<Rightarrow> Some (SpillError, e\<lparr>eb_file := Some f2\<rparr>)
                        | (True, f2) \<Rightarrow>
                            Some (Written, e\<lparr>eb_file := Some f2,
                              eb_stats := (eb_stats e)\<lparr>em_records := em_records (eb_stats e) + 1,
                                em_bytes := em_bytes (eb_stats e) + (of_nat (length payload) + 8),
                                em_spilled := em_spilled (eb_stats e) + 1\<rparr>\<rparr>))))))"

text \<open>The plain bytes of a frame, \<open>None\<close> when it is skipped.\<close>

definition spill_plain :: "'k aes_gcm \<Rightarrow> 'k option \<Rightarrow> bytes \<Rightarrow> bytes option" where
  "spill_plain aes cipher data =
     (if data \<noteq> [] \<and> hd data = ENCRYPTED_FLAG then
        if length data < 1 + NONCE_LEN + 16 then None
        else
          (case cipher of
             None \<Rightarrow> None
           | Some k \<Rightarrow> aes_decrypt aes k (take NONCE_LEN (drop 1 data)) (drop (1 + NONCE_LEN) data))
      else Some data)"

text \<open>Remembering an id; past a million ids half of them are forgotten, in the order of the set.\<close>

definition remember :: "u64 \<Rightarrow> u64 list \<Rightarrow> u64 list" where
  "remember i seen =
     (let s = seen @ [i] in if MAX_SEEN < length s then drop (length s div 2) s else s)"

definition spill_accept :: "bytes \<Rightarrow> u64 list \<Rightarrow> bool \<times> u64 list" where
  "spill_accept plain seen =
     (case extract_record_id plain of
        None \<Rightarrow> (True, seen)
      | Some i \<Rightarrow> if i \<in> set seen then (False, seen) else (True, remember i seen))"

function drain_loop ::
  "'k aes_gcm \<Rightarrow> 'k option \<Rightarrow> spill_file \<Rightarrow> u64 list \<Rightarrow> bytes list \<times> spill_file \<times> u64 list" where
  "drain_loop aes cipher f seen =
     (case spill_read 8 f of
        (None, f1) \<Rightarrow> ([], f1, seen)
      | (Some len_buf, f1) \<Rightarrow>
          let n = unat (u64_of len_buf) in
          if n = 0 \<or> MAX_SPILLED < n then ([], f1, seen)
          else
            (case spill_read n f1 of
               (None, f2) \<Rightarrow> ([], f2, seen)
             | (Some data, f2) \<Rightarrow>
                 (case spill_plain aes cipher data of
                    None \<Rightarrow> drain_loop aes cipher f2 seen
                  | Some plain \<Rightarrow>
                      (case spill_accept plain seen of
                         (False, seen') \<Rightarrow> drain_loop aes cipher f2 seen'
                       | (True, seen') \<Rightarrow>
                           (case drain_loop aes cipher f2 seen' of (out, f3, s3) \<Rightarrow> (plain # out, f3, s3))))))"
  by pat_completeness auto
termination
  by (relation "measure (\<lambda>(_, _, f, _). length (sf_bytes f) - sf_pos f)")
     (auto simp: spill_read_def split: if_splits)

declare drain_loop.simps [simp del]

definition eb_drain_all :: "'k aes_gcm \<Rightarrow> 'k emergency_buffer \<Rightarrow> bytes list \<times> 'k emergency_buffer" where
  "eb_drain_all aes e =
     (case eb_file e of
        None \<Rightarrow> ([], e)
      | Some f \<Rightarrow>
          (case drain_loop aes (eb_cipher e) (f\<lparr>sf_pos := 0\<rparr>) (eb_seen e) of
             (out, f', seen) \<Rightarrow>
               (out, e\<lparr>eb_file := Some f', eb_seen := seen,
                  eb_stats := (eb_stats e)\<lparr>em_recovered := em_recovered (eb_stats e) + of_nat (length out)\<rparr>\<rparr>)))"

section \<open>The queue it implements\<close>

datatype spill_op = SpillPush bytes log_record | SpillDrain

datatype spill_result = Pushed emergency_push_result | Recovered "bytes list"

definition spill_run :: "'k aes_gcm \<Rightarrow> spill_op \<Rightarrow> 'k emergency_buffer \<Rightarrow> (spill_result \<times> 'k emergency_buffer) option" where
  "spill_run aes a e =
     (case a of
        SpillPush nonce r \<Rightarrow> map_option (\<lambda>(x, e'). (Pushed x, e')) (eb_push aes nonce r e)
      | SpillDrain \<Rightarrow> (case eb_drain_all aes e of (out, e') \<Rightarrow> Some (Recovered out, e')))"

fun spill_runs ::
  "'k aes_gcm \<Rightarrow> spill_op list \<Rightarrow> 'k emergency_buffer \<Rightarrow> (spill_result list \<times> 'k emergency_buffer) option" where
  "spill_runs aes [] e = Some ([], e)"
| "spill_runs aes (a # as) e =
     (case spill_run aes a e of
        None \<Rightarrow> None
      | Some (x, e1) \<Rightarrow> map_option (\<lambda>(xs, e2). (x # xs, e2)) (spill_runs aes as e1))"

text \<open>The specification: the records not yet recovered, and how many records and bytes have been
  spilled since the activation, which is what the limits look at.\<close>

record spill_spec =
  sp_pending :: "log_record list"
  sp_records :: nat
  sp_size :: nat

fun spec_run ::
  "nat \<Rightarrow> nat \<Rightarrow> (bytes \<Rightarrow> log_record \<Rightarrow> bytes option) \<Rightarrow> spill_op \<Rightarrow> spill_spec \<Rightarrow> spill_result \<times> spill_spec" where
  "spec_run max_bytes max_records pay (SpillPush nonce r) s =
     (if max_records \<le> sp_records s \<or> max_bytes \<le> sp_size s then (Pushed Dropped, s)
      else
        (case pay nonce r of
           None \<Rightarrow> (Pushed SpillError, s)
         | Some p \<Rightarrow>
             (Pushed Written, \<lparr>sp_pending = sp_pending s @ [r], sp_records = sp_records s + 1,
                sp_size = sp_size s + length p + 8\<rparr>)))"
| "spec_run max_bytes max_records pay SpillDrain s =
     (Recovered (map record_to_bytes (sp_pending s)), s\<lparr>sp_pending := []\<rparr>)"

fun spec_runs ::
  "nat \<Rightarrow> nat \<Rightarrow> (bytes \<Rightarrow> log_record \<Rightarrow> bytes option) \<Rightarrow> spill_op list \<Rightarrow> spill_spec \<Rightarrow> spill_result list \<times> spill_spec" where
  "spec_runs mb mr pay [] s = ([], s)"
| "spec_runs mb mr pay (a # as) s =
     (case spec_run mb mr pay a s of (x, s1) \<Rightarrow> (case spec_runs mb mr pay as s1 of (xs, s2) \<Rightarrow> (x # xs, s2)))"

definition frame :: "bytes \<Rightarrow> bytes" where "frame p = le64 (of_nat (length p)) @ p"

lemma length_frame [simp]: "length (frame p) = length p + 8"
  by (simp add: frame_def)

lemma record_bytes_shape:
  "extract_record_id (record_to_bytes r) = Some (rec_id_lo r)" "record_to_bytes r \<noteq> []"
  "hd (record_to_bytes r) \<noteq> ENCRYPTED_FLAG"
  by (simp_all add: extract_record_id_def record_to_bytes_def DLOG_def str_bytes_def ENCRYPTED_FLAG_def Let_def)

lemma spill_read_at:
  assumes "sf_bytes f = pre @ xs @ post" and "sf_pos f = length pre"
  shows "spill_read (length xs) f = (Some xs, f\<lparr>sf_pos := length (pre @ xs)\<rparr>)"
  using assms by (simp add: spill_read_def)

lemma spill_write_end:
  assumes "sf_pos f = length (sf_bytes f)" and "sf_calls f = []"
  shows "spill_write data f = (True, f\<lparr>sf_bytes := sf_bytes f @ data, sf_pos := length (sf_bytes f @ data)\<rparr>)"
  using assms by (simp add: spill_write_def)

definition good_payload :: "'k aes_gcm \<Rightarrow> 'k option \<Rightarrow> bytes \<Rightarrow> log_record \<Rightarrow> bool" where
  "good_payload aes cipher p r \<longleftrightarrow>
     spill_plain aes cipher p = Some (record_to_bytes r) \<and> p \<noteq> [] \<and> length p \<le> MAX_SPILLED"

lemma drain_step:
  assumes "good_payload aes cipher p r" and "sf_bytes f = pre @ frame p @ post" and "sf_pos f = length pre"
  shows "drain_loop aes cipher f seen =
    (case spill_accept (record_to_bytes r) seen of
       (False, seen') \<Rightarrow> drain_loop aes cipher (f\<lparr>sf_pos := length pre + (length p + 8)\<rparr>) seen'
     | (True, seen') \<Rightarrow>
         (case drain_loop aes cipher (f\<lparr>sf_pos := length pre + (length p + 8)\<rparr>) seen' of
            (out, f3, s3) \<Rightarrow> (record_to_bytes r # out, f3, s3)))"
proof -
  have n: "unat (of_nat (length p) :: u64) = length p" "0 < length p" "\<not> MAX_SPILLED < length p"
    using assms(1) by (auto simp: good_payload_def MAX_SPILLED_def unat_of_nat take_bit_nat_eq_self)
  have r1: "spill_read 8 f = (Some (le64 (of_nat (length p))), f\<lparr>sf_pos := length pre + 8\<rparr>)"
    using spill_read_at [of f pre "le64 (of_nat (length p))" "p @ post"] assms(2,3) by (simp add: frame_def)
  have r2: "spill_read (length p) (f\<lparr>sf_pos := length pre + 8\<rparr>) =
      (Some p, f\<lparr>sf_pos := length (pre @ frame p)\<rparr>)"
    using spill_read_at [of "f\<lparr>sf_pos := length pre + 8\<rparr>" "pre @ le64 (of_nat (length p))" p post] assms(2,3)
    by (simp add: frame_def)
  have pl: "spill_plain aes cipher p = Some (record_to_bytes r)" using assms(1) by (simp add: good_payload_def)
  show ?thesis using n r2 pl by (subst drain_loop.simps) (simp add: r1 Let_def)
qed

lemma at_pos: "sf_pos f = n \<Longrightarrow> f\<lparr>sf_pos := n\<rparr> = f"
  by (cases f) simp

lemma drain_end:
  assumes "sf_pos f = length (sf_bytes f)"
  shows "drain_loop aes cipher f seen = ([], f, seen)"
  using assms by (subst drain_loop.simps) (simp add: spill_read_def)

text \<open>Frames already recovered are passed over, the others are delivered.\<close>

lemma drain_old:
  assumes "list_all2 (good_payload aes cipher) ps rs" and "rec_id_lo ` set rs \<subseteq> set seen"
    and "sf_bytes f = pre @ concat (map frame ps) @ post" and "sf_pos f = length pre"
  shows "drain_loop aes cipher f seen = drain_loop aes cipher (f\<lparr>sf_pos := length (pre @ concat (map frame ps))\<rparr>) seen"
  using assms
proof (induction ps rs arbitrary: f pre rule: list_all2_induct)
  case Nil
  then show ?case by (simp add: at_pos)
next
  case (Cons p ps r rs)
  have "spill_accept (record_to_bytes r) seen = (False, seen)"
    using Cons.prems(1) by (simp add: spill_accept_def record_bytes_shape)
  then have "drain_loop aes cipher f seen = drain_loop aes cipher (f\<lparr>sf_pos := length (pre @ frame p)\<rparr>) seen"
    using drain_step [OF Cons.hyps(1), of f pre "concat (map frame ps) @ post" seen] Cons.prems(2,3) by simp
  also have "\<dots> = drain_loop aes cipher (f\<lparr>sf_pos := length ((pre @ frame p) @ concat (map frame ps))\<rparr>) seen"
    using Cons.IH [of "f\<lparr>sf_pos := length (pre @ frame p)\<rparr>" "pre @ frame p"] Cons.prems by simp
  finally show ?case by simp
qed

lemma drain_new:
  assumes "list_all2 (good_payload aes cipher) ps rs" and "distinct (map rec_id_lo rs)"
    and "set (map rec_id_lo rs) \<inter> set seen = {}" and "length seen + length rs \<le> MAX_SEEN"
    and "sf_bytes f = pre @ concat (map frame ps)" and "sf_pos f = length pre"
  shows "drain_loop aes cipher f seen =
    (map record_to_bytes rs, f\<lparr>sf_pos := length (sf_bytes f)\<rparr>, seen @ map rec_id_lo rs)"
  using assms
proof (induction ps rs arbitrary: f pre seen rule: list_all2_induct)
  case Nil
  then show ?case by (simp add: drain_end at_pos)
next
  case (Cons p ps r rs)
  have "spill_accept (record_to_bytes r) seen = (True, seen @ [rec_id_lo r])"
    using Cons.prems(2,3) by (simp add: spill_accept_def record_bytes_shape remember_def)
  moreover have "drain_loop aes cipher (f\<lparr>sf_pos := length (pre @ frame p)\<rparr>) (seen @ [rec_id_lo r]) =
      (map record_to_bytes rs, f\<lparr>sf_pos := length (sf_bytes f)\<rparr>, (seen @ [rec_id_lo r]) @ map rec_id_lo rs)"
    using Cons.IH [of "seen @ [rec_id_lo r]" "f\<lparr>sf_pos := length (pre @ frame p)\<rparr>" "pre @ frame p"] Cons.prems by auto
  ultimately show ?case
    using drain_step [OF Cons.hyps(1), of f pre "concat (map frame ps)" seen] Cons.prems(4,5) by simp
qed

text \<open>The buffer after some spills and recoveries.\<close>

definition spill_rel ::
  "'k aes_gcm \<Rightarrow> log_record list \<Rightarrow> spill_spec \<Rightarrow> 'k emergency_buffer \<Rightarrow> bool" where
  "spill_rel aes old s e \<longleftrightarrow> eb_active e \<and> em_records (eb_stats e) = of_nat (sp_records s) \<and>
     em_bytes (eb_stats e) = of_nat (sp_size s) \<and> eb_seen e = map rec_id_lo old \<and>
     (eb_audit_encryption e \<longrightarrow> eb_cipher e \<noteq> None) \<and> sp_records s = length (old @ sp_pending s) \<and>
     distinct (map rec_id_lo (old @ sp_pending s)) \<and>
     (\<exists>f ps. eb_file e = Some f \<and> sf_calls f = [] \<and> sf_pos f = length (sf_bytes f) \<and>
        sf_bytes f = concat (map frame ps) \<and> list_all2 (good_payload aes (eb_cipher e)) ps (old @ sp_pending s))"

definition payload_of :: "'k aes_gcm \<Rightarrow> 'k emergency_buffer \<Rightarrow> bytes \<Rightarrow> log_record \<Rightarrow> bytes option" where
  "payload_of aes e nonce r = the (spill_payload aes nonce r e)"

lemma payload_good:
  assumes aes: "aes_correct aes" and "length nonce = NONCE_LEN" and "length (record_to_bytes r) + 29 \<le> MAX_SPILLED"
    and cipher: "eb_audit_encryption e \<longrightarrow> eb_cipher e \<noteq> None"
  shows "\<exists>x. spill_payload aes nonce r e = Some x \<and> payload_of aes e nonce r = x \<and>
    (\<forall>p. x = Some p \<longrightarrow> good_payload aes (eb_cipher e) p r)"
proof (cases "eb_audit_encryption e \<and> rec_level r = Audit")
  case True
  then obtain k where k: "eb_cipher e = Some k" using cipher by blast
  have "good_payload aes (Some k) (ENCRYPTED_FLAG # nonce @ c) r"
    if "aes_encrypt aes k nonce (record_to_bytes r) = Some c" for c
    using aes that assms(2,3) by (auto simp: aes_correct_def good_payload_def spill_plain_def NONCE_LEN_def)
  with True k show ?thesis by (auto simp: spill_payload_def payload_of_def)
next
  case False
  have "good_payload aes (eb_cipher e) (record_to_bytes r) r"
    using record_bytes_shape [of r] assms(3) by (simp add: good_payload_def spill_plain_def)
  with False show ?thesis by (auto simp: spill_payload_def payload_of_def)
qed

lemma spill_push_refines:
  assumes rel: "spill_rel aes old s e" and aes: "aes_correct aes"
    and r: "length nonce = NONCE_LEN" "length (record_to_bytes r) + 29 \<le> MAX_SPILLED"
      "rec_id_lo r \<notin> rec_id_lo ` set (old @ sp_pending s)"
    and size: "sp_size s < 2 ^ 64" "sp_records s < 2 ^ 64"
    and spec: "spec_run (unat (eb_max_bytes e)) (unat (eb_max_records e)) (payload_of aes e) (SpillPush nonce r) s = (x, s')"
  shows "\<exists>e'. spill_run aes (SpillPush nonce r) e = Some (x, e') \<and> spill_rel aes old s' e' \<and>
    eb_max_bytes e' = eb_max_bytes e \<and> eb_max_records e' = eb_max_records e \<and>
    eb_audit_encryption e' = eb_audit_encryption e \<and> eb_cipher e' = eb_cipher e"
proof -
  obtain f ps where f: "eb_file e = Some f" "sf_calls f = []" "sf_pos f = length (sf_bytes f)"
      "sf_bytes f = concat (map frame ps)" "list_all2 (good_payload aes (eb_cipher e)) ps (old @ sp_pending s)"
    and act: "eb_active e" "eb_audit_encryption e \<longrightarrow> eb_cipher e \<noteq> None"
    and cnt: "em_records (eb_stats e) = of_nat (sp_records s)" "em_bytes (eb_stats e) = of_nat (sp_size s)"
    using rel by (auto simp: spill_rel_def)
  have lim: "eb_max_records e \<le> em_records (eb_stats e) \<longleftrightarrow> unat (eb_max_records e) \<le> sp_records s"
    "eb_max_bytes e \<le> em_bytes (eb_stats e) \<longleftrightarrow> unat (eb_max_bytes e) \<le> sp_size s"
    using size by (simp_all add: cnt word_le_nat_alt unat_of_nat take_bit_nat_eq_self)
  from payload_good [OF aes r(1,2) act(2)] obtain y where
    y: "spill_payload aes nonce r e = Some y" "payload_of aes e nonce r = y"
      "\<forall>p. y = Some p \<longrightarrow> good_payload aes (eb_cipher e) p r" by blast
  consider (full) "unat (eb_max_records e) \<le> sp_records s \<or> unat (eb_max_bytes e) \<le> sp_size s"
    | (err) "\<not> (unat (eb_max_records e) \<le> sp_records s \<or> unat (eb_max_bytes e) \<le> sp_size s)" "y = None"
    | (ok) p where "\<not> (unat (eb_max_records e) \<le> sp_records s \<or> unat (eb_max_bytes e) \<le> sp_size s)" "y = Some p"
    by (cases y) auto
  then show ?thesis
  proof cases
    case full
    then have "x = Pushed Dropped" "s' = s" using spec by auto
    moreover define e1 where "e1 = e\<lparr>eb_stats := (eb_stats e)\<lparr>em_dropped := em_dropped (eb_stats e) + 1\<rparr>\<rparr>"
    have "spill_run aes (SpillPush nonce r) e = Some (Pushed Dropped, e1)"
      using full act by (auto simp: spill_run_def eb_push_def e1_def simp flip: lim)
    moreover have "spill_rel aes old s e1" using rel by (simp add: spill_rel_def e1_def)
    ultimately show ?thesis by (simp add: e1_def)
  next
    case err
    then have "x = Pushed SpillError" "s' = s" using spec y by auto
    with err act rel y show ?thesis by (auto simp: spill_run_def eb_push_def lim)
  next
    case (ok p)
    define f2 where "f2 = f\<lparr>sf_bytes := sf_bytes f @ frame p, sf_pos := length (sf_bytes f @ frame p)\<rparr>"
    define e' where "e' = e\<lparr>eb_file := Some f2, eb_stats := (eb_stats e)\<lparr>em_records := em_records (eb_stats e) + 1,
      em_bytes := em_bytes (eb_stats e) + (of_nat (length p) + 8), em_spilled := em_spilled (eb_stats e) + 1\<rparr>\<rparr>"
    have w1: "spill_write (le64 (of_nat (length p))) f = (True, f\<lparr>sf_bytes := sf_bytes f @ le64 (of_nat (length p)),
        sf_pos := length (sf_bytes f @ le64 (of_nat (length p)))\<rparr>)"
      by (rule spill_write_end [OF f(3,2)])
    have w2: "spill_write p (f\<lparr>sf_bytes := sf_bytes f @ le64 (of_nat (length p)),
        sf_pos := length (sf_bytes f @ le64 (of_nat (length p)))\<rparr>) = (True, f2)"
      using f(2) by (subst spill_write_end) (simp_all add: f2_def frame_def)
    have x: "x = Pushed Written" "s' = \<lparr>sp_pending = sp_pending s @ [r], sp_records = sp_records s + 1,
        sp_size = sp_size s + length p + 8\<rparr>" using spec y ok by auto
    have "spill_run aes (SpillPush nonce r) e = Some (Pushed Written, e')"
      using ok(1) act(1) y(1) ok(2) f(1) w1 w2 by (simp add: spill_run_def eb_push_def lim e'_def)
    moreover have "spill_rel aes old s' e'"
      unfolding spill_rel_def
    proof (intro conjI)
      show "\<exists>f ps. eb_file e' = Some f \<and> sf_calls f = [] \<and> sf_pos f = length (sf_bytes f) \<and>
          sf_bytes f = concat (map frame ps) \<and> list_all2 (good_payload aes (eb_cipher e')) ps (old @ sp_pending s')"
      proof (intro exI conjI)
        show "eb_file e' = Some f2" "sf_calls f2 = []" "sf_pos f2 = length (sf_bytes f2)"
          "sf_bytes f2 = concat (map frame (ps @ [p]))" using f by (simp_all add: e'_def f2_def)
        have "list_all2 (good_payload aes (eb_cipher e)) (ps @ [p]) ((old @ sp_pending s) @ [r])"
          using f(5) y(3) ok(2) by (intro list_all2_appendI) simp_all
        then show "list_all2 (good_payload aes (eb_cipher e')) (ps @ [p]) (old @ sp_pending s')"
          by (simp add: e'_def x(2))
      qed
    next
      show "em_records (eb_stats e') = of_nat (sp_records s')" "em_bytes (eb_stats e') = of_nat (sp_size s')"
        by (simp_all add: e'_def x(2) cnt algebra_simps)
      show "distinct (map rec_id_lo (old @ sp_pending s'))" using rel r(3) by (auto simp: spill_rel_def x(2))
    qed (use rel in \<open>simp_all add: spill_rel_def e'_def x(2)\<close>)
    ultimately show ?thesis using x(1) by (simp add: e'_def)
  qed
qed

lemma spill_drain_refines:
  assumes rel: "spill_rel aes old s e" and seen: "length (old @ sp_pending s) \<le> MAX_SEEN"
  shows "\<exists>e'. spill_run aes SpillDrain e = Some (Recovered (map record_to_bytes (sp_pending s)), e') \<and>
    spill_rel aes (old @ sp_pending s) (s\<lparr>sp_pending := []\<rparr>) e' \<and>
    eb_max_bytes e' = eb_max_bytes e \<and> eb_max_records e' = eb_max_records e \<and>
    eb_audit_encryption e' = eb_audit_encryption e \<and> eb_cipher e' = eb_cipher e"
proof -
  obtain f ps where f: "eb_file e = Some f" "sf_calls f = []" "sf_pos f = length (sf_bytes f)"
      "sf_bytes f = concat (map frame ps)" "list_all2 (good_payload aes (eb_cipher e)) ps (old @ sp_pending s)"
    using rel by (auto simp: spill_rel_def)
  have d: "eb_seen e = map rec_id_lo old" "distinct (map rec_id_lo (old @ sp_pending s))"
    using rel by (auto simp: spill_rel_def)
  obtain qs rs where ps: "ps = qs @ rs" "list_all2 (good_payload aes (eb_cipher e)) qs old"
      "list_all2 (good_payload aes (eb_cipher e)) rs (sp_pending s)"
    using f(5) by (auto simp: list_all2_append2)
  let ?f1 = "(f\<lparr>sf_pos := 0\<rparr>)\<lparr>sf_pos := length (concat (map frame qs))\<rparr>"
  have "drain_loop aes (eb_cipher e) (f\<lparr>sf_pos := 0\<rparr>) (eb_seen e) = drain_loop aes (eb_cipher e) ?f1 (eb_seen e)"
    using drain_old [OF ps(2), of "eb_seen e" "f\<lparr>sf_pos := 0\<rparr>" "[]" "concat (map frame rs)"] d(1) f(4) ps(1) by simp
  also have "\<dots> = (map record_to_bytes (sp_pending s), ?f1\<lparr>sf_pos := length (sf_bytes ?f1)\<rparr>,
      eb_seen e @ map rec_id_lo (sp_pending s))"
    using drain_new [OF ps(3), of "eb_seen e" ?f1 "concat (map frame qs)"] d seen f(4) ps(1) by auto
  finally show ?thesis using rel f by (auto simp: spill_run_def eb_drain_all_def spill_rel_def)
qed

fun pushed :: "spill_op list \<Rightarrow> log_record list" where
  "pushed [] = []"
| "pushed (SpillPush nonce r # ops) = r # pushed ops"
| "pushed (SpillDrain # ops) = pushed ops"

definition spill_fits :: "spill_op \<Rightarrow> bool" where
  "spill_fits a = (case a of SpillDrain \<Rightarrow> True
     | SpillPush nonce r \<Rightarrow> length nonce = NONCE_LEN \<and> length (record_to_bytes r) + 29 \<le> MAX_SPILLED)"

lemma distinct_sub:
  assumes "mset xs \<subseteq># mset ys" and "distinct ys"
  shows "distinct xs"
proof -
  from assms(1) obtain zs where "mset ys = mset (xs @ zs)"
    by (metis ex_mset mset_append mset_subset_eq_exists_conv)
  from mset_eq_imp_distinct_iff [OF this] assms(2) show ?thesis by simp
qed

lemma spill_runs_refine:
  assumes "spill_rel aes old s e" and "aes_correct aes" and "list_all spill_fits ops"
    and "distinct (map rec_id_lo (old @ sp_pending s @ pushed ops))"
    and "length (old @ sp_pending s @ pushed ops) \<le> MAX_SEEN"
    and "sp_size s < unat (eb_max_bytes e) + 2 ^ 21" and "unat (eb_max_bytes e) + 2 ^ 21 < 2 ^ 64"
    and "spec_runs (unat (eb_max_bytes e)) (unat (eb_max_records e)) (payload_of aes e) ops s = (rs, s')"
  shows "\<exists>old' e'. spill_runs aes ops e = Some (rs, e') \<and> spill_rel aes old' s' e'"
  using assms
proof (induction ops arbitrary: old s e rs)
  case Nil
  then show ?case by auto
next
  case (Cons a ops)
  let ?pay = "payload_of aes e" and ?mb = "unat (eb_max_bytes e)" and ?mr = "unat (eb_max_records e)"
  obtain x s1 where one: "spec_run ?mb ?mr ?pay a s = (x, s1)" by fastforce
  obtain xs where rest: "spec_runs ?mb ?mr ?pay ops s1 = (xs, s')" and rs: "rs = x # xs"
    using Cons.prems(8) one by (auto split: prod.splits)
  have fits: "spill_fits a" "list_all spill_fits ops" using Cons.prems(3) by auto
  have "sp_records s = length (old @ sp_pending s)" using Cons.prems(1) by (simp add: spill_rel_def)
  then have small: "sp_size s < 2 ^ 64" "sp_records s < 2 ^ 64"
    using Cons.prems(5,6,7) by (auto simp: MAX_SEEN_def)
  have "\<exists>old1 e1. spill_run aes a e = Some (x, e1) \<and> spill_rel aes old1 s1 e1 \<and>
      mset (old1 @ sp_pending s1 @ pushed ops) \<subseteq># mset (old @ sp_pending s @ pushed (a # ops)) \<and>
      sp_size s1 < ?mb + 2 ^ 21 \<and> eb_max_bytes e1 = eb_max_bytes e \<and> eb_max_records e1 = eb_max_records e \<and>
      eb_audit_encryption e1 = eb_audit_encryption e \<and> eb_cipher e1 = eb_cipher e"
  proof (cases a)
    case (SpillPush nonce r)
    have r: "length nonce = NONCE_LEN" "length (record_to_bytes r) + 29 \<le> MAX_SPILLED"
      using fits(1) by (simp_all add: SpillPush spill_fits_def)
    have new: "rec_id_lo r \<notin> rec_id_lo ` set (old @ sp_pending s)" using Cons.prems(4) by (auto simp: SpillPush)
    from spill_push_refines [OF Cons.prems(1,2) r new small one [unfolded SpillPush]] obtain e1 where
      e1: "spill_run aes a e = Some (x, e1)" "spill_rel aes old s1 e1" "eb_max_bytes e1 = eb_max_bytes e"
        "eb_max_records e1 = eb_max_records e" "eb_audit_encryption e1 = eb_audit_encryption e" "eb_cipher e1 = eb_cipher e"
      unfolding SpillPush by blast
    have cipher: "eb_audit_encryption e \<longrightarrow> eb_cipher e \<noteq> None" using Cons.prems(1) by (simp add: spill_rel_def)
    from payload_good [OF Cons.prems(2) r cipher] have "\<forall>p. ?pay nonce r = Some p \<longrightarrow> length p \<le> MAX_SPILLED"
      by (auto simp: good_payload_def)
    then have "sp_size s1 < ?mb + 2 ^ 21 \<and> mset (old @ sp_pending s1 @ pushed ops) \<subseteq># mset (old @ sp_pending s @ pushed (a # ops))"
      using one Cons.prems(6) by (auto simp: SpillPush MAX_SPILLED_def split: if_splits option.splits)
    with e1 show ?thesis by blast
  next
    case SpillDrain
    have "length (old @ sp_pending s) \<le> MAX_SEEN" using Cons.prems(5) by simp
    from spill_drain_refines [OF Cons.prems(1) this] one Cons.prems(6) show ?thesis
      by (auto simp: SpillDrain intro!: exI [of _ "old @ sp_pending s"])
  qed
  then obtain old1 e1 where e1: "spill_run aes a e = Some (x, e1)" "spill_rel aes old1 s1 e1"
      "mset (old1 @ sp_pending s1 @ pushed ops) \<subseteq># mset (old @ sp_pending s @ pushed (a # ops))"
      "sp_size s1 < ?mb + 2 ^ 21" and frame: "eb_max_bytes e1 = eb_max_bytes e" "eb_max_records e1 = eb_max_records e"
      "eb_audit_encryption e1 = eb_audit_encryption e" "eb_cipher e1 = eb_cipher e" by blast
  have pay: "payload_of aes e1 = ?pay" by (intro ext) (simp add: payload_of_def spill_payload_def frame)
  have "distinct (map rec_id_lo (old1 @ sp_pending s1 @ pushed ops))"
    using distinct_sub [OF image_mset_subseteq_mono [OF e1(3), of rec_id_lo, folded mset_map]] Cons.prems(4) by simp
  moreover have "length (old1 @ sp_pending s1 @ pushed ops) \<le> MAX_SEEN"
    using size_mset_mono [OF e1(3)] Cons.prems(5) by simp
  ultimately obtain old' e' where "spill_runs aes ops e1 = Some (xs, e')" "spill_rel aes old' s' e'"
    using Cons.IH [of old1 s1 e1 xs] e1(2,4) Cons.prems(2,7) fits(2) rest unfolding frame pay by blast
  with e1(1) rs show ?case by auto
qed

section \<open>Properties\<close>

text \<open>C14: An activated buffer whose writes succeed is a queue: any sequence of spills and recoveries
  gives the results of a queue that a recovery empties, so every record that was taken comes back
  exactly once, in order, encrypted records included, provided the low halves of the ids differ
  and no record is longer than a megabyte. The limits look at everything spilled since the
  activation: a recovery frees no room.\<close>

theorem spill_refines_queue:
  assumes aes: "aes_correct aes" and fresh: "\<not> eb_active e0" "eb_seen e0 = []"
    and start: "eb_activate (Inr []) key e0 = (Inr (), e)"
    and ops: "list_all spill_fits ops" "distinct (map rec_id_lo (pushed ops))" "length (pushed ops) \<le> MAX_SEEN"
    and size: "unat (eb_max_bytes e0) + 2 ^ 21 < 2 ^ 64"
    and spec: "spec_runs (unat (eb_max_bytes e0)) (unat (eb_max_records e0)) (payload_of aes e) ops
      \<lparr>sp_pending = [], sp_records = 0, sp_size = 0\<rparr> = (rs, s)"
  shows "\<exists>e'. spill_runs aes ops e = Some (rs, e') \<and> em_records (eb_stats e') = of_nat (sp_records s)"
proof -
  let ?s = "\<lparr>sp_pending = [], sp_records = 0, sp_size = 0\<rparr>"
  have e: "eb_max_bytes e = eb_max_bytes e0" "eb_max_records e = eb_max_records e0"
    using start fresh by (auto simp: eb_activate_def ensure_cipher_def Let_def)
  have "spill_rel aes [] ?s e"
    using start fresh by (auto simp: spill_rel_def eb_activate_def ensure_cipher_def Let_def intro!: exI [of _ "[]"])
  from spill_runs_refine [OF this aes ops(1), of rs s] ops(2,3) size spec obtain old' e' where
    "spill_runs aes ops e = Some (rs, e')" "spill_rel aes old' s e'" unfolding e by auto
  then show ?thesis by (auto simp: spill_rel_def)
qed

definition demo_aes :: "unit aes_gcm" where
  "demo_aes = \<lparr>aes_encrypt = (\<lambda>_ n m. Some (m @ replicate 16 0)),
     aes_decrypt = (\<lambda>_ n c. Some (take (length c - 16) c))\<rparr>"

theorem spill_refines_queue_witness:
  "\<exists>e e'. eb_activate (Inr []) () (enable_audit_encryption () eb_new) = (Inr (), e) \<and>
     spill_runs demo_aes [SpillPush (replicate 12 0) ((rec_new 0)\<lparr>rec_level := Audit\<rparr>), SpillDrain, SpillDrain] e =
       Some ([Pushed Written, Recovered [record_to_bytes ((rec_new 0)\<lparr>rec_level := Audit\<rparr>)], Recovered []], e') \<and>
     em_records (eb_stats e') = 1"
proof -
  let ?r = "(rec_new 0)\<lparr>rec_level := Audit\<rparr>" and ?e0 = "enable_audit_encryption () eb_new :: unit emergency_buffer"
  let ?ops = "[SpillPush (replicate 12 0) ?r, SpillDrain, SpillDrain]"
  obtain e where e: "eb_activate (Inr []) () ?e0 = (Inr (), e)" "eb_audit_encryption e" "eb_cipher e = Some ()"
    by (simp add: eb_activate_def enable_audit_encryption_def eb_new_def eb_with_limits_def ensure_cipher_def Let_def)
  have aes: "aes_correct demo_aes" by (simp add: aes_correct_def demo_aes_def)
  have fresh: "\<not> eb_active ?e0" "eb_seen ?e0 = []"
    by (simp_all add: enable_audit_encryption_def eb_new_def eb_with_limits_def)
  have lim: "eb_max_bytes ?e0 = 536870912" "eb_max_records ?e0 = 1000000"
    by (simp_all add: enable_audit_encryption_def eb_new_def eb_with_limits_def
        DEFAULT_EMERGENCY_MAX_BYTES_def DEFAULT_EMERGENCY_MAX_RECORDS_def)
  have "rec_map ?r = Map.empty"
    by (rule ext) (simp add: rec_map_def slots_map_def rec_slots_def rec_new_def kv_empty_def kv_consts)
  then have "rec_audit_tags ?r = []" by (simp add: rec_audit_tags_def rec_kv_get_string_map string_or_default_def)
  moreover have "rs_as_bytes (rec_message ?r) = []" "length (rec_content_hash ?r) = 32" by (simp_all add: rec_new_def)
  ultimately have "length (record_to_bytes ?r) \<le> 104"
    by (simp add: record_to_bytes_def DLOG_def Let_def)
  then have fits: "list_all spill_fits ?ops" by (simp add: spill_fits_def NONCE_LEN_def MAX_SPILLED_def)
  have pay: "payload_of demo_aes e (replicate 12 0) ?r = Some (ENCRYPTED_FLAG # replicate 12 0 @ record_to_bytes ?r @ replicate 16 0)"
    using e(2,3) by (simp add: payload_of_def spill_payload_def demo_aes_def)
  obtain rs s where spec: "spec_runs (unat (eb_max_bytes ?e0)) (unat (eb_max_records ?e0)) (payload_of demo_aes e) ?ops
      \<lparr>sp_pending = [], sp_records = 0, sp_size = 0\<rparr> = (rs, s)" by fastforce
  then have "rs = [Pushed Written, Recovered [record_to_bytes ?r], Recovered []]" "sp_records s = 1"
    using pay lim by auto
  with spill_refines_queue [OF aes fresh e(1) fits _ _ _ spec] lim e(1) show ?thesis by (simp add: MAX_SEEN_def)
qed

section \<open>What recovery loses\<close>

text \<open>A frame longer than a megabyte ends the recovery: it and everything after it stay in the file,
  and the cursor is left inside, where the next spill writes.\<close>

lemma large_record_blocks:
  assumes "MAX_SPILLED < length p" and "length p < 2 ^ 64" and "sf_bytes f = frame p @ rest" and "sf_pos f = 0"
  shows "drain_loop aes cipher f seen = ([], f\<lparr>sf_pos := 8\<rparr>, seen)"
proof -
  have "spill_read 8 f = (Some (le64 (of_nat (length p))), f\<lparr>sf_pos := 8\<rparr>)"
    using spill_read_at [of f "[]" "le64 (of_nat (length p))" "p @ rest"] assms(3,4) by (simp add: frame_def)
  moreover have "unat (of_nat (length p) :: u64) = length p"
    using assms(2) by (simp add: unat_of_nat take_bit_nat_eq_self)
  ultimately show ?thesis using assms(1) by (subst drain_loop.simps) (simp add: Let_def)
qed

text \<open>Two records whose ids agree in the low half are taken for duplicates.\<close>

lemma high_id_ignored:
  "rec_id_lo r' = rec_id_lo r \<Longrightarrow> spill_accept (record_to_bytes r') [rec_id_lo r] = (False, [rec_id_lo r])"
  using record_bytes_shape(1) [of r'] by (simp add: spill_accept_def)

end
