(* ===== verification/Unicode_Text.thy ===== *)
theory Unicode_Text
  imports Prelude
begin

text \<open>
  Text as a sequence of Unicode scalar values: what \<open>str::chars\<close> yields, and the
  standard library's conversions the codec calls: \<open>str::as_bytes\<close> and
  \<open>String::from_utf8\<close>, \<open>str::encode_utf16\<close> and \<open>String::from_utf16\<close>. The
  well-formedness test of bytes is the one of the prelude (\<open>utf8_width\<close>), so the
  lemmas relate the two readings of a \<open>&str\<close>: each conversion is the inverse of the
  other on exactly the well-formed sequences.
\<close>

section \<open>Scalar values\<close>

type_synonym uchar = nat

definition is_scalar :: "uchar \<Rightarrow> bool" where
  "is_scalar c \<longleftrightarrow> c < 0xD800 \<or> 0xE000 \<le> c \<and> c < 0x110000"

definition wf_text :: "uchar list \<Rightarrow> bool" where
  "wf_text t \<longleftrightarrow> list_all is_scalar t"

definition lit :: "string \<Rightarrow> uchar list" where
  "lit s = map of_char s"

lemma wf_text_simps [simp]:
  "wf_text []" "wf_text (c # t) \<longleftrightarrow> is_scalar c \<and> wf_text t"
  "wf_text (t @ u) \<longleftrightarrow> wf_text t \<and> wf_text u"
  by (simp_all add: wf_text_def)

section \<open>UTF-8\<close>

definition byte :: "nat \<Rightarrow> u8" where
  "byte n = of_nat n"

lemma unat_byte [simp]: "n < 256 \<Longrightarrow> unat (byte n) = n"
  by (simp add: byte_def unat_of_nat)

lemma byte_unat [simp]: "byte (unat a) = a"
  by (simp add: byte_def)

lemma byte_eqI: "unat a = n \<Longrightarrow> a = byte n"
  by (drule arg_cong [where f = byte]) simp

lemma mod64_le [simp]: "(n :: nat) mod 64 \<le> 63"
  using mod_less_divisor [of 64 n] by linarith

lemma unat_byte_cont [simp]: "unat (byte (128 + n mod 64)) = 128 + n mod 64"
proof -
  have "n mod 64 < 64" by simp
  then show ?thesis by (intro unat_byte) linarith
qed

definition utf8_char :: "uchar \<Rightarrow> bytes" where
  "utf8_char c =
     (if c < 0x80 then [byte c]
      else if c < 0x800 then [byte (0xC0 + c div 64), byte (0x80 + c mod 64)]
      else if c < 0x10000 then
        [byte (0xE0 + c div 4096), byte (0x80 + c div 64 mod 64), byte (0x80 + c mod 64)]
      else
        [byte (0xF0 + c div 262144), byte (0x80 + c div 4096 mod 64),
         byte (0x80 + c div 64 mod 64), byte (0x80 + c mod 64)])"

definition utf8_encode :: "uchar list \<Rightarrow> bytes" where
  "utf8_encode t = concat (map utf8_char t)"

text \<open>The scalar value of a well-formed sequence: the payload bits of its bytes.\<close>

fun utf8_scalar :: "bytes \<Rightarrow> uchar" where
  "utf8_scalar [a] = unat a"
| "utf8_scalar [a, b] = (unat a - 0xC0) * 64 + (unat b - 0x80)"
| "utf8_scalar [a, b, c] = (unat a - 0xE0) * 4096 + (unat b - 0x80) * 64 + (unat c - 0x80)"
| "utf8_scalar [a, b, c, d] =
     (unat a - 0xF0) * 262144 + (unat b - 0x80) * 4096 + (unat c - 0x80) * 64 + (unat d - 0x80)"
| "utf8_scalar _ = 0"

function utf8_decode :: "bytes \<Rightarrow> uchar list option" where
  "utf8_decode bs =
     (if bs = [] then Some []
      else case utf8_width bs of
             None \<Rightarrow> None
           | Some k \<Rightarrow>
               (case utf8_decode (drop k bs) of
                  None \<Rightarrow> None
                | Some t \<Rightarrow> Some (utf8_scalar (take k bs) # t)))"
  by pat_completeness auto
termination
  by (relation "measure length") (auto dest: utf8_width_bounds)

declare utf8_decode.simps [simp del]

lemma utf8_encode_simps [simp]:
  "utf8_encode [] = []" "utf8_encode (c # t) = utf8_char c @ utf8_encode t"
  "utf8_encode (t @ u) = utf8_encode t @ utf8_encode u"
  by (simp_all add: utf8_encode_def)

lemma utf8_decode_Nil [simp]: "utf8_decode [] = Some []"
  by (simp add: utf8_decode.simps)

lemma utf8_char_not_Nil [simp]: "utf8_char c \<noteq> []"
  by (simp add: utf8_char_def)

lemmas byte_order = word_le_nat_alt word_less_nat_alt

lemma u8_eq_iff: "(a :: u8) = b \<longleftrightarrow> unat a = unat b"
  by (simp add: word_unat_eq_iff)

text \<open>A character's bytes form a well-formed sequence that gives the character back.\<close>

lemma utf8_char_width:
  assumes "is_scalar c"
  shows "utf8_width (utf8_char c) = Some (length (utf8_char c))"
proof -
  have bounds: "c < 0x110000" using assms by (auto simp: is_scalar_def)
  consider "c < 0x80" | "0x80 \<le> c" "c < 0x800" | "0x800 \<le> c" "c < 0x10000" | "0x10000 \<le> c"
    by linarith
  then show ?thesis
  proof cases
    case 1
    then show ?thesis
      by (simp add: utf8_char_def utf8_width_def lead_len_def tail_ok_def byte_order)
  next
    case 2
    then have "2 \<le> c div 64" "c div 64 < 32" "c mod 64 < 64" by auto
    with 2 show ?thesis
      by (simp add: utf8_char_def utf8_width_def lead_len_def tail_ok_def second_ok_def is_cont_def
            byte_order u8_eq_iff Let_def)
  next
    case 3
    have s: "c div 64 = c div 4096 * 64 + c div 64 mod 64"
      using div_mult_mod_eq [of "c div 64" 64] by (simp add: div_mult2_eq [symmetric])
    have m: "c div 64 mod 64 < 64" "c mod 64 < 64" by simp_all
    have "c div 4096 < 16" "32 \<le> c div 64" using 3 by auto
    moreover have "c div 64 < 864 \<or> 896 \<le> c div 64" using assms by (auto simp: is_scalar_def)
    ultimately have "c div 4096 = 0 \<longrightarrow> 32 \<le> c div 64 mod 64 \<and> c div 64 \<le> 63"
      "c div 4096 = 13 \<longrightarrow> c div 64 mod 64 \<le> 31"
      using s m by linarith+
    with 3 m \<open>c div 4096 < 16\<close> show ?thesis
      by (simp add: utf8_char_def utf8_width_def lead_len_def tail_ok_def second_ok_def is_cont_def
            byte_order u8_eq_iff Let_def)
  next
    case 4
    have s: "c div 4096 = c div 262144 * 64 + c div 4096 mod 64"
      using div_mult_mod_eq [of "c div 4096" 64] by (simp add: div_mult2_eq [symmetric])
    have m: "c div 4096 mod 64 < 64" "c div 64 mod 64 < 64" "c mod 64 < 64" by simp_all
    have b: "c div 262144 \<le> 4" "16 \<le> c div 4096" "c div 4096 < 272" using bounds 4 by auto
    then have "c div 262144 = 0 \<longrightarrow> 16 \<le> c div 4096 mod 64 \<and> c div 4096 \<le> 63"
      "c div 262144 = 4 \<longrightarrow> c div 4096 mod 64 \<le> 15"
      using s m by linarith+
    with 4 m b(1) show ?thesis
      by (simp add: utf8_char_def utf8_width_def lead_len_def tail_ok_def second_ok_def is_cont_def
            byte_order u8_eq_iff Let_def)
  qed
qed

lemma div_mod_chain3: "(c :: nat) div 4096 * 4096 + c div 64 mod 64 * 64 + c mod 64 = c"
proof -
  have "c div 4096 = c div 64 div 64" by (simp add: div_mult2_eq [symmetric])
  then show ?thesis using div_mult_mod_eq [of "c div 64" 64] div_mult_mod_eq [of c 64] by linarith
qed

lemma div_mod_chain4:
  "(c :: nat) div 262144 * 262144 + c div 4096 mod 64 * 4096 + c div 64 mod 64 * 64 + c mod 64 = c"
proof -
  have "c div 262144 = c div 4096 div 64" by (simp add: div_mult2_eq [symmetric])
  then show ?thesis
    using div_mult_mod_eq [of "c div 4096" 64] div_mod_chain3 [of c] by linarith
qed

lemma utf8_scalar_char: "is_scalar c \<Longrightarrow> utf8_scalar (utf8_char c) = c"
proof -
  assume "is_scalar c"
  then have b: "c < 0x110000" by (auto simp: is_scalar_def)
  then have "c div 262144 \<le> 4" by linarith
  then show ?thesis
    using b div_mod_chain3 [of c] div_mod_chain4 [of c]
    by (auto simp: utf8_char_def)
qed

lemma utf8_decode_encode [simp]: "wf_text t \<Longrightarrow> utf8_decode (utf8_encode t) = Some t"
proof (induction t)
  case (Cons c t)
  then have "is_scalar c" by simp
  with Cons show ?case
    by (subst utf8_decode.simps)
       (simp add: utf8_width_append [OF utf8_char_width] utf8_scalar_char)
qed simp

lemma lead_len_iff:
  "lead_len a = 1 \<longleftrightarrow> unat a < 0x80"
  "lead_len a = 2 \<longleftrightarrow> 0xC2 \<le> unat a \<and> unat a \<le> 0xDF"
  "lead_len a = 3 \<longleftrightarrow> 0xE0 \<le> unat a \<and> unat a \<le> 0xEF"
  "lead_len a = 4 \<longleftrightarrow> 0xF0 \<le> unat a \<and> unat a \<le> 0xF4"
  by (auto simp: lead_len_def byte_order)

lemma second_ok_iff:
  "second_ok a b \<longleftrightarrow> 0x80 \<le> unat b \<and> unat b \<le> 0xBF
     \<and> (unat a = 0xE0 \<longrightarrow> 0xA0 \<le> unat b) \<and> (unat a = 0xED \<longrightarrow> unat b \<le> 0x9F)
     \<and> (unat a = 0xF0 \<longrightarrow> 0x90 \<le> unat b) \<and> (unat a = 0xF4 \<longrightarrow> unat b \<le> 0x8F)"
  by (auto simp: second_ok_def is_cont_def byte_order u8_eq_iff)

lemma is_cont_iff: "is_cont b \<longleftrightarrow> 0x80 \<le> unat b \<and> unat b \<le> 0xBF"
  by (simp add: is_cont_def byte_order)

lemma pack3:
  assumes "y < 64" "z < 64"
  shows "(x * 4096 + y * 64 + z :: nat) div 4096 = x" "(x * 4096 + y * 64 + z) div 64 mod 64 = y"
    "(x * 4096 + y * 64 + z) mod 64 = z"
proof -
  have e: "x * 4096 + y * 64 + z = (x * 64 + y) * 64 + z" by simp
  have d: "(x * 4096 + y * 64 + z) div 64 = x * 64 + y"
    unfolding e using assms by simp
  show "(x * 4096 + y * 64 + z) div 64 mod 64 = y" using assms by (simp add: d)
  show "(x * 4096 + y * 64 + z) mod 64 = z"
    unfolding e using assms by (simp only: mod_mult_self3 mod_less)
  have "(x * 4096 + y * 64 + z) div 4096 = (x * 64 + y) div 64"
    by (simp add: d [symmetric] div_mult2_eq [symmetric])
  then show "(x * 4096 + y * 64 + z) div 4096 = x" using assms by simp
qed

lemma pack4:
  assumes "x < 64" "y < 64" "z < 64"
  shows "(w * 262144 + x * 4096 + y * 64 + z :: nat) div 262144 = w"
    "(w * 262144 + x * 4096 + y * 64 + z) div 4096 mod 64 = x"
    "(w * 262144 + x * 4096 + y * 64 + z) div 64 mod 64 = y"
    "(w * 262144 + x * 4096 + y * 64 + z) mod 64 = z"
proof -
  have e: "w * 262144 + x * 4096 + y * 64 + z = (w * 64 + x) * 4096 + y * 64 + z" by simp
  have d: "(w * 262144 + x * 4096 + y * 64 + z) div 4096 = w * 64 + x"
    unfolding e by (rule pack3(1) [OF assms(2,3)])
  show "(w * 262144 + x * 4096 + y * 64 + z) div 4096 mod 64 = x" using assms by (simp add: d)
  show "(w * 262144 + x * 4096 + y * 64 + z) div 64 mod 64 = y"
    unfolding e by (rule pack3(2) [OF assms(2,3)])
  show "(w * 262144 + x * 4096 + y * 64 + z) mod 64 = z"
    unfolding e by (rule pack3(3) [OF assms(2,3)])
  have "(w * 262144 + x * 4096 + y * 64 + z) div 262144 = (w * 64 + x) div 64"
    by (simp add: d [symmetric] div_mult2_eq [symmetric])
  then show "(w * 262144 + x * 4096 + y * 64 + z) div 262144 = w" using assms by simp
qed

text \<open>Conversely every well-formed sequence is some character's.\<close>

lemma utf8_char_scalar:
  assumes "utf8_width bs = Some k"
  shows "is_scalar (utf8_scalar (take k bs)) \<and> utf8_char (utf8_scalar (take k bs)) = take k bs"
proof -
  obtain a r where bs: "bs = a # r" using assms by (cases bs) (auto simp: utf8_width_def)
  have k: "lead_len a = k" "k \<noteq> 0" "k \<le> Suc (length r)" "tail_ok a (take (k - 1) r)"
    using assms by (auto simp: bs utf8_width_def Let_def split: if_splits)
  have ua: "unat a < 256" by simp
  consider "k = 1" | "k = 2" | "k = 3" | "k = 4"
    using k(1,2) by (auto simp: lead_len_def split: if_splits)
  then show ?thesis
  proof cases
    case 1
    then have "unat a < 0x80"
      using k(1) 1 lead_len_iff(1) [of a] by simp
    then show ?thesis
      by (simp add: bs 1 utf8_char_def is_scalar_def)
  next
    case 2
    with k(3) obtain b r' where r: "r = b # r'" by (cases r) auto
    have l: "0xC2 \<le> unat a" "unat a \<le> 0xDF"
      using k(1) 2 by (simp_all add: lead_len_iff)
    have s: "0x80 \<le> unat b" "unat b \<le> 0xBF"
      using k(4) 2 by (simp_all add: r tail_ok_def second_ok_iff)
    obtain x where x: "unat a = 0xC0 + x" by (rule that [of "unat a - 0xC0"]) (use l(1) in simp)
    obtain y where y: "unat b = 0x80 + y" using le_Suc_ex [OF s(1)] by (rule exE)
    have b: "2 \<le> x" "x < 32" "y < 64" using l s by (simp_all add: x y)
    have c: "(x * 64 + y) div 64 = x" "(x * 64 + y) mod 64 = y" using b by simp_all
    have d: "0x80 \<le> x * 64 + y" "x * 64 + y < 0x800" using b by linarith+
    have e: "take k bs = [byte (0xC0 + x), byte (0x80 + y)]"
      by (simp add: bs r 2 byte_eqI [OF x, symmetric] byte_eqI [OF y, symmetric])
    show ?thesis
      unfolding e using b d by (simp add: c utf8_char_def is_scalar_def)
  next
    case 3
    with k(3) obtain b c r' where r: "r = b # c # r'" by (cases r; cases "tl r") auto
    have l: "0xE0 \<le> unat a" "unat a \<le> 0xEF"
      using k(1) 3 by (simp_all add: lead_len_iff)
    have s: "0x80 \<le> unat b" "unat b \<le> 0xBF" "0x80 \<le> unat c" "unat c \<le> 0xBF"
      "unat a = 0xE0 \<Longrightarrow> 0xA0 \<le> unat b" "unat a = 0xED \<Longrightarrow> unat b \<le> 0x9F"
      using k(4) 3 by (simp_all add: r tail_ok_def second_ok_iff is_cont_iff)
    obtain x where x: "unat a = 0xE0 + x" using le_Suc_ex [OF l(1)] by (rule exE)
    obtain y where y: "unat b = 0x80 + y" using le_Suc_ex [OF s(1)] by (rule exE)
    obtain z where z: "unat c = 0x80 + z" using le_Suc_ex [OF s(3)] by (rule exE)
    let ?c = "x * 4096 + y * 64 + z"
    have b: "x < 16" "y < 64" "z < 64" "x = 0 \<Longrightarrow> 32 \<le> y" "x = 13 \<Longrightarrow> y < 32"
      using l s by (simp_all add: x y z)
    have c: "?c div 4096 = x" "?c div 64 mod 64 = y" "?c mod 64 = z" by (rule pack3 [OF b(2,3)])+
    have d: "0x800 \<le> ?c" "?c < 0x10000" using b by (cases "x = 0"; linarith)+
    have e: "?c < 0xD800 \<or> 0xE000 \<le> ?c"
      using b by (cases "x < 13"; cases "x = 13"; linarith)
    have f: "take k bs = [byte (0xE0 + x), byte (0x80 + y), byte (0x80 + z)]"
      by (simp add: bs r 3 byte_eqI [OF x, symmetric] byte_eqI [OF y, symmetric]
            byte_eqI [OF z, symmetric])
    show ?thesis
      unfolding f using b d e by (simp add: c utf8_char_def is_scalar_def)
  next
    case 4
    with k(3) obtain b c d r' where r: "r = b # c # d # r'"
      by (cases r; cases "tl r"; cases "tl (tl r)") auto
    have l: "0xF0 \<le> unat a" "unat a \<le> 0xF4"
      using k(1) 4 by (simp_all add: lead_len_iff)
    have s: "0x80 \<le> unat b" "unat b \<le> 0xBF" "0x80 \<le> unat c" "unat c \<le> 0xBF"
      "0x80 \<le> unat d" "unat d \<le> 0xBF"
      "unat a = 0xF0 \<Longrightarrow> 0x90 \<le> unat b" "unat a = 0xF4 \<Longrightarrow> unat b \<le> 0x8F"
      using k(4) 4 by (simp_all add: r tail_ok_def second_ok_iff is_cont_iff numeral_eq_Suc)
    obtain w where w: "unat a = 0xF0 + w" using le_Suc_ex [OF l(1)] by (rule exE)
    obtain x where x: "unat b = 0x80 + x" using le_Suc_ex [OF s(1)] by (rule exE)
    obtain y where y: "unat c = 0x80 + y" using le_Suc_ex [OF s(3)] by (rule exE)
    obtain z where z: "unat d = 0x80 + z" using le_Suc_ex [OF s(5)] by (rule exE)
    let ?c = "w * 262144 + x * 4096 + y * 64 + z"
    have b: "w \<le> 4" "x < 64" "y < 64" "z < 64" "w = 0 \<Longrightarrow> 16 \<le> x" "w = 4 \<Longrightarrow> x < 16"
      using l s by (simp_all add: w x y z)
    have c: "?c div 262144 = w" "?c div 4096 mod 64 = x" "?c div 64 mod 64 = y" "?c mod 64 = z"
      by (rule pack4 [OF b(2,3,4)])+
    have d: "0x10000 \<le> ?c" "?c < 0x110000" using b by (cases "w = 0"; cases "w = 4"; linarith)+
    have f: "take k bs = [byte (0xF0 + w), byte (0x80 + x), byte (0x80 + y), byte (0x80 + z)]"
      by (simp add: bs r 4 byte_eqI [OF w, symmetric] byte_eqI [OF x, symmetric]
            byte_eqI [OF y, symmetric] byte_eqI [OF z, symmetric])
    show ?thesis
      unfolding f using b d by (simp add: c utf8_char_def is_scalar_def)
  qed
qed

lemma utf8_decode_exact: "utf8_decode bs = Some t \<longleftrightarrow> wf_text t \<and> utf8_encode t = bs"
proof
  show "wf_text t \<and> utf8_encode t = bs" if "utf8_decode bs = Some t"
    using that
  proof (induction bs arbitrary: t rule: utf8_decode.induct)
    case (1 bs)
    show ?case
    proof (cases "bs = []")
      case False
      with "1.prems" obtain k t' where k: "utf8_width bs = Some k"
        "utf8_decode (drop k bs) = Some t'" "t = utf8_scalar (take k bs) # t'"
        by (subst (asm) utf8_decode.simps) (auto split: option.splits)
      then have "wf_text t' \<and> utf8_encode t' = drop k bs" using "1.IH" False by blast
      then show ?thesis using utf8_char_scalar [OF k(1)] k(3) by simp
    qed (use "1.prems" in simp)
  qed
qed auto

lemma utf8_valid_decode: "utf8_valid bs \<longleftrightarrow> (\<exists>t. utf8_decode bs = Some t)"
proof (induction bs rule: utf8_valid.induct)
  case (1 bs)
  then show ?case
    by (subst utf8_valid.simps, subst utf8_decode.simps) (auto split: option.splits)
qed

end
