(* ===== verification/Text_Codec.thy ===== *)
theory Text_Codec
  imports Unicode_Text
begin

text \<open>
  \<open>core/src/codec/mod.rs\<close>: encoding and decoding text at an input or output boundary,
  the explicit input detection, and the locale parsing behind the output detection. The
  Windows conversion calls are a parameter (\<open>win32\<close>), absent on the other platforms,
  where every code page is unsupported; so are the environment and the console's code
  page. The theorem is that the two Unicode forms are exact: decoding accepts precisely
  the encodings of texts.
\<close>

section \<open>Encodings, errors\<close>

datatype text_encoding = Utf8 | Utf16Le | Utf16Be | CodePage u32

datatype encoding_error =
    InvalidCodePageErr u32
  | InvalidBytes
  | UnsupportedEncoding text_encoding
  | LossyConversion

definition debug_encoding :: "text_encoding \<Rightarrow> string" where
  "debug_encoding enc =
     (case enc of
        Utf8 \<Rightarrow> ''Utf8''
      | Utf16Le \<Rightarrow> ''Utf16Le''
      | Utf16Be \<Rightarrow> ''Utf16Be''
      | CodePage cp \<Rightarrow> ''CodePage('' @ dec (unat cp) @ '')'')"

definition invalid_code_page_text :: "u32 \<Rightarrow> string" where
  "invalid_code_page_text cp = ''invalid code page: '' @ dec (unat cp)"

definition encoding_error_text :: "encoding_error \<Rightarrow> string" where
  "encoding_error_text e =
     (case e of
        InvalidCodePageErr cp \<Rightarrow> invalid_code_page_text cp
      | InvalidBytes \<Rightarrow> ''invalid encoded bytes''
      | UnsupportedEncoding enc \<Rightarrow> ''unsupported encoding: '' @ debug_encoding enc
      | LossyConversion \<Rightarrow> ''lossy encoding conversion rejected'')"

definition validate_code_page :: "u32 \<Rightarrow> u32 + unit" where
  "validate_code_page cp = (if cp = 0 \<or> 65535 < cp then Inl cp else Inr ())"

section \<open>UTF-16\<close>

definition unit16 :: "nat \<Rightarrow> u16" where
  "unit16 n = of_nat n"

definition utf16_char :: "uchar \<Rightarrow> u16 list" where
  "utf16_char c =
     (if c < 0x10000 then [unit16 c]
      else [unit16 (0xD800 + (c - 0x10000) div 1024), unit16 (0xDC00 + (c - 0x10000) mod 1024)])"

definition encode_utf16 :: "uchar list \<Rightarrow> u16 list" where
  "encode_utf16 t = concat (map utf16_char t)"

definition high_surrogate :: "nat \<Rightarrow> bool" where
  "high_surrogate n \<longleftrightarrow> 0xD800 \<le> n \<and> n < 0xDC00"

definition low_surrogate :: "nat \<Rightarrow> bool" where
  "low_surrogate n \<longleftrightarrow> 0xDC00 \<le> n \<and> n < 0xE000"

fun from_utf16 :: "u16 list \<Rightarrow> uchar list option" where
  "from_utf16 [] = Some []"
| "from_utf16 (u # us) =
     (if high_surrogate (unat u) then
        (case us of
           [] \<Rightarrow> None
         | v # vs \<Rightarrow>
             if low_surrogate (unat v) then
               map_option (Cons (0x10000 + (unat u - 0xD800) * 1024 + (unat v - 0xDC00)))
                 (from_utf16 vs)
             else None)
      else if low_surrogate (unat u) then None
      else map_option (Cons (unat u)) (from_utf16 us))"

text \<open>\<open>u16::to_le_bytes\<close>, \<open>u16::to_be_bytes\<close>, and \<open>chunks_exact(2)\<close> read back.\<close>

definition unit_bytes :: "bool \<Rightarrow> u16 \<Rightarrow> bytes" where
  "unit_bytes little u = (if little then le16 u else rev (le16 u))"

definition unit_of :: "bool \<Rightarrow> u8 \<Rightarrow> u8 \<Rightarrow> u16" where
  "unit_of little a b = (if little then u16_of [a, b] else u16_of [b, a])"

fun units_of :: "bool \<Rightarrow> bytes \<Rightarrow> u16 list" where
  "units_of little (a # b # bs) = unit_of little a b # units_of little bs"
| "units_of little _ = []"

definition decode_utf16 :: "bytes \<Rightarrow> bool \<Rightarrow> encoding_error + uchar list" where
  "decode_utf16 bs little =
     (if length bs mod 2 \<noteq> 0 then Inl InvalidBytes
      else ok_or (from_utf16 (units_of little bs)) InvalidBytes)"

section \<open>Windows code pages\<close>

text \<open>
  The two Win32 calls as the code makes them: a query for the size (an \<open>i32\<close>), then the
  conversion into a buffer of that size, which reports how much it wrote, the buffer, and
  whether a default character was used. The input's length crosses as an \<open>i32\<close>.
\<close>

record win32 =
  wide_query :: "u32 \<Rightarrow> u16 list \<Rightarrow> int \<Rightarrow> int"
  wide_convert :: "u32 \<Rightarrow> u16 list \<Rightarrow> int \<Rightarrow> nat \<Rightarrow> int \<times> bytes \<times> int"
  multi_query :: "u32 \<Rightarrow> bytes \<Rightarrow> int \<Rightarrow> int"
  multi_convert :: "u32 \<Rightarrow> bytes \<Rightarrow> int \<Rightarrow> nat \<Rightarrow> int \<times> u16 list"

type_synonym platform = "win32 option"

definition as_i32 :: "nat \<Rightarrow> int" where
  "as_i32 n = sint (of_nat n :: 32 word)"

definition encode_code_page :: "platform \<Rightarrow> uchar list \<Rightarrow> u32 \<Rightarrow> encoding_error + bytes" where
  "encode_code_page pf t cp =
     (case validate_code_page cp of
        Inl bad \<Rightarrow> Inl (InvalidCodePageErr bad)
      | Inr _ \<Rightarrow>
          (case pf of
             None \<Rightarrow> Inl (UnsupportedEncoding (CodePage cp))
           | Some w \<Rightarrow>
               (let wide = encode_utf16 t;
                    len = as_i32 (length wide);
                    sz = wide_query w cp wide len in
                if sz \<le> 0 then Inl (UnsupportedEncoding (CodePage cp))
                else
                  (let (written, buf, used) = wide_convert w cp wide len (nat sz) in
                   if written \<le> 0 then Inl InvalidBytes
                   else if used \<noteq> 0 then Inl LossyConversion
                   else Inr (take (nat written) buf)))))"

definition decode_code_page :: "platform \<Rightarrow> bytes \<Rightarrow> u32 \<Rightarrow> encoding_error + uchar list" where
  "decode_code_page pf bs cp =
     (case validate_code_page cp of
        Inl bad \<Rightarrow> Inl (InvalidCodePageErr bad)
      | Inr _ \<Rightarrow>
          (case pf of
             None \<Rightarrow> Inl (UnsupportedEncoding (CodePage cp))
           | Some w \<Rightarrow>
               (let len = as_i32 (length bs);
                    sz = multi_query w cp bs len in
                if sz \<le> 0 then Inl InvalidBytes
                else
                  (let (written, wide) = multi_convert w cp bs len (nat sz) in
                   if written \<le> 0 then Inl InvalidBytes
                   else ok_or (from_utf16 (take (nat written) wide)) InvalidBytes))))"

section \<open>Encode, decode\<close>

definition encode :: "platform \<Rightarrow> uchar list \<Rightarrow> text_encoding \<Rightarrow> encoding_error + bytes" where
  "encode pf t enc =
     (case enc of
        Utf8 \<Rightarrow> Inr (utf8_encode t)
      | Utf16Le \<Rightarrow> Inr (concat (map (unit_bytes True) (encode_utf16 t)))
      | Utf16Be \<Rightarrow> Inr (concat (map (unit_bytes False) (encode_utf16 t)))
      | CodePage cp \<Rightarrow> encode_code_page pf t cp)"

definition decode :: "platform \<Rightarrow> bytes \<Rightarrow> text_encoding \<Rightarrow> encoding_error + uchar list" where
  "decode pf bs enc =
     (case enc of
        Utf8 \<Rightarrow> ok_or (utf8_decode bs) InvalidBytes
      | Utf16Le \<Rightarrow> decode_utf16 bs True
      | Utf16Be \<Rightarrow> decode_utf16 bs False
      | CodePage cp \<Rightarrow> decode_code_page pf bs cp)"

section \<open>Input detection\<close>

datatype detected_input = DetUtf8 | DetUtf16Le | DetUtf16Be | DetCodePage u32

definition as_text_encoding :: "detected_input \<Rightarrow> text_encoding" where
  "as_text_encoding d =
     (case d of
        DetUtf8 \<Rightarrow> Utf8 | DetUtf16Le \<Rightarrow> Utf16Le | DetUtf16Be \<Rightarrow> Utf16Be
      | DetCodePage cp \<Rightarrow> CodePage cp)"

datatype auto_detection_error = AutoUnknown | AutoAmbiguous "u32 list" | AutoInvalidBom

fun debug_pages :: "u32 list \<Rightarrow> string" where
  "debug_pages [] = []"
| "debug_pages [cp] = dec (unat cp)"
| "debug_pages (cp # cps) = dec (unat cp) @ '', '' @ debug_pages cps"

definition auto_detection_error_text :: "auto_detection_error \<Rightarrow> string" where
  "auto_detection_error_text e =
     (case e of
        AutoUnknown \<Rightarrow> ''input encoding is not uniquely detectable''
      | AutoAmbiguous cps \<Rightarrow> ''input encoding is ambiguous: ['' @ debug_pages cps @ '']''
      | AutoInvalidBom \<Rightarrow> ''input encoding BOM is invalid'')"

fun zero_pairs :: "bool \<Rightarrow> bytes \<Rightarrow> nat" where
  "zero_pairs little (a # b # bs) =
     (if (if little then b = 0 \<and> a \<noteq> 0 else a = 0 \<and> b \<noteq> 0) then 1 else 0)
     + zero_pairs little bs"
| "zero_pairs little _ = 0"

definition has_utf16_shape :: "bytes \<Rightarrow> bool \<Rightarrow> bool" where
  "has_utf16_shape bs little \<longleftrightarrow>
     \<not> (length bs < 4 \<or> length bs mod 2 \<noteq> 0)
     \<and> length bs div 2 \<le> zero_pairs little bs * 2"

definition utf16_candidates :: "bytes \<Rightarrow> detected_input list" where
  "utf16_candidates bs =
     (if has_utf16_shape bs True \<and> is_ok (decode_utf16 bs True) then [DetUtf16Le] else [])
     @ (if has_utf16_shape bs False \<and> is_ok (decode_utf16 bs False) then [DetUtf16Be] else [])"

definition decoded_code_pages :: "platform \<Rightarrow> bytes \<Rightarrow> u32 list \<Rightarrow> u32 list" where
  "decoded_code_pages pf bs cps =
     filter (\<lambda>cp. is_ok (validate_code_page cp) \<and> is_ok (decode_code_page pf bs cp)) cps"

definition detect_input ::
  "platform \<Rightarrow> bytes \<Rightarrow> u32 list \<Rightarrow> auto_detection_error + detected_input" where
  "detect_input pf bs cps =
     (if starts_with [0xFF, 0xFE] bs then
        (if is_ok (decode_utf16 (drop 2 bs) True) then Inr DetUtf16Le else Inl AutoInvalidBom)
      else if starts_with [0xFE, 0xFF] bs then
        (if is_ok (decode_utf16 (drop 2 bs) False) then Inr DetUtf16Be else Inl AutoInvalidBom)
      else if utf8_valid bs then Inr DetUtf8
      else
        (case utf16_candidates bs of
           [d] \<Rightarrow> Inr d
         | _ # _ # _ \<Rightarrow> Inl AutoUnknown
         | [] \<Rightarrow>
             (case decoded_code_pages pf bs cps of
                [cp] \<Rightarrow> Inr (DetCodePage cp)
              | [] \<Rightarrow> Inl AutoUnknown
              | candidates \<Rightarrow> Inl (AutoAmbiguous candidates))))"

section \<open>Output detection\<close>

record encoding_detection =
  det_locale :: "uchar list option"
  det_codeset :: "uchar list option"
  det_console :: "u32 option"

text \<open>\<open>char::is_whitespace\<close>, \<open>str::trim\<close>, \<open>str::to_ascii_lowercase\<close>.\<close>

definition is_white :: "uchar \<Rightarrow> bool" where
  "is_white c \<longleftrightarrow>
     9 \<le> c \<and> c \<le> 13 \<or> c \<in> {0x20, 0x85, 0xA0, 0x1680, 0x2028, 0x2029, 0x202F, 0x205F, 0x3000}
     \<or> 0x2000 \<le> c \<and> c \<le> 0x200A"

definition trim_text :: "uchar list \<Rightarrow> uchar list" where
  "trim_text t = rev (dropWhile is_white (rev (dropWhile is_white t)))"

definition ascii_lower :: "uchar list \<Rightarrow> uchar list" where
  "ascii_lower t = map (\<lambda>c. if 65 \<le> c \<and> c \<le> 90 then c + 32 else c) t"

definition parse_page :: "uchar list \<Rightarrow> u32 option" where
  "parse_page t =
     (case parse_unsigned (2 ^ 32 - 1) (bytes_str (utf8_encode t)) of
        Some n \<Rightarrow> if is_ok (validate_code_page (of_nat n)) then Some (of_nat n) else None
      | None \<Rightarrow> None)"

definition parse_code_page :: "uchar list \<Rightarrow> u32 option" where
  "parse_code_page codeset =
     (let v = ascii_lower (trim_text codeset) in
      if v \<in> {lit ''utf8'', lit ''utf-8''} then Some 65001
      else if v \<in> {lit ''ascii'', lit ''us-ascii''} then Some 20127
      else if v \<in> {lit ''gbk'', lit ''gb2312'', lit ''cp936'', lit ''windows-936''} then Some 936
      else if v \<in> {lit ''big5'', lit ''cp950'', lit ''windows-950''} then Some 950
      else if v \<in> {lit ''shift_jis'', lit ''shift-jis'', lit ''cp932'', lit ''windows-932''}
      then Some 932
      else if v \<in> {lit ''cp437'', lit ''ibm437''} then Some 437
      else if starts_with (lit ''cp'') v then parse_page (drop 2 v)
      else if starts_with (lit ''windows-'') v then parse_page (drop 8 v)
      else None)"

text \<open>\<open>value.split('@').next()\<close>, then the two parts around the first dot.\<close>

definition parse_locale_value :: "uchar list \<Rightarrow> uchar list option \<times> uchar list option" where
  "parse_locale_value v =
     (let v' = takeWhile (\<lambda>c. c \<noteq> 0x40) v;
          loc = takeWhile (\<lambda>c. c \<noteq> 0x2E) v';
          tail = dropWhile (\<lambda>c. c \<noteq> 0x2E) v' in
      (if loc = [] then None else Some (map (\<lambda>c. if c = 0x5F then 0x2D else c) loc),
       case tail of [] \<Rightarrow> None | _ # codeset \<Rightarrow> Some codeset))"

fun first_var :: "(string \<Rightarrow> uchar list option) \<Rightarrow> string list \<Rightarrow> uchar list option" where
  "first_var env [] = None"
| "first_var env (n # ns) = (case env n of Some v \<Rightarrow> Some v | None \<Rightarrow> first_var env ns)"

definition detect :: "(string \<Rightarrow> uchar list option) \<Rightarrow> u32 option \<Rightarrow> encoding_detection" where
  "detect env console =
     (let (loc, cs) =
        (case first_var env [''DOLOGGER_LOCALE'', ''LC_ALL'', ''LC_MESSAGES'', ''LANG''] of
           Some raw \<Rightarrow> parse_locale_value raw
         | None \<Rightarrow> (None, None)) in
      \<lparr>det_locale = loc, det_codeset = cs, det_console = console\<rparr>)"

section \<open>Exactness of the Unicode forms\<close>

lemma unat_unit16 [simp]: "n < 65536 \<Longrightarrow> unat (unit16 n) = n"
  by (simp add: unit16_def unat_of_nat)

lemma unit16_unat [simp]: "unit16 (unat u) = u"
  by (simp add: unit16_def)

lemma unat_u16_less: "unat (u :: u16) < 65536"
  using unat_bound [of u] by simp

lemma encode_utf16_simps [simp]:
  "encode_utf16 [] = []" "encode_utf16 (c # t) = utf16_char c @ encode_utf16 t"
  by (simp_all add: encode_utf16_def)

lemma from_utf16_char:
  assumes "is_scalar c"
  shows "from_utf16 (utf16_char c @ us) = map_option (Cons c) (from_utf16 us)"
proof (cases "c < 0x10000")
  case True
  with assms show ?thesis
    by (auto simp: utf16_char_def is_scalar_def high_surrogate_def low_surrogate_def)
next
  case False
  let ?h = "(c - 0x10000) div 1024" and ?l = "(c - 0x10000) mod 1024"
  have "c < 0x110000" using assms by (auto simp: is_scalar_def)
  then have h: "?h < 1024" and l: "?l < 1024" by auto
  have s: "0x10000 + ?h * 1024 + ?l = c" using False by simp
  have u: "unat (unit16 (0xD800 + ?h)) = 0xD800 + ?h" "unat (unit16 (0xDC00 + ?l)) = 0xDC00 + ?l"
    using h l by (intro unat_unit16; linarith)+
  have k: "high_surrogate (0xD800 + ?h)" "low_surrogate (0xDC00 + ?l)"
    using h l by (simp_all add: high_surrogate_def low_surrogate_def)
  have "utf16_char c = [unit16 (0xD800 + ?h), unit16 (0xDC00 + ?l)]"
    using False by (simp add: utf16_char_def)
  then show ?thesis
    using k s by (simp only: append.simps from_utf16.simps u list.case if_True add_diff_cancel_left')
qed

lemma from_utf16_encode: "wf_text t \<Longrightarrow> from_utf16 (encode_utf16 t) = Some t"
  by (induction t) (simp_all add: from_utf16_char)

lemma surrogate_pair:
  assumes "high_surrogate (unat u)" "low_surrogate (unat v)"
    and c: "c = 0x10000 + (unat u - 0xD800) * 1024 + (unat v - 0xDC00)"
  shows "is_scalar c \<and> utf16_char c = [u, v]"
proof -
  let ?h = "unat u - 0xD800" and ?l = "unat v - 0xDC00"
  have h: "?h < 1024" "0xD800 + ?h = unat u" and l: "?l < 1024" "0xDC00 + ?l = unat v"
    using assms(1,2) unfolding high_surrogate_def low_surrogate_def by linarith+
  have "c - 0x10000 = ?h * 1024 + ?l" by (simp add: c)
  then have "(c - 0x10000) div 1024 = ?h" "(c - 0x10000) mod 1024 = ?l"
    using l(1) by (simp_all only: mod_mult_self3 mod_less div_mult_self3)
  then have "utf16_char c = [u, v]" using h(2) l(2) by (simp add: utf16_char_def c)
  moreover have "0x10000 \<le> c" "c < 0x110000" using h l by (simp_all add: c)
  ultimately show ?thesis by (simp add: is_scalar_def)
qed

lemma from_utf16_exact: "from_utf16 us = Some t \<longleftrightarrow> wf_text t \<and> encode_utf16 t = us"
proof
  show "wf_text t \<and> encode_utf16 t = us" if "from_utf16 us = Some t"
    using that
  proof (induction us arbitrary: t rule: from_utf16.induct)
    case (2 u us)
    show ?case
    proof (cases "high_surrogate (unat u)")
      case True
      with "2.prems" obtain v vs t' where v: "us = v # vs" "low_surrogate (unat v)"
        "from_utf16 vs = Some t'"
        "t = (0x10000 + (unat u - 0xD800) * 1024 + (unat v - 0xDC00)) # t'"
        by (auto split: list.splits if_splits)
      then show ?thesis
        using "2.IH"(1) [OF True v(1,2,3)] surrogate_pair [OF True v(2) refl] by simp
    next
      case False
      with "2.prems" obtain t' where t': "\<not> low_surrogate (unat u)" "from_utf16 us = Some t'"
        "t = unat u # t'"
        by (auto split: if_splits)
      moreover have "is_scalar (unat u)"
        using False t'(1) unat_u16_less [of u]
        by (auto simp: is_scalar_def high_surrogate_def low_surrogate_def)
      ultimately show ?thesis
        using "2.IH"(2) [OF False t'(1,2)] unat_u16_less [of u] by (simp add: utf16_char_def)
    qed
  qed simp
qed (auto simp: from_utf16_encode)

lemma le16_pair: "le16 u = [of_nat (unat u mod 256), of_nat (unat u div 256)]"
  using unat_u16_less [of u] by (simp add: le16_def numeral_2_eq_2)

lemma units_of_bytes: "units_of little (concat (map (unit_bytes little) us)) = us"
proof (induction us)
  case (Cons u us)
  have "u16_of [of_nat (unat u mod 256), of_nat (unat u div 256)] = u"
    unfolding le16_pair [symmetric] by (simp add: le_simps)
  with Cons show ?case by (cases little) (simp_all add: unit_bytes_def unit_of_def le16_pair)
qed simp

lemma bytes_of_units:
  "length bs mod 2 = 0 \<Longrightarrow> concat (map (unit_bytes little) (units_of little bs)) = bs"
proof (induction little bs rule: units_of.induct)
  case (1 little a b bs)
  have "le16 (u16_of [x, y]) = [x, y]" for x y
    using from_le_bound [of "[x, y]"] to_le_from_le [of "[x, y]" 2]
    unfolding le16_def u16_of_def by (simp add: unat_of_nat del: from_le.simps)
  with 1 show ?case by (cases little) (simp_all add: unit_bytes_def unit_of_def)
qed simp_all

lemma unit_bytes_even: "length (concat (map (unit_bytes little) us)) mod 2 = 0"
  by (cases little; induction us) (simp_all add: unit_bytes_def)

lemma decode_utf16_exact:
  "decode_utf16 bs little = Inr t
     \<longleftrightarrow> wf_text t \<and> concat (map (unit_bytes little) (encode_utf16 t)) = bs"
proof -
  have "decode_utf16 bs little = Inr t
      \<longleftrightarrow> length bs mod 2 = 0 \<and> from_utf16 (units_of little bs) = Some t"
    by (auto simp: decode_utf16_def ok_or_def split: option.splits)
  also have "\<dots> \<longleftrightarrow> length bs mod 2 = 0 \<and> wf_text t \<and> encode_utf16 t = units_of little bs"
    by (simp add: from_utf16_exact)
  also have "\<dots> \<longleftrightarrow> wf_text t \<and> concat (map (unit_bytes little) (encode_utf16 t)) = bs"
    using bytes_of_units [of bs little] units_of_bytes [of little "encode_utf16 t"]
      unit_bytes_even [of little "encode_utf16 t"] by metis
  finally show ?thesis .
qed

lemma decode_exact:
  assumes "\<nexists>cp. enc = CodePage cp"
  shows "decode pf bs enc = Inr t \<longleftrightarrow> wf_text t \<and> encode pf t enc = Inr bs"
  using assms decode_utf16_exact
  by (cases enc) (auto simp: decode_def encode_def utf8_decode_exact [symmetric] ok_or_def
                       split: option.splits)

text \<open>C20: for the three Unicode encodings, decoding accepts exactly the encodings of texts:
  bytes decode to a text if and only if it is a sequence of scalar values that encodes to
  those very bytes. So encoding and decoding are inverse, no two byte strings give one text,
  and overlong forms, lone surrogates and odd lengths are refused.\<close>

theorem text_codec_exact:
  assumes "\<nexists>cp. enc = CodePage cp"
  shows "decode pf bs enc = Inr t \<longleftrightarrow> wf_text t \<and> encode pf t enc = Inr bs"
  using assms by (rule decode_exact)

lemma text_codec_exact_witness:
  "decode None [0x48, 0xF0, 0x9F, 0x98, 0x80] Utf8 = Inr [0x48, 0x1F600]
   \<and> decode None [0x3D, 0xD8, 0x00, 0xDE] Utf16Le = Inr [0x1F600]"
proof -
  have w: "wf_text [0x48, 0x1F600]" "encode None [0x48, 0x1F600] Utf8 = Inr [0x48, 0xF0, 0x9F, 0x98, 0x80]"
    "wf_text [0x1F600]" "encode None [0x1F600] Utf16Le = Inr [0x3D, 0xD8, 0x00, 0xDE]"
    subgoal by (simp add: is_scalar_def)
    subgoal by (simp add: encode_def utf8_char_def byte_def)
    subgoal by (simp add: is_scalar_def)
    subgoal by (simp add: encode_def utf16_char_def unit_bytes_def le16_pair)
    done
  show ?thesis
    using text_codec_exact [of Utf8 None "[0x48, 0xF0, 0x9F, 0x98, 0x80]" "[0x48, 0x1F600]"]
      text_codec_exact [of Utf16Le None "[0x3D, 0xD8, 0x00, 0xDE]" "[0x1F600]"] w
    by simp
qed

section \<open>Detection is sound\<close>

text \<open>What the detection answers decodes the input, past the mark if it has one.\<close>

definition past_mark :: "bytes \<Rightarrow> bytes" where
  "past_mark bs =
     (if starts_with [0xFF, 0xFE] bs \<or> starts_with [0xFE, 0xFF] bs then drop 2 bs else bs)"

lemma utf16_candidates_decode:
  "d \<in> set (utf16_candidates bs) \<Longrightarrow> is_ok (decode pf bs (as_text_encoding d))"
  by (auto simp: utf16_candidates_def as_text_encoding_def decode_def split: if_splits)

text \<open>Whatever the explicit input detection answers decodes: the bytes after a byte
  order mark, if there is one, are accepted by the decoder of the answered encoding, which for
  a code page is one of the candidates, in range, and the only one that decodes the input.\<close>

theorem detect_input_sound:
  assumes "detect_input pf bs cps = Inr d"
  shows "is_ok (decode pf (past_mark bs) (as_text_encoding d))
    \<and> (\<forall>cp. d = DetCodePage cp \<longrightarrow>
         cp \<noteq> 0 \<and> cp \<le> 65535
         \<and> filter (\<lambda>c. is_ok (validate_code_page c) \<and> is_ok (decode pf bs (CodePage c))) cps = [cp])"
proof -
  consider (mark) "starts_with [0xFF, 0xFE] bs \<or> starts_with [0xFE, 0xFF] bs"
    | (utf8) "\<not> (starts_with [0xFF, 0xFE] bs \<or> starts_with [0xFE, 0xFF] bs)" "utf8_valid bs"
    | (rest) "\<not> (starts_with [0xFF, 0xFE] bs \<or> starts_with [0xFE, 0xFF] bs)" "\<not> utf8_valid bs"
    by blast
  then show ?thesis
  proof cases
    case mark
    then show ?thesis
      using assms
      by (auto simp: detect_input_def past_mark_def decode_def as_text_encoding_def split: if_splits)
  next
    case utf8
    then show ?thesis
      using assms
      by (auto simp: detect_input_def past_mark_def decode_def as_text_encoding_def ok_or_def
                     utf8_valid_decode is_ok_def)
  next
    case rest
    show ?thesis
    proof (cases "utf16_candidates bs")
      case Nil
      with rest assms obtain cp where "decoded_code_pages pf bs cps = [cp]" "d = DetCodePage cp"
        by (auto simp: detect_input_def split: list.splits)
      moreover from this have "is_ok (validate_code_page cp) \<and> is_ok (decode_code_page pf bs cp)"
        unfolding decoded_code_pages_def by (metis (mono_tags, lifting) filter_eq_Cons_iff)
      ultimately show ?thesis
        using rest
        by (auto simp: past_mark_def decode_def as_text_encoding_def decoded_code_pages_def
                       validate_code_page_def is_ok_def not_less split: if_splits)
    next
      case (Cons c cs)
      with rest assms have "d = c" "d \<in> set (utf16_candidates bs)"
        by (auto simp: detect_input_def split: list.splits)
      moreover have "\<nexists>cp. d = DetCodePage cp"
        using \<open>d \<in> set (utf16_candidates bs)\<close> by (auto simp: utf16_candidates_def split: if_splits)
      ultimately show ?thesis
        using rest utf16_candidates_decode [of d bs pf] by (simp add: past_mark_def)
    qed
  qed
qed

text \<open>Text in UTF-16 without a mark is taken for UTF-8 as long as it is ASCII: its bytes are.\<close>

lemma bomless_utf16_is_utf8:
  assumes "\<forall>c \<in> set t. c < 0x80"
  shows "detect_input pf (concat (map (unit_bytes little) (encode_utf16 t))) cps = Inr DetUtf8"
proof -
  have u8_ascii: "b < 0x80" if "b \<in> set (concat (map (unit_bytes little) (encode_utf16 t)))" for b
    using that assms
  proof (induction t)
    case (Cons c t)
    have "b \<in> {of_nat c, 0} \<Longrightarrow> b < 0x80"
      using Cons.prems(2) by (auto simp: byte_order unat_of_nat)
    moreover have "set (unit_bytes little (unit16 c)) = {of_nat c, 0}"
      using Cons.prems(2) by (auto simp: unit_bytes_def le16_def numeral_2_eq_2)
    ultimately show ?case
      using Cons by (auto simp: utf16_char_def)
  qed simp
  let ?bs = "concat (map (unit_bytes little) (encode_utf16 t))"
  have "utf8_valid ?bs" by (rule utf8_valid_ascii) (use u8_ascii in blast)
  moreover have "\<not> starts_with (a # ps) ?bs" if "\<not> a < 0x80" for a ps
    using that u8_ascii [of a] unfolding starts_with_iff by (metis append_Cons list.set_intros(1))
  ultimately show ?thesis by (simp add: detect_input_def)
qed

end
