(* ===== verification/Text_Output.thy ===== *)
theory Text_Output
  imports Text_Codec
begin

text \<open>
  \<open>core/src/codec/policy.rs\<close> and \<open>core/src/codec/log_output.rs\<close>: the choice of an
  encoding for one output, frozen in a snapshot, and the encoder that turns one line of
  text into bytes: NULs and line separators are made safe, the line ends with a separator,
  and the result is bounded. The theorem reads the bytes back and says what a consumer of
  the line can rely on.
\<close>

section \<open>Policy and snapshot\<close>

datatype encoding_source = SrcExplicit | SrcEnvironment | SrcPlatform | SrcUtf8Fallback

datatype encoding_preference = PrefUtf8 | PrefCodePage u32 | PrefAuto

record encoding_policy =
  ep_preference :: encoding_preference
  ep_fallback :: bool
  ep_lossy :: bool

definition encoding_policy_default :: encoding_policy where
  "encoding_policy_default = \<lparr>ep_preference = PrefAuto, ep_fallback = True, ep_lossy = False\<rparr>"

record encoding_snapshot =
  ss_encoding :: text_encoding
  ss_source :: encoding_source
  ss_locale :: "uchar list option"
  ss_codeset :: "uchar list option"
  ss_console :: "u32 option"
  ss_fallback :: bool
  ss_lossy :: bool

definition snapshot_id :: "encoding_snapshot \<Rightarrow> string" where
  "snapshot_id ss =
     (case ss_encoding ss of
        Utf8 \<Rightarrow> ''utf-8'' | Utf16Le \<Rightarrow> ''utf-16le'' | Utf16Be \<Rightarrow> ''utf-16be''
      | CodePage cp \<Rightarrow> ''cp'' @ dec (unat cp))"

definition snapshot_encode ::
  "platform \<Rightarrow> encoding_snapshot \<Rightarrow> uchar list \<Rightarrow> encoding_error + bytes" where
  "snapshot_encode pf ss t =
     (case encode pf t (ss_encoding ss) of
        Inr bs \<Rightarrow> Inr bs
      | Inl e \<Rightarrow>
          if ss_fallback ss \<and> ss_encoding ss \<noteq> Utf8
          then (case encode pf t Utf8 of Inr bs \<Rightarrow> Inr bs | Inl _ \<Rightarrow> Inl e)
          else Inl e)"

definition snapshot_decode ::
  "platform \<Rightarrow> encoding_snapshot \<Rightarrow> bytes \<Rightarrow> encoding_error + uchar list" where
  "snapshot_decode pf ss bs =
     (case decode pf bs (ss_encoding ss) of
        Inr t \<Rightarrow> Inr t
      | Inl e \<Rightarrow>
          if ss_fallback ss \<and> ss_encoding ss \<noteq> Utf8
          then (case decode pf bs Utf8 of Inr t \<Rightarrow> Inr t | Inl _ \<Rightarrow> Inl e)
          else Inl e)"

datatype encoding_policy_error = PolicyInvalidCodePage u32 | PolicyUnsupported text_encoding

definition encoding_policy_error_text :: "encoding_policy_error \<Rightarrow> string" where
  "encoding_policy_error_text e =
     (case e of
        PolicyInvalidCodePage cp \<Rightarrow> ''invalid code page '' @ dec (unat cp)
      | PolicyUnsupported enc \<Rightarrow> ''unsupported encoding '' @ debug_encoding enc)"

definition choose_encoding ::
  "encoding_preference \<Rightarrow> encoding_detection
   \<Rightarrow> encoding_policy_error + (text_encoding \<times> encoding_source)" where
  "choose_encoding p d =
     (case p of
        PrefUtf8 \<Rightarrow> Inr (Utf8, SrcExplicit)
      | PrefCodePage cp \<Rightarrow>
          if cp = 0 \<or> 65535 < cp then Inl (PolicyInvalidCodePage cp)
          else Inr (CodePage cp, SrcExplicit)
      | PrefAuto \<Rightarrow>
          Inr (case det_codeset d of
                 Some cs \<Rightarrow>
                   (case parse_code_page cs of
                      Some cp \<Rightarrow> (CodePage cp, SrcEnvironment)
                    | None \<Rightarrow> (Utf8, SrcUtf8Fallback))
               | None \<Rightarrow>
                   (case det_console d of
                      Some cp \<Rightarrow> (CodePage cp, SrcPlatform)
                    | None \<Rightarrow> (Utf8, SrcUtf8Fallback))))"

definition resolve_from_detection ::
  "encoding_policy \<Rightarrow> encoding_detection \<Rightarrow> encoding_policy_error + encoding_snapshot" where
  "resolve_from_detection p d =
     (case choose_encoding (ep_preference p) d of
        Inl e \<Rightarrow> Inl e
      | Inr (enc, src) \<Rightarrow>
          Inr \<lparr>ss_encoding = enc, ss_source = src, ss_locale = det_locale d,
               ss_codeset = det_codeset d, ss_console = det_console d,
               ss_fallback = ep_fallback p, ss_lossy = ep_lossy p\<rparr>)"

definition resolve ::
  "(string \<Rightarrow> uchar list option) \<Rightarrow> u32 option \<Rightarrow> encoding_policy
   \<Rightarrow> encoding_policy_error + encoding_snapshot" where
  "resolve env console p = resolve_from_detection p (detect env console)"

definition default_shared_snapshot ::
  "(string \<Rightarrow> uchar list option) \<Rightarrow> u32 option \<Rightarrow> encoding_policy_error + encoding_snapshot"
where
  "default_shared_snapshot env console = resolve env console encoding_policy_default"

section \<open>Output policy\<close>

definition DEFAULT_MAX_LINE_BYTES :: nat where
  "DEFAULT_MAX_LINE_BYTES = 1024 * 1024"

datatype line_ending = EndLf | EndCrLf | EndPreserve

datatype nul_policy = NulEscape | NulReject | NulRemove

record text_output_policy =
  op_line_ending :: line_ending
  op_nul :: nul_policy
  op_max :: nat
  op_newline :: bool

definition text_output_policy_default :: text_output_policy where
  "text_output_policy_default =
     \<lparr>op_line_ending = EndLf, op_nul = NulEscape, op_max = DEFAULT_MAX_LINE_BYTES,
      op_newline = True\<rparr>"

datatype text_output_error =
    InvalidLimit
  | NulRejected
  | LineTooLong nat nat
  | OutputEncoding encoding_error
  | OutputPolicy encoding_policy_error

definition text_output_error_text :: "text_output_error \<Rightarrow> string" where
  "text_output_error_text e =
     (case e of
        InvalidLimit \<Rightarrow> ''invalid text output limit''
      | NulRejected \<Rightarrow> ''NUL byte rejected by text output policy''
      | LineTooLong n m \<Rightarrow> ''encoded line length '' @ dec n @ '' exceeds '' @ dec m
      | OutputEncoding err \<Rightarrow> encoding_error_text err
      | OutputPolicy err \<Rightarrow> encoding_policy_error_text err)"

definition policy_validate :: "text_output_policy \<Rightarrow> text_output_error + unit" where
  "policy_validate p =
     (if op_max p = 0 \<or> 64 * 1024 * 1024 < op_max p then Inl InvalidLimit else Inr ())"

section \<open>Sanitising a line\<close>

definition past_lf :: "uchar list \<Rightarrow> uchar list" where
  "past_lf cs = (case cs of [] \<Rightarrow> [] | c # r \<Rightarrow> if c = 0x0A then r else cs)"

lemma length_past_lf [termination_simp]: "length (past_lf cs) \<le> length cs"
  by (simp add: past_lf_def split: list.split)

definition r_emit ::
  "uchar list \<Rightarrow> bool \<Rightarrow> 'e + (uchar list \<times> bool) \<Rightarrow> 'e + (uchar list \<times> bool)" where
  "r_emit cs n r = r_bind r (\<lambda>(t, m). Inr (cs @ t, n \<or> m))"

function sanitize_chars ::
  "nul_policy \<Rightarrow> line_ending \<Rightarrow> uchar list \<Rightarrow> text_output_error + (uchar list \<times> bool)" where
  "sanitize_chars nul le [] = Inr ([], False)"
| "sanitize_chars nul le (c # cs) =
     (if c = 0 then
        (case nul of
           NulEscape \<Rightarrow> r_emit [0x5C, 0x30] True (sanitize_chars nul le cs)
         | NulRemove \<Rightarrow> r_emit [] True (sanitize_chars nul le cs)
         | NulReject \<Rightarrow> Inl NulRejected)
      else if (le = EndLf \<or> le = EndCrLf) \<and> c = 0x0D then
        r_emit [0x0A] True (sanitize_chars nul le (past_lf cs))
      else r_emit [c] False (sanitize_chars nul le cs))"
  by pat_completeness auto
termination
  by (relation "measure (length \<circ> snd \<circ> snd)") (auto simp: le_imp_less_Suc length_past_lf)

definition expand_lf :: "uchar list \<Rightarrow> uchar list" where
  "expand_lf t = concat (map (\<lambda>c. if c = 0x0A then [0x0D, c] else [c]) t)"

definition sanitize ::
  "uchar list \<Rightarrow> nul_policy \<Rightarrow> line_ending \<Rightarrow> text_output_error + uchar list" where
  "sanitize t nul le =
     r_bind (sanitize_chars nul le t) (\<lambda>(out, normalized).
       let out = (if le = EndCrLf then expand_lf out else out);
           normalized = (if le = EndCrLf then True else normalized) in
       Inr (if normalized then out else t))"

section \<open>The encoder\<close>

record encoded_line =
  el_length :: nat
  el_normalized :: bool

record text_encoder =
  te_snapshot :: encoding_snapshot
  te_policy :: text_output_policy
  te_buffer :: bytes

definition encoder_new ::
  "encoding_snapshot \<Rightarrow> text_output_policy \<Rightarrow> text_output_error + text_encoder" where
  "encoder_new ss p =
     r_bind (policy_validate p)
       (\<lambda>_. Inr \<lparr>te_snapshot = ss, te_policy = p, te_buffer = []\<rparr>)"

definition line_newline :: "line_ending \<Rightarrow> uchar list" where
  "line_newline le = (case le of EndCrLf \<Rightarrow> [0x0D, 0x0A] | _ \<Rightarrow> [0x0A])"

definition encode_line ::
  "platform \<Rightarrow> text_encoder \<Rightarrow> uchar list \<Rightarrow> text_output_error + (bytes \<times> bool)" where
  "encode_line pf te t =
     (let p = te_policy te; ss = te_snapshot te in
      r_bind (sanitize t (op_nul p) (op_line_ending p)) (\<lambda>s.
      case snapshot_encode pf ss s of
        Inl e \<Rightarrow> Inl (OutputEncoding e)
      | Inr bs \<Rightarrow>
          r_bind
            (if op_newline p \<and> \<not> (s \<noteq> [] \<and> last s = 0x0A) \<and> \<not> (s \<noteq> [] \<and> last s = 0x0D) then
               (case snapshot_encode pf ss (line_newline (op_line_ending p)) of
                  Inl e \<Rightarrow> Inl (OutputEncoding e)
                | Inr nl \<Rightarrow> Inr (bs @ nl))
             else Inr bs)
            (\<lambda>out.
               if op_max p < length out then Inl (LineTooLong (length out) (op_max p))
               else Inr (out, s \<noteq> t))))"

definition encoder_encode ::
  "platform \<Rightarrow> text_encoder \<Rightarrow> uchar list
   \<Rightarrow> (text_output_error + encoded_line) \<times> text_encoder" where
  "encoder_encode pf te t =
     (case encode_line pf te t of
        Inl e \<Rightarrow> (Inl e, te\<lparr>te_buffer := []\<rparr>)
      | Inr (bs, normalized) \<Rightarrow>
          (Inr \<lparr>el_length = length bs, el_normalized = normalized\<rparr>, te\<lparr>te_buffer := bs\<rparr>))"

definition encode_into ::
  "platform \<Rightarrow> text_encoder \<Rightarrow> uchar list \<Rightarrow> bytes
   \<Rightarrow> (text_output_error + encoded_line) \<times> text_encoder \<times> bytes" where
  "encode_into pf te t out =
     (case encoder_encode pf te t of
        (Inl e, te') \<Rightarrow> (Inl e, te', out)
      | (Inr m, te') \<Rightarrow> (Inr m, te', out @ te_buffer te'))"

definition encoder_clear :: "text_encoder \<Rightarrow> text_encoder" where
  "encoder_clear te = te\<lparr>te_buffer := []\<rparr>"

section \<open>What sanitising guarantees\<close>

text \<open>Carriage return and line feed occur only as the pair.\<close>

fun crlf_only :: "uchar list \<Rightarrow> bool" where
  "crlf_only [] \<longleftrightarrow> True"
| "crlf_only [c] \<longleftrightarrow> c \<noteq> 0x0A \<and> c \<noteq> 0x0D"
| "crlf_only (c # d # t) \<longleftrightarrow>
     (if c = 0x0D then d = 0x0A \<and> crlf_only t else c \<noteq> 0x0A \<and> crlf_only (d # t))"

lemma r_emit_Inr:
  "r_emit cs n r = Inr (t, m) \<longleftrightarrow> (\<exists>t' m'. r = Inr (t', m') \<and> t = cs @ t' \<and> m = (n \<or> m'))"
  by (cases r) (auto simp: r_emit_def)

lemma wf_past_lf: "wf_text cs \<Longrightarrow> wf_text (past_lf cs)"
  by (cases cs) (simp_all add: past_lf_def)

lemma sanitize_chars_props:
  assumes "sanitize_chars nul le t = Inr (out, n)"
  shows "(wf_text t \<longrightarrow> wf_text out) \<and> 0 \<notin> set out \<and> (le \<noteq> EndPreserve \<longrightarrow> 0x0D \<notin> set out)
    \<and> (\<not> n \<longrightarrow> out = t)"
  using assms
proof (induction nul le t arbitrary: out n rule: sanitize_chars.induct)
  case (2 nul le c cs)
  show ?case
  proof (cases "c = 0")
    case True
    with "2.prems" obtain out' n' where o: "sanitize_chars nul le cs = Inr (out', n')"
      "out = (if nul = NulEscape then [0x5C, 0x30] else []) @ out'" "n" "nul \<noteq> NulReject"
      by (cases nul) (auto simp: r_emit_Inr)
    moreover have "(wf_text cs \<longrightarrow> wf_text out') \<and> 0 \<notin> set out' \<and> (le \<noteq> EndPreserve \<longrightarrow> 0x0D \<notin> set out')"
      using o "2.IH"(1,2) [OF True] by (cases nul) auto
    ultimately show ?thesis by (simp add: is_scalar_def)
  next
    case False
    show ?thesis
    proof (cases "(le = EndLf \<or> le = EndCrLf) \<and> c = 0x0D")
      case True
      with False "2.prems" obtain out' n' where
        "sanitize_chars nul le (past_lf cs) = Inr (out', n')" "out = 0x0A # out'" "n"
        by (auto simp: r_emit_Inr)
      then show ?thesis
        using "2.IH"(3) [OF False True] wf_past_lf by (simp add: is_scalar_def)
    next
      case nocr: False
      with False "2.prems" obtain out' where
        "sanitize_chars nul le cs = Inr (out', n)" "out = c # out'"
        by (auto simp: r_emit_Inr)
      then show ?thesis
        using "2.IH"(4) [OF False nocr] False nocr by (cases le) auto
    qed
  qed
qed auto

lemma crlf_only_Cons: "c \<noteq> 0x0D \<Longrightarrow> crlf_only (c # t) \<longleftrightarrow> c \<noteq> 0x0A \<and> crlf_only t"
  by (cases t) auto

lemma crlf_only_last: "crlf_only s \<Longrightarrow> s \<noteq> [] \<Longrightarrow> last s \<noteq> 0x0D"
  by (induction s rule: crlf_only.induct) (auto split: if_splits)

lemma expand_lf_simps [simp]:
  "expand_lf [] = []" "expand_lf (c # t) = (if c = 0x0A then 0x0D # [c] else [c]) @ expand_lf t"
  by (simp_all add: expand_lf_def)

lemma expand_lf_props:
  assumes "0x0D \<notin> set t"
  shows "crlf_only (expand_lf t @ u) \<longleftrightarrow> crlf_only u"
    and "t \<noteq> [] \<Longrightarrow> last (expand_lf t) = last t"
    and "wf_text (expand_lf t) \<longleftrightarrow> wf_text t" and "0 \<notin> set (expand_lf t) \<longleftrightarrow> 0 \<notin> set t"
    and "expand_lf t = [] \<longleftrightarrow> t = []"
  using assms by (induction t) (auto simp: crlf_only_Cons is_scalar_def)

text \<open>What a sanitised line and its separator look like.\<close>

definition line_ok :: "line_ending \<Rightarrow> uchar list \<Rightarrow> bool" where
  "line_ok le s \<longleftrightarrow>
     wf_text s \<and> 0 \<notin> set s \<and> (le = EndLf \<longrightarrow> 0x0D \<notin> set s) \<and> (le = EndCrLf \<longrightarrow> crlf_only s)"

lemma sanitize_ok:
  assumes "sanitize t nul le = Inr s" "wf_text t"
  shows "line_ok le s \<and> line_ok le (s @ line_newline le)"
proof -
  obtain out n where o: "sanitize_chars nul le t = Inr (out, n)"
    using assms(1) by (cases "sanitize_chars nul le t") (auto simp: sanitize_def)
  note p = sanitize_chars_props [OF o]
  show ?thesis
  proof (cases "le = EndCrLf")
    case True
    with assms(1) o have s: "s = expand_lf out" by (auto simp: sanitize_def)
    from True p have "0x0D \<notin> set out" by simp
    with p assms(2) True show ?thesis
      using expand_lf_props(1) [of out "[]"] expand_lf_props(1) [of out "[0x0D, 0x0A]"]
        expand_lf_props(3,4) [of out]
      by (simp add: line_ok_def s line_newline_def is_scalar_def)
  next
    case False
    with assms(1) o have "s = (if n then out else t)" by (auto simp: sanitize_def)
    then have "s = out" using p by auto
    with p assms(2) False show ?thesis
      by (cases le) (auto simp: line_ok_def line_newline_def is_scalar_def)
  qed
qed

section \<open>What the encoder guarantees\<close>

text \<open>Off Windows, or with a Unicode encoding, a snapshot acts as one Unicode encoding.\<close>

lemma code_page_fails_off_windows:
  "\<exists>e. encode None t (CodePage cp) = Inl e" "\<exists>e. decode None bs (CodePage cp) = Inl e"
  by (auto simp: encode_def encode_code_page_def decode_def decode_code_page_def
           split: sum.split)

lemma snapshot_unicode:
  assumes "pf = None \<or> (\<nexists>cp. ss_encoding ss = CodePage cp)"
    and "snapshot_encode pf ss s = Inr bs"
  shows "\<exists>enc. (\<nexists>cp. enc = CodePage cp) \<and> (\<forall>u. snapshot_encode pf ss u = encode pf u enc)
    \<and> (\<forall>b u. decode pf b enc = Inr u \<longrightarrow> snapshot_decode pf ss b = Inr u)"
proof (cases "\<exists>cp. ss_encoding ss = CodePage cp")
  case True
  then obtain cp where cp: "ss_encoding ss = CodePage cp" "pf = None" using assms(1) by auto
  have fe: "\<exists>e. encode None u (CodePage cp) = Inl e" for u by (rule code_page_fails_off_windows)
  have fd: "\<exists>e. decode None b (CodePage cp) = Inl e" for b by (rule code_page_fails_off_windows)
  have "ss_fallback ss"
    using assms(2) fe [of s] cp by (auto simp: snapshot_encode_def split: if_splits)
  then have "snapshot_encode pf ss u = encode pf u Utf8" for u
    using fe [of u] cp by (auto simp: snapshot_encode_def encode_def [where enc = Utf8])
  moreover have "snapshot_decode pf ss b = Inr u" if "decode pf b Utf8 = Inr u" for b u
    using fd [of b] cp that \<open>ss_fallback ss\<close> by (auto simp: snapshot_decode_def)
  ultimately show ?thesis by (intro exI [of _ Utf8]) simp
next
  case False
  have "encode pf u (ss_encoding ss) \<noteq> Inl e" for u e
    using False by (cases "ss_encoding ss") (auto simp: encode_def)
  then have "snapshot_encode pf ss u = encode pf u (ss_encoding ss)" for u
    by (auto simp: snapshot_encode_def split: sum.split)
  with False show ?thesis by (intro exI [of _ "ss_encoding ss"]) (auto simp: snapshot_decode_def)
qed

lemma encode_utf16_append: "encode_utf16 (s @ u) = encode_utf16 s @ encode_utf16 u"
  by (simp add: encode_utf16_def)

lemma encode_append:
  assumes "\<nexists>cp. enc = CodePage cp" "encode pf s enc = Inr bs" "encode pf u enc = Inr cs"
  shows "encode pf (s @ u) enc = Inr (bs @ cs)"
  using assms by (cases enc) (auto simp: encode_def encode_utf16_append)

lemma encode_line_Inr:
  assumes "encode_line pf te t = Inr (bs, n)"
  obtains s b where
    "sanitize t (op_nul (te_policy te)) (op_line_ending (te_policy te)) = Inr s"
    "snapshot_encode pf (te_snapshot te) s = Inr b"
    "length bs \<le> op_max (te_policy te)" "n \<longleftrightarrow> s \<noteq> t"
    "if op_newline (te_policy te) \<and> (s = [] \<or> last s \<notin> {0x0A, 0x0D})
     then \<exists>nl. snapshot_encode pf (te_snapshot te)
                (line_newline (op_line_ending (te_policy te))) = Inr nl \<and> bs = b @ nl
     else bs = b"
proof -
  let ?p = "te_policy te" and ?ss = "te_snapshot te"
  obtain s where s: "sanitize t (op_nul ?p) (op_line_ending ?p) = Inr s"
    using assms by (auto simp: encode_line_def Let_def r_bind_def split: sum.splits)
  obtain b where b: "snapshot_encode pf ?ss s = Inr b"
    using assms by (auto simp: encode_line_def Let_def s r_bind_def split: sum.splits)
  have "length bs \<le> op_max ?p \<and> (n \<longleftrightarrow> s \<noteq> t)
    \<and> (if op_newline ?p \<and> (s = [] \<or> last s \<notin> {0x0A, 0x0D})
       then \<exists>nl. snapshot_encode pf ?ss (line_newline (op_line_ending ?p)) = Inr nl \<and> bs = b @ nl
       else bs = b)"
    using assms
    by (cases "snapshot_encode pf ?ss (line_newline (op_line_ending ?p))")
       (auto simp: encode_line_def Let_def s b r_bind_def split: if_splits)
  with s b that show thesis by blast
qed

text \<open>C21: a line the encoder accepts, off Windows or with a Unicode encoding, reads back as
  text without a NUL, in at most the configured number of bytes and in exactly the reported
  number; with LF endings it holds no carriage return, with CRLF endings returns and feeds
  occur only as the pair, and if a newline is asked for it ends with one (with preserved
  endings a final carriage return counts).\<close>

theorem text_line_safe:
  assumes wf: "wf_text t"
    and pf: "pf = None \<or> (\<nexists>cp. ss_encoding (te_snapshot te) = CodePage cp)"
    and run: "encoder_encode pf te t = (Inr m, te')"
  shows "\<exists>s. snapshot_decode pf (te_snapshot te) (te_buffer te') = Inr s
    \<and> el_length m = length (te_buffer te') \<and> length (te_buffer te') \<le> op_max (te_policy te)
    \<and> line_ok (op_line_ending (te_policy te)) s
    \<and> (op_newline (te_policy te) \<longrightarrow>
         s \<noteq> [] \<and> (last s = 0x0A \<or> op_line_ending (te_policy te) = EndPreserve \<and> last s = 0x0D))"
proof -
  let ?p = "te_policy te" and ?ss = "te_snapshot te"
  let ?le = "op_line_ending ?p"
  obtain bs n where l: "encode_line pf te t = Inr (bs, n)" "te_buffer te' = bs"
    "el_length m = length bs"
    using run by (auto simp: encoder_encode_def split: sum.splits prod.splits)
  from l(1) obtain s b where s: "sanitize t (op_nul ?p) ?le = Inr s"
    "snapshot_encode pf ?ss s = Inr b" "length bs \<le> op_max ?p"
    "if op_newline ?p \<and> (s = [] \<or> last s \<notin> {0x0A, 0x0D})
     then \<exists>nl. snapshot_encode pf ?ss (line_newline ?le) = Inr nl \<and> bs = b @ nl else bs = b"
    by (rule encode_line_Inr)
  obtain enc where e: "\<nexists>cp. enc = CodePage cp" "\<And>u. snapshot_encode pf ?ss u = encode pf u enc"
    "\<And>b u. decode pf b enc = Inr u \<Longrightarrow> snapshot_decode pf ?ss b = Inr u"
    using snapshot_unicode [OF pf s(2)] by blast
  note ok = sanitize_ok [OF s(1) wf]
  let ?s = "if op_newline ?p \<and> (s = [] \<or> last s \<notin> {0x0A, 0x0D}) then s @ line_newline ?le else s"
  have "encode pf ?s enc = Inr bs"
  proof (cases "op_newline ?p \<and> (s = [] \<or> last s \<notin> {0x0A, 0x0D})")
    case True
    with s(4) e(2) obtain nl where "encode pf (line_newline ?le) enc = Inr nl" "bs = b @ nl" by auto
    then show ?thesis
      unfolding if_P [OF True] using s(2) e(2) encode_append [OF e(1)] by simp
  next
    case False
    have "bs = b" using s(4) unfolding if_not_P [OF False] .
    then show ?thesis unfolding if_not_P [OF False] using s(2) e(2) by simp
  qed
  moreover have line: "line_ok ?le ?s" using ok by simp
  ultimately have "decode pf bs enc = Inr ?s"
    using decode_exact [OF e(1)] by (simp add: line_ok_def)
  then have "snapshot_decode pf ?ss bs = Inr ?s" by (rule e(3))
  moreover have "op_newline ?p \<longrightarrow> ?s \<noteq> [] \<and> (last ?s = 0x0A \<or> ?le = EndPreserve \<and> last ?s = 0x0D)"
  proof -
    have "last s \<noteq> 0x0D" if "s \<noteq> []" "?le \<noteq> EndPreserve"
      using that ok by (metis crlf_only_last last_in_set line_ending.exhaust line_ok_def)
    then show ?thesis by (cases ?le) (auto simp: line_newline_def)
  qed
  ultimately show ?thesis using l s(3) line by (intro exI [of _ ?s]) simp
qed

lemma text_line_safe_witness:
  "\<exists>te m te'. encoder_encode None te [0x61, 0x0D, 0, 0x62] = (Inr m, te')
     \<and> te_buffer te' = [0x61, 0x0D, 0x0A, 0x5C, 0x30, 0x62, 0x0D, 0x0A]
     \<and> (\<exists>s. snapshot_decode None (te_snapshot te) (te_buffer te') = Inr s \<and> line_ok EndCrLf s)"
proof -
  let ?ss = "\<lparr>ss_encoding = CodePage 936, ss_source = SrcEnvironment, ss_locale = None,
    ss_codeset = None, ss_console = None, ss_fallback = True, ss_lossy = False\<rparr>"
  let ?p = "text_output_policy_default\<lparr>op_line_ending := EndCrLf\<rparr>"
  let ?te = "\<lparr>te_snapshot = ?ss, te_policy = ?p, te_buffer = []\<rparr>"
  let ?out = "[0x61, 0x0D, 0x0A, 0x5C, 0x30, 0x62, 0x0D, 0x0A] :: bytes"
  have run: "encoder_encode None ?te [0x61, 0x0D, 0, 0x62]
    = (Inr \<lparr>el_length = 8, el_normalized = True\<rparr>, ?te\<lparr>te_buffer := ?out\<rparr>)"
    by (simp add: encoder_encode_def encode_line_def sanitize_def r_emit_def past_lf_def r_bind_def
          text_output_policy_default_def DEFAULT_MAX_LINE_BYTES_def snapshot_encode_def encode_def
          encode_code_page_def validate_code_page_def utf8_char_def byte_def line_newline_def)
  have "wf_text [0x61, 0x0D, 0, 0x62]" by (simp add: is_scalar_def)
  from text_line_safe [OF this _ run] obtain s where
    "snapshot_decode None ?ss ?out = Inr s" "line_ok EndCrLf s"
    by (auto simp: text_output_policy_default_def)
  with run show ?thesis by (intro exI [of _ ?te] exI conjI) (assumption | simp)+
qed

text \<open>The encoder's line is the text itself plus the separator where nothing needs changing.\<close>

lemma clean_line_unchanged:
  assumes "0 \<notin> set t" "0x0D \<notin> set t" "le \<noteq> EndCrLf"
  shows "sanitize t nul le = Inr t"
proof -
  have "sanitize_chars nul le t = Inr (t, False)"
    using assms(1,2) by (induction t) (auto simp: r_emit_def r_bind_def)
  with assms(3) show ?thesis by (simp add: sanitize_def r_bind_def)
qed

section \<open>A UTF-8 locale off Windows\<close>

text \<open>
  A codeset spelled UTF-8 is resolved to code page 65001, not to the UTF-8 codec. Off Windows
  no code page converts, so without the fallback no text at all can be encoded or decoded,
  although the locale asks for the one encoding every platform supports.
\<close>

theorem utf8_locale_unusable:
  assumes "det_codeset d = Some (lit ''UTF-8'')" "\<not> ep_fallback p" "ep_preference p = PrefAuto"
  shows "\<exists>ss. resolve_from_detection p d = Inr ss \<and> ss_encoding ss = CodePage 65001
    \<and> (\<forall>t. snapshot_encode None ss t = Inl (UnsupportedEncoding (CodePage 65001)))"
proof -
  have "parse_code_page (lit ''UTF-8'') = Some 65001"
    by (simp add: parse_code_page_def lit_def trim_text_def is_white_def ascii_lower_def)
  then show ?thesis
    using assms
    by (auto simp: resolve_from_detection_def choose_encoding_def snapshot_encode_def encode_def
          encode_code_page_def validate_code_page_def)
qed

end
