(* ===== verification/Platform.thy ===== *)
theory Platform
  imports Prelude
begin

text \<open>
  What the components see of the operating system: the target the code is compiled for, the
  environment, and the state of a file that is read at once.
\<close>

datatype target = Linux | Macos | Windows | OtherTarget

type_synonym environment = "string \<Rightarrow> string option"

datatype file_state = Missing | Unreadable string | Contents bytes

type_synonym files = "string \<Rightarrow> file_state"

text \<open>\<open>%PROGRAMDATA%\<close> with its fallback.\<close>

definition program_data :: "environment \<Rightarrow> string" where
  "program_data env =
     (case env ''PROGRAMDATA'' of
        Some p \<Rightarrow> p | None \<Rightarrow> ''C:'' @ [CHR 0x5C] @ ''ProgramData'')"

text \<open>\<open>std::fs::read_to_string\<close> fails on bytes that are not UTF-8.\<close>

definition read_to_string :: "file_state \<Rightarrow> string + bytes" where
  "read_to_string f =
     (case f of
        Missing \<Rightarrow> Inl ''not found''
      | Unreadable e \<Rightarrow> Inl e
      | Contents bs \<Rightarrow> if utf8_valid bs then Inr bs else Inl ''stream did not contain valid UTF-8'')"

end
