(* ===== verification/Sandbox.thy ===== *)
theory Sandbox
  imports Platform
begin

text \<open>
  \<open>core/src/plugin/sandbox.rs\<close>: isolation levels and policies, the system calls of each
  category, the seccomp filter built from a policy, and the engine that applies one. The
  kernel is a parameter: \<open>classic_bpf\<close> states the documented meaning of the three
  instructions the filter uses. The policies are ordered as their levels promise; the filter is
  not: whatever the policy, it lets every system call through.
\<close>

section \<open>Levels, backends, categories\<close>

datatype sandbox_level = NoSandbox | Restricted | Isolated

datatype sandbox_backend = Seccomp | AppContainer | MacOSSandbox | NoBackend

definition sandbox_backend_detect :: "target \<Rightarrow> sandbox_backend" where
  "sandbox_backend_detect os =
     (case os of
        Linux \<Rightarrow> Seccomp | Windows \<Rightarrow> AppContainer | Macos \<Rightarrow> MacOSSandbox | OtherTarget \<Rightarrow> NoBackend)"

definition supports_isolation :: "sandbox_backend \<Rightarrow> bool" where
  "supports_isolation b \<longleftrightarrow> b = Seccomp \<or> b = MacOSSandbox"

datatype syscall_category =
    CMemory | CFileIO | CNetwork | CProcess | CThreading | CTime | CSignal | CSystemInfo

definition linux_syscalls :: "syscall_category \<Rightarrow> string list" where
  "linux_syscalls c =
     (case c of
        CMemory \<Rightarrow> [''mmap'', ''munmap'', ''brk'', ''mprotect'', ''madvise'']
      | CFileIO \<Rightarrow> [''read'', ''write'', ''openat'', ''close'', ''fstat'', ''lseek'', ''fsync'',
          ''fdatasync'', ''readv'', ''writev'', ''pread64'', ''pwrite64'']
      | CNetwork \<Rightarrow> [''socket'', ''connect'', ''bind'', ''listen'', ''accept'', ''sendto'',
          ''recvfrom'', ''sendmsg'', ''recvmsg'', ''setsockopt'', ''getsockname'']
      | CProcess \<Rightarrow> [''clone'', ''fork'', ''vfork'', ''execve'', ''exit'', ''exit_group'']
      | CThreading \<Rightarrow> [''futex'', ''sched_yield'', ''nanosleep'', ''gettid'']
      | CTime \<Rightarrow> [''clock_gettime'', ''gettimeofday'', ''time'', ''clock_nanosleep'']
      | CSignal \<Rightarrow> [''sigaction'', ''sigreturn'', ''rt_sigaction'', ''rt_sigreturn'',
          ''sigprocmask'', ''rt_sigprocmask'']
      | CSystemInfo \<Rightarrow> [''uname'', ''sysinfo'', ''getpid'', ''getuid'', ''getgid''])"

section \<open>Policies\<close>

record sandbox_policy =
  sp_level :: sandbox_level
  sp_categories :: "syscall_category list"
  sp_read_paths :: "string list"
  sp_write_paths :: "string list"
  sp_network :: "string list"
  sp_max_memory :: u64
  sp_max_cpu :: u64
  sp_file_write :: bool
  sp_allow_network :: bool
  sp_allow_fork :: bool

definition policy_default :: sandbox_policy where
  "policy_default =
     \<lparr>sp_level = NoSandbox, sp_categories = [], sp_read_paths = [], sp_write_paths = [],
      sp_network = [], sp_max_memory = 0, sp_max_cpu = 0, sp_file_write = True,
      sp_allow_network = True, sp_allow_fork = False\<rparr>"

definition blue_policy :: sandbox_policy where
  "blue_policy = policy_default\<lparr>sp_level := NoSandbox\<rparr>"

definition yellow_policy :: sandbox_policy where
  "yellow_policy =
     policy_default\<lparr>sp_level := Restricted,
       sp_categories := [CMemory, CFileIO, CThreading, CTime, CSignal, CSystemInfo],
       sp_file_write := True, sp_allow_network := False, sp_allow_fork := False\<rparr>"

definition red_policy :: sandbox_policy where
  "red_policy =
     policy_default\<lparr>sp_level := Isolated, sp_categories := [CMemory, CThreading, CTime],
       sp_file_write := False, sp_allow_network := False, sp_allow_fork := False\<rparr>"

definition allows_category :: "sandbox_policy \<Rightarrow> syscall_category \<Rightarrow> bool" where
  "allows_category p c \<longleftrightarrow> sp_level p = NoSandbox \<or> c \<in> set (sp_categories p)"

definition check_plugin_type_allowed :: "sandbox_level \<Rightarrow> string \<Rightarrow> string + unit" where
  "check_plugin_type_allowed color ty =
     (case color of
        NoSandbox \<Rightarrow> Inr ()
      | Restricted \<Rightarrow>
          if ty \<in> {''ConfigProvider'', ''KeyProvider'', ''PolicyProvider'', ''HostInfoProvider'',
                   ''SyscallBroker''}
          then Inl (''Yellow plugins cannot register as '' @ ty) else Inr ()
      | Isolated \<Rightarrow>
          if ty \<in> {''Filter'', ''FieldProvider'', ''Processor'', ''Formatter''} then Inr ()
          else Inl (''Red plugins cannot register as '' @ ty))"

definition sandbox_validate :: "sandbox_policy \<Rightarrow> string + unit" where
  "sandbox_validate p =
     (if sp_level p = NoSandbox then Inr ()
      else if CMemory \<notin> set (sp_categories p) then
        Inl ''Sandbox policy must allow Memory category (mmap/munmap)''
      else if sp_file_write p \<and> CFileIO \<notin> set (sp_categories p) then
        Inl ''Sandbox policy: allow_file_write=true requires FileIO category''
      else if sp_allow_network p \<and> CNetwork \<notin> set (sp_categories p) then
        Inl ''Sandbox policy: allow_network=true requires Network category''
      else if sp_allow_fork p \<and> CProcess \<notin> set (sp_categories p) then
        Inl ''Sandbox policy: allow_fork=true requires Process category''
      else Inr ())"

section \<open>The seccomp filter\<close>

definition syscall_name_to_number :: "string \<Rightarrow> int option" where
  "syscall_name_to_number name =
     map_of [(''read'', 0), (''write'', 1), (''openat'', 257), (''close'', 3), (''fstat'', 5),
       (''lseek'', 8), (''mmap'', 9), (''mprotect'', 10), (''munmap'', 11), (''brk'', 12),
       (''rt_sigaction'', 13), (''rt_sigprocmask'', 14), (''rt_sigreturn'', 15), (''pread64'', 17),
       (''pwrite64'', 18), (''readv'', 19), (''writev'', 20), (''sched_yield'', 24),
       (''madvise'', 28), (''getpid'', 39), (''socket'', 41), (''connect'', 42), (''accept'', 43),
       (''sendto'', 44), (''recvfrom'', 45), (''sendmsg'', 46), (''recvmsg'', 47), (''bind'', 49),
       (''listen'', 50), (''getsockname'', 51), (''setsockopt'', 54), (''clone'', 56),
       (''fork'', 57), (''vfork'', 58), (''execve'', 59), (''exit'', 60), (''nanosleep'', 35),
       (''getuid'', 102), (''getgid'', 104), (''gettid'', 186), (''futex'', 202),
       (''clock_gettime'', 228), (''exit_group'', 231), (''time'', 201), (''gettimeofday'', 96),
       (''sigaction'', 13), (''sigreturn'', 15), (''sigprocmask'', 14), (''fsync'', 74),
       (''fdatasync'', 75), (''uname'', 63), (''sysinfo'', 99), (''clock_nanosleep'', 230)] name"

text \<open>\<open>sort\<close> and \<open>dedup\<close> on the numbers of the allowed categories and the five that are always
  allowed.\<close>

definition allowed_syscalls :: "sandbox_policy \<Rightarrow> int list" where
  "allowed_syscalls p =
     remdups_adj (sort
       (List.map_filter syscall_name_to_number (concat (map linux_syscalls (sp_categories p)))
        @ [60, 231, 219, 0, 1]))"

record sock_filter =
  bf_code :: u16
  bf_jt :: u8
  bf_jf :: u8
  bf_k :: u32

definition BPF_LD_W_ABS :: u16 where "BPF_LD_W_ABS = 0x20"
definition BPF_JMP_JEQ_K :: u16 where "BPF_JMP_JEQ_K = 0x15"
definition BPF_RET_K :: u16 where "BPF_RET_K = 0x06"
definition SECCOMP_RET_ALLOW :: u32 where "SECCOMP_RET_ALLOW = 0x7FFF0000"
definition SECCOMP_RET_KILL_PROCESS :: u32 where "SECCOMP_RET_KILL_PROCESS = 0x80000000"
definition SECCOMP_SET_MODE_FILTER :: int where "SECCOMP_SET_MODE_FILTER = 1"

text \<open>The instruction at index \<open>i\<close> jumps to the return that follows the comparisons.\<close>

definition jeq_insn :: "nat \<Rightarrow> nat \<Rightarrow> int \<Rightarrow> sock_filter" where
  "jeq_insn allow_idx i nr =
     \<lparr>bf_code = BPF_JMP_JEQ_K, bf_jt = of_nat (allow_idx - i - 1), bf_jf = 0, bf_k = of_int nr\<rparr>"

definition build_bpf_filter :: "int list \<Rightarrow> sock_filter list" where
  "build_bpf_filter allowed =
     \<lparr>bf_code = BPF_LD_W_ABS, bf_jt = 0, bf_jf = 0, bf_k = 0\<rparr>
     # map2 (jeq_insn (1 + length allowed)) [1..<1 + length allowed] allowed
     @ [\<lparr>bf_code = BPF_RET_K, bf_jt = 0, bf_jf = 0, bf_k = SECCOMP_RET_ALLOW\<rparr>,
        \<lparr>bf_code = BPF_RET_K, bf_jt = 0, bf_jf = 0, bf_k = SECCOMP_RET_KILL_PROCESS\<rparr>]"

section \<open>The engine\<close>

record sandbox_engine =
  se_enabled :: bool
  se_backend :: sandbox_backend

record sandbox_result =
  sr_success :: bool
  sr_backend :: sandbox_backend
  sr_level :: sandbox_level
  sr_error :: "string option"
  sr_context :: "u64 option"

definition sandbox_engine_new :: "target \<Rightarrow> sandbox_engine" where
  "sandbox_engine_new os = \<lparr>se_enabled = True, se_backend = sandbox_backend_detect os\<rparr>"

definition sandbox_disable :: "sandbox_engine \<Rightarrow> sandbox_engine" where
  "sandbox_disable e = e\<lparr>se_enabled := False\<rparr>"

definition sandbox_enable :: "sandbox_engine \<Rightarrow> sandbox_engine" where
  "sandbox_enable e = e\<lparr>se_enabled := True\<rparr>"

text \<open>\<open>prctl(PR_SET_SECCOMP, mode, prog)\<close>: its result, or the error it left.\<close>

type_synonym prctl = "int \<Rightarrow> sock_filter list \<Rightarrow> string + unit"

definition apply_seccomp_policy :: "prctl \<Rightarrow> sandbox_policy \<Rightarrow> sandbox_result" where
  "apply_seccomp_policy prctl p =
     (case prctl SECCOMP_SET_MODE_FILTER (build_bpf_filter (allowed_syscalls p)) of
        Inl err \<Rightarrow>
          \<lparr>sr_success = False, sr_backend = Seccomp, sr_level = sp_level p,
           sr_error = Some (''seccomp prctl failed: '' @ err), sr_context = None\<rparr>
      | Inr _ \<Rightarrow>
          \<lparr>sr_success = True, sr_backend = Seccomp, sr_level = sp_level p, sr_error = None,
           sr_context = Some 0\<rparr>)"

definition apply_appcontainer_policy :: "sandbox_policy \<Rightarrow> sandbox_result" where
  "apply_appcontainer_policy p =
     \<lparr>sr_success = True, sr_backend = AppContainer, sr_level = sp_level p,
      sr_error = Some ''AppContainer: full process isolation not yet implemented'',
      sr_context = None\<rparr>"

definition apply_macos_sandbox_policy :: "sandbox_policy \<Rightarrow> sandbox_result" where
  "apply_macos_sandbox_policy p =
     \<lparr>sr_success = True, sr_backend = MacOSSandbox, sr_level = sp_level p,
      sr_error = Some ''macOS sandbox: full isolation not yet implemented'', sr_context = None\<rparr>"

definition apply_policy :: "target \<Rightarrow> prctl \<Rightarrow> sandbox_engine \<Rightarrow> sandbox_policy \<Rightarrow> sandbox_result" where
  "apply_policy os prctl e p =
     (if \<not> se_enabled e then
        \<lparr>sr_success = True, sr_backend = se_backend e, sr_level = sp_level p,
         sr_error = Some ''sandbox disabled'', sr_context = None\<rparr>
      else if sp_level p = NoSandbox then
        \<lparr>sr_success = True, sr_backend = se_backend e, sr_level = NoSandbox, sr_error = None,
         sr_context = None\<rparr>
      else
        (case os of
           Linux \<Rightarrow> apply_seccomp_policy prctl p
         | Windows \<Rightarrow> apply_appcontainer_policy p
         | Macos \<Rightarrow> apply_macos_sandbox_policy p
         | OtherTarget \<Rightarrow>
             \<lparr>sr_success = False, sr_backend = NoBackend, sr_level = sp_level p,
              sr_error = Some ''Unsupported platform: no sandbox backend available'',
              sr_context = None\<rparr>))"

section \<open>What the levels promise\<close>

definition privileges :: "sandbox_policy \<Rightarrow> syscall_category set" where
  "privileges p = {c. allows_category p c}"

definition type_allowed :: "sandbox_level \<Rightarrow> string \<Rightarrow> bool" where
  "type_allowed l ty \<longleftrightarrow> is_ok (check_plugin_type_allowed l ty)"


section \<open>What the filter does\<close>

text \<open>
  \<open>exec prog pc a nr\<close> is the verdict of running \<open>prog\<close> from instruction \<open>pc\<close> with accumulator
  \<open>a\<close> on system call \<open>nr\<close>. The documented meaning of the instructions: a load of offset 0 takes
  the call's number, a comparison skips \<open>jt\<close> or \<open>jf\<close> instructions, a return ends the run.
\<close>

definition classic_bpf :: "(sock_filter list \<Rightarrow> nat \<Rightarrow> u32 \<Rightarrow> u32 \<Rightarrow> u32 option) \<Rightarrow> bool" where
  "classic_bpf exec \<longleftrightarrow>
     (\<forall>prog pc a nr. pc < length prog \<longrightarrow>
        (bf_code (prog ! pc) = BPF_LD_W_ABS \<and> bf_k (prog ! pc) = 0 \<longrightarrow>
           exec prog pc a nr = exec prog (pc + 1) nr nr)
      \<and> (bf_code (prog ! pc) = BPF_JMP_JEQ_K \<longrightarrow>
           exec prog pc a nr =
             exec prog (pc + 1 + unat (if a = bf_k (prog ! pc) then bf_jt (prog ! pc)
                                       else bf_jf (prog ! pc))) a nr)
      \<and> (bf_code (prog ! pc) = BPF_RET_K \<longrightarrow> exec prog pc a nr = Some (bf_k (prog ! pc))))"

definition seccomp_verdict ::
  "(sock_filter list \<Rightarrow> nat \<Rightarrow> u32 \<Rightarrow> u32 \<Rightarrow> u32 option) \<Rightarrow> sock_filter list \<Rightarrow> u32 \<Rightarrow> u32 option"
where
  "seccomp_verdict exec prog nr = exec prog 0 0 nr"

lemma filter_nth:
  "length (build_bpf_filter xs) = length xs + 3"
  "build_bpf_filter xs ! 0 = \<lparr>bf_code = BPF_LD_W_ABS, bf_jt = 0, bf_jf = 0, bf_k = 0\<rparr>"
  "i < length xs \<Longrightarrow> build_bpf_filter xs ! Suc i = jeq_insn (1 + length xs) (Suc i) (xs ! i)"
  "build_bpf_filter xs ! Suc (length xs)
     = \<lparr>bf_code = BPF_RET_K, bf_jt = 0, bf_jf = 0, bf_k = SECCOMP_RET_ALLOW\<rparr>"
  by (simp_all add: build_bpf_filter_def nth_append del: upt_Suc)

lemma jeq_target:
  assumes "i < length xs" "length xs \<le> 256"
  shows "Suc (Suc i) + unat (bf_jt (jeq_insn (1 + length xs) (Suc i) nr)) = Suc (length xs)"
proof -
  have small: "unat (of_nat n :: u8) = n" if "n < 256" for n
    using that by (simp add: unat_of_nat)
  have "bf_jt (jeq_insn (1 + length xs) (Suc i) nr) = of_nat (length xs - Suc i)"
    by (simp add: jeq_insn_def del: of_nat_diff)
  moreover have "unat (of_nat (length xs - Suc i) :: u8) = length xs - Suc i"
    by (rule small) (use assms in linarith)
  ultimately show ?thesis using assms(1) by (simp only:)
qed

lemma comparisons_allow:
  assumes bpf: "classic_bpf exec" and len: "length xs \<le> 256" and i: "i \<le> length xs"
  shows "exec (build_bpf_filter xs) (Suc i) a nr = Some SECCOMP_RET_ALLOW"
  using i
proof (induction "length xs - i" arbitrary: i)
  case 0
  then have "i = length xs" by simp
  then show ?case
    using bpf unfolding classic_bpf_def by (simp add: filter_nth BPF_LD_W_ABS_def BPF_JMP_JEQ_K_def
      BPF_RET_K_def)
next
  case (Suc n)
  then have i: "i < length xs" by simp
  let ?p = "build_bpf_filter xs" and ?j = "jeq_insn (1 + length xs) (Suc i) (xs ! i)"
  have "exec ?p (Suc i) a nr
      = exec ?p (Suc i + 1 + unat (if a = bf_k ?j then bf_jt ?j else bf_jf ?j)) a nr"
    using bpf i unfolding classic_bpf_def by (simp add: filter_nth jeq_insn_def)
  also have "\<dots> = Some SECCOMP_RET_ALLOW"
  proof (cases "a = bf_k ?j")
    case True
    have "exec ?p (Suc (length xs)) a nr = Some SECCOMP_RET_ALLOW"
      using bpf unfolding classic_bpf_def by (simp add: filter_nth BPF_LD_W_ABS_def
        BPF_JMP_JEQ_K_def BPF_RET_K_def)
    then show ?thesis using True jeq_target [OF i len, of "xs ! i"] by simp
  next
    case False
    have "exec ?p (Suc (Suc i)) a nr = Some SECCOMP_RET_ALLOW"
      using Suc.hyps(1) [of "Suc i"] Suc.hyps(2) i by simp
    then show ?thesis using False by (simp add: jeq_insn_def)
  qed
  finally show ?case .
qed

text \<open>C19: The filter allows every system call. The comparison that fails last falls through to
  the next instruction, which is the return that allows; the return that kills, behind it, is
  reached by no path. This holds of every list the code can pass, so also of the filter of the
  red policy, for which network and process creation are let through.\<close>

theorem seccomp_filter_allows_all:
  assumes "classic_bpf exec" "length xs \<le> 256"
  shows "seccomp_verdict exec (build_bpf_filter xs) nr = Some SECCOMP_RET_ALLOW"
proof -
  have "seccomp_verdict exec (build_bpf_filter xs) nr = exec (build_bpf_filter xs) (Suc 0) nr nr"
    using assms(1) unfolding classic_bpf_def seccomp_verdict_def by (simp add: filter_nth)
  then show ?thesis using comparisons_allow [OF assms, of 0] by simp
qed

text \<open>A machine with that meaning.\<close>

function bpf_run :: "sock_filter list \<Rightarrow> nat \<Rightarrow> u32 \<Rightarrow> u32 \<Rightarrow> u32 option" where
  "bpf_run prog pc a nr =
     (if length prog \<le> pc then None
      else if bf_code (prog ! pc) = BPF_LD_W_ABS then bpf_run prog (pc + 1) nr nr
      else if bf_code (prog ! pc) = BPF_JMP_JEQ_K then
        bpf_run prog (pc + 1 + unat (if a = bf_k (prog ! pc) then bf_jt (prog ! pc)
                                     else bf_jf (prog ! pc))) a nr
      else if bf_code (prog ! pc) = BPF_RET_K then Some (bf_k (prog ! pc))
      else None)"
  by pat_completeness auto
termination
  by (relation "measure (\<lambda>(prog, pc, _, _). length prog - pc)") auto

declare bpf_run.simps [simp del]

lemma bpf_run_classic: "classic_bpf bpf_run"
  unfolding classic_bpf_def
  by (intro allI impI conjI; subst bpf_run.simps)
     (simp_all add: BPF_LD_W_ABS_def BPF_JMP_JEQ_K_def BPF_RET_K_def)

lemma seccomp_filter_allows_all_witness:
  "seccomp_verdict bpf_run (build_bpf_filter (allowed_syscalls red_policy)) 59 = Some SECCOMP_RET_ALLOW
   \<and> 59 \<notin> set (allowed_syscalls red_policy) \<and> syscall_name_to_number ''execve'' = Some 59"
proof -
  have s: "allowed_syscalls red_policy
      = [0, 1, 9, 10, 11, 12, 24, 28, 35, 60, 96, 186, 201, 202, 219, 228, 230, 231]"
    by (simp add: allowed_syscalls_def red_policy_def policy_default_def linux_syscalls_def
          syscall_name_to_number_def List.map_filter_def)
  have "seccomp_verdict bpf_run (build_bpf_filter (allowed_syscalls red_policy)) 59
      = Some SECCOMP_RET_ALLOW"
    by (rule seccomp_filter_allows_all [OF bpf_run_classic]) (simp add: s)
  then show ?thesis by (simp add: s syscall_name_to_number_def)
qed

end
