(* ===== verification/Plugin_Manager.thy ===== *)
theory Plugin_Manager
  imports Platform Stages Key_Rotation Sidecar
begin

text \<open>
  \<open>core/src/plugin/manager.rs\<close> and \<open>core/src/plugin/phase.rs\<close>: search paths, the trust
  store, the decision which trust a library's signature earns, the registration of the plugins
  of a library, their life cycle and the dispatch table. Dynamic loading, Ed25519 and the file
  system are parameters: what a library exports is a record of results. The theorem is that
  a plugin is registered only through the gate, with the trust its signature earned.
\<close>

section \<open>Phases\<close>

definition PHASE_PRE_FILTER :: u32 where "PHASE_PRE_FILTER = 0x0001"
definition PHASE_FILTER :: u32 where "PHASE_FILTER = 0x0002"
definition PHASE_ASSEMBLY :: u32 where "PHASE_ASSEMBLY = 0x0004"
definition PHASE_PROCESSING :: u32 where "PHASE_PROCESSING = 0x0008"
definition PHASE_FORMATTING :: u32 where "PHASE_FORMATTING = 0x0010"
definition PHASE_CONFIG :: u32 where "PHASE_CONFIG = 0x0040"
definition PHASE_KEY :: u32 where "PHASE_KEY = 0x0080"
definition PHASE_HOSTINFO :: u32 where "PHASE_HOSTINFO = 0x0100"
definition PHASE_SYSCALL :: u32 where "PHASE_SYSCALL = 0x0200"
definition PHASE_POLICY :: u32 where "PHASE_POLICY = 0x0400"
definition PHASE_FIELD_PROVIDER :: u32 where "PHASE_FIELD_PROVIDER = 0x0800"

lemmas phase_defs = PHASE_PRE_FILTER_def PHASE_FILTER_def PHASE_ASSEMBLY_def PHASE_PROCESSING_def
  PHASE_FORMATTING_def PHASE_CONFIG_def PHASE_KEY_def PHASE_HOSTINFO_def PHASE_SYSCALL_def
  PHASE_POLICY_def PHASE_FIELD_PROVIDER_def

definition PHASE_NAMES :: "(string \<times> u32) list" where
  "PHASE_NAMES =
     [(''PRE_FILTER'', PHASE_PRE_FILTER), (''FILTER'', PHASE_FILTER), (''ASSEMBLY'', PHASE_ASSEMBLY),
      (''PROCESSING'', PHASE_PROCESSING), (''FORMATTING'', PHASE_FORMATTING),
      (''CONFIG'', PHASE_CONFIG), (''KEY'', PHASE_KEY), (''HOSTINFO'', PHASE_HOSTINFO),
      (''SYSCALL'', PHASE_SYSCALL), (''FIELD_PROVIDER'', PHASE_FIELD_PROVIDER)]"

definition PHASE_ALL :: u32 where
  "PHASE_ALL = PHASE_PRE_FILTER OR PHASE_FILTER OR PHASE_ASSEMBLY OR PHASE_PROCESSING
     OR PHASE_FORMATTING OR PHASE_CONFIG OR PHASE_KEY OR PHASE_HOSTINFO OR PHASE_SYSCALL
     OR PHASE_FIELD_PROVIDER"

definition phase_name :: "u32 \<Rightarrow> string" where
  "phase_name p =
     (case List.find (\<lambda>(_, q). q = p) PHASE_NAMES of Some (n, _) \<Rightarrow> n | None \<Rightarrow> ''UNKNOWN'')"

section \<open>Libraries and plugins\<close>

text \<open>A path is a directory and a file name; a name need not be UTF-8.\<close>

type_synonym lib_path = "string \<times> bytes"

text \<open>What a loaded library exports. The interface's information is \<open>None\<close> for a null pointer.\<close>

record 'v plugin_info =
  pi_name :: bytes
  pi_version :: u32
  pi_abi :: u32
  pi_phase :: u32
  pi_vtable :: "'v option"

record 'v library =
  lib_query_multi :: "(u32 \<Rightarrow> 'v plugin_info list option) option"
  lib_query :: "(u32 \<Rightarrow> 'v plugin_info option) option"
  lib_init :: "int option"
  lib_shutdown :: bool

datatype trust_level = Blue | Yellow | Red

record plugin_meta =
  pm_name :: bytes
  pm_version :: u32
  pm_abi :: u32
  pm_phase :: u32

record 'v loaded_plugin =
  lp_info :: plugin_meta
  lp_path :: lib_path
  lp_initialised :: bool
  lp_trust :: trust_level
  lp_vtable :: "'v option"
  lp_library :: "'v library option"

datatype plugin_error =
    NotFound bytes
  | LoadFailed string
  | IncompatibleAbi bytes u32 u32
  | MissingSymbol string
  | QueryRejected bytes u32
  | AlreadyLoaded bytes
  | SignatureInvalid bytes string
  | UnsignedRejected bytes
  | InvalidFileName lib_path

definition CORE_ABI_VERSION :: u32 where "CORE_ABI_VERSION = 0x000001"

record 'v plugin_manager =
  mg_plugins :: "(bytes \<times> 'v loaded_plugin) list"
  mg_search_paths :: "string list"
  mg_abi :: u32
  mg_dev :: bool
  mg_anchors :: "bytes list"
  mg_revoked :: "bytes list"
  mg_allow_red :: bool

text \<open>The system and the cryptography the manager calls.\<close>

record ('v, 'vk) plugin_env =
  pe_open :: "lib_path \<Rightarrow> string + 'v library"
  pe_entries :: "string \<Rightarrow> bytes list option"
  pe_files :: "string \<times> bytes \<Rightarrow> file_state"
  pe_key :: "bytes \<Rightarrow> 'vk option"
  pe_key_bytes :: "'vk \<Rightarrow> bytes"
  pe_verify_strict :: "'vk \<Rightarrow> bytes \<Rightarrow> bytes \<Rightarrow> bool"
  pe_sha :: "bytes \<Rightarrow> bytes"

definition default_plugin_paths :: "target \<Rightarrow> environment \<Rightarrow> string list" where
  "default_plugin_paths os env =
     (case env ''DO_LOG_PLUGIN_DIR'' of
        None \<Rightarrow> []
      | Some dirs \<Rightarrow>
          filter (\<lambda>d. d \<noteq> [])
            (map (\<lambda>d. bytes_str (trim d))
              (split_at (if os = Windows then 0x3B else 0x3A) (str_bytes dirs))))
     @ [''./plugins'']
     @ (case os of
          Linux \<Rightarrow> [''/usr/lib/dologger/plugins'']
        | Macos \<Rightarrow> [''/usr/local/lib/dologger/plugins'']
        | Windows \<Rightarrow> [program_data env @ [CHR 0x5C] @ ''dologger'' @ [CHR 0x5C] @ ''plugins'']
        | OtherTarget \<Rightarrow> [])"

datatype name_error = NameEmpty | NameTooLong | NameInvalid bytes

definition name_byte :: "u8 \<Rightarrow> bool" where
  "name_byte b \<longleftrightarrow> 0x61 \<le> b \<and> b \<le> 0x7A \<or> 0x30 \<le> b \<and> b \<le> 0x39 \<or> b \<in> {0x2D, 0x5F, 0x2E}"

definition validate_plugin_name :: "bytes \<Rightarrow> name_error + unit" where
  "validate_plugin_name s =
     (if s = [] then Inl NameEmpty
      else if 128 < length s then Inl NameTooLong
      else if \<not> list_all name_byte s then Inl (NameInvalid s)
      else Inr ())"

definition manager_new :: "string list \<Rightarrow> bool \<Rightarrow> 'v plugin_manager" where
  "manager_new paths dev =
     \<lparr>mg_plugins = [], mg_search_paths = paths, mg_abi = CORE_ABI_VERSION, mg_dev = dev,
      mg_anchors = [], mg_revoked = [], mg_allow_red = False\<rparr>"

definition manager_with_default_paths ::
  "target \<Rightarrow> environment \<Rightarrow> bool \<Rightarrow> 'v plugin_manager" where
  "manager_with_default_paths os env dev = manager_new (default_plugin_paths os env) dev"

section \<open>Trust anchors\<close>

definition set_trust_anchor :: "bytes \<Rightarrow> 'v plugin_manager \<Rightarrow> 'v plugin_manager" where
  "set_trust_anchor k m = m\<lparr>mg_anchors := [k]\<rparr>"

definition set_trust_anchors :: "bytes list \<Rightarrow> 'v plugin_manager \<Rightarrow> 'v plugin_manager" where
  "set_trust_anchors ks m = m\<lparr>mg_anchors := ks\<rparr>"

definition add_trust_anchor :: "bytes \<Rightarrow> 'v plugin_manager \<Rightarrow> 'v plugin_manager" where
  "add_trust_anchor k m =
     (if k \<in> set (mg_anchors m) then m else m\<lparr>mg_anchors := mg_anchors m @ [k]\<rparr>)"

definition anchor_fingerprint :: "('v, 'vk) plugin_env \<Rightarrow> bytes \<Rightarrow> bytes option" where
  "anchor_fingerprint pe k =
     map_option (fingerprint_key (pe_sha pe) (pe_key_bytes pe)) (pe_key pe k)"

definition revoke_trust_anchor ::
  "('v, 'vk) plugin_env \<Rightarrow> bytes \<Rightarrow> 'v plugin_manager \<Rightarrow> 'v plugin_manager" where
  "revoke_trust_anchor pe fp m =
     m\<lparr>mg_revoked := List.insert fp (mg_revoked m),
       mg_anchors := filter (\<lambda>k. anchor_fingerprint pe k \<noteq> Some fp) (mg_anchors m)\<rparr>"

definition set_allow_red_plugins :: "bool \<Rightarrow> 'v plugin_manager \<Rightarrow> 'v plugin_manager" where
  "set_allow_red_plugins b m = m\<lparr>mg_allow_red := b\<rparr>"

datatype trust_store_error =
    ActiveUnreadable string
  | KeyNotHex nat from_hex_error
  | KeyLength nat nat
  | RevokedUnreadable string
  | FingerprintNotHex nat from_hex_error
  | FingerprintLength nat
  | UnknownReason nat bytes

definition skipped :: "bytes \<Rightarrow> bool" where
  "skipped line \<longleftrightarrow> line = [] \<or> starts_with [0x23] line"

fun read_anchors :: "nat \<Rightarrow> bytes list \<Rightarrow> trust_store_error + bytes list" where
  "read_anchors i [] = Inr []"
| "read_anchors i (raw # rest) =
     (let line = trim raw in
      if skipped line then read_anchors (i + 1) rest
      else
        (case hex_decode line of
           Inl e \<Rightarrow> Inl (KeyNotHex (i + 1) e)
         | Inr k \<Rightarrow>
             if length k \<noteq> 32 then Inl (KeyLength (i + 1) (length k))
             else r_bind (read_anchors (i + 1) rest) (\<lambda>ks. Inr (k # ks))))"

text \<open>\<open>str::split_whitespace\<close> on a trimmed line: its words.\<close>

function words_from :: "bytes \<Rightarrow> bytes \<Rightarrow> bytes list" where
  "words_from acc s =
     (if s = [] then (if acc = [] then [] else [acc])
      else
        (case List.find (\<lambda>w. starts_with w s) white_space of
           Some w \<Rightarrow> (if acc = [] then [] else [acc]) @ words_from [] (drop (max 1 (length w)) s)
         | None \<Rightarrow> words_from (acc @ [hd s]) (tl s)))"
  by pat_completeness auto
termination
  by (relation "measure (length \<circ> snd)") (auto simp: neq_Nil_conv)

declare words_from.simps [simp del]

definition read_revocation :: "nat \<Rightarrow> bytes list \<Rightarrow> trust_store_error + bytes" where
  "read_revocation i ws =
     (case hex_decode (case ws of [] \<Rightarrow> [] | w # _ \<Rightarrow> w) of
        Inl e \<Rightarrow> Inl (FingerprintNotHex (i + 1) e)
      | Inr fp \<Rightarrow>
          if length fp \<noteq> 32 then Inl (FingerprintLength (i + 1))
          else
            (case ws of
               _ # reason # _ \<Rightarrow>
                 if crl_reason_parse (bytes_str reason) = None
                 then Inl (UnknownReason (i + 1) reason) else Inr fp
             | _ \<Rightarrow> Inr fp))"

fun read_revoked :: "nat \<Rightarrow> bytes list \<Rightarrow> trust_store_error + bytes list" where
  "read_revoked i [] = Inr []"
| "read_revoked i (raw # rest) =
     (let line = trim raw in
      if skipped line then read_revoked (i + 1) rest
      else
        r_bind (read_revocation i (words_from [] line)) (\<lambda>fp.
        r_bind (read_revoked (i + 1) rest) (\<lambda>fps. Inr (fp # fps))))"

definition load_trust_store ::
  "('v, 'vk) plugin_env \<Rightarrow> string \<Rightarrow> 'v plugin_manager
   \<Rightarrow> (trust_store_error + unit) \<times> 'v plugin_manager" where
  "load_trust_store pe dir m =
     (let anchors =
        (case read_to_string (pe_files pe (dir, str_bytes ''active.pub'')) of
           Inl e \<Rightarrow> Inl (ActiveUnreadable e) | Inr bs \<Rightarrow> read_anchors 0 (str_lines bs));
          revoked =
        (if pe_files pe (dir, str_bytes ''revoked.txt'') = Missing then Inr []
         else
           (case read_to_string (pe_files pe (dir, str_bytes ''revoked.txt'')) of
              Inl e \<Rightarrow> Inl (RevokedUnreadable e) | Inr bs \<Rightarrow> read_revoked 0 (str_lines bs)))
      in
      case r_bind anchors (\<lambda>ks. r_bind revoked (\<lambda>fps. Inr (ks, fps))) of
        Inl e \<Rightarrow> (Inl e, m)
      | Inr (ks, fps) \<Rightarrow> (Inr (), m\<lparr>mg_anchors := ks, mg_revoked := fps\<rparr>))"

section \<open>Trust\<close>

definition file_stem :: "bytes \<Rightarrow> bytes" where
  "file_stem n =
     (let before = rev (tl (dropWhile (\<lambda>b. b \<noteq> 0x2E) (rev n))) in
      if 0x2E \<notin> set n \<or> before = [] then n else before)"

definition extension :: "bytes \<Rightarrow> bytes" where
  "extension n = (if file_stem n = n then [] else rev (takeWhile (\<lambda>b. b \<noteq> 0x2E) (rev n)))"

definition is_plugin_library :: "bytes \<Rightarrow> bool" where
  "is_plugin_library n \<longleftrightarrow>
     (if utf8_valid (extension n) then extension n else [])
       \<in> {str_bytes ''so'', str_bytes ''dylib'', str_bytes ''dll''}"

definition sig_path :: "lib_path \<Rightarrow> lib_path" where
  "sig_path p = (fst p, (if utf8_valid (snd p) then snd p else []) @ str_bytes ''.sig'')"

datatype anchor_result = BadAnchor | Verified | NotVerified bool

text \<open>The pass over the anchors; the flag says that a revoked one matched.\<close>

fun check_anchors ::
  "('v, 'vk) plugin_env \<Rightarrow> bytes list \<Rightarrow> bytes \<Rightarrow> bytes \<Rightarrow> bytes list \<Rightarrow> bool \<Rightarrow> anchor_result" where
  "check_anchors pe revoked data sig [] seen = NotVerified seen"
| "check_anchors pe revoked data sig (k # ks) seen =
     (case pe_key pe k of
        None \<Rightarrow> BadAnchor
      | Some vk \<Rightarrow>
          (let matches = pe_verify_strict pe vk data sig in
           if fingerprint_key (pe_sha pe) (pe_key_bytes pe) vk \<in> set revoked
           then check_anchors pe revoked data sig ks (seen \<or> matches)
           else if matches then Verified
           else check_anchors pe revoked data sig ks seen))"

definition determine_trust ::
  "('v, 'vk) plugin_env \<Rightarrow> lib_path \<Rightarrow> bytes \<Rightarrow> 'v plugin_manager \<Rightarrow> plugin_error + trust_level" where
  "determine_trust pe path name m =
     (if mg_anchors m = [] then Inr Red
      else if pe_files pe (sig_path path) = Missing then Inr Red
      else
        (case (pe_files pe path, pe_files pe (sig_path path)) of
           (Contents data, Contents sig) \<Rightarrow>
             if length sig \<noteq> 64
             then Inl (SignatureInvalid name ''signature sidecar is not a valid Ed25519 signature'')
             else
               (case check_anchors pe (mg_revoked m) data sig (mg_anchors m) False of
                  BadAnchor \<Rightarrow>
                    Inl (SignatureInvalid name ''trust anchor is not a valid Ed25519 public key'')
                | Verified \<Rightarrow> Inr Blue
                | NotVerified True \<Rightarrow>
                    Inl (SignatureInvalid name ''signature is from a revoked key'')
                | NotVerified False \<Rightarrow>
                    Inl (SignatureInvalid name
                      ''signature does not verify against any active trust anchor''))
         | (Contents _, _) \<Rightarrow> Inl (LoadFailed ''Cannot read signature'')
         | _ \<Rightarrow> Inl (LoadFailed ''Cannot read for signature verification'')))"

section \<open>Registration\<close>

definition register_plugin ::
  "('v, 'vk) plugin_env \<Rightarrow> lib_path \<Rightarrow> 'v library \<Rightarrow> 'v plugin_info \<Rightarrow> bytes \<Rightarrow> 'v plugin_manager
   \<Rightarrow> (plugin_error + bytes) \<times> 'v plugin_manager" where
  "register_plugin pe path lib info fallback m =
     (if pi_abi info \<noteq> mg_abi m then (Inl (IncompatibleAbi fallback (mg_abi m) (pi_abi info)), m)
      else
        (let name = (if utf8_valid (pi_name info) then pi_name info else fallback) in
         if map_of (mg_plugins m) name \<noteq> None then (Inl (AlreadyLoaded name), m)
         else
           (case determine_trust pe path name m of
              Inl e \<Rightarrow> (Inl e, m)
            | Inr trust \<Rightarrow>
                if trust = Red \<and> \<not> mg_dev m \<and> \<not> mg_allow_red m
                then (Inl (UnsignedRejected name), m)
                else
                  (Inr name,
                   m\<lparr>mg_plugins := mg_plugins m @
                      [(name, \<lparr>lp_info = \<lparr>pm_name = name, pm_version = pi_version info,
                                 pm_abi = pi_abi info, pm_phase = pi_phase info\<rparr>,
                               lp_path = path, lp_initialised = False, lp_trust = trust,
                               lp_vtable = pi_vtable info, lp_library = Some lib\<rparr>)]\<rparr>))))"

fun register_all ::
  "('v, 'vk) plugin_env \<Rightarrow> lib_path \<Rightarrow> 'v library \<Rightarrow> bytes \<Rightarrow> 'v plugin_info list
   \<Rightarrow> 'v plugin_manager \<Rightarrow> (plugin_error + bytes list) \<times> 'v plugin_manager" where
  "register_all pe path lib fallback [] m = (Inr [], m)"
| "register_all pe path lib fallback (i # is) m =
     (case register_plugin pe path lib i fallback m of
        (Inl e, m') \<Rightarrow> (Inl e, m')
      | (Inr n, m') \<Rightarrow>
          (case register_all pe path lib fallback is m' of
             (Inl e, m'') \<Rightarrow> (Inl e, m'')
           | (Inr ns, m'') \<Rightarrow> (Inr (n # ns), m'')))"

definition load_plugin ::
  "('v, 'vk) plugin_env \<Rightarrow> lib_path \<Rightarrow> 'v plugin_manager
   \<Rightarrow> (plugin_error + bytes list) \<times> 'v plugin_manager" where
  "load_plugin pe path m =
     (if \<not> utf8_valid (file_stem (snd path)) then (Inl (InvalidFileName path), m)
      else
        (let fallback = file_stem (snd path) in
         case pe_open pe path of
           Inl e \<Rightarrow> (Inl (LoadFailed e), m)
         | Inr lib \<Rightarrow>
             (case lib_query_multi lib of
                Some multi \<Rightarrow>
                  (case multi (mg_abi m) of
                     None \<Rightarrow> (Inl (QueryRejected fallback (mg_abi m)), m)
                   | Some infos \<Rightarrow> register_all pe path lib fallback infos m)
              | None \<Rightarrow>
                  (case lib_query lib of
                     None \<Rightarrow> (Inl (MissingSymbol ''plugin_query''), m)
                   | Some query \<Rightarrow>
                       (case query (mg_abi m) of
                          None \<Rightarrow> (Inl (QueryRejected fallback (mg_abi m)), m)
                        | Some info \<Rightarrow>
                            (case register_plugin pe path lib info fallback m of
                               (Inl e, m') \<Rightarrow> (Inl e, m')
                             | (Inr n, m') \<Rightarrow> (Inr [n], m')))))))"

fun discover_files ::
  "('v, 'vk) plugin_env \<Rightarrow> lib_path list \<Rightarrow> 'v plugin_manager
   \<Rightarrow> (lib_path \<times> plugin_error) list \<times> 'v plugin_manager" where
  "discover_files pe [] m = ([], m)"
| "discover_files pe (p # ps) m =
     (case load_plugin pe p m of
        (r, m') \<Rightarrow>
          (case discover_files pe ps m' of
             (es, m'') \<Rightarrow> (case r of Inl e \<Rightarrow> (p, e) # es | Inr _ \<Rightarrow> es, m'')))"

definition discover ::
  "('v, 'vk) plugin_env \<Rightarrow> 'v plugin_manager \<Rightarrow> (lib_path \<times> plugin_error) list \<times> 'v plugin_manager"
where
  "discover pe m =
     discover_files pe
       (concat (map (\<lambda>d. case pe_entries pe d of
                           None \<Rightarrow> []
                         | Some ns \<Rightarrow> map (Pair d) (filter is_plugin_library ns))
                    (mg_search_paths m))) m"

section \<open>Life cycle\<close>

definition set_initialised :: "bool \<Rightarrow> bytes \<Rightarrow> 'v plugin_manager \<Rightarrow> 'v plugin_manager" where
  "set_initialised b n m =
     m\<lparr>mg_plugins := map (\<lambda>(k, p). (k, if k = n then p\<lparr>lp_initialised := b\<rparr> else p)) (mg_plugins m)\<rparr>"

definition init_plugin ::
  "bytes \<Rightarrow> 'v plugin_manager \<Rightarrow> (plugin_error + unit) \<times> 'v plugin_manager" where
  "init_plugin n m =
     (case map_of (mg_plugins m) n of
        None \<Rightarrow> (Inl (NotFound n), m)
      | Some p \<Rightarrow>
          if lp_initialised p then (Inr (), m)
          else
            (case lp_library p of
               None \<Rightarrow> (Inl (LoadFailed ''Library handle not available''), m)
             | Some lib \<Rightarrow>
                 (case lib_init lib of
                    None \<Rightarrow> (Inl (MissingSymbol ''plugin_init''), m)
                  | Some _ \<Rightarrow> (Inr (), set_initialised True n m))))"

definition shutdown_plugin ::
  "bytes \<Rightarrow> 'v plugin_manager \<Rightarrow> (plugin_error + unit) \<times> 'v plugin_manager" where
  "shutdown_plugin n m =
     (case map_of (mg_plugins m) n of
        None \<Rightarrow> (Inl (NotFound n), m)
      | Some p \<Rightarrow>
          (case lp_library p of
             Some lib \<Rightarrow>
               if lib_shutdown lib then (Inr (), set_initialised False n m)
               else (Inl (MissingSymbol ''plugin_shutdown''), m)
           | None \<Rightarrow> (Inr (), set_initialised False n m)))"

definition shutdown_all :: "'v plugin_manager \<Rightarrow> 'v plugin_manager" where
  "shutdown_all m =
     (foldl (\<lambda>m n. snd (shutdown_plugin n m)) m (map fst (mg_plugins m)))\<lparr>mg_plugins := []\<rparr>"

definition plugin_get :: "bytes \<Rightarrow> 'v plugin_manager \<Rightarrow> 'v loaded_plugin option" where
  "plugin_get n m = map_of (mg_plugins m) n"

definition plugin_count :: "'v plugin_manager \<Rightarrow> nat" where
  "plugin_count m = length (mg_plugins m)"

definition plugin_names :: "'v plugin_manager \<Rightarrow> bytes list" where
  "plugin_names m = map fst (mg_plugins m)"

section \<open>Dispatch\<close>

text \<open>The one table of a plugin, read as the type that a phase selects.\<close>

record ('v, 'w) vtable_views =
  vv_filter :: "'v \<Rightarrow> 'w filter_entry"
  vv_processor :: "'v \<Rightarrow> 'w writer_entry"
  vv_formatter :: "'v \<Rightarrow> 'w formatter_entry"
  vv_provider :: "'v \<Rightarrow> 'w writer_entry"

definition mounted :: "u32 \<Rightarrow> (bytes \<times> 'v loaded_plugin) list \<Rightarrow> 'v list" where
  "mounted bits ps =
     concat (map (\<lambda>(_, p). case lp_vtable p of
                             None \<Rightarrow> []
                           | Some v \<Rightarrow> if pm_phase (lp_info p) AND bits \<noteq> 0 then [v] else []) ps)"

definition resolve_dispatch ::
  "('v, 'w) vtable_views \<Rightarrow> 'v plugin_manager \<Rightarrow> 'w plugin_dispatch" where
  "resolve_dispatch vv m =
     \<lparr>pd_filters = map (vv_filter vv) (mounted PHASE_FILTER (mg_plugins m)),
      pd_processors = map (vv_processor vv) (mounted PHASE_PROCESSING (mg_plugins m)),
      pd_formatters = map (vv_formatter vv) (mounted PHASE_FORMATTING (mg_plugins m)),
      pd_field_providers =
        map (vv_provider vv) (mounted (PHASE_FIELD_PROVIDER OR PHASE_HOSTINFO) (mg_plugins m))\<rparr>"

section \<open>The gate\<close>

text \<open>The trust a file earns under the manager's anchors.\<close>

definition earned :: "('v, 'vk) plugin_env \<Rightarrow> 'v plugin_manager \<Rightarrow> lib_path \<Rightarrow> trust_level \<Rightarrow> bool" where
  "earned pe m path trust \<longleftrightarrow>
     (case trust of
        Blue \<Rightarrow>
          (\<exists>data sig k vk. pe_files pe path = Contents data \<and> pe_files pe (sig_path path) = Contents sig
             \<and> k \<in> set (mg_anchors m) \<and> pe_key pe k = Some vk
             \<and> fingerprint_key (pe_sha pe) (pe_key_bytes pe) vk \<notin> set (mg_revoked m)
             \<and> pe_verify_strict pe vk data sig)
      | Red \<Rightarrow>
          (mg_dev m \<or> mg_allow_red m)
          \<and> (mg_anchors m = [] \<or> pe_files pe (sig_path path) = Missing)
      | Yellow \<Rightarrow> False)"

definition admitted ::
  "('v, 'vk) plugin_env \<Rightarrow> 'v plugin_manager \<Rightarrow> bytes \<times> 'v loaded_plugin \<Rightarrow> bool" where
  "admitted pe m np \<longleftrightarrow>
     earned pe m (lp_path (snd np)) (lp_trust (snd np)) \<and> pm_abi (lp_info (snd np)) = mg_abi m
     \<and> pm_name (lp_info (snd np)) = fst np \<and> \<not> lp_initialised (snd np)"

text \<open>What a step from \<open>m\<close> to \<open>m'\<close> adds to the plugins has been admitted, and nothing else changes.\<close>

definition gated :: "('v, 'vk) plugin_env \<Rightarrow> 'v plugin_manager \<Rightarrow> 'v plugin_manager \<Rightarrow> bool" where
  "gated pe m m' \<longleftrightarrow>
     (\<exists>new. mg_plugins m' = mg_plugins m @ new \<and> list_all (admitted pe m) new
        \<and> (distinct (plugin_names m) \<longrightarrow> distinct (plugin_names m')))
     \<and> m' = m\<lparr>mg_plugins := mg_plugins m'\<rparr>"

lemma gated_refl [simp]: "gated pe m m"
  by (auto simp: gated_def intro: exI [of _ "[]"])

lemma admitted_same:
  "m' = m\<lparr>mg_plugins := ps\<rparr> \<Longrightarrow> admitted pe m' = admitted pe m"
  by (auto simp: admitted_def earned_def fun_eq_iff split: trust_level.split)

lemma gated_trans:
  assumes a: "gated pe m m1" and b: "gated pe m1 m2"
  shows "gated pe m m2"
proof -
  obtain n1 where n1: "mg_plugins m1 = mg_plugins m @ n1" "list_all (admitted pe m) n1"
    "distinct (plugin_names m) \<longrightarrow> distinct (plugin_names m1)" "m1 = m\<lparr>mg_plugins := mg_plugins m1\<rparr>"
    using a unfolding gated_def by blast
  obtain n2 where n2: "mg_plugins m2 = mg_plugins m1 @ n2" "list_all (admitted pe m1) n2"
    "distinct (plugin_names m1) \<longrightarrow> distinct (plugin_names m2)" "m2 = m1\<lparr>mg_plugins := mg_plugins m2\<rparr>"
    using b unfolding gated_def by blast
  have "admitted pe m1 = admitted pe m" by (rule admitted_same [OF n1(4)])
  then have "list_all (admitted pe m) (n1 @ n2)" using n1(2) n2(2) by simp
  moreover have "m2 = m\<lparr>mg_plugins := mg_plugins m2\<rparr>"
    by (subst n2(4), subst n1(4)) simp
  ultimately show ?thesis
    unfolding gated_def using n1(1,3) n2(1,3) by (intro conjI exI [of _ "n1 @ n2"]) auto
qed

lemma check_anchors_verified:
  "check_anchors pe revoked data sig ks seen = Verified \<Longrightarrow>
     \<exists>k vk. k \<in> set ks \<and> pe_key pe k = Some vk
       \<and> fingerprint_key (pe_sha pe) (pe_key_bytes pe) vk \<notin> set revoked
       \<and> pe_verify_strict pe vk data sig"
proof (induction ks arbitrary: seen)
  case (Cons k ks)
  then obtain vk where vk: "pe_key pe k = Some vk" by (auto split: option.splits)
  show ?case
  proof (cases "fingerprint_key (pe_sha pe) (pe_key_bytes pe) vk \<in> set revoked
      \<or> \<not> pe_verify_strict pe vk data sig")
    case True
    then obtain seen' where "check_anchors pe revoked data sig ks seen' = Verified"
      using Cons.prems vk by (auto simp: Let_def split: if_splits)
    from Cons.IH [OF this] show ?thesis by auto
  next
    case False
    with vk show ?thesis by auto
  qed
qed simp

lemma determine_trust_earned:
  assumes "determine_trust pe path name m = Inr trust" "trust = Red \<longrightarrow> mg_dev m \<or> mg_allow_red m"
  shows "earned pe m path trust"
proof (cases "mg_anchors m = [] \<or> pe_files pe (sig_path path) = Missing")
  case True
  then show ?thesis using assms by (auto simp: determine_trust_def earned_def split: if_splits)
next
  case False
  with assms(1) obtain data sig where f: "pe_files pe path = Contents data"
    "pe_files pe (sig_path path) = Contents sig" "length sig = 64"
    by (auto simp: determine_trust_def split: file_state.splits if_splits)
  with False assms(1) have "check_anchors pe (mg_revoked m) data sig (mg_anchors m) False = Verified"
    "trust = Blue"
    by (auto simp: determine_trust_def split: anchor_result.splits bool.splits)
  then show ?thesis using f check_anchors_verified by (fastforce simp: earned_def)
qed

lemma register_gated:
  assumes "register_plugin pe path lib info fallback m = (r, m')"
  shows "gated pe m m'"
proof (cases r)
  case (Inl e)
  then have "m' = m"
    using assms by (auto simp: register_plugin_def Let_def split: if_splits sum.splits)
  then show ?thesis by simp
next
  case (Inr n)
  obtain trust where t: "determine_trust pe path n m = Inr trust"
    "trust = Red \<longrightarrow> mg_dev m \<or> mg_allow_red m" "map_of (mg_plugins m) n = None"
    "pi_abi info = mg_abi m"
    "m' = m\<lparr>mg_plugins := mg_plugins m @
       [(n, \<lparr>lp_info = \<lparr>pm_name = n, pm_version = pi_version info, pm_abi = pi_abi info,
               pm_phase = pi_phase info\<rparr>, lp_path = path, lp_initialised = False, lp_trust = trust,
             lp_vtable = pi_vtable info, lp_library = Some lib\<rparr>)]\<rparr>"
    using assms Inr by (auto simp: register_plugin_def Let_def split: if_splits sum.splits)
  have "n \<notin> fst ` set (mg_plugins m)" using t(3) by (simp add: map_of_eq_None_iff)
  then show ?thesis
    using determine_trust_earned [OF t(1,2)] t(4)
    by (auto simp: t(5) gated_def admitted_def plugin_names_def)
qed

lemma register_all_gated:
  "register_all pe path lib fallback is m = (r, m') \<Longrightarrow> gated pe m m'"
proof (induction "is" arbitrary: m r m')
  case (Cons i "is")
  obtain r1 m1 where r1: "register_plugin pe path lib i fallback m = (r1, m1)" by fastforce
  note g = register_gated [OF r1]
  show ?case
  proof (cases r1)
    case (Inl e)
    with Cons.prems r1 g show ?thesis by auto
  next
    case (Inr n)
    obtain r2 m2 where r2: "register_all pe path lib fallback is m1 = (r2, m2)" by fastforce
    with Cons.prems r1 Inr have "m' = m2" by (auto split: sum.splits)
    with Cons.IH [OF r2] g show ?thesis using gated_trans by blast
  qed
qed simp

lemma load_plugin_gated: "load_plugin pe path m = (r, m') \<Longrightarrow> gated pe m m'"
  by (auto simp: load_plugin_def Let_def dest: register_all_gated register_gated
           split: if_splits sum.splits option.splits prod.splits)

lemma discover_files_gated: "discover_files pe ps m = (es, m') \<Longrightarrow> gated pe m m'"
proof (induction ps arbitrary: m es m')
  case (Cons p ps)
  obtain r m1 where r: "load_plugin pe p m = (r, m1)" by fastforce
  obtain es2 m2 where d: "discover_files pe ps m1 = (es2, m2)" by fastforce
  have "m' = m2" using Cons.prems r d by simp
  then show ?case using Cons.IH [OF d] load_plugin_gated [OF r] gated_trans by blast
qed simp

text \<open>C11: Loading a library, or discovering all of them, registers a plugin only through the gate:
  each new one declares the core's ABI version and either has trust Blue, and then its file's
  signature verifies strictly under an active anchor whose fingerprint is not revoked, or has
  trust Red, and then unsigned plugins are allowed and there was no signature or no anchor to
  check it with. No two plugins share a name, none starts initialised, and the anchors, the
  revocations and the plugins already there stay as they were.\<close>

theorem plugin_trust_gate:
  "gated pe m (snd (load_plugin pe path m)) \<and> gated pe m (snd (discover pe m))"
  unfolding discover_def
  by (intro conjI load_plugin_gated [OF prod.collapse [symmetric]]
        discover_files_gated [OF prod.collapse [symmetric]])

text \<open>Revoking the only anchor switches the verification off: a library signed with the revoked
  key, which was Blue, is then merely unsigned, so it loads wherever unsigned plugins do,
  although revocation is documented to hold regardless of that permission. With another anchor
  left, the same library is refused.\<close>

theorem revoked_last_anchor_disarms:
  assumes key: "pe_key pe k = Some vk" "fingerprint_key (pe_sha pe) (pe_key_bytes pe) vk = fp"
    and files: "pe_files pe path = Contents data" "pe_files pe (sig_path path) = Contents sig"
      "length sig = 64" "pe_verify_strict pe vk data sig"
    and m: "mg_anchors m = [k]" "fp \<notin> set (mg_revoked m)"
  shows "determine_trust pe path name m = Inr Blue
    \<and> determine_trust pe path name (revoke_trust_anchor pe fp m) = Inr Red
    \<and> (\<forall>k' vk'. pe_key pe k' = Some vk' \<longrightarrow> k' \<noteq> k \<longrightarrow> \<not> pe_verify_strict pe vk' data sig \<longrightarrow>
         (\<exists>why. determine_trust pe path name (add_trust_anchor k' (revoke_trust_anchor pe fp m))
           = Inl (SignatureInvalid name why)))"
proof -
  have "mg_anchors (revoke_trust_anchor pe fp m) = []"
    using key m by (simp add: revoke_trust_anchor_def anchor_fingerprint_def)
  then show ?thesis
    using assms
    by (auto simp: determine_trust_def add_trust_anchor_def Let_def)
qed

text \<open>A world with one library, its signature and one key.\<close>

definition demo_env :: "(unit, unit) plugin_env" where
  "demo_env =
     \<lparr>pe_open = (\<lambda>_. Inr \<lparr>lib_query_multi = None,
        lib_query = Some (\<lambda>_. Some \<lparr>pi_name = [0x70], pi_version = 1, pi_abi = CORE_ABI_VERSION,
          pi_phase = PHASE_FILTER, pi_vtable = Some ()\<rparr>), lib_init = Some 0, lib_shutdown = True\<rparr>),
      pe_entries = (\<lambda>_. None), pe_files = (\<lambda>_. Contents (replicate 64 0)),
      pe_key = (\<lambda>_. Some ()), pe_key_bytes = (\<lambda>_. []), pe_verify_strict = (\<lambda>_ _ _. True),
      pe_sha = (\<lambda>_. [1])\<rparr>"

lemma revoked_last_anchor_disarms_witness:
  "determine_trust demo_env (''d'', [0x61]) [0x70] (set_trust_anchor [7] (manager_new [] False)) = Inr Blue
   \<and> determine_trust demo_env (''d'', [0x61]) [0x70]
       (revoke_trust_anchor demo_env [1] (set_trust_anchor [7] (manager_new [] False))) = Inr Red"
proof -
  let ?m = "set_trust_anchor [7] (manager_new [] False) :: unit plugin_manager"
  have a: "pe_key demo_env [7] = Some ()"
    "fingerprint_key (pe_sha demo_env) (pe_key_bytes demo_env) () = [1]"
    "pe_files demo_env (''d'', [0x61]) = Contents (replicate 64 0)"
    "pe_files demo_env (sig_path (''d'', [0x61])) = Contents (replicate 64 0)"
    "length (replicate 64 (0 :: u8)) = 64"
    "pe_verify_strict demo_env () (replicate 64 0) (replicate 64 0)"
    "mg_anchors ?m = [[7]]" "[1] \<notin> set (mg_revoked ?m)"
    by (simp_all add: demo_env_def fingerprint_key_def set_trust_anchor_def manager_new_def)
  show ?thesis using revoked_last_anchor_disarms [OF a] by blast
qed

text \<open>A bundle that fails midway leaves the plugins before the failure registered.\<close>

lemma bundle_partly_registered:
  assumes "register_plugin pe path lib i fallback m = (Inr n, m1)"
    and "register_plugin pe path lib j fallback m1 = (Inl e, m2)"
  shows "register_all pe path lib fallback [i, j] m = (Inl e, m1)"
proof -
  have "m2 = m1"
    using assms(2) by (auto simp: register_plugin_def Let_def split: if_splits sum.splits)
  with assms show ?thesis by simp
qed

text \<open>A non-zero result of a plugin's initialisation is ignored.\<close>

lemma failed_init_counts:
  assumes "map_of (mg_plugins m) n = Some p" "\<not> lp_initialised p" "lp_library p = Some lib"
    and "lib_init lib = Some code"
  shows "fst (init_plugin n m) = Inr ()
    \<and> map_option lp_initialised (plugin_get n (snd (init_plugin n m))) = Some True"
proof -
  have "map_of (map (\<lambda>(k, q). (k, if k = n then q\<lparr>lp_initialised := True\<rparr> else q)) ps) n
      = map_option (\<lambda>q. q\<lparr>lp_initialised := True\<rparr>) (map_of ps n)" for ps :: "(bytes \<times> 'a loaded_plugin) list"
    by (induction ps) auto
  with assms show ?thesis by (simp add: init_plugin_def plugin_get_def set_initialised_def)
qed

end
