(* ===== verification/Settings.thy ===== *)
theory Settings
  imports Platform Text_Output Shm_Ring Backpressure Error_Codes
begin

text \<open>
  \<open>core/src/config/settings.rs\<close>, with \<open>config/encoding.rs\<close> and the configuration half of
  \<open>config/watcher.rs\<close>: reading a configuration file, the table it parses to, the ladder of
  sources behind \<open>load_default\<close>, the performance profiles, the overrides of the interface
  and the compliance check. The TOML parser and the derived conversions of the sink tables are
  parameters, and so are the file system and the environment; what a warning interpolates is
  carried by its constructor. The theorem is that every configuration that is read is
  well-formed, whatever the files and variables hold.
\<close>

section \<open>Parsed tables\<close>

datatype toml =
    TString string
  | TInteger int
  | TFloat
  | TBoolean bool
  | TDatetime
  | TArray "toml list"
  | TTable "(string \<times> toml) list"

type_synonym toml_table = "(string \<times> toml) list"

definition as_str :: "toml \<Rightarrow> string option" where
  "as_str v = (case v of TString s \<Rightarrow> Some s | _ \<Rightarrow> None)"

definition as_integer :: "toml \<Rightarrow> int option" where
  "as_integer v = (case v of TInteger i \<Rightarrow> Some i | _ \<Rightarrow> None)"

definition as_boolean :: "toml \<Rightarrow> bool option" where
  "as_boolean v = (case v of TBoolean b \<Rightarrow> Some b | _ \<Rightarrow> None)"

definition as_table :: "toml \<Rightarrow> toml_table option" where
  "as_table v = (case v of TTable t \<Rightarrow> Some t | _ \<Rightarrow> None)"

definition tget :: "(toml \<Rightarrow> 'a option) \<Rightarrow> toml_table \<Rightarrow> string \<Rightarrow> 'a option" where
  "tget as t k = (case map_of t k of Some v \<Rightarrow> as v | None \<Rightarrow> None)"

text \<open>An \<open>i64\<close> cast to \<open>usize\<close> and to \<open>u32\<close>, and clamped at zero to \<open>u64\<close>.\<close>

definition as_usize :: "int \<Rightarrow> nat" where
  "as_usize i = nat (i mod 2 ^ 64)"

section \<open>Encoding and watcher settings\<close>

datatype input_mode = InUtf8 | InAuto

text \<open>\<open>trim().to_ascii_lowercase()\<close> on a string of the configuration.\<close>

definition keyword :: "string \<Rightarrow> uchar list" where
  "keyword s =
     (case utf8_decode (str_bytes s) of Some t \<Rightarrow> ascii_lower (trim_text t) | None \<Rightarrow> [])"

definition input_mode_parse :: "string \<Rightarrow> input_mode option" where
  "input_mode_parse s =
     (let v = keyword s in
      if v \<in> {lit ''utf8'', lit ''utf-8''} then Some InUtf8
      else if v = lit ''auto'' then Some InAuto
      else None)"

definition input_mode_str :: "input_mode \<Rightarrow> string" where
  "input_mode_str m = (case m of InUtf8 \<Rightarrow> ''utf8'' | InAuto \<Rightarrow> ''auto'')"

record encoding_config =
  en_input :: input_mode
  en_output :: encoding_preference
  en_code_page :: "u32 option"

definition encoding_config_default :: encoding_config where
  "encoding_config_default = \<lparr>en_input = InUtf8, en_output = PrefUtf8, en_code_page = None\<rparr>"

datatype watcher_backend = Polling | Inotify | ReadDirectoryChanges | Fsevents

definition backend_detect :: "target \<Rightarrow> watcher_backend" where
  "backend_detect os =
     (case os of Linux \<Rightarrow> Inotify | Windows \<Rightarrow> ReadDirectoryChanges | Macos \<Rightarrow> Polling
      | OtherTarget \<Rightarrow> Polling)"

definition backend_is_native :: "watcher_backend \<Rightarrow> bool" where
  "backend_is_native b \<longleftrightarrow> b \<in> {Inotify, ReadDirectoryChanges, Fsevents}"

record watcher_config =
  wc_backend :: watcher_backend
  wc_poll_interval_ms :: u64
  wc_debounce_ms :: u64
  wc_enabled :: bool

definition watcher_config_default :: "target \<Rightarrow> watcher_config" where
  "watcher_config_default os =
     \<lparr>wc_backend = backend_detect os, wc_poll_interval_ms = 1000, wc_debounce_ms = 500,
      wc_enabled = True\<rparr>"

section \<open>Configuration\<close>

text \<open>\<open>'k\<close> is the type of a sink's settings.\<close>

record 'k dologger_config =
  cf_level :: string
  cf_profile :: perf_profile
  cf_ring_size :: nat
  cf_batch :: nat
  cf_signature :: bool
  cf_audit :: bool
  cf_sig_sidecar :: "string option"
  cf_worm_path :: string
  cf_security_path :: string
  cf_path :: "string option"
  cf_shutdown_policy :: string
  cf_shutdown_timeout :: u64
  cf_grace_days :: u32
  cf_helping :: bool
  cf_trust_store :: "string option"
  cf_trust_anchor :: "string option"
  cf_allow_red :: bool
  cf_plugin_pipeline :: bool
  cf_sinks :: "'k list"
  cf_shm :: "shm_config option"
  cf_watcher :: watcher_config
  cf_encoding :: encoding_config

text \<open>The derived conversions, the default sink, the parser and the platform.\<close>

record 'k config_env =
  ce_toml :: "string \<Rightarrow> string + toml_table"
  ce_sink :: "toml \<Rightarrow> string + 'k"
  ce_console :: 'k
  ce_shm :: "toml \<Rightarrow> string + shm_config"
  ce_target :: target

definition config_default :: "'k config_env \<Rightarrow> 'k dologger_config" where
  "config_default ce =
     \<lparr>cf_level = ''INFO'', cf_profile = ProdPerformance, cf_ring_size = 65536, cf_batch = 256,
      cf_signature = False, cf_audit = False, cf_sig_sidecar = None,
      cf_worm_path = ''dologger_audit.worm'', cf_security_path = ''dologger_security.log'',
      cf_path = None, cf_shutdown_policy = ''graceful'', cf_shutdown_timeout = 5000,
      cf_grace_days = 7, cf_helping = True, cf_trust_store = None, cf_trust_anchor = None,
      cf_allow_red = False, cf_plugin_pipeline = False, cf_sinks = [ce_console ce], cf_shm = None,
      cf_watcher = (watcher_config_default (ce_target ce))\<lparr>wc_enabled := False\<rparr>,
      cf_encoding = encoding_config_default\<rparr>"

definition hardcoded_defaults :: "'k config_env \<Rightarrow> 'k dologger_config" where
  "hardcoded_defaults ce = config_default ce"

definition dev_profile :: "'k config_env \<Rightarrow> 'k dologger_config" where
  "dev_profile ce =
     \<lparr>cf_level = ''DEBUG'', cf_profile = Dev, cf_ring_size = 65536, cf_batch = 32,
      cf_signature = False, cf_audit = False, cf_sig_sidecar = None,
      cf_worm_path = ''dologger_audit.worm'', cf_security_path = ''dologger_security.log'',
      cf_path = None, cf_shutdown_policy = ''graceful'', cf_shutdown_timeout = 5000,
      cf_grace_days = 7, cf_helping = False, cf_trust_store = None, cf_trust_anchor = None,
      cf_allow_red = False, cf_plugin_pipeline = False, cf_sinks = [ce_console ce], cf_shm = None,
      cf_watcher = (watcher_config_default (ce_target ce))\<lparr>wc_enabled := False\<rparr>,
      cf_encoding = encoding_config_default\<rparr>"

definition is_dev_mode :: "environment \<Rightarrow> 'k dologger_config \<Rightarrow> bool" where
  "is_dev_mode env c \<longleftrightarrow> cf_profile c = Dev \<or> env ''DO_LOG_DEV_MODE'' \<noteq> None"

section \<open>Warnings and errors\<close>

datatype config_message =
    CannotRead string string
  | CannotDecode string string
  | TomlParseError string
  | InvalidLevel string

type_synonym config_error = "int \<times> config_message"

datatype config_warning =
    WUnknownProfile string
  | WRingSize nat nat
  | WShutdownPolicy string string
  | WInputMode string input_mode
  | WCodePageRequired
  | WOutputMode string
  | WCodePageRange int
  | WSinkInvalid string string
  | WShmInvalid string
  | WUnknownBackend string
  | WSystemConfig config_error
  | WLocalConfig config_error
  | WEnvBufSize string
  | WEnvProfile string
  | WEnvFile config_error
  | WEnvFileLocked string
  | WNoConfigFile

section \<open>Profiles\<close>

definition apply_profile :: "'k dologger_config \<Rightarrow> 'k dologger_config" where
  "apply_profile c =
     (case cf_profile c of
        Dev \<Rightarrow> c\<lparr>cf_batch := min (cf_batch c) 32, cf_signature := False, cf_audit := False,
                 cf_helping := False\<rparr>
      | ProdPerformance \<Rightarrow> c\<lparr>cf_batch := max (cf_batch c) 256, cf_helping := True\<rparr>
      | ProdAudit \<Rightarrow> c\<lparr>cf_batch := 128, cf_audit := True, cf_signature := True, cf_helping := False\<rparr>
      | Balanced \<Rightarrow> c\<lparr>cf_batch := 128, cf_helping := False\<rparr>)"

definition profile_of :: "string \<Rightarrow> perf_profile option" where
  "profile_of s =
     map_of [(''dev'', Dev), (''prod-performance'', ProdPerformance), (''prod-audit'', ProdAudit),
       (''balanced'', Balanced)] s"

section \<open>Parsing a table\<close>

text \<open>A section reads and extends the configuration and the warnings.\<close>

type_synonym 'k reading = "'k dologger_config \<times> config_warning list"

definition opt_set :: "'a option \<Rightarrow> ('a \<Rightarrow> 'b \<Rightarrow> 'b) \<Rightarrow> 'b \<Rightarrow> 'b" where
  "opt_set x f b = (case x of Some a \<Rightarrow> f a b | None \<Rightarrow> b)"

definition read_level ::
  "toml_table \<Rightarrow> 'k dologger_config \<Rightarrow> config_error + 'k dologger_config" where
  "read_level d c =
     (case tget as_str d ''level'' of
        None \<Rightarrow> Inr c
      | Some l \<Rightarrow>
          if level_parse_canonical l = None then Inl (DO_LOG_ERR_CONFIG_VALIDATION, InvalidLevel l)
          else Inr (c\<lparr>cf_level := l\<rparr>))"

definition read_profile :: "toml_table \<Rightarrow> 'k reading \<Rightarrow> 'k reading" where
  "read_profile d =
     opt_set (tget as_str d ''performance_profile'') (\<lambda>p (c, w).
       (case profile_of p of
          Some q \<Rightarrow> (c\<lparr>cf_profile := q\<rparr>, w)
        | None \<Rightarrow> (c\<lparr>cf_profile := ProdPerformance\<rparr>, w @ [WUnknownProfile p])))"

definition read_ring_size :: "toml_table \<Rightarrow> 'k reading \<Rightarrow> 'k reading" where
  "read_ring_size d =
     opt_set (tget as_integer d ''ring_buffer_size'') (\<lambda>i (c, w).
       (let s = as_usize i in
        if is_power_of_two s \<and> 1024 \<le> s then (c\<lparr>cf_ring_size := s\<rparr>, w)
        else (c, w @ [WRingSize s (cf_ring_size c)])))"

definition read_shutdown_policy :: "toml_table \<Rightarrow> 'k reading \<Rightarrow> 'k reading" where
  "read_shutdown_policy d =
     opt_set (tget as_str d ''shutdown_policy'') (\<lambda>p (c, w).
       (if p = ''graceful'' \<or> p = ''immediate'' then (c\<lparr>cf_shutdown_policy := p\<rparr>, w)
        else (c, w @ [WShutdownPolicy p (cf_shutdown_policy c)])))"

text \<open>The keys whose values are taken as they are, in the order of the code.\<close>

definition read_plain_before :: "toml_table \<Rightarrow> 'k dologger_config \<Rightarrow> 'k dologger_config" where
  "read_plain_before d c =
     opt_set (tget as_str d ''audit_security_path'') (\<lambda>p c. c\<lparr>cf_security_path := p\<rparr>)
     (opt_set (tget as_str d ''audit_worm_path'') (\<lambda>p c. c\<lparr>cf_worm_path := p\<rparr>)
     (opt_set (tget as_str d ''sig_sidecar'') (\<lambda>p c. c\<lparr>cf_sig_sidecar := Some p\<rparr>)
     (opt_set (tget as_boolean d ''enable_audit'') (\<lambda>b c. c\<lparr>cf_audit := b\<rparr>)
     (opt_set (tget as_boolean d ''enable_signature'') (\<lambda>b c. c\<lparr>cf_signature := b\<rparr>)
     (opt_set (tget as_integer d ''batch_size'') (\<lambda>i c. c\<lparr>cf_batch := as_usize i\<rparr>) c)))))"

definition read_plain_after :: "toml_table \<Rightarrow> 'k dologger_config \<Rightarrow> 'k dologger_config" where
  "read_plain_after d c =
     opt_set (tget as_boolean d ''plugin_enable_pipeline'') (\<lambda>b c. c\<lparr>cf_plugin_pipeline := b\<rparr>)
     (opt_set (tget as_boolean d ''plugin_allow_red_plugins'') (\<lambda>b c. c\<lparr>cf_allow_red := b\<rparr>)
     (opt_set (tget as_str d ''plugin_trust_anchor'') (\<lambda>s c. c\<lparr>cf_trust_anchor := Some s\<rparr>)
     (opt_set (tget as_str d ''plugin_trust_store'') (\<lambda>s c. c\<lparr>cf_trust_store := Some s\<rparr>)
     (opt_set (tget as_boolean d ''ring_buffer_coop_helping'') (\<lambda>b c. c\<lparr>cf_helping := b\<rparr>)
     (opt_set (tget as_integer d ''key_rotation_grace_period_days'')
        (\<lambda>i c. c\<lparr>cf_grace_days := of_int i\<rparr>)
     (opt_set (tget as_integer d ''shutdown_timeout_ms'')
        (\<lambda>i c. c\<lparr>cf_shutdown_timeout := of_int (max i 0)\<rparr>) c))))))"

definition read_dologger ::
  "toml_table \<Rightarrow> 'k reading \<Rightarrow> config_error + 'k reading" where
  "read_dologger d = (\<lambda>(c, w).
     r_bind (read_level d c) (\<lambda>c.
       let (c, w) = read_ring_size d (read_profile d (c, w));
           (c, w) = read_shutdown_policy d (read_plain_before d c, w)
       in Inr (read_plain_after d c, w)))"

definition read_input :: "toml_table \<Rightarrow> 'k reading \<Rightarrow> 'k reading" where
  "read_input e =
     opt_set (tget as_str e ''input'') (\<lambda>s (c, w).
       (case input_mode_parse s of
          Some m \<Rightarrow> (c\<lparr>cf_encoding := (cf_encoding c)\<lparr>en_input := m\<rparr>\<rparr>, w)
        | None \<Rightarrow> (c, w @ [WInputMode s (en_input (cf_encoding c))])))"

definition output_preference ::
  "toml_table \<Rightarrow> string \<Rightarrow> encoding_preference \<times> config_warning list" where
  "output_preference e s =
     (let v = keyword s in
      if v \<in> {lit ''utf8'', lit ''utf-8''} then (PrefUtf8, [])
      else if v = lit ''auto'' then (PrefAuto, [])
      else if v \<in> {lit ''codepage'', lit ''code-page''} then
        (case tget as_integer e ''code_page'' of
           Some i \<Rightarrow> if 1 \<le> i \<and> i \<le> 65535 then (PrefCodePage (of_int i), [])
                     else (PrefUtf8, [WCodePageRequired])
         | None \<Rightarrow> (PrefUtf8, [WCodePageRequired]))
      else (PrefUtf8, [WOutputMode s]))"

definition read_output :: "toml_table \<Rightarrow> 'k reading \<Rightarrow> 'k reading" where
  "read_output e =
     opt_set (tget as_str e ''output'') (\<lambda>s (c, w).
       (case output_preference e s of
          (p, w') \<Rightarrow> (c\<lparr>cf_encoding := (cf_encoding c)\<lparr>en_output := p\<rparr>\<rparr>, w @ w')))"

definition read_code_page :: "toml_table \<Rightarrow> 'k reading \<Rightarrow> 'k reading" where
  "read_code_page e =
     opt_set (tget as_integer e ''code_page'') (\<lambda>i (c, w).
       (if 1 \<le> i \<and> i \<le> 65535
        then (c\<lparr>cf_encoding := (cf_encoding c)\<lparr>en_code_page := Some (of_int i)\<rparr>\<rparr>, w)
        else (c, w @ [WCodePageRange i])))"

definition read_encoding :: "toml_table \<Rightarrow> 'k reading \<Rightarrow> 'k reading" where
  "read_encoding t =
     opt_set (tget as_table t ''encoding'')
       (\<lambda>e r. read_code_page e (read_output e (read_input e r)))"

fun read_sink_list ::
  "'k config_env \<Rightarrow> toml_table \<Rightarrow> 'k list \<times> config_warning list" where
  "read_sink_list ce [] = ([], [])"
| "read_sink_list ce ((n, v) # rest) =
     (let (ks, ws) = read_sink_list ce rest in
      case ce_sink ce v of Inr k \<Rightarrow> (k # ks, ws) | Inl e \<Rightarrow> (ks, WSinkInvalid n e # ws))"

definition read_sinks :: "'k config_env \<Rightarrow> toml_table \<Rightarrow> 'k reading \<Rightarrow> 'k reading" where
  "read_sinks ce t = (\<lambda>(c, w).
     let (ks, ws) = (case tget as_table t ''sinks'' of
                       Some s \<Rightarrow> read_sink_list ce s | None \<Rightarrow> ([], [])) in
     (c\<lparr>cf_sinks := if ks = [] then [ce_console ce] else ks\<rparr>, w @ ws))"

definition read_shm :: "'k config_env \<Rightarrow> toml_table \<Rightarrow> 'k reading \<Rightarrow> 'k reading" where
  "read_shm ce t =
     opt_set (map_of t ''shm'') (\<lambda>v (c, w).
       (case ce_shm ce v of
          Inr s \<Rightarrow> (c\<lparr>cf_shm := Some s\<rparr>, w)
        | Inl e \<Rightarrow> (c, w @ [WShmInvalid e])))"

definition backend_of :: "target \<Rightarrow> string \<Rightarrow> watcher_backend \<times> config_warning list" where
  "backend_of os s =
     (if s = ''polling'' then (Polling, [])
      else if s = ''inotify'' then (Inotify, [])
      else if s = ''read-directory-changes'' \<or> s = ''rdcw'' then (ReadDirectoryChanges, [])
      else if s = ''fsevents'' then (Fsevents, [])
      else (backend_detect os, [WUnknownBackend s]))"

definition read_watcher_table ::
  "target \<Rightarrow> toml_table \<Rightarrow> watcher_config \<Rightarrow> watcher_config \<times> config_warning list" where
  "read_watcher_table os t wc =
     (let wc = opt_set (tget as_boolean t ''enabled'') (\<lambda>b wc. wc\<lparr>wc_enabled := b\<rparr>) wc;
          wc = opt_set (tget as_integer t ''poll_interval_ms'')
                 (\<lambda>i wc. wc\<lparr>wc_poll_interval_ms := of_int (max i 0)\<rparr>) wc;
          wc = opt_set (tget as_integer t ''debounce_ms'')
                 (\<lambda>i wc. wc\<lparr>wc_debounce_ms := of_int (max i 0)\<rparr>) wc
      in case tget as_str t ''backend'' of
           None \<Rightarrow> (wc, [])
         | Some s \<Rightarrow> (case backend_of os s of (b, ws) \<Rightarrow> (wc\<lparr>wc_backend := b\<rparr>, ws)))"

definition read_watcher :: "'k config_env \<Rightarrow> toml_table \<Rightarrow> 'k reading \<Rightarrow> 'k reading" where
  "read_watcher ce t =
     opt_set (tget as_table t ''watcher'') (\<lambda>wt (c, w).
       (case read_watcher_table (ce_target ce) wt (cf_watcher c) of
          (wc, ws) \<Rightarrow> (c\<lparr>cf_watcher := wc\<rparr>, w @ ws)))"

definition parse_table ::
  "'k config_env \<Rightarrow> toml_table \<Rightarrow> string option \<Rightarrow> config_error + 'k reading" where
  "parse_table ce t path =
     (let start = ((config_default ce)\<lparr>cf_path := path\<rparr>, []) in
      r_bind (case tget as_table t ''dologger'' of
                Some d \<Rightarrow> read_dologger d start | None \<Rightarrow> Inr start)
        (\<lambda>r. case read_watcher ce t (read_shm ce t (read_sinks ce t (read_encoding t r))) of
               (c, w) \<Rightarrow> Inr (apply_profile c, w)))"

definition parse ::
  "'k config_env \<Rightarrow> string \<Rightarrow> string option \<Rightarrow> config_error + 'k reading" where
  "parse ce s path =
     (case ce_toml ce s of
        Inl e \<Rightarrow> Inl (DO_LOG_ERR_CONFIG_PARSE, TomlParseError e)
      | Inr t \<Rightarrow> parse_table ce t path)"

section \<open>Files\<close>

definition read_text_auto :: "bytes \<Rightarrow> string + string" where
  "read_text_auto bs =
     (if starts_with [0xEF, 0xBB, 0xBF] bs then
        (if utf8_valid (drop 3 bs) then Inr (bytes_str (drop 3 bs))
         else Inl ''file is not valid UTF-8 after its BOM'')
      else if starts_with [0xFF, 0xFE] bs then
        (case from_utf16 (units_of True (drop 2 bs)) of
           Some t \<Rightarrow> Inr (bytes_str (utf8_encode t))
         | None \<Rightarrow> Inl ''file is not valid UTF-16 LE'')
      else if starts_with [0xFE, 0xFF] bs then
        (case from_utf16 (units_of False (drop 2 bs)) of
           Some t \<Rightarrow> Inr (bytes_str (utf8_encode t))
         | None \<Rightarrow> Inl ''file is not valid UTF-16 BE'')
      else if utf8_valid bs then Inr (bytes_str bs)
      else Inl ''file is not valid UTF-8 (save it as UTF-8)'')"

definition load_from_file ::
  "'k config_env \<Rightarrow> files \<Rightarrow> string \<Rightarrow> config_error + 'k reading" where
  "load_from_file ce fs path =
     (case fs path of
        Missing \<Rightarrow> Inl (DO_LOG_ERR_CONFIG_NOT_FOUND, CannotRead path ''not found'')
      | Unreadable e \<Rightarrow> Inl (DO_LOG_ERR_CONFIG_NOT_FOUND, CannotRead path e)
      | Contents bs \<Rightarrow>
          (case read_text_auto bs of
             Inl e \<Rightarrow> Inl (DO_LOG_ERR_CONFIG_PARSE, CannotDecode path e)
           | Inr s \<Rightarrow> parse ce s (Some path)))"

section \<open>The ladder\<close>

definition system_paths :: "target \<Rightarrow> environment \<Rightarrow> string list" where
  "system_paths os env =
     (case os of
        Linux \<Rightarrow> [''/etc/dologger/default.toml'']
      | Macos \<Rightarrow> [''/usr/local/etc/dologger/default.toml'']
      | Windows \<Rightarrow>
          [program_data env @ [CHR 0x5C] @ ''dologger'' @ [CHR 0x5C] @ ''default.toml'']
      | OtherTarget \<Rightarrow> [])"

definition local_paths :: "string list" where
  "local_paths =
     [''dologger.toml'', ''.dologger.toml'', ''../dologger.toml'', ''../.dologger.toml'',
      ''../../dologger.toml'', ''../../.dologger.toml'']"

text \<open>The first existing file that loads wins; one that fails leaves a warning.\<close>

fun load_first ::
  "'k config_env \<Rightarrow> files \<Rightarrow> (config_error \<Rightarrow> config_warning) \<Rightarrow> string list
   \<Rightarrow> 'k reading \<Rightarrow> 'k reading \<times> bool" where
  "load_first ce fs mk [] r = (r, False)"
| "load_first ce fs mk (p # ps) (c, w) =
     (if fs p = Missing then load_first ce fs mk ps (c, w)
      else case load_from_file ce fs p of
             Inr (c', w') \<Rightarrow> ((c', w @ w'), True)
           | Inl e \<Rightarrow> load_first ce fs mk ps (c, w @ [mk e]))"

definition env_buf_size :: "environment \<Rightarrow> 'k reading \<Rightarrow> 'k reading" where
  "env_buf_size env =
     opt_set (env ''DO_LOG_BUF_SIZE'') (\<lambda>s (c, w).
       (case parse_unsigned (2 ^ 64 - 1) s of
          None \<Rightarrow> (c, w)
        | Some n \<Rightarrow>
            if is_power_of_two n \<and> 1024 \<le> n then (c\<lparr>cf_ring_size := n\<rparr>, w)
            else (c, w @ [WEnvBufSize s])))"

definition env_profile :: "environment \<Rightarrow> 'k reading \<Rightarrow> 'k reading" where
  "env_profile env =
     opt_set (env ''DO_LOG_PERF_PROFILE'') (\<lambda>s (c, w).
       (case profile_of s of
          Some p \<Rightarrow> (c\<lparr>cf_profile := p\<rparr>, w)
        | None \<Rightarrow> (c, w @ [WEnvProfile s])))"

definition env_config_file ::
  "'k config_env \<Rightarrow> files \<Rightarrow> environment \<Rightarrow> 'k reading \<Rightarrow> 'k reading" where
  "env_config_file ce fs env =
     opt_set (env ''DO_LOG_CONFIG_FILE'') (\<lambda>p (c, w).
       (if fs p \<noteq> Missing then
          (case load_from_file ce fs p of
             Inr (c', w') \<Rightarrow> (c', w @ w')
           | Inl e \<Rightarrow> (c, w @ [WEnvFile e]))
        else if env ''DO_LOG_CONFIG_LOCK'' \<noteq> None then (c, w @ [WEnvFileLocked p])
        else (c, w)))"

definition enforce_non_downgradable :: "'k reading \<Rightarrow> 'k reading" where
  "enforce_non_downgradable r = r"

definition load_default ::
  "'k config_env \<Rightarrow> files \<Rightarrow> environment \<Rightarrow> 'k reading" where
  "load_default ce fs env =
     (let (r, _) = load_first ce fs WSystemConfig (system_paths (ce_target ce) env)
                     (hardcoded_defaults ce, []);
          (r, found_local) = load_first ce fs WLocalConfig local_paths r;
          r = opt_set (env ''DO_LOG_LEVEL'') (\<lambda>l (c, w). (c\<lparr>cf_level := l\<rparr>, w)) r;
          (c, w) = env_config_file ce fs env (env_profile env (env_buf_size env r));
          w = (if \<not> found_local \<and> w = [] then [WNoConfigFile] else w)
      in enforce_non_downgradable (apply_profile c, w))"

section \<open>Overrides\<close>

record api_overrides =
  ao_level :: "string option"
  ao_profile :: "perf_profile option"
  ao_ring_size :: "nat option"
  ao_batch :: "nat option"
  ao_signature :: "bool option"
  ao_audit :: "bool option"
  ao_helping :: "bool option"
  ao_shutdown_policy :: "string option"
  ao_shutdown_timeout :: "u64 option"
  ao_grace_days :: "u32 option"

text \<open>One field at a time, with the name it is reported under.\<close>

definition override ::
  "string \<Rightarrow> 'a option \<Rightarrow> ('a \<Rightarrow> 'k dologger_config \<Rightarrow> bool)
   \<Rightarrow> ('a \<Rightarrow> 'k dologger_config \<Rightarrow> 'k dologger_config)
   \<Rightarrow> 'k dologger_config \<times> string list \<Rightarrow> 'k dologger_config \<times> string list" where
  "override name x ok f =
     opt_set x (\<lambda>a (c, ns). if ok a c then (f a c, ns @ [name]) else (c, ns))"

definition apply_api_overrides ::
  "api_overrides \<Rightarrow> 'k dologger_config \<Rightarrow> 'k dologger_config \<times> string list" where
  "apply_api_overrides api c =
     (let r = override ''level'' (ao_level api) (\<lambda>_ _. True) (\<lambda>l c. c\<lparr>cf_level := l\<rparr>) (c, []);
          r = override ''performance_profile'' (ao_profile api) (\<lambda>_ _. True)
                (\<lambda>p c. c\<lparr>cf_profile := p\<rparr>) r;
          r = override ''ring_buffer_size'' (ao_ring_size api)
                (\<lambda>n _. is_power_of_two n \<and> 1024 \<le> n) (\<lambda>n c. c\<lparr>cf_ring_size := n\<rparr>) r;
          r = override ''batch_size'' (ao_batch api) (\<lambda>n _. 1 \<le> n) (\<lambda>n c. c\<lparr>cf_batch := n\<rparr>) r;
          r = override ''enable_signature'' (ao_signature api)
                (\<lambda>b c. b \<or> \<not> cf_signature c) (\<lambda>b c. c\<lparr>cf_signature := b\<rparr>) r;
          r = override ''enable_audit'' (ao_audit api)
                (\<lambda>b c. b \<or> \<not> cf_audit c) (\<lambda>b c. c\<lparr>cf_audit := b\<rparr>) r;
          r = override ''ring_buffer_coop_helping'' (ao_helping api) (\<lambda>_ _. True)
                (\<lambda>b c. c\<lparr>cf_helping := b\<rparr>) r;
          r = override ''shutdown_policy'' (ao_shutdown_policy api) (\<lambda>_ _. True)
                (\<lambda>s c. c\<lparr>cf_shutdown_policy := s\<rparr>) r;
          r = override ''shutdown_timeout_ms'' (ao_shutdown_timeout api) (\<lambda>_ _. True)
                (\<lambda>n c. c\<lparr>cf_shutdown_timeout := n\<rparr>) r
      in override ''key_rotation_grace_period_days'' (ao_grace_days api) (\<lambda>_ _. True)
           (\<lambda>n c. c\<lparr>cf_grace_days := n\<rparr>) r)"

definition load_with_api_overrides ::
  "'k config_env \<Rightarrow> files \<Rightarrow> environment \<Rightarrow> api_overrides \<Rightarrow> 'k reading" where
  "load_with_api_overrides ce fs env api =
     (case load_default ce fs env of
        (c, w) \<Rightarrow> enforce_non_downgradable (fst (apply_api_overrides api c), w))"

record record_tag_overrides =
  rt_level :: "string option"
  rt_format :: "string option"
  rt_sink :: "string option"
  rt_domain :: "string option"
  rt_tags :: "string list"
  rt_signature :: bool
  rt_fsync :: bool

definition record_tag_overrides_new :: record_tag_overrides where
  "record_tag_overrides_new =
     \<lparr>rt_level = None, rt_format = None, rt_sink = None, rt_domain = None, rt_tags = [],
      rt_signature = False, rt_fsync = False\<rparr>"

definition record_tag_overrides_is_empty :: "record_tag_overrides \<Rightarrow> bool" where
  "record_tag_overrides_is_empty r \<longleftrightarrow>
     rt_level r = None \<and> rt_format r = None \<and> rt_sink r = None \<and> rt_domain r = None
     \<and> rt_tags r = [] \<and> \<not> rt_signature r \<and> \<not> rt_fsync r"

section \<open>Compliance\<close>

datatype compliance_profile = Gdpr | Hipaa | PciDss

definition display_name :: "compliance_profile \<Rightarrow> string" where
  "display_name p = (case p of Gdpr \<Rightarrow> ''GDPR'' | Hipaa \<Rightarrow> ''HIPAA'' | PciDss \<Rightarrow> ''PCI DSS'')"

definition template_filename :: "compliance_profile \<Rightarrow> string" where
  "template_filename p =
     (case p of Gdpr \<Rightarrow> ''gdpr.toml'' | Hipaa \<Rightarrow> ''hipaa.toml'' | PciDss \<Rightarrow> ''pci-dss.toml'')"

datatype compliance_gap =
    GapAudit string
  | GapSignature string
  | GapProfile string perf_profile
  | GapPolicy string
  | GapTimeout string u64
  | Reminder string string

definition domain_items :: "string list" where
  "domain_items = [''worm_enabled'', ''sign_ring2'', ''escape_html'', ''fsync_on_write'', ''require_tls'']"

definition validate_compliance_template ::
  "'k dologger_config \<Rightarrow> compliance_profile \<Rightarrow> compliance_gap list + unit" where
  "validate_compliance_template c p =
     (let name = display_name p;
          gaps =
            (if \<not> cf_audit c then [GapAudit name] else [])
            @ (if \<not> cf_signature c then [GapSignature name] else [])
            @ (if cf_profile c \<noteq> ProdAudit then [GapProfile name (cf_profile c)] else [])
            @ (if cf_shutdown_policy c \<noteq> ''graceful'' then [GapPolicy name] else [])
            @ (if cf_shutdown_timeout c < 5000 then [GapTimeout name (cf_shutdown_timeout c)] else [])
            @ map (Reminder name) domain_items
      in if gaps = [] then Inr () else Inl gaps)"

section \<open>Finding or creating the file\<close>

text \<open>Creating directories, writing and restricting a file can fail: \<open>outcome\<close> says how.\<close>

definition lines_of :: "string list \<Rightarrow> string" where
  "lines_of ls = concat (map (\<lambda>l. l @ [CHR 0x0A]) ls)"

definition default_toml :: string where
  "default_toml = lines_of
     [''# DoLogger Configuration'',
      ''# Generated automatically '' @ [CHR 0xE2, CHR 0x80, CHR 0x94] @ '' adjust for your environment.'',
      [],
      ''[dologger]'',
      ''level = '' @ [CHR 0x22] @ ''INFO'' @ [CHR 0x22],
      ''performance_profile = '' @ [CHR 0x22] @ ''prod-performance'' @ [CHR 0x22],
      ''# ring_buffer_size = records_contain * byte_size = 64 * 2 << 10'',
      ''ring_buffer_size = 65536'',
      ''batch_size = 256'',
      ''enable_signature = false'',
      ''enable_audit = false'',
      ''audit_worm_path = '' @ [CHR 0x22] @ ''dologger_audit.worm'' @ [CHR 0x22],
      ''audit_security_path = '' @ [CHR 0x22] @ ''dologger_security.log'' @ [CHR 0x22]]"

definition create_default_config ::
  "(string \<Rightarrow> string + unit) \<Rightarrow> string \<Rightarrow> files \<Rightarrow> (string + unit) \<times> files" where
  "create_default_config outcome p fs =
     (case outcome p of
        Inl e \<Rightarrow> (Inl e, fs)
      | Inr _ \<Rightarrow> (Inr (), fs(p := Contents (str_bytes default_toml))))"

definition create_at ::
  "(string \<Rightarrow> string + unit) \<Rightarrow> string \<Rightarrow> files \<Rightarrow> (string + (string \<times> bool)) \<times> files" where
  "create_at outcome p fs =
     (case create_default_config outcome p fs of
        (Inl e, fs') \<Rightarrow> (Inl e, fs') | (Inr _, fs') \<Rightarrow> (Inr (p, True), fs'))"

definition search_candidates :: "target \<Rightarrow> environment \<Rightarrow> string list" where
  "search_candidates os env = [''dologger.toml'', ''../dologger.toml''] @ system_paths os env"

definition search_config ::
  "(string \<Rightarrow> string + unit) \<Rightarrow> target \<Rightarrow> environment \<Rightarrow> bool \<Rightarrow> files
   \<Rightarrow> (string + (string \<times> bool)) \<times> files" where
  "search_config outcome os env auto fs =
     (case List.find (\<lambda>p. fs p \<noteq> Missing) (search_candidates os env) of
        Some p \<Rightarrow> (Inr (p, False), fs)
      | None \<Rightarrow>
          if auto then create_at outcome ''dologger.toml'' fs
          else (Inl ''No configuration file found. Use dologctl init --template dev to create one.'', fs))"

definition resolve_config_path ::
  "(string \<Rightarrow> string + unit) \<Rightarrow> target \<Rightarrow> environment \<Rightarrow> string option \<Rightarrow> bool \<Rightarrow> files
   \<Rightarrow> (string + (string \<times> bool)) \<times> files" where
  "resolve_config_path outcome os env explicit auto fs =
     (case explicit of
        Some p \<Rightarrow>
          if fs p \<noteq> Missing then (Inr (p, False), fs)
          else if auto then create_at outcome p fs
          else (Inl (''Config file not found: '' @ p), fs)
      | None \<Rightarrow>
          (case env ''DO_LOG_CONFIG_FILE'' of
             Some p \<Rightarrow>
               if fs p \<noteq> Missing then (Inr (p, False), fs)
               else if auto then create_at outcome p fs
               else search_config outcome os env auto fs
           | None \<Rightarrow> search_config outcome os env auto fs))"

section \<open>Well-formed configurations\<close>

definition profile_ok :: "'k dologger_config \<Rightarrow> bool" where
  "profile_ok c \<longleftrightarrow>
     (case cf_profile c of
        Dev \<Rightarrow> cf_batch c \<le> 32 \<and> \<not> cf_signature c \<and> \<not> cf_audit c \<and> \<not> cf_helping c
      | ProdPerformance \<Rightarrow> 256 \<le> cf_batch c \<and> cf_helping c
      | ProdAudit \<Rightarrow> cf_batch c = 128 \<and> cf_audit c \<and> cf_signature c \<and> \<not> cf_helping c
      | Balanced \<Rightarrow> cf_batch c = 128 \<and> \<not> cf_helping c)"

definition page_ok :: "u32 \<Rightarrow> bool" where
  "page_ok cp \<longleftrightarrow> is_ok (validate_code_page cp)"

definition encoding_ok :: "encoding_config \<Rightarrow> bool" where
  "encoding_ok e \<longleftrightarrow>
     (\<forall>cp. en_output e = PrefCodePage cp \<longrightarrow> page_ok cp) \<and> (\<forall>cp. en_code_page e = Some cp \<longrightarrow> page_ok cp)"

text \<open>What every section keeps; \<open>config_wf\<close> adds the level, the sinks and the profile.\<close>

definition config_base :: "'k dologger_config \<Rightarrow> bool" where
  "config_base c \<longleftrightarrow>
     is_power_of_two (cf_ring_size c) \<and> 1024 \<le> cf_ring_size c
     \<and> cf_shutdown_policy c \<in> {''graceful'', ''immediate''} \<and> encoding_ok (cf_encoding c)"

definition level_ok :: "'k dologger_config \<Rightarrow> bool" where
  "level_ok c \<longleftrightarrow> level_parse_canonical (cf_level c) \<noteq> None"

definition config_wf :: "'k dologger_config \<Rightarrow> bool" where
  "config_wf c \<longleftrightarrow> config_base c \<and> level_ok c \<and> cf_sinks c \<noteq> [] \<and> profile_ok c"

lemma apply_profile_ok [simp]: "profile_ok (apply_profile c)"
  by (cases "cf_profile c") (simp_all add: apply_profile_def profile_ok_def)

lemma apply_profile_fixed: "profile_ok c \<Longrightarrow> apply_profile c = c"
  by (cases c; cases "cf_profile c") (auto simp: apply_profile_def profile_ok_def)

lemma apply_profile_keeps [simp]:
  "config_base (apply_profile c) \<longleftrightarrow> config_base c" "level_ok (apply_profile c) \<longleftrightarrow> level_ok c"
  "cf_sinks (apply_profile c) = cf_sinks c" "cf_profile (apply_profile c) = cf_profile c"
  by (simp_all add: apply_profile_def config_base_def level_ok_def split: perf_profile.split)

text \<open>An invariant of a reading passes through every optional step.\<close>

lemma opt_set_keeps:
  "P b \<Longrightarrow> (\<And>a. x = Some a \<Longrightarrow> P (f a b)) \<Longrightarrow> P (opt_set x f b)"
  by (simp add: opt_set_def split: option.split)

lemma opt_set_same: "(\<And>a b. g (f a b) = g b) \<Longrightarrow> g (opt_set x f b) = g b"
  by (simp add: opt_set_def split: option.split)

named_theorems reading_simps \<open>what the sections of a table keep\<close>

lemma defaults_ok:
  "config_base (config_default ce\<lparr>cf_path := q\<rparr>)" "level_ok (config_default ce\<lparr>cf_path := q\<rparr>)"
  "config_base (config_default ce)" "level_ok (config_default ce)" "cf_sinks (config_default ce) \<noteq> []"
proof -
  have "is_power_of_two 65536" by (simp add: is_power_of_two.simps)
  then show "config_base (config_default ce\<lparr>cf_path := q\<rparr>)" "config_base (config_default ce)"
    by (simp_all add: config_base_def config_default_def encoding_ok_def encoding_config_default_def)
qed (simp_all add: config_default_def level_ok_def level_parse_canonical_def level_from_str_def)

lemma read_level_ok:
  "read_level d c = Inr c' \<Longrightarrow> level_ok c \<Longrightarrow> config_base c
   \<Longrightarrow> level_ok c' \<and> config_base c'"
  by (auto simp: read_level_def level_ok_def config_base_def split: option.splits if_splits)

lemma plain_keeps [reading_simps]:
  "config_base (read_plain_before d c) = config_base c"
  "level_ok (read_plain_before d c) = level_ok c"
  "config_base (read_plain_after d c) = config_base c"
  "level_ok (read_plain_after d c) = level_ok c"
  unfolding read_plain_before_def read_plain_after_def config_base_def level_ok_def
  by (simp_all add: opt_set_def split: option.split)

definition reading_ok :: "'k reading \<Rightarrow> bool" where
  "reading_ok r \<longleftrightarrow> config_base (fst r) \<and> level_ok (fst r)"

lemma section_keeps:
  assumes "reading_ok r"
  shows "reading_ok (read_profile d r)" "reading_ok (read_ring_size d r)"
    "reading_ok (read_shutdown_policy d r)" "reading_ok (read_shm ce d r)"
    "reading_ok (read_watcher ce d r)" "reading_ok (read_sinks ce d r)"
proof -
  obtain c w where r: "r = (c, w)" by (cases r)
  note d = reading_ok_def config_base_def level_ok_def r
  show "reading_ok (read_profile d r)" using assms
    by (auto simp: d read_profile_def opt_set_def split: option.split)
  show "reading_ok (read_ring_size d r)" using assms
    by (auto simp: d read_ring_size_def opt_set_def Let_def split: option.split)
  show "reading_ok (read_shutdown_policy d r)" using assms
    by (auto simp: d read_shutdown_policy_def opt_set_def split: option.split)
  show "reading_ok (read_shm ce d r)" using assms
    by (auto simp: d read_shm_def opt_set_def split: option.split sum.split)
  show "reading_ok (read_watcher ce d r)" using assms
    by (auto simp: d read_watcher_def opt_set_def split: option.split prod.split)
  show "reading_ok (read_sinks ce d r)" using assms
    by (auto simp: d read_sinks_def Let_def split: option.split prod.split)
qed

lemma page_ok_int: "1 \<le> i \<Longrightarrow> i \<le> 65535 \<Longrightarrow> page_ok (word_of_int i)"
proof -
  assume i: "1 \<le> i" "i \<le> 65535"
  then have "uint (word_of_int i :: u32) = i" by (simp add: uint_word_of_int)
  with i have "(word_of_int i :: u32) \<noteq> 0" "word_of_int i \<le> (65535 :: u32)"
    by (auto simp: word_le_def) 
  then show ?thesis by (simp add: page_ok_def validate_code_page_def)
qed

lemma output_preference_ok: "output_preference e s = (p, w) \<Longrightarrow> p = PrefCodePage cp \<Longrightarrow> page_ok cp"
  by (auto simp: output_preference_def Let_def page_ok_int split: if_splits option.splits)

lemma encoding_keeps:
  assumes "reading_ok r"
  shows "reading_ok (read_encoding t r)"
proof -
  have inp: "reading_ok (read_input e r)" if "reading_ok r" for e and r :: "'k reading"
    using that by (cases r) (auto simp: read_input_def opt_set_def reading_ok_def config_base_def
      level_ok_def encoding_ok_def split: option.split)
  have outp: "reading_ok (read_output e r)" if "reading_ok r" for e and r :: "'k reading"
    using that output_preference_ok
    by (cases r) (fastforce simp: read_output_def opt_set_def reading_ok_def config_base_def
      level_ok_def encoding_ok_def split: option.split prod.split)
  have pg: "reading_ok (read_code_page e r)" if "reading_ok r" for e and r :: "'k reading"
    using that page_ok_int by (cases r) (auto simp: read_code_page_def opt_set_def reading_ok_def
      config_base_def level_ok_def encoding_ok_def split: option.split)
  show ?thesis
    unfolding read_encoding_def by (rule opt_set_keeps [where P = reading_ok]) (intro pg outp inp assms)+
qed

lemma dologger_keeps:
  assumes "read_dologger d r = Inr r'" "reading_ok r"
  shows "reading_ok r'"
proof -
  obtain c w where r: "r = (c, w)" by (cases r)
  from assms(1) obtain c1 where c1: "read_level d c = Inr c1"
    by (auto simp: read_dologger_def r r_bind_def split: sum.splits)
  then have "reading_ok (c1, w)"
    using assms(2) read_level_ok [OF c1] by (simp add: r reading_ok_def)
  then have "reading_ok (read_ring_size d (read_profile d (c1, w)))" by (intro section_keeps)
  then obtain c2 w2 where c2: "read_ring_size d (read_profile d (c1, w)) = (c2, w2)"
    "reading_ok (read_plain_before d c2, w2)"
    by (cases "read_ring_size d (read_profile d (c1, w))") (auto simp: reading_ok_def reading_simps)
  have "reading_ok (read_shutdown_policy d (read_plain_before d c2, w2))"
    by (rule section_keeps) (rule c2)
  then show ?thesis
    using assms(1) c1 c2(1)
    by (auto simp: read_dologger_def r Let_def reading_ok_def reading_simps split: prod.splits)
qed

lemma sinks_after:
  "cf_sinks (fst (read_watcher ce t (read_shm ce t (read_sinks ce t r)))) \<noteq> []"
proof -
  have "cf_sinks (fst (read_sinks ce t r)) \<noteq> []"
    by (cases r) (auto simp: read_sinks_def Let_def split: prod.split)
  moreover have "cf_sinks (fst (read_shm ce t r)) = cf_sinks (fst r)" for r
    by (cases r) (auto simp: read_shm_def opt_set_def split: option.split sum.split)
  moreover have "cf_sinks (fst (read_watcher ce t r)) = cf_sinks (fst r)" for r
    by (cases r) (auto simp: read_watcher_def opt_set_def split: option.split prod.split)
  ultimately show ?thesis by simp
qed

lemma parse_table_wf:
  assumes "parse_table ce t path = Inr (c, w)"
  shows "config_wf c"
proof -
  obtain r where r: "(case tget as_table t ''dologger'' of
      Some d \<Rightarrow> read_dologger d (config_default ce\<lparr>cf_path := path\<rparr>, [])
    | None \<Rightarrow> Inr (config_default ce\<lparr>cf_path := path\<rparr>, [])) = Inr r"
    using assms unfolding parse_table_def by (auto simp: r_bind_Inr_iff Let_def)
  have "reading_ok (config_default ce\<lparr>cf_path := path\<rparr>, [])"
    by (simp add: reading_ok_def defaults_ok)
  then have "reading_ok r"
    using r by (cases "tget as_table t ''dologger''") (auto dest: dologger_keeps [rotated -1])
  let ?r = "read_watcher ce t (read_shm ce t (read_sinks ce t (read_encoding t r)))"
  have "reading_ok ?r" using \<open>reading_ok r\<close> by (intro section_keeps encoding_keeps)
  moreover have "c = apply_profile (fst ?r)"
    using assms r unfolding parse_table_def by (auto simp: Let_def split: prod.splits)
  ultimately show ?thesis
    using sinks_after [of ce t "read_encoding t r"]
    by (simp add: config_wf_def reading_ok_def)
qed

lemma parse_wf: "parse ce s path = Inr (c, w) \<Longrightarrow> config_wf c"
  by (auto simp: parse_def dest: parse_table_wf split: sum.splits)

lemma load_from_file_wf: "load_from_file ce fs path = Inr (c, w) \<Longrightarrow> config_wf c"
  by (auto simp: load_from_file_def dest: parse_wf split: file_state.splits sum.splits)

section \<open>The ladder keeps it\<close>

definition ladder_ok :: "'k dologger_config \<Rightarrow> bool" where
  "ladder_ok c \<longleftrightarrow> config_base c \<and> level_ok c \<and> cf_sinks c \<noteq> []"

lemma load_first_ok:
  "load_first ce fs mk ps r = (r', f) \<Longrightarrow> ladder_ok (fst r) \<Longrightarrow> ladder_ok (fst r')"
proof (induction ce fs mk ps r arbitrary: r' rule: load_first.induct)
  case (2 ce fs mk p ps c w)
  show ?case
  proof (cases "fs p = Missing")
    case False
    show ?thesis
    proof (cases "load_from_file ce fs p")
      case (Inl e)
      with 2 False show ?thesis by simp
    next
      case (Inr x)
      obtain c' w' where x: "x = (c', w')" by (cases x)
      with Inr have "config_wf c'" using load_from_file_wf by blast
      with 2 False Inr x show ?thesis by (auto simp: config_wf_def ladder_ok_def)
    qed
  qed (use 2 in simp)
qed simp

text \<open>C15: Whatever the files and the environment hold, the configuration is well-formed: one
  that is parsed, and one that \<open>load_default\<close> finds, has a ring that is a power of two of at
  least 1024, a canonical level, at least one sink, one of the two shutdown policies, code pages
  in range, and the batch size and switches its performance profile demands. The level of
  \<open>load_default\<close> alone needs a canonical \<open>DO_LOG_LEVEL\<close>: that variable is taken unchecked.\<close>

theorem config_well_formed:
  "(\<forall>s path c w. parse ce s path = Inr (c, w) \<longrightarrow> config_wf c)
   \<and> (\<forall>fs env c w. load_default ce fs env = (c, w) \<longrightarrow>
        (\<forall>l. env ''DO_LOG_LEVEL'' = Some l \<longrightarrow> level_parse_canonical l \<noteq> None) \<longrightarrow> config_wf c)"
proof (intro conjI allI impI)
  show "config_wf c" if "parse ce s path = Inr (c, w)" for s path c w
    using that by (rule parse_wf)
next
  fix fs env c w
  assume load: "load_default ce fs env = (c, w)"
    and level: "\<forall>l. env ''DO_LOG_LEVEL'' = Some l \<longrightarrow> level_parse_canonical l \<noteq> None"
  obtain r1 f1 where r1: "load_first ce fs WSystemConfig (system_paths (ce_target ce) env)
      (hardcoded_defaults ce, []) = (r1, f1)" by fastforce
  obtain r2 f2 where r2: "load_first ce fs WLocalConfig local_paths r1 = (r2, f2)" by fastforce
  let ?r3 = "opt_set (env ''DO_LOG_LEVEL'') (\<lambda>l (c, w). (c\<lparr>cf_level := l\<rparr>, w)) r2"
  let ?r4 = "env_config_file ce fs env (env_profile env (env_buf_size env ?r3))"
  have "ladder_ok (fst r1)"
    by (rule load_first_ok [OF r1]) (simp add: ladder_ok_def hardcoded_defaults_def defaults_ok)
  then have "ladder_ok (fst r2)" by (rule load_first_ok [OF r2])
  then have "ladder_ok (fst ?r3)"
    using level by (cases r2) (auto simp: opt_set_def ladder_ok_def config_base_def level_ok_def
      split: option.split)
  then have "ladder_ok (fst (env_buf_size env ?r3))"
    by (cases ?r3) (auto simp: env_buf_size_def opt_set_def ladder_ok_def config_base_def level_ok_def
      split: option.split)
  then have "ladder_ok (fst (env_profile env (env_buf_size env ?r3)))"
    by (cases "env_buf_size env ?r3") (auto simp: env_profile_def opt_set_def ladder_ok_def
      config_base_def level_ok_def split: option.split)
  then have "ladder_ok (fst ?r4)"
    by (cases "env_profile env (env_buf_size env ?r3)")
       (auto simp: env_config_file_def opt_set_def ladder_ok_def config_wf_def
         dest!: load_from_file_wf split: option.split sum.split)
  moreover have "c = apply_profile (fst ?r4)"
    using load r1 r2
    by (auto simp: load_default_def enforce_non_downgradable_def Let_def split: prod.splits)
  ultimately show "config_wf c" by (simp add: config_wf_def ladder_ok_def)
qed

text \<open>A witness: a table that asks for the audit profile with a ring that is no power of two.\<close>

definition demo_env :: "unit config_env" where
  "demo_env = \<lparr>ce_toml = (\<lambda>s. Inr [(''dologger'', TTable [(''performance_profile'', TString ''prod-audit''),
       (''ring_buffer_size'', TInteger 1500), (''batch_size'', TInteger (- 1))])]),
     ce_sink = (\<lambda>_. Inl []), ce_console = (), ce_shm = (\<lambda>_. Inl []), ce_target = Linux\<rparr>"

lemma config_well_formed_witness:
  "\<exists>c w. parse demo_env [] None = Inr (c, w) \<and> config_wf c \<and> cf_ring_size c = 65536 \<and> cf_batch c = 128
     \<and> w = [WRingSize 1500 65536]"
proof -
  have "\<exists>c w. parse demo_env [] None = Inr (c, w) \<and> cf_ring_size c = 65536 \<and> cf_batch c = 128
     \<and> w = [WRingSize 1500 65536]"
    by (simp add: parse_def demo_env_def parse_table_def tget_def as_table_def as_str_def
      as_integer_def as_boolean_def read_dologger_def read_level_def read_profile_def opt_set_def
      profile_of_def read_ring_size_def as_usize_def is_power_of_two.simps
      read_plain_before_def read_plain_after_def read_shutdown_policy_def read_encoding_def
      read_sinks_def read_shm_def read_watcher_def apply_profile_def config_default_def)
  then show ?thesis using config_well_formed [of demo_env] by blast
qed

section \<open>Precedence\<close>

text \<open>The file named by \<open>DO_LOG_CONFIG_FILE\<close> replaces everything read before it, so when it
  loads, the other files and the variables for the level, the ring size and the profile have no
  effect on the configuration, although the variables are documented as the stronger source.\<close>

theorem env_file_discards_environment:
  assumes "env ''DO_LOG_CONFIG_FILE'' = Some p" "load_from_file ce fs p = Inr (c, w)"
  shows "fst (load_default ce fs env) = c"
proof -
  have "fs p \<noteq> Missing" using assms(2) by (auto simp: load_from_file_def)
  moreover have "apply_profile c = c"
    using load_from_file_wf [OF assms(2)] by (simp add: config_wf_def apply_profile_fixed)
  ultimately show ?thesis
    using assms by (simp add: load_default_def enforce_non_downgradable_def env_config_file_def
      opt_set_def Let_def split: prod.split)
qed

lemma env_file_discards_environment_witness:
  "let fs = (\<lambda>p. if p = ''a.toml'' then Contents [] else Missing);
       env = map_of [(''DO_LOG_CONFIG_FILE'', ''a.toml''), (''DO_LOG_LEVEL'', ''ERROR''),
         (''DO_LOG_BUF_SIZE'', ''4096'')] in
   cf_level (fst (load_default demo_env fs env)) = ''INFO''
   \<and> cf_ring_size (fst (load_default demo_env fs env)) = 65536"
proof -
  let ?fs = "\<lambda>p. if p = ''a.toml'' then Contents [] else Missing"
  let ?env = "map_of [(''DO_LOG_CONFIG_FILE'', ''a.toml''), (''DO_LOG_LEVEL'', ''ERROR''),
     (''DO_LOG_BUF_SIZE'', ''4096'')]"
  have "\<exists>c w. load_from_file demo_env ?fs ''a.toml'' = Inr (c, w) \<and> cf_level c = ''INFO''
     \<and> cf_ring_size c = 65536"
    by (simp add: load_from_file_def read_text_auto_def starts_with_def bytes_str_def
      parse_def demo_env_def parse_table_def tget_def as_table_def as_str_def
      as_integer_def as_boolean_def read_dologger_def read_level_def read_profile_def opt_set_def
      profile_of_def read_ring_size_def as_usize_def is_power_of_two.simps
      read_plain_before_def read_plain_after_def read_shutdown_policy_def read_encoding_def
      read_sinks_def read_shm_def read_watcher_def apply_profile_def config_default_def)
  then obtain c w where c: "load_from_file demo_env ?fs ''a.toml'' = Inr (c, w)"
    "cf_level c = ''INFO''" "cf_ring_size c = 65536" by blast
  have "fst (load_default demo_env ?fs ?env) = c"
    by (rule env_file_discards_environment [OF _ c(1)]) simp
  with c show ?thesis by simp
qed

section \<open>Overrides and compliance\<close>

lemma override_keeps:
  "P (fst r) \<Longrightarrow> (\<And>a c. x = Some a \<Longrightarrow> ok a c \<Longrightarrow> P c \<Longrightarrow> P (f a c))
   \<Longrightarrow> P (fst (override n x ok f r))"
  by (cases r) (auto simp: override_def opt_set_def split: option.split)

text \<open>The interface can switch signing and auditing on but never off.\<close>

lemma overrides_never_loosen:
  "cf_signature c \<Longrightarrow> cf_signature (fst (apply_api_overrides api c))"
  "cf_audit c \<Longrightarrow> cf_audit (fst (apply_api_overrides api c))"
  unfolding apply_api_overrides_def Let_def
  by (intro override_keeps [where P = cf_signature] override_keeps [where P = cf_audit]; auto)+


end
