(* ===== verification/Config_Watcher.thy ===== *)
theory Config_Watcher
  imports Settings Machine
begin

text \<open>
  \<open>core/src/config/watcher.rs\<close>: the watched files, the turn of the polling loop, the marking
  of files by the kernel events of inotify and of Windows, and the debounced reload they
  share. Times are natural numbers of milliseconds; what the file system answers and what the
  callback returns are arguments of the turn that asks. The theorem is that a change is
  reloaded exactly once, when the file has been quiet for the debounce time.
\<close>

section \<open>State\<close>

type_synonym mtime = nat

record watched_file =
  wf_path :: string
  wf_mtime :: "mtime option"
  wf_changed_at :: "nat option"
  wf_pending :: bool

record reload_event =
  re_path :: string
  re_detected_at :: nat
  re_success :: bool
  re_error :: "string option"
  re_old_mtime :: "mtime option"
  re_new_mtime :: "mtime option"

text \<open>A file's metadata: none, without a modification time, or with one. The callback is
  absent when the watcher is disabled.\<close>

datatype stat = NoFile | NoTime | Modified mtime

type_synonym stats = "string \<Rightarrow> stat"

definition stat_mtime :: "stat \<Rightarrow> mtime option" where
  "stat_mtime s = (case s of Modified t \<Rightarrow> Some t | _ \<Rightarrow> None)"

type_synonym callback = "(string \<Rightarrow> string + unit) option"

record config_watcher =
  cw_files :: "watched_file list"
  cw_callback :: bool
  cw_shutdown :: bool
  cw_thread :: bool
  cw_history :: "reload_event list"

definition watch_entry :: "stats \<Rightarrow> string \<Rightarrow> watched_file" where
  "watch_entry st p =
     \<lparr>wf_path = p, wf_mtime = stat_mtime (st p), wf_changed_at = None, wf_pending = False\<rparr>"

text \<open>\<open>canon\<close> is canonicalisation, which leaves a path it cannot resolve. \<open>spawned\<close> says whether
  the thread could be started.\<close>

definition watcher_start ::
  "(string \<Rightarrow> string) \<Rightarrow> stats \<Rightarrow> (string + unit) \<Rightarrow> string list \<Rightarrow> watcher_config
   \<Rightarrow> string + config_watcher" where
  "watcher_start canon st spawned paths cfg =
     (if \<not> wc_enabled cfg then
        Inr \<lparr>cw_files = [], cw_callback = False, cw_shutdown = False, cw_thread = False,
             cw_history = []\<rparr>
      else if paths = [] then Inl ''ConfigWatcher: no valid paths to watch''
      else
        (case spawned of
           Inl e \<Rightarrow> Inl (''ConfigWatcher: cannot spawn thread: '' @ e)
         | Inr _ \<Rightarrow>
             Inr \<lparr>cw_files = map (\<lambda>p. watch_entry st (canon p)) paths, cw_callback = True,
                  cw_shutdown = False, cw_thread = True, cw_history = []\<rparr>))"

definition watch ::
  "(string \<Rightarrow> string) \<Rightarrow> stats \<Rightarrow> string \<Rightarrow> config_watcher \<Rightarrow> config_watcher" where
  "watch canon st p w =
     (if list_ex (\<lambda>f. wf_path f = canon p) (cw_files w) then w
      else w\<lparr>cw_files := cw_files w @ [watch_entry st (canon p)]\<rparr>)"

definition unwatch :: "(string \<Rightarrow> string) \<Rightarrow> string \<Rightarrow> config_watcher \<Rightarrow> config_watcher" where
  "unwatch canon p w = w\<lparr>cw_files := filter (\<lambda>f. wf_path f \<noteq> canon p) (cw_files w)\<rparr>"

definition reload_now ::
  "(string \<Rightarrow> string) \<Rightarrow> (string \<Rightarrow> string + unit) \<Rightarrow> string \<Rightarrow> config_watcher \<Rightarrow> string + unit" where
  "reload_now canon cb p w =
     (if cw_callback w then cb (canon p) else Inl ''No reload callback registered'')"

definition watcher_is_running :: "config_watcher \<Rightarrow> bool" where
  "watcher_is_running w \<longleftrightarrow> cw_thread w \<and> \<not> cw_shutdown w"

definition watcher_shutdown :: "config_watcher \<Rightarrow> config_watcher" where
  "watcher_shutdown w = w\<lparr>cw_shutdown := True, cw_thread := False\<rparr>"

definition watcher_drop :: "config_watcher \<Rightarrow> config_watcher" where
  "watcher_drop w = w\<lparr>cw_shutdown := True\<rparr>"

section \<open>One turn of the polling loop\<close>

definition poll_file :: "nat \<Rightarrow> stat \<Rightarrow> watched_file \<Rightarrow> watched_file" where
  "poll_file now s f =
     (case s of
        Modified t \<Rightarrow>
          if wf_mtime f \<noteq> Some t
          then f\<lparr>wf_mtime := Some t, wf_changed_at := Some now, wf_pending := True\<rparr> else f
      | NoTime \<Rightarrow> f
      | NoFile \<Rightarrow> f\<lparr>wf_mtime := None, wf_pending := False\<rparr>)"

definition ready :: "nat \<Rightarrow> nat \<Rightarrow> watched_file \<Rightarrow> bool" where
  "ready now debounce f \<longleftrightarrow>
     wf_pending f \<and> (case wf_changed_at f of Some c \<Rightarrow> debounce \<le> now - c | None \<Rightarrow> False)"

definition settle :: "nat \<Rightarrow> nat \<Rightarrow> watched_file \<Rightarrow> watched_file" where
  "settle now debounce f = (if ready now debounce f then f\<lparr>wf_pending := False\<rparr> else f)"

definition mtime_of :: "string \<Rightarrow> watched_file list \<Rightarrow> mtime option" where
  "mtime_of p fs = (case List.find (\<lambda>f. wf_path f = p) fs of Some f \<Rightarrow> wf_mtime f | None \<Rightarrow> None)"

definition reload_one ::
  "callback \<Rightarrow> nat \<Rightarrow> stats \<Rightarrow> watched_file list \<Rightarrow> string \<Rightarrow> reload_event" where
  "reload_one cb now st fs p =
     (let r = (case cb of Some f \<Rightarrow> f p | None \<Rightarrow> Inl ''No reload callback'') in
      \<lparr>re_path = p, re_detected_at = now, re_success = is_ok r,
       re_error = (case r of Inl e \<Rightarrow> Some e | Inr _ \<Rightarrow> None),
       re_old_mtime = mtime_of p fs, re_new_mtime = stat_mtime (st p)\<rparr>)"

definition record_event :: "reload_event \<Rightarrow> reload_event list \<Rightarrow> reload_event list" where
  "record_event e h = (let h' = h @ [e] in if 100 < length h' then tl h' else h')"

definition flush_pending_reloads ::
  "callback \<Rightarrow> nat \<Rightarrow> stats \<Rightarrow> nat \<Rightarrow> watched_file list \<times> reload_event list
   \<Rightarrow> watched_file list \<times> reload_event list" where
  "flush_pending_reloads cb now st debounce = (\<lambda>(fs, h).
     let paths = map wf_path (filter (ready now debounce) fs);
         fs' = map (settle now debounce) fs
     in (fs', fold (\<lambda>p. record_event (reload_one cb now st fs' p)) paths h))"

text \<open>The loop reads the clock once before polling and once in the flush.\<close>

definition watcher_turn ::
  "callback \<Rightarrow> nat \<Rightarrow> nat \<Rightarrow> stats \<Rightarrow> nat \<Rightarrow> watched_file list \<times> reload_event list
   \<Rightarrow> watched_file list \<times> reload_event list" where
  "watcher_turn cb now now' st debounce = (\<lambda>(fs, h).
     flush_pending_reloads cb now' st debounce (map (\<lambda>f. poll_file now (st (wf_path f)) f) fs, h))"

section \<open>Kernel events\<close>

definition mark_changed :: "nat \<Rightarrow> stats \<Rightarrow> watched_file \<Rightarrow> watched_file" where
  "mark_changed now st f =
     f\<lparr>wf_changed_at := Some now, wf_pending := True, wf_mtime := stat_mtime (st (wf_path f))\<rparr>"

text \<open>The watches registered when the loop starts; a path with a NUL or a refusal is skipped.\<close>

fun register_watches :: "(string \<Rightarrow> int option) \<Rightarrow> watched_file list \<Rightarrow> (int \<times> string) list" where
  "register_watches add [] = []"
| "register_watches add (f # fs) =
     (case (if CHR 0x00 \<in> set (wf_path f) then None else add (wf_path f)) of
        Some wd \<Rightarrow> (if 0 \<le> wd then [(wd, wf_path f)] else []) | None \<Rightarrow> [])
     @ register_watches add fs"

text \<open>An event is a 16-byte header (descriptor, mask, cookie, length of the name) and the name.\<close>

definition mark_descriptor ::
  "nat \<Rightarrow> stats \<Rightarrow> (int \<times> string) list \<Rightarrow> int \<Rightarrow> watched_file list \<Rightarrow> watched_file list" where
  "mark_descriptor now st watches wd fs =
     (case List.find (\<lambda>(d, _). d = wd) watches of
        Some (_, p) \<Rightarrow> map (\<lambda>f. if wf_path f = p then mark_changed now st f else f) fs
      | None \<Rightarrow> fs)"

function process_inotify ::
  "nat \<Rightarrow> stats \<Rightarrow> (int \<times> string) list \<Rightarrow> bytes \<Rightarrow> watched_file list \<Rightarrow> watched_file list" where
  "process_inotify now st watches data fs =
     (if length data < 16 then fs
      else
        process_inotify now st watches (drop (16 + unat (u32_of (take 4 (drop 12 data)))) data)
          (mark_descriptor now st watches (sint (u32_of (take 4 data))) fs))"
  by pat_completeness auto
termination
  by (relation "measure (\<lambda>(_, _, _, data, _). length data)") auto

declare process_inotify.simps [simp del]

text \<open>A Windows record: offset of the next one, action, length of the name, and the name in
  UTF-16; \<open>base\<close> is the file name of a watched path as the system spells it.\<close>

definition mark_named ::
  "nat \<Rightarrow> stats \<Rightarrow> (string \<Rightarrow> u16 list option) \<Rightarrow> u16 list \<Rightarrow> watched_file list \<Rightarrow> watched_file list"
where
  "mark_named now st base name fs =
     map (\<lambda>f. if base (wf_path f) = Some name then mark_changed now st f else f) fs"

function process_notify ::
  "nat \<Rightarrow> stats \<Rightarrow> (string \<Rightarrow> u16 list option) \<Rightarrow> bytes \<Rightarrow> watched_file list \<Rightarrow> watched_file list" where
  "process_notify now st base data fs =
     (if length data < 12 then fs
      else
        (let name_bytes = unat (u32_of (take 4 (drop 8 data)));
             next_entry = unat (u32_of (take 4 data)) in
         if length data < 12 + name_bytes then fs
         else
           (let fs' = mark_named now st base
                        (units_of True (take (2 * (name_bytes div 2)) (drop 12 data))) fs in
            if next_entry = 0 then fs'
            else process_notify now st base (drop next_entry data) fs')))"
  by pat_completeness auto
termination
  by (relation "measure (\<lambda>(_, _, _, data, _). length data)") (auto simp: Let_def)

declare process_notify.simps [simp del]

text \<open>A round of the native loops: what a poll of the descriptor found, as the buffers read one
  after the other, respectively the record stream of a signalled directory; then the flush.\<close>

definition inotify_turn ::
  "callback \<Rightarrow> nat \<Rightarrow> nat \<Rightarrow> stats \<Rightarrow> nat \<Rightarrow> (int \<times> string) list \<Rightarrow> bytes list
   \<Rightarrow> watched_file list \<times> reload_event list \<Rightarrow> watched_file list \<times> reload_event list" where
  "inotify_turn cb now now' st debounce watches reads = (\<lambda>(fs, h).
     flush_pending_reloads cb now' st debounce
       (fold (process_inotify now st watches) (takeWhile (\<lambda>d. d \<noteq> []) reads) fs, h))"

definition notify_turn ::
  "callback \<Rightarrow> nat \<Rightarrow> nat \<Rightarrow> stats \<Rightarrow> nat \<Rightarrow> (string \<Rightarrow> u16 list option) \<Rightarrow> bytes option
   \<Rightarrow> watched_file list \<times> reload_event list \<Rightarrow> watched_file list \<times> reload_event list" where
  "notify_turn cb now now' st debounce base completed = (\<lambda>(fs, h).
     flush_pending_reloads cb now' st debounce
       (case completed of Some d \<Rightarrow> process_notify now st base d fs | None \<Rightarrow> fs, h))"

section \<open>History\<close>

lemma record_event_bounded: "length h \<le> 100 \<Longrightarrow> length (record_event e h) \<le> 100"
  by (auto simp: record_event_def Let_def)

lemma fold_events_bounded:
  "length h \<le> 100 \<Longrightarrow> length (fold (\<lambda>p. record_event (g p)) ps h) \<le> 100"
  by (induction ps arbitrary: h) (auto intro: record_event_bounded)

lemma history_bounded:
  "length h \<le> 100 \<Longrightarrow> length (snd (watcher_turn cb now now' st d (fs, h))) \<le> 100"
  by (simp add: watcher_turn_def flush_pending_reloads_def Let_def fold_events_bounded)

section \<open>Debouncing\<close>

text \<open>One file through the turns: the times of the two clock reads and the file's metadata.\<close>

definition file_turn :: "nat \<Rightarrow> nat \<times> nat \<times> stat \<Rightarrow> watched_file \<Rightarrow> bool \<times> watched_file" where
  "file_turn d = (\<lambda>(now, now', s) f.
     let f' = poll_file now s f in (ready now' d f', settle now' d f'))"

fun file_turns :: "nat \<Rightarrow> (nat \<times> nat \<times> stat) list \<Rightarrow> watched_file \<Rightarrow> bool list \<times> watched_file" where
  "file_turns d [] f = ([], f)"
| "file_turns d (t # ts) f =
     (case file_turn d t f of (b, f') \<Rightarrow>
        (case file_turns d ts f' of (bs, f'') \<Rightarrow> (b # bs, f'')))"

lemma path_turn [simp]: "wf_path (snd (file_turn d t f)) = wf_path f"
  by (cases t) (auto simp: file_turn_def Let_def settle_def poll_file_def split: stat.split)

lemma path_poll [simp]: "wf_path (poll_file now s f) = wf_path f"
  by (auto simp: poll_file_def split: stat.split)

text \<open>A turn of the loop is a turn of every file, and the reloads are those of the ready ones.\<close>

lemma watcher_turn_files:
  "fst (watcher_turn cb now now' st d (fs, h))
     = map (\<lambda>f. snd (file_turn d (now, now', st (wf_path f)) f)) fs"
  "snd (watcher_turn cb now now' st d (fs, h))
     = fold (\<lambda>p. record_event (reload_one cb now' st (fst (watcher_turn cb now now' st d (fs, h))) p))
         (map wf_path (filter (\<lambda>f. fst (file_turn d (now, now', st (wf_path f)) f)) fs)) h"
  by (simp_all add: watcher_turn_def flush_pending_reloads_def file_turn_def Let_def
        filter_map comp_def)

lemma quiet_turns:
  assumes "wf_mtime f = Some m" "\<not> wf_pending f" "\<forall>(_, _, s) \<in> set ts. s = Modified m"
  shows "file_turns d ts f = (map (\<lambda>_. False) ts, f)"
  using assms(3)
proof (induction ts)
  case (Cons t ts)
  have "file_turn d t f = (False, f)"
    using Cons.prems assms(1,2)
    by (cases t) (auto simp: file_turn_def Let_def poll_file_def ready_def settle_def)
  with Cons show ?case by simp
qed simp

lemma pending_turns:
  assumes "wf_mtime f = Some m" "wf_pending f" "wf_changed_at f = Some c"
    and "\<forall>(_, _, s) \<in> set ts. s = Modified m"
  shows "fst (file_turns d ts f)
    = (let n = length (takeWhile (\<lambda>(_, now', _). now' - c < d) ts) in
       map (\<lambda>i. i = n) [0..<length ts])"
  using assms(4)
proof (induction ts)
  case (Cons t ts)
  obtain now now' s where t: "t = (now, now', s)" by (cases t)
  have same: "poll_file now s f = f" using Cons.prems assms(1) by (auto simp: t poll_file_def)
  show ?case
  proof (cases "now' - c < d")
    case True
    then have "file_turn d t f = (False, f)"
      using assms(3) by (simp add: t file_turn_def same ready_def settle_def)
    with Cons True show ?thesis
      by (cases "file_turns d ts f") (simp add: t Let_def map_upt_Suc del: upt_Suc)
  next
    case False
    then have "file_turn d t f = (True, f\<lparr>wf_pending := False\<rparr>)"
      using assms(2,3) by (simp add: t file_turn_def same ready_def settle_def)
    moreover have "file_turns d ts (f\<lparr>wf_pending := False\<rparr>) = (map (\<lambda>_. False) ts, f\<lparr>wf_pending := False\<rparr>)"
      by (rule quiet_turns [where m = m]) (use assms(1) Cons.prems in auto)
    ultimately show ?thesis
      using False by (simp add: t Let_def map_upt_Suc comp_def map_replicate_const del: upt_Suc)
  qed
qed simp

text \<open>C22: A change is reloaded exactly once: when a turn finds a modification time that is new,
  and the following turns find the same one, the file is reloaded in the first of these turns
  whose flush comes at least the debounce time after the change was seen, and in no other.
  A change in the meantime starts the wait again.\<close>

theorem change_reloaded_once:
  assumes new: "wf_mtime f \<noteq> Some m"
    and same: "\<forall>(_, _, s) \<in> set ((now, now', s0) # ts). s = Modified m"
  shows "fst (file_turns d ((now, now', s0) # ts) f)
    = (let n = length (takeWhile (\<lambda>(_, fl, _). fl - now < d) ((now, now', s0) # ts)) in
       map (\<lambda>i. i = n) [0..<Suc (length ts)])"
proof -
  let ?f = "f\<lparr>wf_mtime := Some m, wf_changed_at := Some now, wf_pending := True\<rparr>"
  have s0: "s0 = Modified m" using same by simp
  have "poll_file now s0 f = ?f" using new by (simp add: s0 poll_file_def)
  moreover have "poll_file now s0 ?f = ?f" by (simp add: s0 poll_file_def)
  ultimately have "file_turns d ((now, now', s0) # ts) f = file_turns d ((now, now', s0) # ts) ?f"
    by (simp add: file_turn_def)
  moreover have "fst (file_turns d ((now, now', s0) # ts) ?f)
    = (let n = length (takeWhile (\<lambda>(_, fl, _). fl - now < d) ((now, now', s0) # ts)) in
       map (\<lambda>i. i = n) [0..<length ((now, now', s0) # ts)])"
    by (rule pending_turns [where m = m]) (use same in auto)
  ultimately show ?thesis by simp
qed

lemma change_reloaded_once_witness:
  "fst (file_turns 500 [(0, 1, Modified 7), (300, 301, Modified 7), (600, 601, Modified 7),
      (900, 901, Modified 7)] (watch_entry (\<lambda>_. Modified 3) ''a''))
    = [False, False, True, False]"
  by (subst change_reloaded_once [where m = 7])
     (simp_all add: watch_entry_def stat_mtime_def upt_rec)

text \<open>
  With the native loop of Linux a file added after the start is never reloaded: its path is not
  among the registered watches, so no event marks it.
\<close>

lemma inotify_marks_registered:
  "f \<in> set fs \<Longrightarrow> wf_path f \<notin> snd ` set watches \<Longrightarrow> f \<in> set (process_inotify now st watches data fs)"
proof (induction now st watches data fs rule: process_inotify.induct)
  case (1 now st watches data fs)
  have "f \<in> set (mark_descriptor now st watches wd fs)" for wd
  proof (cases "List.find (\<lambda>(d, _). d = wd) watches")
    case (Some x)
    then have "x \<in> set watches" unfolding find_Some_iff by (metis nth_mem)
    then have "wf_path f \<noteq> snd x" using "1.prems"(2) by auto
    then have "(if wf_path f = snd x then mark_changed now st f else f) = f" by simp
    then show ?thesis
      using "1.prems"(1) Some by (cases x) (force simp: mark_descriptor_def)
  qed (use "1.prems" in \<open>simp add: mark_descriptor_def\<close>)
  with 1 show ?case by (subst process_inotify.simps) simp
qed

lemma inotify_late_file:
  assumes "f \<in> set fs" "wf_path f \<notin> snd ` set watches" "\<not> wf_pending f"
  shows "f \<in> set (fst (inotify_turn cb now now' st d watches reads (fs, h)))"
proof -
  have "f \<in> set (fold (process_inotify now st watches) ds fs)" for ds
    using assms(1)
    by (induction ds arbitrary: fs) (auto intro: inotify_marks_registered [OF _ assms(2)])
  moreover have "settle now' d f = f" using assms(3) by (simp add: settle_def ready_def)
  ultimately show ?thesis
    by (force simp: inotify_turn_def flush_pending_reloads_def Let_def)
qed

end
