(* ===== verification/Hot_Reload.thy ===== *)
theory Hot_Reload
  imports Machine "HOL-Library.AList"
begin

text \<open>
  \<open>core/src/config/hot_reload.rs\<close>: the epoch counter, the saved states of plugins, the reload
  of a plugin and of the engine's configuration, and the bounded history. Plugin names and
  messages are strings; the epoch is a \<open>u64\<close> that wraps. The theorem is that in every
  reachable manager a state was saved before the current epoch, so the check against rolling
  back, which compares with an epoch taken a moment before, never rejects anything.
\<close>

section \<open>State\<close>

record plugin_state =
  ps_plugin :: string
  ps_version :: u32
  ps_data :: bytes
  ps_epoch :: u64
  ps_format :: u32

record reload_result =
  rr_plugin :: string
  rr_success :: bool
  rr_old_version :: u32
  rr_new_version :: u32
  rr_error :: "string option"
  rr_migrated :: bool
  rr_epoch :: u64

record hot_reload =
  hr_epoch :: u64
  hr_states :: "(string \<times> plugin_state) list"
  hr_history :: "reload_result list"

record config_ticket =
  ct_epoch :: u64
  ct_previous :: u64

definition hr_new :: hot_reload where
  "hr_new = \<lparr>hr_epoch = 1, hr_states = [], hr_history = []\<rparr>"

section \<open>Operations\<close>

definition next_epoch :: "hot_reload \<Rightarrow> u64 \<times> hot_reload" where
  "next_epoch h = (hr_epoch h, h\<lparr>hr_epoch := hr_epoch h + 1\<rparr>)"

definition current_epoch :: "hot_reload \<Rightarrow> u64" where
  "current_epoch h = hr_epoch h"

definition serialize_state :: "string \<Rightarrow> u32 \<Rightarrow> bytes \<Rightarrow> u32 \<Rightarrow> hot_reload \<Rightarrow> hot_reload" where
  "serialize_state n v d fmt h =
     (case next_epoch h of (e, h') \<Rightarrow>
        h'\<lparr>hr_states := AList.update n
             \<lparr>ps_plugin = n, ps_version = v, ps_data = d, ps_epoch = e, ps_format = fmt\<rparr> (hr_states h')\<rparr>)"

definition get_state_for_reload :: "string \<Rightarrow> u64 \<Rightarrow> hot_reload \<Rightarrow> plugin_state option" where
  "get_state_for_reload n max_epoch h =
     (case map_of (hr_states h) n of
        None \<Rightarrow> None
      | Some s \<Rightarrow>
          if max_epoch < ps_epoch s then None
          else if 1 < ps_format s then None
          else Some s)"

definition record_reload :: "reload_result \<Rightarrow> hot_reload \<Rightarrow> hot_reload" where
  "record_reload r h =
     (let hs = hr_history h @ [r] in h\<lparr>hr_history := (if 100 < length hs then tl hs else hs)\<rparr>)"

definition no_state_message :: "string \<Rightarrow> u64 \<Rightarrow> string" where
  "no_state_message n e = ''No saved state for '' @ [CHR 0x27] @ n @ [CHR 0x27] @ '' at epoch '' @ dec (unat e)"

definition reload_plugin ::
  "string \<Rightarrow> u32 \<Rightarrow> u32 \<Rightarrow> bytes option \<Rightarrow> hot_reload \<Rightarrow> reload_result \<times> hot_reload" where
  "reload_plugin n old_v new_v new_data h =
     (case next_epoch h of (e, h1) \<Rightarrow>
        let (migrated, err, h2) =
          (case new_data of
             Some d \<Rightarrow> (True, None, serialize_state n new_v d 1 h1)
           | None \<Rightarrow>
               (case get_state_for_reload n e h1 of
                  Some _ \<Rightarrow> (True, None, h1)
                | None \<Rightarrow> (False, Some (no_state_message n e), h1)))
        in (\<lparr>rr_plugin = n, rr_success = (migrated \<or> new_data \<noteq> None), rr_old_version = old_v,
             rr_new_version = new_v, rr_error = err, rr_migrated = migrated, rr_epoch = e\<rparr>, h2))"

definition rollback :: "string \<Rightarrow> string \<Rightarrow> hot_reload \<Rightarrow> reload_result \<times> hot_reload" where
  "rollback n err h =
     (\<lparr>rr_plugin = n, rr_success = False,
       rr_old_version = (case map_of (hr_states h) n of Some s \<Rightarrow> ps_version s | None \<Rightarrow> 0),
       rr_new_version = 0, rr_error = Some err, rr_migrated = False, rr_epoch = current_epoch h\<rparr>,
      h\<lparr>hr_states := AList.delete n (hr_states h)\<rparr>)"

definition clear_state :: "string \<Rightarrow> hot_reload \<Rightarrow> hot_reload" where
  "clear_state n h = h\<lparr>hr_states := AList.delete n (hr_states h)\<rparr>"

definition begin_config_reload :: "hot_reload \<Rightarrow> config_ticket \<times> hot_reload" where
  "begin_config_reload h =
     (let previous = current_epoch h in
      case next_epoch h of (e, h') \<Rightarrow> (\<lparr>ct_epoch = e, ct_previous = previous\<rparr>, h'))"

definition complete_config_reload ::
  "config_ticket \<Rightarrow> bool \<Rightarrow> string option \<Rightarrow> hot_reload \<Rightarrow> reload_result \<times> hot_reload" where
  "complete_config_reload t ok err h =
     (let r = \<lparr>rr_plugin = ''__engine_config__'', rr_success = ok,
               rr_old_version = ucast (ct_previous t), rr_new_version = ucast (ct_epoch t),
               rr_error = err, rr_migrated = False, rr_epoch = ct_epoch t\<rparr>
      in (r, record_reload r h))"

definition last_reload :: "hot_reload \<Rightarrow> reload_result option" where
  "last_reload h = (if hr_history h = [] then None else Some (last (hr_history h)))"

section \<open>The manager as a machine\<close>

datatype hr_call =
    HNext
  | HSerialize string u32 bytes u32
  | HReload string u32 u32 "bytes option"
  | HRollback string string
  | HClear string
  | HBegin
  | HComplete config_ticket bool "string option"
  | HRecord reload_result

text \<open>The counter is a word; the machine stops where it would wrap.\<close>

definition hr_step :: "hot_reload \<Rightarrow> hr_call \<Rightarrow> hot_reload option" where
  "hr_step h c =
     (if unat (hr_epoch h) + 2 < 2 ^ 64 then
        Some (case c of
           HNext \<Rightarrow> snd (next_epoch h)
         | HSerialize n v d fmt \<Rightarrow> serialize_state n v d fmt h
         | HReload n old new d \<Rightarrow> snd (reload_plugin n old new d h)
         | HRollback n e \<Rightarrow> snd (rollback n e h)
         | HClear n \<Rightarrow> clear_state n h
         | HBegin \<Rightarrow> snd (begin_config_reload h)
         | HComplete t ok e \<Rightarrow> snd (complete_config_reload t ok e h)
         | HRecord r \<Rightarrow> record_reload r h)
      else None)"

definition hr_inv :: "hot_reload \<Rightarrow> bool" where
  "hr_inv h \<longleftrightarrow>
     distinct (map fst (hr_states h))
     \<and> (\<forall>(n, s) \<in> set (hr_states h). ps_plugin s = n \<and> ps_epoch s < hr_epoch h)
     \<and> length (hr_history h) \<le> 100"

lemma epoch_less_next: "unat e + 2 < 2 ^ 64 \<Longrightarrow> (s :: u64) < e \<Longrightarrow> s < e + 1 \<and> s < e + 1 + 1"
  by (simp add: word_less_nat_alt unat_word_ariths)

lemma epoch_self_less: "unat (e :: u64) + 2 < 2 ^ 64 \<Longrightarrow> e < e + 1 \<and> e < e + 1 + 1 \<and> e + 1 < e + 1 + 1"
  by (simp add: word_less_nat_alt unat_word_ariths)

lemma next_epoch_inv:
  assumes "hr_inv h" "unat (hr_epoch h) + 2 < 2 ^ 64"
  shows "hr_inv (snd (next_epoch h))"
  using assms epoch_less_next by (fastforce simp: hr_inv_def next_epoch_def)

lemma set_update: "set (AList.update k v xs) \<subseteq> insert (k, v) (set xs)"
  by (induction xs) auto

lemma serialize_inv:
  assumes inv: "hr_inv h" and room: "hr_epoch h < hr_epoch h + 1"
    and old: "\<And>s. s < hr_epoch h \<Longrightarrow> s < hr_epoch h + 1"
  shows "hr_inv (serialize_state n v d fmt h)"
proof -
  let ?s = "\<lparr>ps_plugin = n, ps_version = v, ps_data = d, ps_epoch = hr_epoch h, ps_format = fmt\<rparr>"
  have "\<forall>(m, s) \<in> set (AList.update n ?s (hr_states h)). ps_plugin s = m \<and> ps_epoch s < hr_epoch h + 1"
    using inv room old set_update [of n ?s "hr_states h"] by (fastforce simp: hr_inv_def)
  then show ?thesis
    using inv by (simp add: hr_inv_def serialize_state_def next_epoch_def distinct_update)
qed

lemma record_inv: "hr_inv h \<Longrightarrow> hr_inv (record_reload r h)"
  by (auto simp: hr_inv_def record_reload_def Let_def)

lemma set_delete: "set (AList.delete k xs) \<subseteq> set xs"
  by (auto simp: AList.delete_eq)

lemma delete_inv:
  "hr_inv h \<Longrightarrow> hr_inv (h\<lparr>hr_states := AList.delete n (hr_states h)\<rparr>)"
  using distinct_delete [of "hr_states h" n] set_delete [of n "hr_states h"]
  by (fastforce simp: hr_inv_def)

lemma reload_inv:
  assumes "hr_inv h" "unat (hr_epoch h) + 2 < 2 ^ 64"
  shows "hr_inv (snd (reload_plugin n old new d h))"
proof -
  let ?h = "snd (next_epoch h)"
  have a: "hr_inv ?h" by (rule next_epoch_inv [OF assms])
  have e: "hr_epoch ?h = hr_epoch h + 1" by (simp add: next_epoch_def)
  have u: "unat (hr_epoch h + 1) = unat (hr_epoch h) + 1"
    using assms(2) by (simp add: unat_word_ariths)
  have "hr_inv (serialize_state n new x 1 ?h)" for x
    by (rule serialize_inv [OF a]) (use u assms(2) in \<open>auto simp: e word_less_nat_alt unat_word_ariths\<close>)
  with a show ?thesis
    by (auto simp: reload_plugin_def Let_def split: prod.splits option.splits)
qed

interpretation hr_machine: safe_machine hr_step hr_new hr_inv
proof
  show "hr_inv hr_new" by (simp add: hr_inv_def hr_new_def)
next
  fix h c h'
  assume inv: "hr_inv h" and st: "hr_step h c = Some h'"
  then have room: "unat (hr_epoch h) + 2 < 2 ^ 64" by (simp add: hr_step_def split: if_splits)
  note n = next_epoch_inv [OF inv room]
  have "hr_inv (serialize_state n v d fmt h)" for n v d fmt
    by (rule serialize_inv [OF inv]) (use epoch_self_less [OF room] epoch_less_next [OF room] in auto)
  then show "hr_inv h'"
    using st room inv n reload_inv [OF inv room] record_inv [OF inv] delete_inv [OF inv]
    by (cases c) (auto simp: hr_step_def rollback_def clear_state_def begin_config_reload_def
      complete_config_reload_def Let_def split: prod.splits)
qed



text \<open>Rolling back discards the saved state that it is documented to restore, and a reload that is
  given new state reports an epoch below the one it saved the state with.\<close>

lemma rollback_discards: "map_of (hr_states (snd (rollback n e h))) n = None"
  by (simp add: rollback_def AList.delete_conv')

lemma reload_epoch_behind:
  "map_option ps_epoch (map_of (hr_states (snd (reload_plugin n old new (Some d) h))) n)
     = Some (rr_epoch (fst (reload_plugin n old new (Some d) h)) + 1)"
  by (simp add: reload_plugin_def next_epoch_def serialize_state_def update_conv')

end
