(* ===== verification/Control_Plane.thy ===== *)
theory Control_Plane
  imports Complex_Main Engine Text_Codec Error_Codes
begin

text \<open>
  \<open>core/src/sys/control_plane.rs\<close>: the counters behind \<open>/status\<close> with their snapshot, the reader
  of a request, and what each request does and answers. A string is a sequence of Unicode
  scalar values, a connection the bytes that arrive on it and whether the end is an error
  (a timeout) or the end of the stream; the answer is the status and the body. Sockets, the
  listener's address and the callbacks are arguments. The counters shared with the engine are
  those of \<open>Engine\<close>. The theorems: whatever is sent, the level stays canonical and counts and
  history stay consistent, and every string in an answer survives a JSON reader.
\<close>

section \<open>Counters\<close>

definition MAX_CONTENT_LENGTH :: nat where "MAX_CONTENT_LENGTH = 65536"
definition MAX_REQUEST_LINE :: nat where "MAX_REQUEST_LINE = 4096"
definition MAX_STATUS_HISTORY :: nat where "MAX_STATUS_HISTORY = 64"

datatype status_event = CountersReset

record plane_stats =
  pl_started_at :: nat
  pl_core :: control_stats
  pl_dispatch_errors :: u64
  pl_reload_requests :: u64
  pl_reloads :: u64
  pl_active_connections :: u64
  pl_ring_capacity :: u64
  pl_ring_fill_permille :: u64
  pl_plugins :: u64
  pl_signature_enabled :: bool
  pl_hot_reload_epoch :: u64
  pl_profile :: "uchar list"
  pl_history :: "status_event list"

definition stats_new :: "nat \<Rightarrow> plane_stats" where
  "stats_new now =
     \<lparr>pl_started_at = now,
      pl_core = \<lparr>ks_accepted = 0, ks_processed = 0, ks_dropped = 0, ks_errors = 0,
                 ks_sink_errors = 0, ks_shm_drops = 0\<rparr>,
      pl_dispatch_errors = 0, pl_reload_requests = 0, pl_reloads = 0, pl_active_connections = 0,
      pl_ring_capacity = 0, pl_ring_fill_permille = 0, pl_plugins = 0,
      pl_signature_enabled = False, pl_hot_reload_epoch = 0, pl_profile = lit ''unknown'',
      pl_history = []\<rparr>"

definition configure :: "uchar list \<Rightarrow> nat \<Rightarrow> bool \<Rightarrow> plane_stats \<Rightarrow> plane_stats" where
  "configure profile capacity signed' s =
     s\<lparr>pl_profile := profile, pl_ring_capacity := of_nat capacity, pl_signature_enabled := signed'\<rparr>"

definition set_plugins :: "nat \<Rightarrow> plane_stats \<Rightarrow> plane_stats" where
  "set_plugins n s = s\<lparr>pl_plugins := of_nat n\<rparr>"

definition set_ring_fill :: "rat \<Rightarrow> plane_stats \<Rightarrow> plane_stats" where
  "set_ring_fill ratio s =
     s\<lparr>pl_ring_fill_permille := of_int (\<lfloor>max 0 (min 1 ratio) * 1000 + 1 / 2\<rfloor>)\<rparr>"

definition set_ring_fill_counts :: "nat \<Rightarrow> nat \<Rightarrow> plane_stats \<Rightarrow> plane_stats" where
  "set_ring_fill_counts used capacity s =
     (if capacity = 0 then set_ring_fill 0 s else set_ring_fill (of_nat used / of_nat capacity) s)"

definition set_hot_reload_epoch :: "u64 \<Rightarrow> plane_stats \<Rightarrow> plane_stats" where
  "set_hot_reload_epoch e s = s\<lparr>pl_hot_reload_epoch := e\<rparr>"

definition on_core :: "(control_stats \<Rightarrow> control_stats) \<Rightarrow> plane_stats \<Rightarrow> plane_stats" where
  "on_core f s = s\<lparr>pl_core := f (pl_core s)\<rparr>"

definition record_processed :: "plane_stats \<Rightarrow> plane_stats" where
  "record_processed = on_core (\<lambda>k. k\<lparr>ks_processed := ks_processed k + 1\<rparr>)"

definition record_dispatch_error :: "plane_stats \<Rightarrow> plane_stats" where
  "record_dispatch_error s =
     on_core record_error (s\<lparr>pl_dispatch_errors := pl_dispatch_errors s + 1\<rparr>)"

definition record_reload_request :: "plane_stats \<Rightarrow> plane_stats" where
  "record_reload_request s = s\<lparr>pl_reload_requests := pl_reload_requests s + 1\<rparr>"

definition record_reload_count :: "plane_stats \<Rightarrow> plane_stats" where
  "record_reload_count s = s\<lparr>pl_reloads := pl_reloads s + 1\<rparr>"

definition connection_started :: "plane_stats \<Rightarrow> plane_stats" where
  "connection_started s = s\<lparr>pl_active_connections := pl_active_connections s + 1\<rparr>"

definition connection_finished :: "plane_stats \<Rightarrow> plane_stats" where
  "connection_finished s = s\<lparr>pl_active_connections := pl_active_connections s - 1\<rparr>"

definition push_history :: "status_event \<Rightarrow> plane_stats \<Rightarrow> plane_stats" where
  "push_history e s =
     (let h = pl_history s @ [e] in
      s\<lparr>pl_history := drop (length h - MAX_STATUS_HISTORY) h\<rparr>)"

definition clear_history :: "plane_stats \<Rightarrow> plane_stats" where
  "clear_history s = s\<lparr>pl_history := []\<rparr>"

definition reset_counters :: "plane_stats \<Rightarrow> plane_stats" where
  "reset_counters s =
     push_history CountersReset
       (s\<lparr>pl_core := \<lparr>ks_accepted = 0, ks_processed = 0, ks_dropped = 0, ks_errors = 0,
                      ks_sink_errors = 0, ks_shm_drops = 0\<rparr>,
          pl_dispatch_errors := 0, pl_reload_requests := 0, pl_reloads := 0\<rparr>)"

section \<open>Snapshot and JSON\<close>

record status_snapshot =
  sn_status :: "uchar list"
  sn_level :: "uchar list"
  sn_profile :: "uchar list"
  sn_uptime_seconds :: u64
  sn_accepted :: u64
  sn_processed :: u64
  sn_dropped :: u64
  sn_errors :: u64
  sn_sink_errors :: u64
  sn_dispatch_errors :: u64
  sn_shm_drops :: u64
  sn_reload_requests :: u64
  sn_reloads :: u64
  sn_active_connections :: u64
  sn_ring_capacity :: u64
  sn_ring_fill_permille :: u64
  sn_plugins :: u64
  sn_signature_enabled :: bool
  sn_hot_reload_epoch :: u64

definition snapshot :: "nat \<Rightarrow> uchar list \<Rightarrow> plane_stats \<Rightarrow> status_snapshot" where
  "snapshot now level s =
     \<lparr>sn_status = lit ''ok'',
      sn_level = level,
      sn_profile = pl_profile s,
      sn_uptime_seconds = of_nat ((now - pl_started_at s) div 1000000000),
      sn_accepted = ks_accepted (pl_core s),
      sn_processed = ks_processed (pl_core s),
      sn_dropped = ks_dropped (pl_core s),
      sn_errors = ks_errors (pl_core s),
      sn_sink_errors = ks_sink_errors (pl_core s),
      sn_dispatch_errors = pl_dispatch_errors s,
      sn_shm_drops = ks_shm_drops (pl_core s),
      sn_reload_requests = pl_reload_requests s,
      sn_reloads = pl_reloads s,
      sn_active_connections = pl_active_connections s,
      sn_ring_capacity = pl_ring_capacity s,
      sn_ring_fill_permille = pl_ring_fill_permille s,
      sn_plugins = pl_plugins s,
      sn_signature_enabled = pl_signature_enabled s,
      sn_hot_reload_epoch = pl_hot_reload_epoch s\<rparr>"

definition total_records :: "status_snapshot \<Rightarrow> u64" where
  "total_records n = sat_add64 (sn_accepted n) (sn_processed n)"

definition snapshot_is_healthy :: "status_snapshot \<Rightarrow> bool" where
  "snapshot_is_healthy n \<longleftrightarrow> sn_status n = lit ''ok'' \<and> sn_errors n = 0"

definition ring_fill_ratio :: "status_snapshot \<Rightarrow> rat" where
  "ring_fill_ratio n = of_nat (unat (sn_ring_fill_permille n)) / 1000"

definition hex_lower :: "nat \<Rightarrow> uchar" where
  "hex_lower d = (if d < 10 then 48 + d else 87 + d)"

text \<open>\<open>char::is_control\<close> is the general category Cc; \<open>{:04x}\<close> of such a character.\<close>

definition is_control :: "uchar \<Rightarrow> bool" where
  "is_control c \<longleftrightarrow> c < 0x20 \<or> 0x7F \<le> c \<and> c < 0xA0"

definition escape_char :: "uchar \<Rightarrow> uchar list" where
  "escape_char c =
     (if c = 0x22 then [0x5C, 0x22]
      else if c = 0x5C then [0x5C, 0x5C]
      else if c = 0x0A then [0x5C, 0x6E]
      else if c = 0x0D then [0x5C, 0x72]
      else if c = 0x09 then [0x5C, 0x74]
      else if is_control c then
        [0x5C, 0x75, 0x30, 0x30, hex_lower (c div 16), hex_lower (c mod 16)]
      else [c])"

definition escape_json :: "uchar list \<Rightarrow> uchar list" where
  "escape_json v = concat (map escape_char v)"

definition quoted :: "uchar list \<Rightarrow> uchar list" where
  "quoted v = [0x22] @ escape_json v @ [0x22]"

definition num :: "u64 \<Rightarrow> uchar list" where
  "num w = lit (dec (unat w))"

definition json_key :: "string \<Rightarrow> uchar list" where
  "json_key k = [0x22] @ lit k @ [0x22, 0x3A]"

fun comma :: "uchar list list \<Rightarrow> uchar list" where
  "comma [] = []"
| "comma [f] = f"
| "comma (f # g # fs) = f @ [0x2C] @ comma (g # fs)"

definition json_join :: "uchar list list \<Rightarrow> uchar list" where
  "json_join fs = [0x7B] @ comma fs @ [0x7D]"

definition to_json :: "status_snapshot \<Rightarrow> uchar list" where
  "to_json n =
     json_join
      [json_key ''status'' @ quoted (sn_status n),
       json_key ''level'' @ quoted (sn_level n),
       json_key ''profile'' @ quoted (sn_profile n),
       json_key ''uptime_seconds'' @ num (sn_uptime_seconds n),
       json_key ''accepted'' @ num (sn_accepted n),
       json_key ''processed'' @ num (sn_processed n),
       json_key ''dropped'' @ num (sn_dropped n),
       json_key ''errors'' @ num (sn_errors n),
       json_key ''sink_errors'' @ num (sn_sink_errors n),
       json_key ''dispatch_errors'' @ num (sn_dispatch_errors n),
       json_key ''shm_drops'' @ num (sn_shm_drops n),
       json_key ''reload_requests'' @ num (sn_reload_requests n),
       json_key ''reloads'' @ num (sn_reloads n),
       json_key ''active_connections'' @ num (sn_active_connections n),
       json_key ''ring_capacity'' @ num (sn_ring_capacity n),
       json_key ''ring_fill_permille'' @ num (sn_ring_fill_permille n),
       json_key ''plugins'' @ num (sn_plugins n),
       json_key ''signature_enabled'' @ lit (if sn_signature_enabled n then ''true'' else ''false''),
       json_key ''hot_reload_epoch'' @ num (sn_hot_reload_epoch n)]"

definition status_json :: "nat \<Rightarrow> uchar list \<Rightarrow> plane_stats \<Rightarrow> uchar list" where
  "status_json now level s = to_json (snapshot now level s)"

section \<open>Reading a request\<close>

record parsed_request =
  pr_method :: "uchar list"
  pr_path :: "uchar list"
  pr_body :: bytes

datatype request_error = BadRequest | PayloadTooLarge | HeaderTooLarge | UnsupportedMethod

text \<open>\<open>BufRead::read_line\<close>: up to and with the line feed, or the rest at the end of the stream;
  an error when the stream breaks before the line feed or the bytes are not UTF-8.\<close>

definition read_line :: "bool \<Rightarrow> bytes \<Rightarrow> uchar list option \<times> bytes" where
  "read_line broken inp =
     (let line = takeWhile (\<lambda>b. b \<noteq> 0x0A) inp; rest = dropWhile (\<lambda>b. b \<noteq> 0x0A) inp in
      case rest of
        [] \<Rightarrow> (if broken then None else utf8_decode line, [])
      | b # rest' \<Rightarrow> (utf8_decode (line @ [b]), rest'))"

definition byte_len :: "uchar list \<Rightarrow> nat" where
  "byte_len t = length (utf8_encode t)"

text \<open>\<open>str::split_whitespace\<close>, \<open>str::split_once\<close> and \<open>str::find\<close>.\<close>

fun words_of :: "uchar list \<Rightarrow> uchar list \<Rightarrow> uchar list list" where
  "words_of acc [] = (if acc = [] then [] else [acc])"
| "words_of acc (c # cs) =
     (if is_white c then (if acc = [] then [] else [acc]) @ words_of [] cs
      else words_of (acc @ [c]) cs)"

definition split_once :: "uchar \<Rightarrow> uchar list \<Rightarrow> (uchar list \<times> uchar list) option" where
  "split_once c t =
     (case dropWhile (\<lambda>x. x \<noteq> c) t of
        [] \<Rightarrow> None | _ # rest \<Rightarrow> Some (takeWhile (\<lambda>x. x \<noteq> c) t, rest))"

fun find_after :: "uchar list \<Rightarrow> uchar list \<Rightarrow> uchar list option" where
  "find_after p [] = (if p = [] then Some [] else None)"
| "find_after p (c # t) =
     (if starts_with p (c # t) then Some (drop (length p) (c # t)) else find_after p t)"

definition request_line_of :: "uchar list \<Rightarrow> request_error + uchar list \<times> uchar list" where
  "request_line_of line =
     (if MAX_REQUEST_LINE < byte_len line then Inl BadRequest
      else
        (case words_of [] line of
           [m, p, v] \<Rightarrow>
             if v \<notin> {lit ''HTTP/1.0'', lit ''HTTP/1.1''} then Inl BadRequest
             else if m \<notin> {lit ''GET'', lit ''POST''} then Inl UnsupportedMethod
             else if 256 < byte_len p \<or> \<not> starts_with [0x2F] p \<or> find_after [0x2E, 0x2E] p \<noteq> None
                     \<or> 0 \<in> set p
             then Inl BadRequest
             else Inr (m, p)
         | _ \<Rightarrow> Inl BadRequest))"

definition header_line ::
  "uchar list \<Rightarrow> nat option \<Rightarrow> request_error + nat option" where
  "header_line header len =
     (case split_once 0x3A header of
        None \<Rightarrow> Inl BadRequest
      | Some (name, v) \<Rightarrow>
          let name = ascii_lower (trim_text name); v = trim_text v in
          if name = lit ''transfer-encoding'' then Inl BadRequest
          else if name = lit ''content-length'' then
            (if len \<noteq> None \<or> v = [] then Inl BadRequest
             else
               (case parse_unsigned (2 ^ 64 - 1) (bytes_str (utf8_encode v)) of
                  None \<Rightarrow> Inl BadRequest
                | Some n \<Rightarrow> if MAX_CONTENT_LENGTH < n then Inl PayloadTooLarge else Inr (Some n)))
          else Inr len)"

text \<open>The header loop ends at a blank line, after 64 headers, or at the end of the stream, where
  a read line is empty: the recursion is on the headers still allowed.\<close>

fun read_headers ::
  "nat \<Rightarrow> bool \<Rightarrow> nat option \<Rightarrow> bytes \<Rightarrow> request_error + nat option \<times> bytes" where
  "read_headers allowed broken len inp =
     (case read_line broken inp of
        (None, _) \<Rightarrow> Inl BadRequest
      | (Some header, rest) \<Rightarrow>
          if MAX_REQUEST_LINE < byte_len header then Inl HeaderTooLarge
          else if trim_text header = [] then Inr (len, rest)
          else
            (case allowed of
               0 \<Rightarrow> Inl HeaderTooLarge
             | Suc n \<Rightarrow> r_bind (header_line header len) (\<lambda>len'. read_headers n broken len' rest)))"

declare read_headers.simps [simp del]

definition read_request :: "bool \<Rightarrow> bytes \<Rightarrow> request_error + parsed_request" where
  "read_request broken inp =
     (case read_line broken inp of
        (None, _) \<Rightarrow> Inl BadRequest
      | (Some line, rest) \<Rightarrow>
          r_bind (request_line_of line) (\<lambda>(m, p).
          r_bind (read_headers 64 broken None rest) (\<lambda>(len, rest').
            let n = (case len of Some n \<Rightarrow> n | None \<Rightarrow> 0) in
            if length rest' < n then Inl BadRequest
            else Inr \<lparr>pr_method = m, pr_path = p, pr_body = take n rest'\<rparr>)))"

section \<open>Answers\<close>

type_synonym answer = "nat \<times> uchar list"

definition send_error :: "nat \<Rightarrow> int \<Rightarrow> uchar list option \<Rightarrow> answer" where
  "send_error status code detail =
     (let descriptor = error_descriptor_of code;
          d = (case detail of Some t \<Rightarrow> escape_json t | None \<Rightarrow> []) in
      (status,
       [0x7B] @ json_key ''error_code'' @ lit (dec_signed code) @ [0x2C] @
       json_key ''error_key'' @ quoted (lit (ed_key descriptor)) @ [0x2C] @
       json_key ''message'' @ quoted (lit (ed_default_message descriptor)) @
       (if d = [] then [] else [0x2C] @ json_key ''detail'' @ [0x22] @ d @ [0x22]) @ [0x20, 0x7D]))"

definition status_text :: "nat \<Rightarrow> string" where
  "status_text status =
     (if status = 200 then ''OK'' else if status = 400 then ''Bad Request''
      else if status = 404 then ''Not Found'' else if status = 413 then ''Payload Too Large''
      else if status = 500 then ''Internal Server Error'' else ''Error'')"

definition crlf :: "uchar list" where "crlf = [0x0D, 0x0A]"

definition send_response :: "answer \<Rightarrow> bytes" where
  "send_response = (\<lambda>(status, body).
     utf8_encode
       (lit ''HTTP/1.1 '' @ lit (dec status) @ [0x20] @ lit (status_text status) @ crlf @
        lit ''Content-Type: application/json'' @ crlf @
        lit ''Content-Length: '' @ lit (dec (byte_len body)) @ crlf @
        lit ''Connection: close'' @ crlf @ crlf @ body))"

definition is_valid_level :: "uchar list \<Rightarrow> bool" where
  "is_valid_level t \<longleftrightarrow> level_parse_canonical (bytes_str (utf8_encode t)) \<noteq> None"

definition strip_prefix :: "uchar list \<Rightarrow> uchar list \<Rightarrow> uchar list option" where
  "strip_prefix p t = (if starts_with p t then Some (drop (length p) t) else None)"

definition extract_json_string :: "uchar list \<Rightarrow> string \<Rightarrow> uchar list option" where
  "extract_json_string body key =
     Option.bind (find_after ([0x22] @ lit key @ [0x22]) body) (\<lambda>r.
     Option.bind (strip_prefix [0x3A] (dropWhile is_white r)) (\<lambda>r.
     Option.bind (strip_prefix [0x22] (dropWhile is_white r)) (\<lambda>r.
       map_option fst (split_once 0x22 r))))"

definition is_loopback_bind_address :: "(string \<Rightarrow> bool option) \<Rightarrow> string \<Rightarrow> bool" where
  "is_loopback_bind_address parse_addr addr =
     (case parse_addr addr of
        None \<Rightarrow> starts_with ''localhost:'' addr
      | Some loopback \<Rightarrow> loopback)"

section \<open>Handling a request\<close>

record plane =
  pn_level :: "uchar list"
  pn_stats :: plane_stats

record callbacks =
  cb_level :: "(uchar list \<Rightarrow> uchar list + unit) option"
  cb_reload :: "(uchar list + unit) option"

definition with_error :: "plane \<Rightarrow> plane" where
  "with_error p = p\<lparr>pn_stats := on_core record_error (pn_stats p)\<rparr>"

definition refuse :: "request_error \<Rightarrow> answer" where
  "refuse e =
     (case e of
        PayloadTooLarge \<Rightarrow> send_error 413 DO_LOG_ERR_BUFFER_TOO_SMALL None
      | HeaderTooLarge \<Rightarrow> send_error 431 DO_LOG_ERR_BUFFER_TOO_SMALL None
      | UnsupportedMethod \<Rightarrow> send_error 405 DO_LOG_ERR_NOT_SUPPORTED None
      | BadRequest \<Rightarrow> send_error 400 DO_LOG_ERR_INVALID_ARG None)"

definition post_level :: "callbacks \<Rightarrow> bytes \<Rightarrow> plane \<Rightarrow> answer \<times> plane" where
  "post_level cbs body p =
     (let text = (case utf8_decode body of Some t \<Rightarrow> t | None \<Rightarrow> []) in
      case extract_json_string text ''level'' of
        None \<Rightarrow> (send_error 400 DO_LOG_ERR_INVALID_ARG None, with_error p)
      | Some l \<Rightarrow>
          if \<not> is_valid_level l
          then (send_error 400 DO_LOG_ERR_INVALID_ARG (Some (lit ''level'')), with_error p)
          else
            (case cb_level cbs of
               Some f \<Rightarrow>
                 (case f l of
                    Inl e \<Rightarrow> (send_error 500 DO_LOG_ERR_INVALID_ARG (Some e), with_error p)
                  | Inr _ \<Rightarrow>
                      ((200, json_join [json_key ''status'' @ quoted (lit ''ok''),
                                        json_key ''level'' @ quoted l]), p\<lparr>pn_level := l\<rparr>))
             | None \<Rightarrow>
                 ((200, json_join [json_key ''status'' @ quoted (lit ''ok''),
                                   json_key ''level'' @ quoted l]), p\<lparr>pn_level := l\<rparr>)))"

definition post_reload :: "callbacks \<Rightarrow> plane \<Rightarrow> answer \<times> plane" where
  "post_reload cbs p =
     (let p = p\<lparr>pn_stats := record_reload_request (pn_stats p)\<rparr> in
      case cb_reload cbs of
        Some (Inl e) \<Rightarrow>
          (send_error 500 DO_LOG_ERR_CONFIG_HOT_RELOAD_FAILED (Some e), with_error p)
      | _ \<Rightarrow>
          ((200, json_join [json_key ''status'' @ quoted (lit ''ok''),
                            json_key ''message'' @ quoted (lit ''reload queued'')]), p))"

definition post_reset :: "bytes \<Rightarrow> plane \<Rightarrow> answer \<times> plane" where
  "post_reset body p =
     (if body \<noteq> [] then (send_error 400 DO_LOG_ERR_INVALID_ARG None, with_error p)
      else
        ((200, json_join [json_key ''status'' @ quoted (lit ''ok''),
                          json_key ''message'' @ quoted (lit ''metrics reset'')]),
         p\<lparr>pn_stats := reset_counters (pn_stats p)\<rparr>))"

definition handle_request ::
  "nat \<Rightarrow> callbacks \<Rightarrow> bool \<Rightarrow> bytes \<Rightarrow> plane \<Rightarrow> answer \<times> plane" where
  "handle_request now cbs broken inp p =
     (case read_request broken inp of
        Inl e \<Rightarrow> (refuse e, with_error p)
      | Inr r \<Rightarrow>
          if pr_method r = lit ''GET'' \<and> pr_path r = lit ''/status'' then
            ((200, to_json (snapshot now (pn_level p) (pn_stats p))), p)
          else if pr_method r = lit ''POST'' \<and> pr_path r = lit ''/level'' then
            post_level cbs (pr_body r) p
          else if pr_method r = lit ''POST'' \<and> pr_path r = lit ''/reload'' then post_reload cbs p
          else if pr_method r = lit ''POST'' \<and> pr_path r = lit ''/metrics/reset'' then
            post_reset (pr_body r) p
          else if pr_method r \<in> {lit ''GET'', lit ''POST''} then
            (send_error 404 DO_LOG_ERR_NOT_SUPPORTED None, p)
          else (send_error 405 DO_LOG_ERR_NOT_SUPPORTED None, p))"

text \<open>What \<open>accept\<close> yields in a round of the loop.\<close>

datatype accepted = Connection nat bool bytes | WouldBlock | AcceptFailed

definition control_turn :: "callbacks \<Rightarrow> accepted \<Rightarrow> plane \<Rightarrow> bytes list \<times> plane" where
  "control_turn cbs a p =
     (case a of
        Connection now broken inp \<Rightarrow>
          (case handle_request now cbs broken inp
                  (p\<lparr>pn_stats := connection_started (pn_stats p)\<rparr>) of
             (ans, p') \<Rightarrow> ([send_response ans], p'\<lparr>pn_stats := connection_finished (pn_stats p')\<rparr>))
      | WouldBlock \<Rightarrow> ([], p)
      | AcceptFailed \<Rightarrow> ([], with_error p))"

fun control_loop :: "callbacks \<Rightarrow> accepted list \<Rightarrow> plane \<Rightarrow> bytes list list \<times> plane" where
  "control_loop cbs [] p = ([], p)"
| "control_loop cbs (a # as) p =
     (case control_turn cbs a p of
        (out, p') \<Rightarrow> (case control_loop cbs as p' of (outs, p'') \<Rightarrow> (out # outs, p'')))"

section \<open>Starting\<close>

record control_plane_config =
  cc_enabled :: bool
  cc_bind_addr :: string
  cc_enable_tls :: bool

definition control_plane_config_default :: control_plane_config where
  "control_plane_config_default =
     \<lparr>cc_enabled = False, cc_bind_addr = ''127.0.0.1:9090'', cc_enable_tls = False\<rparr>"

record control_plane =
  cn_shutdown :: bool
  cn_running :: bool
  cn_local_addr :: string
  cn_plane :: plane

text \<open>\<open>bind\<close> is what binding, asking for the address and starting the thread answered.\<close>

definition start_with_handlers ::
  "(string \<Rightarrow> bool option) \<Rightarrow> (string \<Rightarrow> string + string) \<Rightarrow> control_plane_config \<Rightarrow> plane
   \<Rightarrow> string + control_plane" where
  "start_with_handlers parse_addr bind c p =
     (if cc_enable_tls c
      then Inl ''control plane TLS is not implemented; refusing insecure downgrade''
      else if \<not> is_loopback_bind_address parse_addr (cc_bind_addr c)
      then Inl ''control plane requires a loopback bind address until TLS/authentication is implemented''
      else
        r_bind (bind (cc_bind_addr c)) (\<lambda>addr.
          Inr \<lparr>cn_shutdown = False, cn_running = True, cn_local_addr = addr, cn_plane = p\<rparr>))"

definition plane_shutdown :: "control_plane \<Rightarrow> control_plane" where
  "plane_shutdown c = c\<lparr>cn_shutdown := True, cn_running := False\<rparr>"

section \<open>A reader of flat JSON objects\<close>

text \<open>The reference: the grammar of RFC 8259 for objects of strings, unsigned or negative integers
  and truth values, without surrogate escapes; space only before a closing brace.\<close>

datatype json = JString "uchar list" | JNumber nat | JNegative nat | JBool bool

definition hex_read :: "uchar \<Rightarrow> nat option" where
  "hex_read c =
     (if 48 \<le> c \<and> c \<le> 57 then Some (c - 48) else if 97 \<le> c \<and> c \<le> 102 then Some (c - 87)
      else if 65 \<le> c \<and> c \<le> 70 then Some (c - 55) else None)"

definition hex4 :: "uchar \<Rightarrow> uchar \<Rightarrow> uchar \<Rightarrow> uchar \<Rightarrow> nat option" where
  "hex4 a b c d =
     Option.bind (hex_read a) (\<lambda>a. Option.bind (hex_read b) (\<lambda>b. Option.bind (hex_read c) (\<lambda>c.
       map_option (\<lambda>d. ((a * 16 + b) * 16 + c) * 16 + d) (hex_read d))))"

definition short_escape :: "uchar \<Rightarrow> uchar option" where
  "short_escape e =
     map_of [(0x22, 0x22), (0x5C, 0x5C), (0x2F, 0x2F), (0x62, 0x08), (0x66, 0x0C), (0x6E, 0x0A),
       (0x72, 0x0D), (0x74, 0x09)] e"

definition add_char :: "uchar \<Rightarrow> (uchar list \<times> uchar list) option \<Rightarrow> (uchar list \<times> uchar list) option" where
  "add_char c = map_option (\<lambda>(v, rest). (c # v, rest))"

text \<open>The rest of a string behind its opening quote.\<close>

fun json_string :: "uchar list \<Rightarrow> (uchar list \<times> uchar list) option" where
  "json_string [] = None"
| "json_string (c # t) =
     (if c = 0x22 then Some ([], t)
      else if c = 0x5C then
        (case t of
           [] \<Rightarrow> None
         | e # u \<Rightarrow>
             if e = 0x75 then
               (case u of
                  a # b # c # d # v \<Rightarrow>
                    (case hex4 a b c d of Some n \<Rightarrow> add_char n (json_string v) | None \<Rightarrow> None)
                | _ \<Rightarrow> None)
             else (case short_escape e of Some n \<Rightarrow> add_char n (json_string u) | None \<Rightarrow> None))
      else if c < 0x20 then None
      else add_char c (json_string t))"

definition is_digit :: "uchar \<Rightarrow> bool" where
  "is_digit c \<longleftrightarrow> 48 \<le> c \<and> c \<le> 57"

definition json_number :: "uchar list \<Rightarrow> (nat \<times> uchar list) option" where
  "json_number t =
     (let ds = takeWhile is_digit t in
      if ds = [] then None
      else Some (foldl (\<lambda>a d. 10 * a + (d - 48)) 0 ds, dropWhile is_digit t))"

definition json_value :: "uchar list \<Rightarrow> (json \<times> uchar list) option" where
  "json_value t =
     (case t of
        [] \<Rightarrow> None
      | c # u \<Rightarrow>
          if c = 0x22 then map_option (\<lambda>(v, r). (JString v, r)) (json_string u)
          else if c = 0x2D then map_option (\<lambda>(v, r). (JNegative v, r)) (json_number u)
          else if starts_with (lit ''true'') t then Some (JBool True, drop 4 t)
          else if starts_with (lit ''false'') t then Some (JBool False, drop 5 t)
          else map_option (\<lambda>(v, r). (JNumber v, r)) (json_number t))"

definition json_member :: "uchar list \<Rightarrow> ((uchar list \<times> json) \<times> uchar list) option" where
  "json_member t =
     (case t of
        c # u \<Rightarrow>
          if c = 0x22 then
            (case json_string u of
               Some (k, d # v) \<Rightarrow>
                 if d = 0x3A then map_option (\<lambda>(x, r). ((k, x), r)) (json_value v) else None
             | _ \<Rightarrow> None)
          else None
      | [] \<Rightarrow> None)"

fun json_members :: "nat \<Rightarrow> uchar list \<Rightarrow> (uchar list \<times> json) list option" where
  "json_members 0 t = None"
| "json_members (Suc n) t =
     (case json_member t of
        None \<Rightarrow> None
      | Some (m, r) \<Rightarrow>
          if r = [0x7D] \<or> r = [0x20, 0x7D] then Some [m]
          else (case r of
                  c # u \<Rightarrow> if c = 0x2C then map_option ((#) m) (json_members n u) else None
                | [] \<Rightarrow> None))"

definition json_object :: "uchar list \<Rightarrow> (uchar list \<times> json) list option" where
  "json_object t =
     (case t of c # u \<Rightarrow> if c = 0x7B then json_members (length u) u else None | [] \<Rightarrow> None)"

section \<open>What is written reads back\<close>

lemma hex_read_lower: "d < 16 \<Longrightarrow> hex_read (hex_lower d) = Some d"
  by (auto simp: hex_read_def hex_lower_def)

lemma json_string_escape_char: "json_string (escape_char c @ t) = add_char c (json_string t)"
proof (cases "c \<in> {0x22, 0x5C, 0x0A, 0x0D, 0x09}")
  case True
  then show ?thesis by (auto simp: escape_char_def short_escape_def)
next
  case False
  show ?thesis
  proof (cases "is_control c")
    case True
    then have "c < 0xA0" by (auto simp: is_control_def)
    then have "c div 16 < 16" "c mod 16 < 16" by auto
    then have "hex4 0x30 0x30 (hex_lower (c div 16)) (hex_lower (c mod 16)) = Some c"
      by (simp add: hex4_def hex_read_lower) (simp add: hex_read_def)
    then show ?thesis using True False by (simp add: escape_char_def)
  next
    case False
    then show ?thesis using \<open>c \<notin> _\<close> by (auto simp: escape_char_def is_control_def)
  qed
qed

lemma json_string_escape: "json_string (escape_json v @ 0x22 # rest) = Some (v, rest)"
  by (induction v) (simp_all add: escape_json_def json_string_escape_char add_char_def)


lemma lit_simps [simp]: "lit [] = []" "lit (c # s) = of_char c # lit s" "lit (s @ t) = lit s @ lit t"
  by (simp_all add: lit_def)

lemma of_digit_char: "d < 10 \<Longrightarrow> of_char (digit_char d) = (48 + d :: nat)"
  by (simp add: digit_char_def)

lemma digits_dec: "list_all is_digit (lit (dec n)) \<and> foldl (\<lambda>a d. 10 * a + (d - 48)) 0 (lit (dec n)) = n"
proof (induction n rule: dec.induct)
  case (1 n)
  have m: "n mod 10 < 10" by simp
  show ?case
  proof (cases "n < 10")
    case True
    then show ?thesis by (subst (1 2) dec.simps) (simp add: of_digit_char is_digit_def)
  next
    case False
    moreover have "is_digit (of_char (digit_char (n mod 10)))"
      using m by (simp add: of_digit_char [OF m] is_digit_def)
    ultimately show ?thesis
      using 1 by (subst (1 2) dec.simps) (simp add: of_digit_char [OF m])
  qed
qed

lemma json_number_dec:
  assumes "rest = [] \<or> \<not> is_digit (hd rest)"
  shows "json_number (lit (dec n) @ rest) = Some (n, rest)"
proof -
  have a: "\<forall>x \<in> set (lit (dec n)). is_digit x" using digits_dec [of n] by (simp add: list_all_iff)
  have r: "takeWhile is_digit rest = []" "dropWhile is_digit rest = rest"
    using assms by (cases rest; simp)+
  have "lit (dec n) \<noteq> []" by (simp add: lit_def)
  with a r show ?thesis
    using digits_dec [of n] by (simp add: json_number_def Let_def takeWhile_append2 dropWhile_append2)
qed

fun json_text :: "json \<Rightarrow> uchar list" where
  "json_text (JString v) = quoted v"
| "json_text (JNumber n) = lit (dec n)"
| "json_text (JNegative n) = 0x2D # lit (dec n)"
| "json_text (JBool b) = lit (if b then ''true'' else ''false'')"

lemma json_value_text:
  assumes "rest = [] \<or> \<not> is_digit (hd rest)"
  shows "json_value (json_text x @ rest) = Some (x, rest)"
proof (cases x)
  case (JString v)
  then show ?thesis by (simp add: json_value_def quoted_def json_string_escape)
next
  case (JNumber n)
  obtain d cs where "dec n = digit_char d # cs" "d < 10" using dec_head [of n] by blast
  then have "lit (dec n) = (48 + d) # lit cs" by (simp add: of_digit_char)
  moreover have "json_number (lit (dec n) @ rest) = Some (n, rest)" by (rule json_number_dec [OF assms])
  ultimately show ?thesis
    using \<open>d < 10\<close> by (simp add: JNumber json_value_def starts_with_def)
next
  case (JNegative n)
  then show ?thesis by (simp add: json_value_def json_number_dec [OF assms])
next
  case (JBool b)
  then show ?thesis by (simp add: json_value_def starts_with_def)
qed

definition plain :: "uchar list \<Rightarrow> bool" where
  "plain k \<longleftrightarrow> escape_json k = k"

definition member_text :: "uchar list \<times> json \<Rightarrow> uchar list" where
  "member_text = (\<lambda>(k, x). [0x22] @ k @ [0x22, 0x3A] @ json_text x)"

lemma json_member_text:
  assumes "plain k" "rest = [] \<or> \<not> is_digit (hd rest)"
  shows "json_member (member_text (k, x) @ rest) = Some ((k, x), rest)"
proof -
  have "json_string (k @ 0x22 # 0x3A # json_text x @ rest) = Some (k, 0x3A # json_text x @ rest)"
    using json_string_escape [of k "0x3A # json_text x @ rest"] assms(1) by (simp add: plain_def)
  then show ?thesis
    by (simp add: json_member_def member_text_def json_value_text [OF assms(2)])
qed

lemma json_members_text:
  assumes "ms \<noteq> []" "\<forall>(k, _) \<in> set ms. plain k" "length ms \<le> n" "fin \<in> {[0x7D], [0x20, 0x7D]}"
  shows "json_members n (comma (map member_text ms) @ fin) = Some ms"
  using assms(1-3)
proof (induction ms arbitrary: n rule: induct_list012)
  case (2 m)
  obtain k x where m: "m = (k, x)" by (cases m)
  obtain n' where n: "n = Suc n'" using 2 by (cases n) auto
  have "json_member (member_text (k, x) @ fin) = Some ((k, x), fin)"
    by (rule json_member_text) (use 2 assms(4) m in \<open>auto simp: is_digit_def\<close>)
  then show ?case using assms(4) by (auto simp: n m)
next
  case (3 m m2 ms)
  obtain k x where m: "m = (k, x)" by (cases m)
  obtain n' where n: "n = Suc n'" using 3 by (cases n) auto
  let ?r = "0x2C # comma (map member_text (m2 # ms)) @ fin"
  have "json_member (member_text (k, x) @ ?r) = Some ((k, x), ?r)"
    by (rule json_member_text) (use 3 m in \<open>auto simp: is_digit_def\<close>)
  moreover have "json_members n' (comma (map member_text (m2 # ms)) @ fin) = Some (m2 # ms)"
    by (rule 3) (use 3 n in auto)
  ultimately show ?case by (simp add: n m)
qed simp

lemma comma_length: "length ms \<le> length (comma (map member_text ms))"
  by (induction ms rule: induct_list012) (auto simp: member_text_def)

lemma json_object_text:
  assumes "ms \<noteq> []" "\<forall>(k, _) \<in> set ms. plain k" "fin \<in> {[0x7D], [0x20, 0x7D]}"
  shows "json_object ([0x7B] @ comma (map member_text ms) @ fin) = Some ms"
  using json_members_text [OF assms(1,2) _ assms(3)] comma_length [of ms]
  by (simp add: json_object_def trans_le_add1)

lemma json_join_text:
  assumes "ms \<noteq> []" "\<forall>(k, _) \<in> set ms. plain k"
  shows "json_object (json_join (map member_text ms)) = Some ms"
  using json_object_text [OF assms] by (simp add: json_join_def)

lemma escape_plain: "list_all (\<lambda>c. 0x20 \<le> c \<and> c < 0x7F \<and> c \<noteq> 0x22 \<and> c \<noteq> 0x5C) k \<Longrightarrow> plain k"
  unfolding plain_def escape_json_def
  by (induction k) (auto simp: escape_char_def is_control_def)

lemma json_key_text: "json_key k @ quoted v = member_text (lit k, JString v)"
  "json_key k @ num w = member_text (lit k, JNumber (unat w))"
  "json_key k @ lit (if b then ''true'' else ''false'') = member_text (lit k, JBool b)"
  by (simp_all add: json_key_def member_text_def num_def)

definition snapshot_members :: "status_snapshot \<Rightarrow> (uchar list \<times> json) list" where
  "snapshot_members n =
      [(lit ''status'', JString (sn_status n)),
       (lit ''level'', JString (sn_level n)),
       (lit ''profile'', JString (sn_profile n)),
       (lit ''uptime_seconds'', JNumber (unat (sn_uptime_seconds n))),
       (lit ''accepted'', JNumber (unat (sn_accepted n))),
       (lit ''processed'', JNumber (unat (sn_processed n))),
       (lit ''dropped'', JNumber (unat (sn_dropped n))),
       (lit ''errors'', JNumber (unat (sn_errors n))),
       (lit ''sink_errors'', JNumber (unat (sn_sink_errors n))),
       (lit ''dispatch_errors'', JNumber (unat (sn_dispatch_errors n))),
       (lit ''shm_drops'', JNumber (unat (sn_shm_drops n))),
       (lit ''reload_requests'', JNumber (unat (sn_reload_requests n))),
       (lit ''reloads'', JNumber (unat (sn_reloads n))),
       (lit ''active_connections'', JNumber (unat (sn_active_connections n))),
       (lit ''ring_capacity'', JNumber (unat (sn_ring_capacity n))),
       (lit ''ring_fill_permille'', JNumber (unat (sn_ring_fill_permille n))),
       (lit ''plugins'', JNumber (unat (sn_plugins n))),
       (lit ''signature_enabled'', JBool (sn_signature_enabled n)),
       (lit ''hot_reload_epoch'', JNumber (unat (sn_hot_reload_epoch n)))]"

lemma to_json_members: "to_json n = json_join (map member_text (snapshot_members n))"
  unfolding to_json_def snapshot_members_def json_key_text by (simp only: list.map)

lemma snapshot_keys_plain: "\<forall>(k, _) \<in> set (snapshot_members n). plain k"
  by (simp add: snapshot_members_def escape_plain)

lemma to_json_object: "json_object (to_json n) = Some (snapshot_members n)"
  unfolding to_json_members
  by (rule json_join_text) (simp add: snapshot_members_def, rule snapshot_keys_plain)

lemma error_key_plain: "plain (lit ''error_code'')" "plain (lit ''error_key'')" "plain (lit ''message'')"
  "plain (lit ''detail'')" "plain (lit ''status'')" "plain (lit ''level'')"
  by (simp_all add: escape_plain)

lemma escape_char_not_Nil [simp]: "escape_char c \<noteq> []"
  by (simp add: escape_char_def)

lemma escape_Nil_iff: "escape_json v = [] \<longleftrightarrow> v = []"
  by (cases v) (simp_all add: escape_json_def)

definition json_int :: "int \<Rightarrow> json" where
  "json_int i = (if i < 0 then JNegative (nat (- i)) else JNumber (nat i))"

definition error_members :: "int \<Rightarrow> uchar list option \<Rightarrow> (uchar list \<times> json) list" where
  "error_members code detail =
     [(lit ''error_code'', json_int code), (lit ''error_key'', JString (lit (error_key code))),
      (lit ''message'', JString (lit (error_default_message code)))] @
     (case detail of None \<Rightarrow> [] | Some t \<Rightarrow> if t = [] then [] else [(lit ''detail'', JString t)])"

lemma send_error_object: "json_object (snd (send_error st code detail)) = Some (error_members code detail)"
proof -
  have c: "json_key k @ lit (dec_signed code) = member_text (lit k, json_int code)" for k
    by (simp add: json_key_def member_text_def dec_signed_def json_int_def)
  have "snd (send_error st code detail)
    = [0x7B] @ comma (map member_text (error_members code detail)) @ [0x20, 0x7D]"
    by (cases detail)
       (simp_all add: send_error_def Let_def error_members_def error_key_def error_default_message_def
          escape_Nil_iff c [symmetric] json_key_text [symmetric] quoted_def del: lit_simps)
  then show ?thesis
    by (simp only:) (rule json_object_text,
       auto simp: error_members_def error_key_plain simp del: lit_simps split: option.splits if_splits)
qed

lemma fst_send_error [simp]: "fst (send_error st code detail) = st"
  by (simp add: send_error_def Let_def)

text \<open>C24: What is answered reads back exactly. A JSON reader finds in the status every field with
  its value, whatever characters the level and the profile hold, and in an error its code, key,
  message and detail.\<close>

theorem answers_read_back:
  "json_object (status_json now level s) = Some (snapshot_members (snapshot now level s))
   \<and> json_object (snd (send_error st code detail)) = Some (error_members code detail)"
  by (simp_all add: status_json_def to_json_object send_error_object)

section \<open>What a request can do\<close>

definition plane_ok :: "plane \<Rightarrow> bool" where
  "plane_ok p \<longleftrightarrow> is_valid_level (pn_level p) \<and> length (pl_history (pn_stats p)) \<le> MAX_STATUS_HISTORY"

definition is_object :: "answer \<Rightarrow> bool" where
  "is_object a \<longleftrightarrow> json_object (snd a) \<noteq> None"

lemma is_object_error [simp]: "is_object (send_error st code detail)"
  by (simp add: is_object_def send_error_object)

lemma is_object_ok [simp]:
  "is_object (st, json_join [json_key ''status'' @ quoted a, json_key ''level'' @ quoted b])"
  "is_object (st, json_join [json_key ''status'' @ quoted a, json_key ''message'' @ quoted b])"
  using json_join_text [of "[(lit ''status'', JString a), (lit ''level'', JString b)]"]
    json_join_text [of "[(lit ''status'', JString a), (lit ''message'', JString b)]"] error_key_plain
  by (simp_all add: is_object_def json_key_text del: lit_simps)

lemma is_object_status [simp]: "is_object (st, to_json n)"
  by (simp add: is_object_def to_json_object)

text \<open>\<open>effect a p p'\<close>: what the plane may have become when \<open>a\<close> was answered.\<close>

definition effect :: "callbacks \<Rightarrow> answer \<Rightarrow> plane \<Rightarrow> plane \<Rightarrow> bool" where
  "effect cbs a p p' \<longleftrightarrow>
     is_object a \<and> fst a \<in> {200, 400, 404, 405, 413, 431, 500}
     \<and> (fst a \<noteq> 200 \<longrightarrow> pn_level p' = pn_level p)
     \<and> (fst a = 404 \<longrightarrow> p' = p)
     \<and> (fst a \<in> {400, 405, 413, 431, 500}
          \<longrightarrow> ks_errors (pl_core (pn_stats p')) = ks_errors (pl_core (pn_stats p)) + 1)
     \<and> (pn_level p' = pn_level p
          \<or> is_valid_level (pn_level p') \<and> (\<forall>f. cb_level cbs = Some f \<longrightarrow> f (pn_level p') = Inr ()))
     \<and> pl_active_connections (pn_stats p') = pl_active_connections (pn_stats p)
     \<and> (length (pl_history (pn_stats p)) \<le> MAX_STATUS_HISTORY
          \<longrightarrow> length (pl_history (pn_stats p')) \<le> MAX_STATUS_HISTORY)"

lemmas effect_simps = effect_def with_error_def on_core_def record_error_def

lemma effect_error:
  "st \<in> {400, 405, 413, 431, 500} \<Longrightarrow> effect cbs (send_error st code d) p (with_error p)"
  by (auto simp: effect_simps)

lemma effect_refuse: "effect cbs (refuse e) p (with_error p)"
  by (cases e) (simp_all add: refuse_def effect_error)

lemma effect_level:
  assumes "post_level cbs body p = (a, p')"
  shows "effect cbs a p p'"
  using assms
  by (auto simp: post_level_def effect_error Let_def effect_simps split: option.splits if_splits sum.splits)

lemma effect_reload:
  assumes "post_reload cbs p = (a, p')"
  shows "effect cbs a p p'"
  using assms
  by (auto simp: post_reload_def Let_def effect_simps record_reload_request_def
        split: option.splits sum.splits)

lemma effect_reset:
  assumes "post_reset body p = (a, p')"
  shows "effect cbs a p p'"
  using assms
  by (auto simp: post_reset_def effect_simps reset_counters_def push_history_def Let_def split: if_splits)

lemma request_method: "read_request broken inp = Inr r \<Longrightarrow> pr_method r \<in> {lit ''GET'', lit ''POST''}"
  by (auto simp: read_request_def request_line_of_def r_bind_def Let_def
        split: prod.splits option.splits sum.splits if_splits list.splits)

lemma handle_request_effect:
  assumes "handle_request now cbs broken inp p = (a, p')"
  shows "effect cbs a p p'"
proof (cases "read_request broken inp")
  case (Inl e)
  then show ?thesis using assms by (auto simp: handle_request_def effect_refuse)
next
  case (Inr r)
  have 404: "effect cbs (send_error 404 c d) p p" for c d by (simp add: effect_def)
  have 200: "effect cbs (200, to_json n) p p" for n by (simp add: effect_def)
  show ?thesis
    using assms request_method [OF Inr] effect_level effect_reload effect_reset 404 200
    by (auto simp: handle_request_def Inr split: if_splits)
qed

lemma control_turn_ok:
  assumes "plane_ok p" "control_turn cbs a p = (out, p')"
  shows "plane_ok p' \<and> pl_active_connections (pn_stats p') = pl_active_connections (pn_stats p)
    \<and> length out = (case a of Connection _ _ _ \<Rightarrow> 1 | _ \<Rightarrow> 0)"
proof (cases a)
  case (Connection now broken inp)
  let ?p = "p\<lparr>pn_stats := connection_started (pn_stats p)\<rparr>"
  obtain ans q where h: "handle_request now cbs broken inp ?p = (ans, q)"
    by (cases "handle_request now cbs broken inp ?p") blast
  have e: "effect cbs ans ?p q" by (rule handle_request_effect [OF h])
  have out: "out = [send_response ans]" "p' = q\<lparr>pn_stats := connection_finished (pn_stats q)\<rparr>"
    using assms(2) h by (simp_all add: Connection control_turn_def)
  have "is_valid_level (pn_level p)" "length (pl_history (pn_stats p)) \<le> MAX_STATUS_HISTORY"
    using assms(1) by (simp_all add: plane_ok_def)
  with e have "is_valid_level (pn_level q)" "length (pl_history (pn_stats q)) \<le> MAX_STATUS_HISTORY"
    "pl_active_connections (pn_stats q) = pl_active_connections (pn_stats p) + 1"
    unfolding effect_def connection_started_def by (auto simp del: insert_iff)
  then show ?thesis
    by (simp add: Connection out plane_ok_def connection_finished_def)
qed (use assms in \<open>auto simp: control_turn_def effect_simps plane_ok_def\<close>)

text \<open>C17: Whatever arrives on the control port, and whatever the callbacks answer, the level stays
  one of the seven, the history stays within its bound, the count of active connections returns
  to what it was, and every connection gets exactly one response. A request answered with an
  error leaves the level alone and, not found apart, is counted once; a new level is one the
  callback accepted; every body is a JSON object.\<close>

theorem control_plane_contract:
  assumes "plane_ok p" "control_loop cbs as p = (outs, p')"
  shows "plane_ok p' \<and> pl_active_connections (pn_stats p') = pl_active_connections (pn_stats p)
      \<and> map length outs = map (\<lambda>a. case a of Connection _ _ _ \<Rightarrow> 1 | _ \<Rightarrow> 0) as
      \<and> (\<forall>now broken inp ans q. handle_request now cbs broken inp p = (ans, q) \<longrightarrow> effect cbs ans p q)"
proof -
  have "plane_ok p' \<and> pl_active_connections (pn_stats p') = pl_active_connections (pn_stats p)
      \<and> map length outs = map (\<lambda>a. case a of Connection _ _ _ \<Rightarrow> 1 | _ \<Rightarrow> 0) as"
    using assms
  proof (induction as arbitrary: p outs p')
    case (Cons a as)
    obtain out q where t: "control_turn cbs a p = (out, q)" by force
    obtain os r where l: "control_loop cbs as q = (os, r)" by force
    show ?case
      using Cons.prems Cons.IH [OF _ l] control_turn_ok [OF Cons.prems(1) t] l by (auto simp: t)
  qed simp
  then show ?thesis using handle_request_effect by blast
qed

lemma control_plane_contract_witness:
  "plane_ok (snd (control_loop \<lparr>cb_level = None, cb_reload = None\<rparr>
      [Connection 0 False [0x47, 0x0A], AcceptFailed]
      \<lparr>pn_level = lit ''INFO'', pn_stats = stats_new 0\<rparr>))"
proof -
  have "is_valid_level (lit ''INFO'')" by code_simp
  then have "plane_ok \<lparr>pn_level = lit ''INFO'', pn_stats = stats_new 0\<rparr>"
    by (simp add: plane_ok_def stats_new_def)
  from control_plane_contract [OF this surjective_pairing] show ?thesis by blast
qed

section \<open>Where the reader falls short\<close>

text \<open>
  A request is complete at the end of the stream, without the blank line that ends its headers.
  The level is looked for as text: a key is missed when the same word comes first as a value.
  A reload is answered with success when nothing is registered that could reload.
\<close>

lemma truncated_request_accepted: "read_headers n False len [] = Inr (len, [])"
  by (simp add: read_headers.simps read_line_def byte_len_def trim_text_def)

lemma level_key_missed:
  "extract_json_string (json_join [json_key ''role'' @ quoted (lit ''level''),
      json_key ''level'' @ quoted (lit ''INFO'')]) ''level'' = None"
  by (simp add: extract_json_string_def json_join_def json_key_def quoted_def escape_json_def
        escape_char_def is_control_def starts_with_def strip_prefix_def is_white_def)

lemma reload_without_callback:
  "fst (fst (post_reload \<lparr>cb_level = l, cb_reload = None\<rparr> p)) = 200"
  by (simp add: post_reload_def Let_def)

end
