(* ===== verification/Sinks.thy ===== *)
theory Sinks
  imports Worm_Sink Shm_Ring
begin

text \<open>
  The sinks that stay on the machine: \<open>core/src/sink/console.rs\<close>, \<open>sink/callback.rs\<close>,
  \<open>sink/file.rs\<close> and the broadcast of \<open>sink/fanout.rs\<close>. A trait object is a value of a sum type
  with the operations dispatched on it. The locale is the contract of a sink that takes lines:
  what it has put out grows by exactly the lines it reported as written; it is interpreted for
  each of them, and the broadcast is proved to keep one child's failures from the others.
  What the system calls do is given with the device of \<open>Buffered_File\<close>; the clock's seconds,
  read when a file is rotated, are an argument of the write.
\<close>

type_synonym sink_result = "sink_error + unit"

section \<open>Console and callback\<close>

record console_config =
  ck_use_stderr :: bool

record console_sink =
  cs_use_stderr :: bool
  cs_is_open :: bool
  cs_records_written :: u64
  cs_device :: file_device

definition console_new :: "file_device \<Rightarrow> console_sink" where
  "console_new d =
     \<lparr>cs_use_stderr = False, cs_is_open = False, cs_records_written = 0, cs_device = d\<rparr>"

definition console_stderr :: "file_device \<Rightarrow> console_sink" where
  "console_stderr d =
     \<lparr>cs_use_stderr = True, cs_is_open = False, cs_records_written = 0, cs_device = d\<rparr>"

text \<open>A direct write, whose outcome nobody looks at; a line takes two of them.\<close>

definition raw_write :: "bytes \<Rightarrow> file_device \<Rightarrow> file_device" where
  "raw_write data d = snd (dev_write data d)"

definition write_line :: "bytes \<Rightarrow> file_device \<Rightarrow> file_device" where
  "write_line s d = raw_write [0x0A] (raw_write s d)"

definition console_open :: "console_sink \<Rightarrow> sink_result \<times> console_sink" where
  "console_open s = (Inr (), s\<lparr>cs_is_open := True\<rparr>)"

definition console_write :: "bytes \<Rightarrow> console_sink \<Rightarrow> sink_result \<times> console_sink" where
  "console_write x s =
     (if \<not> cs_is_open s then (Inl SinkClosed, s)
      else (Inr (), s\<lparr>cs_device := write_line x (cs_device s),
                      cs_records_written := cs_records_written s + 1\<rparr>))"

definition console_flush :: "console_sink \<Rightarrow> sink_result \<times> console_sink" where
  "console_flush s = (Inr (), s)"

definition console_close :: "console_sink \<Rightarrow> sink_result \<times> console_sink" where
  "console_close s = (Inr (), s\<lparr>cs_is_open := False\<rparr>)"

text \<open>\<open>kb_seen\<close> is what the callback was called with and accepted.\<close>

record callback_sink =
  kb_callback :: "(bytes \<Rightarrow> string + unit) option"
  kb_is_open :: bool
  kb_invoked :: u64
  kb_seen :: "bytes list"

definition callback_new :: "(bytes \<Rightarrow> string + unit) \<Rightarrow> callback_sink" where
  "callback_new f = \<lparr>kb_callback = Some f, kb_is_open = False, kb_invoked = 0, kb_seen = []\<rparr>"

definition callback_open :: "callback_sink \<Rightarrow> sink_result \<times> callback_sink" where
  "callback_open s =
     (if kb_callback s = None then (Inl (WriteFailed ''No callback registered''), s)
      else (Inr (), s\<lparr>kb_is_open := True\<rparr>))"

definition callback_write :: "bytes \<Rightarrow> callback_sink \<Rightarrow> sink_result \<times> callback_sink" where
  "callback_write x s =
     (if \<not> kb_is_open s then (Inl SinkClosed, s)
      else
        (case kb_callback s of
           None \<Rightarrow> (Inl (WriteFailed ''Callback was consumed''), s)
         | Some f \<Rightarrow>
             (case f x of
                Inl e \<Rightarrow> (Inl (WriteFailed (''callback: '' @ e)), s)
              | Inr _ \<Rightarrow>
                  (Inr (), s\<lparr>kb_invoked := kb_invoked s + 1, kb_seen := kb_seen s @ [x]\<rparr>))))"

definition callback_close :: "callback_sink \<Rightarrow> sink_result \<times> callback_sink" where
  "callback_close s = (Inr (), s\<lparr>kb_is_open := False\<rparr>)"

section \<open>Files\<close>

record file_config =
  fc_path :: string
  fc_max_size :: u64
  fc_fsync_on_write :: bool
  fc_durability :: durability_level
  fc_buffer_size :: nat

definition file_config_default :: file_config where
  "file_config_default =
     \<lparr>fc_path = ''dologger_output.log'', fc_max_size = 0, fc_fsync_on_write = False,
      fc_durability = durability_level.OsCache, fc_buffer_size = 65536\<rparr>"

fun durability_rank :: "durability_level \<Rightarrow> nat" where
  "durability_rank durability_level.Unsafe = 0"
| "durability_rank durability_level.OsCache = 1"
| "durability_rank durability_level.Media = 2"
| "durability_rank durability_level.MediaWithFua = 3"

definition file_validate :: "file_config \<Rightarrow> bool" where
  "file_validate c \<longleftrightarrow>
     \<not> (2 \<le> durability_rank (fc_durability c) \<and> \<not> fc_fsync_on_write c)
     \<and> \<not> (fc_fsync_on_write c \<and> fc_durability c = durability_level.Unsafe)"

record file_sink =
  fs_config :: file_config
  fs_writer :: "buf_writer option"
  fs_device :: file_device
  fs_exists :: bool
  fs_bytes_written :: u64
  fs_is_open :: bool
  fs_archive :: "(nat \<times> bytes) list"

type_synonym file_result = "sink_result \<times> file_sink"

definition file_new :: "file_config \<Rightarrow> file_device \<Rightarrow> file_sink" where
  "file_new c d =
     \<lparr>fs_config = c, fs_writer = None, fs_device = d, fs_exists = False, fs_bytes_written = 0, fs_is_open = False,
      fs_archive = []\<rparr>"

definition failed :: "string \<Rightarrow> sink_result" where
  "failed what = Inl (WriteFailed what)"

text \<open>A dropped writer flushes its buffer and looks no further.\<close>

definition bw_drop :: "buf_writer option \<Rightarrow> file_device \<Rightarrow> file_device" where
  "bw_drop w d = (case w of None \<Rightarrow> d | Some w \<Rightarrow> snd (snd (bw_flush w d)))"

definition new_writer :: "file_config \<Rightarrow> buf_writer" where
  "new_writer c = \<lparr>bw_capacity = fc_buffer_size c, bw_buffer = []\<rparr>"

definition file_reopen :: "file_sink \<Rightarrow> file_result" where
  "file_reopen s =
     (case dev_next (fs_device s) of
        (IoFail _, d) \<Rightarrow> (failed ''Cannot open'', s\<lparr>fs_device := d\<rparr>)
      | (IoOk, d) \<Rightarrow>
          (Inr (), s\<lparr>fs_device := bw_drop (fs_writer s) d, fs_writer := Some (new_writer (fs_config s)),
                     fs_exists := True, fs_bytes_written := 0\<rparr>))"

definition file_rename :: "nat \<Rightarrow> file_sink \<Rightarrow> file_result" where
  "file_rename secs s =
     (if \<not> fs_exists s then (Inr (), s)
      else
        (case dev_next (fs_device s) of
           (IoFail _, d) \<Rightarrow> (failed ''Rotation rename failed'', s\<lparr>fs_device := d\<rparr>)
         | (IoOk, d) \<Rightarrow>
             (Inr (), s\<lparr>fs_archive := AList.update secs (fd_bytes d) (fs_archive s),
                        fs_device := d\<lparr>fd_bytes := [], fd_synced := 0\<rparr>, fs_exists := False\<rparr>)))"

definition file_detach :: "file_sink \<Rightarrow> file_result" where
  "file_detach s =
     (case fs_writer s of
        None \<Rightarrow> (Inr (), s)
      | Some w \<Rightarrow>
          (case bw_flush w (fs_device s) of
             (True, w', d) \<Rightarrow> (Inr (), s\<lparr>fs_writer := None, fs_device := d\<rparr>)
           | (False, w', d) \<Rightarrow>
               (failed ''Flush during rotation'',
                s\<lparr>fs_writer := None, fs_device := bw_drop (Some w') d\<rparr>)))"

definition file_rotate :: "nat \<Rightarrow> file_sink \<Rightarrow> file_result" where
  "file_rotate secs s =
     (case file_detach s of
        (Inl e, s1) \<Rightarrow> (Inl e, s1)
      | (Inr _, s1) \<Rightarrow>
          (case file_rename secs s1 of
             (Inl e, s2) \<Rightarrow> (Inl e, s2)
           | (Inr _, s2) \<Rightarrow> file_reopen s2))"

definition check_rotation :: "nat \<Rightarrow> file_sink \<Rightarrow> file_result" where
  "check_rotation secs s =
     (if 0 < fc_max_size (fs_config s) \<and> fc_max_size (fs_config s) \<le> fs_bytes_written s
      then file_rotate secs s else (Inr (), s))"

definition has_parent :: "string \<Rightarrow> bool" where
  "has_parent path \<longleftrightarrow> CHR ''/'' \<in> set path"

definition file_open :: "file_sink \<Rightarrow> file_result" where
  "file_open s =
     (case (if has_parent (fc_path (fs_config s)) then dev_next (fs_device s) else (IoOk, fs_device s)) of
        (IoFail _, d) \<Rightarrow> (failed ''mkdir'', s\<lparr>fs_device := d\<rparr>)
      | (IoOk, d) \<Rightarrow>
          (case file_reopen (s\<lparr>fs_device := d\<rparr>) of
             (Inl e, s1) \<Rightarrow> (Inl e, s1)
           | (Inr _, s1) \<Rightarrow> (Inr (), s1\<lparr>fs_is_open := True\<rparr>)))"

definition file_sync :: "string \<Rightarrow> file_sink \<Rightarrow> file_result" where
  "file_sync what s =
     (case dev_sync (fs_device s) of
        (ok, d) \<Rightarrow> ((if ok then Inr () else failed what), s\<lparr>fs_device := d\<rparr>))"

definition syncs_on_write :: "file_config \<Rightarrow> bool" where
  "syncs_on_write c \<longleftrightarrow> 2 \<le> durability_rank (fc_durability c) \<or> fc_fsync_on_write c"

definition file_put :: "string \<Rightarrow> bytes \<Rightarrow> file_sink \<Rightarrow> file_result" where
  "file_put what data s =
     (case fs_writer s of
        None \<Rightarrow> (Inr (), s)
      | Some w \<Rightarrow>
          (case bw_write_all data w (fs_device s) of
             (ok, w', d) \<Rightarrow>
               ((if ok then Inr () else failed what), s\<lparr>fs_writer := Some w', fs_device := d\<rparr>)))"

definition file_write :: "nat \<Rightarrow> bytes \<Rightarrow> file_sink \<Rightarrow> file_result" where
  "file_write secs x s =
     (if \<not> fs_is_open s then (Inl SinkClosed, s)
      else
        (case check_rotation secs s of
           (Inl e, s1) \<Rightarrow> (Inl e, s1)
         | (Inr _, s1) \<Rightarrow>
             if fs_writer s1 = None then (Inr (), s1)
             else
               (case file_put ''write'' x s1 of
                  (Inl e, s2) \<Rightarrow> (Inl e, s2)
                | (Inr _, s2) \<Rightarrow>
                    (case file_put ''write newline'' [0x0A] s2 of
                       (Inl e, s3) \<Rightarrow> (Inl e, s3)
                     | (Inr _, s3) \<Rightarrow>
                         let s4 = s3\<lparr>fs_bytes_written := fs_bytes_written s3 + (of_nat (length x) + 1)\<rparr>
                         in if syncs_on_write (fs_config s4) then file_sync ''fsync'' s4
                            else (Inr (), s4)))))"

definition file_flush :: "file_sink \<Rightarrow> file_result" where
  "file_flush s =
     (case fs_writer s of
        None \<Rightarrow> (Inr (), s)
      | Some w \<Rightarrow>
          (case bw_flush w (fs_device s) of
             (False, w', d) \<Rightarrow> (failed ''flush'', s\<lparr>fs_writer := Some w', fs_device := d\<rparr>)
           | (True, w', d) \<Rightarrow>
               let s' = s\<lparr>fs_writer := Some w', fs_device := d\<rparr> in
               if fc_fsync_on_write (fs_config s') then file_sync ''fsync'' s' else (Inr (), s')))"

definition file_close :: "file_sink \<Rightarrow> file_result" where
  "file_close s =
     (case file_flush s of
        (Inl e, s1) \<Rightarrow> (Inl e, s1)
      | (Inr _, s1) \<Rightarrow>
          (case (if 1 \<le> durability_rank (fc_durability (fs_config s1)) \<and> fs_writer s1 \<noteq> None
                 then file_sync ''fsync on close'' s1 else (Inr (), s1)) of
             (Inl e, s2) \<Rightarrow> (Inl e, s2)
           | (Inr _, s2) \<Rightarrow>
               (Inr (), s2\<lparr>fs_device := bw_drop (fs_writer s2) (fs_device s2), fs_writer := None,
                          fs_is_open := False\<rparr>)))"

section \<open>One sink among others\<close>

datatype any_sink = AnyConsole console_sink | AnyCallback callback_sink | AnyFile file_sink

definition lift :: "('s \<Rightarrow> any_sink) \<Rightarrow> sink_result \<times> 's \<Rightarrow> sink_result \<times> any_sink" where
  "lift f = (\<lambda>(r, s). (r, f s))"

fun sink_open :: "any_sink \<Rightarrow> sink_result \<times> any_sink" where
  "sink_open (AnyConsole s) = lift AnyConsole (console_open s)"
| "sink_open (AnyCallback s) = lift AnyCallback (callback_open s)"
| "sink_open (AnyFile s) = lift AnyFile (file_open s)"

fun sink_write :: "nat \<Rightarrow> bytes \<Rightarrow> any_sink \<Rightarrow> sink_result \<times> any_sink" where
  "sink_write t x (AnyConsole s) = lift AnyConsole (console_write x s)"
| "sink_write t x (AnyCallback s) = lift AnyCallback (callback_write x s)"
| "sink_write t x (AnyFile s) = lift AnyFile (file_write t x s)"

fun sink_flush :: "any_sink \<Rightarrow> sink_result \<times> any_sink" where
  "sink_flush (AnyConsole s) = lift AnyConsole (console_flush s)"
| "sink_flush (AnyCallback s) = (Inr (), AnyCallback s)"
| "sink_flush (AnyFile s) = lift AnyFile (file_flush s)"

fun sink_close :: "any_sink \<Rightarrow> sink_result \<times> any_sink" where
  "sink_close (AnyConsole s) = lift AnyConsole (console_close s)"
| "sink_close (AnyCallback s) = lift AnyCallback (callback_close s)"
| "sink_close (AnyFile s) = lift AnyFile (file_close s)"

text \<open>The trait's default batch: each line in turn, up to the first error.\<close>

fun write_batch :: "('c \<Rightarrow> 's \<Rightarrow> sink_result \<times> 's) \<Rightarrow> 'c list \<Rightarrow> 's \<Rightarrow> sink_result \<times> 's" where
  "write_batch w [] s = (Inr (), s)"
| "write_batch w (x # xs) s =
     (case w x s of (Inl e, s') \<Rightarrow> (Inl e, s') | (Inr _, s') \<Rightarrow> write_batch w xs s')"

section \<open>Broadcast\<close>

fun first_error :: "sink_result list \<Rightarrow> sink_result" where
  "first_error [] = Inr ()"
| "first_error (r # rs) = (case r of Inl e \<Rightarrow> Inl e | Inr _ \<Rightarrow> first_error rs)"

definition fanout_each :: "('s \<Rightarrow> sink_result \<times> 's) \<Rightarrow> 's list \<Rightarrow> sink_result \<times> 's list" where
  "fanout_each f ss = (let rs = map f ss in (first_error (map fst rs), map snd rs))"

fun fanout_open :: "('s \<Rightarrow> sink_result \<times> 's) \<Rightarrow> 's list \<Rightarrow> sink_result \<times> 's list" where
  "fanout_open f [] = (Inr (), [])"
| "fanout_open f (s # ss) =
     (case f s of
        (Inl e, s') \<Rightarrow> (Inl e, s' # ss)
      | (Inr _, s') \<Rightarrow> (case fanout_open f ss of (r, ss') \<Rightarrow> (r, s' # ss')))"

definition fanout_write :: "nat \<Rightarrow> bytes \<Rightarrow> any_sink list \<Rightarrow> sink_result \<times> any_sink list" where
  "fanout_write t x = fanout_each (sink_write t x)"

definition fanout_write_batch :: "(nat \<times> bytes) list \<Rightarrow> any_sink list \<Rightarrow> sink_result \<times> any_sink list" where
  "fanout_write_batch xs = fanout_each (write_batch (\<lambda>(t, x). sink_write t x) xs)"

definition fanout_flush :: "any_sink list \<Rightarrow> sink_result \<times> any_sink list" where
  "fanout_flush = fanout_each sink_flush"

definition fanout_close :: "any_sink list \<Rightarrow> sink_result \<times> any_sink list" where
  "fanout_close = fanout_each sink_close"

definition sink_is_healthy :: "any_sink \<Rightarrow> bool" where
  "sink_is_healthy s = True"

definition fanout_is_healthy :: "any_sink list \<Rightarrow> bool" where
  "fanout_is_healthy ss = list_all sink_is_healthy ss"

text \<open>What the registry builds of the sinks above.\<close>

datatype sink_kind_config = KindConsole console_config | KindFile file_config

definition build_sink :: "file_device \<Rightarrow> sink_kind_config \<Rightarrow> any_sink" where
  "build_sink d k =
     (case k of
        KindConsole c \<Rightarrow> AnyConsole (if ck_use_stderr c then console_stderr d else console_new d)
      | KindFile c \<Rightarrow> AnyFile (file_new c d))"

definition build_sinks :: "(sink_kind_config \<Rightarrow> file_device) \<Rightarrow> sink_kind_config list \<Rightarrow> any_sink list" where
  "build_sinks dev ks = map (\<lambda>k. build_sink (dev k) k) ks"

section \<open>The contract of a sink of lines\<close>

fun writes :: "(nat \<Rightarrow> bytes \<Rightarrow> 's \<Rightarrow> sink_result \<times> 's) \<Rightarrow> (nat \<times> bytes) list \<Rightarrow> 's \<Rightarrow> sink_result list \<times> 's"
where
  "writes w [] s = ([], s)"
| "writes w ((t, x) # xs) s =
     (case w t x s of (r, s') \<Rightarrow> (case writes w xs s' of (rs, s'') \<Rightarrow> (r # rs, s'')))"

definition line_of :: "bytes \<Rightarrow> bytes" where
  "line_of x = x @ [0x0A]"

fun accepted_lines :: "sink_result list \<Rightarrow> (nat \<times> bytes) list \<Rightarrow> bytes" where
  "accepted_lines (r # rs) ((t, x) # xs) = (if is_ok r then line_of x else []) @ accepted_lines rs xs"
| "accepted_lines _ _ = []"

locale line_sink =
  fixes put :: "nat \<Rightarrow> bytes \<Rightarrow> 's \<Rightarrow> sink_result \<times> 's"
    and put_out :: "'s \<Rightarrow> bytes"
    and ok :: "'s \<Rightarrow> bool"
    and fresh :: "nat \<Rightarrow> 's \<Rightarrow> bool"
  assumes delivers: "ok s \<Longrightarrow> fresh t s \<Longrightarrow> put t x s = (r, s')
      \<Longrightarrow> ok s' \<and> put_out s' = put_out s @ (if is_ok r then line_of x else [])"
    and stays_fresh: "fresh u s \<Longrightarrow> u \<noteq> t \<Longrightarrow> put t x s = (r, s') \<Longrightarrow> fresh u s'"
begin

lemma writes_deliver:
  assumes "ok s" "distinct (map fst xs)" "\<forall>t \<in> fst ` set xs. fresh t s" "writes put xs s = (rs, s')"
  shows "ok s' \<and> length rs = length xs \<and> put_out s' = put_out s @ accepted_lines rs xs"
  using assms
proof (induction xs arbitrary: s rs s')
  case (Cons p xs)
  obtain t x where p: "p = (t, x)" by (cases p)
  obtain r s1 where w: "put t x s = (r, s1)" by (cases "put t x s") blast
  obtain rs' s2 where ws: "writes put xs s1 = (rs', s2)" by (cases "writes put xs s1") blast
  have d: "ok s1 \<and> put_out s1 = put_out s @ (if is_ok r then line_of x else [])"
    using delivers [OF _ _ w] Cons.prems by (simp add: p)
  moreover have "\<forall>u \<in> fst ` set xs. fresh u s1"
  proof
    fix u assume u: "u \<in> fst ` set xs"
    then have "u \<noteq> t" "fresh u s" using Cons.prems by (auto simp: p)
    then show "fresh u s1" using stays_fresh w by blast
  qed
  moreover have "distinct (map fst xs)" using Cons.prems by simp
  ultimately have "ok s2 \<and> length rs' = length xs \<and> put_out s2 = put_out s1 @ accepted_lines rs' xs"
    using Cons.IH [OF _ _ _ ws] by blast
  then show ?case using Cons.prems(4) d by (auto simp: p w ws)
qed simp

end

definition console_output :: "console_sink \<Rightarrow> bytes" where
  "console_output s = fd_bytes (cs_device s)"

definition callback_output :: "callback_sink \<Rightarrow> bytes" where
  "callback_output s = concat (map line_of (kb_seen s))"

text \<open>All a file sink was given: the rotated files, the current one, and the buffer.\<close>

definition file_output :: "file_sink \<Rightarrow> bytes" where
  "file_output s =
     concat (map snd (fs_archive s)) @ fd_bytes (fs_device s) @
     (case fs_writer s of None \<Rightarrow> [] | Some w \<Rightarrow> bw_buffer w)"

definition file_ok :: "file_sink \<Rightarrow> bool" where
  "file_ok s \<longleftrightarrow> fd_calls (fs_device s) = [] \<and> (fs_is_open s \<longrightarrow> fs_writer s \<noteq> None)"

definition file_fresh :: "nat \<Rightarrow> file_sink \<Rightarrow> bool" where
  "file_fresh t s \<longleftrightarrow> t \<notin> fst ` set (fs_archive s)"

lemma update_fresh: "k \<notin> fst ` set xs \<Longrightarrow> AList.update k v xs = xs @ [(k, v)]"
  by (induction xs) auto

interpretation console_lines: line_sink "\<lambda>_. console_write" console_output
  "\<lambda>s. fd_calls (cs_device s) = []" "\<lambda>_ _. True"
  by unfold_locales
     (auto simp: console_write_def console_output_def write_line_def raw_write_def dev_write_sound
       line_of_def split: if_splits)

interpretation callback_lines: line_sink "\<lambda>_. callback_write" callback_output "\<lambda>_. True" "\<lambda>_ _. True"
  by unfold_locales
     (auto simp: callback_write_def callback_output_def split: if_splits option.splits sum.splits)

lemma file_rotate_sound:
  assumes "fd_calls (fs_device s) = []" "file_fresh t s"
  shows "\<exists>s'. file_rotate t s = (Inr (), s') \<and> fd_calls (fs_device s') = [] \<and> fs_writer s' \<noteq> None \<and>
    file_output s' = file_output s \<and> fs_is_open s' = fs_is_open s \<and> fs_config s' = fs_config s \<and>
    fst ` set (fs_archive s') \<subseteq> insert t (fst ` set (fs_archive s))"
proof (cases "fs_writer s")
  case None
  then show ?thesis
    using assms
    by (auto simp: file_rotate_def file_detach_def file_rename_def file_reopen_def file_fresh_def update_fresh
          file_output_def new_writer_def bw_drop_def)
next
  case (Some w)
  obtain w' d where "bw_flush w (fs_device s) = (True, w', d)" "fd_calls d = []"
    "fd_bytes d = bw_content w (fs_device s)"
    using bw_flush_sound [OF assms(1), of w] by blast
  then show ?thesis
    using assms Some
    by (auto simp: file_rotate_def file_detach_def file_rename_def file_reopen_def file_fresh_def update_fresh
          file_output_def new_writer_def bw_drop_def bw_content_def)
qed

lemma file_put_sound:
  assumes "fd_calls (fs_device s) = []" "fs_writer s \<noteq> None"
  shows "\<exists>s'. file_put what data s = (Inr (), s') \<and> fd_calls (fs_device s') = [] \<and> fs_writer s' \<noteq> None \<and>
    file_output s' = file_output s @ data \<and> fs_is_open s' = fs_is_open s \<and> fs_config s' = fs_config s \<and>
    fs_archive s' = fs_archive s"
proof -
  obtain w where w: "fs_writer s = Some w" using assms(2) by blast
  obtain w' d where "bw_write_all data w (fs_device s) = (True, w', d)" "fd_calls d = []"
    "bw_content w' d = bw_content w (fs_device s) @ data"
    using bw_write_all_sound [OF assms(1), of data w] by blast
  then show ?thesis using w by (auto simp: file_put_def file_output_def bw_content_def)
qed

lemma check_rotation_sound:
  assumes "fd_calls (fs_device s) = []" "file_fresh t s" "fs_writer s \<noteq> None"
  shows "\<exists>s'. check_rotation t s = (Inr (), s') \<and> fd_calls (fs_device s') = [] \<and> fs_writer s' \<noteq> None \<and>
    file_output s' = file_output s \<and> fs_is_open s' = fs_is_open s \<and> fs_config s' = fs_config s \<and>
    fst ` set (fs_archive s') \<subseteq> insert t (fst ` set (fs_archive s))"
  using file_rotate_sound [OF assms(1,2)] assms by (auto simp: check_rotation_def)

lemma file_write_sound:
  assumes "file_ok s" "file_fresh t s" "fs_is_open s"
  shows "\<exists>s'. file_write t x s = (Inr (), s') \<and> file_ok s' \<and> file_output s' = file_output s @ line_of x \<and>
    fst ` set (fs_archive s') \<subseteq> insert t (fst ` set (fs_archive s))"
proof -
  have "fd_calls (fs_device s) = []" "fs_writer s \<noteq> None" using assms by (auto simp: file_ok_def)
  from check_rotation_sound [OF this(1) assms(2) this(2)] obtain s1 where
    1: "check_rotation t s = (Inr (), s1)" "fd_calls (fs_device s1) = []" "fs_writer s1 \<noteq> None"
      "file_output s1 = file_output s" "fs_is_open s1 = fs_is_open s"
      "fst ` set (fs_archive s1) \<subseteq> insert t (fst ` set (fs_archive s))" by blast
  from file_put_sound [OF 1(2,3)] obtain s2 where
    2: "file_put ''write'' x s1 = (Inr (), s2)" "fd_calls (fs_device s2) = []" "fs_writer s2 \<noteq> None"
      "file_output s2 = file_output s1 @ x" "fs_is_open s2 = fs_is_open s1" "fs_archive s2 = fs_archive s1"
    by blast
  from file_put_sound [OF 2(2,3)] obtain s3 where
    3: "file_put ''write newline'' [0x0A] s2 = (Inr (), s3)" "fd_calls (fs_device s3) = []"
      "fs_writer s3 \<noteq> None" "file_output s3 = file_output s2 @ [0x0A]" "fs_is_open s3 = fs_is_open s2"
      "fs_archive s3 = fs_archive s2" by blast
  from 1 2 3 assms(3) show ?thesis
    by (auto simp: file_write_def Let_def file_sync_def dev_sync_sound file_ok_def line_of_def
          file_output_def)
qed

lemma rotated_names:
  "fst ` set (fs_archive (snd (file_reopen s))) = fst ` set (fs_archive s)"
  "fst ` set (fs_archive (snd (file_detach s))) = fst ` set (fs_archive s)"
  "fst ` set (fs_archive (snd (file_rename t s))) \<subseteq> insert t (fst ` set (fs_archive s))"
  "fst ` set (fs_archive (snd (file_put what x s))) = fst ` set (fs_archive s)"
  "fst ` set (fs_archive (snd (file_sync what s))) = fst ` set (fs_archive s)"
  by (auto simp: file_reopen_def file_rename_def file_put_def file_sync_def file_detach_def dom_update
        split: prod.splits io_outcome.splits option.splits bool.splits)

lemma file_rotate_names: "fst ` set (fs_archive (snd (file_rotate t s))) \<subseteq> insert t (fst ` set (fs_archive s))"
proof -
  obtain r s1 where 1: "file_detach s = (r, s1)" by (cases "file_detach s") blast
  obtain r' s2 where 2: "file_rename t s1 = (r', s2)" by (cases "file_rename t s1") blast
  show ?thesis
    using rotated_names(2) [of s] rotated_names(3) [of t s1] rotated_names(1) [of s2]
    by (auto simp: file_rotate_def 1 2 split: sum.split)
qed

lemma file_write_names: "fst ` set (fs_archive (snd (file_write t x s))) \<subseteq> insert t (fst ` set (fs_archive s))"
proof -
  obtain r1 s1 where 1: "check_rotation t s = (r1, s1)" by (cases "check_rotation t s") blast
  obtain r2 s2 where 2: "file_put ''write'' x s1 = (r2, s2)" by (cases "file_put ''write'' x s1") blast
  obtain r3 s3 where 3: "file_put ''write newline'' [0x0A] s2 = (r3, s3)"
    by (cases "file_put ''write newline'' [0x0A] s2") blast
  have "fst ` set (fs_archive s1) \<subseteq> insert t (fst ` set (fs_archive s))"
    using file_rotate_names [of t s] 1 by (auto simp: check_rotation_def split: if_splits)
  moreover have "fst ` set (fs_archive s2) = fst ` set (fs_archive s1)"
    "fst ` set (fs_archive s3) = fst ` set (fs_archive s2)"
    using rotated_names(4) [of "''write''" x s1] rotated_names(4) [of "''write newline''" "[0x0A]" s2] 2 3
    by simp_all
  ultimately show ?thesis
    by (auto simp: file_write_def Let_def 1 2 3 rotated_names(5) split: sum.split)
qed

interpretation file_lines: line_sink file_write file_output file_ok file_fresh
proof
  fix s t x r s'
  assume a: "file_ok s" "file_fresh t s" "file_write t x s = (r, s')"
  show "file_ok s' \<and> file_output s' = file_output s @ (if is_ok r then line_of x else [])"
  proof (cases "fs_is_open s")
    case True
    then show ?thesis using file_write_sound [OF a(1,2) True, of x] a(3) by auto
  qed (use a in \<open>auto simp: file_write_def\<close>)
next
  fix u s t x r s'
  assume "file_fresh u s" "u \<noteq> t" "file_write t x s = (r, s')"
  then show "file_fresh u s'" using file_write_names [of t x s] by (auto simp: file_fresh_def)
qed

fun any_output :: "any_sink \<Rightarrow> bytes" where
  "any_output (AnyConsole s) = console_output s"
| "any_output (AnyCallback s) = callback_output s"
| "any_output (AnyFile s) = file_output s"

fun any_ok :: "any_sink \<Rightarrow> bool" where
  "any_ok (AnyConsole s) \<longleftrightarrow> fd_calls (cs_device s) = []"
| "any_ok (AnyCallback s) \<longleftrightarrow> True"
| "any_ok (AnyFile s) \<longleftrightarrow> file_ok s"

fun any_fresh :: "nat \<Rightarrow> any_sink \<Rightarrow> bool" where
  "any_fresh t (AnyFile s) \<longleftrightarrow> file_fresh t s"
| "any_fresh t _ \<longleftrightarrow> True"

interpretation any_lines: line_sink sink_write any_output any_ok any_fresh
proof
  fix s t x r s'
  assume a: "any_ok s" "any_fresh t s" "sink_write t x s = (r, s')"
  show "any_ok s' \<and> any_output s' = any_output s @ (if is_ok r then line_of x else [])"
    using a console_lines.delivers callback_lines.delivers file_lines.delivers
    by (cases s) (auto simp: lift_def split: prod.splits)
next
  fix u s t x r s'
  assume "any_fresh u s" "u \<noteq> t" "sink_write t x s = (r, s')"
  then show "any_fresh u s'"
    using file_lines.stays_fresh by (cases s) (auto simp: lift_def split: prod.splits)
qed

section \<open>Broadcast keeps the children apart\<close>

fun fanout_writes :: "(nat \<times> bytes) list \<Rightarrow> any_sink list \<Rightarrow> sink_result list \<times> any_sink list" where
  "fanout_writes [] ss = ([], ss)"
| "fanout_writes ((t, x) # xs) ss =
     (case fanout_write t x ss of
        (r, ss') \<Rightarrow> (case fanout_writes xs ss' of (rs, ss'') \<Rightarrow> (r # rs, ss'')))"

lemma writes_length [simp]: "length (fst (writes w xs s)) = length xs"
  by (induction w xs s rule: writes.induct) (auto split: prod.splits)

lemma fanout_writes_children:
  "snd (fanout_writes xs ss) = map (\<lambda>s. snd (writes sink_write xs s)) ss
   \<and> fst (fanout_writes xs ss)
     = map (\<lambda>k. first_error (map (\<lambda>s. fst (writes sink_write xs s) ! k) ss)) [0..<length xs]"
proof (induction xs arbitrary: ss)
  case (Cons p xs)
  obtain t x where p: "p = (t, x)" by (cases p)
  let ?f = "sink_write t x"
  have w: "snd (writes sink_write (p # xs) s) = snd (writes sink_write xs (snd (?f s)))"
    "fst (writes sink_write (p # xs) s) = fst (?f s) # fst (writes sink_write xs (snd (?f s)))" for s
    by (simp_all add: p split: prod.splits)
  have f: "fanout_writes (p # xs) ss
    = (first_error (map (\<lambda>s. fst (?f s)) ss) # fst (fanout_writes xs (map (\<lambda>s. snd (?f s)) ss)),
       snd (fanout_writes xs (map (\<lambda>s. snd (?f s)) ss)))"
    by (simp add: p fanout_write_def fanout_each_def Let_def comp_def split: prod.splits)
  show ?case
    by (simp add: f w Cons.IH comp_def upt_conv_Cons map_Suc_upt [symmetric] del: upt_Suc writes.simps)
qed simp


definition demo_sinks :: "any_sink list" where
  "demo_sinks =
     [AnyCallback \<lparr>kb_callback = Some (\<lambda>_. Inl ''down''), kb_is_open = True, kb_invoked = 0, kb_seen = []\<rparr>,
      AnyFile \<lparr>fs_config = file_config_default, fs_writer = Some (new_writer file_config_default),
               fs_device = \<lparr>fd_bytes = [], fd_synced = 0, fd_calls = []\<rparr>, fs_exists = True, fs_bytes_written = 0,
               fs_is_open = True, fs_archive = []\<rparr>]"


section \<open>What the sinks lose\<close>

text \<open>
  A console reports success whatever the system call did. With media durability a line that fits
  in the buffer is reported as durable and is in memory only. A second rotation within one second replaces the file kept by the first. Opening a broadcast stops at
  the first child that fails, and the others stay closed.
\<close>

lemma console_write_unchecked: "cs_is_open s \<Longrightarrow> fst (console_write x s) = Inr ()"
  by (simp add: console_write_def)

lemma media_line_in_memory:
  assumes "fs_is_open s" "fs_writer s = Some w" "bw_buffer w = []" "fd_calls (fs_device s) = []"
    and "fc_max_size (fs_config s) = 0" "fc_durability (fs_config s) = durability_level.Media"
    and "length x + 1 < bw_capacity w"
  shows "fst (file_write t x s) = Inr () \<and> fd_bytes (fs_device (snd (file_write t x s))) = fd_bytes (fs_device s)"
  using assms
  by (simp add: file_write_def check_rotation_def file_put_def bw_write_buffered syncs_on_write_def
      file_sync_def dev_sync_sound)

lemma rotation_overwrites:
  assumes "fd_calls (fs_device s) = []" "(t, old) \<in> set (fs_archive s)" "distinct (map fst (fs_archive s))"
    and "old \<noteq> fd_bytes (fs_device s)" "fs_exists s"
  shows "(t, old) \<notin> set (fs_archive (snd (file_rename t s)))"
proof
  assume "(t, old) \<in> set (fs_archive (snd (file_rename t s)))"
  then have "(t, old) \<in> set (AList.update t (fd_bytes (fs_device s)) (fs_archive s))"
    using assms(1,5) by (simp add: file_rename_def)
  then have "map_of (AList.update t (fd_bytes (fs_device s)) (fs_archive s)) t = Some old"
    using assms(3) by (simp add: distinct_update)
  then show False using assms(4) by (simp add: update_conv')
qed

lemma fanout_open_stops: "f s = (Inl e, s') \<Longrightarrow> fanout_open f (s # ss) = (Inl e, s' # ss)"
  by simp

end
