(* ===== verification/Time_Source.thy ===== *)
theory Time_Source
  imports Prelude
begin

unbundle bit_operations_syntax

text \<open>
  \<open>core/src/sys/time.rs\<close>: the monotonic clock, the hybrid clock and the identifiers of records.
  An \<open>Instant\<close> is a number of nanoseconds, the wall clock an integer number of nanoseconds from
  the epoch. Generating an identifier reads the clock several times: the readings are a list,
  and \<open>None\<close> means that the call is still waiting when they end. Calls of one thread follow one
  another. The theorem is that identifiers increase as long as the clock does not run backwards,
  and that a call returns as soon as the clock moves on.
\<close>

type_synonym id128 = "u64 \<times> u64"

record time_source =
  ts_sequence :: u64
  ts_fingerprint :: u64
  ts_origin :: nat
  ts_wall_base :: int

section \<open>Clocks\<close>

definition clock_now_ns :: "nat \<Rightarrow> nat \<Rightarrow> u64" where
  "clock_now_ns origin now = of_nat (now - origin)"

definition clock_elapsed_since :: "nat \<Rightarrow> nat \<Rightarrow> u64 \<Rightarrow> u64" where
  "clock_elapsed_since origin now earlier = sat_sub64 (clock_now_ns origin now) earlier"

text \<open>\<open>pid << 32 | random\<close>; the random word comes from a hasher.\<close>

definition time_source_new :: "u32 \<Rightarrow> u64 \<Rightarrow> nat \<Rightarrow> int \<Rightarrow> time_source" where
  "time_source_new pid random now wall =
     \<lparr>ts_sequence = 0, ts_fingerprint = push_bit 32 (ucast pid) OR (random AND 0xFFFFFFFF),
      ts_origin = now, ts_wall_base = wall\<rparr>"

text \<open>\<open>duration_since(UNIX_EPOCH).unwrap_or_default()\<close> is zero before the epoch.\<close>

definition now_utc :: "int \<Rightarrow> id128" where
  "now_utc wall = (of_nat (nat wall div 1000000000), of_nat (nat wall mod 1000000000))"

definition now_nanos :: "int \<Rightarrow> u64" where
  "now_nanos wall =
     sat_add64 (sat_mul64 (of_nat (nat wall div 1000000000)) 1000000000)
       (of_nat (nat wall mod 1000000000))"

definition ms_of :: "time_source \<Rightarrow> nat \<Rightarrow> nat" where
  "ms_of s now = (nat (ts_wall_base s) + (now - ts_origin s)) div 1000000"

definition now_ms :: "time_source \<Rightarrow> nat \<Rightarrow> u64" where
  "now_ms s now = of_nat (ms_of s now)"

section \<open>Identifiers\<close>

definition MAX_SEQUENCE :: u64 where "MAX_SEQUENCE = 0x3FFFFF"

text \<open>The loop that waits for the next millisecond.\<close>

fun spin :: "time_source \<Rightarrow> u64 \<Rightarrow> nat list \<Rightarrow> nat list option" where
  "spin s current [] = None"
| "spin s current (r # rs) = (if now_ms s r \<le> current then spin s current rs else Some rs)"

lemma spin_shorter: "spin s current rs = Some rs' \<Longrightarrow> length rs' < length rs"
  by (induction rs) (auto split: if_splits)

function next_id :: "nat list \<Rightarrow> time_source \<Rightarrow> (id128 \<times> time_source \<times> nat list) option" where
  "next_id [] s = None"
| "next_id (r # rs) s =
     (let timestamp = now_ms s r; seq = ts_sequence s; s' = s\<lparr>ts_sequence := seq + 1\<rparr>;
          masked = seq AND MAX_SEQUENCE
      in if masked = 0 \<and> 0 < seq
         then (case spin s' timestamp rs of None \<Rightarrow> None | Some rs' \<Rightarrow> next_id rs' s')
         else Some ((timestamp, push_bit 32 (ts_fingerprint s) OR masked), s', rs))"
  by pat_completeness auto
termination
  by (relation "measure (length \<circ> fst)") (auto dest: spin_shorter)

declare next_id.simps(2) [simp del]

fun next_ids :: "nat \<Rightarrow> nat list \<Rightarrow> time_source \<Rightarrow> (id128 list \<times> time_source \<times> nat list) option" where
  "next_ids 0 rs s = Some ([], s, rs)"
| "next_ids (Suc n) rs s =
     (case next_id rs s of
        None \<Rightarrow> None
      | Some (i, s', rs') \<Rightarrow>
          (case next_ids n rs' s' of None \<Rightarrow> None | Some (is', r) \<Rightarrow> Some (i # is', r)))"

section \<open>Words\<close>

lemma max_sequence_mask: "MAX_SEQUENCE = mask 22"
  by (simp add: MAX_SEQUENCE_def mask_eq_exp_minus_1)

lemma masked_unat: "unat (w AND MAX_SEQUENCE) = unat w mod 2 ^ 22"
  by (simp only: max_sequence_mask take_bit_eq_mask [symmetric] unsigned_take_bit_eq take_bit_eq_mod)
     (simp add: unat_mod)

lemma low_unat: "unat (push_bit 32 f OR (w AND MAX_SEQUENCE)) = unat (push_bit 32 f) + unat w mod 2 ^ 22"
  for f :: u64
proof -
  have "push_bit 32 f AND (w AND MAX_SEQUENCE) = 0"
    unfolding max_sequence_mask by (rule bit_word_eqI) (auto simp: bit_simps)
  then have d: "unat (push_bit 32 f) AND unat (w AND MAX_SEQUENCE) = 0"
    by (metis unsigned_and_eq unsigned_0)
  show ?thesis
    using d by (simp add: unsigned_or_eq disjunctive_add_eq_or [symmetric] masked_unat)
qed

definition id_less :: "id128 \<Rightarrow> id128 \<Rightarrow> bool" where
  "id_less a b \<longleftrightarrow> fst a < fst b \<or> fst a = fst b \<and> snd a < snd b"

section \<open>Identifiers increase\<close>

lemma now_ms_same [simp]: "now_ms (s\<lparr>ts_sequence := q\<rparr>) = now_ms s"
  by (rule ext) (simp add: now_ms_def ms_of_def)

definition clock_ok :: "time_source \<Rightarrow> nat list \<Rightarrow> bool" where
  "clock_ok s rs \<longleftrightarrow> sorted (map (now_ms s) rs)"

lemma clock_ok_simps [simp]:
  "clock_ok s []" "clock_ok s (r # rs) \<longleftrightarrow> (\<forall>x \<in> set rs. now_ms s r \<le> now_ms s x) \<and> clock_ok s rs"
  "clock_ok (s\<lparr>ts_sequence := q\<rparr>) rs = clock_ok s rs"
  by (auto simp: clock_ok_def)

lemma spin_result:
  "spin s cur rs = Some rs' \<Longrightarrow> clock_ok s rs
   \<Longrightarrow> clock_ok s rs' \<and> (\<forall>x \<in> set rs'. cur < now_ms s x)"
  by (induction rs) (auto split: if_splits)

lemma spin_same: "spin (s\<lparr>ts_sequence := q\<rparr>) cur rs = spin s cur rs"
  by (induction rs) simp_all

text \<open>Whether the sequence has come round to zero, and the two ways a call goes.\<close>

definition comes_round :: "time_source \<Rightarrow> bool" where
  "comes_round s \<longleftrightarrow> unat (ts_sequence s) mod 2 ^ 22 = 0 \<and> ts_sequence s \<noteq> 0"

definition id_of :: "time_source \<Rightarrow> nat \<Rightarrow> id128" where
  "id_of s r = (now_ms s r, push_bit 32 (ts_fingerprint s) OR (ts_sequence s AND MAX_SEQUENCE))"

abbreviation bump :: "time_source \<Rightarrow> time_source" where
  "bump s \<equiv> s\<lparr>ts_sequence := ts_sequence s + 1\<rparr>"

lemma comes_round_iff: "comes_round s \<longleftrightarrow> ts_sequence s AND MAX_SEQUENCE = 0 \<and> 0 < ts_sequence s"
  using masked_unat [of "ts_sequence s"]
  by (simp add: comes_round_def word_unat_eq_iff word_less_nat_alt)

lemma next_id_direct: "\<not> comes_round s \<Longrightarrow> next_id (r # rs) s = Some (id_of s r, bump s, rs)"
  by (auto simp: next_id.simps(2) Let_def comes_round_iff id_of_def)

lemma round_once:
  assumes "comes_round s" "unat (ts_sequence s) + 2 < 2 ^ 64"
  shows "\<not> comes_round (bump s)"
proof -
  have "unat (ts_sequence s + 1) = unat (ts_sequence s) + 1"
    using assms(2) by (simp add: unat_word_ariths)
  then have "unat (ts_sequence s + 1) mod 2 ^ 22 = (unat (ts_sequence s) mod 2 ^ 22 + 1) mod 2 ^ 22"
    by (simp add: mod_Suc_eq)
  then show ?thesis using assms(1) by (simp add: comes_round_def)
qed

lemma next_id_waits:
  assumes "comes_round s" "unat (ts_sequence s) + 2 < 2 ^ 64"
  shows "next_id (r # rs) s =
    (case spin s (now_ms s r) rs of
       Some (r' # rs') \<Rightarrow> Some (id_of (bump s) r', bump (bump s), rs') | _ \<Rightarrow> None)"
proof -
  have "next_id (r # rs) s
    = (case spin s (now_ms s r) rs of None \<Rightarrow> None | Some rs' \<Rightarrow> next_id rs' (bump s))"
    using assms(1) by (simp add: next_id.simps(2) Let_def comes_round_iff spin_same)
  then show ?thesis
    using next_id_direct [OF round_once [OF assms]]
    by (auto split: option.split list.split simp del: time_source.simps)
qed

text \<open>\<open>after p s rs\<close>: \<open>p\<close> is the last identifier given out.\<close>

definition after :: "id128 \<Rightarrow> time_source \<Rightarrow> nat list \<Rightarrow> bool" where
  "after p s rs \<longleftrightarrow>
     (\<forall>x \<in> set rs. fst p \<le> now_ms s x)
     \<and> (\<exists>q. unat (ts_sequence s) = Suc q
          \<and> unat (snd p) = unat (push_bit 32 (ts_fingerprint s)) + q mod 2 ^ 22)"

lemma after_direct:
  assumes "clock_ok s (r # rs)" "unat (ts_sequence s) + 1 < 2 ^ 64"
  shows "after (id_of s r) (bump s) rs"
  using assms by (auto simp: after_def id_of_def low_unat unat_word_ariths)

lemma next_id_after:
  assumes "next_id rs s = Some (i, s', rs')" "clock_ok s rs" "unat (ts_sequence s) + 2 < 2 ^ 64"
  shows "after i s' rs' \<and> clock_ok s' rs' \<and> unat (ts_sequence s') \<le> unat (ts_sequence s) + 2
    \<and> (after p s rs \<longrightarrow> id_less p i)"
proof -
  obtain r us where rs: "rs = r # us" using assms(1) by (cases rs) auto
  have u: "unat (ts_sequence s + 1) = unat (ts_sequence s) + 1"
    "unat (ts_sequence s + 1 + 1) = unat (ts_sequence s) + 2"
    using assms(3) by (simp_all add: unat_word_ariths)
  show ?thesis
  proof (cases "comes_round s")
    case False
    then have i: "i = id_of s r" "s' = bump s" "rs' = us"
      using assms(1) by (simp_all add: rs next_id_direct)
    have "id_less p i" if "after p s rs"
    proof -
      from that obtain q where q: "unat (ts_sequence s) = Suc q"
        "unat (snd p) = unat (push_bit 32 (ts_fingerprint s)) + q mod 2 ^ 22"
        by (auto simp: after_def)
      have "Suc q mod 2 ^ 22 \<noteq> 0" using False q(1) by (auto simp: comes_round_def)
      then have "q mod 2 ^ 22 < Suc q mod 2 ^ 22" by (simp add: mod_Suc split: if_splits)
      then have "snd p < snd i"
        using q by (simp add: word_less_nat_alt i id_of_def low_unat)
      moreover have "fst p \<le> fst i" using that by (simp add: after_def rs i id_of_def)
      ultimately show ?thesis by (auto simp: id_less_def)
    qed
    then show ?thesis
      using after_direct [of s r us] assms(2,3) by (auto simp: i rs u)
  next
    case True
    then obtain r' where sp: "spin s (now_ms s r) us = Some (r' # rs')"
      and i: "i = id_of (bump s) r'" "s' = bump (bump s)"
      using assms(1) next_id_waits [OF True assms(3)] by (auto simp: rs split: option.splits list.splits)
    have c: "clock_ok s (r' # rs')" "now_ms s r < now_ms s r'"
      using spin_result [OF sp] assms(2) by (auto simp: rs)
    then have "after i s' rs'"
      using after_direct [of "bump s" r' rs'] assms(3) u by (simp add: i)
    moreover have "id_less p i" if "after p s rs"
      using that c(2) by (auto simp: after_def rs id_less_def i id_of_def)
    ultimately show ?thesis using c(1) u by (auto simp: i)
  qed
qed

lemma id_less_trans: "id_less a b \<Longrightarrow> id_less b c \<Longrightarrow> id_less a c"
  by (auto simp: id_less_def)

lemma next_ids_after:
  assumes "next_ids n rs s = Some (is, s', rs')" "clock_ok s rs" "unat (ts_sequence s) + 2 * n < 2 ^ 64"
    and "after p s rs"
  shows "sorted_wrt id_less (p # is)"
  using assms
proof (induction n arbitrary: rs s "is" p)
  case (Suc n)
  obtain i s1 rs1 where 1: "next_id rs s = Some (i, s1, rs1)"
    using Suc.prems(1) by (auto split: option.splits)
  obtain is1 where 2: "next_ids n rs1 s1 = Some (is1, s', rs')" "is = i # is1"
    using Suc.prems(1) 1 by (auto split: option.splits)
  have a: "after i s1 rs1 \<and> clock_ok s1 rs1 \<and> unat (ts_sequence s1) \<le> unat (ts_sequence s) + 2
    \<and> (after p s rs \<longrightarrow> id_less p i)"
    by (rule next_id_after [OF 1 Suc.prems(2)]) (use Suc.prems(3) in simp)
  then have "unat (ts_sequence s1) \<le> unat (ts_sequence s) + 2" by blast
  then have u: "unat (ts_sequence s1) + 2 * n < 2 ^ 64" using Suc.prems(3) by simp
  have "sorted_wrt id_less (i # is1)"
    using Suc.IH [OF 2(1) _ u] a by blast
  moreover have "id_less p i" using a Suc.prems(4) by blast
  ultimately show ?case using id_less_trans [of p i] by (auto simp: 2(2))
qed simp

lemma next_ids_increase:
  assumes "next_ids n rs s = Some (is, s', rs')" "clock_ok s rs" "unat (ts_sequence s) + 2 * n < 2 ^ 64"
  shows "sorted_wrt id_less is"
proof (cases n)
  case 0
  then show ?thesis using assms(1) by simp
next
  case (Suc m)
  obtain i s1 rs1 where 1: "next_id rs s = Some (i, s1, rs1)"
    using assms(1) by (auto simp: Suc split: option.splits)
  obtain is1 where 2: "next_ids m rs1 s1 = Some (is1, s', rs')" "is = i # is1"
    using assms(1) 1 by (auto simp: Suc split: option.splits)
  have a: "after i s1 rs1 \<and> clock_ok s1 rs1 \<and> unat (ts_sequence s1) \<le> unat (ts_sequence s) + 2"
    using next_id_after [OF 1 assms(2)] assms(3) by (simp add: Suc)
  then have "unat (ts_sequence s1) \<le> unat (ts_sequence s) + 2" by blast
  then have u: "unat (ts_sequence s1) + 2 * m < 2 ^ 64" using assms(3) Suc by simp
  have "sorted_wrt id_less (i # is1)" using next_ids_after [OF 2(1) _ u] a by blast
  then show ?thesis by (simp add: 2(2))
qed

lemma spin_returns:
  "cur < now_ms s r' \<Longrightarrow> vs \<noteq> [] \<Longrightarrow> \<exists>x rs'. spin s cur (us @ r' # vs) = Some (x # rs')"
proof (induction us)
  case (Cons u us)
  then show ?case by (cases us) auto
qed (auto simp: neq_Nil_conv)

lemma next_id_returns:
  assumes "now_ms s r < now_ms s r'" "vs \<noteq> []" "unat (ts_sequence s) + 2 < 2 ^ 64"
  shows "next_id (r # us @ r' # vs) s \<noteq> None"
proof (cases "comes_round s")
  case True
  then show ?thesis
    using next_id_waits [OF True assms(3)] spin_returns [OF assms(1,2), of us] by auto
qed (simp add: next_id_direct)

text \<open>C26: The identifiers of one source increase, and none is given twice. While its clock does
  not run backwards and the sequence does not run out, any number of calls yields strictly
  increasing pairs; and a call returns as soon as two readings after its first, one of them a
  millisecond later, have been made.\<close>

theorem record_ids_increase:
  assumes "clock_ok s rs" "unat (ts_sequence s) + 2 * n < 2 ^ 64"
  shows "(\<forall>is s' rs'. next_ids n rs s = Some (is, s', rs') \<longrightarrow> sorted_wrt id_less is \<and> distinct is)
    \<and> (0 < n \<longrightarrow> (\<forall>r us r' vs. now_ms s r < now_ms s r' \<longrightarrow> vs \<noteq> [] \<longrightarrow> next_id (r # us @ r' # vs) s \<noteq> None))"
proof -
  have d: "distinct is" if "sorted_wrt id_less is" for "is"
    using that by (induction "is") (auto simp: id_less_def)
  have "next_id (r # us @ r' # vs) s \<noteq> None"
    if "0 < n" "now_ms s r < now_ms s r'" "vs \<noteq> []" for r us r' vs
    by (rule next_id_returns [OF that(2,3)]) (use assms(2) that(1) in simp)
  then show ?thesis using next_ids_increase [OF _ assms] d by blast
qed

lemma record_ids_increase_witness:
  "\<exists>is s' rs'. next_ids (Suc (Suc 0)) [5000000, 5000000] (time_source_new 9 3 0 0) = Some (is, s', rs')
     \<and> distinct is"
proof -
  let ?s = "time_source_new 9 3 0 0"
  have "\<not> comes_round ?s" "\<not> comes_round (bump ?s)"
    by (simp_all add: comes_round_def time_source_new_def)
  then obtain "is" s' rs' where n: "next_ids (Suc (Suc 0)) [5000000, 5000000] ?s = Some (is, s', rs')"
    by (simp add: next_id_direct)
  have "clock_ok ?s [5000000, 5000000]" by simp
  moreover have "unat (ts_sequence ?s) + 2 * Suc (Suc 0) < 2 ^ 64" by (simp add: time_source_new_def)
  ultimately have "distinct is" using record_ids_increase n by blast
  with n show ?thesis by blast
qed

text \<open>The process identifier is shifted out: two processes whose random words agree on 32 bits
  give out the same identifiers.\<close>

lemma pid_not_in_id: "push_bit 32 (ts_fingerprint (time_source_new pid random now wall)) = push_bit 32 random"
proof -
  have m: "(0xFFFFFFFF :: u64) = mask 32" by (simp add: mask_eq_exp_minus_1)
  have "ts_fingerprint (time_source_new pid random now wall) = push_bit 32 (ucast pid) OR take_bit 32 random"
    unfolding time_source_new_def time_source.simps m take_bit_eq_mask ..
  then show ?thesis
    by (simp only:) (rule bit_word_eqI, auto simp: bit_simps)
qed

end
