(* ===== verification/Spec2Isabelle.thy ===== *)
theory Spec2Isabelle
  imports Util_Hex Engine Audit_Trail Secret_Detector Verify_Log Sif_Stream Ring_Buffer Object_Pool Circuit_Breaker Replay_Guard Crc32c Domain Canary Backpressure Quota Dependency Key_Rotation Shm_Ring Emergency_Buffer Text_Output Sandbox Plugin_Manager Config_Watcher Hot_Reload Control_Plane Sinks Time_Source
begin

text \<open>
  DoLogger's core (core/src) as definitions of HOL, with the theorems that make it correct.

  \<^bold>\<open>The program.\<close> A producer fills a \<open>Record\<close> (fixed fields, a 96-byte message payload and
  32-byte key-value slots), taken from a lock-free pool, and pushes a pointer to it into a
  bounded lock-free ring. Admission policies (level threshold, token bucket, backpressure)
  decide whether a record is taken. A drain thread runs every record through the pipeline:
  filters, field providers, the assignment of a log sequence number (LSN), the secret
  detector, processors, and, for audit records, a content hash and an Ed25519 signature that
  covers the predecessor; the signature goes to a sidecar file, and the command line tool
  verifies a log against its sidecar. A sink behind the network is guarded by a circuit
  breaker and probed by canaries. On the wire a record is a SIF frame whose SHA-256 content
  hash the decoder recomputes, and a consumer of audit records refuses replays. Plugins are
  checked for dependencies between their fields when they are loaded and for their quotas
  while they run, and write records only through the host accessor; the settings of a logger
  come from a tree of domains.

  \<^bold>\<open>Theories.\<close> (paths below core/src)
  \<^item> \<open>Prelude\<close>: machine integers, little-endian words, decimal printing and parsing, UTF-8
    validity, results; the collections of simplification rules. \<open>Machine\<close>: step functions,
    reachable states and the locale \<open>safe_machine\<close>, the contract of an invariant.
  \<^item> \<open>Util_Hex\<close> (util/hex.rs): encoders, decoders and their errors.
  \<^item> \<open>Kv\<close> (record/kv.rs), \<open>Record_String\<close>, \<open>Record_Tags\<close>, \<open>Log_Record\<close>, \<open>Field_Api\<close>
    (record/mod.rs): the slot with its inline and heap representations, the payload union,
    levels, tags and the process-wide vendor map, the record's accessors over an abstract
    map from tags to values, the permission rings and the string field interface.
  \<^item> \<open>Sif_Codec\<close>, \<open>Sif_Correct\<close>, \<open>Sif_Stream\<close> (sif/codec.rs): encoder, header validation,
    decoder under limits, borrowed view, reusable encoder, frame scanner; the round trip, what
    any successful decode guarantees, and independence of how the bytes arrive.
  \<^item> \<open>Ring_Buffer\<close> (buffer/ring_buffer.rs) and \<open>Object_Pool\<close> (buffer/object_pool.rs): machines
    of the atomic accesses for any number of threads, with an invariant from which order,
    conservation and exclusive ownership follow; the whole operations as functions.
  \<^item> \<open>Policy\<close>, \<open>Backpressure\<close>, \<open>Circuit_Breaker\<close>, \<open>Canary\<close> (pipeline/policy.rs,
    backpressure.rs, circuit_breaker.rs, canary.rs): the gates, with the locale
    \<open>admission_gate\<close> that says every decision is counted exactly once, interpreted for the
    rate limiter, the level policy and the backpressure controller.
  \<^item> \<open>Error_Codes\<close> (error.rs) and \<open>Ffi\<close> (ffi.rs, plugin/vtable.rs): the table of error codes,
    reports and the error structure of the C interface; field access through C strings and
    caller-owned buffers.
  \<^item> \<open>Secret_Detector\<close> (security/secret_detector.rs): the rules and the scan, with its panics.
    \<open>Stages\<close> (pipeline/stages.rs): the pipeline from the policies to the signature with
    arbitrary plugins, and what holds of every record that leaves it. \<open>Engine\<close> (ffi.rs,
    pipeline/scheduler.rs, lib.rs): submission, helping and the consumer over the queues, the
    pool and the pipeline, with the invariant that every record has exactly one owner.
  \<^item> \<open>Buffered_File\<close>, \<open>Worm_Sink\<close> (sink/worm.rs), \<open>Audit_Pipeline\<close>, \<open>Audit_Trail\<close> (security/audit.rs,
    sink/security.rs, security/external_anchor.rs): a file behind a buffered writer, the
    write-once file with its reorder window, the isolated pipeline of audit records, and that
    what it leaves behind passes the verification of the command line tool.
  \<^item> \<open>Signature\<close> (security/signature.rs), \<open>Sidecar\<close>, \<open>Verify_Log\<close> (cli/src/commands/verify.rs):
    signing and the chain of predecessors, the sidecar's lines, and the verification of a log:
    a log that passes holds a prefix of what was signed, and an honestly signed log passes.
  \<^item> \<open>Key_Rotation\<close> (security/key_rotation.rs): the manager of signing keys, its rotations and its
    revocation list; which signatures it accepts in any reachable state.
  \<^item> \<open>Shm_Ring\<close> (sink/shm.rs and the reader of include/dologger_shm.h): the shared-memory ring as
    whole operations, refined by a bounded queue, and step by step, where that promise fails.
  \<^item> \<open>Emergency_Buffer\<close> (buffer/emergency_buffer.rs): spilling to a file and recovery, refined by
    a queue.
  \<^item> \<open>Unicode_Text\<close>, \<open>Text_Codec\<close>, \<open>Text_Output\<close> (codec/mod.rs, policy.rs, log_output.rs): scalar
    values with UTF-8 and UTF-16, the encodings and the detection, the choice of an encoding and
    the line encoder; exactness of the Unicode forms and what holds of every line written.
  \<^item> \<open>Platform\<close>, \<open>Settings\<close> (config/settings.rs, config/encoding.rs): the settings file table by
    table, the ladder from the defaults to the overrides, and that whatever is read the result is
    well formed. \<open>Config_Watcher\<close> (config/watcher.rs): the turns of the polling, inotify and
    Windows loops and the debounced reload. \<open>Hot_Reload\<close> (config/hot_reload.rs): epochs, saved
    states and history as a machine of calls.
  \<^item> \<open>Plugin_Manager\<close> (plugin/manager.rs, phase.rs): trust anchors and their store, loading and
    discovery with the gate every plugin passes, start and shutdown, the dispatch tables.
    \<open>Sandbox\<close> (plugin/sandbox.rs): policies and the filter program with its semantics.
  \<^item> \<open>Control_Plane\<close> (sys/control_plane.rs): the counters, the reader of requests, every endpoint
    and the loop; the answers as JSON that reads back. \<open>Sinks\<close> (sink/console.rs, callback.rs,
    file.rs, fanout.rs, registry.rs): the local sinks behind one contract, and their broadcast.
    \<open>Time_Source\<close> (sys/time.rs): clocks and the identifiers of records.
  \<^item> \<open>Replay_Guard\<close>, \<open>Crc32c\<close> (security/replay_guard.rs, crc32c.rs): the bounded guard, refined
    by a log of the accepted records; the checksum's table, its hardware paths and the
    byte-by-byte reference.
  \<^item> \<open>Domain\<close> (config/domain.rs): inheritance of settings. \<open>Quota\<close>, \<open>Dependency\<close>
    (plugin/quota.rs, dependency.rs): enforcement of quotas, and the search for cycles among
    the plugins, exact with respect to the cycles of the dependency graph.

  \<^bold>\<open>Correspondence.\<close> A struct is a record, an enum a datatype, an operation on \<open>&mut self\<close> a
  function returning the updated state. Integers keep their width (\<open>u8\<close>, \<open>u16\<close>, \<open>u32\<close>,
  \<open>u64\<close> are words) except \<open>usize\<close> lengths and the ring's sequence numbers, which are
  naturals. An \<open>Instant\<close> is a number of nanoseconds and an argument of the call that reads
  the clock. A double is an exact rational. A hash map is an association list whose order
  stands for the iteration order, or a map where nothing iterates over it. A lock makes an
  operation atomic; the lock-free components are machines whose steps are single atomic
  accesses in sequentially consistent memory. Diagnostics and logging lines are left out.
  Errors are values: \<open>Inl\<close> the error, or \<open>None\<close> where the code returns nothing.

  \<^bold>\<open>Fuel and loops.\<close> The search for cycles takes one unit of fuel per nested call;
  \<open>dfs_fuel\<close>, one more than the keys of the graph, is proved enough. Collecting the ancestors
  of a domain is a partial function with value \<open>None\<close> for a loop that does not end, proved to
  return for every manager built without replacing a domain. All other loops are structural
  recursions or have a termination proof.

  \<^bold>\<open>Parameters.\<close> SHA-256 (the crate sha2), Ed25519 (ed25519-dalek) and the processor's checksum
  instructions, AES-GCM, the Win32 code page conversions, the TOML parser, the file system, the
  environment and what a plugin library answers are arguments of the definitions that
  use them. The laws assumed of them are
  the documented ones: a hash has 32 bytes, a signature made with a key verifies under its
  public key, a wide checksum operation equals the byte operation on its bytes in order; that
  a log is tamper-evident also assumes that no two inputs that occur have the same hash and
  that the verified signatures were made by the signer. Plugins are arbitrary functions.

  \<^bold>\<open>Not modelled.\<close> The sinks over sockets, brokers and databases; opening a dynamic library, the kernel's
  side of the sandbox and of file watching, and the TOML parser (parameters of the theories
  above); key storage (the TPM and operating system randomness); the FlatBuffers backend
  (generated code over a third-party format); the threads of the scheduler, of the audit
  pipeline, of the watcher and of the thread pool; the remaining commands of the command line,
  and localisation.
\<close>

end
